(* ===== verification/Json.thy ===== *)
theory Json
  imports Prelude
begin

text \<open>
  Plain JavaScript data, as the modelled code sees it after JSON or YAML parsing: numbers, strings,
  arrays and objects with their own-key enumeration order, \<open>Object.hasOwn\<close>, property assignment,
  strict equality and the relational operators on numbers and strings.

  Strings are lists of HOL characters, that is of UTF-16 code units up to 255; a number is
  a double, given by its exact integer value or by its shortest round-trip decimal digits.
\<close>

named_theorems obj_simps \<open>lookup and update of plain objects\<close>

section \<open>Numbers\<close>

text \<open>
  \<open>FracN neg ds e\<close> is the non-integral double whose shortest decimal form is
  \<open>d.ddd * 10^e\<close>; the map from doubles to shortest decimals is injective and monotone, so
  comparing the decimals compares the doubles.
\<close>

datatype jsnum = NaN | PosInf | NegInf | NegZero | IntN int | FracN bool "nat list" int

fun digits_val :: "nat \<Rightarrow> nat list \<Rightarrow> nat" where
  "digits_val acc [] = acc"
| "digits_val acc (d # ds) = digits_val (10 * acc + d) ds"

definition scale10 :: "rat \<Rightarrow> int \<Rightarrow> rat" where
  "scale10 r e = (if 0 \<le> e then r * 10 ^ nat e else r / 10 ^ nat (- e))"

fun num_val :: "jsnum \<Rightarrow> rat option" where
  "num_val NaN = None"
| "num_val PosInf = None"
| "num_val NegInf = None"
| "num_val NegZero = Some 0"
| "num_val (IntN n) = Some (of_int n)"
| "num_val (FracN neg ds e) =
     (let v = scale10 (of_nat (digits_val 0 ds)) (e - (int (length ds) - 1))
      in Some (if neg then - v else v))"

text \<open>\<open>x === y\<close> and \<open>x < y\<close> on numbers (every comparison with NaN is false).\<close>

fun num_eq :: "jsnum \<Rightarrow> jsnum \<Rightarrow> bool" where
  "num_eq NaN y = False"
| "num_eq x NaN = False"
| "num_eq PosInf y = (y = PosInf)"
| "num_eq NegInf y = (y = NegInf)"
| "num_eq x y = (num_val x = num_val y)"

fun num_lt :: "jsnum \<Rightarrow> jsnum \<Rightarrow> bool" where
  "num_lt NaN y = False"
| "num_lt x NaN = False"
| "num_lt PosInf y = False"
| "num_lt x NegInf = False"
| "num_lt NegInf y = True"
| "num_lt x PosInf = True"
| "num_lt x y = (case (num_val x, num_val y) of (Some a, Some b) \<Rightarrow> a < b | _ \<Rightarrow> False)"

definition num_le :: "jsnum \<Rightarrow> jsnum \<Rightarrow> bool" where
  "num_le x y \<longleftrightarrow> num_lt x y \<or> num_eq x y"

lemma num_lt_irrefl [simp]: "\<not> num_lt x x"
  by (cases x) (auto simp: Let_def)

lemma num_val_None_iff: "num_val x = None \<longleftrightarrow> x = NaN \<or> x = PosInf \<or> x = NegInf"
  by (cases x) (auto simp: Let_def)

lemma num_lt_not_eq: "num_lt x y \<Longrightarrow> \<not> num_eq x y"
  by (cases x; cases y) (auto simp: Let_def)

lemma num_lt_asym: "num_lt x y \<Longrightarrow> \<not> num_lt y x"
  by (cases x; cases y) (auto simp: Let_def)

section \<open>Values\<close>

datatype jv =
    JNull
  | JBool bool
  | JNum jsnum
  | JStr string
  | JArr "jv list"
  | JObj "(string \<times> jv) list"

lemma jv_field_size [termination_simp]:
  "(k, v) \<in> set kvs \<Longrightarrow> size v < Suc (size_list (size_prod (\<lambda>_. 0) size) kvs)"
  by (induction kvs) auto

lemma jv_map_of_size [termination_simp]:
  "map_of kvs k = Some v \<Longrightarrow> size v < Suc (size_list (size_prod (\<lambda>_. 0) size) kvs)"
  by (rule jv_field_size) (rule map_of_SomeD)

lemma size_elem_le: "x \<in> set xs \<Longrightarrow> size x \<le> size_list size xs"
  by (induction xs) auto

datatype js_type = T_object | T_boolean | T_number | T_string

fun js_typeof :: "jv \<Rightarrow> js_type" where
  "js_typeof (JBool _) = T_boolean"
| "js_typeof (JNum _) = T_number"
| "js_typeof (JStr _) = T_string"
| "js_typeof _ = T_object"

text \<open>\<open>value !== null && typeof value === "object" && !Array.isArray(value)\<close>\<close>

fun is_plain :: "jv \<Rightarrow> bool" where
  "is_plain (JObj _) = True"
| "is_plain _ = False"

fun obj_fields :: "jv \<Rightarrow> (string \<times> jv) list" where
  "obj_fields (JObj kvs) = kvs"
| "obj_fields _ = []"

text \<open>Property names that are array indices: canonical decimals.\<close>

fun digits_of :: "string \<Rightarrow> nat \<Rightarrow> nat option" where
  "digits_of [] n = Some n"
| "digits_of (c # cs) n =
     (if of_char c \<ge> (48::nat) \<and> of_char c \<le> (57::nat)
      then digits_of cs (10 * n + (of_char c - 48)) else None)"

fun array_index :: "string \<Rightarrow> nat option" where
  "array_index [] = None"
| "array_index [c] = digits_of [c] 0"
| "array_index (c # cs) = (if c = CHR ''0'' then None else digits_of (c # cs) 0)"

definition index_key :: "string \<Rightarrow> nat option" where
  "index_key k = (case array_index k of None \<Rightarrow> None
     | Some n \<Rightarrow> if n < 2 ^ 32 - 1 then Some n else None)"

text \<open>\<open>Object.hasOwn(value, key)\<close> with the value read: objects, array elements and array length.\<close>

fun own_prop :: "jv \<Rightarrow> string \<Rightarrow> jv option" where
  "own_prop (JObj kvs) k = map_of kvs k"
| "own_prop (JArr xs) k =
     (if k = ''length'' then Some (JNum (IntN (int (length xs))))
      else case array_index k of None \<Rightarrow> None
           | Some n \<Rightarrow> if n < length xs then Some (xs ! n) else None)"
| "own_prop _ k = None"

text \<open>
  \<open>obj[key] = value\<close> on an object given by its own enumerable properties in the order of
  \<open>Object.keys\<close>: an existing key keeps its place, a new array-index key goes among
  the index keys in ascending order, any other new key goes last.
\<close>

fun insert_index :: "nat \<Rightarrow> string \<Rightarrow> 'v \<Rightarrow> (string \<times> 'v) list \<Rightarrow> (string \<times> 'v) list" where
  "insert_index n k v [] = [(k, v)]"
| "insert_index n k v ((k', v') # kvs) =
     (case index_key k' of
        Some m \<Rightarrow> if m < n then (k', v') # insert_index n k v kvs else (k, v) # (k', v') # kvs
      | None \<Rightarrow> (k, v) # (k', v') # kvs)"

fun replace_key :: "string \<Rightarrow> 'v \<Rightarrow> (string \<times> 'v) list \<Rightarrow> (string \<times> 'v) list" where
  "replace_key k v [] = []"
| "replace_key k v ((k', v') # kvs) =
     (if k' = k then (k, v) # kvs else (k', v') # replace_key k v kvs)"

definition obj_put :: "string \<Rightarrow> 'v \<Rightarrow> (string \<times> 'v) list \<Rightarrow> (string \<times> 'v) list" where
  "obj_put k v kvs =
     (if k \<in> fst ` set kvs then replace_key k v kvs
      else case index_key k of Some n \<Rightarrow> insert_index n k v kvs | None \<Rightarrow> kvs @ [(k, v)])"

definition obj_delete :: "string \<Rightarrow> (string \<times> 'v) list \<Rightarrow> (string \<times> 'v) list" where
  "obj_delete k kvs = filter (\<lambda>(k', _). k' \<noteq> k) kvs"

text \<open>\<open>Object.assign(target, source)\<close>, and \<open>{...target, ...source}\<close>.\<close>

definition obj_assign :: "(string \<times> 'v) list \<Rightarrow> (string \<times> 'v) list \<Rightarrow> (string \<times> 'v) list" where
  "obj_assign target source = fold (\<lambda>(k, v) acc. obj_put k v acc) source target"

definition has_key :: "string \<Rightarrow> (string \<times> 'v) list \<Rightarrow> bool" where
  "has_key k kvs \<longleftrightarrow> k \<in> fst ` set kvs"

lemma map_of_insert_index:
  "k \<notin> fst ` set kvs \<Longrightarrow> map_of (insert_index n k v kvs) k' = ((map_of kvs)(k \<mapsto> v)) k'"
  by (induction n k v kvs rule: insert_index.induct) (auto split: option.splits)

lemma map_of_replace_key:
  "k \<in> fst ` set kvs \<Longrightarrow> map_of (replace_key k v kvs) k' = ((map_of kvs)(k \<mapsto> v)) k'"
  by (induction k v kvs rule: replace_key.induct) (auto simp: rev_image_eqI)

lemma map_of_obj_put [obj_simps]: "map_of (obj_put k v kvs) = (map_of kvs)(k \<mapsto> v)"
proof (rule ext)
  fix k'
  show "map_of (obj_put k v kvs) k' = ((map_of kvs)(k \<mapsto> v)) k'"
  proof (cases "k \<in> fst ` set kvs")
    case True
    then show ?thesis by (simp add: obj_put_def map_of_replace_key)
  next
    case False
    then have "map_of kvs k = None" by (simp add: map_of_eq_None_iff)
    with False show ?thesis
      by (auto simp: obj_put_def map_of_insert_index map_add_def split: option.splits)
  qed
qed

lemma map_of_obj_delete [obj_simps]: "map_of (obj_delete k kvs) = (map_of kvs)(k := None)"
  by (rule ext, induction kvs) (auto simp: obj_delete_def)

lemma set_insert_index: "fst ` set (insert_index n k v kvs) = insert k (fst ` set kvs)"
  by (induction n k v kvs rule: insert_index.induct) (auto split: option.splits)

lemma keys_replace_key [simp]: "map fst (replace_key k v kvs) = map fst kvs"
  by (induction k v kvs rule: replace_key.induct) auto

lemma set_replace_key [simp]: "fst ` set (replace_key k v kvs) = fst ` set kvs"
  by (metis keys_replace_key list.set_map)

lemma keys_obj_put [obj_simps]: "fst ` set (obj_put k v kvs) = insert k (fst ` set kvs)"
  by (auto simp: obj_put_def set_insert_index image_Un split: option.splits)

lemma keys_obj_delete [obj_simps]: "fst ` set (obj_delete k kvs) = fst ` set kvs - {k}"
  by (force simp: obj_delete_def)

lemma distinct_insert_index:
  "distinct (map fst kvs) \<Longrightarrow> k \<notin> fst ` set kvs \<Longrightarrow> distinct (map fst (insert_index n k v kvs))"
  by (induction n k v kvs rule: insert_index.induct) (auto simp: set_insert_index split: option.splits)

lemma distinct_obj_put [simp, intro]:
  "distinct (map fst kvs) \<Longrightarrow> distinct (map fst (obj_put k v kvs))"
  by (auto simp: obj_put_def distinct_insert_index split: option.splits)

lemma distinct_obj_delete [simp, intro]:
  "distinct (map fst kvs) \<Longrightarrow> distinct (map fst (obj_delete k kvs))"
  by (auto simp: obj_delete_def distinct_map inj_on_def)

lemma map_of_obj_assign [obj_simps]:
  "distinct (map fst source) \<Longrightarrow> map_of (obj_assign target source) = map_of target ++ map_of source"
proof (induction source arbitrary: target)
  case Nil
  then show ?case by (simp add: obj_assign_def)
next
  case (Cons kv source)
  obtain k v where kv: "kv = (k, v)" by (cases kv)
  from Cons.prems have "map_of source k = None" by (simp add: kv map_of_eq_None_iff)
  with Cons kv show ?case
    by (auto simp: obj_assign_def map_of_obj_put map_add_def fun_eq_iff split: option.splits)
qed

lemma distinct_obj_assign [simp, intro]:
  "distinct (map fst target) \<Longrightarrow> distinct (map fst (obj_assign target source))"
  by (induction source arbitrary: target) (auto simp: obj_assign_def split: prod.splits)

lemma has_key_iff [obj_simps]: "has_key k kvs \<longleftrightarrow> map_of kvs k \<noteq> None"
  by (simp add: has_key_def map_of_eq_None_iff)

text \<open>
  The value at the end of a path of own keys; \<open>None\<close> as soon as a step meets anything but a plain object
  with that key.
\<close>

fun value_at :: "jv \<Rightarrow> string list \<Rightarrow> jv option" where
  "value_at v [] = Some v"
| "value_at (JObj kvs) (k # ks) = (case map_of kvs k of None \<Rightarrow> None | Some v \<Rightarrow> value_at v ks)"
| "value_at _ (k # ks) = None"

section \<open>Operators\<close>

text \<open>
  \<open>x === y\<close> on two values that are not the same reference: arrays and objects of separately
  parsed documents are never identical.
\<close>

fun strict_eq :: "jv \<Rightarrow> jv \<Rightarrow> bool" where
  "strict_eq JNull JNull = True"
| "strict_eq (JBool a) (JBool b) = (a = b)"
| "strict_eq (JNum a) (JNum b) = num_eq a b"
| "strict_eq (JStr a) (JStr b) = (a = b)"
| "strict_eq _ _ = False"

text \<open>\<open>a < b\<close> on strings compares code units, a proper prefix being smaller.\<close>

fun str_lt :: "string \<Rightarrow> string \<Rightarrow> bool" where
  "str_lt a [] = False"
| "str_lt [] (b # bs) = True"
| "str_lt (a # as) (b # bs) =
     (if a = b then str_lt as bs else (of_char a :: nat) < of_char b)"

definition str_le :: "string \<Rightarrow> string \<Rightarrow> bool" where
  "str_le a b \<longleftrightarrow> str_lt a b \<or> a = b"

lemma str_lt_irrefl [simp]: "\<not> str_lt a a"
  by (induction a) auto

lemma str_lt_asym: "str_lt a b \<Longrightarrow> \<not> str_lt b a"
  by (induction a b rule: str_lt.induct) (auto split: if_splits)

lemma str_lt_trans: "str_lt a b \<Longrightarrow> str_lt b c \<Longrightarrow> str_lt a c"
proof (induction a c arbitrary: b rule: str_lt.induct)
  case (1 a)
  then show ?case by (cases b) auto
next
  case (2 b' bs)
  then show ?case by simp
next
  case (3 a as c cs)
  then obtain b' bs where b: "b = b' # bs" by (cases b) auto
  with 3 show ?case by (auto split: if_splits)
qed

lemma str_lt_linear: "a \<noteq> b \<Longrightarrow> str_lt a b \<or> str_lt b a"
proof (induction a b rule: str_lt.induct)
  case (1 a)
  then show ?case by (cases a) auto
next
  case (3 a as b bs)
  have "a \<noteq> b \<Longrightarrow> (of_char a :: nat) \<noteq> of_char b" by simp
  with 3 show ?case by (fastforce simp: nat_neq_iff)
qed simp_all

text \<open>\<open>keys.sort()\<close> without a comparison function: by code units.\<close>

fun insert_string :: "string \<Rightarrow> string list \<Rightarrow> string list" where
  "insert_string x [] = [x]"
| "insert_string x (y # ys) = (if str_lt y x then y # insert_string x ys else x # y # ys)"

definition sort_strings :: "string list \<Rightarrow> string list" where
  "sort_strings xs = foldr insert_string xs []"

lemma set_insert_string [simp]: "set (insert_string x ys) = insert x (set ys)"
  by (induction x ys rule: insert_string.induct) auto

lemma set_sort_strings [simp]: "set (sort_strings xs) = set xs"
  unfolding sort_strings_def by (induction xs) auto

lemma distinct_insert_string [simp]:
  "distinct (insert_string x ys) \<longleftrightarrow> x \<notin> set ys \<and> distinct ys"
  by (induction x ys rule: insert_string.induct) auto

lemma distinct_sort_strings [simp]: "distinct (sort_strings xs) \<longleftrightarrow> distinct xs"
proof -
  have "set (foldr insert_string xs []) = set xs" for xs
    by (induction xs) auto
  then show ?thesis
    unfolding sort_strings_def by (induction xs) auto
qed

lemma length_insert_string [simp]: "length (insert_string x ys) = Suc (length ys)"
  by (induction x ys rule: insert_string.induct) auto

lemma length_sort_strings [simp]: "length (sort_strings xs) = length xs"
  unfolding sort_strings_def by (induction xs) auto

section \<open>Text of values\<close>

text \<open>
  \<open>Number.prototype.toString\<close> and \<open>JSON.stringify\<close>. The decimal of an integer is
  JavaScript's text for every integer up to \<open>2^53\<close> in magnitude.
\<close>

definition digit_char :: "nat \<Rightarrow> char" where
  "digit_char d = char_of (48 + d mod 10)"

fun nat_text :: "nat \<Rightarrow> string" where
  "nat_text n = (if n < 10 then [digit_char n] else nat_text (n div 10) @ [digit_char (n mod 10)])"

declare nat_text.simps [simp del]

definition int_text :: "int \<Rightarrow> string" where
  "int_text i = (if i < 0 then CHR ''-'' # nat_text (nat (- i)) else nat_text (nat i))"

definition mantissa_text :: "nat list \<Rightarrow> string" where
  "mantissa_text ds = (case ds of [] \<Rightarrow> [] | [d] \<Rightarrow> [digit_char d]
     | d # rest \<Rightarrow> digit_char d # CHR ''.'' # map digit_char rest)"

definition frac_text :: "bool \<Rightarrow> nat list \<Rightarrow> int \<Rightarrow> string" where
  "frac_text neg ds e =
     (let n = e + 1; digits = map digit_char ds; sgn = (if neg then ''-'' else [])
      in sgn @
        (if 0 < n \<and> n \<le> 21 then take (nat n) digits @ ''.'' @ drop (nat n) digits
         else if - 6 < n \<and> n \<le> 0 then ''0.'' @ replicate (nat (- n)) (CHR ''0'') @ digits
         else mantissa_text ds @ ''e'' @ (if e < 0 then ''-'' else ''+'') @ nat_text (nat \<bar>e\<bar>)))"

fun num_text :: "jsnum \<Rightarrow> string" where
  "num_text NaN = ''NaN''"
| "num_text PosInf = ''Infinity''"
| "num_text NegInf = ''-Infinity''"
| "num_text NegZero = ''0''"
| "num_text (IntN n) = int_text n"
| "num_text (FracN neg ds e) = frac_text neg ds e"

definition hex_char :: "nat \<Rightarrow> char" where
  "hex_char d = (if d < 10 then char_of (48 + d) else char_of (87 + d))"

definition backslash :: char where
  "backslash = char_of (92::nat)"

definition dquote :: char where
  "dquote = char_of (34::nat)"

definition escape_char :: "char \<Rightarrow> string" where
  "escape_char c =
     (let n = (of_char c :: nat) in
      if c = dquote then [backslash, dquote]
      else if c = backslash then [backslash, backslash]
      else if n = 8 then [backslash, CHR ''b'']
      else if n = 12 then [backslash, CHR ''f'']
      else if n = 10 then [backslash, CHR ''n'']
      else if n = 13 then [backslash, CHR ''r'']
      else if n = 9 then [backslash, CHR ''t'']
      else if n < 32 then [backslash, CHR ''u'', CHR ''0'', CHR ''0'', hex_char (n div 16), hex_char (n mod 16)]
      else [c])"

definition quote_string :: "string \<Rightarrow> string" where
  "quote_string s = [dquote] @ concat (map escape_char s) @ [dquote]"

fun join :: "string \<Rightarrow> string list \<Rightarrow> string" where
  "join sep [] = []"
| "join sep [x] = x"
| "join sep (x # xs) = x @ sep @ join sep xs"

fun stringify :: "jv \<Rightarrow> string" where
  "stringify JNull = ''null''"
| "stringify (JBool b) = (if b then ''true'' else ''false'')"
| "stringify (JNum n) =
     (if n = NaN \<or> n = PosInf \<or> n = NegInf then ''null'' else num_text n)"
| "stringify (JStr s) = quote_string s"
| "stringify (JArr xs) = ''['' @ join '','' (map stringify xs) @ '']''"
| "stringify (JObj kvs) =
     ''{'' @ join '','' (map (\<lambda>(k, v). quote_string k @ '':'' @ stringify v) kvs) @ ''}''"

end
