(* ===== verification/Plan.thy ===== *)
theory Plan
  imports Json
begin

text \<open>
  The workflow plan of \<open>packages/typescript/yaml/src/workflow-plan.ts\<close>: its data, the
  evaluation and rendering of \<open>when\<close> gates, context paths, the walks over a plan's steps, and the
  retry and timeout options the interpreter gives each activity.
\<close>

section \<open>Plan data\<close>

record retry_policy_plan =
  maximumAttempts :: nat
  initialIntervalMs :: nat
  maximumIntervalMs :: "nat option"
  backoffCoefficient :: jsnum

definition DEFAULT_MAP_CONCURRENCY :: nat where
  "DEFAULT_MAP_CONCURRENCY = 5"

definition DEFAULT_START_TO_CLOSE_TIMEOUT_MS :: nat where
  "DEFAULT_START_TO_CLOSE_TIMEOUT_MS = 120000"

definition DEFAULT_ACTIVITY_RETRY :: retry_policy_plan where
  "DEFAULT_ACTIVITY_RETRY =
     \<lparr>maximumAttempts = 5, initialIntervalMs = 1000, maximumIntervalMs = Some 60000,
      backoffCoefficient = IntN 2\<rparr>"

record activity_timeout_options =
  startToCloseTimeoutMs :: "nat option"
  heartbeatTimeoutMs :: "nat option"
  ato_retry :: "retry_policy_plan option"

datatype compensation_status = Comp_none | Comp_complete | Comp_partial

datatype plan_when_op = Op_eq | Op_neq | Op_lt | Op_lte | Op_gt | Op_gte | Op_in | Op_exists

record plan_when_leaf =
  leaf_path :: string
  leaf_op :: plan_when_op
  leaf_value :: jv

datatype when_mode = Mode_leaf | Mode_all | Mode_any

record plan_when =
  when_mode :: when_mode
  predicates :: "plan_when_leaf list"

record compensate_plan =
  comp_activity :: string
  comp_inputFrom :: "string option"
  comp_retry :: "retry_policy_plan option"

record session_cache_plan =
  cache_enabled :: bool
  cache_ttlSeconds :: "jsnum option"

record map_config =
  map_over :: string
  map_concurrency :: "nat option"
  map_collectField :: "string option"
  map_collectMaxBytes :: "nat option"

datatype on_timeout = Timeout_fail | Timeout_cancel | Timeout_route

datatype invalid_policy = Invalid_warn | Invalid_fail

record review_plan =
  afterStep :: string
  userDecisions :: "(string \<times> string) list"
  invalidUserDecision :: invalid_policy
  timeoutSeconds :: "nat option"
  onTimeout :: "on_timeout option"
  timeoutRoute :: "string option"

record gate_plan = review_plan +
  gate_id :: string

record lifecycle_plan =
  progress :: bool
  cancellation :: bool
  statusEventLimit :: nat
  review :: "review_plan option"
  gates :: "gate_plan list option"

datatype plan_step =
    ActivityStep string string "plan_when option" "compensate_plan option"
  | MapStep string string map_config "session_cache_plan option" "plan_when option" "compensate_plan option"
  | ParallelStep string "plan_branch list" "nat option" "plan_when option"
  | SubworkflowStep string child_identity "plan_when option" "compensate_plan option"
  | SubworkflowMapStep string child_identity map_config "plan_when option"
and plan_branch = PlanBranch string "plan_when option" "plan_step list"
and child_identity =
    ChildIdentity (ci_workflowId: string) (ci_workflowName: string) (ci_project: string)
      (ci_childDigest: string) (ci_versionLabel: "string option") (ci_plan: workflow_plan)
and workflow_plan =
    WorkflowPlan (wp_steps: "plan_step list") (wp_lifecycle: "lifecycle_plan option")
      (wp_activityOptions: "(string \<times> activity_timeout_options) list option")
      (wp_retryPolicy: "retry_policy_plan option")

fun step_id :: "plan_step \<Rightarrow> string" where
  "step_id (ActivityStep i _ _ _) = i"
| "step_id (MapStep i _ _ _ _ _) = i"
| "step_id (ParallelStep i _ _ _) = i"
| "step_id (SubworkflowStep i _ _ _) = i"
| "step_id (SubworkflowMapStep i _ _ _) = i"

fun step_when :: "plan_step \<Rightarrow> plan_when option" where
  "step_when (ActivityStep _ _ w _) = w"
| "step_when (MapStep _ _ _ _ w _) = w"
| "step_when (ParallelStep _ _ _ w) = w"
| "step_when (SubworkflowStep _ _ w _) = w"
| "step_when (SubworkflowMapStep _ _ _ w) = w"

fun step_compensate :: "plan_step \<Rightarrow> compensate_plan option" where
  "step_compensate (ActivityStep _ _ _ c) = c"
| "step_compensate (MapStep _ _ _ _ _ c) = c"
| "step_compensate (SubworkflowStep _ _ _ c) = c"
| "step_compensate _ = None"

fun branch_id :: "plan_branch \<Rightarrow> string" where
  "branch_id (PlanBranch i _ _) = i"

fun branch_when :: "plan_branch \<Rightarrow> plan_when option" where
  "branch_when (PlanBranch _ w _) = w"

fun branch_steps :: "plan_branch \<Rightarrow> plan_step list" where
  "branch_steps (PlanBranch _ _ ss) = ss"

section \<open>Context paths\<close>

text \<open>\<open>resolveContextPath\<close> throws where a part is not an own property of a traversable value.\<close>

datatype path_error = Cannot_resolve string string

fun resolve_parts :: "string \<Rightarrow> jv \<Rightarrow> string list \<Rightarrow> (path_error, jv) result" where
  "resolve_parts path current [] = Inr current"
| "resolve_parts path current (part # parts) =
     (case own_prop current part of
        None \<Rightarrow> Inl (Cannot_resolve path part)
      | Some next_value \<Rightarrow> resolve_parts path next_value parts)"

type_synonym ctx = "(string \<times> jv) list"

definition resolveContextPath :: "ctx \<Rightarrow> string \<Rightarrow> (path_error, jv) result" where
  "resolveContextPath ctx path = resolve_parts path (JObj ctx) (split_dots path)"

section \<open>When gates\<close>

datatype when_error =
    When_path path_error
  | When_cannot_order string plan_when_op js_type js_type

definition resolve_for_when :: "ctx \<Rightarrow> string \<Rightarrow> (when_error, jv) result" where
  "resolve_for_when ctx path =
     (case resolveContextPath ctx path of Inl e \<Rightarrow> Inl (When_path e) | Inr v \<Rightarrow> Inr v)"

fun order_num :: "plan_when_op \<Rightarrow> jsnum \<Rightarrow> jsnum \<Rightarrow> bool" where
  "order_num Op_lt a b = num_lt a b"
| "order_num Op_lte a b = num_le a b"
| "order_num Op_gt a b = num_lt b a"
| "order_num _ a b = num_le b a"

fun order_str :: "plan_when_op \<Rightarrow> string \<Rightarrow> string \<Rightarrow> bool" where
  "order_str Op_lt a b = str_lt a b"
| "order_str Op_lte a b = str_le a b"
| "order_str Op_gt a b = str_lt b a"
| "order_str _ a b = str_le b a"

fun order_values :: "string \<Rightarrow> plan_when_op \<Rightarrow> jv \<Rightarrow> jv \<Rightarrow> (when_error, bool) result" where
  "order_values path op (JNum a) (JNum b) = Inr (order_num op a b)"
| "order_values path op (JStr a) (JStr b) = Inr (order_str op a b)"
| "order_values path op v w = Inl (When_cannot_order path op (js_typeof v) (js_typeof w))"

definition evaluateWhenLeaf :: "plan_when_leaf \<Rightarrow> ctx \<Rightarrow> (when_error, bool) result" where
  "evaluateWhenLeaf leaf ctx =
     (if leaf_op leaf = Op_exists then
        Inr ((case resolveContextPath ctx (leaf_path leaf) of Inl _ \<Rightarrow> False | Inr _ \<Rightarrow> True)
             = (leaf_value leaf = JBool True))
      else rbind (resolve_for_when ctx (leaf_path leaf)) (\<lambda>resolved.
        (case leaf_op leaf of
           Op_eq \<Rightarrow> Inr (strict_eq resolved (leaf_value leaf))
         | Op_neq \<Rightarrow> Inr (\<not> strict_eq resolved (leaf_value leaf))
         | Op_in \<Rightarrow> Inr (case leaf_value leaf of
             JArr cs \<Rightarrow> (\<exists>c\<in>set cs. strict_eq c resolved) | _ \<Rightarrow> False)
         | op \<Rightarrow> order_values (leaf_path leaf) op resolved (leaf_value leaf))))"

fun some_leaf :: "plan_when_leaf list \<Rightarrow> ctx \<Rightarrow> (when_error, bool) result" where
  "some_leaf [] ctx = Inr False"
| "some_leaf (l # ls) ctx =
     rbind (evaluateWhenLeaf l ctx) (\<lambda>b. if b then Inr True else some_leaf ls ctx)"

fun every_leaf :: "plan_when_leaf list \<Rightarrow> ctx \<Rightarrow> (when_error, bool) result" where
  "every_leaf [] ctx = Inr True"
| "every_leaf (l # ls) ctx =
     rbind (evaluateWhenLeaf l ctx) (\<lambda>b. if b then every_leaf ls ctx else Inr False)"

definition evaluatePlanWhen :: "plan_when \<Rightarrow> ctx \<Rightarrow> (when_error, bool) result" where
  "evaluatePlanWhen w ctx =
     (if when_mode w = Mode_any then some_leaf (predicates w) ctx
      else every_leaf (predicates w) ctx)"

definition renderWhenLeaf :: "plan_when_leaf \<Rightarrow> string" where
  "renderWhenLeaf leaf =
     (case leaf_op leaf of
        Op_eq \<Rightarrow> leaf_path leaf @ '' == '' @ stringify (leaf_value leaf)
      | Op_neq \<Rightarrow> leaf_path leaf @ '' != '' @ stringify (leaf_value leaf)
      | Op_lt \<Rightarrow> leaf_path leaf @ '' < '' @ stringify (leaf_value leaf)
      | Op_lte \<Rightarrow> leaf_path leaf @ '' <= '' @ stringify (leaf_value leaf)
      | Op_gt \<Rightarrow> leaf_path leaf @ '' > '' @ stringify (leaf_value leaf)
      | Op_gte \<Rightarrow> leaf_path leaf @ '' >= '' @ stringify (leaf_value leaf)
      | Op_in \<Rightarrow> leaf_path leaf @ '' in '' @ stringify (leaf_value leaf)
      | Op_exists \<Rightarrow> (if leaf_value leaf = JBool True then leaf_path leaf @ '' exists''
                     else leaf_path leaf @ '' not exists''))"

definition mode_text :: "when_mode \<Rightarrow> string" where
  "mode_text m = (case m of Mode_leaf \<Rightarrow> ''leaf'' | Mode_all \<Rightarrow> ''all'' | Mode_any \<Rightarrow> ''any'')"

text \<open>A gate with no predicates does not pass the plan guard; \<open>parts[0]\<close> is then defined.\<close>

definition renderPlanWhen :: "plan_when \<Rightarrow> string" where
  "renderPlanWhen w =
     (let parts = map renderWhenLeaf (predicates w) in
      if when_mode w = Mode_leaf then (case parts of [] \<Rightarrow> ''undefined'' | p # _ \<Rightarrow> p)
      else mode_text (when_mode w) @ ''('' @ join '', '' parts @ '')'')"

section \<open>Walks over the steps of a plan\<close>

text \<open>\<open>flattenPlanSteps\<close>, \<open>flattenCompensationActivities\<close> and \<open>flattenSubworkflowSteps\<close>.\<close>

fun flattenPlanSteps :: "plan_step list \<Rightarrow> plan_step list"
  and flatten_branches :: "plan_branch list \<Rightarrow> plan_step list" where
  "flattenPlanSteps [] = []"
| "flattenPlanSteps (ParallelStep i bs m w # ss) = flatten_branches bs @ flattenPlanSteps ss"
| "flattenPlanSteps (ActivityStep i a w c # ss) = ActivityStep i a w c # flattenPlanSteps ss"
| "flattenPlanSteps (MapStep i a mc sc w c # ss) = MapStep i a mc sc w c # flattenPlanSteps ss"
| "flattenPlanSteps (SubworkflowStep i ci w c # ss) = flattenPlanSteps ss"
| "flattenPlanSteps (SubworkflowMapStep i ci mc w # ss) = flattenPlanSteps ss"
| "flatten_branches [] = []"
| "flatten_branches (PlanBranch i w ss # bs) = flattenPlanSteps ss @ flatten_branches bs"

fun flattenCompensationActivities :: "plan_step list \<Rightarrow> (string \<times> string) list"
  and flatten_compensation_branches :: "plan_branch list \<Rightarrow> (string \<times> string) list" where
  "flattenCompensationActivities [] = []"
| "flattenCompensationActivities (ParallelStep i bs m w # ss) =
     flatten_compensation_branches bs @ flattenCompensationActivities ss"
| "flattenCompensationActivities (s # ss) =
     (case step_compensate s of None \<Rightarrow> [] | Some c \<Rightarrow> [(step_id s, comp_activity c)])
     @ flattenCompensationActivities ss"
| "flatten_compensation_branches [] = []"
| "flatten_compensation_branches (PlanBranch i w ss # bs) =
     flattenCompensationActivities ss @ flatten_compensation_branches bs"

fun flattenSubworkflowSteps :: "plan_step list \<Rightarrow> plan_step list"
  and flatten_subworkflow_branches :: "plan_branch list \<Rightarrow> plan_step list" where
  "flattenSubworkflowSteps [] = []"
| "flattenSubworkflowSteps (ParallelStep i bs m w # ss) =
     flatten_subworkflow_branches bs @ flattenSubworkflowSteps ss"
| "flattenSubworkflowSteps (SubworkflowStep i ci w c # ss) =
     SubworkflowStep i ci w c # flattenSubworkflowSteps ss"
| "flattenSubworkflowSteps (SubworkflowMapStep i ci mc w # ss) =
     SubworkflowMapStep i ci mc w # flattenSubworkflowSteps ss"
| "flattenSubworkflowSteps (ActivityStep i a w c # ss) = flattenSubworkflowSteps ss"
| "flattenSubworkflowSteps (MapStep i a mc sc w c # ss) = flattenSubworkflowSteps ss"
| "flatten_subworkflow_branches [] = []"
| "flatten_subworkflow_branches (PlanBranch i w ss # bs) =
     flattenSubworkflowSteps ss @ flatten_subworkflow_branches bs"

section \<open>Retry and timeout options\<close>

record activity_retry_proxy_options =
  proxy_maximumAttempts :: "nat option"
  proxy_initialInterval :: nat
  proxy_maximumInterval :: "nat option"
  proxy_backoffCoefficient :: jsnum

record activity_proxy_options =
  startToCloseTimeout :: nat
  heartbeatTimeout :: "nat option"
  proxy_retry :: activity_retry_proxy_options

definition options_of :: "workflow_plan \<Rightarrow> string \<Rightarrow> activity_timeout_options option" where
  "options_of plan name = Option.bind (wp_activityOptions plan) (\<lambda>opts. map_of opts name)"

definition resolvedActivityRetryPlan :: "workflow_plan \<Rightarrow> string \<Rightarrow> retry_policy_plan" where
  "resolvedActivityRetryPlan plan name =
     (case Option.bind (options_of plan name) ato_retry of
        Some r \<Rightarrow> r
      | None \<Rightarrow> (case wp_retryPolicy plan of Some r \<Rightarrow> r | None \<Rightarrow> DEFAULT_ACTIVITY_RETRY))"

definition retryProxyOptionsFrom :: "retry_policy_plan \<Rightarrow> activity_retry_proxy_options" where
  "retryProxyOptionsFrom r =
     \<lparr>proxy_maximumAttempts = (if maximumAttempts r > 0 then Some (maximumAttempts r) else None),
      proxy_initialInterval = initialIntervalMs r,
      proxy_maximumInterval = maximumIntervalMs r,
      proxy_backoffCoefficient = backoffCoefficient r\<rparr>"

definition activityProxyOptions :: "workflow_plan \<Rightarrow> string \<Rightarrow> activity_proxy_options" where
  "activityProxyOptions plan name =
     (let retryPlan = resolvedActivityRetryPlan plan name in
      \<lparr>startToCloseTimeout =
         (case Option.bind (options_of plan name) startToCloseTimeoutMs of
            Some t \<Rightarrow> t | None \<Rightarrow> DEFAULT_START_TO_CLOSE_TIMEOUT_MS),
       heartbeatTimeout = Option.bind (options_of plan name) heartbeatTimeoutMs,
       proxy_retry =
         \<lparr>proxy_maximumAttempts =
            (if maximumAttempts retryPlan > 0 then Some (maximumAttempts retryPlan) else None),
          proxy_initialInterval = initialIntervalMs retryPlan,
          proxy_maximumInterval = maximumIntervalMs retryPlan,
          proxy_backoffCoefficient = backoffCoefficient retryPlan\<rparr>\<rparr>)"

definition cacheActivityProxyOptions :: "workflow_plan \<Rightarrow> string \<Rightarrow> activity_proxy_options" where
  "cacheActivityProxyOptions plan name =
     (let options = activityProxyOptions plan name in
      \<lparr>startToCloseTimeout = startToCloseTimeout options,
       heartbeatTimeout = None,
       proxy_retry = proxy_retry options\<rparr>)"

text \<open>\<open>childIdentityMemo\<close>: the memo a child execution is started with.\<close>

definition childIdentityMemo :: "child_identity \<Rightarrow> string \<Rightarrow> (string \<times> string) list" where
  "childIdentityMemo ci parentWorkflowId =
     [(''typeflux_spec_digest'', ci_childDigest ci),
      (''typeflux_workflow'', ci_workflowName ci),
      (''typeflux_project'', ci_project ci)]
     @ (case ci_versionLabel ci of Some v \<Rightarrow> [(''typeflux_workflow_version'', v)] | None \<Rightarrow> [])
     @ [(''typeflux_parent_workflow_id'', parentWorkflowId)]"

end
