(* ===== verification/Plan_Guard.thy ===== *)
theory Plan_Guard
  imports Plan
begin

text \<open>
  The plan-shape guard of \<open>packages/typescript/yaml/src/workflow-plan.ts\<close>: the plan reaches the
  interpreter as plain data, and \<open>planUnsupportedReason\<close> rejects every shape the interpreter does
  not implement. The reasons are values here; the source renders them as text.
\<close>

section \<open>Known keys\<close>

definition KNOWN_PLAN_KEYS :: "string list" where
  "KNOWN_PLAN_KEYS = [''steps'', ''lifecycle'', ''activityOptions'', ''retryPolicy'']"

definition SUBWORKFLOW_IDENTITY_KEYS :: "string list" where
  "SUBWORKFLOW_IDENTITY_KEYS =
     [''workflowId'', ''workflowName'', ''project'', ''childDigest'', ''plan'']"

definition KNOWN_STEP_KEYS :: "(string \<times> string list) list" where
  "KNOWN_STEP_KEYS =
     [(''activity'', [''kind'', ''id'', ''activity'', ''when'', ''compensate'']),
      (''map'', [''kind'', ''id'', ''activity'', ''over'', ''concurrency'', ''collectField'',
                 ''collectMaxBytes'', ''sessionCache'', ''when'', ''compensate'']),
      (''parallel'', [''kind'', ''id'', ''branches'', ''collectMaxBytes'', ''when'']),
      (''subworkflow'', [''kind'', ''id''] @ SUBWORKFLOW_IDENTITY_KEYS
                 @ [''versionLabel'', ''when'', ''compensate'']),
      (''subworkflowMap'', [''kind'', ''id''] @ SUBWORKFLOW_IDENTITY_KEYS
                 @ [''versionLabel'', ''over'', ''concurrency'', ''collectField'',
                    ''collectMaxBytes'', ''when''])]"

definition REQUIRED_STEP_KEYS :: "string \<Rightarrow> string list" where
  "REQUIRED_STEP_KEYS kind =
     (if kind = ''activity'' then [''id'', ''activity'']
      else if kind = ''map'' then [''id'', ''activity'', ''over'']
      else if kind = ''parallel'' then [''id'', ''branches'']
      else if kind = ''subworkflow'' then ''id'' # SUBWORKFLOW_IDENTITY_KEYS
      else if kind = ''subworkflowMap'' then [''id''] @ SUBWORKFLOW_IDENTITY_KEYS @ [''over'']
      else [])"

definition KNOWN_BRANCH_KEYS :: "string list" where
  "KNOWN_BRANCH_KEYS = [''id'', ''when'', ''steps'']"

definition KNOWN_COMPENSATE_KEYS :: "string list" where
  "KNOWN_COMPENSATE_KEYS = [''activity'', ''inputFrom'', ''retry'']"

definition KNOWN_RETRY_KEYS :: "string list" where
  "KNOWN_RETRY_KEYS =
     [''maximumAttempts'', ''initialIntervalMs'', ''maximumIntervalMs'', ''backoffCoefficient'']"

definition KNOWN_WHEN_KEYS :: "string list" where
  "KNOWN_WHEN_KEYS = [''mode'', ''predicates'']"

definition KNOWN_WHEN_MODES :: "string list" where
  "KNOWN_WHEN_MODES = [''leaf'', ''all'', ''any'']"

definition KNOWN_WHEN_LEAF_KEYS :: "string list" where
  "KNOWN_WHEN_LEAF_KEYS = [''path'', ''op'', ''value'']"

definition PLAN_WHEN_OPS :: "string list" where
  "PLAN_WHEN_OPS = [''eq'', ''neq'', ''lt'', ''lte'', ''gt'', ''gte'', ''in'', ''exists'']"

definition KNOWN_LIFECYCLE_KEYS :: "string list" where
  "KNOWN_LIFECYCLE_KEYS = [''progress'', ''cancellation'', ''statusEventLimit'', ''review'', ''gates'']"

definition KNOWN_REVIEW_KEYS :: "string list" where
  "KNOWN_REVIEW_KEYS =
     [''afterStep'', ''userDecisions'', ''invalidUserDecision'', ''timeoutSeconds'', ''onTimeout'',
      ''timeoutRoute'']"

definition KNOWN_GATE_KEYS :: "string list" where
  "KNOWN_GATE_KEYS = ''id'' # KNOWN_REVIEW_KEYS"

section \<open>Reasons\<close>

datatype guard_label = Step_label "string option" | Branch_label string

datatype review_label = Plan_review | Plan_gate

datatype guard_reason =
    Plan_not_object
  | Plan_unknown_keys "string list"
  | Plan_no_steps
  | Step_not_object
  | Step_unknown_kind guard_label "jv option"
  | Step_missing_keys guard_label string "string list"
  | Step_unknown_keys guard_label "string list"
  | Embedded_plan guard_label guard_reason
  | No_branches guard_label
  | Branch_not_object guard_label
  | Branch_unknown_keys guard_label "string list"
  | Branch_no_id guard_label
  | Branch_duplicate guard_label string
  | When_not_object guard_label
  | When_unknown_keys guard_label "string list"
  | When_bad_mode guard_label "jv option"
  | When_no_predicates guard_label
  | When_leaf_count guard_label nat
  | When_leaf_not_object guard_label
  | When_leaf_unknown_keys guard_label "string list"
  | When_leaf_bad_op guard_label "jv option"
  | Compensate_not_object guard_label
  | Compensate_unknown_keys guard_label "string list"
  | Compensate_no_activity guard_label
  | Compensate_bad_inputFrom guard_label
  | Compensate_bad_retry guard_label
  | Compensate_retry_unknown_keys guard_label "string list"
  | Lifecycle_not_object
  | Lifecycle_unknown_keys "string list"
  | Gates_not_array
  | Gate_no_id
  | Review_not_object review_label
  | Review_unknown_keys review_label "string list"
  | Review_no_afterStep review_label
  | Review_no_userDecisions review_label
  | Review_bad_invalid_policy review_label "jv option"

section \<open>The checks\<close>

definition unknownKeysOf :: "jv \<Rightarrow> string list \<Rightarrow> string list" where
  "unknownKeysOf v known =
     sort_strings (filter (\<lambda>k. k \<notin> set known) (map fst (obj_fields v)))"

definition field :: "jv \<Rightarrow> string \<Rightarrow> jv option" where
  "field v k = map_of (obj_fields v) k"

fun is_string :: "jv option \<Rightarrow> bool" where
  "is_string (Some (JStr _)) = True"
| "is_string _ = False"

definition when_leaf_reason :: "guard_label \<Rightarrow> jv \<Rightarrow> guard_reason option" where
  "when_leaf_reason label leaf =
     orelse (reason_if (\<not> is_plain leaf) (When_leaf_not_object label))
     (orelse (reason_if (unknownKeysOf leaf KNOWN_WHEN_LEAF_KEYS \<noteq> [])
                (When_leaf_unknown_keys label (unknownKeysOf leaf KNOWN_WHEN_LEAF_KEYS)))
     (case field leaf ''op'' of
        Some (JStr op) \<Rightarrow> reason_if (op \<notin> set PLAN_WHEN_OPS) (When_leaf_bad_op label (Some (JStr op)))
      | op \<Rightarrow> Some (When_leaf_bad_op label op)))"

definition whenUnsupportedReason :: "jv \<Rightarrow> guard_label \<Rightarrow> guard_reason option" where
  "whenUnsupportedReason w label =
     orelse (reason_if (\<not> is_plain w) (When_not_object label))
     (orelse (reason_if (unknownKeysOf w KNOWN_WHEN_KEYS \<noteq> [])
                (When_unknown_keys label (unknownKeysOf w KNOWN_WHEN_KEYS)))
     (case field w ''mode'' of
        Some (JStr m) \<Rightarrow>
          if m \<notin> set KNOWN_WHEN_MODES then Some (When_bad_mode label (Some (JStr m)))
          else (case field w ''predicates'' of
             Some (JArr (l # ls)) \<Rightarrow>
               if m = ''leaf'' \<and> ls \<noteq> [] then Some (When_leaf_count label (length (l # ls)))
               else find_some (when_leaf_reason label) (l # ls)
           | _ \<Rightarrow> Some (When_no_predicates label))
      | m \<Rightarrow> Some (When_bad_mode label m)))"

definition compensateUnsupportedReason :: "jv \<Rightarrow> guard_label \<Rightarrow> guard_reason option" where
  "compensateUnsupportedReason c label =
     orelse (reason_if (\<not> is_plain c) (Compensate_not_object label))
     (orelse (reason_if (unknownKeysOf c KNOWN_COMPENSATE_KEYS \<noteq> [])
                (Compensate_unknown_keys label (unknownKeysOf c KNOWN_COMPENSATE_KEYS)))
     (orelse (case field c ''activity'' of
                Some (JStr a) \<Rightarrow> reason_if (a = []) (Compensate_no_activity label)
              | _ \<Rightarrow> Some (Compensate_no_activity label))
     (orelse (reason_if (field c ''inputFrom'' \<noteq> None \<and> \<not> is_string (field c ''inputFrom''))
                (Compensate_bad_inputFrom label))
     (case field c ''retry'' of
        None \<Rightarrow> None
      | Some r \<Rightarrow>
          orelse (reason_if (\<not> is_plain r) (Compensate_bad_retry label))
            (reason_if (unknownKeysOf r KNOWN_RETRY_KEYS \<noteq> [])
              (Compensate_retry_unknown_keys label (unknownKeysOf r KNOWN_RETRY_KEYS)))))))"

definition reviewNodeUnsupportedReason ::
    "jv \<Rightarrow> review_label \<Rightarrow> string list \<Rightarrow> guard_reason option" where
  "reviewNodeUnsupportedReason node label knownKeys =
     orelse (reason_if (\<not> is_plain node) (Review_not_object label))
     (orelse (reason_if (unknownKeysOf node knownKeys \<noteq> [])
                (Review_unknown_keys label (unknownKeysOf node knownKeys)))
     (orelse (reason_if (\<not> is_string (field node ''afterStep'')) (Review_no_afterStep label))
     (orelse (case field node ''userDecisions'' of
                Some (JObj _) \<Rightarrow> None | _ \<Rightarrow> Some (Review_no_userDecisions label))
     (reason_if (field node ''invalidUserDecision'' \<noteq> Some (JStr ''warn'')
                 \<and> field node ''invalidUserDecision'' \<noteq> Some (JStr ''fail''))
        (Review_bad_invalid_policy label (field node ''invalidUserDecision''))))))"

definition gate_reason :: "jv \<Rightarrow> guard_reason option" where
  "gate_reason gate =
     orelse (reason_if (is_plain gate \<and> \<not> is_string (field gate ''id'')) Gate_no_id)
       (reviewNodeUnsupportedReason gate Plan_gate KNOWN_GATE_KEYS)"

definition lifecycle_reason :: "jv \<Rightarrow> guard_reason option" where
  "lifecycle_reason lc =
     orelse (reason_if (\<not> is_plain lc) Lifecycle_not_object)
     (orelse (reason_if (unknownKeysOf lc KNOWN_LIFECYCLE_KEYS \<noteq> [])
                (Lifecycle_unknown_keys (unknownKeysOf lc KNOWN_LIFECYCLE_KEYS)))
     (orelse (case field lc ''review'' of
                None \<Rightarrow> None | Some r \<Rightarrow> reviewNodeUnsupportedReason r Plan_review KNOWN_REVIEW_KEYS)
     (case field lc ''gates'' of
        None \<Rightarrow> None
      | Some (JArr (g # gs)) \<Rightarrow> find_some gate_reason (g # gs)
      | Some _ \<Rightarrow> Some Gates_not_array)))"

definition step_label :: "jv \<Rightarrow> guard_label" where
  "step_label step = Step_label (case field step ''id'' of Some (JStr i) \<Rightarrow> Some i | _ \<Rightarrow> None)"

text \<open>The checks of one step that do not descend into nested plans or branches.\<close>

definition step_shape_reason :: "jv \<Rightarrow> guard_reason option" where
  "step_shape_reason step =
     orelse (reason_if (\<not> is_plain step) Step_not_object)
     (case field step ''kind'' of
        Some (JStr kind) \<Rightarrow>
          (case map_of KNOWN_STEP_KEYS kind of
             None \<Rightarrow> Some (Step_unknown_kind (step_label step) (Some (JStr kind)))
           | Some known \<Rightarrow>
               (let missing = filter (\<lambda>k. field step k = None) (REQUIRED_STEP_KEYS kind) in
                orelse (reason_if (missing \<noteq> []) (Step_missing_keys (step_label step) kind missing))
                (orelse (reason_if (unknownKeysOf step known \<noteq> [])
                          (Step_unknown_keys (step_label step) (unknownKeysOf step known)))
                (orelse (case field step ''when'' of
                           None \<Rightarrow> None | Some w \<Rightarrow> whenUnsupportedReason w (step_label step))
                (case field step ''compensate'' of
                   None \<Rightarrow> None | Some c \<Rightarrow> compensateUnsupportedReason c (step_label step))))))
      | kind \<Rightarrow> Some (Step_unknown_kind (step_label step) kind))"

text \<open>The checks of one branch before its steps; \<open>seen\<close> holds the ids of the branches before it.\<close>

definition branch_shape_reason :: "guard_label \<Rightarrow> string list \<Rightarrow> jv \<Rightarrow> guard_reason option" where
  "branch_shape_reason label seen branch =
     orelse (reason_if (\<not> is_plain branch) (Branch_not_object label))
     (orelse (reason_if (unknownKeysOf branch KNOWN_BRANCH_KEYS \<noteq> [])
                (Branch_unknown_keys label (unknownKeysOf branch KNOWN_BRANCH_KEYS)))
     (case field branch ''id'' of
        Some (JStr i) \<Rightarrow>
          orelse (reason_if (i \<in> set seen) (Branch_duplicate label i))
          (case field branch ''when'' of
             None \<Rightarrow> None | Some w \<Rightarrow> whenUnsupportedReason w (Branch_label i))
      | _ \<Rightarrow> Some (Branch_no_id label)))"

definition string_field :: "jv \<Rightarrow> string \<Rightarrow> string" where
  "string_field v k = (case field v k of Some (JStr s) \<Rightarrow> s | _ \<Rightarrow> [])"

lemma field_size:
  assumes "field v k = Some w"
  shows "size w < size v"
proof (cases v)
  case (JObj kvs)
  with assms have "(k, w) \<in> set kvs" by (auto simp: field_def dest: map_of_SomeD)
  with JObj show ?thesis by (simp add: jv_field_size)
qed (use assms in \<open>auto simp: field_def\<close>)

function (sequential) stepsUnsupportedReason :: "jv option \<Rightarrow> guard_reason option"
  and step_reason :: "jv \<Rightarrow> guard_reason option"
  and branches_reason :: "guard_label \<Rightarrow> string list \<Rightarrow> jv list \<Rightarrow> guard_reason option"
  and planUnsupportedReason :: "jv option \<Rightarrow> guard_reason option" where
  "stepsUnsupportedReason (Some (JArr (s # ss))) = find_some step_reason (s # ss)"
| "stepsUnsupportedReason _ = Some Plan_no_steps"
| "step_reason step =
     orelse (step_shape_reason step)
     (orelse (if string_field step ''kind'' = ''subworkflow'' \<or> string_field step ''kind'' = ''subworkflowMap''
              then map_option (Embedded_plan (step_label step))
                     (case field step ''plan'' of
                        None \<Rightarrow> Some Plan_not_object | Some p \<Rightarrow> planUnsupportedReason (Some p))
              else None)
     (if string_field step ''kind'' = ''parallel''
      then (case field step ''branches'' of
              Some (JArr (b # bs)) \<Rightarrow> branches_reason (step_label step) [] (b # bs)
            | _ \<Rightarrow> Some (No_branches (step_label step)))
      else None))"
| "branches_reason label seen [] = None"
| "branches_reason label seen (b # bs) =
     orelse (branch_shape_reason label seen b)
     (orelse (case field b ''steps'' of
                None \<Rightarrow> Some Plan_no_steps | Some ss \<Rightarrow> stepsUnsupportedReason (Some ss))
     (branches_reason label (string_field b ''id'' # seen) bs))"
| "planUnsupportedReason (Some (JObj kvs)) =
     orelse (reason_if (unknownKeysOf (JObj kvs) KNOWN_PLAN_KEYS \<noteq> [])
               (Plan_unknown_keys (unknownKeysOf (JObj kvs) KNOWN_PLAN_KEYS)))
     (orelse (case map_of kvs ''steps'' of
                None \<Rightarrow> Some Plan_no_steps | Some ss \<Rightarrow> stepsUnsupportedReason (Some ss))
     (case map_of kvs ''lifecycle'' of None \<Rightarrow> None | Some lc \<Rightarrow> lifecycle_reason lc))"
| "planUnsupportedReason _ = Some Plan_not_object"
  by pat_completeness auto
termination
  by (relation "measure (\<lambda>x. case x of
      Inl (Inl (Some j)) \<Rightarrow> 2 * size j | Inl (Inl None) \<Rightarrow> 0
    | Inl (Inr j) \<Rightarrow> 2 * size j
    | Inr (Inl (label, seen, bs)) \<Rightarrow> Suc (2 * size_list size bs)
    | Inr (Inr (Some j)) \<Rightarrow> 2 * size j | Inr (Inr None) \<Rightarrow> 0)")
    (auto dest!: field_size jv_map_of_size size_elem_le)

section \<open>Plans as data\<close>

text \<open>
  The object a typed plan is on the wire: the fields the builder's object literals
  have, optional ones left out when absent.
\<close>

definition opt_field :: "string \<Rightarrow> ('a \<Rightarrow> jv) \<Rightarrow> 'a option \<Rightarrow> (string \<times> jv) list" where
  "opt_field k f x = (case x of None \<Rightarrow> [] | Some v \<Rightarrow> [(k, f v)])"

definition enc_nat :: "nat \<Rightarrow> jv" where
  "enc_nat n = JNum (IntN (int n))"

definition enc_retry :: "retry_policy_plan \<Rightarrow> jv" where
  "enc_retry r = JObj ([(''maximumAttempts'', enc_nat (maximumAttempts r)),
      (''initialIntervalMs'', enc_nat (initialIntervalMs r)),
      (''backoffCoefficient'', JNum (backoffCoefficient r))]
      @ opt_field ''maximumIntervalMs'' enc_nat (maximumIntervalMs r))"

definition op_name :: "plan_when_op \<Rightarrow> string" where
  "op_name op = (case op of Op_eq \<Rightarrow> ''eq'' | Op_neq \<Rightarrow> ''neq'' | Op_lt \<Rightarrow> ''lt'' | Op_lte \<Rightarrow> ''lte''
     | Op_gt \<Rightarrow> ''gt'' | Op_gte \<Rightarrow> ''gte'' | Op_in \<Rightarrow> ''in'' | Op_exists \<Rightarrow> ''exists'')"

definition enc_leaf :: "plan_when_leaf \<Rightarrow> jv" where
  "enc_leaf l = JObj [(''path'', JStr (leaf_path l)), (''op'', JStr (op_name (leaf_op l))),
     (''value'', leaf_value l)]"

definition enc_when :: "plan_when \<Rightarrow> jv" where
  "enc_when w = JObj [(''mode'', JStr (mode_text (when_mode w))),
     (''predicates'', JArr (map enc_leaf (predicates w)))]"

definition enc_compensate :: "compensate_plan \<Rightarrow> jv" where
  "enc_compensate c = JObj ((''activity'', JStr (comp_activity c))
     # opt_field ''inputFrom'' JStr (comp_inputFrom c) @ opt_field ''retry'' enc_retry (comp_retry c))"

definition enc_session_cache :: "session_cache_plan \<Rightarrow> jv" where
  "enc_session_cache c = JObj ((''enabled'', JBool (cache_enabled c))
     # opt_field ''ttlSeconds'' JNum (cache_ttlSeconds c))"

definition enc_map_config :: "map_config \<Rightarrow> (string \<times> jv) list" where
  "enc_map_config m = (''over'', JStr (map_over m))
     # opt_field ''concurrency'' enc_nat (map_concurrency m)
     @ opt_field ''collectField'' JStr (map_collectField m)
     @ opt_field ''collectMaxBytes'' enc_nat (map_collectMaxBytes m)"

definition timeout_name :: "on_timeout \<Rightarrow> string" where
  "timeout_name t = (case t of Timeout_fail \<Rightarrow> ''fail'' | Timeout_cancel \<Rightarrow> ''cancel''
     | Timeout_route \<Rightarrow> ''route'')"

definition invalid_name :: "invalid_policy \<Rightarrow> string" where
  "invalid_name p = (case p of Invalid_warn \<Rightarrow> ''warn'' | Invalid_fail \<Rightarrow> ''fail'')"

definition enc_review_fields :: "('a review_plan_scheme) \<Rightarrow> (string \<times> jv) list" where
  "enc_review_fields r =
     [(''afterStep'', JStr (afterStep r)),
      (''userDecisions'', JObj (map (\<lambda>(d, t). (d, JStr t)) (userDecisions r))),
      (''invalidUserDecision'', JStr (invalid_name (invalidUserDecision r)))]
     @ opt_field ''timeoutSeconds'' enc_nat (timeoutSeconds r)
     @ opt_field ''onTimeout'' (\<lambda>t. JStr (timeout_name t)) (onTimeout r)
     @ opt_field ''timeoutRoute'' JStr (timeoutRoute r)"

definition enc_gate :: "gate_plan \<Rightarrow> jv" where
  "enc_gate g = JObj ((''id'', JStr (gate_id g)) # enc_review_fields g)"

definition enc_lifecycle :: "lifecycle_plan \<Rightarrow> jv" where
  "enc_lifecycle l = JObj ([(''progress'', JBool (progress l)),
      (''cancellation'', JBool (cancellation l)),
      (''statusEventLimit'', enc_nat (statusEventLimit l))]
     @ opt_field ''review'' (\<lambda>r. JObj (enc_review_fields r)) (review l)
     @ opt_field ''gates'' (\<lambda>gs. JArr (map enc_gate gs)) (gates l))"

definition enc_activity_options :: "(string \<times> activity_timeout_options) list \<Rightarrow> jv" where
  "enc_activity_options opts = JObj (map (\<lambda>(n, opt). (n, JObj (
      opt_field ''startToCloseTimeoutMs'' enc_nat (startToCloseTimeoutMs opt)
      @ opt_field ''heartbeatTimeoutMs'' enc_nat (heartbeatTimeoutMs opt)
      @ opt_field ''retry'' enc_retry (ato_retry opt)))) opts)"

fun enc_step :: "plan_step \<Rightarrow> jv"
  and enc_branch :: "plan_branch \<Rightarrow> jv"
  and enc_identity :: "child_identity \<Rightarrow> (string \<times> jv) list"
  and enc_plan :: "workflow_plan \<Rightarrow> jv" where
  "enc_step (ActivityStep i a w c) = JObj ([(''kind'', JStr ''activity''), (''id'', JStr i),
      (''activity'', JStr a)] @ opt_field ''when'' enc_when w @ opt_field ''compensate'' enc_compensate c)"
| "enc_step (MapStep i a m sc w c) = JObj ([(''kind'', JStr ''map''), (''id'', JStr i),
      (''activity'', JStr a)] @ enc_map_config m @ opt_field ''sessionCache'' enc_session_cache sc
      @ opt_field ''when'' enc_when w @ opt_field ''compensate'' enc_compensate c)"
| "enc_step (ParallelStep i bs mb w) = JObj ([(''kind'', JStr ''parallel''), (''id'', JStr i),
      (''branches'', JArr (map enc_branch bs))] @ opt_field ''collectMaxBytes'' enc_nat mb
      @ opt_field ''when'' enc_when w)"
| "enc_step (SubworkflowStep i ci w c) = JObj ([(''kind'', JStr ''subworkflow''), (''id'', JStr i)]
      @ enc_identity ci @ opt_field ''when'' enc_when w @ opt_field ''compensate'' enc_compensate c)"
| "enc_step (SubworkflowMapStep i ci m w) = JObj ([(''kind'', JStr ''subworkflowMap''), (''id'', JStr i)]
      @ enc_identity ci @ enc_map_config m @ opt_field ''when'' enc_when w)"
| "enc_branch (PlanBranch i w ss) = JObj ((''id'', JStr i) # opt_field ''when'' enc_when w
      @ [(''steps'', JArr (map enc_step ss))])"
| "enc_identity (ChildIdentity wid wn pr dg vl p) =
      [(''workflowId'', JStr wid), (''workflowName'', JStr wn), (''project'', JStr pr),
       (''childDigest'', JStr dg)] @ opt_field ''versionLabel'' JStr vl @ [(''plan'', enc_plan p)]"
| "enc_plan (WorkflowPlan ss lc ao rp) = JObj ((''steps'', JArr (map enc_step ss))
      # opt_field ''lifecycle'' enc_lifecycle lc
      @ opt_field ''activityOptions'' enc_activity_options ao
      @ opt_field ''retryPolicy'' enc_retry rp)"

section \<open>Well-formed plans\<close>

definition wf_when :: "plan_when \<Rightarrow> bool" where
  "wf_when w \<longleftrightarrow> predicates w \<noteq> [] \<and> (when_mode w = Mode_leaf \<longrightarrow> length (predicates w) = 1)"

definition wf_compensate :: "compensate_plan \<Rightarrow> bool" where
  "wf_compensate c \<longleftrightarrow> comp_activity c \<noteq> []"

definition wf_opt :: "('a \<Rightarrow> bool) \<Rightarrow> 'a option \<Rightarrow> bool" where
  "wf_opt P x \<longleftrightarrow> (case x of None \<Rightarrow> True | Some v \<Rightarrow> P v)"

definition wf_lifecycle :: "lifecycle_plan \<Rightarrow> bool" where
  "wf_lifecycle l \<longleftrightarrow> gates l \<noteq> Some []"

fun wf_step :: "plan_step \<Rightarrow> bool"
  and wf_branch :: "plan_branch \<Rightarrow> bool"
  and wf_identity :: "child_identity \<Rightarrow> bool"
  and wf_plan :: "workflow_plan \<Rightarrow> bool" where
  "wf_step (ActivityStep i a w c) \<longleftrightarrow> wf_opt wf_when w \<and> wf_opt wf_compensate c"
| "wf_step (MapStep i a m sc w c) \<longleftrightarrow> wf_opt wf_when w \<and> wf_opt wf_compensate c"
| "wf_step (ParallelStep i bs mb w) \<longleftrightarrow>
     wf_opt wf_when w \<and> bs \<noteq> [] \<and> distinct (map branch_id bs) \<and> (\<forall>b\<in>set bs. wf_branch b)"
| "wf_step (SubworkflowStep i ci w c) \<longleftrightarrow> wf_opt wf_when w \<and> wf_opt wf_compensate c \<and> wf_identity ci"
| "wf_step (SubworkflowMapStep i ci m w) \<longleftrightarrow> wf_opt wf_when w \<and> wf_identity ci"
| "wf_branch (PlanBranch i w ss) \<longleftrightarrow> wf_opt wf_when w \<and> ss \<noteq> [] \<and> (\<forall>s\<in>set ss. wf_step s)"
| "wf_identity (ChildIdentity wid wn pr dg vl p) \<longleftrightarrow> wf_plan p"
| "wf_plan (WorkflowPlan ss lc ao rp) \<longleftrightarrow>
     ss \<noteq> [] \<and> (\<forall>s\<in>set ss. wf_step s) \<and> wf_opt wf_lifecycle lc"

section \<open>Lemmas\<close>


lemma unknownKeysOf_Nil:
  "unknownKeysOf v known = [] \<longleftrightarrow> fst ` set (obj_fields v) \<subseteq> set known"
proof -
  have "unknownKeysOf v known = [] \<longleftrightarrow> set (unknownKeysOf v known) = {}" by simp
  also have "\<dots> \<longleftrightarrow> fst ` set (obj_fields v) \<subseteq> set known" by (auto simp: unknownKeysOf_def)
  finally show ?thesis .
qed

lemma keys_opt_field: "fst ` set (opt_field k f x) = (if x = None then {} else {k})"
  by (auto simp: opt_field_def split: option.splits)

lemma opt_field_key [dest!]: "(a, b) \<in> set (opt_field k f x) \<Longrightarrow> a = k"
  by (auto simp: opt_field_def split: option.splits)

lemma map_of_opt_field: "map_of (opt_field k f x) k' = (if k' = k then map_option f x else None)"
  by (auto simp: opt_field_def split: option.splits)

lemma is_plain_iff: "is_plain v \<longleftrightarrow> (\<exists>kvs. v = JObj kvs)"
  by (cases v) auto

lemmas guard_keys = KNOWN_PLAN_KEYS_def SUBWORKFLOW_IDENTITY_KEYS_def KNOWN_BRANCH_KEYS_def
  KNOWN_COMPENSATE_KEYS_def KNOWN_RETRY_KEYS_def KNOWN_WHEN_KEYS_def KNOWN_WHEN_MODES_def
  KNOWN_WHEN_LEAF_KEYS_def PLAN_WHEN_OPS_def KNOWN_LIFECYCLE_KEYS_def KNOWN_REVIEW_KEYS_def
  KNOWN_GATE_KEYS_def

lemmas enc_simps = unknownKeysOf_Nil keys_opt_field map_of_opt_field field_def map_add_def

lemma enc_leaf_ok: "when_leaf_reason lb (enc_leaf l) = None"
  by (cases "leaf_op l") (auto simp: when_leaf_reason_def enc_leaf_def op_name_def enc_simps guard_keys)

lemma enc_when_ok: "wf_when w \<Longrightarrow> whenUnsupportedReason (enc_when w) lb = None"
  by (cases "when_mode w"; cases "predicates w")
     (auto simp: whenUnsupportedReason_def enc_when_def wf_when_def mode_text_def enc_simps guard_keys
        enc_leaf_ok)

lemma enc_retry_ok: "unknownKeysOf (enc_retry r) KNOWN_RETRY_KEYS = []"
  by (auto simp: enc_retry_def enc_simps guard_keys image_Un)

lemma enc_retry_plain: "is_plain (enc_retry r)"
  by (simp add: enc_retry_def)

lemma enc_compensate_fields:
  obtains kvs where "enc_compensate c = JObj kvs"
    and "map_of kvs ''activity'' = Some (JStr (comp_activity c))"
    and "map_of kvs ''inputFrom'' = map_option JStr (comp_inputFrom c)"
    and "map_of kvs ''retry'' = map_option enc_retry (comp_retry c)"
    and "fst ` set kvs \<subseteq> set KNOWN_COMPENSATE_KEYS"
  by (auto simp: enc_compensate_def enc_simps guard_keys image_Un split: option.splits)

lemma enc_compensate_ok:
  assumes "wf_compensate c"
  shows "compensateUnsupportedReason (enc_compensate c) lb = None"
proof (rule enc_compensate_fields [of c])
  fix kvs
  assume "enc_compensate c = JObj kvs"
    "map_of kvs ''activity'' = Some (JStr (comp_activity c))"
    "map_of kvs ''inputFrom'' = map_option JStr (comp_inputFrom c)"
    "map_of kvs ''retry'' = map_option enc_retry (comp_retry c)"
    "fst ` set kvs \<subseteq> set KNOWN_COMPENSATE_KEYS"
  with assms show ?thesis
    by (cases "comp_inputFrom c"; cases "comp_retry c")
       (simp_all add: compensateUnsupportedReason_def unknownKeysOf_Nil [of "JObj kvs"] field_def
          wf_compensate_def enc_retry_ok enc_retry_plain)
qed

lemma enc_review_fields_facts:
  "map_of (enc_review_fields r) ''afterStep'' = Some (JStr (afterStep r))"
  "map_of (enc_review_fields r) ''userDecisions'' = Some (JObj (map (\<lambda>(d, t). (d, JStr t)) (userDecisions r)))"
  "map_of (enc_review_fields r) ''invalidUserDecision'' = Some (JStr (invalid_name (invalidUserDecision r)))"
  "fst ` set (enc_review_fields r) \<subseteq> set KNOWN_REVIEW_KEYS"
  by (auto simp: enc_review_fields_def enc_simps guard_keys image_Un)

lemma enc_review_ok:
  "reviewNodeUnsupportedReason (JObj (enc_review_fields r)) lb KNOWN_REVIEW_KEYS = None"
  by (cases "invalidUserDecision r")
     (simp_all add: reviewNodeUnsupportedReason_def unknownKeysOf_Nil field_def enc_review_fields_facts
        invalid_name_def)

lemma enc_gate_ok: "gate_reason (enc_gate g) = None"
proof -
  have "set KNOWN_REVIEW_KEYS \<subseteq> set KNOWN_GATE_KEYS" "''id'' \<in> set KNOWN_GATE_KEYS"
    by (auto simp: KNOWN_GATE_KEYS_def)
  with enc_review_fields_facts(4) [of g] have "fst ` set (enc_review_fields g) \<subseteq> set KNOWN_GATE_KEYS"
    by blast
  then show ?thesis
    by (cases "invalidUserDecision g")
       (simp_all add: gate_reason_def enc_gate_def reviewNodeUnsupportedReason_def unknownKeysOf_Nil
          field_def enc_review_fields_facts invalid_name_def KNOWN_GATE_KEYS_def)
qed

lemma enc_lifecycle_ok:
  assumes "wf_lifecycle l"
  shows "lifecycle_reason (enc_lifecycle l) = None"
proof -
  obtain kvs where kvs: "enc_lifecycle l = JObj kvs"
    and f: "map_of kvs ''review'' = map_option (\<lambda>r. JObj (enc_review_fields r)) (review l)"
      "map_of kvs ''gates'' = map_option (\<lambda>gs. JArr (map enc_gate gs)) (gates l)"
      "fst ` set kvs \<subseteq> set KNOWN_LIFECYCLE_KEYS"
    by (auto simp: enc_lifecycle_def enc_simps guard_keys image_Un split: option.splits)
  have gs: "gates l = Some gs \<Longrightarrow> \<exists>g gs'. gs = g # gs'" for gs
    using assms by (cases gs) (auto simp: wf_lifecycle_def)
  show ?thesis
    using f gs
    by (cases "review l"; cases "gates l")
       (auto simp: lifecycle_reason_def kvs unknownKeysOf_Nil field_def enc_review_ok enc_gate_ok)
qed


lemma known_keys [simp]:
  "map_of KNOWN_STEP_KEYS ''activity'' = Some [''kind'', ''id'', ''activity'', ''when'', ''compensate'']"
  "map_of KNOWN_STEP_KEYS ''map'' = Some [''kind'', ''id'', ''activity'', ''over'', ''concurrency'',
     ''collectField'', ''collectMaxBytes'', ''sessionCache'', ''when'', ''compensate'']"
  "map_of KNOWN_STEP_KEYS ''parallel'' = Some [''kind'', ''id'', ''branches'', ''collectMaxBytes'', ''when'']"
  "map_of KNOWN_STEP_KEYS ''subworkflow'' = Some ([''kind'', ''id''] @ SUBWORKFLOW_IDENTITY_KEYS
     @ [''versionLabel'', ''when'', ''compensate''])"
  "map_of KNOWN_STEP_KEYS ''subworkflowMap'' = Some ([''kind'', ''id''] @ SUBWORKFLOW_IDENTITY_KEYS
     @ [''versionLabel'', ''over'', ''concurrency'', ''collectField'', ''collectMaxBytes'', ''when''])"
  by (simp_all add: KNOWN_STEP_KEYS_def)

lemma opt_when_ok:
  "wf_opt wf_when w \<Longrightarrow>
   (case map_option enc_when w of None \<Rightarrow> None | Some v \<Rightarrow> whenUnsupportedReason v lb) = None"
  by (cases w) (auto simp: wf_opt_def enc_when_ok)

lemma opt_compensate_ok:
  "wf_opt wf_compensate c \<Longrightarrow>
   (case map_option enc_compensate c of None \<Rightarrow> None | Some v \<Rightarrow> compensateUnsupportedReason v lb) = None"
  by (cases c) (auto simp: wf_opt_def enc_compensate_ok)

text \<open>One step's own checks, from what its object holds.\<close>

lemma step_shape_okI:
  assumes "step = JObj kvs" and "map_of kvs ''kind'' = Some (JStr kind)"
    and "map_of KNOWN_STEP_KEYS kind = Some known"
    and "\<forall>k\<in>set (REQUIRED_STEP_KEYS kind). map_of kvs k \<noteq> None"
    and "fst ` set kvs \<subseteq> set known"
    and "map_of kvs ''when'' = map_option enc_when w" and "wf_opt wf_when w"
    and "map_of kvs ''compensate'' = map_option enc_compensate c" and "wf_opt wf_compensate c"
  shows "step_shape_reason step = None"
  using assms opt_when_ok [of w] opt_compensate_ok [of c]
  by (simp add: step_shape_reason_def field_def unknownKeysOf_Nil Let_def filter_empty_conv)

definition fields_of_identity :: "child_identity \<Rightarrow> (string \<times> jv) list \<Rightarrow> bool" where
  "fields_of_identity ci kvs \<longleftrightarrow>
     fst ` set kvs \<subseteq> insert ''versionLabel'' (set SUBWORKFLOW_IDENTITY_KEYS)
     \<and> (\<forall>k\<in>set SUBWORKFLOW_IDENTITY_KEYS. map_of kvs k \<noteq> None)
     \<and> map_of kvs ''plan'' = Some (enc_plan (ci_plan ci))"

lemma enc_identity_fields: "fields_of_identity ci (enc_identity ci)"
  by (cases ci) (auto simp: fields_of_identity_def enc_simps guard_keys image_Un split: option.splits)

lemma enc_map_config_keys:
  "fst ` set (enc_map_config m) \<subseteq> {''over'', ''concurrency'', ''collectField'', ''collectMaxBytes''}"
  "map_of (enc_map_config m) ''over'' = Some (JStr (map_over m))"
  by (auto simp: enc_map_config_def enc_simps image_Un)

lemma enc_map_config_key [dest!]:
  "(a, b) \<in> set (enc_map_config m) \<Longrightarrow> a \<in> {''over'', ''concurrency'', ''collectField'', ''collectMaxBytes''}"
  using enc_map_config_keys(1) [of m] by force

lemma enc_identity_key [dest!]:
  "(a, b) \<in> set (enc_identity ci) \<Longrightarrow> a \<in> insert ''versionLabel'' (set SUBWORKFLOW_IDENTITY_KEYS)"
  using enc_identity_fields [of ci] by (force simp: fields_of_identity_def)

lemma map_of_enc_map_config_None:
  "k \<notin> {''over'', ''concurrency'', ''collectField'', ''collectMaxBytes''} \<Longrightarrow> map_of (enc_map_config m) k = None"
  by (auto simp: enc_map_config_def enc_simps)

lemma map_of_enc_identity_None:
  "k \<notin> insert ''versionLabel'' (set SUBWORKFLOW_IDENTITY_KEYS) \<Longrightarrow> map_of (enc_identity ci) k = None"
  using enc_identity_fields [of ci] by (auto simp: fields_of_identity_def map_of_eq_None_iff)

lemma enc_step_kind:
  "field (enc_step s) ''kind'' = Some (JStr (case s of ActivityStep _ _ _ _ \<Rightarrow> ''activity''
     | MapStep _ _ _ _ _ _ \<Rightarrow> ''map'' | ParallelStep _ _ _ _ \<Rightarrow> ''parallel''
     | SubworkflowStep _ _ _ _ \<Rightarrow> ''subworkflow'' | SubworkflowMapStep _ _ _ _ \<Rightarrow> ''subworkflowMap''))"
  by (cases s) (simp_all add: field_def)

lemma enc_step_shape:
  assumes "wf_step s"
  shows "step_shape_reason (enc_step s) = None"
proof (cases s)
  case (ActivityStep i a w c)
  show ?thesis
    by (rule step_shape_okI [where kind = "''activity''" and w = w and c = c])
       (use assms ActivityStep in \<open>auto simp: enc_simps REQUIRED_STEP_KEYS_def image_Un split: option.splits\<close>)
next
  case (MapStep i a m sc w c)
  show ?thesis
    by (rule step_shape_okI [where kind = "''map''" and w = w and c = c])
       (use assms MapStep enc_map_config_keys(2) [of m] in
         \<open>auto simp: enc_simps REQUIRED_STEP_KEYS_def image_Un map_of_enc_map_config_None split: option.splits\<close>)
next
  case (ParallelStep i bs mb w)
  show ?thesis
    by (rule step_shape_okI [where kind = "''parallel''" and w = w and c = None])
       (use assms ParallelStep in \<open>auto simp: enc_simps REQUIRED_STEP_KEYS_def image_Un wf_opt_def split: option.splits\<close>)
next
  case (SubworkflowStep i ci w c)
  show ?thesis
    by (rule step_shape_okI [where kind = "''subworkflow''" and w = w and c = c])
       (use assms SubworkflowStep enc_identity_fields [of ci] in
         \<open>auto simp: enc_simps REQUIRED_STEP_KEYS_def image_Un fields_of_identity_def map_of_enc_identity_None
            guard_keys split: option.splits\<close>)
next
  case (SubworkflowMapStep i ci m w)
  show ?thesis
    by (rule step_shape_okI [where kind = "''subworkflowMap''" and w = w and c = None])
       (use assms SubworkflowMapStep enc_identity_fields [of ci] enc_map_config_keys(2) [of m] in
         \<open>auto simp: enc_simps REQUIRED_STEP_KEYS_def image_Un fields_of_identity_def map_of_enc_identity_None
            map_of_enc_map_config_None guard_keys wf_opt_def split: option.splits\<close>)
qed

declare step_reason.simps [simp del]

lemma branch_shape_ok:
  assumes "wf_opt wf_when w" and "i \<notin> set seen"
  shows "branch_shape_reason lb seen (enc_branch (PlanBranch i w ss)) = None"
  using assms opt_when_ok [of w]
  by (auto simp: branch_shape_reason_def enc_simps guard_keys image_Un split: option.splits)

lemma branches_ok:
  assumes "\<forall>b\<in>set bs. wf_branch b"
    and "\<forall>b\<in>set bs. stepsUnsupportedReason (Some (JArr (map enc_step (branch_steps b)))) = None"
    and "distinct (map branch_id bs)" and "set seen \<inter> branch_id ` set bs = {}"
  shows "branches_reason lb seen (map enc_branch bs) = None"
  using assms
proof (induction bs arbitrary: seen)
  case Nil
  then show ?case by simp
next
  case (Cons b bs)
  obtain i w ss where b: "b = PlanBranch i w ss" by (cases b)
  have "string_field (enc_branch b) ''id'' = i" and "field (enc_branch b) ''steps'' = Some (JArr (map enc_step ss))"
    by (auto simp: b string_field_def enc_simps split: option.splits)
  moreover have "branch_shape_reason lb seen (enc_branch b) = None"
    unfolding b using Cons.prems by (intro branch_shape_ok) (auto simp: b)
  moreover have "branches_reason lb (i # seen) (map enc_branch bs) = None"
    using Cons.prems by (intro Cons.IH) (auto simp: b)
  ultimately show ?case
    using Cons.prems by (simp add: b del: enc_branch.simps)
qed

lemma steps_ok: "ss \<noteq> [] \<Longrightarrow> \<forall>s\<in>set ss. step_reason (enc_step s) = None \<Longrightarrow>
    stepsUnsupportedReason (Some (JArr (map enc_step ss))) = None"
  by (cases ss) auto

lemma enc_accepted:
  "wf_step s \<Longrightarrow> step_reason (enc_step s) = None"
  "wf_branch b \<Longrightarrow> stepsUnsupportedReason (Some (JArr (map enc_step (branch_steps b)))) = None"
  "wf_identity ci \<Longrightarrow> planUnsupportedReason (Some (enc_plan (ci_plan ci))) = None"
  "wf_plan p \<Longrightarrow> planUnsupportedReason (Some (enc_plan p)) = None"
proof (induction s and b and ci and p rule: wf_step_wf_branch_wf_identity_wf_plan.induct)
  case (3 i bs mb w)
  have f: "field (enc_step (ParallelStep i bs mb w)) ''branches'' = Some (JArr (map enc_branch bs))" for bs
    by (simp add: field_def)
  have "branches_reason lb [] (map enc_branch bs) = None" for lb
    using 3 by (intro branches_ok) auto
  moreover from 3 obtain b bs' where "bs = b # bs'" by (cases bs) auto
  moreover from 3 have "step_shape_reason (enc_step (ParallelStep i bs mb w)) = None"
    by (intro enc_step_shape) simp
  ultimately show ?case
    by (simp add: step_reason.simps string_field_def enc_step_kind f del: enc_step.simps)
next
  case (8 ss lc ao rp)
  then have "stepsUnsupportedReason (Some (JArr (map enc_step ss))) = None" by (intro steps_ok) auto
  moreover have "wf_opt wf_lifecycle lc" using 8 by simp
  ultimately show ?case
    using enc_lifecycle_ok
    by (cases lc) (auto simp: enc_simps guard_keys image_Un wf_opt_def split: option.splits)
next
  case (4 i ci w c)
  then have "step_shape_reason (enc_step (SubworkflowStep i ci w c)) = None"
    by (intro enc_step_shape) simp
  moreover have "field (enc_step (SubworkflowStep i ci w c)) ''plan'' = Some (enc_plan (ci_plan ci))"
    using enc_identity_fields [of ci] by (auto simp: enc_simps fields_of_identity_def split: option.splits)
  ultimately show ?case
    using 4 by (simp add: step_reason.simps string_field_def enc_step_kind del: enc_step.simps)
next
  case (5 i ci m w)
  then have "step_shape_reason (enc_step (SubworkflowMapStep i ci m w)) = None"
    by (intro enc_step_shape) simp
  moreover have "field (enc_step (SubworkflowMapStep i ci m w)) ''plan'' = Some (enc_plan (ci_plan ci))"
    using enc_identity_fields [of ci]
    by (auto simp: enc_simps fields_of_identity_def map_of_enc_map_config_None split: option.splits)
  ultimately show ?case
    using 5 by (simp add: step_reason.simps string_field_def enc_step_kind del: enc_step.simps)
next
  case (1 i a w c)
  then have "step_shape_reason (enc_step (ActivityStep i a w c)) = None" by (intro enc_step_shape) simp
  then show ?case by (simp add: step_reason.simps string_field_def enc_step_kind del: enc_step.simps)
next
  case (2 i a m sc w c)
  then have "step_shape_reason (enc_step (MapStep i a m sc w c)) = None" by (intro enc_step_shape) simp
  then show ?case by (simp add: step_reason.simps string_field_def enc_step_kind del: enc_step.simps)
qed (auto simp: steps_ok)

end
