(* ===== verification/Lifecycle.thy ===== *)
theory Lifecycle
  imports Plan_Guard
begin

text \<open>
  The lifecycle runtime of a workflow run (\<open>packages/typescript/temporal-yaml/src/lifecycle.ts\<close>):
  state, progress units, cancellation, review gates and the bounded event history behind the
  \<open>typeflux_lifecycle_status\<close> query. Every method of \<open>LifecycleRuntime\<close> is one definition from
  runtime to runtime. The gate objects that the code shares between its list and its two maps are
  the entries of one list here, referred to by position.
\<close>

section \<open>Data\<close>

datatype lc_state =
    S_disabled | S_pending | S_running | S_waiting_for_review | S_cancelling
  | S_cancelled | S_completed | S_failed

datatype terminal = T_cancelled | T_completed | T_failed

datatype event_name =
    E_workflow_started | E_step_started | E_step_skipped | E_progress | E_cancellation_requested
  | E_compensation_started | E_compensation_completed | E_compensation_failed
  | E_workflow_cancelled | E_review_invalid_user_decision | E_review_submitted
  | E_waiting_for_review | E_review_routed | E_review_timed_out
  | E_review_invalid_user_decision_failed | E_workflow_completed | E_workflow_failed

record lifecycle_event =
  ev_sequence :: nat
  ev_state :: lc_state
  ev_event :: event_name
  ev_timestamp :: "string option"
  ev_step_id :: "string option"
  ev_completed_units :: nat
  ev_total_units :: nat
  ev_cancellation_requested :: bool
  ev_cancellation_reason :: "string option"
  ev_waiting_checkpoint :: "string option"
  ev_review_user_decision :: "string option"
  ev_review_route_target :: "string option"
  ev_terminal_status :: "terminal option"
  ev_condition :: "string option"
  ev_gate_id :: "string option"
  ev_compensation_status :: "compensation_status option"

record waiting_gate =
  wg_gate_id :: string
  wg_after_step :: string
  wg_valid_user_decisions :: "(string \<times> string) list"

record lifecycle_status =
  ls_state :: lc_state
  ls_current_step :: "string option"
  ls_completed_units :: nat
  ls_total_units :: nat
  ls_cancellation_requested :: bool
  ls_cancellation_reason :: "string option"
  ls_waiting_checkpoint :: "string option"
  ls_review_user_decision :: "string option"
  ls_review_route_target :: "string option"
  ls_terminal_status :: "terminal option"
  ls_event_count :: nat
  ls_events_truncated :: bool
  ls_oldest_event_sequence :: "nat option"
  ls_latest_event_sequence :: "nat option"
  ls_events :: "lifecycle_event list"
  ls_waiting_gates :: "waiting_gate list"
  ls_compensation_status :: "compensation_status option"

definition disabledLifecycleStatus :: lifecycle_status where
  "disabledLifecycleStatus =
     \<lparr>ls_state = S_disabled, ls_current_step = None, ls_completed_units = 0, ls_total_units = 0,
      ls_cancellation_requested = False, ls_cancellation_reason = None, ls_waiting_checkpoint = None,
      ls_review_user_decision = None, ls_review_route_target = None, ls_terminal_status = None,
      ls_event_count = 0, ls_events_truncated = False, ls_oldest_event_sequence = None,
      ls_latest_event_sequence = None, ls_events = [], ls_waiting_gates = [],
      ls_compensation_status = None\<rparr>"

record gate_state =
  gs_id :: string
  gs_afterStep :: string
  gs_userDecisions :: "(string \<times> string) list"
  gs_invalidUserDecision :: invalid_policy
  gs_timeoutSeconds :: "nat option"
  gs_onTimeout :: "on_timeout option"
  gs_timeoutRoute :: "string option"
  gs_waiting :: bool
  gs_openSeq :: "nat option"
  gs_decision :: "string option"
  gs_routeTarget :: "string option"
  gs_fired :: bool
  gs_invalidFailed :: bool

definition build_gate :: "'a review_plan_scheme \<Rightarrow> string \<Rightarrow> gate_state" where
  "build_gate src i =
     \<lparr>gs_id = i, gs_afterStep = afterStep src, gs_userDecisions = userDecisions src,
      gs_invalidUserDecision = invalidUserDecision src, gs_timeoutSeconds = timeoutSeconds src,
      gs_onTimeout = onTimeout src, gs_timeoutRoute = timeoutRoute src, gs_waiting = False,
      gs_openSeq = None, gs_decision = None, gs_routeTarget = None, gs_fired = False,
      gs_invalidFailed = False\<rparr>"

definition gatesFromPlan :: "lifecycle_plan \<Rightarrow> gate_state list" where
  "gatesFromPlan plan =
     (case gates plan of Some gs \<Rightarrow> map (\<lambda>g. build_gate g (gate_id g)) gs
      | None \<Rightarrow> (case review plan of Some r \<Rightarrow> [build_gate r ''review''] | None \<Rightarrow> []))"

text \<open>
  \<open>lr_now n\<close> is what the injected clock returns when the event numbered \<open>n\<close> reads it.
\<close>

record lifecycle_runtime =
  lr_plan :: lifecycle_plan
  lr_now :: "nat \<Rightarrow> string option"
  lr_state :: lc_state
  lr_currentStep :: "string option"
  lr_completedUnits :: nat
  lr_totalUnits :: nat
  lr_cancellationRequested :: bool
  lr_cancellationReason :: "string option"
  lr_waitingCheckpoint :: "string option"
  lr_reviewUserDecision :: "string option"
  lr_reviewRouteTarget :: "string option"
  lr_reviewSignalSequence :: nat
  lr_terminalStatus :: "terminal option"
  lr_compensationStatus :: "compensation_status option"
  lr_sequence :: nat
  lr_eventCount :: nat
  lr_events :: "lifecycle_event list"
  lr_gates :: "gate_state list"

type_synonym lrt = lifecycle_runtime

definition new_LifecycleRuntime :: "lifecycle_plan \<Rightarrow> (nat \<Rightarrow> string option) \<Rightarrow> lrt" where
  "new_LifecycleRuntime plan now =
     \<lparr>lr_plan = plan, lr_now = now, lr_state = S_pending, lr_currentStep = None,
      lr_completedUnits = 0, lr_totalUnits = 0, lr_cancellationRequested = False,
      lr_cancellationReason = None, lr_waitingCheckpoint = None, lr_reviewUserDecision = None,
      lr_reviewRouteTarget = None, lr_reviewSignalSequence = 0, lr_terminalStatus = None,
      lr_compensationStatus = None, lr_sequence = 0, lr_eventCount = 0, lr_events = [],
      lr_gates = gatesFromPlan plan\<rparr>"

definition multiGate :: "lrt \<Rightarrow> bool" where
  "multiGate rt \<longleftrightarrow> gates (lr_plan rt) \<noteq> None"

text \<open>A \<open>Map\<close> keyed by a gate field, built from the gate list: the last gate of a key wins.\<close>

definition gate_index_by :: "(gate_state \<Rightarrow> string) \<Rightarrow> gate_state list \<Rightarrow> string \<Rightarrow> nat option" where
  "gate_index_by f gs = map_of (rev (zip (map f gs) [0..<length gs]))"

definition gatesById :: "lrt \<Rightarrow> string \<Rightarrow> nat option" where
  "gatesById rt = gate_index_by gs_id (lr_gates rt)"

definition gatesByAfterStep :: "lrt \<Rightarrow> string \<Rightarrow> nat option" where
  "gatesByAfterStep rt = gate_index_by gs_afterStep (lr_gates rt)"

definition gate_at :: "lrt \<Rightarrow> nat \<Rightarrow> gate_state" where
  "gate_at rt g = lr_gates rt ! g"

definition update_gate :: "nat \<Rightarrow> (gate_state \<Rightarrow> gate_state) \<Rightarrow> lrt \<Rightarrow> lrt" where
  "update_gate g f rt = rt\<lparr>lr_gates := (lr_gates rt)[g := f (lr_gates rt ! g)]\<rparr>"

section \<open>Events\<close>

text \<open>
  \<open>record\<close>: \<open>overrides\<close> is the object spread after the snapshot. The ring buffer
  drops from the front until the limit holds.
\<close>

definition snapshot :: "lrt \<Rightarrow> event_name \<Rightarrow> lifecycle_event" where
  "snapshot rt e =
     \<lparr>ev_sequence = lr_sequence rt, ev_state = lr_state rt, ev_event = e,
      ev_timestamp = lr_now rt (lr_sequence rt), ev_step_id = lr_currentStep rt,
      ev_completed_units = lr_completedUnits rt, ev_total_units = lr_totalUnits rt,
      ev_cancellation_requested = lr_cancellationRequested rt,
      ev_cancellation_reason = lr_cancellationReason rt,
      ev_waiting_checkpoint = lr_waitingCheckpoint rt,
      ev_review_user_decision = lr_reviewUserDecision rt,
      ev_review_route_target = lr_reviewRouteTarget rt, ev_terminal_status = lr_terminalStatus rt,
      ev_condition = None, ev_gate_id = None, ev_compensation_status = lr_compensationStatus rt\<rparr>"

fun shift_until :: "nat \<Rightarrow> 'a list \<Rightarrow> 'a list" where
  "shift_until limit [] = []"
| "shift_until limit (x # xs) = (if length (x # xs) > limit then shift_until limit xs else x # xs)"

definition record_event :: "event_name \<Rightarrow> (lifecycle_event \<Rightarrow> lifecycle_event) \<Rightarrow> lrt \<Rightarrow> lrt" where
  "record_event e overrides rt =
     (let rt1 = rt\<lparr>lr_sequence := lr_sequence rt + 1, lr_eventCount := lr_eventCount rt + 1\<rparr> in
      rt1\<lparr>lr_events := shift_until (statusEventLimit (lr_plan rt))
                         (lr_events rt @ [overrides (snapshot rt1 e)])\<rparr>)"

definition gateIdField :: "lrt \<Rightarrow> nat \<Rightarrow> lifecycle_event \<Rightarrow> lifecycle_event" where
  "gateIdField rt g ev = (if multiGate rt then ev\<lparr>ev_gate_id := Some (gs_id (gate_at rt g))\<rparr> else ev)"

definition gateEventBase :: "lrt \<Rightarrow> nat option \<Rightarrow> lifecycle_event \<Rightarrow> lifecycle_event" where
  "gateEventBase rt g ev =
     (if \<not> multiGate rt then ev
      else (let ev1 = ev\<lparr>ev_review_user_decision := None, ev_review_route_target := None\<rparr> in
            case g of None \<Rightarrow> ev1 | Some i \<Rightarrow> ev1\<lparr>ev_gate_id := Some (gs_id (gate_at rt i))\<rparr>))"

section \<open>Waiting gates\<close>

definition open_seq :: "gate_state \<Rightarrow> nat" where
  "open_seq g = (case gs_openSeq g of None \<Rightarrow> 0 | Some n \<Rightarrow> n)"

fun earliest_from :: "gate_state option \<Rightarrow> gate_state list \<Rightarrow> gate_state option" where
  "earliest_from acc [] = acc"
| "earliest_from acc (g # gs) =
     earliest_from
       (if gs_waiting g \<and> (case acc of None \<Rightarrow> True | Some e \<Rightarrow> open_seq g < open_seq e)
        then Some g else acc) gs"

definition earliestWaitingGate :: "lrt \<Rightarrow> gate_state option" where
  "earliestWaitingGate rt = earliest_from None (lr_gates rt)"

definition recomputeCheckpoint :: "lrt \<Rightarrow> lrt" where
  "recomputeCheckpoint rt = rt\<lparr>lr_waitingCheckpoint := map_option gs_afterStep (earliestWaitingGate rt)\<rparr>"

definition refreshWaiting :: "lrt \<Rightarrow> lrt" where
  "refreshWaiting rt =
     (case earliestWaitingGate rt of
        Some e \<Rightarrow> rt\<lparr>lr_state := S_waiting_for_review, lr_waitingCheckpoint := Some (gs_afterStep e)\<rparr>
      | None \<Rightarrow> rt\<lparr>lr_state := (if lr_state rt = S_waiting_for_review then S_running else lr_state rt),
                   lr_waitingCheckpoint := None\<rparr>)"

definition pendingGateAfter :: "lrt \<Rightarrow> string \<Rightarrow> nat option" where
  "pendingGateAfter rt stepId =
     (case gatesByAfterStep rt stepId of
        None \<Rightarrow> None
      | Some g \<Rightarrow> if gs_fired (gate_at rt g) then None else Some g)"

section \<open>Steps and progress\<close>

definition lc_started :: "lrt \<Rightarrow> lrt" where
  "lc_started rt = record_event E_workflow_started id (rt\<lparr>lr_state := S_running\<rparr>)"

definition stepStarted :: "string \<Rightarrow> lrt \<Rightarrow> lrt" where
  "stepStarted i rt = record_event E_step_started id (rt\<lparr>lr_currentStep := Some i\<rparr>)"

definition stepSkipped :: "string \<Rightarrow> string \<Rightarrow> lrt \<Rightarrow> lrt" where
  "stepSkipped i cond rt =
     record_event E_step_skipped (\<lambda>ev. ev\<lparr>ev_step_id := Some i, ev_condition := Some cond\<rparr>) rt"

definition addUnits :: "nat \<Rightarrow> lrt \<Rightarrow> lrt" where
  "addUnits n rt = (if progress (lr_plan rt) then rt\<lparr>lr_totalUnits := lr_totalUnits rt + n\<rparr> else rt)"

definition unitCompleted :: "lrt \<Rightarrow> lrt" where
  "unitCompleted rt =
     record_event E_progress id
       (if progress (lr_plan rt) then rt\<lparr>lr_completedUnits := lr_completedUnits rt + 1\<rparr> else rt)"

definition skipUnits :: "nat \<Rightarrow> lrt \<Rightarrow> lrt" where
  "skipUnits n rt =
     (if progress (lr_plan rt) \<and> n > 0
      then rt\<lparr>lr_totalUnits := max (lr_completedUnits rt) (lr_totalUnits rt - n)\<rparr> else rt)"

definition requestCancel :: "string option \<Rightarrow> lrt \<Rightarrow> lrt" where
  "requestCancel reason rt =
     (if \<not> cancellation (lr_plan rt) then rt
      else record_event E_cancellation_requested id
             (rt\<lparr>lr_cancellationRequested := True, lr_cancellationReason := reason,
                 lr_state := S_cancelling\<rparr>))"

definition compensationStarted :: "string \<Rightarrow> lrt \<Rightarrow> lrt" where
  "compensationStarted i = record_event E_compensation_started (\<lambda>ev. ev\<lparr>ev_step_id := Some i\<rparr>)"

definition compensationCompleted :: "string \<Rightarrow> lrt \<Rightarrow> lrt" where
  "compensationCompleted i = record_event E_compensation_completed (\<lambda>ev. ev\<lparr>ev_step_id := Some i\<rparr>)"

definition compensationFailed :: "string \<Rightarrow> lrt \<Rightarrow> lrt" where
  "compensationFailed i = record_event E_compensation_failed (\<lambda>ev. ev\<lparr>ev_step_id := Some i\<rparr>)"

definition lc_cancelled :: "compensation_status \<Rightarrow> lrt \<Rightarrow> lrt" where
  "lc_cancelled status rt =
     record_event E_workflow_cancelled id
       (rt\<lparr>lr_compensationStatus := Some status, lr_state := S_cancelled,
           lr_terminalStatus := Some T_cancelled\<rparr>)"

section \<open>Review commands\<close>

fun str_of :: "jv \<Rightarrow> string option" where
  "str_of (JStr s) = Some s"
| "str_of _ = None"

definition string_or_null :: "jv option \<Rightarrow> bool" where
  "string_or_null v \<longleftrightarrow> (case v of None \<Rightarrow> True | Some JNull \<Rightarrow> True | Some (JStr _) \<Rightarrow> True | _ \<Rightarrow> False)"

text \<open>\<open>parseReviewCommand\<close>: the decision and the gate it names; \<open>None\<close> for a malformed payload.\<close>

definition parseReviewCommand :: "jv option \<Rightarrow> (string \<times> string option) option" where
  "parseReviewCommand command =
     (case command of
        Some (JObj kvs) \<Rightarrow>
          (case map_of kvs ''user_decision'' of
             Some (JStr d) \<Rightarrow>
               if \<forall>k\<in>{''reviewer'', ''notes'', ''gate''}. string_or_null (map_of kvs k)
               then Some (d, Option.bind (map_of kvs ''gate'') str_of) else None
           | _ \<Rightarrow> None)
      | _ \<Rightarrow> None)"

definition targetGate :: "lrt \<Rightarrow> string option \<Rightarrow> nat option" where
  "targetGate rt gate =
     (case gate of
        Some i \<Rightarrow> (case gatesById rt i of
                    Some g \<Rightarrow> if gs_fired (gate_at rt g) then None else Some g
                  | None \<Rightarrow> None)
      | None \<Rightarrow>
          if length (lr_gates rt) = 1 then Some 0
          else (case filter (\<lambda>g. gs_waiting (gate_at rt g)) [0..<length (lr_gates rt)] of
                  [g] \<Rightarrow> Some g | _ \<Rightarrow> None))"

definition mark_invalid :: "nat \<Rightarrow> lrt \<Rightarrow> lrt" where
  "mark_invalid g rt =
     (if gs_invalidUserDecision (gate_at rt g) = Invalid_fail
      then update_gate g (\<lambda>gs. gs\<lparr>gs_invalidFailed := True\<rparr>) rt else rt)"

definition submitReview :: "jv option \<Rightarrow> lrt \<Rightarrow> lrt" where
  "submitReview command rt0 =
     (let rt = rt0\<lparr>lr_reviewSignalSequence := lr_reviewSignalSequence rt0 + 1\<rparr> in
      case parseReviewCommand command of
        None \<Rightarrow>
          (let rt = (if length (lr_gates rt) = 1 then mark_invalid 0 rt else rt) in
           record_event E_review_invalid_user_decision (gateEventBase rt None) rt)
      | Some (decision, gate) \<Rightarrow>
          (case targetGate rt gate of
             None \<Rightarrow>
               record_event E_review_invalid_user_decision
                 (\<lambda>ev. case gate of
                    None \<Rightarrow> gateEventBase rt None ev
                  | Some i \<Rightarrow> (gateEventBase rt None ev)\<lparr>ev_gate_id := Some i\<rparr>) rt
           | Some g \<Rightarrow>
               (case map_of (gs_userDecisions (gate_at rt g)) decision of
                  None \<Rightarrow>
                    (let rt = mark_invalid g rt in
                     record_event E_review_invalid_user_decision (gateEventBase rt (Some g)) rt)
                | Some route \<Rightarrow>
                    (let rt = (update_gate g (\<lambda>gs. gs\<lparr>gs_decision := Some decision,
                                gs_routeTarget := Some route\<rparr>) rt)
                              \<lparr>lr_reviewUserDecision := Some decision, lr_reviewRouteTarget := Some route\<rparr> in
                     record_event E_review_submitted
                       (\<lambda>ev. gateIdField rt g (ev\<lparr>ev_review_user_decision := Some decision,
                                                  ev_review_route_target := Some route\<rparr>)) rt))))"

section \<open>Gates\<close>

definition waitingForGate :: "nat \<Rightarrow> lrt \<Rightarrow> lrt" where
  "waitingForGate g rt0 =
     (let rt = refreshWaiting (update_gate g
                 (\<lambda>gs. gs\<lparr>gs_waiting := True, gs_openSeq := Some (lr_sequence rt0 + 1)\<rparr>) rt0) in
      record_event E_waiting_for_review
        (\<lambda>ev. (gateEventBase rt (Some g) ev)\<lparr>ev_step_id := Some (gs_afterStep (gate_at rt g))\<rparr>) rt)"

definition close_gate :: "gate_state \<Rightarrow> gate_state" where
  "close_gate gs = gs\<lparr>gs_waiting := False, gs_openSeq := None, gs_fired := True\<rparr>"

definition gateRouted :: "nat \<Rightarrow> lrt \<Rightarrow> string option \<times> lrt" where
  "gateRouted g rt0 =
     (let rt1 = update_gate g close_gate rt0;
          gs = gate_at rt1 g;
          rt = refreshWaiting (rt1\<lparr>lr_reviewUserDecision := gs_decision gs,
                                   lr_reviewRouteTarget := gs_routeTarget gs\<rparr>) in
      (gs_routeTarget gs,
       record_event E_review_routed
         (\<lambda>ev. gateIdField rt g (ev\<lparr>ev_step_id := Some (gs_afterStep gs),
                 ev_review_user_decision := gs_decision gs,
                 ev_review_route_target := gs_routeTarget gs\<rparr>)) rt))"

datatype timeout_outcome = Act_route "string option" | Act_cancel | Act_fail

definition gateTimedOut :: "nat \<Rightarrow> lrt \<Rightarrow> timeout_outcome \<times> lrt" where
  "gateTimedOut g rt0 =
     (let rt1 = recomputeCheckpoint (update_gate g close_gate rt0);
          gs = gate_at rt1 g;
          event = (\<lambda>rt name route. record_event name
            (\<lambda>ev. gateIdField rt g (ev\<lparr>ev_step_id := Some (gs_afterStep gs),
                    ev_review_user_decision := None, ev_review_route_target := route\<rparr>)) rt);
          rt2 = event rt1 E_review_timed_out None in
      case gs_onTimeout gs of
        Some Timeout_route \<Rightarrow>
          (let route = gs_timeoutRoute gs;
               rt3 = refreshWaiting ((update_gate g (\<lambda>gs. gs\<lparr>gs_decision := None,
                        gs_routeTarget := route\<rparr>) rt2)
                      \<lparr>lr_reviewUserDecision := None, lr_reviewRouteTarget := route\<rparr>) in
           (Act_route route, event rt3 E_review_routed route))
      | Some Timeout_cancel \<Rightarrow>
          (Act_cancel, rt2\<lparr>lr_cancellationRequested := True,
             lr_cancellationReason := Some ''review timed out'', lr_state := S_cancelling\<rparr>)
      | _ \<Rightarrow> (Act_fail, rt2\<lparr>lr_state := S_failed, lr_terminalStatus := Some T_failed\<rparr>))"

definition invalidReviewFailedTerminal :: "lrt \<Rightarrow> lrt" where
  "invalidReviewFailedTerminal rt =
     record_event E_review_invalid_user_decision_failed id
       (rt\<lparr>lr_state := S_failed, lr_terminalStatus := Some T_failed\<rparr>)"

section \<open>The end of a run, and the status query\<close>

definition lc_completed :: "lrt \<Rightarrow> lrt" where
  "lc_completed rt =
     record_event E_workflow_completed id
       (rt\<lparr>lr_state := S_completed, lr_currentStep := None, lr_terminalStatus := Some T_completed\<rparr>)"

definition lc_failed :: "compensation_status \<Rightarrow> lrt \<Rightarrow> lrt" where
  "lc_failed status rt0 =
     (let rt = (if lr_compensationStatus rt0 = None then rt0\<lparr>lr_compensationStatus := Some status\<rparr> else rt0) in
      if lr_terminalStatus rt \<noteq> None then rt
      else record_event E_workflow_failed id
             (rt\<lparr>lr_state := S_failed, lr_terminalStatus := Some T_failed\<rparr>))"

definition waitingGates :: "lrt \<Rightarrow> waiting_gate list" where
  "waitingGates rt =
     map (\<lambda>g. \<lparr>wg_gate_id = gs_id g, wg_after_step = gs_afterStep g,
               wg_valid_user_decisions =
                 fold (\<lambda>d acc. obj_put d (the (map_of (gs_userDecisions g) d)) acc)
                   (sort_strings (map fst (gs_userDecisions g))) []\<rparr>)
       (sort_key open_seq (filter gs_waiting (lr_gates rt)))"

definition lc_status :: "lrt \<Rightarrow> lifecycle_status" where
  "lc_status rt =
     \<lparr>ls_state = lr_state rt, ls_current_step = lr_currentStep rt,
      ls_completed_units = lr_completedUnits rt, ls_total_units = lr_totalUnits rt,
      ls_cancellation_requested = lr_cancellationRequested rt,
      ls_cancellation_reason = lr_cancellationReason rt,
      ls_waiting_checkpoint = lr_waitingCheckpoint rt,
      ls_review_user_decision = lr_reviewUserDecision rt,
      ls_review_route_target = lr_reviewRouteTarget rt, ls_terminal_status = lr_terminalStatus rt,
      ls_event_count = lr_eventCount rt,
      ls_events_truncated = (lr_eventCount rt > length (lr_events rt)),
      ls_oldest_event_sequence = (case lr_events rt of [] \<Rightarrow> None | e # _ \<Rightarrow> Some (ev_sequence e)),
      ls_latest_event_sequence = (if lr_sequence rt > 0 then Some (lr_sequence rt) else None),
      ls_events = lr_events rt, ls_waiting_gates = waitingGates rt,
      ls_compensation_status = lr_compensationStatus rt\<rparr>"

end
