(* ===== verification/Lifecycle_Facts.thy ===== *)
theory Lifecycle_Facts
  imports Lifecycle
begin

text \<open>
  Facts about the lifecycle runtime: its methods as the steps of a transition system, driven the way
  the interpreter drives them; the numbering and bounding of the event history; the gates.
\<close>

section \<open>The runtime as a transition system\<close>

text \<open>
  One call per constructor. The interpreter opens only the pending gate of the step it just
  ran, and routes or times out only a gate it waits on; other calls come from steps and signals.
  The conditions of \<open>Do_open\<close>, \<open>Do_route\<close> and \<open>Do_timeout\<close> are not in the methods: they are what
  the interpreter guarantees when it calls them (\<open>Run_Lifecycle\<close>).
\<close>

datatype lc_op =
    Do_started | Do_step string | Do_skip string string | Do_add nat | Do_unit | Do_skip_units nat
  | Do_cancel "string option" | Do_submit "jv option" | Do_open string | Do_route nat | Do_timeout nat
  | Do_invalid | Do_comp_started string | Do_comp_completed string | Do_comp_failed string
  | Do_cancelled compensation_status | Do_completed | Do_failed compensation_status

definition waits_on :: "lrt \<Rightarrow> nat \<Rightarrow> bool" where
  "waits_on rt g \<longleftrightarrow> g < length (lr_gates rt) \<and> gs_waiting (gate_at rt g)"

fun lc_apply :: "lc_op \<Rightarrow> lrt \<Rightarrow> lrt" where
  "lc_apply Do_started rt = lc_started rt"
| "lc_apply (Do_step i) rt = stepStarted i rt"
| "lc_apply (Do_skip i c) rt = stepSkipped i c rt"
| "lc_apply (Do_add n) rt = addUnits n rt"
| "lc_apply Do_unit rt = unitCompleted rt"
| "lc_apply (Do_skip_units n) rt = skipUnits n rt"
| "lc_apply (Do_cancel r) rt = requestCancel r rt"
| "lc_apply (Do_submit c) rt = submitReview c rt"
| "lc_apply (Do_open i) rt = (case pendingGateAfter rt i of None \<Rightarrow> rt | Some g \<Rightarrow> waitingForGate g rt)"
| "lc_apply (Do_route g) rt = (if waits_on rt g then snd (gateRouted g rt) else rt)"
| "lc_apply (Do_timeout g) rt = (if waits_on rt g then snd (gateTimedOut g rt) else rt)"
| "lc_apply Do_invalid rt = invalidReviewFailedTerminal rt"
| "lc_apply (Do_comp_started i) rt = compensationStarted i rt"
| "lc_apply (Do_comp_completed i) rt = compensationCompleted i rt"
| "lc_apply (Do_comp_failed i) rt = compensationFailed i rt"
| "lc_apply (Do_cancelled s) rt = lc_cancelled s rt"
| "lc_apply Do_completed rt = lc_completed rt"
| "lc_apply (Do_failed s) rt = lc_failed s rt"

definition lc_run :: "lc_op list \<Rightarrow> lrt \<Rightarrow> lrt" where
  "lc_run ops rt = fold lc_apply ops rt"

inductive lc_reachable :: "lifecycle_plan \<Rightarrow> (nat \<Rightarrow> string option) \<Rightarrow> lrt \<Rightarrow> bool" for plan now where
  initial: "lc_reachable plan now (new_LifecycleRuntime plan now)"
| step: "lc_reachable plan now rt \<Longrightarrow> lc_reachable plan now (lc_apply op rt)"

lemma lc_run_reachable: "lc_reachable plan now (lc_run ops (new_LifecycleRuntime plan now))"
proof (induction ops rule: rev_induct)
  case Nil
  show ?case by (simp add: lc_run_def initial)
next
  case (snoc op ops)
  then show ?case by (simp add: lc_run_def step)
qed

lemmas lc_defs =
  lc_started_def stepStarted_def stepSkipped_def addUnits_def unitCompleted_def skipUnits_def
  requestCancel_def compensationStarted_def compensationCompleted_def compensationFailed_def
  lc_cancelled_def invalidReviewFailedTerminal_def lc_completed_def lc_failed_def

section \<open>The ring buffer\<close>

lemma shift_until_drop: "shift_until n xs = drop (length xs - n) xs"
  by (induction xs) (auto simp: drop_Cons' Suc_diff_le not_less)

definition newest :: "nat \<Rightarrow> 'a list \<Rightarrow> 'a list" where
  "newest n xs = drop (length xs - n) xs"

lemma length_newest [simp]: "length (newest n xs) = min n (length xs)"
  by (simp add: newest_def)

lemma newest_newest_snoc: "newest n (newest n xs @ [x]) = newest n (xs @ [x])"
  by (cases "length xs \<le> n") (auto simp: newest_def not_le Suc_diff_le)

lemma newest_all: "length xs \<le> n \<Longrightarrow> newest n xs = xs"
  by (simp add: newest_def)

section \<open>What an event keeps\<close>

lemma record_event_fields [simp]:
  "lr_plan (record_event e f rt) = lr_plan rt" "lr_now (record_event e f rt) = lr_now rt"
  "lr_state (record_event e f rt) = lr_state rt" "lr_currentStep (record_event e f rt) = lr_currentStep rt"
  "lr_completedUnits (record_event e f rt) = lr_completedUnits rt"
  "lr_totalUnits (record_event e f rt) = lr_totalUnits rt"
  "lr_cancellationRequested (record_event e f rt) = lr_cancellationRequested rt"
  "lr_cancellationReason (record_event e f rt) = lr_cancellationReason rt"
  "lr_waitingCheckpoint (record_event e f rt) = lr_waitingCheckpoint rt"
  "lr_reviewUserDecision (record_event e f rt) = lr_reviewUserDecision rt"
  "lr_reviewRouteTarget (record_event e f rt) = lr_reviewRouteTarget rt"
  "lr_reviewSignalSequence (record_event e f rt) = lr_reviewSignalSequence rt"
  "lr_terminalStatus (record_event e f rt) = lr_terminalStatus rt"
  "lr_compensationStatus (record_event e f rt) = lr_compensationStatus rt"
  "lr_gates (record_event e f rt) = lr_gates rt"
  "lr_sequence (record_event e f rt) = Suc (lr_sequence rt)"
  "lr_eventCount (record_event e f rt) = Suc (lr_eventCount rt)"
  by (simp_all add: record_event_def Let_def)

lemma gate_at_record [simp]: "gate_at (record_event e f rt) g = gate_at rt g"
  by (simp add: gate_at_def)

definition bump :: "lrt \<Rightarrow> lrt" where
  "bump rt = rt\<lparr>lr_sequence := lr_sequence rt + 1, lr_eventCount := lr_eventCount rt + 1\<rparr>"

lemma record_event_events:
  "lr_events (record_event e f rt) =
     newest (statusEventLimit (lr_plan rt)) (lr_events rt @ [f (snapshot (bump rt) e)])"
  by (simp add: record_event_def Let_def shift_until_drop newest_def bump_def)

section \<open>The history is a bounded view of an unbounded log\<close>

text \<open>
  \<open>same_history n rt big\<close>: \<open>big\<close> is the runtime \<open>rt\<close> with a history limit of \<open>n\<close> that has not been
  reached, so that it holds every event; \<open>rt\<close> holds the newest ones.
\<close>

definition with_log :: "nat \<Rightarrow> lifecycle_event list \<Rightarrow> lrt \<Rightarrow> lrt" where
  "with_log n es rt = rt\<lparr>lr_plan := (lr_plan rt)\<lparr>statusEventLimit := n\<rparr>, lr_events := es\<rparr>"

definition same_history :: "nat \<Rightarrow> lrt \<Rightarrow> lrt \<Rightarrow> bool" where
  "same_history n rt big \<longleftrightarrow>
     (\<exists>es. big = with_log n es rt \<and> length es = lr_eventCount rt
       \<and> lr_events rt = newest (statusEventLimit (lr_plan rt)) es)"

lemma sh_fields:
  assumes "same_history n rt big"
  shows "lr_gates big = lr_gates rt" "lr_state big = lr_state rt" "lr_sequence big = lr_sequence rt"
    "lr_eventCount big = lr_eventCount rt" "lr_completedUnits big = lr_completedUnits rt"
    "lr_totalUnits big = lr_totalUnits rt" "lr_terminalStatus big = lr_terminalStatus rt"
    "lr_compensationStatus big = lr_compensationStatus rt"
    "lr_reviewSignalSequence big = lr_reviewSignalSequence rt"
    "progress (lr_plan big) = progress (lr_plan rt)" "cancellation (lr_plan big) = cancellation (lr_plan rt)"
    "gates (lr_plan big) = gates (lr_plan rt)" "gate_at big = gate_at rt" "multiGate big = multiGate rt"
    "gateIdField big = gateIdField rt" "gateEventBase big = gateEventBase rt"
    "earliestWaitingGate big = earliestWaitingGate rt" "targetGate big = targetGate rt"
    "pendingGateAfter big = pendingGateAfter rt" "waits_on big = waits_on rt"
  using assms
  by (auto simp: same_history_def with_log_def gate_at_def multiGate_def gateIdField_def gateEventBase_def
      earliestWaitingGate_def targetGate_def gatesById_def pendingGateAfter_def gatesByAfterStep_def
      waits_on_def fun_eq_iff cong: option.case_cong)

lemma snapshot_with_log: "snapshot (bump (with_log n es rt)) e = snapshot (bump rt) e"
  by (simp add: snapshot_def bump_def with_log_def)

lemma sh_record:
  assumes "same_history n rt big" "lr_eventCount rt < n"
  shows "same_history n (record_event e f rt) (record_event e f big)"
proof -
  let ?L = "statusEventLimit (lr_plan rt)"
  from assms obtain es where es: "big = with_log n es rt" "length es = lr_eventCount rt"
    "lr_events rt = newest ?L es" by (auto simp: same_history_def)
  let ?x = "f (snapshot (bump rt) e)"
  have "lr_events (record_event e f big) = es @ [?x]"
    using assms(2) es(2) unfolding record_event_events es(1) snapshot_with_log
    by (simp add: with_log_def newest_all)
  then have "record_event e f big = with_log n (es @ [?x]) (record_event e f rt)"
    by (simp add: record_event_def Let_def es(1) with_log_def)
  moreover have "lr_events (record_event e f rt) = newest ?L (es @ [?x])"
    by (simp add: record_event_events es(3) newest_newest_snoc)
  ultimately show ?thesis using es(2) by (auto simp: same_history_def)
qed

lemma sh_updates:
  assumes "same_history n rt big"
  shows "same_history n (rt\<lparr>lr_state := s\<rparr>) (big\<lparr>lr_state := s\<rparr>)"
    "same_history n (rt\<lparr>lr_currentStep := i\<rparr>) (big\<lparr>lr_currentStep := i\<rparr>)"
    "same_history n (rt\<lparr>lr_completedUnits := c\<rparr>) (big\<lparr>lr_completedUnits := c\<rparr>)"
    "same_history n (rt\<lparr>lr_totalUnits := c\<rparr>) (big\<lparr>lr_totalUnits := c\<rparr>)"
    "same_history n (rt\<lparr>lr_cancellationRequested := b\<rparr>) (big\<lparr>lr_cancellationRequested := b\<rparr>)"
    "same_history n (rt\<lparr>lr_cancellationReason := i\<rparr>) (big\<lparr>lr_cancellationReason := i\<rparr>)"
    "same_history n (rt\<lparr>lr_waitingCheckpoint := i\<rparr>) (big\<lparr>lr_waitingCheckpoint := i\<rparr>)"
    "same_history n (rt\<lparr>lr_reviewUserDecision := i\<rparr>) (big\<lparr>lr_reviewUserDecision := i\<rparr>)"
    "same_history n (rt\<lparr>lr_reviewRouteTarget := i\<rparr>) (big\<lparr>lr_reviewRouteTarget := i\<rparr>)"
    "same_history n (rt\<lparr>lr_reviewSignalSequence := c\<rparr>) (big\<lparr>lr_reviewSignalSequence := c\<rparr>)"
    "same_history n (rt\<lparr>lr_terminalStatus := t\<rparr>) (big\<lparr>lr_terminalStatus := t\<rparr>)"
    "same_history n (rt\<lparr>lr_compensationStatus := cs\<rparr>) (big\<lparr>lr_compensationStatus := cs\<rparr>)"
    "same_history n (rt\<lparr>lr_gates := gs\<rparr>) (big\<lparr>lr_gates := gs\<rparr>)"
    "same_history n (update_gate g f rt) (update_gate g f big)"
proof -
  from assms obtain es where es: "big = with_log n es rt" "length es = lr_eventCount rt"
    "lr_events rt = newest (statusEventLimit (lr_plan rt)) es" by (auto simp: same_history_def)
  have "\<And>rt' big'. big' = with_log n es rt' \<Longrightarrow> lr_eventCount rt' = lr_eventCount rt \<Longrightarrow>
      lr_events rt' = lr_events rt \<Longrightarrow> lr_plan rt' = lr_plan rt \<Longrightarrow> same_history n rt' big'"
    using es by (auto simp: same_history_def)
  note * = this
  show "same_history n (rt\<lparr>lr_state := s\<rparr>) (big\<lparr>lr_state := s\<rparr>)"
    "same_history n (rt\<lparr>lr_currentStep := i\<rparr>) (big\<lparr>lr_currentStep := i\<rparr>)"
    "same_history n (rt\<lparr>lr_completedUnits := c\<rparr>) (big\<lparr>lr_completedUnits := c\<rparr>)"
    "same_history n (rt\<lparr>lr_totalUnits := c\<rparr>) (big\<lparr>lr_totalUnits := c\<rparr>)"
    "same_history n (rt\<lparr>lr_cancellationRequested := b\<rparr>) (big\<lparr>lr_cancellationRequested := b\<rparr>)"
    "same_history n (rt\<lparr>lr_cancellationReason := i\<rparr>) (big\<lparr>lr_cancellationReason := i\<rparr>)"
    "same_history n (rt\<lparr>lr_waitingCheckpoint := i\<rparr>) (big\<lparr>lr_waitingCheckpoint := i\<rparr>)"
    "same_history n (rt\<lparr>lr_reviewUserDecision := i\<rparr>) (big\<lparr>lr_reviewUserDecision := i\<rparr>)"
    "same_history n (rt\<lparr>lr_reviewRouteTarget := i\<rparr>) (big\<lparr>lr_reviewRouteTarget := i\<rparr>)"
    "same_history n (rt\<lparr>lr_reviewSignalSequence := c\<rparr>) (big\<lparr>lr_reviewSignalSequence := c\<rparr>)"
    "same_history n (rt\<lparr>lr_terminalStatus := t\<rparr>) (big\<lparr>lr_terminalStatus := t\<rparr>)"
    "same_history n (rt\<lparr>lr_compensationStatus := cs\<rparr>) (big\<lparr>lr_compensationStatus := cs\<rparr>)"
    "same_history n (rt\<lparr>lr_gates := gs\<rparr>) (big\<lparr>lr_gates := gs\<rparr>)"
    "same_history n (update_gate g f rt) (update_gate g f big)"
    by (rule *; simp add: es(1) with_log_def update_gate_def)+
qed

lemma sh_waiting:
  assumes "same_history n rt big"
  shows "same_history n (recomputeCheckpoint rt) (recomputeCheckpoint big)"
    "same_history n (refreshWaiting rt) (refreshWaiting big)"
proof -
  show "same_history n (recomputeCheckpoint rt) (recomputeCheckpoint big)"
    unfolding recomputeCheckpoint_def sh_fields [OF assms] by (intro sh_updates assms)
  show "same_history n (refreshWaiting rt) (refreshWaiting big)"
    unfolding refreshWaiting_def sh_fields [OF assms]
    by (cases "earliestWaitingGate rt"; simp only: option.case; intro sh_updates assms)
qed

lemma sh_if:
  "(b \<Longrightarrow> same_history n x y) \<Longrightarrow> (\<not> b \<Longrightarrow> same_history n x' y') \<Longrightarrow>
   same_history n (if b then x else x') (if b then y else y')"
  by simp

lemma refresh_count [simp]:
  "lr_eventCount (refreshWaiting rt) = lr_eventCount rt" "lr_eventCount (recomputeCheckpoint rt) = lr_eventCount rt"
  "lr_eventCount (update_gate g f rt) = lr_eventCount rt"
  by (simp_all add: refreshWaiting_def recomputeCheckpoint_def update_gate_def split: option.splits)

lemma sh_simple_ops:
  assumes "same_history n rt big" "lr_eventCount (lc_apply op rt) \<le> n"
    "op \<in> {Do_started, Do_step i, Do_skip i c, Do_add m, Do_unit, Do_skip_units m, Do_cancel r, Do_invalid,
       Do_comp_started i, Do_comp_completed i, Do_comp_failed i, Do_cancelled cs, Do_completed}"
  shows "same_history n (lc_apply op rt) (lc_apply op big)"
  using assms(2,3)
  by (auto simp: lc_defs sh_fields [OF assms(1)] Suc_le_eq split: if_splits
      intro!: sh_record sh_updates assms(1))

lemma sh_failed:
  assumes "same_history n rt big" "lr_eventCount (lc_failed cs rt) \<le> n"
  shows "same_history n (lc_failed cs rt) (lc_failed cs big)"
  using assms(2)
  by (auto simp: lc_failed_def Let_def sh_fields [OF assms(1)] Suc_le_eq split: if_splits
      intro!: sh_record sh_updates assms(1))

lemma sh_mark_invalid:
  "same_history n rt big \<Longrightarrow> same_history n (mark_invalid g rt) (mark_invalid g big)"
  by (simp add: mark_invalid_def sh_fields sh_updates)

lemma mark_invalid_count [simp]: "lr_eventCount (mark_invalid g rt) = lr_eventCount rt"
  by (simp add: mark_invalid_def)

lemma submitReview_count [simp]: "lr_eventCount (submitReview c rt) = Suc (lr_eventCount rt)"
  by (simp add: submitReview_def Let_def split: option.splits)

text \<open>\<open>submitReview\<close> after its sequence bump, one equation per branch.\<close>

definition bump_signal :: "lrt \<Rightarrow> lrt" where
  "bump_signal rt = rt\<lparr>lr_reviewSignalSequence := lr_reviewSignalSequence rt + 1\<rparr>"

definition stage_decision :: "nat \<Rightarrow> string \<Rightarrow> string \<Rightarrow> lrt \<Rightarrow> lrt" where
  "stage_decision g d r rt =
     (update_gate g (\<lambda>gs. gs\<lparr>gs_decision := Some d, gs_routeTarget := Some r\<rparr>) rt)
       \<lparr>lr_reviewUserDecision := Some d, lr_reviewRouteTarget := Some r\<rparr>"

lemma signal_fields [simp]:
  "lr_gates (bump_signal rt) = lr_gates rt" "lr_eventCount (bump_signal rt) = lr_eventCount rt"
  "lr_eventCount (stage_decision g d r rt) = lr_eventCount rt"
  "gate_at (bump_signal rt) g = gate_at rt g"
  by (simp_all add: gate_at_def bump_signal_def stage_decision_def)

lemma submitReview_malformed:
  assumes "parseReviewCommand c = None"
  shows "submitReview c rt =
    (let rt1 = (if length (lr_gates rt) = 1 then mark_invalid 0 (bump_signal rt) else bump_signal rt) in
     record_event E_review_invalid_user_decision (gateEventBase rt1 None) rt1)"
  using assms unfolding submitReview_def bump_signal_def [symmetric] by (simp add: Let_def stage_decision_def)

lemma submitReview_no_target:
  assumes "parseReviewCommand c = Some (d, gate)" "targetGate (bump_signal rt) gate = None"
  shows "submitReview c rt =
    record_event E_review_invalid_user_decision
      (\<lambda>ev. case gate of None \<Rightarrow> gateEventBase (bump_signal rt) None ev
         | Some i \<Rightarrow> (gateEventBase (bump_signal rt) None ev)\<lparr>ev_gate_id := Some i\<rparr>) (bump_signal rt)"
  using assms unfolding submitReview_def bump_signal_def [symmetric] by (simp add: Let_def stage_decision_def)

lemma submitReview_unknown:
  assumes "parseReviewCommand c = Some (d, gate)" "targetGate (bump_signal rt) gate = Some g"
    "map_of (gs_userDecisions (gate_at rt g)) d = None"
  shows "submitReview c rt =
    (let rt1 = mark_invalid g (bump_signal rt) in
     record_event E_review_invalid_user_decision (gateEventBase rt1 (Some g)) rt1)"
  using assms unfolding submitReview_def bump_signal_def [symmetric] by (simp add: Let_def stage_decision_def)

lemma submitReview_staged:
  assumes "parseReviewCommand c = Some (d, gate)" "targetGate (bump_signal rt) gate = Some g"
    "map_of (gs_userDecisions (gate_at rt g)) d = Some r"
  shows "submitReview c rt =
    (let rt1 = stage_decision g d r (bump_signal rt) in
     record_event E_review_submitted
       (\<lambda>ev. gateIdField rt1 g (ev\<lparr>ev_review_user_decision := Some d, ev_review_route_target := Some r\<rparr>)) rt1)"
  using assms unfolding submitReview_def bump_signal_def [symmetric] by (simp add: Let_def stage_decision_def)

lemma submitReview_cases:
  obtains (malformed) "parseReviewCommand c = None"
  | (no_target) d gate where "parseReviewCommand c = Some (d, gate)" "targetGate (bump_signal rt) gate = None"
  | (unknown) d gate g where "parseReviewCommand c = Some (d, gate)" "targetGate (bump_signal rt) gate = Some g"
      "map_of (gs_userDecisions (gate_at rt g)) d = None"
  | (staged) d gate g r where "parseReviewCommand c = Some (d, gate)" "targetGate (bump_signal rt) gate = Some g"
      "map_of (gs_userDecisions (gate_at rt g)) d = Some r"
  by (cases "parseReviewCommand c"; force)

lemma sh_record2:
  assumes "same_history n rt big" "f' = f" "lr_eventCount rt < n"
  shows "same_history n (record_event e f rt) (record_event e f' big)"
  using sh_record [OF assms(1,3)] assms(2) by simp

lemma sh_submit:
  assumes "same_history n rt big" "lr_eventCount rt < n"
  shows "same_history n (submitReview c rt) (submitReview c big)"
proof -
  have sh: "same_history n (bump_signal rt) (bump_signal big)"
    unfolding bump_signal_def sh_fields [OF assms(1)] by (rule sh_updates [OF assms(1)])
  note eqs = sh_fields [OF assms(1)] sh_fields(13,18) [OF sh]
  show ?thesis
  proof (cases rule: submitReview_cases [where c = c and rt = rt])
    case malformed
    have r: "same_history n (if length (lr_gates rt) = 1 then mark_invalid 0 (bump_signal rt) else bump_signal rt)
      (if length (lr_gates rt) = 1 then mark_invalid 0 (bump_signal big) else bump_signal big)"
      using sh sh_mark_invalid by auto
    show ?thesis unfolding submitReview_malformed [OF malformed] Let_def eqs
      by (rule sh_record2 [OF r], simp only: sh_fields(16) [OF r], simp add: assms(2))
  next
    case (no_target d gate)
    note big = no_target(2) [folded eqs(22)]
    show ?thesis unfolding submitReview_no_target [OF no_target] submitReview_no_target [OF no_target(1) big]
      by (rule sh_record2 [OF sh], simp only: sh_fields(16) [OF sh], simp add: assms(2))
  next
    case (unknown d gate g)
    note big = unknown(2) [folded eqs(22)] unknown(3) [folded eqs(13)]
    note r = sh_mark_invalid [OF sh]
    show ?thesis unfolding submitReview_unknown [OF unknown] submitReview_unknown [OF unknown(1) big] Let_def
      by (rule sh_record2 [OF r], simp only: sh_fields(16) [OF r], simp add: assms(2))
  next
    case (staged d gate g t)
    note big = staged(2) [folded eqs(22)] staged(3) [folded eqs(13)]
    have r: "same_history n (stage_decision g d t (bump_signal rt)) (stage_decision g d t (bump_signal big))"
      unfolding stage_decision_def by (intro sh_updates sh)
    show ?thesis unfolding submitReview_staged [OF staged] submitReview_staged [OF staged(1) big] Let_def
      by (rule sh_record2 [OF r], simp only: sh_fields(15) [OF r], simp add: assms(2))
  qed
qed

lemma sh_open:
  assumes "same_history n rt big" "lr_eventCount rt < n"
  shows "same_history n (waitingForGate g rt) (waitingForGate g big)"
proof -
  let ?f = "\<lambda>gs. gs\<lparr>gs_waiting := True, gs_openSeq := Some (lr_sequence rt + 1)\<rparr>"
  have r: "same_history n (refreshWaiting (update_gate g ?f rt)) (refreshWaiting (update_gate g ?f big))"
    by (intro sh_waiting sh_updates assms(1))
  show ?thesis unfolding waitingForGate_def Let_def sh_fields(3) [OF assms(1)]
    by (rule sh_record2 [OF r], simp only: sh_fields(13,16) [OF r], simp add: assms(2))
qed

lemma sh_routed:
  assumes "same_history n rt big" "lr_eventCount rt < n"
  shows "same_history n (snd (gateRouted g rt)) (snd (gateRouted g big))"
    "fst (gateRouted g big) = fst (gateRouted g rt)"
proof -
  have r1: "same_history n (update_gate g close_gate rt) (update_gate g close_gate big)"
    by (rule sh_updates [OF assms(1)])
  have r: "same_history n (refreshWaiting ((update_gate g close_gate rt)\<lparr>lr_reviewUserDecision := d, lr_reviewRouteTarget := t\<rparr>))
      (refreshWaiting ((update_gate g close_gate big)\<lparr>lr_reviewUserDecision := d, lr_reviewRouteTarget := t\<rparr>))" for d t
    by (intro sh_waiting sh_updates r1)
  show "same_history n (snd (gateRouted g rt)) (snd (gateRouted g big))"
    unfolding gateRouted_def Let_def snd_conv sh_fields(13) [OF r1]
    by (rule sh_record2 [OF r], simp only: sh_fields(15) [OF r], simp add: assms(2))
  show "fst (gateRouted g big) = fst (gateRouted g rt)"
    by (simp add: gateRouted_def Let_def sh_fields(13) [OF r1])
qed

lemma sh_timed_out:
  assumes "same_history n rt big" "lr_eventCount (snd (gateTimedOut g rt)) \<le> n"
  shows "same_history n (snd (gateTimedOut g rt)) (snd (gateTimedOut g big))"
proof -
  have r1: "same_history n (recomputeCheckpoint (update_gate g close_gate rt)) (recomputeCheckpoint (update_gate g close_gate big))"
    (is "same_history n ?rt1 ?big1")
    by (intro sh_waiting sh_updates assms(1))
  define ev where "ev rt name route = record_event name
      (\<lambda>ev. gateIdField rt g (ev\<lparr>ev_step_id := Some (gs_afterStep (gate_at ?rt1 g)),
         ev_review_user_decision := None, ev_review_route_target := route\<rparr>)) rt" for rt name route
  have e: "same_history n (ev x name route) (ev y name route)" if "same_history n x y" "lr_eventCount x < n" for x y name route
    unfolding ev_def by (rule sh_record2 [OF that(1)], simp only: sh_fields(15) [OF that(1)], rule that(2))
  define route_rt where "route_rt rt2 = refreshWaiting ((update_gate g (\<lambda>gs. gs\<lparr>gs_decision := None,
      gs_routeTarget := gs_timeoutRoute (gate_at ?rt1 g)\<rparr>) rt2)
      \<lparr>lr_reviewUserDecision := None, lr_reviewRouteTarget := gs_timeoutRoute (gate_at ?rt1 g)\<rparr>)" for rt2
  have out: "snd (gateTimedOut g x) =
    (let rt2 = ev x1 E_review_timed_out None in
     case gs_onTimeout (gate_at ?rt1 g) of
       Some Timeout_route \<Rightarrow> ev (route_rt rt2) E_review_routed (gs_timeoutRoute (gate_at ?rt1 g))
     | Some Timeout_cancel \<Rightarrow> rt2\<lparr>lr_cancellationRequested := True,
             lr_cancellationReason := Some ''review timed out'', lr_state := S_cancelling\<rparr>
     | _ \<Rightarrow> rt2\<lparr>lr_state := S_failed, lr_terminalStatus := Some T_failed\<rparr>)"
    if "x1 = recomputeCheckpoint (update_gate g close_gate x)" "gate_at x1 = gate_at ?rt1" for x x1
    unfolding gateTimedOut_def that(1) [symmetric] ev_def route_rt_def Let_def that(2)
    by (simp split: option.split on_timeout.split)
  have count: "lr_eventCount rt < n"
    using assms(2) unfolding out [OF refl refl] by (auto simp: ev_def route_rt_def Let_def split: option.splits on_timeout.splits)
  let ?a = "ev ?rt1 E_review_timed_out None" and ?b = "ev ?big1 E_review_timed_out None"
  have r2: "same_history n ?a ?b"
    by (rule e [OF r1]) (simp add: count)
  have r3: "same_history n (route_rt ?a) (route_rt ?b)"
    unfolding route_rt_def by (intro sh_waiting sh_updates r2)
  have c3: "lr_eventCount (route_rt ?a) < n" if "gs_onTimeout (gate_at ?rt1 g) = Some Timeout_route"
    using assms(2) unfolding out [OF refl refl] by (simp add: that ev_def Let_def Suc_le_eq)
  show ?thesis
    unfolding out [OF refl refl] out [OF refl sh_fields(13) [OF r1]] Let_def
    by (auto split: option.split on_timeout.split intro!: sh_updates r2 e r3 c3)
qed

lemma same_history_apply:
  assumes "same_history n rt big" "lr_eventCount (lc_apply op rt) \<le> n"
  shows "same_history n (lc_apply op rt) (lc_apply op big)"
proof -
  have open_count: "lr_eventCount (waitingForGate g rt) = Suc (lr_eventCount rt)" for g
    by (simp add: waitingForGate_def Let_def)
  have route_count: "lr_eventCount (snd (gateRouted g rt)) = Suc (lr_eventCount rt)" for g
    by (simp add: gateRouted_def Let_def)
  show ?thesis
  proof (cases op)
    case (Do_submit c)
    with assms show ?thesis by (simp add: sh_submit)
  next
    case (Do_open i)
    with assms show ?thesis
      by (auto simp: sh_fields(19) [OF assms(1)] open_count split: option.split intro: sh_open)
  next
    case (Do_route g)
    with assms show ?thesis
      by (auto simp: sh_fields(20) [OF assms(1)] route_count intro: sh_routed)
  next
    case (Do_timeout g)
    with assms show ?thesis
      by (auto simp: sh_fields(20) [OF assms(1)] intro: sh_timed_out)
  next
    case (Do_failed cs)
    with assms show ?thesis by (simp add: sh_failed)
  qed (use sh_simple_ops [OF assms] in auto)
qed

section \<open>What a method does to the log\<close>

text \<open>\<open>logs rt rt'\<close>: \<open>rt'\<close> comes from \<open>rt\<close> by recording events that keep their sequence number, and
  by updates outside the log.\<close>

definition log_of :: "lrt \<Rightarrow> lifecycle_plan \<times> nat \<times> nat \<times> lifecycle_event list" where
  "log_of rt = (lr_plan rt, lr_sequence rt, lr_eventCount rt, lr_events rt)"

definition keeps_sequence :: "(lifecycle_event \<Rightarrow> lifecycle_event) \<Rightarrow> bool" where
  "keeps_sequence f \<longleftrightarrow> (\<forall>ev. ev_sequence (f ev) = ev_sequence ev)"

inductive logs :: "lrt \<Rightarrow> lrt \<Rightarrow> bool" for rt where
  logs_refl: "logs rt rt"
| logs_update: "logs rt rt1 \<Longrightarrow> log_of rt2 = log_of rt1 \<Longrightarrow> logs rt rt2"
| logs_record: "logs rt rt1 \<Longrightarrow> keeps_sequence f \<Longrightarrow> logs rt (record_event e f rt1)"

lemma logs_updates:
  assumes "logs rt x"
  shows "logs rt (x\<lparr>lr_state := s\<rparr>)" "logs rt (x\<lparr>lr_currentStep := i\<rparr>)"
    "logs rt (x\<lparr>lr_completedUnits := c\<rparr>)" "logs rt (x\<lparr>lr_totalUnits := c\<rparr>)"
    "logs rt (x\<lparr>lr_cancellationRequested := b\<rparr>)" "logs rt (x\<lparr>lr_cancellationReason := i\<rparr>)"
    "logs rt (x\<lparr>lr_waitingCheckpoint := i\<rparr>)" "logs rt (x\<lparr>lr_reviewUserDecision := i\<rparr>)"
    "logs rt (x\<lparr>lr_reviewRouteTarget := i\<rparr>)" "logs rt (x\<lparr>lr_reviewSignalSequence := c\<rparr>)"
    "logs rt (x\<lparr>lr_terminalStatus := t\<rparr>)" "logs rt (x\<lparr>lr_compensationStatus := cs\<rparr>)"
    "logs rt (x\<lparr>lr_gates := gs\<rparr>)" "logs rt (update_gate g f x)" "logs rt (mark_invalid g x)"
    "logs rt (refreshWaiting x)" "logs rt (recomputeCheckpoint x)" "logs rt (bump_signal x)"
    "logs rt (stage_decision g d r x)"
  by (rule logs_update [OF assms];
      simp add: log_of_def update_gate_def mark_invalid_def refreshWaiting_def recomputeCheckpoint_def
        bump_signal_def stage_decision_def split: option.split)+

lemma keeps_sequence_intros:
  "keeps_sequence id" "keeps_sequence (gateEventBase rt g)"
  "keeps_sequence (\<lambda>ev. gateIdField rt i (ev\<lparr>ev_step_id := s, ev_review_user_decision := d, ev_review_route_target := r\<rparr>))"
  "keeps_sequence (\<lambda>ev. gateIdField rt i (ev\<lparr>ev_review_user_decision := d, ev_review_route_target := r\<rparr>))"
  "keeps_sequence (\<lambda>ev. (gateEventBase rt g ev)\<lparr>ev_step_id := s\<rparr>)"
  "keeps_sequence (\<lambda>ev. ev\<lparr>ev_step_id := s\<rparr>)" "keeps_sequence (\<lambda>ev. ev\<lparr>ev_step_id := s, ev_condition := c\<rparr>)"
  "keeps_sequence (\<lambda>ev. case gt of None \<Rightarrow> gateEventBase rt g ev | Some j \<Rightarrow> (gateEventBase rt g ev)\<lparr>ev_gate_id := Some j\<rparr>)"
  by (auto simp: keeps_sequence_def gateEventBase_def gateIdField_def Let_def split: option.split)

lemmas logs_intros = logs_refl logs_updates logs_record keeps_sequence_intros

lemma logs_submit: "logs rt (submitReview c rt)"
proof (cases rule: submitReview_cases [where c = c and rt = rt])
  case malformed
  have "logs rt (if length (lr_gates rt) = 1 then mark_invalid 0 (bump_signal rt) else bump_signal rt)"
    by (auto intro: logs_intros)
  then show ?thesis unfolding submitReview_malformed [OF malformed] Let_def by (intro logs_record keeps_sequence_intros)
next
  case (no_target d gate)
  show ?thesis unfolding submitReview_no_target [OF no_target] by (intro logs_intros)
next
  case (unknown d gate g)
  show ?thesis unfolding submitReview_unknown [OF unknown] Let_def by (intro logs_intros)
next
  case (staged d gate g r)
  show ?thesis unfolding submitReview_staged [OF staged] Let_def by (intro logs_intros)
qed

lemma logs_timed_out: "logs rt (snd (gateTimedOut g rt))"
  unfolding gateTimedOut_def Let_def
  by (auto split: option.split on_timeout.split intro!: logs_intros)

lemma logs_apply: "logs rt (lc_apply op rt)"
proof (cases op)
  case (Do_submit c)
  then show ?thesis by (simp add: logs_submit)
next
  case (Do_timeout g)
  then show ?thesis by (simp add: logs_timed_out logs_refl)
next
  case (Do_open i)
  then show ?thesis
    by (auto simp: waitingForGate_def Let_def split: option.split intro!: logs_intros)
next
  case (Do_route g)
  then show ?thesis
    by (auto simp: gateRouted_def Let_def intro!: logs_intros)
qed (auto simp: lc_defs Let_def intro!: logs_intros)

lemma log_of_eq:
  "log_of rt = log_of rt' \<longleftrightarrow> lr_plan rt = lr_plan rt' \<and> lr_sequence rt = lr_sequence rt'
     \<and> lr_eventCount rt = lr_eventCount rt' \<and> lr_events rt = lr_events rt'"
  by (simp add: log_of_def)

lemma logs_plan_count: "logs rt rt' \<Longrightarrow> lr_plan rt' = lr_plan rt \<and> lr_eventCount rt \<le> lr_eventCount rt'"
  by (induction rule: logs.induct) (auto simp: log_of_eq)

section \<open>Numbering\<close>

definition numbered :: "lrt \<Rightarrow> bool" where
  "numbered rt \<longleftrightarrow>
     lr_sequence rt = lr_eventCount rt
     \<and> map ev_sequence (lr_events rt) = newest (statusEventLimit (lr_plan rt)) [1..<Suc (lr_eventCount rt)]"

lemma map_newest: "map f (newest n xs) = newest n (map f xs)"
  by (simp add: newest_def drop_map)

lemma numbered_record:
  assumes "numbered rt" "keeps_sequence f"
  shows "numbered (record_event e f rt)"
proof -
  let ?L = "statusEventLimit (lr_plan rt)"
  have "map ev_sequence (lr_events (record_event e f rt)) =
      newest ?L (map ev_sequence (lr_events rt) @ [Suc (lr_sequence rt)])"
    using assms(2) by (simp add: record_event_events map_newest keeps_sequence_def snapshot_def bump_def)
  also have "\<dots> = newest ?L ([1..<Suc (lr_eventCount rt)] @ [Suc (lr_eventCount rt)])"
    using assms(1) unfolding numbered_def by (simp only: newest_newest_snoc)
  finally show ?thesis using assms(1) by (simp add: numbered_def)
qed

lemma numbered_logs: "logs rt rt' \<Longrightarrow> numbered rt \<Longrightarrow> numbered rt'"
proof (induction rule: logs.induct)
  case (logs_update rt1 rt2)
  then show ?case by (simp add: log_of_eq numbered_def)
qed (auto intro: numbered_record)

lemma reachable_plan: "lc_reachable plan now rt \<Longrightarrow> lr_plan rt = plan"
  by (induction rule: lc_reachable.induct) (auto simp: new_LifecycleRuntime_def logs_plan_count [OF logs_apply])

lemma reachable_numbered: "lc_reachable plan now rt \<Longrightarrow> numbered rt"
proof (induction rule: lc_reachable.induct)
  case initial
  show ?case by (simp add: new_LifecycleRuntime_def numbered_def newest_def)
next
  case (step rt op)
  then show ?case by (blast intro: numbered_logs logs_apply)
qed

lemma gatesFromPlan_limit: "gatesFromPlan (plan\<lparr>statusEventLimit := n\<rparr>) = gatesFromPlan plan"
  by (simp add: gatesFromPlan_def split: option.split)

lemma same_history_run:
  assumes "lr_eventCount (lc_run ops (new_LifecycleRuntime plan now)) \<le> n"
  shows "same_history n (lc_run ops (new_LifecycleRuntime plan now))
     (lc_run ops (new_LifecycleRuntime (plan\<lparr>statusEventLimit := n\<rparr>) now))"
  using assms
proof (induction ops rule: rev_induct)
  case Nil
  show ?case
    using gatesFromPlan_limit [where plan = plan and n = n]
    by (auto simp: lc_run_def same_history_def new_LifecycleRuntime_def with_log_def newest_def)
next
  case (snoc op ops)
  then show ?case using logs_plan_count [OF logs_apply] order_trans
    by (fastforce simp: lc_run_def intro: same_history_apply)
qed

section \<open>The machine of one gate\<close>

text \<open>
  What a method may do to a gate. \<open>sole\<close> says that the workflow has just one: the only case in which
  a fired gate still takes a decision.
\<close>

inductive gate_change :: "bool \<Rightarrow> gate_state \<Rightarrow> gate_state \<Rightarrow> bool" for sole where
  mark: "\<not> gs_fired a \<or> sole \<Longrightarrow> gs_invalidUserDecision a = Invalid_fail \<Longrightarrow>
    gate_change sole a (a\<lparr>gs_invalidFailed := True\<rparr>)"
| stage: "\<not> gs_fired a \<or> sole \<Longrightarrow> map_of (gs_userDecisions a) d = Some r \<Longrightarrow>
    gate_change sole a (a\<lparr>gs_decision := Some d, gs_routeTarget := Some r\<rparr>)"
| opens: "\<not> gs_fired a \<Longrightarrow> gate_change sole a (a\<lparr>gs_waiting := True, gs_openSeq := Some n\<rparr>)"
| routes: "gs_waiting a \<Longrightarrow> gate_change sole a (close_gate a)"
| times_out: "gs_waiting a \<Longrightarrow> gs_onTimeout a = Some Timeout_route \<Longrightarrow>
    gate_change sole a ((close_gate a)\<lparr>gs_decision := None, gs_routeTarget := gs_timeoutRoute a\<rparr>)"

inductive_cases gate_changeE: "gate_change sole a b"

definition gates_step :: "gate_state list \<Rightarrow> gate_state list \<Rightarrow> bool" where
  "gates_step gs gs' \<longleftrightarrow>
     gs' = gs \<or> (\<exists>g b. g < length gs \<and> gs' = gs[g := b] \<and> gate_change (length gs = 1) (gs ! g) b)"

lemma gates_stepI: "g < length gs \<Longrightarrow> gate_change (length gs = 1) (gs ! g) b \<Longrightarrow> gates_step gs (gs[g := b])"
  by (auto simp: gates_step_def)

lemma gate_index_by_Some: "gate_index_by f gs k = Some g \<Longrightarrow> g < length gs \<and> f (gs ! g) = k"
  by (auto simp: gate_index_by_def set_zip dest!: map_of_SomeD)

lemma gates_update [simp]:
  "lr_gates (update_gate g f rt) = (lr_gates rt)[g := f (lr_gates rt ! g)]"
  "lr_gates (refreshWaiting rt) = lr_gates rt" "lr_gates (recomputeCheckpoint rt) = lr_gates rt"
  by (simp_all add: update_gate_def refreshWaiting_def recomputeCheckpoint_def split: option.split)

definition fired_closed :: "lrt \<Rightarrow> bool" where
  "fired_closed rt \<longleftrightarrow> (\<forall>g\<in>set (lr_gates rt). gs_fired g \<longrightarrow> \<not> gs_waiting g)"

lemma targetGate_Some:
  assumes "targetGate rt gate = Some g" "fired_closed rt"
  shows "g < length (lr_gates rt)" "\<not> gs_fired (gate_at rt g) \<or> length (lr_gates rt) = 1"
proof -
  have "g < length (lr_gates rt) \<and> (\<not> gs_fired (gate_at rt g) \<or> length (lr_gates rt) = 1)"
  proof (cases gate)
    case (Some i)
    with assms(1) show ?thesis
      by (auto simp: targetGate_def gatesById_def split: option.splits if_splits dest: gate_index_by_Some)
  next
    case None
    show ?thesis
    proof (cases "length (lr_gates rt) = 1")
      case True
      with None assms(1) show ?thesis by (simp add: targetGate_def)
    next
      case False
      with None assms(1) have "filter (\<lambda>g. gs_waiting (gate_at rt g)) [0..<length (lr_gates rt)] = [g]"
        by (auto simp: targetGate_def split: list.splits)
      then have "g \<in> set (filter (\<lambda>g. gs_waiting (gate_at rt g)) [0..<length (lr_gates rt)])" by simp
      with assms(2) show ?thesis by (auto simp: fired_closed_def gate_at_def)
    qed
  qed
  then show "g < length (lr_gates rt)" "\<not> gs_fired (gate_at rt g) \<or> length (lr_gates rt) = 1" by auto
qed

lemma gates_mark:
  "g < length (lr_gates rt) \<Longrightarrow> \<not> gs_fired (gate_at rt g) \<or> length (lr_gates rt) = 1 \<Longrightarrow>
   gates_step (lr_gates rt) (lr_gates (mark_invalid g rt))"
  by (auto simp: mark_invalid_def gate_at_def gates_step_def intro: gate_change.mark)

lemma gates_submit:
  assumes "fired_closed rt"
  shows "gates_step (lr_gates rt) (lr_gates (submitReview c rt))"
proof -
  have fc: "fired_closed (bump_signal rt)" using assms by (simp add: fired_closed_def)
  show ?thesis
  proof (cases rule: submitReview_cases [where c = c and rt = rt])
    case malformed
    show ?thesis
    proof (cases "length (lr_gates rt) = 1")
      case True
      with malformed gates_mark [of 0 "bump_signal rt"] show ?thesis
        by (simp add: submitReview_malformed Let_def)
    next
      case False
      with malformed show ?thesis by (simp add: submitReview_malformed Let_def gates_step_def)
    qed
  next
    case (no_target d gate)
    then show ?thesis by (simp add: submitReview_no_target gates_step_def)
  next
    case (unknown d gate g)
    then show ?thesis using gates_mark [of g "bump_signal rt"] targetGate_Some [OF unknown(2) fc]
      by (simp add: submitReview_unknown Let_def)
  next
    case (staged d gate g r)
    then show ?thesis using targetGate_Some [OF staged(2) fc]
      by (auto simp: submitReview_staged Let_def stage_decision_def gate_at_def intro!: gates_stepI gate_change.stage)
  qed
qed

lemma gates_timed_out:
  assumes "waits_on rt g"
  shows "gates_step (lr_gates rt) (lr_gates (snd (gateTimedOut g rt)))"
proof -
  have "lr_gates (snd (gateTimedOut g rt)) = (lr_gates rt)[g := close_gate (lr_gates rt ! g)] \<or>
    (gs_onTimeout (lr_gates rt ! g) = Some Timeout_route \<and> lr_gates (snd (gateTimedOut g rt)) = (lr_gates rt)
      [g := (close_gate (lr_gates rt ! g))\<lparr>gs_decision := None, gs_routeTarget := gs_timeoutRoute (lr_gates rt ! g)\<rparr>])"
    using assms by (auto simp: gateTimedOut_def Let_def gate_at_def waits_on_def close_gate_def
        split: option.split on_timeout.split)
  with assms show ?thesis
    by (auto simp: waits_on_def gate_at_def intro!: gates_stepI gate_change.routes gate_change.times_out)
qed

lemma gates_apply:
  assumes "fired_closed rt"
  shows "gates_step (lr_gates rt) (lr_gates (lc_apply op rt))"
proof (cases op)
  case (Do_submit c)
  with assms show ?thesis by (simp add: gates_submit)
next
  case (Do_timeout g)
  then show ?thesis by (simp add: gates_timed_out) (simp add: gates_step_def)
next
  case (Do_open i)
  show ?thesis
  proof (cases "pendingGateAfter rt i")
    case None
    with Do_open show ?thesis by (simp add: gates_step_def)
  next
    case (Some g)
    then have "g < length (lr_gates rt)" "\<not> gs_fired (lr_gates rt ! g)"
      by (auto simp: pendingGateAfter_def gatesByAfterStep_def gate_at_def split: option.splits if_splits
          dest: gate_index_by_Some)
    with Do_open Some show ?thesis
      by (auto simp: waitingForGate_def Let_def intro!: gates_stepI gate_change.opens)
  qed
next
  case (Do_route g)
  then show ?thesis
    by (auto simp: gateRouted_def Let_def waits_on_def gate_at_def gates_step_def
        intro!: gates_stepI gate_change.routes)
qed (auto simp: lc_defs Let_def gates_step_def)

lemma gate_change_fired_closed:
  "gate_change sole a b \<Longrightarrow> (gs_fired a \<longrightarrow> \<not> gs_waiting a) \<Longrightarrow> (gs_fired b \<longrightarrow> \<not> gs_waiting b)"
  by (auto elim!: gate_changeE simp: close_gate_def)

lemma fired_closed_apply:
  assumes "fired_closed rt"
  shows "fired_closed (lc_apply op rt)"
proof -
  from gates_apply [OF assms, of op] show ?thesis unfolding gates_step_def
  proof (elim disjE exE conjE)
    fix g b
    assume g: "g < length (lr_gates rt)" "lr_gates (lc_apply op rt) = (lr_gates rt)[g := b]"
      "gate_change (length (lr_gates rt) = 1) (lr_gates rt ! g) b"
    from g(1) assms have "gs_fired (lr_gates rt ! g) \<longrightarrow> \<not> gs_waiting (lr_gates rt ! g)"
      by (simp add: fired_closed_def)
    with g(3) have "gs_fired b \<longrightarrow> \<not> gs_waiting b" by (rule gate_change_fired_closed)
    with assms set_update_subset_insert [of "lr_gates rt" g b] show ?thesis
      unfolding fired_closed_def g(2) by blast
  qed (use assms in \<open>simp add: fired_closed_def\<close>)
qed

lemma reachable_fired_closed: "lc_reachable plan now rt \<Longrightarrow> fired_closed rt"
proof (induction rule: lc_reachable.induct)
  case initial
  show ?case
    by (auto simp: fired_closed_def new_LifecycleRuntime_def gatesFromPlan_def build_gate_def split: option.splits)
qed (rule fired_closed_apply)

text \<open>Invariants of single gates along a run, from the machine.\<close>

lemma gates_step_invariant:
  assumes "gates_step gs gs'" "\<forall>g\<in>set gs. P g" "\<And>a b. gate_change (length gs = 1) a b \<Longrightarrow> P a \<Longrightarrow> P b"
  shows "\<forall>g\<in>set gs'. P g"
  using assms(1) unfolding gates_step_def
proof (elim disjE exE conjE)
  fix g b
  assume g: "g < length gs" "gs' = gs[g := b]" "gate_change (length gs = 1) (gs ! g) b"
  with assms(2,3) have "P b" by simp
  with assms(2) set_update_subset_insert [of gs g b] show ?thesis unfolding g(2) by blast
qed (use assms(2) in simp)

definition routes_declared :: "gate_state \<Rightarrow> bool" where
  "routes_declared g \<longleftrightarrow>
     (\<forall>t. gs_routeTarget g = Some t \<longrightarrow> t \<in> snd ` set (gs_userDecisions g)
       \<or> gs_onTimeout g = Some Timeout_route \<and> gs_timeoutRoute g = Some t)"

lemma gate_change_routes_declared: "gate_change sole a b \<Longrightarrow> routes_declared a \<Longrightarrow> routes_declared b"
  by (auto elim!: gate_changeE simp: close_gate_def routes_declared_def dest!: map_of_SomeD
      intro: rev_image_eqI)

lemma reachable_routes_declared: "lc_reachable plan now rt \<Longrightarrow> \<forall>g\<in>set (lr_gates rt). routes_declared g"
proof (induction rule: lc_reachable.induct)
  case initial
  show ?case
    by (auto simp: routes_declared_def new_LifecycleRuntime_def gatesFromPlan_def build_gate_def split: option.splits)
next
  case (step rt op)
  from gates_apply [OF reachable_fired_closed [OF step.hyps]] step.IH
  show ?case by (rule gates_step_invariant) (rule gate_change_routes_declared)
qed

text \<open>What a gate was declared with never changes.\<close>

definition gate_static where
  "gate_static g = (gs_id g, gs_afterStep g, gs_userDecisions g, gs_invalidUserDecision g, gs_timeoutSeconds g,
     gs_onTimeout g, gs_timeoutRoute g)"

lemma gate_change_static: "gate_change sole a b \<Longrightarrow> gate_static b = gate_static a"
  by (auto elim!: gate_changeE simp: gate_static_def close_gate_def)

lemma gates_step_static: "gates_step gs gs' \<Longrightarrow> map gate_static gs' = map gate_static gs"
  by (auto simp: gates_step_def gate_change_static map_update intro!: list_update_same_conv [THEN iffD2])

lemma reachable_static: "lc_reachable plan now rt \<Longrightarrow> map gate_static (lr_gates rt) = map gate_static (gatesFromPlan plan)"
proof (induction rule: lc_reachable.induct)
  case initial
  show ?case by (simp add: new_LifecycleRuntime_def)
next
  case (step rt op)
  from gates_step_static [OF gates_apply [OF reachable_fired_closed [OF step.hyps]]] step.IH show ?case by simp
qed

section \<open>The waiting checkpoint\<close>

definition checkpoint_ok :: "lrt \<Rightarrow> bool" where
  "checkpoint_ok rt \<longleftrightarrow> lr_waitingCheckpoint rt = map_option gs_afterStep (earliestWaitingGate rt)"

lemma earliest_from_Some:
  "earliest_from (Some a) gs =
     (case earliest_from None gs of None \<Rightarrow> Some a | Some e \<Rightarrow> if open_seq e < open_seq a then Some e else Some a)"
  by (induction gs arbitrary: a) (auto split: option.split)

lemma earliest_sorted:
  "earliest_from None gs = (case sort_key open_seq (filter gs_waiting gs) of [] \<Rightarrow> None | g # _ \<Rightarrow> Some g)"
proof (induction gs)
  case (Cons g gs)
  then show ?case
    by (auto simp: earliest_from_Some split: list.split option.split)
qed simp

lemma checkpoint_waiting_gates:
  "checkpoint_ok rt \<Longrightarrow> lr_waitingCheckpoint rt =
     (case waitingGates rt of [] \<Rightarrow> None | w # _ \<Rightarrow> Some (wg_after_step w))"
  by (simp add: checkpoint_ok_def earliestWaitingGate_def earliest_sorted waitingGates_def split: list.split)

definition wait_view :: "gate_state \<Rightarrow> bool \<times> nat \<times> string" where
  "wait_view g = (gs_waiting g, open_seq g, gs_afterStep g)"

lemma earliest_from_view:
  "map wait_view gs = map wait_view gs' \<Longrightarrow> map_option wait_view acc = map_option wait_view acc' \<Longrightarrow>
   map_option wait_view (earliest_from acc gs) = map_option wait_view (earliest_from acc' gs')"
proof (induction gs arbitrary: gs' acc acc')
  case (Cons g gs)
  then obtain h hs where gs': "gs' = h # hs" "wait_view g = wait_view h" "map wait_view gs = map wait_view hs"
    by (cases gs') auto
  from Cons.prems(2) gs'(2) show ?case unfolding gs'(1) earliest_from.simps
    by (intro Cons.IH gs'(3)) (auto simp: wait_view_def split: option.splits)
qed simp

lemma earliest_same_view:
  assumes "map wait_view (lr_gates rt) = map wait_view (lr_gates rt')"
  shows "map_option gs_afterStep (earliestWaitingGate rt) = map_option gs_afterStep (earliestWaitingGate rt')"
proof -
  have "map_option (\<lambda>v. snd (snd v)) (map_option wait_view (earliestWaitingGate rt)) =
      map_option (\<lambda>v. snd (snd v)) (map_option wait_view (earliestWaitingGate rt'))"
    using earliest_from_view [OF assms, of None None] by (simp add: earliestWaitingGate_def)
  then show ?thesis by (simp add: option.map_comp comp_def wait_view_def)
qed

lemma checkpoint_ok_view:
  "checkpoint_ok rt \<Longrightarrow> map wait_view (lr_gates rt') = map wait_view (lr_gates rt) \<Longrightarrow>
   lr_waitingCheckpoint rt' = lr_waitingCheckpoint rt \<Longrightarrow> checkpoint_ok rt'"
  using earliest_same_view [of rt' rt] by (simp add: checkpoint_ok_def)

lemma checkpoint_ok_refresh: "checkpoint_ok (refreshWaiting rt)" "checkpoint_ok (recomputeCheckpoint rt)"
  by (simp_all add: checkpoint_ok_def refreshWaiting_def recomputeCheckpoint_def earliestWaitingGate_def
      split: option.split)

lemma checkpoint_ok_record: "checkpoint_ok rt \<Longrightarrow> checkpoint_ok (record_event e f rt)"
  by (erule checkpoint_ok_view) simp_all

lemma view_update:
  "wait_view (f (lr_gates rt ! g)) = wait_view (lr_gates rt ! g) \<Longrightarrow>
   map wait_view (lr_gates (update_gate g f rt)) = map wait_view (lr_gates rt)"
  by (cases "g < length (lr_gates rt)") (auto simp: map_update list_update_same_conv list_update_beyond)

lemma checkpoint_ok_submit: "checkpoint_ok rt \<Longrightarrow> checkpoint_ok (submitReview c rt)"
proof -
  assume ok: "checkpoint_ok rt"
  have b: "checkpoint_ok (bump_signal rt)" by (rule checkpoint_ok_view [OF ok]) (simp_all add: bump_signal_def)
  have m: "checkpoint_ok (mark_invalid g (bump_signal rt))" for g
    by (rule checkpoint_ok_view [OF b])
       (auto simp: mark_invalid_def wait_view_def open_seq_def update_gate_def intro!: view_update [unfolded update_gate_def, simplified])
  have s: "checkpoint_ok (stage_decision g d r (bump_signal rt))" for g d r
    by (rule checkpoint_ok_view [OF b])
       (auto simp: stage_decision_def wait_view_def open_seq_def update_gate_def intro!: view_update [unfolded update_gate_def, simplified])
  show ?thesis
    by (cases rule: submitReview_cases [where c = c and rt = rt])
       (auto simp: submitReview_malformed submitReview_no_target submitReview_unknown submitReview_staged Let_def
         intro!: checkpoint_ok_record b m s)
qed

lemma checkpoint_ok_timed_out: "checkpoint_ok (snd (gateTimedOut g rt))"
proof -
  have r: "checkpoint_ok (record_event e f (recomputeCheckpoint x))" for e f x
    by (intro checkpoint_ok_record checkpoint_ok_refresh)
  show ?thesis unfolding gateTimedOut_def Let_def
    by (auto split: option.split on_timeout.split intro!: checkpoint_ok_record checkpoint_ok_refresh checkpoint_ok_view [OF r])
qed

lemma checkpoint_ok_apply:
  assumes "checkpoint_ok rt"
  shows "checkpoint_ok (lc_apply op rt)"
proof (cases op)
  case (Do_submit c)
  with assms show ?thesis by (simp add: checkpoint_ok_submit)
next
  case (Do_timeout g)
  with assms show ?thesis by (simp add: checkpoint_ok_timed_out)
next
  case (Do_open i)
  with assms show ?thesis
    by (auto simp: waitingForGate_def Let_def split: option.split intro!: checkpoint_ok_record checkpoint_ok_refresh)
next
  case (Do_route g)
  with assms show ?thesis
    by (auto simp: gateRouted_def Let_def intro!: checkpoint_ok_record checkpoint_ok_refresh)
qed (auto simp: lc_defs Let_def assms intro!: checkpoint_ok_record checkpoint_ok_view [OF assms])

lemma reachable_checkpoint_ok: "lc_reachable plan now rt \<Longrightarrow> checkpoint_ok rt"
proof (induction rule: lc_reachable.induct)
  case initial
  have "earliest_from None gs = None" if "\<forall>g\<in>set gs. \<not> gs_waiting g" for gs
    using that by (induction gs) auto
  then show ?case
    by (auto simp: checkpoint_ok_def new_LifecycleRuntime_def earliestWaitingGate_def gatesFromPlan_def
        build_gate_def split: option.split)
qed (rule checkpoint_ok_apply)

end
