(* ===== verification/Lifecycle_Claims.thy ===== *)
theory Lifecycle_Claims
  imports Lifecycle_Facts
begin

text \<open>
  The promises of the lifecycle runtime (\<open>packages/typescript/temporal-yaml/src/lifecycle.ts\<close>): what the
  \<open>typeflux_lifecycle_status\<close> query may be relied on for, and what review signals can and cannot do.
\<close>

section \<open>A run to demonstrate on\<close>

definition demo_gate_plan :: "string \<Rightarrow> string \<Rightarrow> gate_plan" where
  "demo_gate_plan i after =
     \<lparr>afterStep = after, userDecisions = [(''approve'', ''publish'')], invalidUserDecision = Invalid_fail,
      timeoutSeconds = Some 60, onTimeout = Some Timeout_fail, timeoutRoute = None, gate_id = i\<rparr>"

definition demo_lc_plan :: lifecycle_plan where
  "demo_lc_plan =
     \<lparr>progress = True, cancellation = True, statusEventLimit = 3, review = None,
      gates = Some [demo_gate_plan ''g1'' ''draft'', demo_gate_plan ''g2'' ''edit'']\<rparr>"

definition demo_command :: "string \<Rightarrow> jv option" where
  "demo_command gate = Some (JObj [(''user_decision'', JStr ''approve''), (''gate'', JStr gate)])"

definition demo_ops :: "lc_op list" where
  "demo_ops = [Do_add 2, Do_started, Do_step ''draft'', Do_unit, Do_open ''draft'',
     Do_submit (demo_command ''g1''), Do_route 0]"

definition demo_rt :: lrt where
  "demo_rt = lc_run demo_ops (new_LifecycleRuntime demo_lc_plan (\<lambda>_. None))"

lemma demo_reachable: "lc_reachable demo_lc_plan (\<lambda>_. None) demo_rt"
  unfolding demo_rt_def by (rule lc_run_reachable)

lemmas demo_run_defs =
  demo_rt_def demo_ops_def demo_lc_plan_def demo_gate_plan_def demo_command_def lc_run_def
  new_LifecycleRuntime_def gatesFromPlan_def build_gate_def

section \<open>Properties\<close>

definition run_plan :: "lifecycle_plan \<Rightarrow> (nat \<Rightarrow> string option) \<Rightarrow> lc_op list \<Rightarrow> lrt" where
  "run_plan plan now ops = lc_run ops (new_LifecycleRuntime plan now)"

definition without_log :: "lifecycle_status \<Rightarrow> lifecycle_status" where
  "without_log s = s\<lparr>ls_events := [], ls_events_truncated := False, ls_oldest_event_sequence := None\<rparr>"

text \<open>C29: The event history of a run is a bounded view of one log: whatever calls a run makes, the events
  the status query returns are the newest ones of the log an unlimited history would hold, and every
  status field other than the events and the two that describe their truncation is independent of
  the limit.\<close>

theorem status_history_is_ring_buffer:
  assumes "lr_eventCount (run_plan plan now ops) \<le> n"
  shows "ls_events (lc_status (run_plan plan now ops)) =
      newest (statusEventLimit plan) (ls_events (lc_status (run_plan (plan\<lparr>statusEventLimit := n\<rparr>) now ops)))
    \<and> \<not> ls_events_truncated (lc_status (run_plan (plan\<lparr>statusEventLimit := n\<rparr>) now ops))
    \<and> without_log (lc_status (run_plan plan now ops)) =
      without_log (lc_status (run_plan (plan\<lparr>statusEventLimit := n\<rparr>) now ops))"
proof -
  let ?rt = "run_plan plan now ops" and ?big = "run_plan (plan\<lparr>statusEventLimit := n\<rparr>) now ops"
  have plan: "lr_plan ?rt = plan" unfolding run_plan_def by (rule reachable_plan [OF lc_run_reachable])
  have "same_history n ?rt ?big" using same_history_run assms unfolding run_plan_def .
  then obtain es where "?big = with_log n es ?rt"
    "length es = lr_eventCount ?rt" "lr_events ?rt = newest (statusEventLimit plan) es"
    unfolding same_history_def plan by blast
  then show ?thesis by (simp add: lc_status_def with_log_def waitingGates_def without_log_def)
qed

lemma status_history_is_ring_buffer_witness:
  "ls_events (lc_status demo_rt) =
     newest 3 (ls_events (lc_status (run_plan (demo_lc_plan\<lparr>statusEventLimit := 9\<rparr>) (\<lambda>_. None) demo_ops)))"
proof -
  have "lr_eventCount (run_plan demo_lc_plan (\<lambda>_. None) demo_ops) \<le> 9" by code_simp
  from status_history_is_ring_buffer [OF this] show ?thesis
    by (simp add: demo_rt_def run_plan_def demo_lc_plan_def)
qed

text \<open>The status numbers its events: they are consecutive, end with the event count, are reported as
  truncated exactly when the count exceeds the limit, and the oldest and latest sequence fields are those
  of the first retained and of the last recorded event.\<close>

theorem status_events_numbered:
  assumes "lc_reachable plan now rt"
  shows "map ev_sequence (ls_events (lc_status rt)) = newest (statusEventLimit plan) [1..<Suc (ls_event_count (lc_status rt))]
    \<and> (ls_events_truncated (lc_status rt) \<longleftrightarrow> statusEventLimit plan < ls_event_count (lc_status rt))
    \<and> ls_oldest_event_sequence (lc_status rt) =
        (if ls_events (lc_status rt) = [] then None
         else Some (Suc (ls_event_count (lc_status rt) - statusEventLimit plan)))
    \<and> ls_latest_event_sequence (lc_status rt) =
        (if ls_event_count (lc_status rt) = 0 then None else Some (ls_event_count (lc_status rt)))"
proof -
  let ?c = "lr_eventCount rt" and ?L = "statusEventLimit plan"
  have s: "lr_sequence rt = ?c" and m: "map ev_sequence (lr_events rt) = newest ?L [1..<Suc ?c]"
    using reachable_numbered [OF assms] reachable_plan [OF assms] by (simp_all add: numbered_def)
  from arg_cong [OF m, of length] have len: "length (lr_events rt) = min ?L ?c" by (simp del: upt_Suc)
  have old: "lr_events rt = e # es \<Longrightarrow> ev_sequence e = Suc (?c - ?L)" for e es
    using arg_cong [OF m, of hd] len by (simp add: newest_def hd_drop_conv_nth del: upt_Suc)
  show ?thesis using s m len old by (auto simp: lc_status_def split: list.split)
qed

lemma status_events_numbered_witness:
  "map ev_sequence (ls_events (lc_status demo_rt)) = newest 3 [1..<Suc (ls_event_count (lc_status demo_rt))]"
  using status_events_numbered [OF demo_reachable] by (simp add: demo_lc_plan_def del: upt_Suc)

text \<open>In a workflow with several gates a fired gate is closed for good: no later call, no signal
  among them, changes anything in it.\<close>

theorem fired_gate_is_final:
  assumes "lc_reachable plan now rt" "length (lr_gates rt) \<noteq> 1"
    and "g < length (lr_gates rt)" "gs_fired (lr_gates rt ! g)"
  shows "lr_gates (lc_run ops rt) ! g = lr_gates rt ! g"
  using assms
proof (induction ops arbitrary: rt)
  case Nil
  show ?case by (simp add: lc_run_def)
next
  case (Cons op ops)
  have closed: "\<not> gs_waiting (lr_gates rt ! g)"
    using reachable_fired_closed [OF Cons.prems(1)] Cons.prems(3,4) by (simp add: fired_closed_def)
  have same: "lr_gates (lc_apply op rt) ! g = lr_gates rt ! g"
    and len: "length (lr_gates (lc_apply op rt)) = length (lr_gates rt)"
    using gates_apply [OF reachable_fired_closed [OF Cons.prems(1)], of op] Cons.prems(2-4) closed
    by (auto simp: gates_step_def nth_list_update elim!: gate_changeE)
  have "lr_gates (lc_run ops (lc_apply op rt)) ! g = lr_gates (lc_apply op rt) ! g"
    by (rule Cons.IH) (use Cons.prems same len lc_reachable.step in auto)
  then show ?case by (simp add: lc_run_def same)
qed

lemma fired_gate_is_final_witness:
  "lr_gates (lc_run [Do_submit (demo_command ''g1''), Do_open ''draft''] demo_rt) ! 0 = lr_gates demo_rt ! 0"
proof (rule fired_gate_is_final [OF demo_reachable])
  show "length (lr_gates demo_rt) \<noteq> 1" "0 < length (lr_gates demo_rt)" by code_simp+
  show "gs_fired (lr_gates demo_rt ! 0)" by code_simp
qed

text \<open>The status query is consistent about waiting: \<open>waiting_checkpoint\<close> is the step of the first entry of
  \<open>waiting_gates\<close> (the gate open longest), and null exactly when no gate waits.\<close>

theorem status_checkpoint_consistent:
  assumes "lc_reachable plan now rt"
  shows "ls_waiting_checkpoint (lc_status rt) =
    (case ls_waiting_gates (lc_status rt) of [] \<Rightarrow> None | w # _ \<Rightarrow> Some (wg_after_step w))"
  using checkpoint_waiting_gates [OF reachable_checkpoint_ok [OF assms]] by (simp add: lc_status_def)

lemma status_checkpoint_consistent_witness:
  "ls_waiting_checkpoint (lc_status (lc_apply (Do_open ''edit'') demo_rt)) =
    (case ls_waiting_gates (lc_status (lc_apply (Do_open ''edit'') demo_rt)) of
       [] \<Rightarrow> None | w # _ \<Rightarrow> Some (wg_after_step w))"
  by (rule status_checkpoint_consistent [OF lc_reachable.step [OF demo_reachable]])

text \<open>A gate only ever routes to a step its plan names: the route target it holds is the target of one of
  its decisions, or its timeout route where its timeout routes.\<close>

theorem gate_routes_declared:
  assumes "lc_reachable plan now rt" "gs \<in> set (lr_gates rt)" "gs_routeTarget gs = Some t"
  shows "t \<in> snd ` set (gs_userDecisions gs) 
    \<or> gs_onTimeout gs = Some Timeout_route \<and> gs_timeoutRoute gs = Some t"
  using reachable_routes_declared [OF assms(1)] assms(2,3) by (simp add: routes_declared_def)

lemma gate_routes_declared_witness:
  "''publish'' \<in> snd ` set (gs_userDecisions (lr_gates demo_rt ! 0)) 
    \<or> gs_onTimeout (lr_gates demo_rt ! 0) = Some Timeout_route \<and> gs_timeoutRoute (lr_gates demo_rt ! 0) = Some ''publish''"
proof (rule gate_routes_declared [OF demo_reachable])
  have "0 < length (lr_gates demo_rt)" by code_simp
  then show "lr_gates demo_rt ! 0 \<in> set (lr_gates demo_rt)" by (rule nth_mem)
  show "gs_routeTarget (lr_gates demo_rt ! 0) = Some ''publish''" by code_simp
qed

text \<open>A failure never overwrites the end of a run: once a terminal status is set, \<open>failed\<close> records no
  event and leaves the state and the terminal status as they are; it only adds the outcome of the
  compensations where none was set.\<close>

theorem failed_keeps_terminal:
  assumes "lr_terminalStatus rt = Some t"
  shows "lc_failed status rt =
    rt\<lparr>lr_compensationStatus := Some (case lr_compensationStatus rt of None \<Rightarrow> status | Some s \<Rightarrow> s)\<rparr>"
  using assms by (auto simp: lc_failed_def Let_def split: option.split)

lemma failed_keeps_terminal_witness:
  "lc_failed Comp_complete (invalidReviewFailedTerminal demo_rt) =
    (invalidReviewFailedTerminal demo_rt)\<lparr>lr_compensationStatus := Some
      (case lr_compensationStatus (invalidReviewFailedTerminal demo_rt) of None \<Rightarrow> Comp_complete | Some s \<Rightarrow> s)\<rparr>"
  by (rule failed_keeps_terminal [of _ T_failed]) (simp add: invalidReviewFailedTerminal_def)

section \<open>A request that comes too late\<close>

text \<open>
  A cancel request that arrives while the compensations of a failed review run changes the state of the
  status after the terminal status is set, and \<open>failed\<close> does not put it back.
\<close>

lemma late_cancel_hides_failure:
  assumes "cancellation (lr_plan rt)"
  shows "lr_state (lc_failed s (requestCancel r (invalidReviewFailedTerminal rt))) = S_cancelling"
    "lr_terminalStatus (lc_failed s (requestCancel r (invalidReviewFailedTerminal rt))) = Some T_failed"
  using assms by (simp_all add: lc_defs Let_def)

end
