(* ===== verification/Fan_Out.thy ===== *)
theory Fan_Out
  imports Prelude
begin

text \<open>
  The bounded parallel map of \<open>packages/typescript/temporal/src/composition.ts\<close>: a pool of workers that
  claim items in order, settle them in any order, stop claiming at the first error and finish once all
  of them are idle. An item in progress is a process of any type; \<open>start\<close> begins an item and returns
  either its outcome at once or the process to wait for. Promise continuations that are due run in
  the order they became due (\<open>drain\<close>).
\<close>

section \<open>The pool\<close>

datatype 'p worker = Idle | Working nat 'p

datatype ('e, 'r, 'p) fan =
  Fan (fan_workers: "'p worker list") (fan_next: nat) (fan_size: nat)
    (fan_results: "'r option list") (fan_error: "'e option")

type_synonym ('e, 'r, 'p, 's) starter = "nat \<Rightarrow> 's \<Rightarrow> (('e, 'r) result + 'p) \<times> 's"

fun record_outcome :: "nat \<Rightarrow> ('e, 'r) result \<Rightarrow> ('e, 'r, 'p) fan \<Rightarrow> ('e, 'r, 'p) fan" where
  "record_outcome i (Inr r) (Fan ws n sz rs err) = Fan ws n sz (rs[i := Some r]) err"
| "record_outcome i (Inl e) (Fan ws n sz rs err) =
     Fan ws n sz rs (case err of None \<Rightarrow> Some e | Some e' \<Rightarrow> Some e')"

fun put_worker :: "nat \<Rightarrow> 'p worker \<Rightarrow> ('e, 'r, 'p) fan \<Rightarrow> ('e, 'r, 'p) fan" where
  "put_worker w x (Fan ws n sz rs err) = Fan (ws[w := x]) n sz rs err"

fun claim_next :: "('e, 'r, 'p) fan \<Rightarrow> ('e, 'r, 'p) fan" where
  "claim_next (Fan ws n sz rs err) = Fan ws (Suc n) sz rs err"

definition can_claim :: "('e, 'r, 'p) fan \<Rightarrow> bool" where
  "can_claim f \<longleftrightarrow> fan_error f = None \<and> fan_next f < fan_size f"

lemma fan_sel_simps [simp]:
  "fan_next (record_outcome i out f) = fan_next f" "fan_size (record_outcome i out f) = fan_size f"
  "fan_workers (record_outcome i out f) = fan_workers f"
  "fan_next (put_worker w x f) = fan_next f" "fan_size (put_worker w x f) = fan_size f"
  "fan_workers (put_worker w x f) = (fan_workers f)[w := x]" "fan_results (put_worker w x f) = fan_results f"
  "fan_error (put_worker w x f) = fan_error f"
  "fan_next (claim_next f) = Suc (fan_next f)" "fan_size (claim_next f) = fan_size f"
  "fan_workers (claim_next f) = fan_workers f" "fan_results (claim_next f) = fan_results f"
  "fan_error (claim_next f) = fan_error f"
  by (cases f; cases out; simp)+

text \<open>
  The continuations of settled items: record the outcome, then go round the worker's loop.
  An item that is settled as soon as it starts queues behind the others.
\<close>

function drain ::
    "('e, 'r, 'p, 's) starter \<Rightarrow> (nat \<times> nat \<times> ('e, 'r) result) list \<Rightarrow> ('e, 'r, 'p) fan \<Rightarrow> 's \<Rightarrow>
     ('e, 'r, 'p) fan \<times> 's" where
  "drain start [] f s = (f, s)"
| "drain start ((w, i, out) # q) f s =
     (let f1 = record_outcome i out f in
      if can_claim f1 then
        (case start (fan_next f1) s of
           (Inr p, s1) \<Rightarrow> drain start q (put_worker w (Working (fan_next f1) p) (claim_next f1)) s1
         | (Inl out', s1) \<Rightarrow>
             drain start (q @ [(w, fan_next f1, out')]) (put_worker w Idle (claim_next f1)) s1)
      else drain start q (put_worker w Idle f1) s)"
  by pat_completeness auto
termination
  by (relation "measure (\<lambda>(start, q, f, s). (fan_size f - fan_next f) + length q)")
     (auto simp: can_claim_def)

text \<open>The first claims: one item per worker, before any continuation runs.\<close>

fun launch :: "('e, 'r, 'p, 's) starter \<Rightarrow> nat list \<Rightarrow> 's \<Rightarrow> (('e, 'r) result + 'p) list \<times> 's" where
  "launch start [] s = ([], s)"
| "launch start (i # is) s =
     (let (r, s1) = start i s; (rs, s2) = launch start is s1 in (r # rs, s2))"

fun worker_of :: "nat \<Rightarrow> ('e, 'r) result + 'p \<Rightarrow> 'p worker" where
  "worker_of i (Inr p) = Working i p"
| "worker_of i (Inl out) = Idle"

definition launched :: "nat \<Rightarrow> (('e, 'r) result + 'p) list \<Rightarrow> ('e, 'r, 'p) fan" where
  "launched items rs =
     Fan (map (\<lambda>(i, r). worker_of i r) (zip [0..<length rs] rs)) (length rs) items (replicate items None) None"

definition due :: "(('e, 'r) result + 'p) list \<Rightarrow> (nat \<times> nat \<times> ('e, 'r) result) list" where
  "due rs = concat (map (\<lambda>(i, r). case r of Inl out \<Rightarrow> [(i, i, out)] | Inr _ \<Rightarrow> []) (zip [0..<length rs] rs))"

definition assemble ::
    "('e, 'r, 'p, 's) starter \<Rightarrow> nat \<Rightarrow> (('e, 'r) result + 'p) list \<Rightarrow> 's \<Rightarrow> ('e, 'r, 'p) fan \<times> 's" where
  "assemble start items rs s = drain start (due rs) (launched items rs) s"

definition fanOut :: "('e, 'r, 'p, 's) starter \<Rightarrow> nat \<Rightarrow> nat \<Rightarrow> 's \<Rightarrow> ('e, 'r, 'p) fan \<times> 's" where
  "fanOut start concurrency items s =
     (let (rs, s1) = launch start [0..<min concurrency items] s in assemble start items rs s1)"

definition settle ::
    "('e, 'r, 'p, 's) starter \<Rightarrow> nat \<Rightarrow> ('e, 'r) result \<Rightarrow> ('e, 'r, 'p) fan \<Rightarrow> 's \<Rightarrow> ('e, 'r, 'p) fan \<times> 's" where
  "settle start w out f s =
     (case fan_workers f ! w of
        Idle \<Rightarrow> (f, s)
      | Working i p \<Rightarrow> drain start [(w, i, out)] (put_worker w Idle f) s)"

definition fan_done :: "('e, 'r, 'p) fan \<Rightarrow> bool" where
  "fan_done f \<longleftrightarrow> (\<forall>x\<in>set (fan_workers f). x = Idle)"

definition fan_outcome :: "('e, 'r, 'p) fan \<Rightarrow> ('e, 'r list) result" where
  "fan_outcome f = (case fan_error f of Some e \<Rightarrow> Inl e | None \<Rightarrow> Inr (map the (fan_results f)))"

section \<open>The invariant of the pool\<close>

text \<open>
  \<open>hist\<close> is the sequence of settled items with their outcomes; \<open>busy\<close> the items in progress, those of
  queued continuations included.
\<close>

fun working_items :: "'p worker list \<Rightarrow> nat list" where
  "working_items [] = []"
| "working_items (Idle # ws) = working_items ws"
| "working_items (Working i p # ws) = i # working_items ws"

definition first_error :: "(nat \<times> ('e, 'r) result) list \<Rightarrow> 'e option" where
  "first_error hist = find_some (\<lambda>(i, out). case out of Inl e \<Rightarrow> Some e | Inr _ \<Rightarrow> None) hist"

lemma find_some_append: "find_some f (xs @ ys) = orelse (find_some f xs) (find_some f ys)"
  by (induction xs) (auto simp: orelse_def simp del: find_some_eq_None split: option.splits)

lemma first_error_snoc:
  "first_error (hist @ [(i, out)]) =
     (case first_error hist of Some e \<Rightarrow> Some e | None \<Rightarrow> (case out of Inl e \<Rightarrow> Some e | Inr _ \<Rightarrow> None))"
  unfolding first_error_def find_some_append
  by (cases out) (simp_all add: orelse_def del: find_some_eq_None split: option.split)

definition fan_inv :: "nat list \<Rightarrow> (nat \<times> ('e, 'r) result) list \<Rightarrow> ('e, 'r, 'p) fan \<Rightarrow> bool" where
  "fan_inv queued hist f \<longleftrightarrow>
     length (fan_results f) = fan_size f \<and> fan_next f \<le> fan_size f
     \<and> distinct (working_items (fan_workers f) @ queued @ map fst hist)
     \<and> set (working_items (fan_workers f) @ queued @ map fst hist) = {..<fan_next f}
     \<and> (\<forall>i<fan_size f. \<forall>r. fan_results f ! i = Some r \<longleftrightarrow> (i, Inr r) \<in> set hist)
     \<and> fan_error f = first_error hist"

text \<open>No worker rests while there is an item left to claim.\<close>

definition fan_full :: "nat list \<Rightarrow> ('e, 'r, 'p) fan \<Rightarrow> bool" where
  "fan_full queued_workers f \<longleftrightarrow>
     (\<forall>w<length (fan_workers f). fan_workers f ! w = Idle \<longrightarrow> w \<in> set queued_workers \<or> \<not> can_claim f)"

section \<open>Lemmas\<close>

lemma working_items_claim:
  "w < length ws \<Longrightarrow> ws ! w = Idle \<Longrightarrow>
   set (working_items (ws[w := Working i p])) = insert i (set (working_items ws))
   \<and> (distinct (working_items (ws[w := Working i p])) \<longleftrightarrow> distinct (working_items ws) \<and> i \<notin> set (working_items ws))"
proof (induction ws arbitrary: w rule: working_items.induct)
  case (2 ws)
  then show ?case by (cases w) auto
next
  case (3 j q ws)
  then show ?case by (cases w) auto
qed simp

lemma working_items_idle [simp]: "w < length ws \<Longrightarrow> ws ! w = Idle \<Longrightarrow> ws[w := Idle] = ws"
  by (simp add: list_update_same_conv)

lemma working_items_release:
  "w < length ws \<Longrightarrow> ws ! w = Working i p \<Longrightarrow> distinct (working_items ws) \<Longrightarrow>
   set (working_items (ws[w := Idle])) = set (working_items ws) - {i}
   \<and> i \<in> set (working_items ws) \<and> distinct (working_items (ws[w := Idle]))"
proof (induction ws arbitrary: w rule: working_items.induct)
  case (2 ws)
  then show ?case by (cases w) auto
next
  case (3 j q ws)
  show ?case
  proof (cases w)
    case 0
    with 3 show ?thesis by auto
  next
    case (Suc v)
    with 3 have "j \<noteq> i" by force
    with 3 Suc show ?thesis by auto
  qed
qed simp

lemma fan_inv_record:
  assumes "fan_inv (i # q) hist f"
  shows "fan_inv q (hist @ [(i, out)]) (record_outcome i out f)"
proof -
  obtain ws n sz rs err where f: "f = Fan ws n sz rs err" by (cases f)
  have i: "i < sz" "i \<notin> fst ` set hist" "length rs = sz"
    using assms by (auto simp: fan_inv_def f)
  show ?thesis
  proof (cases out)
    case (Inl e)
    with assms show ?thesis
      by (auto simp: fan_inv_def f first_error_snoc split: option.split)
  next
    case (Inr r)
    have "(rs[i := Some r] ! j = Some r') \<longleftrightarrow> (j, Inr r') \<in> set (hist @ [(i, out)])" if "j < sz" for j r'
    proof (cases "j = i")
      case True
      with i Inr show ?thesis by (force simp: image_iff)
    next
      case False
      with assms that Inr show ?thesis by (auto simp: fan_inv_def f)
    qed
    with assms Inr i show ?thesis
      by (auto simp: fan_inv_def f first_error_snoc split: option.split)
  qed
qed

lemma fan_inv_claim:
  assumes "fan_inv q hist f" "can_claim f" "w < length (fan_workers f)" "fan_workers f ! w = Idle"
  shows "fan_inv q hist (put_worker w (Working (fan_next f) p) (claim_next f))"
proof -
  have new: "fan_next f \<notin> set (working_items (fan_workers f) @ q @ map fst hist)"
    using assms(1) by (simp add: fan_inv_def)
  note upd = working_items_claim [OF assms(3,4), of "fan_next f" p]
  show ?thesis using assms(1,2) new upd
    unfolding fan_inv_def by (auto simp: can_claim_def lessThan_Suc)
qed

lemma fan_inv_queue:
  assumes "fan_inv q hist f" "can_claim f"
  shows "fan_inv (q @ [fan_next f]) hist (claim_next f)"
proof -
  have new: "fan_next f \<notin> set (working_items (fan_workers f) @ q @ map fst hist)"
    using assms(1) by (simp add: fan_inv_def)
  then show ?thesis using assms
    unfolding fan_inv_def by (auto simp: can_claim_def lessThan_Suc)
qed

definition queue_ok :: "(nat \<times> nat \<times> ('e, 'r) result) list \<Rightarrow> ('e, 'r, 'p) fan \<Rightarrow> bool" where
  "queue_ok q f \<longleftrightarrow> distinct (map fst q)
     \<and> (\<forall>w\<in>fst ` set q. w < length (fan_workers f) \<and> fan_workers f ! w = Idle)"

definition queued_items :: "(nat \<times> nat \<times> ('e, 'r) result) list \<Rightarrow> nat list" where
  "queued_items q = map (\<lambda>(w, i, out). i) q"

lemma can_claim_record: "can_claim (record_outcome i out f) \<Longrightarrow> can_claim f"
  by (cases f; cases out) (auto simp: can_claim_def split: option.splits)

text \<open>A starter that never settles an item at once: every item waits for its answer.\<close>

definition async :: "('e, 'r, 'p, 's) starter \<Rightarrow> bool" where
  "async start \<longleftrightarrow> (\<forall>i s. \<not> isl (fst (start i s)))"

definition outcomes :: "(nat \<times> nat \<times> ('e, 'r) result) list \<Rightarrow> (nat \<times> ('e, 'r) result) list" where
  "outcomes q = map snd q"

lemma drain_inv:
  assumes "fan_inv (queued_items q) hist f" "queue_ok q f" "fan_full (map fst q) f"
    "drain start q f s = (f', s')"
  shows "\<exists>more. fan_inv [] (hist @ outcomes q @ more) f' \<and> (async start \<longrightarrow> more = []) \<and> fan_full [] f'
    \<and> length (fan_workers f') = length (fan_workers f) \<and> fan_size f' = fan_size f"
  using assms
proof (induction start q f s arbitrary: hist rule: drain.induct)
  case (1 start f s)
  then show ?case by (auto simp: queued_items_def outcomes_def intro!: exI [of _ "[]"])
next
  case (2 start w i out q f s)
  let ?f1 = "record_outcome i out f"
  have inv: "fan_inv (queued_items q) (hist @ [(i, out)]) ?f1"
    using "2.prems"(1) by (intro fan_inv_record) (simp add: queued_items_def)
  have w: "w < length (fan_workers ?f1)" "fan_workers ?f1 ! w = Idle" "w \<notin> fst ` set q"
    "queue_ok q ?f1" using "2.prems"(2) by (auto simp: queue_ok_def)
  show ?case
  proof (cases "can_claim ?f1")
    case False
    have "fan_full (map fst q) (put_worker w Idle ?f1)"
      using "2.prems"(3) False w by (auto simp: fan_full_def can_claim_def)
    moreover have "fan_inv (queued_items q) (hist @ [(i, out)]) (put_worker w Idle ?f1)"
      using inv w by (simp add: fan_inv_def)
    moreover have "queue_ok q (put_worker w Idle ?f1)" using w by (simp add: queue_ok_def)
    ultimately obtain more where "fan_inv [] ((hist @ [(i, out)]) @ outcomes q @ more) f' \<and> (async start \<longrightarrow> more = []) \<and> fan_full [] f'
      \<and> length (fan_workers f') = length (fan_workers (put_worker w Idle ?f1)) \<and> fan_size f' = fan_size (put_worker w Idle ?f1)"
      using "2.IH"(3) [OF refl False] "2.prems"(4) False by (fastforce simp: Let_def)
    then show ?thesis by (auto simp: outcomes_def intro!: exI [of _ more])
  next
    case True
    have others: "v \<in> fst ` set q" if "v < length (fan_workers f)" "fan_workers f ! v = Idle" "v \<noteq> w" for v
      using "2.prems"(3) can_claim_record [OF True] that by (auto simp: fan_full_def)
    obtain r s1 where st: "start (fan_next ?f1) s = (r, s1)" by (cases "start (fan_next ?f1) s")
    show ?thesis
    proof (cases r)
      case (Inr p)
      let ?f2 = "put_worker w (Working (fan_next ?f1) p) (claim_next ?f1)"
      have "fan_inv (queued_items q) (hist @ [(i, out)]) ?f2" by (rule fan_inv_claim [OF inv True w(1,2)])
      moreover have "queue_ok q ?f2" using w by (auto simp: queue_ok_def nth_list_update)
      moreover have "fan_full (map fst q) ?f2"
        using others w(1) by (auto simp: fan_full_def nth_list_update split: if_splits)
      moreover have "drain start q ?f2 s1 = (f', s')" using "2.prems"(4) True st Inr by (simp add: Let_def)
      ultimately obtain more where "fan_inv [] ((hist @ [(i, out)]) @ outcomes q @ more) f' \<and> (async start \<longrightarrow> more = []) \<and> fan_full [] f'
        \<and> length (fan_workers f') = length (fan_workers ?f2) \<and> fan_size f' = fan_size ?f2"
        using "2.IH"(2) [OF refl True st [symmetric] Inr] by blast
      then show ?thesis by (auto simp: outcomes_def intro!: exI [of _ more])
    next
      case (Inl out')
      let ?q = "q @ [(w, fan_next ?f1, out')]" and ?f2 = "put_worker w Idle (claim_next ?f1)"
      have "fan_inv (queued_items ?q) (hist @ [(i, out)]) (claim_next ?f1)"
        using fan_inv_queue [OF inv True] by (simp add: queued_items_def)
      then have "fan_inv (queued_items ?q) (hist @ [(i, out)]) ?f2" using w by (simp add: fan_inv_def)
      moreover have "queue_ok ?q ?f2" using w by (auto simp: queue_ok_def)
      moreover have "fan_full (map fst ?q) ?f2" using others w(2) by (auto simp: fan_full_def)
      moreover have "drain start ?q ?f2 s1 = (f', s')" using "2.prems"(4) True st Inl by (simp add: Let_def)
      ultimately obtain more where "fan_inv [] ((hist @ [(i, out)]) @ outcomes ?q @ more) f' \<and> (async start \<longrightarrow> more = []) \<and> fan_full [] f'
        \<and> length (fan_workers f') = length (fan_workers ?f2) \<and> fan_size f' = fan_size ?f2"
        using "2.IH"(1) [OF refl True st [symmetric] Inl] by blast
      moreover have "\<not> async start"
        using st Inl by (auto simp: async_def intro!: exI [of _ "fan_next ?f1"] exI [of _ s])
      ultimately show ?thesis
        by (auto simp: outcomes_def intro!: exI [of _ "(fan_next ?f1, out') # more"])
    qed
  qed
qed

section \<open>A whole fan-out\<close>

definition good_fan :: "nat \<Rightarrow> nat \<Rightarrow> (nat \<times> ('e, 'r) result) list \<Rightarrow> ('e, 'r, 'p) fan \<Rightarrow> bool" where
  "good_fan conc items hist f \<longleftrightarrow>
     fan_inv [] hist f \<and> fan_full [] f \<and> fan_size f = items
     \<and> length (fan_workers f) = min conc items \<and> (items = 0 \<or> 0 < conc)"

lemma working_items_worker_of:
  "working_items (map (\<lambda>(i, r). worker_of i r) (zip is rs)) =
     map fst (filter (\<lambda>(i, r). \<not> isl r) (zip is rs))"
proof (induction "is" rs rule: list_induct2')
  case (4 x xs y ys)
  then show ?case by (cases y) auto
qed simp_all

lemma queued_due:
  "queued_items (concat (map (\<lambda>(i, r). case r of Inl out \<Rightarrow> [(i, i, out)] | Inr _ \<Rightarrow> []) (zip is rs))) =
     map fst (filter (\<lambda>(i, r). isl r) (zip is rs))"
  by (induction "is" rs rule: list_induct2') (auto simp: queued_items_def isl_def split: sum.splits)

lemma queue_workers_due:
  "map fst (concat (map (\<lambda>(i, r). case r of Inl out \<Rightarrow> [(i, i, out)] | Inr _ \<Rightarrow> []) (zip is rs))) =
     map fst (filter (\<lambda>(i, r). isl r) (zip is rs))"
  by (induction "is" rs rule: list_induct2') (auto simp: isl_def split: sum.splits)

lemma launched_inv:
  assumes "length rs = min conc items" "items = 0 \<or> 0 < conc"
  shows "fan_inv (queued_items (due rs)) [] (launched items rs :: ('e, 'r, 'p) fan)"
    "queue_ok (due rs) (launched items rs :: ('e, 'r, 'p) fan)"
    "fan_full (map fst (due rs)) (launched items rs :: ('e, 'r, 'p) fan)"
proof -
  let ?z = "zip [0..<length rs] rs"
  have dz: "distinct (map fst ?z)" "map fst ?z = [0..<length rs]" by simp_all
  have split: "set (map fst (filter (\<lambda>(i, r). \<not> isl r) ?z)) \<union> set (map fst (filter (\<lambda>(i, r). isl r) ?z)) = {..<length rs}"
  proof -
    have "set (map fst (filter (\<lambda>(i, r). \<not> isl r) ?z)) \<union> set (map fst (filter (\<lambda>(i, r). isl r) ?z)) = set (map fst ?z)"
      by (force simp del: map_fst_zip)
    then show ?thesis by (simp add: lessThan_atLeast0)
  qed
  have disj: "set (map fst (filter (\<lambda>(i, r). \<not> isl r) ?z)) \<inter> set (map fst (filter (\<lambda>(i, r). isl r) ?z)) = {}"
    by (auto simp: set_zip)
  show "fan_inv (queued_items (due rs)) [] (launched items rs :: ('e, 'r, 'p) fan)"
    using split disj assms(1) dz(1)
    unfolding fan_inv_def launched_def due_def queued_due fan.sel working_items_worker_of
    by (auto simp: first_error_def distinct_map_filter)
  have idle: "fan_workers (launched items rs :: ('e, 'r, 'p) fan) ! w = Idle \<longleftrightarrow> isl (rs ! w)" if "w < length rs" for w
    using that by (cases "rs ! w") (auto simp: launched_def)
  show "queue_ok (due rs) (launched items rs :: ('e, 'r, 'p) fan)"
    unfolding queue_ok_def due_def queue_workers_due
    using dz(1) idle
    by (auto simp: distinct_map_filter queue_workers_due launched_def set_zip image_iff) (metis sum.disc(1))
  show "fan_full (map fst (due rs)) (launched items rs :: ('e, 'r, 'p) fan)"
    unfolding fan_full_def due_def queue_workers_due
  proof (intro allI impI)
    fix w
    assume w: "w < length (fan_workers (launched items rs :: ('e, 'r, 'p) fan))"
      "fan_workers (launched items rs :: ('e, 'r, 'p) fan) ! w = Idle"
    then have "w < length rs" "isl (rs ! w)" using idle by (auto simp: launched_def)
    then have "(w, rs ! w) \<in> set (filter (\<lambda>(i, r). isl r) ?z)"
      by (auto simp: set_zip intro!: exI [of _ w])
    then show "w \<in> set (map fst (filter (\<lambda>(i, r). isl r) ?z)) \<or> \<not> can_claim (launched items rs :: ('e, 'r, 'p) fan)"
      by force
  qed
qed

lemma launch_length: "launch start is s = (rs, s') \<Longrightarrow> length rs = length is"
  by (induction "is" arbitrary: s rs) (auto split: prod.splits)

lemma assemble_good:
  assumes "length rs = min conc items" "items = 0 \<or> 0 < conc" "assemble start items rs s = (f, s')"
  shows "\<exists>more. good_fan conc items (outcomes (due rs) @ more) f \<and> (async start \<longrightarrow> more = [])"
proof -
  have d: "drain start (due rs) (launched items rs) s = (f, s')" using assms(3) by (simp add: assemble_def)
  from drain_inv [OF launched_inv [OF assms(1,2)] d] assms(1,2) show ?thesis
    by (auto simp: good_fan_def launched_def)
qed

lemma launch_async: "launch start is s = (rs, s') \<Longrightarrow> async start \<Longrightarrow> \<forall>r\<in>set rs. \<not> isl r"
proof (induction "is" arbitrary: s rs)
  case (Cons i "is")
  obtain r s1 where r: "start i s = (r, s1)" by (cases "start i s")
  with Cons.prems(2) have "\<not> isl r" by (metis async_def fst_conv)
  with Cons r show ?case by (fastforce split: prod.splits)
qed simp

lemma due_async: "\<forall>r\<in>set rs. \<not> isl r \<Longrightarrow> due rs = []"
  by (fastforce simp: due_def dest: set_zip_rightD split: sum.splits)

lemma fanOut_good:
  assumes "0 < conc" "fanOut start conc items s = (f, s')"
  shows "\<exists>hist. good_fan conc items hist f \<and> (async start \<longrightarrow> hist = [])"
proof -
  obtain rs s1 where l: "launch start [0..<min conc items] s = (rs, s1)"
    by (cases "launch start [0..<min conc items] s")
  have "length rs = min conc items" using launch_length [OF l] by simp
  moreover have "assemble start items rs s1 = (f, s')" using assms(2) l by (simp add: fanOut_def)
  ultimately obtain more where "good_fan conc items (outcomes (due rs) @ more) f" "async start \<longrightarrow> more = []"
    using assemble_good [of rs conc items start s1 f s'] assms(1) by blast
  moreover have "outcomes (due rs) = []" if "async start"
    using due_async [OF launch_async [OF l that]] by (simp add: outcomes_def)
  ultimately have "good_fan conc items (outcomes (due rs) @ more) f \<and> (async start \<longrightarrow> outcomes (due rs) @ more = [])"
    by simp
  then show ?thesis ..
qed

lemma settle_good:
  assumes "good_fan conc items hist f" "w < length (fan_workers f)" "fan_workers f ! w = Working i p"
    "settle start w out f s = (f', s')"
  shows "\<exists>more. good_fan conc items (hist @ (i, out) # more) f' \<and> (async start \<longrightarrow> more = [])"
proof -
  note Working = assms(3)
  let ?f = "put_worker w Idle f"
  have inv: "fan_inv [] hist f" and full: "fan_full [] f" using assms(1) by (simp_all add: good_fan_def)
  from inv have "distinct (working_items (fan_workers f))" by (simp add: fan_inv_def)
  note rel = working_items_release [OF assms(2) Working this]
  have a: "fan_inv (queued_items [(w, i, out)]) hist ?f"
    using inv rel unfolding fan_inv_def by (auto simp: queued_items_def)
  have b: "queue_ok [(w, i, out)] ?f" using assms(2) by (simp add: queue_ok_def)
  have c: "fan_full (map fst [(w, i, out)]) ?f"
    using full by (auto simp: fan_full_def nth_list_update can_claim_def)
  have d: "drain start [(w, i, out)] ?f s = (f', s')" using assms(4) Working by (simp add: settle_def)
  from drain_inv [OF a b c d] assms(1) show ?thesis by (auto simp: good_fan_def outcomes_def)
qed

lemma advance_good:
  assumes "good_fan conc items hist f" "w < length (fan_workers f)" "fan_workers f ! w = Working i p"
  shows "good_fan conc items hist (put_worker w (Working i p') f)"
proof -
  have "working_items (ws[w := Working i p']) = working_items ws" if "w < length ws" "ws ! w = Working i p"
    for ws w using that
  proof (induction ws arbitrary: w rule: working_items.induct)
    case (2 ws)
    then show ?case by (cases w) auto
  next
    case (3 j q ws)
    then show ?case by (cases w) auto
  qed simp
  note * = this [OF assms(2,3)]
  with assms show ?thesis
    by (auto simp: good_fan_def fan_inv_def fan_full_def can_claim_def nth_list_update split: if_splits)
qed

lemma working_items_all_idle: "\<forall>x\<in>set ws. x = Idle \<Longrightarrow> working_items ws = []"
  by (induction ws rule: working_items.induct) auto

text \<open>When every worker is idle, a fan-out without an error has settled every item, in place.\<close>

lemma good_fan_done:
  assumes "good_fan conc items hist f" "fan_done f" "fan_outcome f = Inr rs"
  shows "length rs = items \<and> (\<forall>i<items. (i, Inr (rs ! i)) \<in> set hist)"
proof -
  have inv: "fan_inv [] hist f" and full: "fan_full [] f" and sz: "fan_size f = items"
    using assms(1) by (simp_all add: good_fan_def)
  have err: "fan_error f = None" and rs: "rs = map the (fan_results f)"
    using assms(3) by (auto simp: fan_outcome_def split: option.splits)
  have all: "fan_next f = items"
  proof (cases "items = 0")
    case True
    with inv sz show ?thesis by (simp add: fan_inv_def)
  next
    case False
    with assms(1) have "0 < length (fan_workers f)" by (simp add: good_fan_def)
    moreover from this assms(2) have "fan_workers f ! 0 = Idle" by (simp add: fan_done_def)
    ultimately have "\<not> can_claim f" using full by (auto simp: fan_full_def)
    with err inv sz show ?thesis by (auto simp: can_claim_def fan_inv_def)
  qed
  have none: "working_items (fan_workers f) = []"
    using assms(2) by (auto simp: fan_done_def intro: working_items_all_idle)
  have some: "\<exists>r. (i, Inr r) \<in> set hist" if "i < items" for i
  proof -
    from inv all none that have "i \<in> fst ` set hist" by (auto simp: fan_inv_def)
    then obtain out where out: "(i, out) \<in> set hist" by auto
    have "first_error hist = None" using inv err by (simp add: fan_inv_def)
    with out have "\<not> isl out" by (cases out) (auto simp: first_error_def)
    with out show ?thesis by (cases out) auto
  qed
  have "(i, Inr (rs ! i)) \<in> set hist" if "i < items" for i
  proof -
    from some [OF that] obtain r where r: "(i, Inr r) \<in> set hist" by blast
    with inv that sz have "fan_results f ! i = Some r" "length (fan_results f) = items"
      by (auto simp: fan_inv_def)
    with r that show ?thesis by (simp add: rs)
  qed
  with inv sz show ?thesis by (simp add: rs fan_inv_def)
qed

lemma good_fan_error:
  assumes "good_fan conc items hist f" "fan_outcome f = Inl e"
  shows "first_error hist = Some e"
  using assms by (auto simp: good_fan_def fan_inv_def fan_outcome_def split: option.splits)

lemma good_fan_concurrency:
  assumes "good_fan conc items hist f"
  shows "length (working_items (fan_workers f)) \<le> conc" "distinct (working_items (fan_workers f) @ map fst hist)"
proof -
  have "length (working_items ws) \<le> length ws" for ws :: "'p worker list"
    by (induction ws rule: working_items.induct) auto
  from this [of "fan_workers f"] assms show "length (working_items (fan_workers f)) \<le> conc"
    by (simp add: good_fan_def)
  show "distinct (working_items (fan_workers f) @ map fst hist)"
    using assms by (simp add: good_fan_def fan_inv_def)
qed

end
