(* ===== verification/Fan_Out_Claims.thy ===== *)
theory Fan_Out_Claims
  imports Fan_Out
begin

text \<open>
  The promises of \<open>fanOut\<close> (\<open>packages/typescript/temporal/src/composition.ts\<close>) for every order in which
  its calls settle, with the demonstration starter of their witnesses: item \<open>n\<close> is in progress until it
  is answered, and the state is the list of items begun.
\<close>

section \<open>Every order of answers\<close>

type_synonym ('e, 'r, 'p, 's) fan_run = "(('e, 'r, 'p) fan \<times> 's) \<times> (nat \<times> ('e, 'r) result) list"

text \<open>The answer to a busy worker settles its item; the history lists the settled items.\<close>

definition fan_answer ::
    "('e, 'r, 'p, 's) starter \<Rightarrow> nat \<times> ('e, 'r) result \<Rightarrow> ('e, 'r, 'p, 's) fan_run \<Rightarrow> ('e, 'r, 'p, 's) fan_run" where
  "fan_answer start = (\<lambda>(w, out) ((f, s), hist).
     if w < length (fan_workers f)
     then (case fan_workers f ! w of Idle \<Rightarrow> ((f, s), hist)
           | Working i p \<Rightarrow> (settle start w out f s, hist @ [(i, out)]))
     else ((f, s), hist))"

definition fan_run ::
    "('e, 'r, 'p, 's) starter \<Rightarrow> nat \<Rightarrow> nat \<Rightarrow> 's \<Rightarrow> (nat \<times> ('e, 'r) result) list \<Rightarrow> ('e, 'r, 'p, 's) fan_run" where
  "fan_run start conc items s answers = fold (fan_answer start) answers (fanOut start conc items s, [])"

definition demo_starter :: "(string, string, nat, nat list) starter" where
  "demo_starter n s = (Inr n, s @ [n])"

definition demo_answers :: "(nat \<times> (string, string) result) list" where
  "demo_answers = [(1, Inr ''b''), (0, Inr ''a''), (1, Inr ''c'')]"

lemma demo_async: "async demo_starter"
  by (simp add: async_def demo_starter_def)

lemma fan_run_good:
  assumes "async start" "0 < conc"
  shows "good_fan conc items (snd (fan_run start conc items s answers)) (fst (fst (fan_run start conc items s answers)))"
proof (induction answers rule: rev_induct)
  case Nil
  obtain f s' where f: "fanOut start conc items s = (f, s')" by (cases "fanOut start conc items s")
  from fanOut_good [OF assms(2) f] assms(1) show ?case by (auto simp: fan_run_def f)
next
  case (snoc a answers)
  obtain w out where a: "a = (w, out)" by (cases a)
  obtain f s1 hist where r: "fan_run start conc items s answers = ((f, s1), hist)"
    by (cases "fan_run start conc items s answers") auto
  have step: "fan_run start conc items s (answers @ [a]) = fan_answer start (w, out) ((f, s1), hist)"
    using r by (simp add: fan_run_def a)
  have good: "good_fan conc items hist f" using snoc.IH by (simp add: r)
  show ?case
  proof (cases "w < length (fan_workers f)")
    case False
    with good show ?thesis by (simp add: step fan_answer_def)
  next
    case True
    show ?thesis
    proof (cases "fan_workers f ! w")
      case Idle
      with good True show ?thesis by (simp add: step fan_answer_def)
    next
      case (Working i p)
      obtain f' s2 where st: "settle start w out f s1 = (f', s2)" by (cases "settle start w out f s1")
      from settle_good [OF good True Working st] assms(1) have "good_fan conc items (hist @ [(i, out)]) f'" by auto
      with True Working st show ?thesis by (simp add: step fan_answer_def)
    qed
  qed
qed

lemma error_no_claim: "fan_error f \<noteq> None \<Longrightarrow> \<not> can_claim (record_outcome i out f)"
  by (cases f; cases out) (auto simp: can_claim_def)

lemma no_working_items: "working_items ws = [] \<Longrightarrow> x \<in> set ws \<Longrightarrow> x = Idle"
  by (induction ws rule: working_items.induct) auto

section \<open>Properties\<close>

text \<open>C37: When all workers of a fan-out are idle and no item failed, there is one result per item, and result \<open>i\<close> is
  what item \<open>i\<close> settled with, in whatever order the items settled.\<close>

theorem fanOut_in_item_order:
  assumes "async start" "0 < conc" "fan_run start conc items s answers = ((f, s1), hist)"
    and "fan_done f" "fan_outcome f = Inr rs"
  shows "length rs = items \<and> (\<forall>i<items. (i, Inr (rs ! i)) \<in> set hist)"
  using good_fan_done [OF _ assms(4,5), of conc items hist] fan_run_good [OF assms(1,2), of items s answers]
  by (simp add: assms(3))

lemma fanOut_in_item_order_witness:
  "\<exists>f s1 hist. fan_run demo_starter 2 3 [] demo_answers = ((f, s1), hist)
    \<and> fan_outcome f = Inr [''a'', ''b'', ''c''] \<and> length [''a'', ''b'', ''c''] = (3::nat)
    \<and> (\<forall>i<3. (i, Inr ([''a'', ''b'', ''c''] ! i)) \<in> set hist)"
proof -
  let ?r = "fan_run demo_starter 2 3 [] demo_answers"
  have d: "fan_done (fst (fst ?r))" "fan_outcome (fst (fst ?r)) = Inr [''a'', ''b'', ''c'']" by code_simp+
  have r: "?r = ((fst (fst ?r), snd (fst ?r)), snd ?r)" by simp
  from fanOut_in_item_order [OF demo_async _ r d] d(2) show ?thesis by (metis prod.collapse zero_less_numeral)
qed

text \<open>A fan-out that fails fails with the error that arrived first, and from that error on begins no item: the
  remaining answers only let the items already in flight settle.\<close>

theorem fanOut_first_error:
  assumes "async start" "0 < conc" "fan_run start conc items s answers = ((f, s1), hist)" "fan_outcome f = Inl e"
  shows "first_error hist = Some e \<and> (\<forall>w out. w < length (fan_workers f) \<longrightarrow> snd (settle start w out f s1) = s1)"
proof -
  have err: "first_error hist = Some e"
    using good_fan_error [OF _ assms(4), of conc items hist] fan_run_good [OF assms(1,2), of items s answers]
    by (simp add: assms(3))
  have "fan_error f \<noteq> None" using assms(4) by (auto simp: fan_outcome_def split: option.splits)
  then have "snd (settle start w out f s1) = s1" for w out
    by (auto simp: settle_def error_no_claim Let_def split: worker.splits)
  with err show ?thesis by simp
qed

lemma fanOut_first_error_witness:
  "\<exists>f s1 hist. fan_run demo_starter 2 3 [] [(1, Inl ''x''), (0, Inl ''y'')] = ((f, s1), hist)
    \<and> fan_outcome f = Inl ''x'' \<and> first_error hist = Some ''x''"
proof -
  let ?r = "fan_run demo_starter 2 3 [] [(1, Inl ''x''), (0, Inl ''y'')]"
  have d: "fan_outcome (fst (fst ?r)) = Inl ''x''" by code_simp
  have r: "?r = ((fst (fst ?r), snd (fst ?r)), snd ?r)" by simp
  from fanOut_first_error [OF demo_async _ r d] d show ?thesis by (metis prod.collapse zero_less_numeral)
qed

text \<open>At most \<open>concurrency\<close> items are in flight at any time, no item is begun twice, items are begun in
  order, and the fan-out is over once as many answers as items have arrived.\<close>

theorem fanOut_bounded:
  assumes "async start" "0 < conc" "fan_run start conc items s answers = ((f, s1), hist)"
  shows "length (working_items (fan_workers f)) \<le> conc
    \<and> distinct (working_items (fan_workers f) @ map fst hist)
    \<and> set (working_items (fan_workers f) @ map fst hist) = {..<fan_next f} \<and> fan_next f \<le> items
    \<and> length hist \<le> items \<and> (length hist = items \<longrightarrow> fan_done f)"
proof -
  have good: "good_fan conc items hist f" using fan_run_good [OF assms(1,2), of items s answers] by (simp add: assms(3))
  then have inv: "fan_inv [] hist f" and sz: "fan_size f = items" by (simp_all add: good_fan_def)
  let ?all = "working_items (fan_workers f) @ map fst hist"
  have all: "distinct ?all" "set ?all = {..<fan_next f}" "fan_next f \<le> items"
    using inv sz by (auto simp: fan_inv_def)
  have len: "length (working_items (fan_workers f)) + length hist = fan_next f"
    using distinct_card [OF all(1)] all(2) by simp
  have "fan_done f" if "length hist = items"
  proof -
    have "length (working_items (fan_workers f)) = 0" using len all(3) that by linarith
    then have "working_items (fan_workers f) = []" by simp
    from no_working_items [OF this] show ?thesis by (simp add: fan_done_def)
  qed
  then show ?thesis using good_fan_concurrency(1) [OF good] all len by (simp del: set_append distinct_append)
qed

lemma fanOut_bounded_witness:
  "\<exists>f s1 hist. fan_run demo_starter 2 3 [] [(1, Inr ''b'')] = ((f, s1), hist)
    \<and> length (working_items (fan_workers f)) \<le> 2 \<and> distinct (working_items (fan_workers f) @ map fst hist)"
proof -
  let ?r = "fan_run demo_starter 2 3 [] [(1, Inr ''b'')]"
  have r: "?r = ((fst (fst ?r), snd (fst ?r)), snd ?r)" by simp
  from fanOut_bounded [OF demo_async _ r] show ?thesis by (metis prod.collapse zero_less_numeral)
qed

end
