(* ===== verification/Payload_Limit.thy ===== *)
theory Payload_Limit
  imports Plan
begin

text \<open>
  The collect payload guard of \<open>packages/typescript/temporal-yaml/src/workflows.ts\<close> and the byte count it
  measures with (\<open>utf8ByteLength\<close> of \<open>packages/typescript/yaml/src/workflow-plan.ts\<close>), with the UTF-16
  and UTF-8 encodings the count is compared to.
\<close>

section \<open>Counting bytes\<close>

text \<open>A JavaScript string as its UTF-16 code units; \<open>codePointAt\<close> joins a surrogate pair.\<close>

definition is_high :: "nat \<Rightarrow> bool" where
  "is_high c \<longleftrightarrow> 0xD800 \<le> c \<and> c \<le> 0xDBFF"

definition is_low :: "nat \<Rightarrow> bool" where
  "is_low c \<longleftrightarrow> 0xDC00 \<le> c \<and> c \<le> 0xDFFF"

definition bytes_of_code :: "nat \<Rightarrow> nat" where
  "bytes_of_code code = (if code \<le> 0x7F then 1 else if code \<le> 0x7FF then 2 else if code \<le> 0xFFFF then 3 else 4)"

fun utf8ByteLength :: "nat list \<Rightarrow> nat" where
  "utf8ByteLength [] = 0"
| "utf8ByteLength [c] = bytes_of_code c"
| "utf8ByteLength (c # d # cs) =
     (if is_high c \<and> is_low d
      then bytes_of_code ((c - 0xD800) * 0x400 + (d - 0xDC00) + 0x10000) + utf8ByteLength cs
      else bytes_of_code c + utf8ByteLength (d # cs))"

definition units_of :: "string \<Rightarrow> nat list" where
  "units_of s = map of_char s"

section \<open>The guard\<close>

datatype limit_kind = Limit_map | Limit_parallel

definition enforceCollectPayloadLimit :: "limit_kind \<Rightarrow> jv \<Rightarrow> nat option \<Rightarrow> (string, unit) result" where
  "enforceCollectPayloadLimit kind collected limit =
     (case limit of
        None \<Rightarrow> Inr ()
      | Some l \<Rightarrow>
          if l = 0 then Inr ()
          else if utf8ByteLength (units_of (stringify collected)) > l
          then Inl (case kind of Limit_map \<Rightarrow> ''TypefluxMapCollectPayloadTooLarge''
                               | Limit_parallel \<Rightarrow> ''TypefluxParallelCollectPayloadTooLarge'')
          else Inr ())"

section \<open>The encodings\<close>

definition scalar :: "nat \<Rightarrow> bool" where
  "scalar cp \<longleftrightarrow> cp < 0x110000 \<and> \<not> (0xD800 \<le> cp \<and> cp \<le> 0xDFFF)"

definition utf16 :: "nat \<Rightarrow> nat list" where
  "utf16 cp = (if cp < 0x10000 then [cp]
     else [0xD800 + (cp - 0x10000) div 0x400, 0xDC00 + (cp - 0x10000) mod 0x400])"

definition utf8 :: "nat \<Rightarrow> nat list" where
  "utf8 cp =
     (if cp < 0x80 then [cp]
      else if cp < 0x800 then [0xC0 + cp div 0x40, 0x80 + cp mod 0x40]
      else if cp < 0x10000 then [0xE0 + cp div 0x1000, 0x80 + cp div 0x40 mod 0x40, 0x80 + cp mod 0x40]
      else [0xF0 + cp div 0x40000, 0x80 + cp div 0x1000 mod 0x40, 0x80 + cp div 0x40 mod 0x40,
            0x80 + cp mod 0x40])"

lemma utf8ByteLength_single: "\<not> is_high c \<Longrightarrow> utf8ByteLength (c # cs) = bytes_of_code c + utf8ByteLength cs"
  by (cases cs) auto

text \<open>The byte count of a payload is the length of its UTF-8 encoding, for every text of Unicode
  scalar values, surrogate pairs included.\<close>

theorem utf8ByteLength_correct:
  assumes "\<forall>cp\<in>set cps. scalar cp"
  shows "utf8ByteLength (concat (map utf16 cps)) = length (concat (map utf8 cps))"
  using assms
proof (induction cps)
  case (Cons cp cps)
  then have IH: "utf8ByteLength (concat (map utf16 cps)) = length (concat (map utf8 cps))"
    and sc: "scalar cp" by auto
  show ?case
  proof (cases "cp < 0x10000")
    case True
    then have "\<not> is_high cp" using sc by (auto simp: scalar_def is_high_def)
    moreover have "bytes_of_code cp = length (utf8 cp)"
      using True by (auto simp: bytes_of_code_def utf8_def)
    moreover have "utf16 cp = [cp]" using True by (simp add: utf16_def)
    ultimately show ?thesis using IH by (simp add: utf8ByteLength_single)
  next
    case False
    let ?n = "cp - 0x10000"
    have n: "?n < 0x100000" using sc False by (simp add: scalar_def)
    then have "?n div 0x400 \<le> 0x3FF" by simp
    then have "is_high (0xD800 + ?n div 0x400)" unfolding is_high_def by simp
    moreover have "?n mod 0x400 \<le> 0x3FF"
      using mod_less_divisor [of "0x400" ?n] by linarith
    then have "is_low (0xDC00 + ?n mod 0x400)" unfolding is_low_def by simp
    moreover have "bytes_of_code (?n div 0x400 * 0x400 + ?n mod 0x400 + 0x10000) = 4"
      using False by (simp add: bytes_of_code_def)
    moreover have "length (utf8 cp) = 4" using False by (simp add: utf8_def)
    moreover have "utf16 cp = [0xD800 + ?n div 0x400, 0xDC00 + ?n mod 0x400]"
      using False by (simp add: utf16_def)
    ultimately show ?thesis using IH by simp
  qed
qed simp

lemma utf8ByteLength_correct_witness:
  "utf8ByteLength (concat (map utf16 [0x41, 0xE9, 0x20AC, 0x1F600])) =
   length (concat (map utf8 [0x41, 0xE9, 0x20AC, 0x1F600]))"
  by (rule utf8ByteLength_correct) (simp add: scalar_def)

end
