(* ===== verification/Spec.thy ===== *)
theory Spec
  imports Plan
begin

text \<open>
  The parsed workflow spec of \<open>packages/typescript/yaml/src/spec.ts\<close>, as far as plan derivation
  reads it: steps, maps, parallel blocks, gates, compensations, activity definitions and the
  lifecycle block, with the lifecycle checks that run when a spec is loaded. Durations are the
  exact rationals the YAML numbers denote.
\<close>

section \<open>Data\<close>

record activity_retry_spec =
  maximum_attempts :: nat
  initial_interval_seconds :: rat
  maximum_interval_seconds :: "rat option"
  backoff_coefficient :: jsnum

record workflow_compensate_spec =
  wc_activity :: string
  wc_input_from :: "string option"
  wc_retry :: "activity_retry_spec option"

record when_leaf_spec =
  wl_path :: string
  wl_eq :: "jv option"
  wl_neq :: "jv option"
  wl_lt :: "jv option"
  wl_lte :: "jv option"
  wl_gt :: "jv option"
  wl_gte :: "jv option"
  wl_in :: "jv list option"
  wl_exists :: "bool option"

datatype when_spec =
    WhenLeaf when_leaf_spec
  | WhenAll "when_leaf_spec list"
  | WhenAny "when_leaf_spec list"
  | WhenPredicate string

record map_collect_spec =
  collect_output :: string
  collect_field :: string
  collect_max_bytes :: nat

record workflow_map_spec =
  wm_activity :: "string option"
  wm_workflow :: "string option"
  wm_concurrency :: "nat option"
  wm_collect :: "map_collect_spec option"
  wm_over :: string

datatype workflow_step_spec =
    StepSpec (sp_id: string) (sp_activity: "string option") (sp_map: "workflow_map_spec option")
      (sp_parallel: "workflow_parallel_spec option") (sp_when: "when_spec option")
      (sp_workflow: "string option") (sp_compensate: "workflow_compensate_spec option")
and workflow_parallel_branch_spec =
    BranchSpec (bsp_id: string) (bsp_when: "when_spec option") (bsp_steps: "workflow_step_spec list")
and workflow_parallel_spec =
    ParallelSpec (ps_branches: "workflow_parallel_branch_spec list") (ps_output: string)
      (ps_max_bytes: nat)

record review_timeout_spec =
  rt_seconds :: nat
  rt_on_timeout :: on_timeout
  rt_route :: "string option"

record lifecycle_review_spec =
  after_step :: string
  user_decisions :: "(string \<times> string) list"
  invalid_user_decision :: invalid_policy
  review_timeout :: "review_timeout_spec option"

record lifecycle_gate_spec = lifecycle_review_spec +
  lg_id :: string

record workflow_lifecycle_spec =
  wl_enabled :: bool
  wl_progress :: bool
  wl_cancellation :: bool
  wl_status_event_limit :: nat
  wl_review :: "lifecycle_review_spec option"
  wl_gates :: "lifecycle_gate_spec list option"

record session_cache_spec =
  sc_enabled :: bool
  sc_ttl_seconds :: "jsnum option"

record activity_definition_spec =
  def_name :: string
  def_input :: string
  def_output :: string
  def_start_to_close_timeout_seconds :: "rat option"
  def_heartbeat_timeout_seconds :: "rat option"
  def_retry :: "activity_retry_spec option"
  def_cache :: "session_cache_spec option"

record workflow_spec =
  wf_name :: string
  wf_input :: string
  wf_output :: "string option"
  wf_steps :: "workflow_step_spec list"
  wf_version :: "string option"
  wf_lifecycle_spec :: "workflow_lifecycle_spec option"

record yaml_spec =
  sp_project :: string
  sp_definitions :: "activity_definition_spec list option"
  sp_activity_retry :: "activity_retry_spec option"
  sp_workflow_spec :: workflow_spec

definition definitions_of :: "yaml_spec \<Rightarrow> activity_definition_spec list" where
  "definitions_of spec = (case sp_definitions spec of None \<Rightarrow> [] | Some ds \<Rightarrow> ds)"

text \<open>\<open>new Map(definitions.map((d) => [d.name, ...]))\<close>: the last definition of a name wins.\<close>

definition inputRef_of :: "yaml_spec \<Rightarrow> string \<Rightarrow> string option" where
  "inputRef_of spec = map_of (rev (map (\<lambda>d. (def_name d, def_input d)) (definitions_of spec)))"

definition outputRef_of :: "yaml_spec \<Rightarrow> string \<Rightarrow> string option" where
  "outputRef_of spec = map_of (rev (map (\<lambda>d. (def_name d, def_output d)) (definitions_of spec)))"

section \<open>Load-time checks of the lifecycle block\<close>

datatype lifecycle_issue =
    Review_and_gates
  | Duplicate_gate_id string
  | Shared_after_step string string
  | Divergent_decision string string string string string

text \<open>
  \<open>workflowLifecycleSpec.superRefine\<close>: every issue is collected. \<open>routes\<close> maps a decision name
  to the first gate and route that used it.
\<close>

fun decision_issues ::
    "string \<Rightarrow> (string \<times> string) list \<Rightarrow> (string \<times> string \<times> string) list \<Rightarrow>
     lifecycle_issue list \<times> (string \<times> string \<times> string) list" where
  "decision_issues gid [] routes = ([], routes)"
| "decision_issues gid ((d, r) # ds) routes =
     (case map_of routes d of
        None \<Rightarrow> decision_issues gid ds ((d, gid, r) # routes)
      | Some (pg, pr) \<Rightarrow>
          (let (is, routes') = decision_issues gid ds routes
           in ((if pr \<noteq> r then [Divergent_decision d pr pg r gid] else []) @ is, routes')))"

fun gates_issues ::
    "lifecycle_gate_spec list \<Rightarrow> string list \<Rightarrow> string list \<Rightarrow>
     (string \<times> string \<times> string) list \<Rightarrow> lifecycle_issue list" where
  "gates_issues [] ids afters routes = []"
| "gates_issues (g # gs) ids afters routes =
     (if lg_id g \<in> set ids then [Duplicate_gate_id (lg_id g)] else [])
     @ (if after_step g \<in> set afters then [Shared_after_step (lg_id g) (after_step g)] else [])
     @ (let (is, routes') = decision_issues (lg_id g) (user_decisions g) routes
        in is @ gates_issues gs (lg_id g # ids) (after_step g # afters) routes')"

definition lifecycle_issues :: "workflow_lifecycle_spec \<Rightarrow> lifecycle_issue list" where
  "lifecycle_issues l =
     (if wl_review l \<noteq> None \<and> wl_gates l \<noteq> None then [Review_and_gates] else [])
     @ (case wl_gates l of None \<Rightarrow> [] | Some gs \<Rightarrow> gates_issues gs [] [] [])"

section \<open>Lemmas\<close>

lemma decision_issues_le: "map_of routes \<subseteq>\<^sub>m map_of (snd (decision_issues gid ds routes))"
proof (induction gid ds routes rule: decision_issues.induct)
  case (2 gid d r ds routes)
  show ?case
  proof (cases "map_of routes d")
    case None
    then have "map_of routes \<subseteq>\<^sub>m map_of ((d, gid, r) # routes)"
      by (auto simp: map_le_def)
    also have "\<dots> \<subseteq>\<^sub>m map_of (snd (decision_issues gid ds ((d, gid, r) # routes)))"
      using 2(1) [OF None] .
    finally show ?thesis using None by simp
  next
    case (Some p)
    with 2(2) [OF Some] show ?thesis by (auto split: prod.splits)
  qed
qed simp

lemma decision_issues_routes:
  "fst (decision_issues gid ds routes) = [] \<Longrightarrow> (d, r) \<in> set ds \<Longrightarrow>
   \<exists>g. map_of (snd (decision_issues gid ds routes)) d = Some (g, r)"
proof (induction gid ds routes rule: decision_issues.induct)
  case (2 gid d' r' ds routes)
  show ?case
  proof (cases "map_of routes d'")
    case None
    with decision_issues_le [of "(d', gid, r') # routes" gid ds]
    have "map_of (snd (decision_issues gid ds ((d', gid, r') # routes))) d' = Some (gid, r')"
      by (auto simp: map_le_def)
    with 2 None show ?thesis by auto
  next
    case (Some p)
    obtain pg pr where p: "p = (pg, pr)" by (cases p)
    with Some decision_issues_le [of routes gid ds]
    have "map_of (snd (decision_issues gid ds routes)) d' = Some (pg, pr)"
      by (force simp: map_le_def dom_def)
    with 2 Some p show ?thesis by (auto split: prod.splits if_splits)
  qed
qed simp

lemma gates_issues_Nil:
  assumes "gates_issues gs ids afters routes = []"
  shows "distinct (map lg_id gs) \<and> set ids \<inter> lg_id ` set gs = {}
    \<and> distinct (map after_step gs) \<and> set afters \<inter> after_step ` set gs = {}"
  using assms
  by (induction gs ids afters routes rule: gates_issues.induct)
     (auto split: if_splits prod.splits)

lemma gates_issues_routes:
  "gates_issues gs ids afters routes = [] \<Longrightarrow>
   \<exists>R. map_of routes \<subseteq>\<^sub>m R \<and>
       (\<forall>g\<in>set gs. \<forall>d r. (d, r) \<in> set (user_decisions g) \<longrightarrow> (\<exists>g'. R d = Some (g', r)))"
proof (induction gs ids afters routes rule: gates_issues.induct)
  case (1 ids afters routes)
  show ?case by (rule exI [of _ "map_of routes"]) simp
next
  case (2 g gs ids afters routes)
  let ?di = "decision_issues (lg_id g) (user_decisions g) routes"
  from "2.prems" have nil: "fst ?di = []"
    and rest: "gates_issues gs (lg_id g # ids) (after_step g # afters) (snd ?di) = []"
    by (auto split: prod.splits)
  from "2.IH" [of ?di "fst ?di" "snd ?di"] rest obtain R where R: "map_of (snd ?di) \<subseteq>\<^sub>m R"
    "\<forall>g\<in>set gs. \<forall>d r. (d, r) \<in> set (user_decisions g) \<longrightarrow> (\<exists>g'. R d = Some (g', r))"
    by auto
  have "map_of routes \<subseteq>\<^sub>m R"
    using decision_issues_le R(1) by (rule map_le_trans)
  moreover have "\<exists>g'. R d = Some (g', r)" if "(d, r) \<in> set (user_decisions g)" for d r
    using decision_issues_routes [OF nil that] R(1) by (auto simp: map_le_def dom_def)
  ultimately show ?case using R(2) by auto
qed

end
