(* ===== verification/Spec_Checks.thy ===== *)
theory Spec_Checks
  imports Spec
begin

text \<open>
  The two spec-level type walks of \<open>packages/typescript/yaml/src/build-workflow.ts\<close>: the linear
  schema chain (\<open>workflowSchemaChainError\<close>) and the compensation checks
  (\<open>workflowCompensationError\<close>), with the sub-workflow resolver they consult and the errors
  plan derivation throws.
\<close>

section \<open>Errors and the resolver\<close>

datatype gate_label = GL_review | GL_gate string

datatype position_label = On_step string | On_branch string

datatype build_error =
    Reserved_step_id string
  | Duplicate_step_id string
  | Not_exactly_one_kind string
  | When_no_operator string
  | When_predicate_unsupported
  | Parallel_compensate string
  | Map_workflow_compensate string
  | Standalone_reference string string
  | Reference_cycle "string list"
  | Reference_failed string string string
  | Reference_undeclared string string
  | Resolver_failed string
  | Nested_too_deep string
  | When_root_missing position_label string string
  | Chain_array_input string
  | Chain_input string string string
  | Chain_child_input string string string string
  | Chain_branch_gate string string string string
  | Chain_output string string
  | Chain_gate_output string string string
  | Compensate_self_map string string
  | Compensate_root_missing string string string
  | Compensate_input string string string "string option" string
  | Duration_too_large string
  | Gate_unknown_after_step gate_label string
  | Route_unknown_step gate_label "string option" string
  | Route_not_forward gate_label "string option" string
  | Route_when_root gate_label "string option" position_label string
  | Route_compensate_root gate_label "string option" string string
  | Route_branch_input gate_label "string option" string string string string
  | Route_map_root gate_label "string option" string string
  | Route_gate_output gate_label "string option" string string string
  | Route_step_input gate_label "string option" string string string
  | Route_output gate_label "string option" string string
  | Out_of_fuel

text \<open>
  \<open>SubworkflowSpecResolver\<close>: \<open>specFor\<close> returns nothing for an undeclared id and throws the
  sibling's own error for a declared one that does not resolve.
\<close>

record subworkflow_resolver =
  selfId :: "string option"
  specFor :: "string \<Rightarrow> (string, yaml_spec option) result"

definition resolver_lookup ::
    "subworkflow_resolver option \<Rightarrow> string \<Rightarrow> (build_error, yaml_spec option) result" where
  "resolver_lookup r ref =
     (case r of None \<Rightarrow> Inr None
      | Some res \<Rightarrow> (case specFor res ref of Inl m \<Rightarrow> Inl (Resolver_failed m) | Inr s \<Rightarrow> Inr s))"

text \<open>
  \<open>projectSubworkflowResolver\<close>: the per-id memo around the project lookup, its cache passed
  along. A lookup that throws is not recorded.
\<close>

type_synonym resolver_cache = "(string \<times> yaml_spec option) list"

definition memo_specFor ::
    "(string \<Rightarrow> (string, yaml_spec option) result) \<Rightarrow> resolver_cache \<Rightarrow> string \<Rightarrow>
     (string, yaml_spec option) result \<times> resolver_cache" where
  "memo_specFor resolve cache workflowId =
     (case map_of cache workflowId of
        Some s \<Rightarrow> (Inr s, cache)
      | None \<Rightarrow> (case resolve workflowId of
          Inl m \<Rightarrow> (Inl m, cache)
        | Inr s \<Rightarrow> (Inr s, (workflowId, s) # cache)))"

definition MAX_PARALLEL_NESTING_DEPTH :: nat where
  "MAX_PARALLEL_NESTING_DEPTH = 3"

section \<open>The schema chain\<close>

text \<open>The running value at a point of a sequence: its schema ref where known, or an array.\<close>

record chain =
  chain_ref :: "string option"
  chain_isArray :: bool

record gate_point =
  gp_id :: string
  gp_at :: chain

definition known_mismatch :: "string option \<Rightarrow> string option \<Rightarrow> bool" where
  "known_mismatch a b \<longleftrightarrow> a \<noteq> None \<and> b \<noteq> None \<and> a \<noteq> b"

text \<open>The check of one branch's gates against its terminal value.\<close>

fun branch_gates_error :: "string \<Rightarrow> chain \<Rightarrow> gate_point list \<Rightarrow> (build_error, unit) result" where
  "branch_gates_error bid terminal [] = Inr ()"
| "branch_gates_error bid terminal (g # gs) =
     (if known_mismatch (chain_ref (gp_at g)) (chain_ref terminal)
         \<and> \<not> chain_isArray (gp_at g) \<and> \<not> chain_isArray terminal
      then Inl (Chain_branch_gate (gp_id g) (the (chain_ref (gp_at g))) bid (the (chain_ref terminal)))
      else branch_gates_error bid terminal gs)"

type_synonym child_lookup = "string \<Rightarrow> (build_error, yaml_spec option) result"

fun walkSequence ::
    "yaml_spec \<Rightarrow> child_lookup \<Rightarrow> workflow_step_spec list \<Rightarrow> chain \<Rightarrow> gate_point list \<Rightarrow>
     (build_error, chain \<times> gate_point list) result"
  and walk_branches ::
    "yaml_spec \<Rightarrow> child_lookup \<Rightarrow> workflow_parallel_branch_spec list \<Rightarrow> chain \<Rightarrow>
     (build_error, unit) result"
  and walk_step ::
    "yaml_spec \<Rightarrow> child_lookup \<Rightarrow> workflow_step_spec \<Rightarrow> chain \<Rightarrow> (build_error, chain) result" where
  "walkSequence spec child [] current points = Inr (current, points)"
| "walkSequence spec child (s # ss) current points =
     (let points' = (if sp_when s \<noteq> None then points @ [\<lparr>gp_id = sp_id s, gp_at = current\<rparr>] else points) in
      rbind (walk_step spec child s current) (\<lambda>next_chain. walkSequence spec child ss next_chain points'))"
| "walk_branches spec child [] current = Inr ()"
| "walk_branches spec child (BranchSpec bid w ss # bs) current =
     rbind (walkSequence spec child ss current []) (\<lambda>(terminal, points).
     rbind (branch_gates_error bid terminal points) (\<lambda>_.
     walk_branches spec child bs current))"
| "walk_step spec child (StepSpec i act mp par w wfl c) current =
     (case act of
        Some a \<Rightarrow>
          if chain_isArray current then Inl (Chain_array_input i)
          else if known_mismatch (inputRef_of spec a) (chain_ref current)
          then Inl (Chain_input i (the (inputRef_of spec a)) (the (chain_ref current)))
          else Inr \<lparr>chain_ref = outputRef_of spec a, chain_isArray = False\<rparr>
      | None \<Rightarrow> (case wfl of
        Some ref \<Rightarrow>
          if chain_isArray current then Inl (Chain_array_input i)
          else rbind (child ref) (\<lambda>cs.
            let inp = map_option (\<lambda>s. wf_input (sp_workflow_spec s)) cs;
                out = Option.bind cs (\<lambda>s. wf_output (sp_workflow_spec s)) in
            if known_mismatch inp (chain_ref current)
            then Inl (Chain_child_input i ref (the inp) (the (chain_ref current)))
            else Inr \<lparr>chain_ref = out, chain_isArray = False\<rparr>)
      | None \<Rightarrow> (case mp of
        Some m \<Rightarrow>
          Inr \<lparr>chain_ref = map_option collect_output (wm_collect m),
               chain_isArray = (wm_collect m = None)\<rparr>
      | None \<Rightarrow> (case par of
        Some (ParallelSpec bs out mb) \<Rightarrow>
          rbind (walk_branches spec child bs current) (\<lambda>_.
            Inr \<lparr>chain_ref = Some out, chain_isArray = False\<rparr>)
      | None \<Rightarrow> Inr current))))"

fun top_gates_error :: "string \<Rightarrow> gate_point list \<Rightarrow> (build_error, unit) result" where
  "top_gates_error out [] = Inr ()"
| "top_gates_error out (g # gs) =
     (if \<not> chain_isArray (gp_at g) \<and> known_mismatch (chain_ref (gp_at g)) (Some out)
      then Inl (Chain_gate_output (gp_id g) (the (chain_ref (gp_at g))) out)
      else top_gates_error out gs)"

definition workflowSchemaChainError ::
    "yaml_spec \<Rightarrow> subworkflow_resolver option \<Rightarrow> (build_error, unit) result" where
  "workflowSchemaChainError spec res =
     (let wf = sp_workflow_spec spec in
      rbind (walkSequence spec (resolver_lookup res) (wf_steps wf)
               \<lparr>chain_ref = Some (wf_input wf), chain_isArray = False\<rparr> []) (\<lambda>(terminal, points).
      (case wf_output wf of
         None \<Rightarrow> Inr ()
       | Some out \<Rightarrow>
           if \<not> chain_isArray terminal \<and> known_mismatch (Some out) (chain_ref terminal)
           then Inl (Chain_output out (the (chain_ref terminal)))
           else top_gates_error out points)))"

section \<open>Compensation\<close>

fun hasCompensate :: "workflow_step_spec list \<Rightarrow> bool"
  and has_compensate_branches :: "workflow_parallel_branch_spec list \<Rightarrow> bool" where
  "hasCompensate [] = False"
| "hasCompensate (StepSpec i act mp par w wfl c # ss) =
     (c \<noteq> None
      \<or> (case par of Some (ParallelSpec bs out mb) \<Rightarrow> has_compensate_branches bs | None \<Rightarrow> False)
      \<or> hasCompensate ss)"
| "has_compensate_branches [] = False"
| "has_compensate_branches (BranchSpec bid w ss # bs) = (hasCompensate ss \<or> has_compensate_branches bs)"

text \<open>\<open>guaranteedSpecIds\<close>: the ids in the context on every path once the step completed.\<close>

fun guaranteedSpecIds :: "workflow_step_spec \<Rightarrow> string list"
  and guaranteed_spec_branches :: "workflow_parallel_branch_spec list \<Rightarrow> string list"
  and guaranteed_spec_prefix :: "workflow_step_spec list \<Rightarrow> string list" where
  "guaranteedSpecIds (StepSpec i act mp par w wfl c) =
     i # (case par of Some (ParallelSpec bs out mb) \<Rightarrow> guaranteed_spec_branches bs | None \<Rightarrow> [])"
| "guaranteed_spec_branches [] = []"
| "guaranteed_spec_branches (BranchSpec bid w ss # bs) =
     (if w \<noteq> None then [] else guaranteed_spec_prefix ss) @ guaranteed_spec_branches bs"
| "guaranteed_spec_prefix [] = []"
| "guaranteed_spec_prefix (s # ss) =
     (if sp_when s \<noteq> None then [] else guaranteedSpecIds s @ guaranteed_spec_prefix ss)"

definition child_output_ref :: "child_lookup \<Rightarrow> string \<Rightarrow> (build_error, string option) result" where
  "child_output_ref child ref =
     rbind (child ref) (\<lambda>cs. Inr (Option.bind cs (\<lambda>s. wf_output (sp_workflow_spec s))))"

definition ownOutputRef ::
    "yaml_spec \<Rightarrow> child_lookup \<Rightarrow> workflow_step_spec \<Rightarrow> (build_error, string option) result" where
  "ownOutputRef spec child s =
     (case sp_activity s of
        Some a \<Rightarrow> Inr (outputRef_of spec a)
      | None \<Rightarrow> (case Option.bind (sp_map s) wm_activity of
        Some a \<Rightarrow> Inr (outputRef_of spec a)
      | None \<Rightarrow> (case sp_workflow s of
        Some ref \<Rightarrow> child_output_ref child ref
      | None \<Rightarrow> Inr None)))"

definition contextRefOf ::
    "yaml_spec \<Rightarrow> child_lookup \<Rightarrow> workflow_step_spec \<Rightarrow> (build_error, string option) result" where
  "contextRefOf spec child s =
     (case sp_activity s of
        Some a \<Rightarrow> Inr (outputRef_of spec a)
      | None \<Rightarrow> (case sp_map s of
        Some m \<Rightarrow> Inr (map_option collect_output (wm_collect m))
      | None \<Rightarrow> (case sp_workflow s of
        Some ref \<Rightarrow> child_output_ref child ref
      | None \<Rightarrow> (case sp_parallel s of
        Some (ParallelSpec bs out mb) \<Rightarrow> Inr (Some out)
      | None \<Rightarrow> Inr None))))"

text \<open>
  The check of one \<open>compensate:\<close> block: where its \<open>input_from\<close> is available, and that the value
  it names has the compensating activity's input type where both are known. \<open>refById\<close> is the
  \<open>Map\<close> of the context refs of the steps walked so far.
\<close>

definition compensate_type_check ::
    "yaml_spec \<Rightarrow> string \<Rightarrow> workflow_compensate_spec \<Rightarrow> string option \<Rightarrow> (build_error, unit) result" where
  "compensate_type_check spec sid c referencedRef =
     (if known_mismatch referencedRef (inputRef_of spec (wc_activity c))
      then Inl (Compensate_input sid (wc_activity c) (the (inputRef_of spec (wc_activity c)))
                  (wc_input_from c) (the referencedRef))
      else Inr ())"

definition checkCompensate ::
    "yaml_spec \<Rightarrow> child_lookup \<Rightarrow> workflow_step_spec \<Rightarrow> workflow_compensate_spec \<Rightarrow> string list \<Rightarrow>
     (string \<times> string option) list \<Rightarrow> (build_error, unit) result" where
  "checkCompensate spec child s c available refById =
     (case wc_input_from c of
        None \<Rightarrow> rbind (ownOutputRef spec child s) (compensate_type_check spec (sp_id s) c)
      | Some path \<Rightarrow>
          (let root = path_root path in
           if sp_map s \<noteq> None \<and> root = sp_id s then Inl (Compensate_self_map (sp_id s) path)
           else if root \<noteq> ''input'' \<and> root \<notin> set available
           then Inl (Compensate_root_missing (sp_id s) path root)
           else compensate_type_check spec (sp_id s) c
             (if CHR ''.'' \<in> set path then None
              else if root = ''input'' then Some (wf_input (sp_workflow_spec spec))
              else Option.bind (map_of refById root) (\<lambda>r. r))))"

definition compensate_available :: "workflow_step_spec \<Rightarrow> string list \<Rightarrow> string list" where
  "compensate_available s roots =
     (if sp_activity s \<noteq> None \<or> sp_workflow s \<noteq> None then sp_id s # roots else roots)"

fun compensate_walk ::
    "yaml_spec \<Rightarrow> child_lookup \<Rightarrow> workflow_step_spec list \<Rightarrow> string list \<Rightarrow>
     (string \<times> string option) list \<Rightarrow> (build_error, unit) result"
  and compensate_walk_branches ::
    "yaml_spec \<Rightarrow> child_lookup \<Rightarrow> workflow_parallel_branch_spec list \<Rightarrow> string list \<Rightarrow>
     (string \<times> string option) list \<Rightarrow> (build_error, unit) result" where
  "compensate_walk spec child [] roots refById = Inr ()"
| "compensate_walk spec child (StepSpec i act mp par w wfl cmp # ss) roots refById =
     (let s = StepSpec i act mp par w wfl cmp in
      rbind (case cmp of None \<Rightarrow> Inr ()
             | Some c \<Rightarrow> checkCompensate spec child s c (compensate_available s roots) refById) (\<lambda>_.
      rbind (case par of None \<Rightarrow> Inr ()
             | Some (ParallelSpec bs out mb) \<Rightarrow> compensate_walk_branches spec child bs roots refById) (\<lambda>_.
      rbind (contextRefOf spec child s) (\<lambda>r.
      compensate_walk spec child ss (guaranteedSpecIds s @ roots) ((i, r) # refById)))))"
| "compensate_walk_branches spec child [] roots refById = Inr ()"
| "compensate_walk_branches spec child (BranchSpec bid w ss # bs) roots refById =
     rbind (compensate_walk spec child ss roots refById) (\<lambda>_.
     compensate_walk_branches spec child bs roots refById)"

definition workflowCompensationError ::
    "yaml_spec \<Rightarrow> subworkflow_resolver option \<Rightarrow> (build_error, unit) result" where
  "workflowCompensationError spec res =
     (if \<not> hasCompensate (wf_steps (sp_workflow_spec spec)) then Inr ()
      else compensate_walk spec (resolver_lookup res) (wf_steps (sp_workflow_spec spec)) [''input''] [])"

end
