(* ===== verification/Context_Roots.thy ===== *)
theory Context_Roots
  imports Spec_Checks
begin

text \<open>
  Which step results a gate may read (\<open>packages/typescript/yaml/src/build-workflow.ts\<close>): the ids
  guaranteed to be in the context once a step completed, and the load check of every \<open>when\<close> path
  against the roots available at its position.
\<close>

fun guaranteedContextIdsOf :: "plan_step \<Rightarrow> string list"
  and guaranteed_branches :: "plan_branch list \<Rightarrow> string list"
  and guaranteed_prefix :: "plan_step list \<Rightarrow> string list" where
  "guaranteedContextIdsOf (ParallelStep i bs mb w) = i # guaranteed_branches bs"
| "guaranteedContextIdsOf (ActivityStep i a w c) = [i]"
| "guaranteedContextIdsOf (MapStep i a m sc w c) = [i]"
| "guaranteedContextIdsOf (SubworkflowStep i ci w c) = [i]"
| "guaranteedContextIdsOf (SubworkflowMapStep i ci m w) = [i]"
| "guaranteed_branches [] = []"
| "guaranteed_branches (PlanBranch bid w ss # bs) =
     (if w \<noteq> None then [] else guaranteed_prefix ss) @ guaranteed_branches bs"
| "guaranteed_prefix [] = []"
| "guaranteed_prefix (s # ss) =
     (if step_when s \<noteq> None then [] else guaranteedContextIdsOf s @ guaranteed_prefix ss)"

definition check_when_roots ::
    "string list \<Rightarrow> position_label \<Rightarrow> plan_when option \<Rightarrow> (build_error, unit) result" where
  "check_when_roots roots label w =
     (case w of None \<Rightarrow> Inr ()
      | Some pw \<Rightarrow> each (\<lambda>leaf. require (path_root (leaf_path leaf) \<in> set roots)
          (When_root_missing label (leaf_path leaf) (path_root (leaf_path leaf)))) (predicates pw))"

definition branch_when_checks :: "string list \<Rightarrow> plan_branch list \<Rightarrow> (build_error, unit) result" where
  "branch_when_checks roots bs =
     each (\<lambda>b. check_when_roots roots (On_branch (branch_id b)) (branch_when b)) bs"

text \<open>
  \<open>validateWhenPaths\<close>: \<open>roots\<close> grows with the guaranteed ids of each step; every branch
  works on its own copy.
\<close>

fun validateWhenPaths :: "plan_step list \<Rightarrow> string list \<Rightarrow> (build_error, unit) result"
  and validate_branches :: "plan_branch list \<Rightarrow> string list \<Rightarrow> (build_error, unit) result"
  and validate_nested :: "plan_step \<Rightarrow> string list \<Rightarrow> (build_error, unit) result" where
  "validateWhenPaths [] roots = Inr ()"
| "validateWhenPaths (s # ss) roots =
     rbind (check_when_roots roots (On_step (step_id s)) (step_when s)) (\<lambda>_.
     rbind (validate_nested s roots) (\<lambda>_.
     validateWhenPaths ss (guaranteedContextIdsOf s @ roots)))"
| "validate_branches [] roots = Inr ()"
| "validate_branches (PlanBranch bid w ss # bs) roots =
     rbind (validateWhenPaths ss roots) (\<lambda>_. validate_branches bs roots)"
| "validate_nested (ParallelStep i bs mb w) roots =
     rbind (branch_when_checks roots bs) (\<lambda>_. validate_branches bs roots)"
| "validate_nested (ActivityStep i a w c) roots = Inr ()"
| "validate_nested (MapStep i a m sc w c) roots = Inr ()"
| "validate_nested (SubworkflowStep i ci w c) roots = Inr ()"
| "validate_nested (SubworkflowMapStep i ci m w) roots = Inr ()"

section \<open>Lemmas\<close>

definition when_roots_in :: "string set \<Rightarrow> plan_when option \<Rightarrow> bool" where
  "when_roots_in R w \<longleftrightarrow>
     (case w of None \<Rightarrow> True
      | Some pw \<Rightarrow> \<forall>leaf\<in>set (predicates pw). path_root (leaf_path leaf) \<in> R)"

lemma check_when_roots_ok [result_simps]:
  "check_when_roots roots label w = Inr u \<longleftrightarrow> when_roots_in (set roots) w"
  by (cases w) (auto simp: check_when_roots_def when_roots_in_def result_simps)

lemma when_roots_in_mono: "when_roots_in R w \<Longrightarrow> R \<subseteq> R' \<Longrightarrow> when_roots_in R' w"
  by (auto simp: when_roots_in_def split: option.splits)

lemma step_id_guaranteed [simp]: "step_id s \<in> set (guaranteedContextIdsOf s)"
  by (cases s) auto

end
