(* ===== verification/Review_Routes.thy ===== *)
theory Review_Routes
  imports Context_Roots
begin

text \<open>
  Review gates of \<open>packages/typescript/yaml/src/build-workflow.ts\<close> (\<open>reviewPlanFromSpec\<close>): every
  decision route and the timeout route must name a step strictly after the gate's step, and the
  tail it jumps to must type-check and read only context the jump does not skip.
\<close>

section \<open>The steps of a plan by id\<close>

text \<open>\<open>new Map(steps.map((step, index) => [step.id, index]))\<close>: the last step of an id wins.\<close>

definition stepIndexes :: "plan_step list \<Rightarrow> string \<Rightarrow> nat option" where
  "stepIndexes ss = map_of (rev (zip (map step_id ss) [0..<length ss]))"

lemma stepIndexes_Some: "stepIndexes ss i = Some n \<Longrightarrow> n < length ss \<and> step_id (ss ! n) = i"
  by (auto simp: stepIndexes_def set_zip dest!: map_of_SomeD)

lemma stepIndexes_None: "stepIndexes ss i = None \<longleftrightarrow> i \<notin> step_id ` set ss"
proof -
  have "fst ` set (rev (zip (map step_id ss) [0..<length ss])) = set (map fst (zip (map step_id ss) [0..<length ss]))"
    by (simp del: map_fst_zip)
  also have "\<dots> = step_id ` set ss" by (subst map_fst_zip) simp_all
  finally show ?thesis by (simp add: stepIndexes_def map_of_eq_None_iff)
qed

type_synonym ref_table = "(string \<times> (string \<times> string option)) list"

definition spec_step :: "yaml_spec \<Rightarrow> string \<Rightarrow> workflow_step_spec option" where
  "spec_step spec i = find (\<lambda>s. sp_id s = i) (wf_steps (sp_workflow_spec spec))"

fun stepOutputRef :: "yaml_spec \<Rightarrow> ref_table \<Rightarrow> plan_step \<Rightarrow> string option" where
  "stepOutputRef spec refs (ActivityStep i a w c) = outputRef_of spec a"
| "stepOutputRef spec refs (SubworkflowStep i ci w c) = Option.bind (map_of refs i) snd"
| "stepOutputRef spec refs (MapStep i a m sc w c) =
     Option.bind (spec_step spec i) (\<lambda>s. Option.bind (sp_map s) (\<lambda>mp. map_option collect_output (wm_collect mp)))"
| "stepOutputRef spec refs (SubworkflowMapStep i ci m w) =
     Option.bind (spec_step spec i) (\<lambda>s. Option.bind (sp_map s) (\<lambda>mp. map_option collect_output (wm_collect mp)))"
| "stepOutputRef spec refs (ParallelStep i bs mb w) =
     Option.bind (spec_step spec i) (\<lambda>s. map_option ps_output (sp_parallel s))"

fun stepInputRef :: "yaml_spec \<Rightarrow> ref_table \<Rightarrow> plan_step \<Rightarrow> string option" where
  "stepInputRef spec refs (ActivityStep i a w c) = inputRef_of spec a"
| "stepInputRef spec refs (SubworkflowStep i ci w c) = map_option fst (map_of refs i)"
| "stepInputRef spec refs _ = None"

section \<open>Checks of a routed tail\<close>

record route_env =
  re_spec :: yaml_spec
  re_refs :: ref_table
  re_gate :: gate_label
  re_decision :: "string option"

definition checkGateRoots ::
    "route_env \<Rightarrow> plan_when option \<Rightarrow> string list \<Rightarrow> position_label \<Rightarrow> (build_error, unit) result" where
  "checkGateRoots env w roots label =
     (case w of None \<Rightarrow> Inr ()
      | Some pw \<Rightarrow> each (\<lambda>leaf. require (path_root (leaf_path leaf) \<in> set roots)
          (Route_when_root (re_gate env) (re_decision env) label (leaf_path leaf))) (predicates pw))"

fun is_map_step :: "plan_step \<Rightarrow> bool" where
  "is_map_step (MapStep _ _ _ _ _ _) = True"
| "is_map_step _ = False"

definition checkCompensateRoots :: "route_env \<Rightarrow> plan_step \<Rightarrow> string list \<Rightarrow> (build_error, unit) result" where
  "checkCompensateRoots env s roots =
     (case Option.bind (step_compensate s) comp_inputFrom of
        None \<Rightarrow> Inr ()
      | Some path \<Rightarrow>
          (let root = path_root path; ownRefOk = (root = step_id s \<and> \<not> is_map_step s) in
           require (ownRefOk \<or> root \<in> set roots)
             (Route_compensate_root (re_gate env) (re_decision env) (step_id s) path)))"

fun map_over_of :: "plan_step \<Rightarrow> string option" where
  "map_over_of (MapStep i a m sc w c) = Some (map_over m)"
| "map_over_of (SubworkflowMapStep i ci m w) = Some (map_over m)"
| "map_over_of _ = None"

definition check_map_root :: "route_env \<Rightarrow> plan_step \<Rightarrow> string list \<Rightarrow> (build_error, unit) result" where
  "check_map_root env s roots =
     (case map_over_of s of
        None \<Rightarrow> Inr ()
      | Some ov \<Rightarrow> require (path_root ov \<in> set roots)
          (Route_map_root (re_gate env) (re_decision env) (step_id s) ov))"

fun checkBranchTail ::
    "route_env \<Rightarrow> bool \<Rightarrow> string option \<Rightarrow> string list \<Rightarrow> string \<Rightarrow> plan_step list \<Rightarrow> (build_error, unit) result"
  and check_tail_branches ::
    "route_env \<Rightarrow> string option \<Rightarrow> string list \<Rightarrow> plan_branch list \<Rightarrow> (build_error, unit) result"
  and check_tail_nested ::
    "route_env \<Rightarrow> string option \<Rightarrow> string list \<Rightarrow> plan_step \<Rightarrow> (build_error, unit) result" where
  "checkBranchTail env is_first entryRef roots bid [] = Inr ()"
| "checkBranchTail env is_first entryRef roots bid (s # ss) =
     rbind (checkGateRoots env (step_when s) roots (On_step (step_id s))) (\<lambda>_.
     rbind (checkCompensateRoots env s roots) (\<lambda>_.
     rbind (require (\<not> (is_first \<and> known_mismatch entryRef (stepInputRef (re_spec env) (re_refs env) s)))
              (Route_branch_input (re_gate env) (re_decision env) bid (step_id s)
                 (the (stepInputRef (re_spec env) (re_refs env) s)) (the entryRef))) (\<lambda>_.
     rbind (check_map_root env s roots) (\<lambda>_.
     rbind (check_tail_nested env (if is_first then entryRef else None) roots s) (\<lambda>_.
     checkBranchTail env False entryRef (guaranteedContextIdsOf s @ roots) bid ss)))))"
| "check_tail_branches env entryRef roots [] = Inr ()"
| "check_tail_branches env entryRef roots (PlanBranch bid w ss # bs) =
     rbind (checkGateRoots env w roots (On_branch bid)) (\<lambda>_.
     rbind (checkBranchTail env True entryRef roots bid ss) (\<lambda>_.
     check_tail_branches env entryRef roots bs))"
| "check_tail_nested env entryRef roots (ParallelStep i bs mb w) = check_tail_branches env entryRef roots bs"
| "check_tail_nested env entryRef roots (ActivityStep i a w c) = Inr ()"
| "check_tail_nested env entryRef roots (MapStep i a m sc w c) = Inr ()"
| "check_tail_nested env entryRef roots (SubworkflowStep i ci w c) = Inr ()"
| "check_tail_nested env entryRef roots (SubworkflowMapStep i ci m w) = Inr ()"

text \<open>The walk over the tail: \<open>currentRef\<close> starts as the checkpoint's output and ends as the tail's.\<close>

fun check_tail ::
    "route_env \<Rightarrow> string option \<Rightarrow> string list \<Rightarrow> plan_step list \<Rightarrow> (build_error, string option) result" where
  "check_tail env currentRef roots [] = Inr currentRef"
| "check_tail env currentRef roots (s # ss) =
     (let out = wf_output (sp_workflow_spec (re_spec env));
          inputRef = stepInputRef (re_spec env) (re_refs env) s in
      rbind (checkGateRoots env (step_when s) roots (On_step (step_id s))) (\<lambda>_.
      rbind (checkCompensateRoots env s roots) (\<lambda>_.
      rbind (require (\<not> (step_when s \<noteq> None \<and> known_mismatch currentRef out))
               (Route_gate_output (re_gate env) (re_decision env) (step_id s) (the currentRef) (the out))) (\<lambda>_.
      rbind (require (\<not> known_mismatch currentRef inputRef)
               (Route_step_input (re_gate env) (re_decision env) (step_id s) (the inputRef) (the currentRef))) (\<lambda>_.
      rbind (check_map_root env s roots) (\<lambda>_.
      rbind (check_tail_nested env currentRef roots s) (\<lambda>_.
      check_tail env (stepOutputRef (re_spec env) (re_refs env) s)
        (guaranteedContextIdsOf s @ roots) ss)))))))"

definition checkRoute ::
    "route_env \<Rightarrow> plan_step list \<Rightarrow> string \<Rightarrow> nat \<Rightarrow> string \<Rightarrow> (build_error, unit) result" where
  "checkRoute env steps afterStepId afterIndex routeStepId =
     (case stepIndexes steps routeStepId of
        None \<Rightarrow> Inl (Route_unknown_step (re_gate env) (re_decision env) routeStepId)
      | Some routeIndex \<Rightarrow>
          rbind (require (afterIndex < routeIndex)
                   (Route_not_forward (re_gate env) (re_decision env) routeStepId)) (\<lambda>_.
          rbind (check_tail env (stepOutputRef (re_spec env) (re_refs env) (steps ! afterIndex))
                   (''input'' # concat (map guaranteedContextIdsOf (take (Suc afterIndex) steps)))
                   (drop routeIndex steps)) (\<lambda>currentRef.
          let out = wf_output (sp_workflow_spec (re_spec env)) in
          require (\<not> known_mismatch out currentRef)
            (Route_output (re_gate env) (re_decision env) (the out) (the currentRef)))))"

definition timeout_route_of :: "'a lifecycle_review_spec_scheme \<Rightarrow> string option" where
  "timeout_route_of rv =
     (case review_timeout rv of None \<Rightarrow> None
      | Some t \<Rightarrow> if rt_on_timeout t = Timeout_route then rt_route t else None)"

definition reviewPlanFromSpec ::
    "yaml_spec \<Rightarrow> 'a lifecycle_review_spec_scheme \<Rightarrow> plan_step list \<Rightarrow> ref_table \<Rightarrow> gate_label \<Rightarrow>
     (build_error, review_plan) result" where
  "reviewPlanFromSpec spec rv steps refs label =
     (case stepIndexes steps (after_step rv) of
        None \<Rightarrow> Inl (Gate_unknown_after_step label (after_step rv))
      | Some afterIndex \<Rightarrow>
          (let env = (\<lambda>d. \<lparr>re_spec = spec, re_refs = refs, re_gate = label, re_decision = d\<rparr>) in
           rbind (each (\<lambda>(d, r). checkRoute (env (Some d)) steps (after_step rv) afterIndex r)
                    (user_decisions rv)) (\<lambda>_.
           rbind (case timeout_route_of rv of None \<Rightarrow> Inr ()
                  | Some r \<Rightarrow> checkRoute (env None) steps (after_step rv) afterIndex r) (\<lambda>_.
           Inr \<lparr>afterStep = after_step rv,
                userDecisions = fold (\<lambda>(d, r) acc. obj_put d r acc) (user_decisions rv) [],
                invalidUserDecision = invalid_user_decision rv,
                timeoutSeconds = map_option rt_seconds (review_timeout rv),
                onTimeout = map_option rt_on_timeout (review_timeout rv),
                timeoutRoute = Option.bind (review_timeout rv) rt_route\<rparr>))))"

section \<open>Lemmas\<close>

lemma checkRoute_forward:
  assumes "checkRoute env steps a n r = Inr u"
  shows "\<exists>m. stepIndexes steps r = Some m \<and> n < m"
  using assms by (auto simp: checkRoute_def result_simps split: option.splits)

lemma fold_obj_put_map_of:
  "distinct (map fst ds) \<Longrightarrow> map_of (fold (\<lambda>(d, r) acc. obj_put d r acc) ds acc) = map_of acc ++ map_of ds"
  using map_of_obj_assign [of ds acc] by (simp add: obj_assign_def)


end
