(* ===== verification/Interpreter.thy ===== *)
theory Interpreter
  imports Fan_Out Payload_Limit Lifecycle Review_Routes
begin

text \<open>
  The plan interpreter (\<open>packages/typescript/temporal-yaml/src/workflows.ts\<close>) as a machine that runs from
  one external event to the next. What the code awaits (activities, child workflows, a gate's
  condition) is a state of the machine; the settlement of a call, a signal and the expiry of a
  deadline are its events, in any order. The code between two awaits is one transition.
\<close>

section \<open>Failures, calls, state\<close>

datatype ext_failure = Ext_failed string | Ext_cancelled

datatype failure =
    App_failure string
  | Call_rejected ext_failure
  | Path_failure path_error
  | When_failure when_error
  | Map_not_array string string

definition cancelled_failure :: failure where
  "cancelled_failure = App_failure ''TypefluxWorkflowCancelled''"

text \<open>Calls to the outside, with the proxy options they are made under.\<close>

datatype call =
    Call_activity string activity_proxy_options jv "jv option" "string list"
  | Call_prepare string activity_proxy_options jv
  | Call_release string activity_proxy_options jv
  | Call_child child_identity string jv "(string \<times> string) list" "(string \<times> string) option" "string list"

type_synonym answer = "(ext_failure, jv) result"

record compensation_entry =
  ce_stepId :: string
  ce_activity :: string
  ce_input :: jv
  ce_retry :: "retry_policy_plan option"

record wf_state =
  ws_context :: ctx
  ws_stack :: "compensation_entry list"
  ws_lifecycle :: "lrt option"
  ws_calls :: "call list"

record wf_env =
  we_plan :: workflow_plan
  we_workflowId :: string
  we_subjects :: "string list"
  we_searchAttribute :: "string option"

definition issue :: "call \<Rightarrow> wf_state \<Rightarrow> wf_state" where
  "issue c st = st\<lparr>ws_calls := ws_calls st @ [c]\<rparr>"

definition on_lifecycle :: "(lrt \<Rightarrow> lrt) \<Rightarrow> wf_state \<Rightarrow> wf_state" where
  "on_lifecycle f st = st\<lparr>ws_lifecycle := map_option f (ws_lifecycle st)\<rparr>"

definition cancel_requested :: "wf_state \<Rightarrow> bool" where
  "cancel_requested st = (case ws_lifecycle st of None \<Rightarrow> False | Some rt \<Rightarrow> lr_cancellationRequested rt)"

text \<open>\<open>fanOutCancellable\<close> races the cancel flag only under a lifecycle with cancellation.\<close>

definition cancellable :: "wf_state \<Rightarrow> bool" where
  "cancellable st = (case ws_lifecycle st of None \<Rightarrow> False | Some rt \<Rightarrow> cancellation (lr_plan rt))"

section \<open>Units and compensation\<close>

definition map_units :: "string \<Rightarrow> ctx \<Rightarrow> nat" where
  "map_units ov ctx = (case resolveContextPath ctx ov of Inr (JArr xs) \<Rightarrow> length xs | _ \<Rightarrow> 0)"

fun totalUnitsOf :: "plan_step list \<Rightarrow> ctx \<Rightarrow> nat"
  and units_of_branches :: "plan_branch list \<Rightarrow> ctx \<Rightarrow> nat"
  and units_of_step :: "plan_step \<Rightarrow> ctx \<Rightarrow> nat" where
  "totalUnitsOf [] ctx = 0"
| "totalUnitsOf (s # ss) ctx = units_of_step s ctx + totalUnitsOf ss ctx"
| "units_of_branches [] ctx = 0"
| "units_of_branches (PlanBranch i w ss # bs) ctx = totalUnitsOf ss ctx + units_of_branches bs ctx"
| "units_of_step (ActivityStep i a w c) ctx = 1"
| "units_of_step (SubworkflowStep i ci w c) ctx = 1"
| "units_of_step (ParallelStep i bs mb w) ctx = units_of_branches bs ctx"
| "units_of_step (MapStep i a m sc w c) ctx = map_units (map_over m) ctx"
| "units_of_step (SubworkflowMapStep i ci m w) ctx = map_units (map_over m) ctx"

definition resolve_path :: "ctx \<Rightarrow> string \<Rightarrow> (failure, jv) result" where
  "resolve_path ctx path = (case resolveContextPath ctx path of Inl e \<Rightarrow> Inl (Path_failure e) | Inr v \<Rightarrow> Inr v)"

definition pushCompensationEntry ::
    "string \<Rightarrow> compensate_plan \<Rightarrow> jv \<Rightarrow> wf_state \<Rightarrow> (failure, unit) result \<times> wf_state" where
  "pushCompensationEntry i c value st =
     (case (case comp_inputFrom c of None \<Rightarrow> Inr value | Some p \<Rightarrow> resolve_path (ws_context st) p) of
        Inl e \<Rightarrow> (Inl e, st)
      | Inr v \<Rightarrow> (Inr (), st\<lparr>ws_stack := ws_stack st @ [\<lparr>ce_stepId = i, ce_activity = comp_activity c,
                                 ce_input = v, ce_retry = comp_retry c\<rparr>]\<rparr>))"

definition pushCompensation :: "plan_step \<Rightarrow> jv \<Rightarrow> wf_state \<Rightarrow> (failure, unit) result \<times> wf_state" where
  "pushCompensation s value st =
     (case s of MapStep _ _ _ _ _ _ \<Rightarrow> (Inr (), st)
      | _ \<Rightarrow> (case step_compensate s of
                None \<Rightarrow> (Inr (), st)
              | Some c \<Rightarrow> pushCompensationEntry (step_id s) c value st))"

text \<open>\<open>context[step.id] = value; pushCompensation(step, value)\<close>\<close>

definition complete_step :: "plan_step \<Rightarrow> jv \<Rightarrow> wf_state \<Rightarrow> (failure, unit) result \<times> wf_state" where
  "complete_step s v st =
     pushCompensation s v (st\<lparr>ws_context := obj_put (step_id s) v (ws_context st)\<rparr>)"

text \<open>The \<open>finally\<close> of a map: its completed items compensate in item order.\<close>

fun push_items ::
    "string \<Rightarrow> compensate_plan \<Rightarrow> (nat \<times> jv) list \<Rightarrow> wf_state \<Rightarrow> (failure, unit) result \<times> wf_state" where
  "push_items i c [] st = (Inr (), st)"
| "push_items i c ((n, v) # outs) st =
     (case pushCompensationEntry i c v st of
        (Inl e, st1) \<Rightarrow> (Inl e, st1)
      | (Inr _, st1) \<Rightarrow> push_items i c outs st1)"

definition finalize_map ::
    "plan_step \<Rightarrow> (nat \<times> jv) list \<Rightarrow> (failure, jv) result \<Rightarrow> wf_state \<Rightarrow> (failure, jv) result \<times> wf_state" where
  "finalize_map s completed out st =
     (case step_compensate s of
        None \<Rightarrow> (out, st)
      | Some c \<Rightarrow> (case push_items (step_id s) c (sort_key fst completed) st of
                     (Inl e, st1) \<Rightarrow> (Inl e, st1)
                   | (Inr _, st1) \<Rightarrow> (out, st1)))"

section \<open>Processes\<close>

text \<open>
  What a step in progress waits for. The flag of a fan-out says that its scope was cancelled; a map
  carries its items, its cached session and the outputs of the items completed so far.
\<close>

datatype fan_info =
    Map_fan "jv list" "jv option" "(nat \<times> jv) list"
  | Branch_fan "plan_branch list"

datatype step_proc =
    Awaiting plan_step call
  | Preparing plan_step "jv list" call
  | Fanning plan_step fan_info "(failure, jv, item_proc) fan" bool
  | Releasing plan_step "(nat \<times> jv) list" "jv list" call
and item_proc =
    Item_call call
  | Item_branch "plan_step list" step_proc

type_synonym 'p progress = "(failure, jv) result + 'p"

definition activity_call :: "wf_env \<Rightarrow> string \<Rightarrow> jv \<Rightarrow> jv option \<Rightarrow> call" where
  "activity_call env a v session =
     Call_activity a (activityProxyOptions (we_plan env) a) v session (we_subjects env)"

definition child_call :: "wf_env \<Rightarrow> child_identity \<Rightarrow> string \<Rightarrow> jv \<Rightarrow> call" where
  "child_call env ci suffix v =
     Call_child ci (we_workflowId env @ ''.'' @ suffix) v (childIdentityMemo ci (we_workflowId env))
       (map_option (\<lambda>a. (a, ci_workflowName ci)) (we_searchAttribute env)) (we_subjects env)"

text \<open>Item \<open>n\<close> of a map: a call, rejected at once inside a cancelled scope.\<close>

definition map_item_call :: "wf_env \<Rightarrow> plan_step \<Rightarrow> jv option \<Rightarrow> nat \<Rightarrow> jv \<Rightarrow> call" where
  "map_item_call env s session n item =
     (case s of
        SubworkflowMapStep i ci m w \<Rightarrow> child_call env ci (i @ ''-'' @ nat_text n) item
      | MapStep i a m sc w c \<Rightarrow> activity_call env a item session
      | _ \<Rightarrow> activity_call env [] item session)"

definition start_item ::
    "wf_env \<Rightarrow> bool \<Rightarrow> plan_step \<Rightarrow> fan_info \<Rightarrow> (failure, jv, item_proc, wf_state) starter" where
  "start_item env scope_cancelled s info n st =
     (case info of
        Branch_fan _ \<Rightarrow> (Inl (Inl (Call_rejected Ext_cancelled)), st)
      | Map_fan items session _ \<Rightarrow>
          if scope_cancelled then (Inl (Inl (Call_rejected Ext_cancelled)), st)
          else (let c = map_item_call env s session n (items ! n) in (Inr (Item_call c), issue c st)))"

section \<open>The end of a fan-out\<close>

definition step_map_config :: "plan_step \<Rightarrow> map_config option" where
  "step_map_config s = (case s of MapStep _ _ m _ _ _ \<Rightarrow> Some m | SubworkflowMapStep _ _ m _ \<Rightarrow> Some m | _ \<Rightarrow> None)"

definition limit_checked :: "limit_kind \<Rightarrow> jv \<Rightarrow> nat option \<Rightarrow> (failure, jv) result" where
  "limit_checked kind v limit =
     (case enforceCollectPayloadLimit kind v limit of Inl t \<Rightarrow> Inl (App_failure t) | Inr _ \<Rightarrow> Inr v)"

definition collect_map :: "plan_step \<Rightarrow> jv list \<Rightarrow> (failure, jv) result" where
  "collect_map s results =
     (case step_map_config s of
        None \<Rightarrow> Inr (JArr results)
      | Some m \<Rightarrow> limit_checked Limit_map
          (case map_collectField m of None \<Rightarrow> JArr results | Some f \<Rightarrow> JObj [(f, JArr results)])
          (map_collectMaxBytes m))"

definition collect_branches :: "plan_branch list \<Rightarrow> plan_branch list \<Rightarrow> jv list \<Rightarrow> nat option \<Rightarrow> (failure, jv) result" where
  "collect_branches bs gatedIn results limit =
     (let resultsById = map_of (rev (zip (map branch_id gatedIn) results)) in
      limit_checked Limit_parallel
        (JObj (fold (\<lambda>b acc. obj_put (branch_id b)
                 (case resultsById (branch_id b) of None \<Rightarrow> JNull | Some v \<Rightarrow> v) acc) bs []))
        limit)"

definition cache_id_of :: "jv option \<Rightarrow> jv option" where
  "cache_id_of session =
     (case Option.bind session (\<lambda>h. own_prop h ''cache_id'') of
        None \<Rightarrow> None | Some JNull \<Rightarrow> None | Some v \<Rightarrow> Some v)"

definition finish_fan ::
    "wf_env \<Rightarrow> bool \<Rightarrow> plan_step \<Rightarrow> fan_info \<Rightarrow> (failure, jv, item_proc) fan \<Rightarrow> bool \<Rightarrow> wf_state \<Rightarrow>
     step_proc progress \<times> wf_state" where
  "finish_fan env scope_cancelled s info fan cancelled st =
     (let out = (if cancelled then Inl cancelled_failure else fan_outcome fan);
          now = (\<lambda>(r, st). (Inl r, st)) in
      case (s, info) of
        (ParallelStep i bs mb w, Branch_fan gatedIn) \<Rightarrow>
          (Inl (rbind out (\<lambda>rs. collect_branches bs gatedIn rs mb)), st)
      | (MapStep i a m sc w c, Map_fan items session completed) \<Rightarrow>
          (case out of
             Inl e \<Rightarrow> now (finalize_map s completed (Inl e) st)
           | Inr rs \<Rightarrow>
               (case cache_id_of session of
                  None \<Rightarrow> now (finalize_map s completed (collect_map s rs) st)
                | Some _ \<Rightarrow>
                    if scope_cancelled then now (finalize_map s completed (Inl (Call_rejected Ext_cancelled)) st)
                    else (let call = Call_release a (cacheActivityProxyOptions (we_plan env) a) (the session) in
                          (Inr (Releasing s completed rs call), issue call st))))
      | _ \<Rightarrow> (Inl (rbind out (collect_map s)), st))"

definition fan_progress ::
    "wf_env \<Rightarrow> bool \<Rightarrow> plan_step \<Rightarrow> fan_info \<Rightarrow> bool \<Rightarrow> (failure, jv, item_proc) fan \<times> wf_state \<Rightarrow>
     step_proc progress \<times> wf_state" where
  "fan_progress env scope_cancelled s info cancelled =
     (\<lambda>(fan, st). if fan_done fan then finish_fan env scope_cancelled s info fan cancelled st
                  else (Inr (Fanning s info fan cancelled), st))"

definition begin_map ::
    "wf_env \<Rightarrow> bool \<Rightarrow> plan_step \<Rightarrow> jv list \<Rightarrow> jv option \<Rightarrow> wf_state \<Rightarrow> step_proc progress \<times> wf_state" where
  "begin_map env scope_cancelled s items session st =
     (let info = Map_fan items session [];
          conc = (case Option.bind (step_map_config s) map_concurrency of
                    None \<Rightarrow> DEFAULT_MAP_CONCURRENCY | Some n \<Rightarrow> n) in
      if conc < 1 then
        (case finalize_map s [] (Inl (App_failure ''fanOut concurrency must be >= 1'')) st of (r, st) \<Rightarrow> (Inl r, st))
      else fan_progress env scope_cancelled s info (cancellable st \<and> cancel_requested st)
             (fanOut (start_item env scope_cancelled s info) conc (length items) st))"

definition start_map :: "wf_env \<Rightarrow> plan_step \<Rightarrow> map_config \<Rightarrow> wf_state \<Rightarrow> step_proc progress \<times> wf_state" where
  "start_map env s m st =
     (case resolve_path (ws_context st) (map_over m) of
        Inl e \<Rightarrow> (Inl (Inl e), st)
      | Inr (JArr items) \<Rightarrow>
          (let st1 = (if path_root (map_over m) \<noteq> ''input''
                      then on_lifecycle (addUnits (length items)) st else st) in
           case (s, items) of
             (MapStep i a _ (Some sc) _ _, item # _) \<Rightarrow>
               if cache_enabled sc
               then (let call = Call_prepare a (cacheActivityProxyOptions (we_plan env) a) item in
                     (Inr (Preparing s items call), issue call st1))
               else begin_map env False s items None st1
           | _ \<Rightarrow> begin_map env False s items None st1)
      | Inr _ \<Rightarrow> (Inl (Inl (Map_not_array (step_id s) (map_over m))), st))"

section \<open>Running sequences and parallel blocks\<close>

definition gate_open :: "plan_when option \<Rightarrow> wf_state \<Rightarrow> (failure, bool) result" where
  "gate_open w st =
     (case w of None \<Rightarrow> Inr True
      | Some pw \<Rightarrow> (case evaluatePlanWhen pw (ws_context st) of Inl e \<Rightarrow> Inl (When_failure e) | Inr b \<Rightarrow> Inr b))"

definition skip_step :: "string \<Rightarrow> plan_when option \<Rightarrow> nat \<Rightarrow> wf_state \<Rightarrow> wf_state" where
  "skip_step i w units st =
     on_lifecycle (skipUnits units) (on_lifecycle (stepSkipped i (case w of None \<Rightarrow> [] | Some pw \<Rightarrow> renderPlanWhen pw)) st)"

text \<open>The branch gates of a parallel block, in declared order: which branches run.\<close>

fun gate_branches :: "plan_branch list \<Rightarrow> wf_state \<Rightarrow> (failure, bool list) result \<times> wf_state" where
  "gate_branches [] st = (Inr [], st)"
| "gate_branches (PlanBranch i w ss # bs) st =
     (case gate_open w st of
        Inl e \<Rightarrow> (Inl e, st)
      | Inr b \<Rightarrow>
          (let st1 = (if b then st else skip_step i w (totalUnitsOf ss (ws_context st)) st) in
           case gate_branches bs st1 of
             (Inl e, st2) \<Rightarrow> (Inl e, st2)
           | (Inr keep, st2) \<Rightarrow> (Inr (b # keep), st2)))"

text \<open>
  \<open>runBranchSequence\<close>, \<open>executeStep\<close> and the start of \<open>executeParallelStep\<close>, up to the next await.
  All gated-in branches of a block are claimed at its start, so no item is left to \<open>start_item\<close>.
\<close>

fun start_seq :: "wf_env \<Rightarrow> plan_step list \<Rightarrow> jv \<Rightarrow> wf_state \<Rightarrow> item_proc progress \<times> wf_state"
  and start_branches ::
    "wf_env \<Rightarrow> plan_branch list \<Rightarrow> bool list \<Rightarrow> jv \<Rightarrow> wf_state \<Rightarrow> item_proc progress list \<times> wf_state"
  and start_step :: "wf_env \<Rightarrow> plan_step \<Rightarrow> jv \<Rightarrow> wf_state \<Rightarrow> step_proc progress \<times> wf_state" where
  "start_seq env [] v st = (Inl (Inr v), st)"
| "start_seq env (s # ss) v st =
     (if cancel_requested st then (Inl (Inl cancelled_failure), st)
      else case gate_open (step_when s) st of
        Inl e \<Rightarrow> (Inl (Inl e), st)
      | Inr False \<Rightarrow>
          (Inl (Inr v), skip_step (step_id s) (step_when s) (totalUnitsOf (s # ss) (ws_context st)) st)
      | Inr True \<Rightarrow>
          (case start_step env s v (on_lifecycle (stepStarted (step_id s)) st) of
             (Inr p, st1) \<Rightarrow> (Inr (Item_branch (s # ss) p), st1)
           | (Inl (Inl e), st1) \<Rightarrow> (Inl (Inl e), st1)
           | (Inl (Inr v1), st1) \<Rightarrow>
               (case complete_step s v1 st1 of
                  (Inl e, st2) \<Rightarrow> (Inl (Inl e), st2)
                | (Inr _, st2) \<Rightarrow> start_seq env ss v1 st2)))"
| "start_branches env [] keep v st = ([], st)"
| "start_branches env (PlanBranch i w ss # bs) keep v st =
     (if keep \<noteq> [] \<and> hd keep then
        (let (r, st1) = start_seq env ss v st; (rs, st2) = start_branches env bs (tl keep) v st1
         in (r # rs, st2))
      else start_branches env bs (tl keep) v st)"
| "start_step env (ActivityStep i a w c) v st =
     (let call = activity_call env a v None in (Inr (Awaiting (ActivityStep i a w c) call), issue call st))"
| "start_step env (SubworkflowStep i ci w c) v st =
     (let call = child_call env ci i v in (Inr (Awaiting (SubworkflowStep i ci w c) call), issue call st))"
| "start_step env (MapStep i a m sc w c) v st = start_map env (MapStep i a m sc w c) m st"
| "start_step env (SubworkflowMapStep i ci m w) v st = start_map env (SubworkflowMapStep i ci m w) m st"
| "start_step env (ParallelStep i bs mb w) v st =
     (case gate_branches bs st of
        (Inl e, st1) \<Rightarrow> (Inl (Inl e), st1)
      | (Inr keep, st1) \<Rightarrow>
          (let s = ParallelStep i bs mb w;
               gatedIn = map fst (filter snd (zip bs keep));
               (rs, st2) = start_branches env bs keep v st1 in
           fan_progress env False s (Branch_fan gatedIn) (cancellable st1 \<and> cancel_requested st1)
             (assemble (start_item env False s (Branch_fan gatedIn)) (length gatedIn) rs st2)))"

section \<open>Delivering an answer\<close>

text \<open>
  A call is addressed by the workers on the way to it. An answer to a call that is not pending
  changes nothing. A map records an item and counts its unit as it settles.
\<close>

definition note_item :: "fan_info \<Rightarrow> nat \<Rightarrow> (failure, jv) result \<Rightarrow> wf_state \<Rightarrow> fan_info \<times> wf_state" where
  "note_item info n out st =
     (case (info, out) of
        (Map_fan items session completed, Inr v) \<Rightarrow>
          (Map_fan items session (completed @ [(n, v)]), on_lifecycle unitCompleted st)
      | _ \<Rightarrow> (info, st))"

definition settle_item ::
    "wf_env \<Rightarrow> bool \<Rightarrow> plan_step \<Rightarrow> fan_info \<Rightarrow> bool \<Rightarrow> nat \<Rightarrow> nat \<Rightarrow> (failure, jv) result \<Rightarrow>
     (failure, jv, item_proc) fan \<Rightarrow> wf_state \<Rightarrow> step_proc progress \<times> wf_state" where
  "settle_item env scope_cancelled s info cancelled w n out fan st =
     (let (info1, st1) = note_item info n out st in
      fan_progress env scope_cancelled s info1 cancelled
        (settle (start_item env (scope_cancelled \<or> cancelled) s info1) w out fan st1))"

definition continue_branch ::
    "wf_env \<Rightarrow> plan_step list \<Rightarrow> (failure, jv) result \<Rightarrow> wf_state \<Rightarrow> item_proc progress \<times> wf_state" where
  "continue_branch env rest out st =
     (case (out, rest) of
        (Inr v, s # ss) \<Rightarrow>
          (case complete_step s v st of
             (Inl e, st1) \<Rightarrow> (Inl (Inl e), st1)
           | (Inr _, st1) \<Rightarrow> start_seq env ss v st1)
      | _ \<Rightarrow> (Inl out, st))"

definition worker_at :: "(failure, jv, item_proc) fan \<Rightarrow> nat \<Rightarrow> item_proc worker" where
  "worker_at fan w = (if w < length (fan_workers fan) then fan_workers fan ! w else Idle)"

fun deliver ::
    "wf_env \<Rightarrow> bool \<Rightarrow> nat list \<Rightarrow> answer \<Rightarrow> step_proc \<Rightarrow> wf_state \<Rightarrow> step_proc progress \<times> wf_state" where
  "deliver env scope_cancelled [] ans (Awaiting s c) st =
     (case ans of
        Inl e \<Rightarrow> (Inl (Inl (Call_rejected e)), st)
      | Inr v \<Rightarrow> (Inl (Inr v), on_lifecycle unitCompleted st))"
| "deliver env scope_cancelled [] ans (Preparing s items c) st =
     (case ans of
        Inl e \<Rightarrow> (Inl (Inl (Call_rejected e)), st)
      | Inr h \<Rightarrow> begin_map env scope_cancelled s items (Some h) st)"
| "deliver env scope_cancelled [] ans (Releasing s completed rs c) st =
     (case finalize_map s completed
             (if ans = Inl Ext_cancelled then Inl (Call_rejected Ext_cancelled) else collect_map s rs) st of
        (r, st1) \<Rightarrow> (Inl r, st1))"
| "deliver env scope_cancelled (w # path) ans (Fanning s info fan cancelled) st =
     (case worker_at fan w of
        Working n (Item_call c) \<Rightarrow>
          if path = [] then
            settle_item env scope_cancelled s info cancelled w n
              (case ans of Inl e \<Rightarrow> Inl (Call_rejected e) | Inr v \<Rightarrow> Inr v) fan st
          else (Inr (Fanning s info fan cancelled), st)
      | Working n (Item_branch rest p) \<Rightarrow>
          (case deliver env (scope_cancelled \<or> cancelled) path ans p st of
             (Inr p1, st1) \<Rightarrow>
               (Inr (Fanning s info (put_worker w (Working n (Item_branch rest p1)) fan) cancelled), st1)
           | (Inl out, st1) \<Rightarrow>
               (case continue_branch env rest out st1 of
                  (Inr ip, st2) \<Rightarrow> (Inr (Fanning s info (put_worker w (Working n ip) fan) cancelled), st2)
                | (Inl out1, st2) \<Rightarrow> settle_item env scope_cancelled s info cancelled w n out1 fan st2))
      | Idle \<Rightarrow> (Inr (Fanning s info fan cancelled), st))"
| "deliver env scope_cancelled path ans p st = (Inr p, st)"

text \<open>A cancel request reaches every fan-out in progress: its scope is cancelled.\<close>

primrec cancel_scopes :: "step_proc \<Rightarrow> step_proc"
  and cancel_item :: "item_proc \<Rightarrow> item_proc" where
  "cancel_scopes (Awaiting s c) = Awaiting s c"
| "cancel_scopes (Preparing s items c) = Preparing s items c"
| "cancel_scopes (Fanning s info fan cancelled) = Fanning s info (map_fan id id cancel_item fan) True"
| "cancel_scopes (Releasing s completed rs c) = Releasing s completed rs c"
| "cancel_item (Item_call c) = Item_call c"
| "cancel_item (Item_branch rest p) = Item_branch rest (cancel_scopes p)"

section \<open>The workflow\<close>

datatype phase =
    Ready nat jv
  | In_step nat step_proc
  | At_gate nat nat jv
  | Unwinding failure bool compensation_entry
  | Finished "(failure, jv) result"

datatype event =
    Tick
  | Answer "nat list" answer
  | Cancel_signal "string option"
  | Review_signal "jv option"
  | Expire

type_synonym config = "phase \<times> wf_state"

definition terminal_event :: "failure \<Rightarrow> compensation_status \<Rightarrow> wf_state \<Rightarrow> wf_state" where
  "terminal_event e status st =
     on_lifecycle (if e = cancelled_failure then lc_cancelled status else lc_failed status) st"

definition compensation_options :: "wf_env \<Rightarrow> compensation_entry \<Rightarrow> activity_proxy_options" where
  "compensation_options env entry =
     (let options = activityProxyOptions (we_plan env) (ce_activity entry) in
      case ce_retry entry of None \<Rightarrow> options | Some r \<Rightarrow> options\<lparr>proxy_retry := retryProxyOptionsFrom r\<rparr>)"

text \<open>\<open>runCompensations\<close>: pop the last entry and call its activity; at the end, the outcome.\<close>

definition pop_compensation :: "wf_env \<Rightarrow> failure \<Rightarrow> bool \<Rightarrow> wf_state \<Rightarrow> config" where
  "pop_compensation env e anyFailed st =
     (if ws_stack st = [] then
        (Finished (Inl e), terminal_event e (if anyFailed then Comp_partial else Comp_complete) st)
      else (let entry = last (ws_stack st);
                st1 = on_lifecycle (compensationStarted (ce_stepId entry)) (st\<lparr>ws_stack := butlast (ws_stack st)\<rparr>) in
            (Unwinding e anyFailed entry,
             issue (Call_activity (ce_activity entry) (compensation_options env entry) (ce_input entry) None []) st1)))"

definition unwind :: "wf_env \<Rightarrow> failure \<Rightarrow> wf_state \<Rightarrow> config" where
  "unwind env e st =
     (if ws_stack st = [] then (Finished (Inl e), terminal_event e Comp_none st)
      else pop_compensation env e False st)"

definition finish_run :: "jv \<Rightarrow> wf_state \<Rightarrow> config" where
  "finish_run current st = (Finished (Inr current), on_lifecycle lc_completed st)"

text \<open>After a step returned: record it, then open its gate if it has one pending.\<close>

definition after_step_value :: "wf_env \<Rightarrow> nat \<Rightarrow> jv \<Rightarrow> wf_state \<Rightarrow> config" where
  "after_step_value env i v st =
     (let s = wp_steps (we_plan env) ! i in
      case complete_step s v st of
        (Inl e, st1) \<Rightarrow> unwind env e st1
      | (Inr _, st1) \<Rightarrow>
          (case Option.bind (ws_lifecycle st1) (\<lambda>rt. pendingGateAfter rt (step_id s)) of
             None \<Rightarrow> (Ready (Suc i) v, st1)
           | Some g \<Rightarrow> (At_gate i g v, on_lifecycle (waitingForGate g) st1)))"

definition step_result :: "wf_env \<Rightarrow> nat \<Rightarrow> step_proc progress \<times> wf_state \<Rightarrow> config" where
  "step_result env i r =
     (case r of
        (Inr p, st) \<Rightarrow> (In_step i p, st)
      | (Inl (Inl e), st) \<Rightarrow> unwind env e st
      | (Inl (Inr v), st) \<Rightarrow> after_step_value env i v st)"

definition run_step :: "wf_env \<Rightarrow> nat \<Rightarrow> jv \<Rightarrow> wf_state \<Rightarrow> config" where
  "run_step env i current st =
     (let steps = wp_steps (we_plan env) in
      if \<not> i < length steps then finish_run current st
      else if cancel_requested st then unwind env cancelled_failure st
      else let s = steps ! i in
        case gate_open (step_when s) st of
          Inl e \<Rightarrow> unwind env e st
        | Inr False \<Rightarrow>
            finish_run current (skip_step (step_id s) (step_when s) (totalUnitsOf (drop i steps) (ws_context st)) st)
        | Inr True \<Rightarrow>
            step_result env i (start_step env s current (on_lifecycle (stepStarted (step_id s)) st)))"

text \<open>The jump of a decided gate.\<close>

definition follow_route :: "wf_env \<Rightarrow> nat \<Rightarrow> jv \<Rightarrow> string option \<Rightarrow> wf_state \<Rightarrow> config" where
  "follow_route env i current target st =
     (case Option.bind target (stepIndexes (wp_steps (we_plan env))) of
        None \<Rightarrow> unwind env (App_failure ''TypefluxReviewRouteMissing'') st
      | Some j \<Rightarrow>
          (Ready j current,
           on_lifecycle (skipUnits (totalUnitsOf (drop (Suc i) (take j (wp_steps (we_plan env)))) (ws_context st))) st))"

text \<open>One round of the gate's wait loop: cancellation, the fail policy, a decision, in this order.\<close>

definition poll_gate :: "wf_env \<Rightarrow> nat \<Rightarrow> nat \<Rightarrow> jv \<Rightarrow> lrt \<Rightarrow> wf_state \<Rightarrow> config" where
  "poll_gate env i g current rt st =
     (if lr_cancellationRequested rt then unwind env cancelled_failure st
      else if gs_invalidFailed (gate_at rt g) then
        unwind env (App_failure ''TypefluxInvalidReviewDecision'') (on_lifecycle invalidReviewFailedTerminal st)
      else if gs_routeTarget (gate_at rt g) \<noteq> None then
        (let (target, rt1) = gateRouted g rt in follow_route env i current target (st\<lparr>ws_lifecycle := Some rt1\<rparr>))
      else (At_gate i g current, st))"

definition expire_gate :: "wf_env \<Rightarrow> nat \<Rightarrow> nat \<Rightarrow> jv \<Rightarrow> lrt \<Rightarrow> wf_state \<Rightarrow> config" where
  "expire_gate env i g current rt st =
     (if gs_timeoutSeconds (gate_at rt g) = None \<or> lr_cancellationRequested rt
         \<or> gs_invalidFailed (gate_at rt g) \<or> gs_routeTarget (gate_at rt g) \<noteq> None
      then (At_gate i g current, st)
      else (let (outcome, rt1) = gateTimedOut g rt; st1 = st\<lparr>ws_lifecycle := Some rt1\<rparr> in
            case outcome of
              Act_route target \<Rightarrow> follow_route env i current target st1
            | Act_cancel \<Rightarrow> unwind env cancelled_failure st1
            | Act_fail \<Rightarrow> unwind env (App_failure ''TypefluxReviewTimeout'') st1))"

definition answer_compensation :: "wf_env \<Rightarrow> failure \<Rightarrow> bool \<Rightarrow> compensation_entry \<Rightarrow> answer \<Rightarrow> wf_state \<Rightarrow> config" where
  "answer_compensation env e anyFailed entry ans st =
     (case ans of
        Inr _ \<Rightarrow> pop_compensation env e anyFailed (on_lifecycle (compensationCompleted (ce_stepId entry)) st)
      | Inl _ \<Rightarrow> pop_compensation env e True (on_lifecycle (compensationFailed (ce_stepId entry)) st))"

definition signal_phase :: "wf_state \<Rightarrow> phase \<Rightarrow> phase" where
  "signal_phase st ph =
     (case ph of
        In_step i p \<Rightarrow> In_step i (if cancellable st \<and> cancel_requested st then cancel_scopes p else p)
      | _ \<Rightarrow> ph)"

fun workflow_event :: "wf_env \<Rightarrow> event \<Rightarrow> config \<Rightarrow> config" where
  "workflow_event env ev (Finished r, st) = (Finished r, st)"
| "workflow_event env (Cancel_signal reason) (ph, st) =
     (let st1 = on_lifecycle (requestCancel reason) st in (signal_phase st1 ph, st1))"
| "workflow_event env (Review_signal command) (ph, st) = (ph, on_lifecycle (submitReview command) st)"
| "workflow_event env Tick (Ready i current, st) = run_step env i current st"
| "workflow_event env Tick (At_gate i g current, st) =
     (case ws_lifecycle st of None \<Rightarrow> (At_gate i g current, st) | Some rt \<Rightarrow> poll_gate env i g current rt st)"
| "workflow_event env Expire (At_gate i g current, st) =
     (case ws_lifecycle st of None \<Rightarrow> (At_gate i g current, st) | Some rt \<Rightarrow> expire_gate env i g current rt st)"
| "workflow_event env (Answer path ans) (In_step i p, st) = step_result env i (deliver env False path ans p st)"
| "workflow_event env (Answer [] ans) (Unwinding e anyFailed entry, st) = answer_compensation env e anyFailed entry ans st"
| "workflow_event env ev (ph, st) = (ph, st)"

text \<open>
  The start: the plan value is checked before anything else, then the start context. \<open>now\<close> is the
  workflow clock.
\<close>

definition initial_state :: "wf_env \<Rightarrow> (nat \<Rightarrow> string option) \<Rightarrow> jv \<Rightarrow> wf_state" where
  "initial_state env now input =
     (let plan = we_plan env; ctx = [(''input'', input)] in
      \<lparr>ws_context = ctx, ws_stack = [],
       ws_lifecycle = map_option (\<lambda>l. lc_started (addUnits (totalUnitsOf (wp_steps plan) ctx)
                                         (new_LifecycleRuntime l now))) (wp_lifecycle plan),
       ws_calls = []\<rparr>)"

definition typefluxYamlWorkflow ::
    "wf_env \<Rightarrow> jv option \<Rightarrow> string list option \<Rightarrow> (nat \<Rightarrow> string option) \<Rightarrow> jv \<Rightarrow> config" where
  "typefluxYamlWorkflow env raw start_keys now input =
     (let blank = \<lparr>ws_context = [], ws_stack = [], ws_lifecycle = None, ws_calls = []\<rparr> in
      if planUnsupportedReason raw \<noteq> None then (Finished (Inl (App_failure ''TypefluxPlanUnsupported'')), blank)
      else if \<exists>keys. start_keys = Some keys \<and> (\<exists>k\<in>set keys. k \<noteq> ''searchAttribute'')
      then (Finished (Inl (App_failure ''TypefluxPlanUnsupported'')), blank)
      else (Ready 0 input, initial_state env now input))"

definition run_events :: "wf_env \<Rightarrow> event list \<Rightarrow> config \<Rightarrow> config" where
  "run_events env evs c = fold (workflow_event env) evs c"

end
