(* ===== verification/Interpreter_Facts.thy ===== *)
theory Interpreter_Facts
  imports Interpreter
begin

text \<open>
  Lemmas on the plan interpreter: the calls a step in progress awaits, structured concurrency (a step
  ends with its last call, and never waits for nothing), and the unwinding of compensations.
\<close>

section \<open>The calls a step awaits\<close>

definition fan_pending :: "('e, 'r, nat list list) fan \<Rightarrow> nat list list" where
  "fan_pending f = concat (map (\<lambda>(w, x). case x of Idle \<Rightarrow> [] | Working n ps \<Rightarrow> map ((#) w) ps)
     (zip [0..<length (fan_workers f)] (fan_workers f)))"

primrec pending :: "step_proc \<Rightarrow> nat list list"
  and pending_item :: "item_proc \<Rightarrow> nat list list" where
  "pending (Awaiting s c) = [[]]"
| "pending (Preparing s items c) = [[]]"
| "pending (Fanning s info fan cancelled) = fan_pending (map_fan id id pending_item fan)"
| "pending (Releasing s completed rs c) = [[]]"
| "pending_item (Item_call c) = [[]]"
| "pending_item (Item_branch rest p) = pending p"

text \<open>A step never waits for nothing: a fan-out in progress has a worker, each worker a call.\<close>

definition fan_live :: "('e, 'r, bool) fan \<Rightarrow> bool" where
  "fan_live f \<longleftrightarrow> \<not> fan_done f \<and> (\<forall>n b. Working n b \<in> set (fan_workers f) \<longrightarrow> b)"

primrec live :: "step_proc \<Rightarrow> bool"
  and live_item :: "item_proc \<Rightarrow> bool" where
  "live (Awaiting s c) = True"
| "live (Preparing s items c) = True"
| "live (Fanning s info fan cancelled) = fan_live (map_fan id id live_item fan)"
| "live (Releasing s completed rs c) = True"
| "live_item (Item_call c) = True"
| "live_item (Item_branch rest p) = live p"

lemma fan_workers_map [simp]: "fan_workers (map_fan f g h x) = map (map_worker h) (fan_workers x)"
  by (cases x) simp

lemma map_worker_eq: "map_worker h x = Idle \<longleftrightarrow> x = Idle"
  "map_worker h x = Working n b \<longleftrightarrow> (\<exists>p. x = Working n p \<and> b = h p)"
  by (cases x; auto)+

lemma fan_done_map [simp]: "fan_done (map_fan f g h x) = fan_done x"
  by (simp add: fan_done_def map_worker_eq)

lemma working_in_map: "Working n b \<in> set (map (map_worker h) ws) \<longleftrightarrow> (\<exists>p. Working n p \<in> set ws \<and> b = h p)"
proof -
  have "Working n b \<in> set (map (map_worker h) ws) \<longleftrightarrow> (\<exists>x\<in>set ws. map_worker h x = Working n b)"
    by (force simp: image_iff)
  then show ?thesis by (auto simp: map_worker_eq)
qed

lemma fan_live_map:
  "fan_live (map_fan f g h x) \<longleftrightarrow> \<not> fan_done x \<and> (\<forall>n p. Working n p \<in> set (fan_workers x) \<longrightarrow> h p)"
  unfolding fan_live_def fan_done_map fan_workers_map working_in_map by blast

lemma in_concat_zip:
  "x \<in> set (concat (map F (zip [0..<length ys] ys))) \<longleftrightarrow> (\<exists>w<length ys. x \<in> set (F (w, ys ! w)))"
proof -
  have "set (zip [0..<length ys] ys) = (\<lambda>w. (w, ys ! w)) ` {..<length ys}"
    by (auto simp: set_zip intro!: exI)
  then show ?thesis by auto
qed

lemma in_fan_pending:
  "path \<in> set (fan_pending (map_fan f g h x)) \<longleftrightarrow>
     (\<exists>w n p rest. w < length (fan_workers x) \<and> fan_workers x ! w = Working n p \<and> rest \<in> set (h p) \<and> path = w # rest)"
  (is "?l \<longleftrightarrow> ?r")
proof -
  have "?l \<longleftrightarrow> (\<exists>w<length (fan_workers x). path \<in> set (case map_worker h (fan_workers x ! w) of
      Idle \<Rightarrow> [] | Working n ps \<Rightarrow> map ((#) w) ps))"
    unfolding fan_pending_def fan_workers_map in_concat_zip by (simp cong: conj_cong)
  also have "\<dots> \<longleftrightarrow> ?r"
  proof (intro ex_cong1)
    fix w
    show "w < length (fan_workers x) \<and> path \<in> set (case map_worker h (fan_workers x ! w) of
        Idle \<Rightarrow> [] | Working n ps \<Rightarrow> map ((#) w) ps) \<longleftrightarrow>
      (\<exists>n p rest. w < length (fan_workers x) \<and> fan_workers x ! w = Working n p \<and> rest \<in> set (h p) \<and> path = w # rest)"
      by (cases "fan_workers x ! w") auto
  qed
  finally show ?thesis .
qed

section \<open>Settling touches one worker\<close>

lemma drain_one_worker:
  assumes "drain start q f s = (f', s')" "\<forall>x\<in>set q. fst x = w" "v \<noteq> w"
  shows "fan_workers f' ! v = fan_workers f ! v \<and> length (fan_workers f') = length (fan_workers f)"
  using assms
proof (induction start q f s rule: drain.induct)
  case (2 start u i out q f s)
  let ?f1 = "record_outcome i out f"
  have u: "u = w" using "2.prems"(2) by simp
  show ?case
  proof (cases "can_claim ?f1")
    case False
    with "2.IH"(3) [OF refl False] "2.prems" u show ?thesis by (simp add: Let_def)
  next
    case True
    obtain r s1 where st: "start (fan_next ?f1) s = (r, s1)" by (cases "start (fan_next ?f1) s")
    show ?thesis
    proof (cases r)
      case (Inl o1)
      with "2.IH"(1) [OF refl True st [symmetric] Inl] "2.prems" u True st show ?thesis
        by (simp add: Let_def)
    next
      case (Inr p)
      with "2.IH"(2) [OF refl True st [symmetric] Inr] "2.prems" u True st show ?thesis
        by (simp add: Let_def)
    qed
  qed
qed simp

lemma settle_one_worker:
  assumes "settle start w out f s = (f', s')" "v \<noteq> w"
  shows "fan_workers f' ! v = fan_workers f ! v" "length (fan_workers f') = length (fan_workers f)"
  using assms drain_one_worker [of start "[(w, _, out)]" "put_worker w Idle f" s f' s' w v]
  by (auto simp: settle_def split: worker.splits)

lemma settle_last:
  assumes "settle start w out f s = (f', s')" "fan_done f'" "v < length (fan_workers f)" "fan_workers f ! v = Working n p"
  shows "v = w"
proof (rule ccontr)
  assume v: "v \<noteq> w"
  with settle_one_worker [OF assms(1) v] assms(3,4) have "Working n p \<in> set (fan_workers f')"
    by (metis nth_mem)
  with assms(2) show False by (auto simp: fan_done_def)
qed

section \<open>Delivering an answer\<close>

lemma fan_progress_ends: "fan_progress env sc s info c (f, st) = (Inl out, st') \<Longrightarrow> fan_done f"
  by (auto simp: fan_progress_def split: if_splits)

lemma settle_item_ends:
  assumes "settle_item env sc s info c w n out fan st = (Inl out', st')"
    and "v < length (fan_workers fan)" "fan_workers fan ! v = Working m p"
  shows "v = w"
proof -
  obtain info1 st1 where n: "note_item info n out st = (info1, st1)" by (cases "note_item info n out st")
  obtain f' st2 where f: "settle (start_item env (sc \<or> c) s info1) w out fan st1 = (f', st2)"
    by (cases "settle (start_item env (sc \<or> c) s info1) w out fan st1")
  from assms(1) have "fan_done f'" by (auto simp: settle_item_def n f dest: fan_progress_ends)
  from settle_last [OF f this assms(2,3)] show ?thesis .
qed

lemma worker_at_working: "worker_at fan w = Working n p \<longleftrightarrow> w < length (fan_workers fan) \<and> fan_workers fan ! w = Working n p"
  by (auto simp: worker_at_def)

lemma pending_only:
  assumes "\<And>v m p. v < length (fan_workers fan) \<Longrightarrow> fan_workers fan ! v = Working m p \<Longrightarrow> v = w"
    and "worker_at fan w = Working n ip" "set (pending_item ip) = {path}"
  shows "set (pending (Fanning s info fan c)) = {w # path}"
proof -
  have w: "w < length (fan_workers fan)" "fan_workers fan ! w = Working n ip"
    using assms(2) by (simp_all add: worker_at_working)
  show ?thesis
  proof (intro equalityI subsetI)
    fix x
    assume "x \<in> set (pending (Fanning s info fan c))"
    then obtain v m q rest where v: "v < length (fan_workers fan)" "fan_workers fan ! v = Working m q"
      "rest \<in> set (pending_item q)" "x = v # rest" unfolding pending.simps in_fan_pending by blast
    from assms(1) [OF v(1,2)] have "v = w" .
    with v w assms(3) show "x \<in> {w # path}" by simp
  next
    fix x
    assume "x \<in> {w # path}"
    with w assms(3) show "x \<in> set (pending (Fanning s info fan c))"
      unfolding pending.simps in_fan_pending by blast
  qed
qed

text \<open>Structured concurrency: a step ends when its last pending call is answered, and not before.\<close>

lemma deliver_ends:
  "deliver env sc path ans p st = (Inl out, st') \<Longrightarrow> set (pending p) = {path}"
proof (induction env sc path ans p st arbitrary: out st' rule: deliver.induct)
  case (4 env sc w path ans s info fan cancelled st)
  show ?case
  proof (cases "worker_at fan w")
    case Idle
    with "4.prems" show ?thesis by simp
  next
    case (Working n ip)
    show ?thesis
    proof (cases ip)
      case (Item_call c)
      with "4.prems" Working show ?thesis
        by (intro pending_only [OF _ Working]) (auto simp: settle_item_ends split: if_splits)
    next
      case (Item_branch rest q)
      obtain r st1 where d: "deliver env (sc \<or> cancelled) path ans q st = (r, st1)"
        by (cases "deliver env (sc \<or> cancelled) path ans q st")
      show ?thesis
      proof (cases r)
        case (Inr q1)
        with "4.prems" Working Item_branch d show ?thesis by simp
      next
        case (Inl out1)
        have inner: "set (pending q) = {path}"
          by (rule "4.IH" [OF Working Item_branch]) (use d Inl in simp)
        show ?thesis
          by (rule pending_only [OF _ Working])
             (use "4.prems" Working Item_branch d Inl inner in
               \<open>auto simp: settle_item_ends split: prod.splits sum.splits\<close>)
      qed
    qed
  qed
qed simp_all

text \<open>An answer to a call that is not pending changes nothing.\<close>

lemma deliver_stray:
  "path \<notin> set (pending p) \<Longrightarrow> deliver env sc path ans p st = (Inr p, st)"
proof (induction env sc path ans p st rule: deliver.induct)
  case (4 env sc w path ans s info fan cancelled st)
  show ?case
  proof (cases "worker_at fan w")
    case Idle
    then show ?thesis by simp
  next
    case (Working n ip)
    have np: "path \<notin> set (pending_item ip)"
      using "4.prems" Working by (auto simp: in_fan_pending worker_at_working)
    show ?thesis
    proof (cases ip)
      case (Item_call c)
      with np Working show ?thesis by (cases path) auto
    next
      case (Item_branch rest q)
      have "deliver env (sc \<or> cancelled) path ans q st = (Inr q, st)"
        by (rule "4.IH" [OF Working Item_branch]) (use np Item_branch in simp)
      moreover have "put_worker w (Working n ip) fan = fan"
        using Working by (cases fan) (auto simp: worker_at_working list_update_same_conv)
      ultimately show ?thesis using Working Item_branch by simp
    qed
  qed
qed simp_all

section \<open>A step in progress awaits a call\<close>

definition fan_all :: "('p \<Rightarrow> bool) \<Rightarrow> ('e, 'r, 'p) fan \<Rightarrow> bool" where
  "fan_all P f \<longleftrightarrow> (\<forall>n p. Working n p \<in> set (fan_workers f) \<longrightarrow> P p)"

lemma live_Fanning: "live (Fanning s info fan c) \<longleftrightarrow> \<not> fan_done fan \<and> fan_all live_item fan"
  by (simp add: fan_live_map fan_all_def)

lemma fan_all_set_worker:
  assumes "fan_all P f" "\<And>n p. x = Working n p \<Longrightarrow> P p"
  shows "fan_all P (put_worker w x f)"
  using assms set_update_subset_insert [of "fan_workers f" w x] by (auto simp: fan_all_def)

lemma fan_all_idle [simp]: "fan_all P f \<Longrightarrow> fan_all P (put_worker w Idle f)"
  and fan_all_working [simp]: "fan_all P f \<Longrightarrow> P p \<Longrightarrow> fan_all P (put_worker w (Working n p) f)"
  by (auto intro: fan_all_set_worker)

lemma fan_all_record [simp]: "fan_all P (record_outcome i out f) = fan_all P f"
  and fan_all_claim [simp]: "fan_all P (claim_next f) = fan_all P f"
  by (simp_all add: fan_all_def)

definition starts_only :: "('p \<Rightarrow> bool) \<Rightarrow> ('e, 'r, 'p, 's) starter \<Rightarrow> bool" where
  "starts_only P start \<longleftrightarrow> (\<forall>n s p s'. start n s = (Inr p, s') \<longrightarrow> P p)"

lemma drain_all:
  assumes "drain start q f s = (f', s')" "fan_all P f" "starts_only P start"
  shows "fan_all P f'"
  using assms
proof (induction start q f s rule: drain.induct)
  case (2 start u i out q f s)
  let ?f1 = "record_outcome i out f"
  show ?case
  proof (cases "can_claim ?f1")
    case False
    with "2.IH"(3) [OF refl False] "2.prems" show ?thesis
      by (simp add: Let_def)
  next
    case True
    obtain r s1 where st: "start (fan_next ?f1) s = (r, s1)" by (cases "start (fan_next ?f1) s")
    show ?thesis
    proof (cases r)
      case (Inl o1)
      with "2.IH"(1) [OF refl True st [symmetric] Inl] "2.prems" True st show ?thesis
        by (simp add: Let_def)
    next
      case (Inr p)
      with "2.prems"(3) st have "P p" unfolding starts_only_def by blast
      with Inr "2.IH"(2) [OF refl True st [symmetric] Inr] "2.prems" True st show ?thesis
        by (simp add: Let_def)
    qed
  qed
qed simp

lemma settle_all:
  assumes "settle start w out f s = (f', s')" "fan_all P f" "starts_only P start"
  shows "fan_all P f'"
  using assms drain_all [of start "[(w, _, out)]" "put_worker w Idle f" s f' s' P]
  by (auto simp: settle_def simp del: drain.simps split: worker.splits)

lemma assemble_all:
  assumes "assemble start items rs s = (f', s')" "starts_only P start" "\<forall>p. Inr p \<in> set rs \<longrightarrow> P p"
  shows "fan_all P f'"
proof (rule drain_all [of start "due rs" "launched items rs" s f' s' P])
  have "Working n p \<in> set (fan_workers (launched items rs)) \<Longrightarrow> Inr p \<in> set rs" for n p
  proof -
    assume "Working n p \<in> set (fan_workers (launched items rs))"
    then obtain i r where ir: "(i, r) \<in> set (zip [0..<length rs] rs)" "Working n p = worker_of i r"
      by (auto simp: launched_def)
    then have "r = Inr p" by (cases r) auto
    with ir(1) show "Inr p \<in> set rs" by (auto dest: set_zip_rightD)
  qed
  with assms(3) show "fan_all P (launched items rs)" by (auto simp: fan_all_def)
qed (use assms in \<open>auto simp: assemble_def\<close>)

lemma launch_all:
  assumes "launch start is s = (rs, s')" "starts_only P start" "Inr p \<in> set rs"
  shows "P p"
  using assms
proof (induction "is" arbitrary: s rs s')
  case (Cons i "is")
  obtain r s1 where r: "start i s = (r, s1)" by (cases "start i s")
  obtain rs1 s2 where rs: "launch start is s1 = (rs1, s2)" by (cases "launch start is s1")
  from Cons.prems r rs have "rs = r # rs1" by simp
  with Cons.prems(2,3) r Cons.IH [OF rs Cons.prems(2)] show ?case
    by (auto simp: starts_only_def)
qed simp

lemma fanOut_all:
  assumes "fanOut start conc items s = (f', s')" "starts_only P start"
  shows "fan_all P f'"
proof -
  obtain rs s1 where l: "launch start [0..<min conc items] s = (rs, s1)"
    by (cases "launch start [0..<min conc items] s")
  with assms(1) have "assemble start items rs s1 = (f', s')" by (simp add: fanOut_def)
  from assemble_all [OF this assms(2)] launch_all [OF l assms(2)] show ?thesis by blast
qed

lemma start_item_starts: "starts_only live_item (start_item env sc s info)"
  by (auto simp: starts_only_def start_item_def Let_def split: fan_info.splits if_splits)

lemma finish_fan_live: "finish_fan env sc s info fan c st = (Inr p, st') \<Longrightarrow> live p"
  by (auto simp: finish_fan_def Let_def split: plan_step.splits fan_info.splits sum.splits option.splits
      if_splits prod.splits)

lemma fan_progress_live:
  assumes "fan_progress env sc s info c (fan, st) = (Inr p, st')" "fan_all live_item fan"
  shows "live p"
  using assms finish_fan_live
  by (auto simp: fan_progress_def live_Fanning simp del: live.simps split: if_splits)

lemma begin_map_live: "begin_map env sc s items session st = (Inr p, st') \<Longrightarrow> live p"
proof -
  assume b: "begin_map env sc s items session st = (Inr p, st')"
  let ?info = "Map_fan items session []" and ?conc = "case Option.bind (step_map_config s) map_concurrency of
      None \<Rightarrow> DEFAULT_MAP_CONCURRENCY | Some n \<Rightarrow> n"
  obtain fan st1 where f: "fanOut (start_item env sc s ?info) ?conc (length items) st = (fan, st1)"
    by (cases "fanOut (start_item env sc s ?info) ?conc (length items) st")
  show ?thesis
    by (rule fan_progress_live [OF _ fanOut_all [OF f start_item_starts]])
       (use b f in \<open>auto simp: begin_map_def Let_def split: if_splits prod.splits\<close>)
qed

lemma start_map_live: "start_map env s m st = (Inr p, st') \<Longrightarrow> live p"
  using begin_map_live
  by (auto simp: start_map_def Let_def split: sum.splits jv.splits plan_step.splits list.splits option.splits if_splits)

lemma start_live:
  "start_seq env ss v st = (Inr ip, st1) \<Longrightarrow> live_item ip"
  "start_branches env bs keep v st = (rs, st2) \<Longrightarrow> Inr ip \<in> set rs \<Longrightarrow> live_item ip"
  "start_step env s v st = (Inr p, st3) \<Longrightarrow> live p"
proof (induction env ss v st and env bs keep v st and env s v st arbitrary: ip st1 and ip rs st2 and p st3
    rule: start_seq_start_branches_start_step.induct)
  case (2 env s ss v st)
  let ?st = "on_lifecycle (stepStarted (step_id s)) st"
  obtain r st1' where r: "start_step env s v ?st = (r, st1')" by (cases "start_step env s v ?st")
  from "2.prems" have go: "\<not> cancel_requested st" "gate_open (step_when s) st = Inr True"
    by (auto split: if_splits sum.splits bool.splits)
  show ?case
  proof (cases r)
    case (Inr q)
    with "2.IH"(1) [OF go refl, of q st1'] r "2.prems" go show ?thesis by auto
  next
    case (Inl out)
    show ?thesis
    proof (cases out)
      case (Inl e)
      with \<open>r = Inl out\<close> r "2.prems" go show ?thesis by simp
    next
      case (Inr v1)
      obtain cr st2' where c: "complete_step s v1 st1' = (cr, st2')" by (cases "complete_step s v1 st1'")
      with \<open>r = Inl out\<close> Inr r "2.prems" go obtain u where "cr = Inr u" "start_seq env ss v1 st2' = (Inr ip, st1)"
        by (cases cr) simp_all
      with "2.IH"(2) [OF go refl r [symmetric] \<open>r = Inl out\<close> Inr c [symmetric]] show ?thesis by blast
    qed
  qed
next
  case (4 env i w ss bs keep v st)
  obtain r st1' where r: "start_seq env ss v st = (r, st1')" by (cases "start_seq env ss v st")
  obtain rs' st2' where rs: "start_branches env bs (tl keep) v st1' = (rs', st2')"
    by (cases "start_branches env bs (tl keep) v st1'")
  show ?case
  proof (cases "keep \<noteq> [] \<and> hd keep")
    case True
    with "4.prems" r rs have "Inr ip = r \<or> Inr ip \<in> set rs'" by auto
    with "4.IH"(1) [OF True] "4.IH"(2) [OF True r [symmetric]] r rs show ?thesis by blast
  next
    case False
    with "4.IH"(3) "4.prems" show ?thesis by (simp split: if_splits)
  qed
next
  case (9 env i bs mb w v st)
  obtain g st1' where g: "gate_branches bs st = (g, st1')" by (cases "gate_branches bs st")
  with "9.prems" obtain keep where keep: "g = Inr keep" by (cases g) auto
  obtain rs st2' where rs: "start_branches env bs keep v st1' = (rs, st2')"
    by (cases "start_branches env bs keep v st1'")
  let ?info = "Branch_fan (map fst (filter snd (zip bs keep)))" and ?s = "ParallelStep i bs mb w"
  let ?n = "length (map fst (filter snd (zip bs keep)))"
  obtain fan st4 where f: "assemble (start_item env False ?s ?info) ?n rs st2' = (fan, st4)"
    by (cases "assemble (start_item env False ?s ?info) ?n rs st2'")
  from "9.IH" [OF g [symmetric] keep] rs have "\<forall>ip. Inr ip \<in> set rs \<longrightarrow> live_item ip" by blast
  from assemble_all [OF f start_item_starts this] have all: "fan_all live_item fan" .
  show ?case
    by (rule fan_progress_live [OF _ all])
       (use "9.prems" g keep rs f in \<open>simp add: Let_def\<close>)
qed (auto dest: start_map_live simp: Let_def)

lemma continue_branch_live: "continue_branch env rest out st = (Inr ip, st') \<Longrightarrow> live_item ip"
  by (auto simp: continue_branch_def dest: start_live(1) split: sum.splits list.splits prod.splits)

lemma settle_item_live:
  assumes "settle_item env sc s info c w n out fan st = (Inr p, st')" "fan_all live_item fan"
  shows "live p"
proof -
  obtain info1 st1 where n: "note_item info n out st = (info1, st1)" by (cases "note_item info n out st")
  obtain f' st2 where f: "settle (start_item env (sc \<or> c) s info1) w out fan st1 = (f', st2)"
    by (cases "settle (start_item env (sc \<or> c) s info1) w out fan st1")
  show ?thesis
    by (rule fan_progress_live [OF _ settle_all [OF f assms(2) start_item_starts]])
       (use assms(1) n f in \<open>simp add: settle_item_def\<close>)
qed

lemma fan_done_set_worker: "w < length (fan_workers f) \<Longrightarrow> \<not> fan_done (put_worker w (Working n p) f)"
  using set_update_memI [of w "fan_workers f" "Working n p"] by (auto simp: fan_done_def)

lemma deliver_live:
  "deliver env sc path ans p st = (Inr p', st') \<Longrightarrow> live p \<Longrightarrow> live p'"
proof (induction env sc path ans p st arbitrary: p' st' rule: deliver.induct)
  case (2 env sc ans s items c st)
  then show ?case by (auto dest: begin_map_live split: sum.splits)
next
  case (4 env sc w path ans s info fan cancelled st)
  have all: "fan_all live_item fan" using "4.prems"(2) by (simp add: live_Fanning del: live.simps)
  show ?case
  proof (cases "worker_at fan w")
    case Idle
    with "4.prems" show ?thesis by auto
  next
    case (Working n ip)
    then have w: "w < length (fan_workers fan)" "Working n ip \<in> set (fan_workers fan)"
      by (auto simp: worker_at_working) (metis nth_mem)
    with all have ip: "live_item ip" by (auto simp: fan_all_def)
    show ?thesis
    proof (cases ip)
      case (Item_call c)
      with "4.prems" Working all show ?thesis
        by (auto simp del: live.simps dest: settle_item_live split: if_splits)
    next
      case (Item_branch rest q)
      obtain r st1 where d: "deliver env (sc \<or> cancelled) path ans q st = (r, st1)"
        by (cases "deliver env (sc \<or> cancelled) path ans q st")
      show ?thesis
      proof (cases r)
        case (Inr q1)
        have "live q1" by (rule "4.IH" [OF Working Item_branch]) (use d Inr ip Item_branch in auto)
        moreover have "p' = Fanning s info (put_worker w (Working n (Item_branch rest q1)) fan) cancelled"
          using "4.prems"(1) Working Item_branch d Inr by auto
        ultimately show ?thesis using w(1) all by (simp add: live_Fanning fan_done_set_worker del: live.simps(3))
      next
        case (Inl out1)
        obtain cr st2 where c: "continue_branch env rest out1 st1 = (cr, st2)"
          by (cases "continue_branch env rest out1 st1")
        show ?thesis
        proof (cases cr)
          case (Inr ip2)
          moreover from this c have "live_item ip2" by (auto dest: continue_branch_live)
          ultimately show ?thesis using "4.prems"(1) Working Item_branch d \<open>r = Inl out1\<close> c w(1) all
            by (auto simp: live_Fanning fan_done_set_worker simp del: live.simps(3))
        next
          case (Inl out2)
          with "4.prems"(1) Working Item_branch d \<open>r = Inl out1\<close> c all show ?thesis
            by (auto dest: settle_item_live)
        qed
      qed
    qed
  qed
qed (auto split: sum.splits prod.splits)

lemma working_in_fan: "Working n p \<in> set (fan_workers f) \<Longrightarrow> p \<in> set3_fan f"
  by (cases f) force

lemma cancel_scopes_live:
  "live p \<Longrightarrow> live (cancel_scopes p)" "live_item ip \<Longrightarrow> live_item (cancel_item ip)"
proof (induction p and ip)
  case (Fanning s info fan c)
  have "fan_all live_item fan" "\<not> fan_done fan" using Fanning.prems by (simp_all add: live_Fanning del: live.simps)
  then have "Working n p \<in> set (fan_workers fan) \<Longrightarrow> live_item (cancel_item p)" for n p
    using Fanning.IH [OF working_in_fan] by (auto simp: fan_all_def)
  then have "fan_all live_item (map_fan id id cancel_item fan)"
    unfolding fan_all_def fan_workers_map working_in_map by blast
  with \<open>\<not> fan_done fan\<close> show ?case by (simp add: live_Fanning del: live.simps(3))
qed simp_all

lemma live_pending:
  "live p \<Longrightarrow> pending p \<noteq> []" "live_item ip \<Longrightarrow> pending_item ip \<noteq> []"
proof (induction p and ip)
  case (Fanning s info fan c)
  have f: "fan_all live_item fan" "\<not> fan_done fan" using Fanning.prems by (simp_all add: live_Fanning del: live.simps)
  then obtain w where w: "w < length (fan_workers fan)" "fan_workers fan ! w \<noteq> Idle"
    by (auto simp: fan_done_def in_set_conv_nth)
  then obtain n q where q: "fan_workers fan ! w = Working n q" by (cases "fan_workers fan ! w") auto
  with w(1) have mem: "Working n q \<in> set (fan_workers fan)" by (metis nth_mem)
  with f(1) have "live_item q" by (auto simp: fan_all_def)
  with Fanning.IH [OF working_in_fan [OF mem]] obtain rest where "rest \<in> set (pending_item q)"
    by (metis list.set_intros(1) neq_Nil_conv)
  with w(1) q have "w # rest \<in> set (pending (Fanning s info fan c))"
    unfolding pending.simps in_fan_pending by blast
  then show ?case by (metis empty_iff list.set(1))
qed simp_all

end
