(* ===== verification/Interpreter_Effects.thy ===== *)
theory Interpreter_Effects
  imports Interpreter_Facts Lifecycle_Facts
begin

text \<open>
  What the steps of a plan do to the state of the run. The locale \<open>step_effects\<close> is a frame rule: a
  relation kept by the primitive effects (issue a call, record a result, push a compensation, the five
  progress methods of the lifecycle) is kept by starting a step and by delivering an answer, at any
  nesting of parallel blocks and maps.
\<close>

section \<open>The frame rule\<close>

definition starter_keeps :: "('s \<Rightarrow> 's \<Rightarrow> bool) \<Rightarrow> ('e, 'r, 'p, 's) starter \<Rightarrow> bool" where
  "starter_keeps R start \<longleftrightarrow> (\<forall>n st r st'. start n st = (r, st') \<longrightarrow> R st st')"

locale step_effects =
  fixes R :: "wf_state \<Rightarrow> wf_state \<Rightarrow> bool"
  assumes refl: "R st st"
    and trans: "R st st1 \<Longrightarrow> R st1 st2 \<Longrightarrow> R st st2"
    and issue: "R st (issue c st)"
    and put: "R st (st\<lparr>ws_context := obj_put i v (ws_context st)\<rparr>)"
    and push: "R st (st\<lparr>ws_stack := ws_stack st @ [entry]\<rparr>)"
    and started: "R st (on_lifecycle (stepStarted i) st)"
    and skipped: "R st (on_lifecycle (stepSkipped i cond) st)"
    and added: "R st (on_lifecycle (addUnits n) st)"
    and dropped: "R st (on_lifecycle (skipUnits n) st)"
    and completed: "R st (on_lifecycle unitCompleted st)"
begin

lemma drain_effect: "drain start q f st = (f', st') \<Longrightarrow> starter_keeps R start \<Longrightarrow> R st st'"
proof (induction start q f st rule: drain.induct)
  case (1 start f s)
  then show ?case by (simp add: refl)
next
  case (2 start u i out q f s)
  let ?f1 = "record_outcome i out f"
  show ?case
  proof (cases "can_claim ?f1")
    case False
    with "2.IH"(3) [OF HOL.refl False] "2.prems" show ?thesis by (simp add: Let_def)
  next
    case True
    obtain r s1 where st: "start (fan_next ?f1) s = (r, s1)" by (cases "start (fan_next ?f1) s")
    with "2.prems"(2) have "R s s1" by (simp add: starter_keeps_def)
    then show ?thesis
      using "2.IH"(1,2) [OF HOL.refl True st [symmetric]] "2.prems" True st
      by (cases r) (auto simp: Let_def intro: trans)
  qed
qed

lemma launch_effect: "launch start is st = (rs, st') \<Longrightarrow> starter_keeps R start \<Longrightarrow> R st st'"
proof (induction "is" arbitrary: st rs)
  case (Cons i "is")
  then show ?case by (fastforce simp: starter_keeps_def split: prod.splits intro: trans)
qed (simp add: refl)

lemma assemble_effect: "assemble start n rs st = (f, st') \<Longrightarrow> starter_keeps R start \<Longrightarrow> R st st'"
  unfolding assemble_def by (rule drain_effect)

lemma fanOut_effect: "fanOut start conc n st = (f, st') \<Longrightarrow> starter_keeps R start \<Longrightarrow> R st st'"
  by (auto simp: fanOut_def dest: launch_effect assemble_effect intro: trans split: prod.splits)

lemma settle_effect: "settle start w out f st = (f', st') \<Longrightarrow> starter_keeps R start \<Longrightarrow> R st st'"
  by (auto simp: settle_def refl simp del: drain.simps dest: drain_effect split: worker.splits)

lemma start_item_effect: "starter_keeps R (start_item env sc s info)"
  by (auto simp: starter_keeps_def start_item_def Let_def refl issue split: fan_info.splits if_splits)

lemma pushCompensationEntry_effect: "pushCompensationEntry i c v st = (r, st') \<Longrightarrow> R st st'"
  by (auto simp: pushCompensationEntry_def refl push split: sum.splits)

lemma complete_step_effect: "complete_step s v st = (r, st') \<Longrightarrow> R st st'"
  unfolding complete_step_def pushCompensation_def
  by (auto simp: put dest!: pushCompensationEntry_effect intro: trans [OF put] split: plan_step.splits option.splits)

lemma push_items_effect: "push_items i c outs st = (r, st') \<Longrightarrow> R st st'"
proof (induction i c outs st rule: push_items.induct)
  case (2 i c n v outs st)
  then show ?case
    by (fastforce dest: pushCompensationEntry_effect intro: trans split: prod.splits sum.splits)
qed (simp add: refl)

lemma finalize_map_effect: "finalize_map s done out st = (r, st') \<Longrightarrow> R st st'"
  by (auto simp: finalize_map_def refl dest: push_items_effect split: option.splits prod.splits sum.splits)

lemma finish_fan_effect: "finish_fan env sc s info fan c st = (r, st') \<Longrightarrow> R st st'"
  by (auto simp: finish_fan_def Let_def refl issue dest: finalize_map_effect
      split: plan_step.splits fan_info.splits sum.splits option.splits if_splits prod.splits)

lemma fan_progress_effect: "fan_progress env sc s info c (fan, st) = (r, st') \<Longrightarrow> R st st'"
  by (auto simp: fan_progress_def refl dest: finish_fan_effect split: if_splits)

lemma begin_map_effect:
  assumes "begin_map env sc s items session st = (r, st')"
  shows "R st st'"
proof -
  let ?info = "Map_fan items session []" and ?conc = "case Option.bind (step_map_config s) map_concurrency of
      None \<Rightarrow> DEFAULT_MAP_CONCURRENCY | Some n \<Rightarrow> n"
  obtain fan st1 where f: "fanOut (start_item env sc s ?info) ?conc (length items) st = (fan, st1)"
    by (cases "fanOut (start_item env sc s ?info) ?conc (length items) st")
  show ?thesis using assms f
    by (auto simp: begin_map_def Let_def dest!: fan_progress_effect finalize_map_effect
        intro: trans [OF fanOut_effect [OF f start_item_effect]] split: if_splits prod.splits)
qed

lemma start_map_effect:
  assumes "start_map env s m st = (r, st')"
  shows "R st st'"
proof -
  have units: "R st (if b then on_lifecycle (addUnits n) st else st)" for b n
    by (simp add: refl added)
  note after = trans [OF units] trans [OF trans [OF units issue]]
  show ?thesis
    using assms unfolding start_map_def Let_def
    by (auto simp: refl issue added dest!: begin_map_effect intro: trans [OF added] trans [OF added issue]
        split: sum.splits jv.splits plan_step.splits list.splits option.splits if_splits)
qed

lemma skip_step_effect: "R st (skip_step i w n st)"
  unfolding skip_step_def by (rule trans [OF skipped dropped])

lemma gate_branches_effect: "gate_branches bs st = (r, st') \<Longrightarrow> R st st'"
proof (induction bs st arbitrary: r st' rule: gate_branches.induct)
  case (2 i w ss bs st)
  show ?case
  proof (cases "gate_open w st")
    case (Inl e)
    with "2.prems" show ?thesis by (simp add: refl)
  next
    case (Inr b)
    let ?st = "if b then st else skip_step i w (totalUnitsOf ss (ws_context st)) st"
    obtain r1 st1 where g: "gate_branches bs ?st = (r1, st1)" by (cases "gate_branches bs ?st")
    have "R st ?st" by (simp add: refl skip_step_effect)
    moreover have "R ?st st1" by (rule "2.IH" [OF Inr HOL.refl g])
    moreover have "st' = st1" using "2.prems" Inr g by (cases r1) (auto simp: Let_def)
    ultimately show ?thesis by (blast intro: trans)
  qed
qed (simp add: refl)

lemma start_effects:
  "start_seq env ss v st = (r1, st1) \<Longrightarrow> R st st1"
  "start_branches env bs keep v st = (r2, st2) \<Longrightarrow> R st st2"
  "start_step env s v st = (r3, st3) \<Longrightarrow> R st st3"
proof (induction env ss v st and env bs keep v st and env s v st arbitrary: r1 st1 and r2 st2 and r3 st3
    rule: start_seq_start_branches_start_step.induct)
  case (2 env s ss v st)
  let ?st = "on_lifecycle (stepStarted (step_id s)) st"
  show ?case
  proof (cases "cancel_requested st \<or> gate_open (step_when s) st \<noteq> Inr True")
    case True
    with "2.prems" show ?thesis
      by (auto simp: refl skip_step_effect split: if_splits sum.splits bool.splits)
  next
    case False
    then have go: "\<not> cancel_requested st" "gate_open (step_when s) st = Inr True" by auto
    obtain r st' where r: "start_step env s v ?st = (r, st')" by (cases "start_step env s v ?st")
    have begun: "R st st'" using trans [OF started "2.IH"(1) [OF go HOL.refl r]] .
    show ?thesis
    proof (cases "\<exists>v1. r = Inl (Inr v1)")
      case False
      with "2.prems" go r begun show ?thesis by (cases r) (auto split: sum.splits)
    next
      case True
      then obtain v1 where v1: "r = Inl (Inr v1)" ..
      obtain cr st2' where c: "complete_step s v1 st' = (cr, st2')" by (cases "complete_step s v1 st'")
      have ended: "R st st2'" using trans [OF begun complete_step_effect [OF c]] .
      show ?thesis
      proof (cases cr)
        case (Inl e)
        with "2.prems" go r v1 c ended show ?thesis by simp
      next
        case (Inr u)
        with "2.IH"(2) [OF go HOL.refl r [symmetric] v1 HOL.refl c [symmetric] Inr] "2.prems" go r v1 c ended
        show ?thesis by (auto intro: trans)
      qed
    qed
  qed
next
  case (4 env i w ss bs keep v st)
  obtain r st' where r: "start_seq env ss v st = (r, st')" by (cases "start_seq env ss v st")
  obtain rs st2' where rs: "start_branches env bs (tl keep) v st' = (rs, st2')"
    by (cases "start_branches env bs (tl keep) v st'")
  show ?case
  proof (cases "keep \<noteq> [] \<and> hd keep")
    case True
    with "4.prems" r rs have "st2 = st2'" by auto
    with "4.IH"(1) [OF True r] "4.IH"(2) [OF True r [symmetric] HOL.refl rs] show ?thesis by (blast intro: trans)
  next
    case False
    with "4.IH"(3) "4.prems" show ?thesis by (simp split: if_splits)
  qed
next
  case (9 env i bs mb w v st)
  obtain g st' where g: "gate_branches bs st = (g, st')" by (cases "gate_branches bs st")
  note gates = gate_branches_effect [OF g]
  show ?case
  proof (cases g)
    case (Inl e)
    with "9.prems" g gates show ?thesis by simp
  next
    case (Inr keep)
    obtain rs st2' where rs: "start_branches env bs keep v st' = (rs, st2')"
      by (cases "start_branches env bs keep v st'")
    note begun = trans [OF gates "9.IH" [OF g [symmetric] Inr HOL.refl HOL.refl rs]]
    let ?info = "Branch_fan (map fst (filter snd (zip bs keep)))" and ?s = "ParallelStep i bs mb w"
    let ?n = "length (map fst (filter snd (zip bs keep)))"
    obtain fan st4 where f: "assemble (start_item env False ?s ?info) ?n rs st2' = (fan, st4)"
      by (cases "assemble (start_item env False ?s ?info) ?n rs st2'")
    note assembled = trans [OF begun assemble_effect [OF f start_item_effect]]
    from "9.prems" g Inr rs f have
      "fan_progress env False ?s ?info (cancellable st' \<and> cancel_requested st') (fan, st4) = (r3, st3)"
      by (simp add: Let_def)
    from trans [OF assembled fan_progress_effect [OF this]] show ?thesis .
  qed
qed (auto simp: refl issue Let_def dest: start_map_effect)

lemma continue_branch_effect: "continue_branch env rest out st = (r, st') \<Longrightarrow> R st st'"
  by (auto simp: continue_branch_def refl dest!: complete_step_effect start_effects(1) intro: trans
      split: sum.splits list.splits prod.splits)

lemma note_item_effect: "note_item info n out st = (info1, st') \<Longrightarrow> R st st'"
  by (auto simp: note_item_def refl completed split: fan_info.splits sum.splits)

lemma settle_item_effect:
  assumes "settle_item env sc s info c w n out fan st = (r, st')"
  shows "R st st'"
proof -
  obtain info1 st1 where n: "note_item info n out st = (info1, st1)" by (cases "note_item info n out st")
  obtain f' st2 where f: "settle (start_item env (sc \<or> c) s info1) w out fan st1 = (f', st2)"
    by (cases "settle (start_item env (sc \<or> c) s info1) w out fan st1")
  from assms have "fan_progress env sc s info1 c (f', st2) = (r, st')" by (simp add: settle_item_def n f)
  from trans [OF trans [OF note_item_effect [OF n] settle_effect [OF f start_item_effect]] fan_progress_effect [OF this]]
  show ?thesis .
qed

lemma deliver_effect: "deliver env sc path ans p st = (r, st') \<Longrightarrow> R st st'"
proof (induction env sc path ans p st arbitrary: r st' rule: deliver.induct)
  case (4 env sc w path ans s info fan cancelled st)
  show ?case
  proof (cases "worker_at fan w")
    case Idle
    with "4.prems" show ?thesis by (simp add: refl)
  next
    case (Working n ip)
    show ?thesis
    proof (cases ip)
      case (Item_call c)
      with "4.prems" Working show ?thesis by (auto simp: refl dest: settle_item_effect split: if_splits)
    next
      case (Item_branch rest q)
      obtain r1 st1 where d: "deliver env (sc \<or> cancelled) path ans q st = (r1, st1)"
        by (cases "deliver env (sc \<or> cancelled) path ans q st")
      have inner: "R st st1" by (rule "4.IH" [OF Working Item_branch d])
      show ?thesis
      proof (cases r1)
        case (Inr q1)
        with "4.prems" Working Item_branch d inner show ?thesis by simp
      next
        case (Inl out1)
        obtain cr st2 where c: "continue_branch env rest out1 st1 = (cr, st2)"
          by (cases "continue_branch env rest out1 st1")
        note cont = trans [OF inner continue_branch_effect [OF c]]
        show ?thesis
        proof (cases cr)
          case (Inr ip2)
          with "4.prems" Working Item_branch d Inl c cont show ?thesis by simp
        next
          case (Inl out2)
          with "4.prems" Working Item_branch d \<open>r1 = Inl out1\<close> c cont show ?thesis
            by (auto dest!: settle_item_effect intro: trans)
        qed
      qed
    qed
  qed
qed (auto simp: refl completed dest: begin_map_effect finalize_map_effect split: sum.splits prod.splits)

end

section \<open>Steps only add\<close>

text \<open>Calls and recorded compensations are only added, at the end; a recorded result stays recorded.\<close>

definition grows :: "wf_state \<Rightarrow> wf_state \<Rightarrow> bool" where
  "grows st st' \<longleftrightarrow> (\<exists>cs. ws_calls st' = ws_calls st @ cs) \<and> (\<exists>es. ws_stack st' = ws_stack st @ es)
     \<and> fst ` set (ws_context st) \<subseteq> fst ` set (ws_context st')"

interpretation growth: step_effects grows
proof
  fix st st1 st2
  show "grows st st1 \<Longrightarrow> grows st1 st2 \<Longrightarrow> grows st st2" by (auto simp: grows_def)
qed (auto simp: grows_def issue_def on_lifecycle_def keys_obj_put)

section \<open>Steps leave the end of the run alone\<close>

text \<open>
  The part of the lifecycle that steps do not touch: the plan, the gates, the cancel flag and how
  the run ended.
\<close>

definition lc_outcome :: "lrt \<Rightarrow> lifecycle_plan \<times> gate_state list \<times> bool \<times> terminal option \<times> compensation_status option" where
  "lc_outcome rt = (lr_plan rt, lr_gates rt, lr_cancellationRequested rt, lr_terminalStatus rt, lr_compensationStatus rt)"

definition same_outcome :: "wf_state \<Rightarrow> wf_state \<Rightarrow> bool" where
  "same_outcome st st' \<longleftrightarrow> map_option lc_outcome (ws_lifecycle st') = map_option lc_outcome (ws_lifecycle st)"

lemma lc_outcome_progress [simp]:
  "lc_outcome (stepStarted i rt) = lc_outcome rt" "lc_outcome (stepSkipped i c rt) = lc_outcome rt"
  "lc_outcome (addUnits n rt) = lc_outcome rt" "lc_outcome (skipUnits n rt) = lc_outcome rt"
  "lc_outcome (unitCompleted rt) = lc_outcome rt"
  by (simp_all add: lc_outcome_def stepStarted_def stepSkipped_def addUnits_def skipUnits_def
      unitCompleted_def record_event_def Let_def)

interpretation outcome: step_effects same_outcome
  by unfold_locales (auto simp: same_outcome_def issue_def on_lifecycle_def option.map_comp comp_def)

end
