(* ===== verification/Run_Facts.thy ===== *)
theory Run_Facts
  imports Interpreter_Effects
begin

text \<open>
  Lemmas on whole runs of the interpreter: what one event does to the recorded compensations, and how
  the lifecycle status follows the phase of the run.
\<close>

section \<open>Recorded compensations\<close>

definition comp_call :: "wf_env \<Rightarrow> compensation_entry \<Rightarrow> call" where
  "comp_call env entry = Call_activity (ce_activity entry) (compensation_options env entry) (ce_input entry) None []"

definition comp_calls :: "wf_env \<Rightarrow> wf_state \<Rightarrow> call list" where
  "comp_calls env st = map (comp_call env) (rev (ws_stack st))"

lemma lifecycle_frame [simp]:
  "ws_calls (on_lifecycle f st) = ws_calls st" "ws_stack (on_lifecycle f st) = ws_stack st"
  "ws_context (on_lifecycle f st) = ws_context st"
  "ws_calls (issue c st) = ws_calls st @ [c]" "ws_stack (issue c st) = ws_stack st"
  "ws_context (issue c st) = ws_context st"
  "ws_lifecycle (issue c st) = ws_lifecycle st"
  "ws_lifecycle (on_lifecycle f st) = map_option f (ws_lifecycle st)"
  by (simp_all add: on_lifecycle_def issue_def)

lemma terminal_event_frame [simp]:
  "ws_calls (terminal_event e s st) = ws_calls st" "ws_stack (terminal_event e s st) = ws_stack st"
  by (simp_all add: terminal_event_def)

fun forward :: "phase \<Rightarrow> bool" where
  "forward (Unwinding e f entry) = False"
| "forward (Finished r) = False"
| "forward _ = True"

text \<open>
  One event, or many: while the run goes forward the calls and the stack only grow. Once it has turned
  back with a failure it keeps that failure, and the calls it makes are those of the stack, from the last
  entry to the first, and no others.
\<close>

definition turned :: "wf_env \<Rightarrow> failure \<Rightarrow> call list \<Rightarrow> config \<Rightarrow> bool" where
  "turned env e cs c \<longleftrightarrow>
     (case fst c of Unwinding e' f entry \<Rightarrow> e' = e
      | Finished (Inl e') \<Rightarrow> e' = e \<and> ws_stack (snd c) = [] | _ \<Rightarrow> False)
     \<and> ws_calls (snd c) @ comp_calls env (snd c) = cs"

definition moved :: "wf_env \<Rightarrow> wf_state \<Rightarrow> config \<Rightarrow> bool" where
  "moved env st c \<longleftrightarrow>
     (forward (fst c) \<or> (\<exists>v. fst c = Finished (Inr v))) \<and> grows st (snd c)
     \<or> (\<exists>e st1. grows st st1 \<and> turned env e (ws_calls st1 @ comp_calls env st1) c)"

lemma grows_lifecycle [simp]: "grows st (on_lifecycle f st1) = grows st st1" "grows (on_lifecycle f st) st1 = grows st st1"
  "grows st (st1\<lparr>ws_lifecycle := l\<rparr>) = grows st st1"
  by (simp_all add: grows_def)

lemma pop_turned: "turned env e (ws_calls st @ comp_calls env st) (pop_compensation env e failed st)"
  by (cases "ws_stack st" rule: rev_cases)
     (simp_all add: turned_def pop_compensation_def comp_calls_def comp_call_def Let_def)

lemma unwind_turned: "turned env e (ws_calls st @ comp_calls env st) (unwind env e st)"
proof (cases "ws_stack st = []")
  case True
  then show ?thesis by (simp add: unwind_def turned_def comp_calls_def)
next
  case False
  with pop_turned show ?thesis by (simp add: unwind_def)
qed

lemma moved_unwind: "grows st st1 \<Longrightarrow> moved env st (unwind env e st1)"
  using unwind_turned unfolding moved_def by blast

lemma moved_finish: "grows st st1 \<Longrightarrow> moved env st (finish_run v st1)"
  by (simp add: finish_run_def moved_def)

lemma moved_after_step: "grows st st1 \<Longrightarrow> moved env st (after_step_value env i v st1)"
proof -
  assume g: "grows st st1"
  obtain r st2 where c: "complete_step (wp_steps (we_plan env) ! i) v st1 = (r, st2)"
    by (cases "complete_step (wp_steps (we_plan env) ! i) v st1")
  have "grows st st2" using growth.trans [OF g growth.complete_step_effect [OF c]] .
  with c show ?thesis
    by (auto simp: after_step_value_def Let_def moved_unwind split: sum.splits option.splits)
       (auto simp: moved_def)
qed

lemma moved_step_result: "grows st (snd r) \<Longrightarrow> moved env st (step_result env i r)"
  by (auto simp: step_result_def moved_unwind moved_after_step split: prod.splits sum.splits)
     (simp add: moved_def)

lemma moved_run_step: "moved env st (run_step env i v st)"
proof -
  let ?s = "wp_steps (we_plan env) ! i" and ?st = "on_lifecycle (stepStarted (step_id (wp_steps (we_plan env) ! i))) st"
  have "grows ?st (snd (start_step env ?s v ?st))"
    by (cases "start_step env ?s v ?st") (simp add: growth.start_effects(3) del: grows_lifecycle)
  then have "moved env st (step_result env i (start_step env ?s v ?st))"
    by (intro moved_step_result) simp
  then show ?thesis
    by (auto simp: run_step_def Let_def moved_unwind moved_finish growth.refl growth.skip_step_effect
        split: sum.splits bool.splits)
qed

lemma moved_follow_route: "grows st st1 \<Longrightarrow> moved env st (follow_route env i v target st1)"
  by (auto simp: follow_route_def moved_unwind split: option.splits) (simp add: moved_def)

lemma moved_poll: "moved env st (poll_gate env i g v rt st)"
  by (auto simp: poll_gate_def moved_unwind moved_follow_route growth.refl split: prod.splits)
     (simp add: moved_def growth.refl)

lemma moved_expire: "moved env st (expire_gate env i g v rt st)"
  by (auto simp: expire_gate_def Let_def moved_unwind moved_follow_route growth.refl
      split: prod.splits timeout_outcome.splits)
     (simp_all add: moved_def growth.refl)

lemma moved_stay: "forward ph \<Longrightarrow> grows st st1 \<Longrightarrow> moved env st (ph, st1)"
  by (simp add: moved_def)

lemma moved_deliver: "moved env st (step_result env i (deliver env sc path ans p st))"
  by (cases "deliver env sc path ans p st") (simp add: moved_step_result growth.deliver_effect)

lemma moved_forward: "forward ph \<Longrightarrow> moved env st (workflow_event env ev (ph, st))"
  by (cases ph; cases ev)
     (auto simp: moved_stay moved_run_step moved_poll moved_expire moved_deliver growth.refl signal_phase_def Let_def
       split: option.splits)

lemma turned_step:
  assumes "turned env e cs (ph, st)"
  shows "turned env e cs (workflow_event env ev (ph, st))"
proof (cases ph)
  case (Finished r)
  with assms show ?thesis by simp
next
  case (Unwinding e1 failed entry)
  then have e: "e1 = e" "ws_calls st @ comp_calls env st = cs" using assms by (simp_all add: turned_def)
  have frame: "comp_calls env (on_lifecycle k st) = comp_calls env st" for k by (simp add: comp_calls_def)
  have pop: "turned env e cs (pop_compensation env e f' (on_lifecycle k st))" for f' k
    using pop_turned [of env e "on_lifecycle k st" f'] e(2) by (simp add: frame)
  have same: "turned env e cs (Unwinding e failed entry, on_lifecycle k st)" for k
    using e by (simp add: turned_def frame)
  have answer: "turned env e cs (workflow_event env (Answer path ans) (ph, st))" for path ans
    using Unwinding e(1) assms pop by (cases path) (auto simp: answer_compensation_def split: sum.splits)
  show ?thesis using Unwinding e(1) assms answer same
    by (cases ev) (auto simp: signal_phase_def Let_def)
qed (use assms in \<open>simp_all add: turned_def\<close>)

lemma turned_run: "turned env e cs c \<Longrightarrow> turned env e cs (run_events env evs c)"
proof (induction evs arbitrary: c)
  case (Cons ev evs)
  obtain ph st where "c = (ph, st)" by (cases c)
  with Cons show ?case by (simp add: run_events_def turned_step del: workflow_event.simps)
qed (simp add: run_events_def)

lemma moved_step:
  assumes "moved env st0 (ph, st)"
  shows "moved env st0 (workflow_event env ev (ph, st))"
proof -
  from assms consider (ahead) "forward ph" "grows st0 st" | (success) v where "ph = Finished (Inr v)"
    | (behind) e st1 where "grows st0 st1" "turned env e (ws_calls st1 @ comp_calls env st1) (ph, st)"
    by (auto simp: moved_def)
  then show ?thesis
  proof cases
    case ahead
    from moved_forward [OF this(1), of env st ev] this(2) growth.trans show ?thesis
      unfolding moved_def by (meson growth.trans)
  next
    case success
    with assms show ?thesis by simp
  next
    case behind
    with turned_step show ?thesis unfolding moved_def by blast
  qed
qed

lemma moved_run: "moved env st0 c \<Longrightarrow> moved env st0 (run_events env evs c)"
proof (induction evs arbitrary: c)
  case (Cons ev evs)
  obtain ph st where "c = (ph, st)" by (cases c)
  with Cons show ?case by (simp add: run_events_def moved_step del: workflow_event.simps)
qed (simp add: run_events_def)

section \<open>Unwinding\<close>

lemma run_events_Nil [simp]: "run_events env [] c = c"
  and run_events_Cons [simp]: "run_events env (ev # evs) c = run_events env evs (workflow_event env ev c)"
  by (simp_all add: run_events_def)

lemma run_finished [simp]: "run_events env evs (Finished r, st) = (Finished r, st)"
  by (induction evs) simp_all

definition top_answers :: "event list \<Rightarrow> answer list" where
  "top_answers evs = concat (map (\<lambda>ev. case ev of Answer [] a \<Rightarrow> [a] | _ \<Rightarrow> []) evs)"

lemma top_answers_simps [simp]:
  "top_answers [] = []" "top_answers (Answer [] a # evs) = a # top_answers evs"
  "top_answers (Answer (w # p) a # evs) = top_answers evs" "top_answers (Tick # evs) = top_answers evs"
  "top_answers (Expire # evs) = top_answers evs" "top_answers (Cancel_signal r # evs) = top_answers evs"
  "top_answers (Review_signal c # evs) = top_answers evs"
  by (simp_all add: top_answers_def)

definition lc_holds :: "(lrt \<Rightarrow> bool) \<Rightarrow> wf_state \<Rightarrow> bool" where
  "lc_holds P st \<longleftrightarrow> (\<forall>rt. ws_lifecycle st = Some rt \<longrightarrow> P rt)"

lemma lc_holds_simps [simp]:
  "lc_holds P (on_lifecycle f st) = lc_holds (\<lambda>rt. P (f rt)) st" "lc_holds P (issue c st) = lc_holds P st"
  "lc_holds P (st\<lparr>ws_stack := es\<rparr>) = lc_holds P st" "lc_holds P (st\<lparr>ws_context := ctx\<rparr>) = lc_holds P st"
  "lc_holds P (st\<lparr>ws_lifecycle := Some rt\<rparr>) = P rt"
  by (auto simp: lc_holds_def)

definition no_comp_status :: "lrt \<Rightarrow> bool" where
  "no_comp_status rt \<longleftrightarrow> lr_compensationStatus rt = None"

lemma lr_end_requestCancel [simp]:
  "lr_compensationStatus (requestCancel r rt) = lr_compensationStatus rt"
  "lr_terminalStatus (requestCancel r rt) = lr_terminalStatus rt"
  by (simp_all add: lc_defs Let_def)

lemma lr_end_compensation [simp]:
  "lr_compensationStatus (compensationStarted i rt) = lr_compensationStatus rt"
  "lr_compensationStatus (compensationCompleted i rt) = lr_compensationStatus rt"
  "lr_compensationStatus (compensationFailed i rt) = lr_compensationStatus rt"
  "lr_terminalStatus (compensationStarted i rt) = lr_terminalStatus rt"
  "lr_terminalStatus (compensationCompleted i rt) = lr_terminalStatus rt"
  "lr_terminalStatus (compensationFailed i rt) = lr_terminalStatus rt"
  "lr_state (compensationStarted i rt) = lr_state rt" "lr_state (compensationCompleted i rt) = lr_state rt"
  "lr_state (compensationFailed i rt) = lr_state rt"
  by (simp_all add: lc_defs Let_def)

lemma lr_end_submitReview [simp]:
  "lr_compensationStatus (submitReview c rt) = lr_compensationStatus rt"
  "lr_terminalStatus (submitReview c rt) = lr_terminalStatus rt"
  "lr_state (submitReview c rt) = lr_state rt"
  by (auto simp: submitReview_def mark_invalid_def update_gate_def record_event_def Let_def split: option.splits)

definition comp_outcome :: "bool \<Rightarrow> compensation_status" where
  "comp_outcome failed = (if failed then Comp_partial else Comp_complete)"

lemma comp_status_terminal [simp]:
  "lr_compensationStatus (lc_cancelled s rt) = Some s"
  "lr_terminalStatus (lc_cancelled s rt) = Some T_cancelled" "lr_state (lc_cancelled s rt) = S_cancelled"
  "lr_compensationStatus (lc_failed s rt) = Some (case lr_compensationStatus rt of None \<Rightarrow> s | Some s' \<Rightarrow> s')"
  "lr_terminalStatus (lc_failed s rt) = Some (case lr_terminalStatus rt of None \<Rightarrow> T_failed | Some t \<Rightarrow> t)"
  "lr_state (lc_failed s rt) = (if lr_terminalStatus rt = None then S_failed else lr_state rt)"
  by (auto simp: lc_cancelled_def lc_failed_def record_event_def Let_def split: option.split)

lemma no_comp_status_ops [simp]:
  "no_comp_status (compensationStarted i rt) = no_comp_status rt"
  "no_comp_status (compensationCompleted i rt) = no_comp_status rt"
  "no_comp_status (compensationFailed i rt) = no_comp_status rt"
  "no_comp_status (requestCancel r rt) = no_comp_status rt"
  "no_comp_status (submitReview c rt) = no_comp_status rt"
  by (simp_all add: no_comp_status_def)

lemma terminal_status:
  "lc_holds no_comp_status st \<Longrightarrow> lc_holds (\<lambda>rt. lr_compensationStatus rt = Some s) (terminal_event e s st)"
  unfolding lc_holds_def terminal_event_def no_comp_status_def by (cases "ws_lifecycle st") auto

text \<open>The state of the unwinding after \<open>answers\<close>: \<open>todo\<close> are the entries to compensate, in order.\<close>

definition unwound :: "failure \<Rightarrow> bool \<Rightarrow> compensation_entry list \<Rightarrow> answer list \<Rightarrow> config \<Rightarrow> bool" where
  "unwound e failed todo answers c \<longleftrightarrow>
     (let k = length answers; bad = (\<lambda>as. failed \<or> (\<exists>a\<in>set as. isl a)) in
      if k < length todo
      then fst c = Unwinding e (bad answers) (todo ! k) \<and> ws_stack (snd c) = rev (drop (Suc k) todo)
        \<and> lc_holds no_comp_status (snd c)
      else fst c = Finished (Inl e) \<and> ws_stack (snd c) = []
        \<and> lc_holds (\<lambda>rt. lr_compensationStatus rt = Some (comp_outcome (bad (take (length todo) answers)))) (snd c))"

lemma unwound_pop:
  assumes "lc_holds no_comp_status st"
  shows "unwound e failed (rev (ws_stack st)) [] (pop_compensation env e failed st)"
proof (cases "ws_stack st" rule: rev_cases)
  case Nil
  with assms show ?thesis
    by (auto simp: unwound_def pop_compensation_def comp_outcome_def intro: terminal_status)
next
  case (snoc es entry)
  with assms show ?thesis by (simp add: unwound_def pop_compensation_def Let_def)
qed

lemma unwound_Cons:
  assumes "unwound e (failed \<or> isl a) todo answers c"
  shows "unwound e failed (entry # todo) (a # answers) c"
  using assms by (auto simp: unwound_def Let_def split: if_splits)

lemma unwinding_run:
  assumes "lc_holds no_comp_status st"
  shows "unwound e failed (entry # rev (ws_stack st)) (top_answers evs) (run_events env evs (Unwinding e failed entry, st))"
  using assms
proof (induction evs arbitrary: failed entry st)
  case Nil
  then show ?case by (simp add: unwound_def)
next
  case (Cons ev evs)
  have signal: ?case if "workflow_event env ev (Unwinding e failed entry, st) = (Unwinding e failed entry, on_lifecycle f st)"
    "top_answers (ev # evs) = top_answers evs" "\<And>rt. no_comp_status (f rt) = no_comp_status rt" for f
    using Cons.IH [of "on_lifecycle f st" failed entry] Cons.prems that by simp
  have same: ?case if "workflow_event env ev (Unwinding e failed entry, st) = (Unwinding e failed entry, st)"
    "top_answers (ev # evs) = top_answers evs"
    using Cons.IH [of st failed entry] Cons.prems that by simp
  show ?case
  proof (cases ev)
    case (Answer path a)
    show ?thesis
    proof (cases path)
      case Nil
      define st1 where "st1 = on_lifecycle (case a of Inl _ \<Rightarrow> compensationFailed (ce_stepId entry)
          | Inr _ \<Rightarrow> compensationCompleted (ce_stepId entry)) st"
      have ok: "lc_holds no_comp_status st1" "ws_stack st1 = ws_stack st"
        using Cons.prems by (auto simp: st1_def split: sum.splits)
      have step: "workflow_event env ev (Unwinding e failed entry, st) = pop_compensation env e (failed \<or> isl a) st1"
        by (cases a) (simp_all add: Answer Nil st1_def answer_compensation_def)
      have "unwound e (failed \<or> isl a) (rev (ws_stack st1)) (top_answers evs)
        (run_events env evs (pop_compensation env e (failed \<or> isl a) st1))"
      proof (cases "ws_stack st1" rule: rev_cases)
        case Nil
        with unwound_pop [OF ok(1), of e "failed \<or> isl a" env] show ?thesis
          by (cases "pop_compensation env e (failed \<or> isl a) st1") (auto simp: unwound_def)
      next
        case (snoc es entry1)
        let ?st2 = "issue (comp_call env entry1) (on_lifecycle (compensationStarted (ce_stepId entry1)) (st1\<lparr>ws_stack := es\<rparr>))"
        have "pop_compensation env e (failed \<or> isl a) st1 = (Unwinding e (failed \<or> isl a) entry1, ?st2)"
          by (simp add: pop_compensation_def snoc Let_def comp_call_def)
        moreover have "lc_holds no_comp_status ?st2" using ok(1) by simp
        ultimately show ?thesis using Cons.IH [of ?st2 "failed \<or> isl a" entry1] snoc by simp
      qed
      from unwound_Cons [OF this] show ?thesis
        unfolding run_events_Cons step ok(2) by (simp add: Answer Nil)
    next
      case (Cons w p)
      show ?thesis by (rule same) (simp_all add: Answer Cons)
    qed
  next
    case (Cancel_signal r)
    show ?thesis by (rule signal [of "requestCancel r"]) (simp_all add: Cancel_signal Let_def signal_phase_def)
  next
    case (Review_signal c)
    show ?thesis by (rule signal [of "submitReview c"]) (simp_all add: Review_signal)
  qed (rule same; simp)+
qed

end
