(* ===== verification/Run_Outcome.thy ===== *)
theory Run_Outcome
  imports Run_Facts
begin

text \<open>
  How a run ended and what its lifecycle reports: the invariant that ties the terminal status, the state
  and the compensation status of the lifecycle to the phase of the run. Then the runs of sequences of
  atomic steps against a reference semantics.
\<close>

section \<open>The invariant\<close>

definition fresh :: "lrt \<Rightarrow> bool" where
  "fresh rt \<longleftrightarrow> lr_terminalStatus rt = None \<and> lr_compensationStatus rt = None"

text \<open>The two failures that the lifecycle marks as terminal before the compensations run.\<close>

definition review_failure :: "failure \<Rightarrow> bool" where
  "review_failure e \<longleftrightarrow> e \<in> {App_failure ''TypefluxInvalidReviewDecision'', App_failure ''TypefluxReviewTimeout''}"

definition turning :: "failure \<Rightarrow> lrt \<Rightarrow> bool" where
  "turning e rt \<longleftrightarrow> lr_compensationStatus rt = None
     \<and> (lr_terminalStatus rt = None
        \<or> lr_terminalStatus rt = Some T_failed \<and> review_failure e \<and> lr_state rt \<in> {S_failed, S_cancelling})"

definition failed_truly :: "failure \<Rightarrow> lrt \<Rightarrow> bool" where
  "failed_truly e rt \<longleftrightarrow> lr_compensationStatus rt \<noteq> None
     \<and> (if e = cancelled_failure then lr_terminalStatus rt = Some T_cancelled \<and> lr_state rt = S_cancelled
        else lr_terminalStatus rt = Some T_failed
          \<and> (lr_state rt = S_failed \<or> review_failure e \<and> lr_state rt = S_cancelling))"

definition completed_truly :: "lrt \<Rightarrow> bool" where
  "completed_truly rt \<longleftrightarrow> lr_terminalStatus rt = Some T_completed \<and> lr_state rt = S_completed
     \<and> lr_compensationStatus rt = None"

fun status_of_phase :: "phase \<Rightarrow> lrt \<Rightarrow> bool" where
  "status_of_phase (Finished (Inr v)) = completed_truly"
| "status_of_phase (Finished (Inl e)) = failed_truly e"
| "status_of_phase (Unwinding e failed entry) = turning e"
| "status_of_phase _ = fresh"

definition truthful :: "config \<Rightarrow> bool" where
  "truthful c \<longleftrightarrow> lc_holds (status_of_phase (fst c)) (snd c)"

section \<open>It holds throughout\<close>

lemma fresh_same_outcome: "same_outcome st st' \<Longrightarrow> lc_holds fresh st \<Longrightarrow> lc_holds fresh st'"
  by (cases "ws_lifecycle st"; cases "ws_lifecycle st'")
     (auto simp: same_outcome_def lc_holds_def fresh_def lc_outcome_def)

lemma fresh_is_turning: "fresh rt \<Longrightarrow> turning e rt"
  by (simp add: fresh_def turning_def)

lemma fresh_turning: "lc_holds fresh st \<Longrightarrow> lc_holds (turning e) st"
  by (auto simp: lc_holds_def fresh_def turning_def)

lemma turning_ops [simp]:
  "turning e (compensationStarted i rt) = turning e rt" "turning e (compensationCompleted i rt) = turning e rt"
  "turning e (compensationFailed i rt) = turning e rt" "turning e (submitReview c rt) = turning e rt"
  "turning e rt \<Longrightarrow> turning e (requestCancel r rt)"
  by (auto simp: turning_def requestCancel_def record_event_def Let_def)

lemma fresh_ops [simp]:
  "fresh (submitReview c rt) = fresh rt" "fresh (requestCancel r rt) = fresh rt"
  "fresh (waitingForGate g rt) = fresh rt" "fresh (snd (gateRouted g rt)) = fresh rt"
  "fresh (skipUnits n rt) = fresh rt" "fresh (stepStarted i rt) = fresh rt" "fresh (stepSkipped i cond rt) = fresh rt"
  by (auto simp: fresh_def waitingForGate_def gateRouted_def refreshWaiting_def update_gate_def lc_defs
      record_event_def Let_def split: option.splits)

lemma gateTimedOut_fresh:
  assumes "gateTimedOut g rt = (out, rt1)" "fresh rt"
  shows "if out = Act_fail then turning (App_failure ''TypefluxReviewTimeout'') rt1 else fresh rt1"
  using assms
  by (auto simp: gateTimedOut_def fresh_def turning_def review_failure_def refreshWaiting_def recomputeCheckpoint_def
      update_gate_def record_event_def Let_def split: option.splits on_timeout.splits)

lemma turning_terminal:
  "turning cancelled_failure rt \<Longrightarrow> failed_truly cancelled_failure (lc_cancelled s rt)"
  "turning e rt \<Longrightarrow> e \<noteq> cancelled_failure \<Longrightarrow> failed_truly e (lc_failed s rt)"
  by (auto simp: turning_def failed_truly_def)

lemma truthful_terminal: "lc_holds (turning e) st \<Longrightarrow> truthful (Finished (Inl e), terminal_event e s st)"
  using turning_terminal by (auto simp: truthful_def terminal_event_def lc_holds_def)

lemma truthful_pop: "lc_holds (turning e) st \<Longrightarrow> truthful (pop_compensation env e failed st)"
  by (auto simp: pop_compensation_def truthful_terminal Let_def) (simp_all add: truthful_def)

lemma truthful_unwind: "lc_holds (turning e) st \<Longrightarrow> truthful (unwind env e st)"
  by (simp add: truthful_pop truthful_terminal unwind_def)

lemma truthful_forward: "lc_holds fresh st \<Longrightarrow> forward ph \<Longrightarrow> truthful (ph, st)"
  by (cases ph) (auto simp: truthful_def)

lemma truthful_finish: "lc_holds fresh st \<Longrightarrow> truthful (finish_run v st)"
  by (auto simp: truthful_def finish_run_def lc_holds_def fresh_def completed_truly_def lc_completed_def
      record_event_def Let_def)

lemma truthful_after_step: "lc_holds fresh st \<Longrightarrow> truthful (after_step_value env i v st)"
proof -
  assume f: "lc_holds fresh st"
  obtain r st2 where c: "complete_step (wp_steps (we_plan env) ! i) v st = (r, st2)"
    by (cases "complete_step (wp_steps (we_plan env) ! i) v st")
  have "lc_holds fresh st2" using fresh_same_outcome [OF outcome.complete_step_effect [OF c] f] .
  with c show ?thesis
    by (auto simp: after_step_value_def Let_def truthful_unwind fresh_turning truthful_forward
        split: sum.splits option.splits)
qed

lemma truthful_step_result: "lc_holds fresh (snd r) \<Longrightarrow> truthful (step_result env i r)"
  by (auto simp: step_result_def truthful_unwind truthful_after_step truthful_forward fresh_turning
      split: prod.splits sum.splits)

lemma truthful_run_step:
  assumes "lc_holds fresh st"
  shows "truthful (run_step env i v st)"
proof -
  let ?s = "wp_steps (we_plan env) ! i" and ?st = "on_lifecycle (stepStarted (step_id (wp_steps (we_plan env) ! i))) st"
  have "same_outcome ?st (snd (start_step env ?s v ?st))"
    by (cases "start_step env ?s v ?st") (simp add: outcome.start_effects(3))
  from fresh_same_outcome [OF this] assms
  have "truthful (step_result env i (start_step env ?s v ?st))"
    by (intro truthful_step_result) simp
  moreover have "lc_holds fresh (skip_step j w n st)" for j w n
    using assms by (simp add: skip_step_def)
  ultimately show ?thesis using assms
    by (auto simp: run_step_def Let_def truthful_unwind truthful_finish fresh_turning
        split: sum.splits bool.splits)
qed

lemma truthful_follow_route: "lc_holds fresh st \<Longrightarrow> truthful (follow_route env i v target st)"
  by (auto simp: follow_route_def truthful_unwind fresh_turning truthful_forward split: option.splits)

lemma truthful_poll:
  assumes "fresh rt" "ws_lifecycle st = Some rt"
  shows "truthful (poll_gate env i g v rt st)"
proof -
  have st: "lc_holds fresh st" using assms by (simp add: lc_holds_def)
  have "turning (App_failure ''TypefluxInvalidReviewDecision'') (invalidReviewFailedTerminal rt)"
    using assms(1) by (simp add: fresh_def turning_def review_failure_def lc_defs record_event_def Let_def)
  then have "lc_holds (turning (App_failure ''TypefluxInvalidReviewDecision'')) (on_lifecycle invalidReviewFailedTerminal st)"
    using assms(2) by (simp add: lc_holds_def)
  moreover have "fresh (snd (gateRouted g rt))" using assms(1) by simp
  ultimately show ?thesis using st
    by (cases "gateRouted g rt") (auto simp: poll_gate_def truthful_unwind fresh_turning truthful_follow_route truthful_forward)
qed

lemma truthful_expire:
  assumes "fresh rt" "ws_lifecycle st = Some rt"
  shows "truthful (expire_gate env i g v rt st)"
proof -
  obtain out rt1 where t: "gateTimedOut g rt = (out, rt1)" by (cases "gateTimedOut g rt")
  have st: "lc_holds fresh st" using assms by (simp add: lc_holds_def)
  show ?thesis using gateTimedOut_fresh [OF t assms(1)] st
    by (cases out)
       (auto simp: expire_gate_def Let_def t truthful_forward truthful_follow_route truthful_unwind fresh_turning fresh_is_turning)
qed

lemma truthful_deliver:
  assumes "lc_holds fresh st"
  shows "truthful (step_result env i (deliver env sc path ans p st))"
proof -
  have "same_outcome st (snd (deliver env sc path ans p st))"
    by (cases "deliver env sc path ans p st") (simp add: outcome.deliver_effect)
  from truthful_step_result [OF fresh_same_outcome [OF this assms]] show ?thesis .
qed

lemma truthful_is_fresh: "truthful (ph, st) \<Longrightarrow> forward ph \<Longrightarrow> lc_holds fresh st"
  by (cases ph) (auto simp: truthful_def)

lemma fresh_of_run: "lc_holds fresh st \<Longrightarrow> ws_lifecycle st = Some rt \<Longrightarrow> fresh rt"
  by (simp add: lc_holds_def)

lemma truthful_step:
  assumes "truthful (ph, st)"
  shows "truthful (workflow_event env ev (ph, st))"
proof (cases "forward ph")
  case True
  note f = truthful_is_fresh [OF assms True]
  show ?thesis using True f assms
    by (cases ph; cases ev)
       (auto simp: truthful_forward truthful_run_step truthful_poll truthful_expire truthful_deliver
         signal_phase_def Let_def fresh_of_run split: option.splits)
next
  case False
  show ?thesis
  proof (cases ph)
    case (Finished r)
    with assms show ?thesis by simp
  next
    case (Unwinding e failed entry)
    then have t: "lc_holds (turning e) st" using assms by (simp add: truthful_def)
    then have signals: "lc_holds (\<lambda>rt. turning e (requestCancel r rt)) st" for r by (simp add: lc_holds_def)
    have answer: "truthful (workflow_event env (Answer path ans) (ph, st))" for path ans
      using Unwinding assms t
      by (cases path) (auto simp: answer_compensation_def truthful_pop split: sum.splits)
    show ?thesis using Unwinding assms answer t signals
      by (cases ev) (auto simp: signal_phase_def Let_def truthful_def)
  qed (use False in simp_all)
qed

lemma truthful_run: "truthful c \<Longrightarrow> truthful (run_events env evs c)"
proof (induction evs arbitrary: c)
  case (Cons ev evs)
  obtain ph st where "c = (ph, st)" by (cases c)
  with Cons show ?case by (simp add: truthful_step del: workflow_event.simps)
qed simp

lemma truthful_start: "truthful (typefluxYamlWorkflow env raw keys now input)"
proof -
  have "lc_holds fresh (initial_state env now input)"
    by (auto simp: initial_state_def lc_holds_def fresh_def lc_started_def addUnits_def record_event_def
        new_LifecycleRuntime_def Let_def)
  then show ?thesis
    by (simp add: typefluxYamlWorkflow_def Let_def truthful_forward) (simp add: truthful_def lc_holds_def)
qed

section \<open>Sequences of atomic steps\<close>

text \<open>
  The reference semantics of a sequence of atomic steps (activities and sub-workflows without a
  \<open>when:\<close>) and the interpreter's agreement with it: each step is called on the value of the one before,
  its result is recorded under its id, its compensation is pushed with that result.
\<close>

fun atomic_step :: "plan_step \<Rightarrow> bool" where
  "atomic_step (ActivityStep i a w c) \<longleftrightarrow> w = None \<and> (\<forall>p. c = Some p \<longrightarrow> comp_inputFrom p = None)"
| "atomic_step (SubworkflowStep i ci w c) \<longleftrightarrow> w = None \<and> (\<forall>p. c = Some p \<longrightarrow> comp_inputFrom p = None)"
| "atomic_step _ = False"

fun step_call :: "wf_env \<Rightarrow> plan_step \<Rightarrow> jv \<Rightarrow> call" where
  "step_call env (ActivityStep i a w c) v = activity_call env a v None"
| "step_call env (SubworkflowStep i ci w c) v = child_call env ci i v"
| "step_call env s v = activity_call env [] v None"

definition step_entries :: "plan_step \<Rightarrow> jv \<Rightarrow> compensation_entry list" where
  "step_entries s v = (case step_compensate s of None \<Rightarrow> []
     | Some c \<Rightarrow> [\<lparr>ce_stepId = step_id s, ce_activity = comp_activity c, ce_input = v, ce_retry = comp_retry c\<rparr>])"

text \<open>The calls of a sequence that got the answers \<open>vs\<close>, and the compensations it recorded.\<close>

fun sequence_calls :: "wf_env \<Rightarrow> plan_step list \<Rightarrow> jv \<Rightarrow> jv list \<Rightarrow> call list" where
  "sequence_calls env (s # ss) v (v1 # vs) = step_call env s v # sequence_calls env ss v1 vs"
| "sequence_calls env _ v _ = []"

fun sequence_entries :: "plan_step list \<Rightarrow> jv list \<Rightarrow> compensation_entry list" where
  "sequence_entries (s # ss) (v # vs) = step_entries s v @ sequence_entries ss vs"
| "sequence_entries _ _ = []"

fun sequence_context :: "plan_step list \<Rightarrow> jv list \<Rightarrow> ctx \<Rightarrow> ctx" where
  "sequence_context (s # ss) (v # vs) ctx = sequence_context ss vs (obj_put (step_id s) v ctx)"
| "sequence_context _ _ ctx = ctx"

definition successes :: "jv list \<Rightarrow> event list" where
  "successes vs = concat (map (\<lambda>v. [Tick, Answer [] (Inr v)]) vs)"

section \<open>The interpreter agrees\<close>

definition unattended :: "lrt \<Rightarrow> bool" where
  "unattended rt \<longleftrightarrow> lr_gates rt = [] \<and> \<not> lr_cancellationRequested rt"

lemma unattended_ops [simp]:
  "unattended (stepStarted i rt) = unattended rt" "unattended (unitCompleted rt) = unattended rt"
  "unattended (addUnits n rt) = unattended rt" "unattended (lc_started rt) = unattended rt"
  by (simp_all add: unattended_def lc_defs record_event_def Let_def)

lemma unattended_not_cancelled: "lc_holds unattended st \<Longrightarrow> \<not> cancel_requested st"
  by (auto simp: lc_holds_def unattended_def cancel_requested_def split: option.splits)

lemma unattended_no_gate: "unattended rt \<Longrightarrow> pendingGateAfter rt i = None"
  by (simp add: unattended_def pendingGateAfter_def gatesByAfterStep_def gate_index_by_def)

lemma atomic_complete:
  assumes "atomic_step s"
  shows "complete_step s v st = (Inr (), st\<lparr>ws_context := obj_put (step_id s) v (ws_context st),
    ws_stack := ws_stack st @ step_entries s v\<rparr>)"
  using assms
  by (cases s) (auto simp: complete_step_def pushCompensation_def pushCompensationEntry_def step_entries_def
      split: option.splits)

lemma atomic_start:
  assumes "atomic_step s"
  shows "start_step env s v st = (Inr (Awaiting s (step_call env s v)), issue (step_call env s v) st)"
    "step_when s = None"
  using assms by (cases s; simp add: Let_def)+

lemma run_atomic:
  assumes "i < length (wp_steps (we_plan env))" "wp_steps (we_plan env) ! i = s" "atomic_step s" "lc_holds unattended st"
  obtains st1 st2 where
    "run_events env [Tick, Answer [] (Inr v1)] (Ready i v, st) = (Ready (Suc i) v1, st1)"
    "ws_calls st1 = ws_calls st @ [step_call env s v]" "ws_stack st1 = ws_stack st @ step_entries s v1"
    "ws_context st1 = obj_put (step_id s) v1 (ws_context st)" "lc_holds unattended st1"
    "run_events env [Tick, Answer [] (Inl e)] (Ready i v, st) = unwind env (Call_rejected e) st2"
    "ws_calls st2 = ws_calls st @ [step_call env s v]" "ws_stack st2 = ws_stack st" "lc_holds unattended st2"
proof -
  let ?st = "issue (step_call env s v) (on_lifecycle (stepStarted (step_id s)) st)"
  have tick: "workflow_event env Tick (Ready i v, st) = (In_step i (Awaiting s (step_call env s v)), ?st)"
    using assms unattended_not_cancelled [OF assms(4)]
    by (simp add: run_step_def Let_def gate_open_def atomic_start step_result_def)
  have un: "lc_holds unattended ?st" using assms(4) by simp
  define st1 where "st1 = (on_lifecycle unitCompleted ?st)
    \<lparr>ws_context := obj_put (step_id s) v1 (ws_context st), ws_stack := ws_stack st @ step_entries s v1\<rparr>"
  have un1: "lc_holds unattended st1" using un by (simp add: st1_def)
  have ok: "workflow_event env (Answer [] (Inr v1)) (In_step i (Awaiting s (step_call env s v)), ?st) = (Ready (Suc i) v1, st1)"
  proof -
    have c: "complete_step s v1 (on_lifecycle unitCompleted ?st) = (Inr (), st1)"
      by (simp add: atomic_complete [OF assms(3)] st1_def)
    have "Option.bind (ws_lifecycle st1) (\<lambda>rt. pendingGateAfter rt (step_id s)) = None"
      using un1 by (cases "ws_lifecycle st1") (simp_all add: lc_holds_def unattended_no_gate)
    with c show ?thesis by (simp add: step_result_def after_step_value_def assms(2) Let_def)
  qed
  have bad: "workflow_event env (Answer [] (Inl e)) (In_step i (Awaiting s (step_call env s v)), ?st) = unwind env (Call_rejected e) ?st"
    by (simp add: step_result_def)
  show thesis
    by (rule that [of st1 ?st]) (use tick ok bad un un1 in \<open>simp_all add: st1_def del: workflow_event.simps\<close>)
qed

lemma run_sequence:
  assumes "i + length vs \<le> length (wp_steps (we_plan env))" "list_all atomic_step (take (length vs) (drop i (wp_steps (we_plan env))))"
    "lc_holds unattended st"
  shows "\<exists>st1. run_events env (successes vs) (Ready i v, st) = (Ready (i + length vs) (last (v # vs)), st1)
    \<and> ws_calls st1 = ws_calls st @ sequence_calls env (drop i (wp_steps (we_plan env))) v vs
    \<and> ws_stack st1 = ws_stack st @ sequence_entries (drop i (wp_steps (we_plan env))) vs
    \<and> ws_context st1 = sequence_context (drop i (wp_steps (we_plan env))) vs (ws_context st)
    \<and> lc_holds unattended st1"
  using assms
proof (induction vs arbitrary: i v st)
  case Nil
  then show ?case by (auto simp: successes_def)
next
  case (Cons v1 vs)
  let ?steps = "wp_steps (we_plan env)"
  have i: "i < length ?steps" using Cons.prems(1) by simp
  have d: "drop i ?steps = ?steps ! i # drop (Suc i) ?steps" by (rule Cons_nth_drop_Suc [OF i, symmetric])
  have at: "atomic_step (?steps ! i)" "list_all atomic_step (take (length vs) (drop (Suc i) ?steps))"
    using Cons.prems(2) unfolding d by simp_all
  obtain st1 where st1: "run_events env [Tick, Answer [] (Inr v1)] (Ready i v, st) = (Ready (Suc i) v1, st1)"
    "ws_calls st1 = ws_calls st @ [step_call env (?steps ! i) v]"
    "ws_stack st1 = ws_stack st @ step_entries (?steps ! i) v1"
    "ws_context st1 = obj_put (step_id (?steps ! i)) v1 (ws_context st)" "lc_holds unattended st1"
    by (rule run_atomic [OF i HOL.refl at(1) Cons.prems(3)])
  have split: "run_events env (successes (v1 # vs)) c = run_events env (successes vs) (run_events env [Tick, Answer [] (Inr v1)] c)" for c
    by (simp add: successes_def)
  from Cons.IH [OF _ at(2) st1(5), of v1] Cons.prems(1) show ?case
    unfolding split st1(1) d by (auto simp: st1(2-4))
qed

end
