(* ===== verification/Run_Lifecycle.thy ===== *)
theory Run_Lifecycle
  imports Run_Facts
begin

text \<open>
  The interpreter drives the lifecycle runtime only through its operations, in an order the runtime was
  proved for: the lifecycle of a run is always reachable in the sense of \<open>Lifecycle_Facts\<close>, and the
  gate a run waits at is one of its gates, open, and stands after the step just run.
\<close>

definition lawful :: "lifecycle_plan \<Rightarrow> (nat \<Rightarrow> string option) \<Rightarrow> wf_state \<Rightarrow> bool" where
  "lawful plan now st \<longleftrightarrow> lc_holds (lc_reachable plan now) st"

lemma lawful_frame [simp]:
  "lawful plan now (issue c st) = lawful plan now st"
  "lawful plan now (st\<lparr>ws_context := ctx\<rparr>) = lawful plan now st" "lawful plan now (st\<lparr>ws_stack := es\<rparr>) = lawful plan now st"
  "lawful plan now (st\<lparr>ws_lifecycle := Some rt\<rparr>) = lc_reachable plan now rt"
  by (simp_all add: lawful_def)

lemma lawful_apply:
  assumes "lawful plan now st" "\<And>rt. ws_lifecycle st = Some rt \<Longrightarrow> \<exists>op. f rt = lc_apply op rt"
  shows "lawful plan now (on_lifecycle f st)"
  using assms lc_reachable.step by (fastforce simp: lawful_def lc_holds_def)

lemma lawful_ops [simp]:
  assumes "lawful plan now st"
  shows "lawful plan now (on_lifecycle (stepStarted i) st)" "lawful plan now (on_lifecycle (stepSkipped i c) st)"
    "lawful plan now (on_lifecycle (addUnits n) st)" "lawful plan now (on_lifecycle (skipUnits n) st)"
    "lawful plan now (on_lifecycle unitCompleted st)" "lawful plan now (on_lifecycle (requestCancel r) st)"
    "lawful plan now (on_lifecycle (submitReview cmd) st)" "lawful plan now (on_lifecycle invalidReviewFailedTerminal st)"
    "lawful plan now (on_lifecycle (compensationStarted i) st)" "lawful plan now (on_lifecycle (compensationCompleted i) st)"
    "lawful plan now (on_lifecycle (compensationFailed i) st)" "lawful plan now (on_lifecycle (lc_cancelled s) st)"
    "lawful plan now (on_lifecycle (lc_failed s) st)" "lawful plan now (on_lifecycle lc_completed st)"
  using assms lawful_apply lc_apply.simps by metis+

definition stays_lawful :: "lifecycle_plan \<Rightarrow> (nat \<Rightarrow> string option) \<Rightarrow> wf_state \<Rightarrow> wf_state \<Rightarrow> bool" where
  "stays_lawful plan now st st' \<longleftrightarrow> (lawful plan now st \<longrightarrow> lawful plan now st')"

interpretation lawfulness: step_effects "stays_lawful plan now" for plan now
  by unfold_locales (auto simp: stays_lawful_def)

section \<open>The gate a run waits at\<close>

definition waits_at :: "wf_env \<Rightarrow> nat \<Rightarrow> nat \<Rightarrow> lrt \<Rightarrow> bool" where
  "waits_at env i g rt \<longleftrightarrow> i < length (wp_steps (we_plan env)) \<and> waits_on rt g
     \<and> gs_afterStep (gate_at rt g) = step_id (wp_steps (we_plan env) ! i)"

fun in_plan :: "wf_env \<Rightarrow> phase \<Rightarrow> bool" where
  "in_plan env (In_step i p) \<longleftrightarrow> i < length (wp_steps (we_plan env))"
| "in_plan env _ = True"

definition attended :: "lifecycle_plan \<Rightarrow> (nat \<Rightarrow> string option) \<Rightarrow> wf_env \<Rightarrow> config \<Rightarrow> bool" where
  "attended plan now env c \<longleftrightarrow> lawful plan now (snd c) \<and> in_plan env (fst c)
     \<and> (\<forall>i g v. fst c = At_gate i g v \<longrightarrow> lc_holds (waits_at env i g) (snd c))"

lemma nth_update_if: "j < length xs \<Longrightarrow> xs[i := x] ! j = (if i = j then x else xs ! j)"
  by simp

lemma waits_at_signals [simp]:
  "waits_at env i g rt \<Longrightarrow> waits_at env i g (requestCancel r rt)"
  "waits_at env i g rt \<Longrightarrow> waits_at env i g (submitReview cmd rt)"
proof -
  assume w: "waits_at env i g rt"
  show "waits_at env i g (requestCancel r rt)"
    using w by (simp add: waits_at_def waits_on_def gate_at_def requestCancel_def record_event_def Let_def)
  show "waits_at env i g (submitReview cmd rt)"
    using w by (auto simp: waits_at_def waits_on_def gate_at_def submitReview_def mark_invalid_def record_event_def
        Let_def nth_update_if split: option.splits prod.splits)
qed

lemma attended_terminal: "lawful plan now st \<Longrightarrow> lawful plan now (terminal_event e s st)"
  by (simp add: terminal_event_def)

lemma attended_pop: "lawful plan now st \<Longrightarrow> attended plan now env (pop_compensation env e failed st)"
  by (simp add: attended_def pop_compensation_def attended_terminal Let_def)

lemma attended_unwind: "lawful plan now st \<Longrightarrow> attended plan now env (unwind env e st)"
  by (simp add: unwind_def attended_pop) (simp add: attended_def attended_terminal)

lemma attended_after_step:
  assumes "lawful plan now st" "i < length (wp_steps (we_plan env))"
  shows "attended plan now env (after_step_value env i v st)"
proof -
  let ?s = "wp_steps (we_plan env) ! i"
  obtain r st1 where c: "complete_step ?s v st = (r, st1)" by (cases "complete_step ?s v st")
  have l: "lawful plan now st1" using lawfulness.complete_step_effect [OF c] assms(1) by (simp add: stays_lawful_def)
  show ?thesis
  proof (cases r)
    case (Inl e)
    with c l show ?thesis by (simp add: after_step_value_def Let_def attended_unwind)
  next
    case (Inr u)
    show ?thesis
    proof (cases "Option.bind (ws_lifecycle st1) (\<lambda>rt. pendingGateAfter rt (step_id ?s))")
      case None
      with c Inr l show ?thesis by (simp add: after_step_value_def Let_def attended_def)
    next
      case (Some g)
      then obtain rt where rt: "ws_lifecycle st1 = Some rt" "pendingGateAfter rt (step_id ?s) = Some g"
        by (auto simp: bind_eq_Some_conv)
      then have g: "g < length (lr_gates rt)" "gs_afterStep (lr_gates rt ! g) = step_id ?s"
        by (auto simp: pendingGateAfter_def gatesByAfterStep_def dest!: gate_index_by_Some split: option.splits if_splits)
      have "lawful plan now (on_lifecycle (waitingForGate g) st1)"
        by (rule lawful_apply [OF l]) (use rt in \<open>auto intro!: exI [of _ "Do_open (step_id ?s)"]\<close>)
      moreover have "waits_at env i g (waitingForGate g rt)"
        using g assms(2) by (simp add: waits_at_def waits_on_def gate_at_def waitingForGate_def record_event_def Let_def)
      ultimately show ?thesis using c Inr Some rt by (simp add: after_step_value_def Let_def attended_def lc_holds_def)
    qed
  qed
qed

lemma attended_step_result:
  assumes "lawful plan now (snd r)" "i < length (wp_steps (we_plan env))"
  shows "attended plan now env (step_result env i r)"
  using assms by (auto simp: step_result_def attended_unwind attended_after_step split: prod.splits sum.splits)
    (simp add: attended_def)

section \<open>Every event keeps it\<close>

lemma attended_forward: "lawful plan now st \<Longrightarrow> in_plan env ph \<Longrightarrow> (\<And>i g v. ph \<noteq> At_gate i g v) \<Longrightarrow> attended plan now env (ph, st)"
  by (simp add: attended_def)

lemma attended_at_gate: "lawful plan now st \<Longrightarrow> lc_holds (waits_at env i g) st \<Longrightarrow> attended plan now env (At_gate i g v, st)"
  by (simp add: attended_def)

lemma attended_run_step:
  assumes "lawful plan now st"
  shows "attended plan now env (run_step env i v st)"
proof -
  let ?s = "wp_steps (we_plan env) ! i" and ?st = "on_lifecycle (stepStarted (step_id (wp_steps (we_plan env) ! i))) st"
  have "stays_lawful plan now ?st (snd (start_step env ?s v ?st))"
    by (cases "start_step env ?s v ?st") (simp add: lawfulness.start_effects(3))
  then have "lawful plan now (snd (start_step env ?s v ?st))" using assms by (simp add: stays_lawful_def)
  then have "i < length (wp_steps (we_plan env)) \<Longrightarrow> attended plan now env (step_result env i (start_step env ?s v ?st))"
    by (rule attended_step_result)
  moreover have "attended plan now env (finish_run v st')" if "lawful plan now st'" for st'
    using that by (simp add: finish_run_def attended_def)
  ultimately show ?thesis using assms
    by (auto simp: run_step_def Let_def attended_unwind skip_step_def split: sum.splits bool.splits)
qed

lemma attended_follow_route:
  "lawful plan now st \<Longrightarrow> attended plan now env (follow_route env i v target st)"
  by (auto simp: follow_route_def attended_unwind attended_forward split: option.splits)

lemma attended_poll:
  assumes "lc_reachable plan now rt" "ws_lifecycle st = Some rt" "waits_at env i g rt"
  shows "attended plan now env (poll_gate env i g v rt st)"
proof -
  have l: "lawful plan now st" using assms(1,2) by (simp add: lawful_def lc_holds_def)
  have "lc_reachable plan now (lc_apply (Do_route g) rt)" by (rule lc_reachable.step [OF assms(1)])
  then have "lc_reachable plan now (snd (gateRouted g rt))" using assms(3) by (simp add: waits_at_def)
  moreover have "attended plan now env (At_gate i g v, st)" using l assms(2,3) by (simp add: attended_def lc_holds_def)
  ultimately show ?thesis using l
    by (cases "gateRouted g rt") (simp add: poll_gate_def attended_unwind attended_follow_route)
qed

lemma attended_expire:
  assumes "lc_reachable plan now rt" "ws_lifecycle st = Some rt" "waits_at env i g rt"
  shows "attended plan now env (expire_gate env i g v rt st)"
proof -
  have l: "lawful plan now st" using assms(1,2) by (simp add: lawful_def lc_holds_def)
  have "lc_reachable plan now (lc_apply (Do_timeout g) rt)" by (rule lc_reachable.step [OF assms(1)])
  then have "lc_reachable plan now (snd (gateTimedOut g rt))" using assms(3) by (simp add: waits_at_def)
  moreover have "attended plan now env (At_gate i g v, st)" using l assms(2,3) by (simp add: attended_def lc_holds_def)
  ultimately show ?thesis using l
    by (cases "gateTimedOut g rt")
       (simp add: expire_gate_def attended_unwind attended_follow_route Let_def split: timeout_outcome.split)
qed

lemma attended_event:
  assumes "attended plan now env (ph, st)"
  shows "attended plan now env (workflow_event env ev (ph, st))"
proof -
  have l: "lawful plan now st" using assms by (simp add: attended_def)
  have deliver: "i < length (wp_steps (we_plan env)) \<Longrightarrow>
      attended plan now env (step_result env i (deliver env False path ans p st))" for i path ans p
  proof (rule attended_step_result)
    have "stays_lawful plan now st (snd (deliver env False path ans p st))"
      by (cases "deliver env False path ans p st") (simp add: lawfulness.deliver_effect)
    then show "lawful plan now (snd (deliver env False path ans p st))" using l by (simp add: stays_lawful_def)
  qed
  have answer: "attended plan now env (workflow_event env (Answer path ans) (Unwinding e failed entry, st))"
    if "ph = Unwinding e failed entry" for path ans e failed entry
    using that l assms by (cases path) (auto simp: answer_compensation_def attended_pop split: sum.splits)
  have reach: "ws_lifecycle st = Some rt \<Longrightarrow> lc_reachable plan now rt" for rt
    using l by (simp add: lawful_def lc_holds_def)
  show ?thesis
  proof (cases ph)
    case (At_gate i g v)
    then have w: "lc_holds (waits_at env i g) st" using assms by (simp add: attended_def)
    then have signals: "lc_holds (\<lambda>rt. waits_at env i g (requestCancel r rt)) st"
      "lc_holds (\<lambda>rt. waits_at env i g (submitReview c rt)) st" for r c by (simp_all add: lc_holds_def)
    have "ws_lifecycle st = Some rt \<Longrightarrow> waits_at env i g rt" for rt using w by (simp add: lc_holds_def)
    then show ?thesis using At_gate assms l reach signals
      by (cases ev) (auto simp: attended_poll attended_expire signal_phase_def Let_def attended_at_gate split: option.splits)
  next
    case (Unwinding e failed entry)
    with assms l answer show ?thesis
      by (cases ev) (auto simp: signal_phase_def Let_def attended_def)
  qed (cases ev; use assms l deliver in
        \<open>auto simp: attended_run_step signal_phase_def Let_def attended_forward attended_def [of _ _ _ "(In_step _ _, _)"]\<close>)+
qed

lemma attended_run: "attended plan now env c \<Longrightarrow> attended plan now env (run_events env evs c)"
proof (induction evs arbitrary: c)
  case (Cons ev evs)
  obtain ph st where "c = (ph, st)" by (cases c)
  with Cons show ?case by (simp add: attended_event del: workflow_event.simps)
qed simp

lemma attended_start:
  assumes "wp_lifecycle (we_plan env) = Some plan"
  shows "attended plan now env (typefluxYamlWorkflow env raw keys now input)"
proof -
  let ?rt = "new_LifecycleRuntime plan now"
  have "lc_reachable plan now (lc_apply Do_started (lc_apply (Do_add n) ?rt))" for n
    by (intro lc_reachable.step lc_reachable.initial)
  then have "lawful plan now (initial_state env now input)"
    using assms by (simp add: initial_state_def lawful_def lc_holds_def Let_def)
  then show ?thesis
    by (simp add: typefluxYamlWorkflow_def Let_def attended_forward) (simp add: attended_def lawful_def lc_holds_def)
qed

end
