(* ===== verification/Plan_Build.thy ===== *)
theory Plan_Build
  imports Review_Routes Plan_Guard
begin

text \<open>
  Plan derivation of \<open>packages/typescript/yaml/src/build-workflow.ts\<close>: from a parsed spec to the
  plan the interpreter runs. Step ids, sub-workflow reference tables and the identity memo are
  passed along explicitly. Child plans are derived by recursion on fuel, one unit per nesting of
  sub-workflow references; \<open>buildWorkflowPlan_fuel\<close> of \<open>Plan_Fuel\<close> bounds what is needed.
\<close>

section \<open>Gates, compensations, durations\<close>

definition planWhenLeaf :: "when_leaf_spec \<Rightarrow> (build_error, plan_when_leaf) result" where
  "planWhenLeaf l =
     (let mk = (\<lambda>op v. Inr \<lparr>leaf_path = wl_path l, leaf_op = op, leaf_value = v\<rparr>) in
      case wl_eq l of Some v \<Rightarrow> mk Op_eq v | None \<Rightarrow>
      (case wl_neq l of Some v \<Rightarrow> mk Op_neq v | None \<Rightarrow>
      (case wl_lt l of Some v \<Rightarrow> mk Op_lt v | None \<Rightarrow>
      (case wl_lte l of Some v \<Rightarrow> mk Op_lte v | None \<Rightarrow>
      (case wl_gt l of Some v \<Rightarrow> mk Op_gt v | None \<Rightarrow>
      (case wl_gte l of Some v \<Rightarrow> mk Op_gte v | None \<Rightarrow>
      (case wl_in l of Some vs \<Rightarrow> mk Op_in (JArr vs) | None \<Rightarrow>
      (case wl_exists l of Some b \<Rightarrow> mk Op_exists (JBool b) | None \<Rightarrow>
         Inl (When_no_operator (wl_path l))))))))))"

fun planWhenFromSpec :: "when_spec \<Rightarrow> (build_error, plan_when) result" where
  "planWhenFromSpec (WhenPredicate p) = Inl When_predicate_unsupported"
| "planWhenFromSpec (WhenAll ls) =
     rbind (traverse planWhenLeaf ls) (\<lambda>ps. Inr \<lparr>when_mode = Mode_all, predicates = ps\<rparr>)"
| "planWhenFromSpec (WhenAny ls) =
     rbind (traverse planWhenLeaf ls) (\<lambda>ps. Inr \<lparr>when_mode = Mode_any, predicates = ps\<rparr>)"
| "planWhenFromSpec (WhenLeaf l) =
     rbind (planWhenLeaf l) (\<lambda>p. Inr \<lparr>when_mode = Mode_leaf, predicates = [p]\<rparr>)"

definition opt_result :: "('a \<Rightarrow> ('e, 'b) result) \<Rightarrow> 'a option \<Rightarrow> ('e, 'b option) result" where
  "opt_result f x = (case x of None \<Rightarrow> Inr None | Some v \<Rightarrow> rbind (f v) (\<lambda>y. Inr (Some y)))"

text \<open>
  \<open>secondsToMs\<close>: rounded to whole milliseconds, at least one, and refused where the product
  is too large for a double. The bound is where a double rounds to infinity.
\<close>

definition max_double_bound :: rat where
  "max_double_bound = 2 ^ 1024 - 2 ^ 970"

definition secondsToMs :: "rat \<Rightarrow> string \<Rightarrow> (build_error, nat) result" where
  "secondsToMs seconds label =
     (if max_double_bound \<le> seconds * 1000 then Inl (Duration_too_large label)
      else Inr (max 1 (nat \<lfloor>seconds * 1000 + 1 / 2\<rfloor>)))"

definition retryPolicyPlanFrom :: "activity_retry_spec \<Rightarrow> string \<Rightarrow> (build_error, retry_policy_plan) result" where
  "retryPolicyPlanFrom r label =
     rbind (secondsToMs (initial_interval_seconds r) (label @ ''.initial_interval_seconds'')) (\<lambda>ini.
     rbind (opt_result (\<lambda>s. secondsToMs s (label @ ''.maximum_interval_seconds''))
              (maximum_interval_seconds r)) (\<lambda>mx.
     Inr \<lparr>maximumAttempts = maximum_attempts r, initialIntervalMs = ini, maximumIntervalMs = mx,
          backoffCoefficient = backoff_coefficient r\<rparr>))"

definition compensatePlanFromSpec ::
    "workflow_compensate_spec \<Rightarrow> string \<Rightarrow> (build_error, compensate_plan) result" where
  "compensatePlanFromSpec c stepId =
     rbind (opt_result (\<lambda>r. retryPolicyPlanFrom r (stepId @ '' compensate.retry'')) (wc_retry c)) (\<lambda>r.
     Inr \<lparr>comp_activity = wc_activity c, comp_inputFrom = wc_input_from c, comp_retry = r\<rparr>)"

section \<open>Steps\<close>

record build_state =
  bs_seen :: "string list"
  bs_refs :: ref_table
  bs_cache :: "(string \<times> child_identity) list"

definition RESERVED_STEP_ID :: string where
  "RESERVED_STEP_ID = ''input''"

definition registerStepId :: "string \<Rightarrow> build_state \<Rightarrow> (build_error, build_state) result" where
  "registerStepId i st =
     (if i = RESERVED_STEP_ID then Inl (Reserved_step_id i)
      else if i \<in> set (bs_seen st) then Inl (Duplicate_step_id i)
      else Inr (st\<lparr>bs_seen := i # bs_seen st\<rparr>))"

type_synonym identity_cache = "(string \<times> child_identity) list"

type_synonym child_builder =
  "yaml_spec \<Rightarrow> subworkflow_resolver option \<Rightarrow> string list \<Rightarrow> identity_cache \<Rightarrow>
   (build_error, workflow_plan \<times> identity_cache) result"

text \<open>
  \<open>resolveSubworkflowIdentity\<close>; \<open>digest\<close> stands for \<open>workflowPlanDigest\<close> (a SHA-256 of the
  canonical plan), \<open>build_child\<close> for the recursive derivation.
\<close>

definition resolveSubworkflowIdentity ::
    "(workflow_plan \<Rightarrow> string) \<Rightarrow> child_builder \<Rightarrow> subworkflow_resolver option \<Rightarrow> string list \<Rightarrow>
     string \<Rightarrow> string \<Rightarrow> identity_cache \<Rightarrow> (build_error, child_identity \<times> identity_cache) result" where
  "resolveSubworkflowIdentity digest build_child res visiting ref stepId cache =
     (case res of
        None \<Rightarrow> Inl (Standalone_reference stepId ref)
      | Some r \<Rightarrow>
          if ref \<in> set visiting then Inl (Reference_cycle (visiting @ [ref]))
          else case map_of cache ref of
            Some ci \<Rightarrow> Inr (ci, cache)
          | None \<Rightarrow>
              (case specFor r ref of
                 Inl msg \<Rightarrow> Inl (Reference_failed stepId ref msg)
               | Inr None \<Rightarrow> Inl (Reference_undeclared stepId ref)
               | Inr (Some childSpec) \<Rightarrow>
                   rbind (build_child childSpec (Some \<lparr>selfId = Some ref, specFor = specFor r\<rparr>)
                            (visiting @ [ref]) cache) (\<lambda>(childPlan, cache').
                   let ci = ChildIdentity ref (wf_name (sp_workflow_spec childSpec)) (sp_project childSpec)
                              (digest childPlan) (wf_version (sp_workflow_spec childSpec)) childPlan
                   in Inr (ci, (ref, ci) # cache'))))"

record step_env =
  se_spec :: yaml_spec
  se_resolver :: "subworkflow_resolver option"
  se_identity :: "string \<Rightarrow> string \<Rightarrow> identity_cache \<Rightarrow> (build_error, child_identity \<times> identity_cache) result"

definition resolve_identity ::
    "step_env \<Rightarrow> string \<Rightarrow> string \<Rightarrow> build_state \<Rightarrow> (build_error, child_identity \<times> build_state) result" where
  "resolve_identity env ref stepId st =
     rbind (se_identity env ref stepId (bs_cache st)) (\<lambda>(ci, cache). Inr (ci, st\<lparr>bs_cache := cache\<rparr>))"

text \<open>The reference table entry of a plain \<open>workflow:\<close> step.\<close>

definition record_refs ::
    "step_env \<Rightarrow> string \<Rightarrow> string \<Rightarrow> build_state \<Rightarrow> (build_error, build_state) result" where
  "record_refs env ref stepId st =
     rbind (resolver_lookup (se_resolver env) ref) (\<lambda>cs.
     Inr (case cs of None \<Rightarrow> st
          | Some childSpec \<Rightarrow> st\<lparr>bs_refs := (stepId, (wf_input (sp_workflow_spec childSpec),
              wf_output (sp_workflow_spec childSpec))) # bs_refs st\<rparr>))"

definition map_config_of :: "workflow_map_spec \<Rightarrow> map_config" where
  "map_config_of m =
     \<lparr>map_over = wm_over m, map_concurrency = wm_concurrency m,
      map_collectField = map_option collect_field (wm_collect m),
      map_collectMaxBytes =
        (case wm_collect m of None \<Rightarrow> None
         | Some c \<Rightarrow> if collect_max_bytes c > 0 then Some (collect_max_bytes c) else None)\<rparr>"

definition session_cache_of :: "yaml_spec \<Rightarrow> string \<Rightarrow> session_cache_plan option" where
  "session_cache_of spec act =
     (case find (\<lambda>d. def_name d = act) (definitions_of spec) of
        None \<Rightarrow> None
      | Some d \<Rightarrow> (case def_cache d of
          None \<Rightarrow> None
        | Some c \<Rightarrow> if sc_enabled c
            then Some \<lparr>cache_enabled = True, cache_ttlSeconds = sc_ttl_seconds c\<rparr> else None))"

definition kinds_count :: "workflow_step_spec \<Rightarrow> nat" where
  "kinds_count s =
     (if sp_activity s \<noteq> None then 1 else 0) + (if sp_map s \<noteq> None then 1 else 0)
     + (if sp_parallel s \<noteq> None then 1 else 0) + (if sp_workflow s \<noteq> None then 1 else 0)"

definition string_or_undefined :: "string option \<Rightarrow> string" where
  "string_or_undefined x = (case x of Some s \<Rightarrow> s | None \<Rightarrow> ''undefined'')"

text \<open>The checks of a step before its arm: id, kind, gate and compensation.\<close>

definition step_prelude ::
    "workflow_step_spec \<Rightarrow> build_state \<Rightarrow>
     (build_error, plan_when option \<times> compensate_plan option \<times> build_state) result" where
  "step_prelude s st =
     rbind (registerStepId (sp_id s) st) (\<lambda>st.
     rbind (require (kinds_count s = 1) (Not_exactly_one_kind (sp_id s))) (\<lambda>_.
     rbind (opt_result planWhenFromSpec (sp_when s)) (\<lambda>w.
     rbind (opt_result (\<lambda>c. compensatePlanFromSpec c (sp_id s)) (sp_compensate s)) (\<lambda>c.
     rbind (require (\<not> (c \<noteq> None \<and> sp_parallel s \<noteq> None)) (Parallel_compensate (sp_id s))) (\<lambda>_.
     rbind (require (\<not> (c \<noteq> None \<and> Option.bind (sp_map s) wm_workflow \<noteq> None))
              (Map_workflow_compensate (sp_id s))) (\<lambda>_.
     Inr (w, c, st)))))))"

fun planStepsFromSpec ::
    "step_env \<Rightarrow> nat \<Rightarrow> workflow_step_spec list \<Rightarrow> build_state \<Rightarrow>
     (build_error, plan_step list \<times> build_state) result"
  and plan_branches ::
    "step_env \<Rightarrow> nat \<Rightarrow> workflow_parallel_branch_spec list \<Rightarrow> build_state \<Rightarrow>
     (build_error, plan_branch list \<times> build_state) result"
  and plan_step_of ::
    "step_env \<Rightarrow> nat \<Rightarrow> workflow_step_spec \<Rightarrow> plan_when option \<Rightarrow> compensate_plan option \<Rightarrow>
     build_state \<Rightarrow> (build_error, plan_step \<times> build_state) result" where
  "planStepsFromSpec env depth [] st = Inr ([], st)"
| "planStepsFromSpec env depth (s # ss) st =
     rbind (step_prelude s st) (\<lambda>(w, c, st).
     rbind (plan_step_of env depth s w c st) (\<lambda>(p, st).
     rbind (planStepsFromSpec env depth ss st) (\<lambda>(ps, st).
     Inr (p # ps, st))))"
| "plan_branches env depth [] st = Inr ([], st)"
| "plan_branches env depth (BranchSpec bid w ss # bs) st =
     rbind (registerStepId bid st) (\<lambda>st.
     rbind (opt_result planWhenFromSpec w) (\<lambda>pw.
     rbind (planStepsFromSpec env depth ss st) (\<lambda>(ps, st).
     rbind (plan_branches env depth bs st) (\<lambda>(pbs, st).
     Inr (PlanBranch bid pw ps # pbs, st)))))"
| "plan_step_of env depth (StepSpec i act mp par _ wfl _) w c st =
     (case wfl of
        Some ref \<Rightarrow>
          rbind (resolve_identity env ref i st) (\<lambda>(ci, st).
          rbind (record_refs env ref i st) (\<lambda>st.
          Inr (SubworkflowStep i ci w c, st)))
      | None \<Rightarrow> (case mp of
        Some m \<Rightarrow>
          (case wm_workflow m of
             Some ref \<Rightarrow>
               rbind (resolve_identity env ref i st) (\<lambda>(ci, st).
               Inr (SubworkflowMapStep i ci (map_config_of m) w, st))
           | None \<Rightarrow>
               (let a = string_or_undefined (wm_activity m) in
                Inr (MapStep i a (map_config_of m) (session_cache_of (se_spec env) a) w c, st)))
      | None \<Rightarrow> (case par of
        Some (ParallelSpec bs out mb) \<Rightarrow>
          rbind (require (depth + 1 \<le> MAX_PARALLEL_NESTING_DEPTH) (Nested_too_deep i)) (\<lambda>_.
          rbind (plan_branches env (depth + 1) bs st) (\<lambda>(pbs, st).
          Inr (ParallelStep i pbs (if mb > 0 then Some mb else None) w, st)))
      | None \<Rightarrow> Inr (ActivityStep i (string_or_undefined act) w c, st))))"

section \<open>Activity options\<close>

definition compensation_name :: "compensate_plan option \<Rightarrow> string list" where
  "compensation_name c = (case c of None \<Rightarrow> [] | Some x \<Rightarrow> [comp_activity x])"

fun referencedActivities :: "plan_step list \<Rightarrow> string list"
  and referenced_in_branches :: "plan_branch list \<Rightarrow> string list" where
  "referencedActivities [] = []"
| "referencedActivities (ParallelStep i bs mb w # ss) = referenced_in_branches bs @ referencedActivities ss"
| "referencedActivities (ActivityStep i a w c # ss) = a # compensation_name c @ referencedActivities ss"
| "referencedActivities (MapStep i a m sc w c # ss) = a # compensation_name c @ referencedActivities ss"
| "referencedActivities (SubworkflowStep i ci w c # ss) = compensation_name c @ referencedActivities ss"
| "referencedActivities (SubworkflowMapStep i ci m w # ss) = referencedActivities ss"
| "referenced_in_branches [] = []"
| "referenced_in_branches (PlanBranch bid w ss # bs) = referencedActivities ss @ referenced_in_branches bs"

definition options_entry :: "activity_definition_spec \<Rightarrow> (build_error, activity_timeout_options) result" where
  "options_entry d =
     rbind (opt_result (\<lambda>s. secondsToMs s (def_name d @ '' start_to_close_timeout_seconds''))
              (def_start_to_close_timeout_seconds d)) (\<lambda>stc.
     rbind (opt_result (\<lambda>s. secondsToMs s (def_name d @ '' heartbeat_timeout_seconds''))
              (def_heartbeat_timeout_seconds d)) (\<lambda>hb.
     rbind (opt_result (\<lambda>r. retryPolicyPlanFrom r (def_name d @ '' retry'')) (def_retry d)) (\<lambda>rt.
     Inr \<lparr>startToCloseTimeoutMs = stc, heartbeatTimeoutMs = hb, ato_retry = rt\<rparr>)))"

fun activity_options_loop ::
    "activity_definition_spec list \<Rightarrow> string list \<Rightarrow> (string \<times> activity_timeout_options) list \<Rightarrow>
     (build_error, (string \<times> activity_timeout_options) list) result" where
  "activity_options_loop [] referenced acc = Inr acc"
| "activity_options_loop (d # ds) referenced acc =
     (if def_name d \<notin> set referenced then activity_options_loop ds referenced acc
      else rbind (options_entry d) (\<lambda>entry.
        activity_options_loop ds referenced
          (if startToCloseTimeoutMs entry \<noteq> None \<or> heartbeatTimeoutMs entry \<noteq> None \<or> ato_retry entry \<noteq> None
           then obj_put (def_name d) entry acc else acc)))"

definition activityOptionsFromSpec ::
    "yaml_spec \<Rightarrow> string list \<Rightarrow> (build_error, (string \<times> activity_timeout_options) list option) result" where
  "activityOptionsFromSpec spec referenced =
     rbind (activity_options_loop (definitions_of spec) referenced []) (\<lambda>options.
     Inr (if options = [] then None else Some options))"

section \<open>The plan\<close>

definition gate_plan_of ::
    "yaml_spec \<Rightarrow> plan_step list \<Rightarrow> ref_table \<Rightarrow> lifecycle_gate_spec \<Rightarrow> (build_error, gate_plan) result" where
  "gate_plan_of spec steps refs g =
     rbind (reviewPlanFromSpec spec g steps refs (GL_gate (lg_id g))) (\<lambda>r.
     Inr (review_plan.extend r \<lparr>gate_id = lg_id g\<rparr>))"

definition lifecycle_plan_of ::
    "workflow_lifecycle_spec option \<Rightarrow> review_plan option \<Rightarrow> gate_plan list option \<Rightarrow> lifecycle_plan option" where
  "lifecycle_plan_of lc rv gs =
     (case lc of None \<Rightarrow> None
      | Some l \<Rightarrow> if wl_enabled l
          then Some \<lparr>progress = wl_progress l, cancellation = wl_cancellation l,
                     statusEventLimit = wl_status_event_limit l, review = rv, gates = gs\<rparr>
          else None)"

definition derive_plan ::
    "(workflow_plan \<Rightarrow> string) \<Rightarrow> child_builder \<Rightarrow> yaml_spec \<Rightarrow> subworkflow_resolver option \<Rightarrow>
     string list \<Rightarrow> identity_cache \<Rightarrow> (build_error, workflow_plan \<times> identity_cache) result" where
  "derive_plan digest build_child spec res visiting cache =
     (let wf = sp_workflow_spec spec;
          env = \<lparr>se_spec = spec, se_resolver = res,
                 se_identity = resolveSubworkflowIdentity digest build_child res visiting\<rparr> in
      rbind (planStepsFromSpec env 0 (wf_steps wf) \<lparr>bs_seen = [], bs_refs = [], bs_cache = cache\<rparr>) (\<lambda>(steps, st).
      rbind (validateWhenPaths steps [RESERVED_STEP_ID]) (\<lambda>_.
      rbind (workflowCompensationError spec res) (\<lambda>_.
      rbind (activityOptionsFromSpec spec (referencedActivities steps)) (\<lambda>options.
      rbind (opt_result (\<lambda>rv. reviewPlanFromSpec spec rv steps (bs_refs st) GL_review)
               (Option.bind (wf_lifecycle_spec wf) wl_review)) (\<lambda>rv.
      rbind (opt_result (traverse (gate_plan_of spec steps (bs_refs st)))
               (Option.bind (wf_lifecycle_spec wf) wl_gates)) (\<lambda>gs.
      rbind (opt_result (\<lambda>r. retryPolicyPlanFrom r ''runtime.activity_retry'') (sp_activity_retry spec)) (\<lambda>rp.
      Inr (WorkflowPlan steps (lifecycle_plan_of (wf_lifecycle_spec wf) rv gs) options rp,
           bs_cache st)))))))))"

fun buildWorkflowPlan ::
    "(workflow_plan \<Rightarrow> string) \<Rightarrow> nat \<Rightarrow> yaml_spec \<Rightarrow> subworkflow_resolver option \<Rightarrow>
     string list \<Rightarrow> identity_cache \<Rightarrow> (build_error, workflow_plan \<times> identity_cache) result" where
  "buildWorkflowPlan digest 0 spec res visiting cache = Inl Out_of_fuel"
| "buildWorkflowPlan digest (Suc n) spec res visiting cache =
     derive_plan digest (buildWorkflowPlan digest n) spec res visiting cache"

definition workflowPlanFromSpec ::
    "(workflow_plan \<Rightarrow> string) \<Rightarrow> nat \<Rightarrow> yaml_spec \<Rightarrow> subworkflow_resolver option \<Rightarrow>
     (build_error, workflow_plan) result" where
  "workflowPlanFromSpec digest fuel spec res =
     rbind (buildWorkflowPlan digest fuel spec res
              (case Option.bind res selfId of None \<Rightarrow> [] | Some i \<Rightarrow> [i]) []) (\<lambda>(p, _). Inr p)"

end
