(* ===== verification/Plan_Derivation.thy ===== *)
theory Plan_Derivation
  imports Plan_Build
begin

text \<open>
  The step derivation of \<open>build-workflow.ts\<close> as a big-step relation, one rule per arm that
  returns: \<open>derives_steps\<close> holds exactly of the successful runs of \<open>planStepsFromSpec\<close>. Facts
  about derived plans are proved by rule induction over it.
\<close>

lemma registerStepId_Inr:
  "registerStepId i st = Inr st' \<longleftrightarrow>
     i \<noteq> ''input'' \<and> i \<notin> set (bs_seen st) \<and> st' = st\<lparr>bs_seen := i # bs_seen st\<rparr>"
  by (auto simp: registerStepId_def RESERVED_STEP_ID_def)

lemma opt_result_Inr:
  "opt_result f x = Inr y \<longleftrightarrow>
     (case x of None \<Rightarrow> y = None | Some v \<Rightarrow> (\<exists>u. f v = Inr u \<and> y = Some u))"
  by (cases x) (auto simp: opt_result_def rbind_eq_Inr)

lemma step_prelude_Inr:
  assumes "step_prelude s st = Inr (w, c, st')"
  shows "registerStepId (sp_id s) st = Inr st'" "kinds_count s = 1"
    "opt_result planWhenFromSpec (sp_when s) = Inr w"
    "opt_result (\<lambda>c. compensatePlanFromSpec c (sp_id s)) (sp_compensate s) = Inr c"
    "c \<noteq> None \<Longrightarrow> sp_parallel s = None"
    "c \<noteq> None \<Longrightarrow> Option.bind (sp_map s) wm_workflow = None"
  using assms by (auto simp: step_prelude_def rbind_eq_Inr require_eq_Inr)

inductive derives_steps ::
    "step_env \<Rightarrow> nat \<Rightarrow> workflow_step_spec list \<Rightarrow> build_state \<Rightarrow> plan_step list \<Rightarrow> build_state \<Rightarrow> bool"
  and derives_branches ::
    "step_env \<Rightarrow> nat \<Rightarrow> workflow_parallel_branch_spec list \<Rightarrow> build_state \<Rightarrow> plan_branch list \<Rightarrow>
     build_state \<Rightarrow> bool"
  and derives_step ::
    "step_env \<Rightarrow> nat \<Rightarrow> workflow_step_spec \<Rightarrow> plan_when option \<Rightarrow> compensate_plan option \<Rightarrow>
     build_state \<Rightarrow> plan_step \<Rightarrow> build_state \<Rightarrow> bool"
  for env :: step_env where
  steps_Nil: "derives_steps env depth [] st [] st"
| steps_Cons:
    "step_prelude s st = Inr (w, c, st1) \<Longrightarrow> derives_step env depth s w c st1 p st2 \<Longrightarrow>
     derives_steps env depth ss st2 ps st3 \<Longrightarrow> derives_steps env depth (s # ss) st (p # ps) st3"
| branches_Nil: "derives_branches env depth [] st [] st"
| branches_Cons:
    "registerStepId bid st = Inr st1 \<Longrightarrow> opt_result planWhenFromSpec w = Inr pw \<Longrightarrow>
     derives_steps env depth ss st1 ps st2 \<Longrightarrow> derives_branches env depth bs st2 pbs st3 \<Longrightarrow>
     derives_branches env depth (BranchSpec bid w ss # bs) st (PlanBranch bid pw ps # pbs) st3"
| step_workflow:
    "resolve_identity env ref i st = Inr (ci, st1) \<Longrightarrow> record_refs env ref i st1 = Inr st2 \<Longrightarrow>
     derives_step env depth (StepSpec i act mp par sw (Some ref) sc) w c st (SubworkflowStep i ci w c) st2"
| step_workflow_map:
    "wm_workflow m = Some ref \<Longrightarrow> resolve_identity env ref i st = Inr (ci, st1) \<Longrightarrow>
     derives_step env depth (StepSpec i act (Some m) par sw None sc) w c st
       (SubworkflowMapStep i ci (map_config_of m) w) st1"
| step_map:
    "wm_workflow m = None \<Longrightarrow>
     derives_step env depth (StepSpec i act (Some m) par sw None sc) w c st
       (MapStep i (string_or_undefined (wm_activity m)) (map_config_of m)
          (session_cache_of (se_spec env) (string_or_undefined (wm_activity m))) w c) st"
| step_parallel:
    "depth + 1 \<le> MAX_PARALLEL_NESTING_DEPTH \<Longrightarrow> derives_branches env (depth + 1) bs st pbs st1 \<Longrightarrow>
     derives_step env depth (StepSpec i act None (Some (ParallelSpec bs out mb)) sw None sc) w c st
       (ParallelStep i pbs (if mb > 0 then Some mb else None) w) st1"
| step_activity:
    "derives_step env depth (StepSpec i act None None sw None sc) w c st
       (ActivityStep i (string_or_undefined act) w c) st"

inductive_cases derives_steps_ConsE: "derives_steps env depth (s # ss) st ps st'"
inductive_cases derives_step_parallelE: "derives_step env depth s w c st (ParallelStep i bs mb w') st'"

lemma plan_step_of_cases:
  assumes "plan_step_of env depth (StepSpec i act mp par sw wfl sc) w c st = Inr (p, st')"
    and IH: "\<And>bs out mb pbs. wfl = None \<Longrightarrow> mp = None \<Longrightarrow> par = Some (ParallelSpec bs out mb) \<Longrightarrow>
      plan_branches env (depth + 1) bs st = Inr (pbs, st') \<Longrightarrow>
      derives_branches env (depth + 1) bs st pbs st'"
  shows "derives_step env depth (StepSpec i act mp par sw wfl sc) w c st p st'"
proof (cases wfl)
  case (Some ref)
  with assms(1) show ?thesis
    by (auto simp: rbind_eq_Inr intro: derives_steps_derives_branches_derives_step.intros)
next
  case no_wfl: None
  show ?thesis
  proof (cases mp)
    case (Some m)
    with no_wfl assms(1) show ?thesis
      by (auto simp: rbind_eq_Inr Let_def split: option.splits
          intro: derives_steps_derives_branches_derives_step.intros)
  next
    case no_mp: None
    show ?thesis
    proof (cases par)
      case None
      with no_wfl no_mp assms(1) show ?thesis
        by (auto intro: derives_steps_derives_branches_derives_step.intros)
    next
      case (Some ps)
      obtain bs out mb where "ps = ParallelSpec bs out mb" by (cases ps)
      with no_wfl no_mp Some assms(1) IH show ?thesis
        by (auto simp: rbind_eq_Inr require_eq_Inr intro!: step_parallel split del: if_split)
    qed
  qed
qed

lemma derives:
  "planStepsFromSpec env depth ss st = Inr (ps, st') \<Longrightarrow> derives_steps env depth ss st ps st'"
  "plan_branches env depth bs st = Inr (pbs, st') \<Longrightarrow> derives_branches env depth bs st pbs st'"
  "plan_step_of env depth s w c st = Inr (p, st') \<Longrightarrow> derives_step env depth s w c st p st'"
proof (induction env depth ss st and env depth bs st and env depth s w c st
    arbitrary: ps st' and pbs st' and p st'
    rule: planStepsFromSpec_plan_branches_plan_step_of.induct)
  case (1 env depth st)
  then show ?case by (auto intro: steps_Nil)
next
  case (2 env depth s ss st)
  from "2.prems" have "\<exists>w c st1 p st2 qs. step_prelude s st = Inr (w, c, st1)
      \<and> plan_step_of env depth s w c st1 = Inr (p, st2)
      \<and> planStepsFromSpec env depth ss st2 = Inr (qs, st') \<and> ps = p # qs"
    by (simp only: planStepsFromSpec.simps rbind_eq_Inr split_paired_Ex prod.case sum.inject prod.inject)
       (elim exE conjE, hypsubst, intro exI conjI, assumption+, rule refl)
  then obtain w c st1 p st2 qs where
    a: "step_prelude s st = Inr (w, c, st1)" "plan_step_of env depth s w c st1 = Inr (p, st2)"
      "planStepsFromSpec env depth ss st2 = Inr (qs, st')" "ps = p # qs" by blast
  show ?case unfolding a(4)
    by (rule steps_Cons [OF a(1)]) (rule "2.IH"; simp only: a)+
next
  case (3 env depth st)
  then show ?case by (auto intro: branches_Nil)
next
  case (4 env depth bid w ss bs st)
  from "4.prems" have "\<exists>st1 pw ps st2 qbs. registerStepId bid st = Inr st1
      \<and> opt_result planWhenFromSpec w = Inr pw \<and> planStepsFromSpec env depth ss st1 = Inr (ps, st2)
      \<and> plan_branches env depth bs st2 = Inr (qbs, st') \<and> pbs = PlanBranch bid pw ps # qbs"
    by (simp only: plan_branches.simps rbind_eq_Inr split_paired_Ex prod.case sum.inject prod.inject)
       (elim exE conjE, hypsubst, intro exI conjI, assumption+, rule refl)
  then obtain st1 pw ps st2 qbs where
    a: "registerStepId bid st = Inr st1" "opt_result planWhenFromSpec w = Inr pw"
      "planStepsFromSpec env depth ss st1 = Inr (ps, st2)"
      "plan_branches env depth bs st2 = Inr (qbs, st')" "pbs = PlanBranch bid pw ps # qbs" by blast
  show ?case unfolding a(5)
    by (rule branches_Cons [OF a(1,2)]) (rule "4.IH"; simp only: a)+
next
  case (5 env depth i act mp par sw wfl sc w c st)
  show ?case
  proof (rule plan_step_of_cases [OF "5.prems"])
    fix bs out mb pbs
    assume "wfl = None" "mp = None" "par = Some (ParallelSpec bs out mb)"
      and "plan_branches env (depth + 1) bs st = Inr (pbs, st')"
    with "5.IH" show "derives_branches env (depth + 1) bs st pbs st'" by blast
  qed
qed

end
