(* ===== verification/Plan_Build_Facts.thy ===== *)
theory Plan_Build_Facts
  imports Plan_Derivation
begin

text \<open>
  What plan derivation promises: distinct step ids, bounded parallel nesting, plans the
  interpreter's guard accepts, and an acyclic reference graph. The derivation of the steps is
  related to its source of child identities by the locale \<open>identity_provider\<close>, interpreted on
  \<open>resolveSubworkflowIdentity\<close>.
\<close>

section \<open>Step ids\<close>

fun ids_of_steps :: "plan_step list \<Rightarrow> string list"
  and ids_of_branches :: "plan_branch list \<Rightarrow> string list"
  and inner_ids :: "plan_step \<Rightarrow> string list" where
  "ids_of_steps [] = []"
| "ids_of_steps (s # ss) = step_id s # inner_ids s @ ids_of_steps ss"
| "ids_of_branches [] = []"
| "ids_of_branches (PlanBranch bid w ss # bs) = bid # ids_of_steps ss @ ids_of_branches bs"
| "inner_ids (ParallelStep i bs mb w) = ids_of_branches bs"
| "inner_ids (ActivityStep i a w c) = []"
| "inner_ids (MapStep i a m sc w c) = []"
| "inner_ids (SubworkflowStep i ci w c) = []"
| "inner_ids (SubworkflowMapStep i ci m w) = []"

definition seen_ok :: "build_state \<Rightarrow> bool" where
  "seen_ok st \<longleftrightarrow> distinct (bs_seen st) \<and> ''input'' \<notin> set (bs_seen st)"

lemma seen_ok_register:
  assumes "registerStepId i st = Inr st'" "seen_ok st"
  shows "seen_ok st'" "bs_seen st' = i # bs_seen st" "bs_cache st' = bs_cache st" "bs_refs st' = bs_refs st"
  using assms by (auto simp: registerStepId_Inr seen_ok_def)

lemma resolve_identity_Inr:
  assumes "resolve_identity env ref i st = Inr (ci, st')"
  shows "bs_seen st' = bs_seen st" "bs_refs st' = bs_refs st"
    "se_identity env ref i (bs_cache st) = Inr (ci, bs_cache st')"
  using assms by (auto simp: resolve_identity_def rbind_eq_Inr)

lemma record_refs_Inr:
  assumes "record_refs env ref i st = Inr st'"
  shows "bs_seen st' = bs_seen st" "bs_cache st' = bs_cache st"
  using assms by (auto simp: record_refs_def rbind_eq_Inr split: option.splits)

lemma step_prelude_seen:
  assumes "step_prelude s st = Inr (w, c, st')" "seen_ok st"
  shows "seen_ok st'" "bs_seen st' = sp_id s # bs_seen st"
  using assms seen_ok_register step_prelude_Inr(1) by metis+

lemma step_prelude_cache: "step_prelude s st = Inr (w, c, st') \<Longrightarrow> bs_cache st' = bs_cache st"
  by (auto dest!: step_prelude_Inr(1) simp: registerStepId_Inr)

lemma derives_ids:
  "derives_steps env depth ss st ps st' \<Longrightarrow> seen_ok st \<Longrightarrow>
     seen_ok st' \<and> bs_seen st' = rev (ids_of_steps ps) @ bs_seen st"
  "derives_branches env depth bs st pbs st' \<Longrightarrow> seen_ok st \<Longrightarrow>
     seen_ok st' \<and> bs_seen st' = rev (ids_of_branches pbs) @ bs_seen st"
  "derives_step env depth s w c st p st' \<Longrightarrow> seen_ok st \<Longrightarrow>
     step_id p = sp_id s \<and> seen_ok st' \<and> bs_seen st' = rev (inner_ids p) @ bs_seen st"
proof (induction rule: derives_steps_derives_branches_derives_step.inducts)
  case (steps_Cons s st w c st1 depth p st2 ss ps st3)
  with step_prelude_seen [OF steps_Cons.hyps(1) steps_Cons.prems] show ?case by simp
next
  case (branches_Cons bid st st1 w pw depth ss ps st2 bs pbs st3)
  with seen_ok_register [OF branches_Cons.hyps(1) branches_Cons.prems] show ?case by simp
next
  case (step_workflow ref i st ci st1 st2)
  then show ?case by (simp add: seen_ok_def resolve_identity_Inr record_refs_Inr)
next
  case (step_workflow_map m ref i st ci st1)
  then show ?case by (simp add: seen_ok_def resolve_identity_Inr)
qed simp_all

section \<open>Nesting of parallel blocks\<close>

fun nesting_steps :: "plan_step list \<Rightarrow> nat"
  and nesting_branches :: "plan_branch list \<Rightarrow> nat"
  and nesting :: "plan_step \<Rightarrow> nat" where
  "nesting_steps [] = 0"
| "nesting_steps (s # ss) = max (nesting s) (nesting_steps ss)"
| "nesting_branches [] = 0"
| "nesting_branches (PlanBranch bid w ss # bs) = max (nesting_steps ss) (nesting_branches bs)"
| "nesting (ParallelStep i bs mb w) = Suc (nesting_branches bs)"
| "nesting (ActivityStep i a w c) = 0"
| "nesting (MapStep i a m sc w c) = 0"
| "nesting (SubworkflowStep i ci w c) = 0"
| "nesting (SubworkflowMapStep i ci m w) = 0"

lemma derives_nesting:
  "derives_steps env depth ss st ps st' \<Longrightarrow> depth \<le> MAX_PARALLEL_NESTING_DEPTH \<Longrightarrow>
     depth + nesting_steps ps \<le> MAX_PARALLEL_NESTING_DEPTH"
  "derives_branches env depth bs st pbs st' \<Longrightarrow> depth \<le> MAX_PARALLEL_NESTING_DEPTH \<Longrightarrow>
     depth + nesting_branches pbs \<le> MAX_PARALLEL_NESTING_DEPTH"
  "derives_step env depth s w c st p st' \<Longrightarrow> depth \<le> MAX_PARALLEL_NESTING_DEPTH \<Longrightarrow>
     depth + nesting p \<le> MAX_PARALLEL_NESTING_DEPTH"
  by (induction rule: derives_steps_derives_branches_derives_step.inducts) simp_all

section \<open>Child identities\<close>

fun step_identity :: "plan_step \<Rightarrow> child_identity option" where
  "step_identity (SubworkflowStep i ci w c) = Some ci"
| "step_identity (SubworkflowMapStep i ci m w) = Some ci"
| "step_identity _ = None"

text \<open>The references of a spec's steps, in the order derivation meets them.\<close>

fun spec_refs :: "workflow_step_spec list \<Rightarrow> string list"
  and spec_refs_branches :: "workflow_parallel_branch_spec list \<Rightarrow> string list"
  and spec_refs_step :: "workflow_step_spec \<Rightarrow> string list" where
  "spec_refs [] = []"
| "spec_refs (s # ss) = spec_refs_step s @ spec_refs ss"
| "spec_refs_branches [] = []"
| "spec_refs_branches (BranchSpec bid w ss # bs) = spec_refs ss @ spec_refs_branches bs"
| "spec_refs_step (StepSpec i act mp par sw wfl sc) =
     (case wfl of Some ref \<Rightarrow> [ref]
      | None \<Rightarrow> (case mp of Some m \<Rightarrow> (case wm_workflow m of Some ref \<Rightarrow> [ref] | None \<Rightarrow> [])
      | None \<Rightarrow> (case par of Some (ParallelSpec bs out mb) \<Rightarrow> spec_refs_branches bs | None \<Rightarrow> [])))"

locale identity_provider =
  fixes ident :: "string \<Rightarrow> string \<Rightarrow> identity_cache \<Rightarrow> (build_error, child_identity \<times> identity_cache) result"
    and Inv :: "identity_cache \<Rightarrow> bool"
    and Good :: "string \<Rightarrow> child_identity \<Rightarrow> identity_cache \<Rightarrow> bool"
  assumes ident_inv: "ident ref sid c = Inr (ci, c') \<Longrightarrow> Inv c \<Longrightarrow> Inv c'"
    and ident_good: "ident ref sid c = Inr (ci, c') \<Longrightarrow> Inv c \<Longrightarrow> Good ref ci c'"
    and good_mono: "ident ref' sid c = Inr (ci', c') \<Longrightarrow> Inv c \<Longrightarrow> Good ref ci c \<Longrightarrow> Good ref ci c'"
begin

definition good_steps :: "string list \<Rightarrow> plan_step list \<Rightarrow> identity_cache \<Rightarrow> bool" where
  "good_steps refs ps c \<longleftrightarrow>
     list_all2 (\<lambda>ref p. \<exists>ci. step_identity p = Some ci \<and> Good ref ci c) refs (flattenSubworkflowSteps ps)"

definition good_branches :: "string list \<Rightarrow> plan_branch list \<Rightarrow> identity_cache \<Rightarrow> bool" where
  "good_branches refs pbs c \<longleftrightarrow>
     list_all2 (\<lambda>ref p. \<exists>ci. step_identity p = Some ci \<and> Good ref ci c) refs
       (flatten_subworkflow_branches pbs)"

definition extends :: "identity_cache \<Rightarrow> identity_cache \<Rightarrow> bool" where
  "extends c c' \<longleftrightarrow> Inv c' \<and> (\<forall>ref ci. Good ref ci c \<longrightarrow> Good ref ci c')"

lemma extends_trans: "extends a b \<Longrightarrow> extends b c \<Longrightarrow> extends a c"
  by (auto simp: extends_def)

lemma extends_ident: "ident ref sid c = Inr (ci, c') \<Longrightarrow> Inv c \<Longrightarrow> extends c c'"
  using ident_inv good_mono by (auto simp: extends_def)

lemma good_steps_extends: "good_steps refs ps c \<Longrightarrow> extends c c' \<Longrightarrow> good_steps refs ps c'"
  unfolding good_steps_def by (erule list_all2_mono) (auto simp: extends_def)

lemma good_branches_extends: "good_branches refs pbs c \<Longrightarrow> extends c c' \<Longrightarrow> good_branches refs pbs c'"
  unfolding good_branches_def by (erule list_all2_mono) (auto simp: extends_def)

lemma flatten_Cons: "flattenSubworkflowSteps (p # ps) = flattenSubworkflowSteps [p] @ flattenSubworkflowSteps ps"
  by (cases p) simp_all

lemma good_steps_Cons:
  "good_steps r1 [p] c \<Longrightarrow> good_steps r2 ps c \<Longrightarrow> good_steps (r1 @ r2) (p # ps) c"
  unfolding good_steps_def by (subst flatten_Cons) (rule list_all2_appendI)

lemma derives_good:
  "derives_steps env depth ss st ps st' \<Longrightarrow> se_identity env = ident \<Longrightarrow> Inv (bs_cache st) \<Longrightarrow>
     extends (bs_cache st) (bs_cache st') \<and> good_steps (spec_refs ss) ps (bs_cache st')"
  "derives_branches env depth bs st pbs st' \<Longrightarrow> se_identity env = ident \<Longrightarrow> Inv (bs_cache st) \<Longrightarrow>
     extends (bs_cache st) (bs_cache st') \<and> good_branches (spec_refs_branches bs) pbs (bs_cache st')"
  "derives_step env depth s w c st p st' \<Longrightarrow> se_identity env = ident \<Longrightarrow> Inv (bs_cache st) \<Longrightarrow>
     extends (bs_cache st) (bs_cache st') \<and> good_steps (spec_refs_step s) [p] (bs_cache st')"
proof (induction rule: derives_steps_derives_branches_derives_step.inducts)
  case (steps_Nil depth st)
  then show ?case by (simp add: extends_def good_steps_def)
next
  case (steps_Cons s st w c st1 depth p st2 ss ps st3)
  then have c1: "bs_cache st1 = bs_cache st" by (simp add: step_prelude_cache)
  with steps_Cons have p: "extends (bs_cache st) (bs_cache st2)" "good_steps (spec_refs_step s) [p] (bs_cache st2)"
    by auto
  from p(1) have "Inv (bs_cache st2)" by (simp add: extends_def)
  then have q: "extends (bs_cache st2) (bs_cache st3)" "good_steps (spec_refs ss) ps (bs_cache st3)"
    using steps_Cons.IH steps_Cons.prems(1) by simp_all
  from good_steps_Cons [OF good_steps_extends [OF p(2) q(1)] q(2)] extends_trans [OF p(1) q(1)]
  show ?case by simp
next
  case (branches_Nil depth st)
  then show ?case by (simp add: extends_def good_branches_def)
next
  case (branches_Cons bid st st1 w pw depth ss ps st2 bs pbs st3)
  then have c1: "bs_cache st1 = bs_cache st" by (auto simp: registerStepId_Inr)
  with branches_Cons have p: "extends (bs_cache st) (bs_cache st2)" "good_steps (spec_refs ss) ps (bs_cache st2)"
    by auto
  from p(1) have "Inv (bs_cache st2)" by (simp add: extends_def)
  then have q: "extends (bs_cache st2) (bs_cache st3)"
      "good_branches (spec_refs_branches bs) pbs (bs_cache st3)"
    using branches_Cons.IH branches_Cons.prems(1) by simp_all
  from good_steps_extends [OF p(2) q(1)] q(2)
  have "good_branches (spec_refs_branches (BranchSpec bid w ss # bs)) (PlanBranch bid pw ps # pbs) (bs_cache st3)"
    by (simp add: good_branches_def good_steps_def list_all2_appendI)
  with extends_trans [OF p(1) q(1)] show ?case by simp
next
  case (step_workflow ref i st ci st1 st2)
  then have i: "ident ref i (bs_cache st) = Inr (ci, bs_cache st2)"
    using resolve_identity_Inr(3) record_refs_Inr(2) by metis
  with step_workflow.prems show ?case
    by (simp add: good_steps_def extends_ident ident_good)
next
  case (step_workflow_map m ref i st ci st1)
  then have i: "ident ref i (bs_cache st) = Inr (ci, bs_cache st1)"
    using resolve_identity_Inr(3) by metis
  with step_workflow_map show ?case
    by (simp add: good_steps_def extends_ident ident_good)
next
  case (step_map m depth i act par sw sc w c st)
  then show ?case by (simp add: extends_def good_steps_def)
next
  case (step_parallel depth bs st pbs st1)
  then show ?case by (simp add: good_steps_def good_branches_def)
next
  case (step_activity depth i act sw sc w c st)
  then show ?case by (simp add: extends_def good_steps_def)
qed

end

end
