(* ===== verification/Plan_Fuel.thy ===== *)
theory Plan_Fuel
  imports Plan_Guarantees
begin

text \<open>
  How much fuel plan derivation needs: one unit per declared project workflow not yet on the
  reference path, and one for the workflow itself. The recursion of \<open>planStepsFromSpec\<close> through
  \<open>resolveSubworkflowIdentity\<close> always adds an id to the path, so a project with finitely many
  workflows is derived, or refused with an error of the code's own.
\<close>

named_theorems no_oof_intros \<open>results that are not the fuel error\<close>

definition no_oof :: "(build_error, 'a) result \<Rightarrow> bool" where
  "no_oof m \<longleftrightarrow> m \<noteq> Inl Out_of_fuel"

lemma no_oof_rbind [no_oof_intros]:
  "no_oof m \<Longrightarrow> (\<And>x. m = Inr x \<Longrightarrow> no_oof (f x)) \<Longrightarrow> no_oof (rbind m f)"
  by (cases m) (auto simp: no_oof_def)

lemma no_oof_Inr [no_oof_intros, simp]: "no_oof (Inr x)"
  by (simp add: no_oof_def)

lemma no_oof_Inl [simp]: "no_oof (Inl e) \<longleftrightarrow> e \<noteq> Out_of_fuel"
  by (simp add: no_oof_def)

lemma no_oof_require [no_oof_intros]: "e \<noteq> Out_of_fuel \<Longrightarrow> no_oof (require b e)"
  by (simp add: require_def)

lemma no_oof_each [no_oof_intros]: "(\<And>x. no_oof (f x)) \<Longrightarrow> no_oof (each f xs)"
  by (induction xs) (auto intro: no_oof_intros)

lemma no_oof_traverse [no_oof_intros]: "(\<And>x. no_oof (f x)) \<Longrightarrow> no_oof (traverse f xs)"
  by (induction xs) (auto intro!: no_oof_intros)

lemma no_oof_opt_result [no_oof_intros]: "(\<And>x. no_oof (f x)) \<Longrightarrow> no_oof (opt_result f y)"
  by (cases y) (auto simp: opt_result_def intro!: no_oof_intros)

lemma no_oof_if [no_oof_intros]: "(b \<Longrightarrow> no_oof x) \<Longrightarrow> (\<not> b \<Longrightarrow> no_oof y) \<Longrightarrow> no_oof (if b then x else y)"
  by simp

lemma no_oof_prod [no_oof_intros]: "(\<And>a b. p = (a, b) \<Longrightarrow> no_oof (f a b)) \<Longrightarrow> no_oof (case p of (a, b) \<Rightarrow> f a b)"
  by (cases p) simp

lemma no_oof_option [no_oof_intros]:
  "no_oof y \<Longrightarrow> (\<And>v. x = Some v \<Longrightarrow> no_oof (f v)) \<Longrightarrow> no_oof (case x of None \<Rightarrow> y | Some v \<Rightarrow> f v)"
  by (cases x) auto

section \<open>The checks and conversions\<close>

lemma no_oof_when [no_oof_intros]: "no_oof (planWhenFromSpec w)"
proof -
  have "no_oof (planWhenLeaf l)" for l
    by (simp add: planWhenLeaf_def Let_def split: option.splits)
  then show ?thesis by (cases w) (auto intro!: no_oof_intros)
qed

lemma no_oof_ms [no_oof_intros]: "no_oof (secondsToMs s l)"
  by (simp add: secondsToMs_def)

lemma no_oof_retry [no_oof_intros]: "no_oof (retryPolicyPlanFrom r l)"
  unfolding retryPolicyPlanFrom_def by (intro no_oof_intros)

lemma no_oof_compensate [no_oof_intros]: "no_oof (compensatePlanFromSpec c i)"
  unfolding compensatePlanFromSpec_def by (intro no_oof_intros)

lemma no_oof_register [no_oof_intros]: "no_oof (registerStepId i st)"
  by (simp add: registerStepId_def)

lemma no_oof_prelude [no_oof_intros]: "no_oof (step_prelude s st)"
  unfolding step_prelude_def by (intro no_oof_intros) simp_all

lemma no_oof_lookup [no_oof_intros]: "no_oof (resolver_lookup r ref)"
  by (simp add: resolver_lookup_def split: option.splits sum.splits)

lemma no_oof_options [no_oof_intros]: "no_oof (activityOptionsFromSpec spec ref)"
proof -
  have "no_oof (options_entry d)" for d
    unfolding options_entry_def by (intro no_oof_intros)
  then have "no_oof (activity_options_loop ds ref acc)" for ds acc
    by (induction ds ref acc rule: activity_options_loop.induct) (auto intro!: no_oof_intros)
  then show ?thesis unfolding activityOptionsFromSpec_def by (intro no_oof_intros)
qed

lemma no_oof_check_when [no_oof_intros]: "no_oof (check_when_roots roots label w)"
  unfolding check_when_roots_def by (intro no_oof_intros) simp

lemma no_oof_validate [no_oof_intros]:
  "no_oof (validateWhenPaths ss roots)" "no_oof (validate_branches bs roots)" "no_oof (validate_nested s roots)"
  by (induction ss roots and bs roots and s roots rule: validateWhenPaths_validate_branches_validate_nested.induct)
     (auto simp: branch_when_checks_def intro!: no_oof_intros)

lemma no_oof_child [no_oof_intros]: "no_oof (child_output_ref (resolver_lookup res) r)"
  unfolding child_output_ref_def by (intro no_oof_intros)

lemma no_oof_context_ref [no_oof_intros]: "no_oof (contextRefOf spec (resolver_lookup res) s)"
  by (simp add: contextRefOf_def no_oof_child split: option.splits workflow_parallel_spec.splits)

lemma no_oof_check_compensate [no_oof_intros]:
  "no_oof (checkCompensate spec (resolver_lookup res) s c av refs)"
proof -
  have "no_oof (compensate_type_check spec sid c r)" for sid r
    by (simp add: compensate_type_check_def)
  then show ?thesis
    by (auto simp: checkCompensate_def ownOutputRef_def Let_def intro!: no_oof_intros split: option.splits)
qed

lemma no_oof_walk [no_oof_intros]:
  "no_oof (compensate_walk spec (resolver_lookup res) ss roots refs)"
  "no_oof (compensate_walk_branches spec (resolver_lookup res) bs roots refs)"
proof (induction spec "resolver_lookup res" ss roots refs and spec "resolver_lookup res" bs roots refs
    rule: compensate_walk_compensate_walk_branches.induct)
  case (2 spec i act mp par w wfl cmp ss roots refById)
  then show ?case
    by (auto simp: Let_def intro!: no_oof_intros split: option.splits workflow_parallel_spec.splits)
qed (auto intro!: no_oof_intros)

lemma no_oof_compensation [no_oof_intros]: "no_oof (workflowCompensationError spec res)"
  by (simp add: workflowCompensationError_def no_oof_walk)

lemma no_oof_roots [no_oof_intros]:
  "no_oof (checkGateRoots env w roots label)" "no_oof (checkCompensateRoots env s roots)"
  "no_oof (check_map_root env s roots)"
  unfolding checkGateRoots_def checkCompensateRoots_def check_map_root_def Let_def
  by (intro no_oof_intros; simp)+

lemma no_oof_tail [no_oof_intros]:
  "no_oof (checkBranchTail env is_first ref roots bid ss)"
  "no_oof (check_tail_branches env ref roots bs)" "no_oof (check_tail_nested env ref roots s)"
  by (induction env is_first ref roots bid ss and env ref roots bs and env ref roots s
      rule: checkBranchTail_check_tail_branches_check_tail_nested.induct)
     (auto intro!: no_oof_intros)

lemma no_oof_check_tail [no_oof_intros]: "no_oof (check_tail env ref roots ss)"
  by (induction env ref roots ss rule: check_tail.induct) (auto simp: Let_def intro!: no_oof_intros)

lemma no_oof_review [no_oof_intros]: "no_oof (reviewPlanFromSpec spec rv steps refs label)"
proof -
  have "no_oof (checkRoute env steps a n r)" for env a n r
    unfolding checkRoute_def Let_def by (intro no_oof_intros; simp)
  then show ?thesis unfolding reviewPlanFromSpec_def Let_def
    by (auto intro!: no_oof_intros)
qed

lemma no_oof_gate [no_oof_intros]: "no_oof (gate_plan_of spec steps refs g)"
  unfolding gate_plan_of_def by (intro no_oof_intros)

section \<open>Steps and plans\<close>

lemma no_oof_record_refs [no_oof_intros]: "no_oof (record_refs env ref i st)"
  unfolding record_refs_def by (intro no_oof_intros)

lemma no_oof_identity:
  "(\<And>ref sid c. no_oof (se_identity env ref sid c)) \<Longrightarrow> no_oof (resolve_identity env ref i st)"
  unfolding resolve_identity_def by (intro no_oof_intros) simp

lemma no_oof_steps:
  assumes "\<And>ref sid c. no_oof (se_identity env ref sid c)"
  shows "no_oof (planStepsFromSpec env depth ss st)" "no_oof (plan_branches env depth bs st)"
    "no_oof (plan_step_of env depth s w c st)"
  using assms
proof (induction env depth ss st and env depth bs st and env depth s w c st
    rule: planStepsFromSpec_plan_branches_plan_step_of.induct)
  case (5 env depth i act mp par sw wfl sc w c st)
  then show ?case
    by (auto simp: Let_def split: option.splits workflow_parallel_spec.splits
        intro!: no_oof_intros no_oof_identity split del: if_split)
qed (auto intro!: no_oof_intros)

lemma no_oof_derive:
  assumes "\<And>ref sid c. no_oof (resolveSubworkflowIdentity digest build res vis ref sid c)"
  shows "no_oof (derive_plan digest build spec res vis cache)"
  unfolding derive_plan_def Let_def by (intro no_oof_intros no_oof_steps) (simp add: assms)

definition declared_ids :: "subworkflow_resolver \<Rightarrow> string set" where
  "declared_ids r = {ref. \<exists>s. specFor r ref = Inr (Some s)}"

lemma buildWorkflowPlan_fuel:
  "finite (declared_ids r) \<Longrightarrow> card (declared_ids r - set vis) < n \<Longrightarrow>
   no_oof (buildWorkflowPlan digest n spec (Some r) vis cache)"
proof (induction n arbitrary: r vis spec cache)
  case (Suc n)
  have "no_oof (resolveSubworkflowIdentity digest (buildWorkflowPlan digest n) (Some r) vis ref sid c)" for ref sid c
  proof -
    have "no_oof (buildWorkflowPlan digest n s (Some \<lparr>selfId = Some ref, specFor = specFor r\<rparr>) (vis @ [ref]) c)"
      if s: "specFor r ref = Inr (Some s)" and new: "ref \<notin> set vis" for s
    proof -
      let ?r = "\<lparr>selfId = Some ref, specFor = specFor r\<rparr>"
      have D: "declared_ids ?r = declared_ids r" by (simp add: declared_ids_def)
      have "declared_ids r - set (vis @ [ref]) \<subset> declared_ids r - set vis"
        using s new by (auto simp: declared_ids_def)
      with Suc.prems have "card (declared_ids ?r - set (vis @ [ref])) < n"
        unfolding D by (meson finite_Diff less_Suc_eq_le order_less_le_trans psubset_card_mono)
      with Suc.IH [of ?r "vis @ [ref]"] Suc.prems(1) D show ?thesis by simp
    qed
    then show ?thesis unfolding resolveSubworkflowIdentity_def
      by (auto simp: Let_def intro!: no_oof_intros split: option.splits sum.splits)
  qed
  then show ?case by (simp add: no_oof_derive)
qed simp

lemma buildWorkflowPlan_standalone_fuel:
  "0 < n \<Longrightarrow> no_oof (buildWorkflowPlan digest n spec None vis cache)"
proof (induction n)
  case (Suc n)
  show ?case
    by (simp, rule no_oof_derive) (simp add: resolveSubworkflowIdentity_def)
qed simp

end
