(* ===== verification/Plan_Claims.thy ===== *)
theory Plan_Claims
  imports Plan_Fuel
begin

text \<open>
  The promises of plan derivation (\<open>packages/typescript/yaml/src/build-workflow.ts\<close>) as
  properties of \<open>workflowPlanFromSpec\<close>, with the demonstration project their witnesses run on: a
  workflow \<open>main\<close> that calls the sibling \<open>child\<close> after a parallel block.
\<close>

interpretation closed_refs: identity_provider
  "resolveSubworkflowIdentity digest (buildWorkflowPlan digest n) res visiting" "res_closed res" recorded
  for digest n res visiting
  by (rule closed_provider [OF buildWorkflowPlan_closed])

interpretation child_plans: identity_provider
  "resolveSubworkflowIdentity digest (buildWorkflowPlan digest n) res visiting" "cache_wf res" "good_wf res"
  for digest n res visiting
  by (rule wf_provider [OF buildWorkflowPlan_wf])

section \<open>From a whole derivation to its parts\<close>

lemma workflowPlanE:
  assumes "workflowPlanFromSpec digest fuel spec res = Inr p"
  obtains n steps st rv gs opts rp where
    "planStepsFromSpec \<lparr>se_spec = spec, se_resolver = res,
        se_identity = resolveSubworkflowIdentity digest (buildWorkflowPlan digest n) res
          (case Option.bind res selfId of None \<Rightarrow> [] | Some i \<Rightarrow> [i])\<rparr> 0
      (wf_steps (sp_workflow_spec spec)) \<lparr>bs_seen = [], bs_refs = [], bs_cache = []\<rparr> = Inr (steps, st)"
    "validateWhenPaths steps [''input''] = Inr ()"
    "activityOptionsFromSpec spec (referencedActivities steps) = Inr opts"
    "opt_result (\<lambda>rv. reviewPlanFromSpec spec rv steps (bs_refs st) GL_review)
       (Option.bind (wf_lifecycle_spec (sp_workflow_spec spec)) wl_review) = Inr rv"
    "opt_result (traverse (gate_plan_of spec steps (bs_refs st)))
       (Option.bind (wf_lifecycle_spec (sp_workflow_spec spec)) wl_gates) = Inr gs"
    "p = WorkflowPlan steps (lifecycle_plan_of (wf_lifecycle_spec (sp_workflow_spec spec)) rv gs) opts rp"
proof -
  from assms obtain c where b: "buildWorkflowPlan digest fuel spec res
      (case Option.bind res selfId of None \<Rightarrow> [] | Some i \<Rightarrow> [i]) [] = Inr (p, c)"
    by (auto simp: workflowPlanFromSpec_def rbind_eq_Inr)
  then obtain n where "fuel = Suc n" by (cases fuel) auto
  with b show thesis by (auto elim!: derive_planE intro: that)
qed

section \<open>The demonstration project\<close>

definition demo_step :: "string \<Rightarrow> string \<Rightarrow> workflow_step_spec" where
  "demo_step i a = StepSpec i (Some a) None None None None None"

definition demo_gate :: lifecycle_gate_spec where
  "demo_gate = \<lparr>after_step = ''draft'', user_decisions = [(''approve'', ''publish''), (''redo'', ''call'')],
     invalid_user_decision = Invalid_warn, review_timeout = None, lg_id = ''g''\<rparr>"

definition demo_workflow :: "string \<Rightarrow> workflow_step_spec list \<Rightarrow> lifecycle_gate_spec list option \<Rightarrow> yaml_spec" where
  "demo_workflow name steps gs =
     \<lparr>sp_project = ''demo'',
      sp_definitions = Some [\<lparr>def_name = ''work'', def_input = ''T'', def_output = ''T'',
        def_start_to_close_timeout_seconds = None, def_heartbeat_timeout_seconds = None,
        def_retry = None, def_cache = None\<rparr>],
      sp_activity_retry = None,
      sp_workflow_spec = \<lparr>wf_name = name, wf_input = ''T'', wf_output = Some ''T'', wf_steps = steps,
        wf_version = None,
        wf_lifecycle_spec = Some \<lparr>wl_enabled = True, wl_progress = True, wl_cancellation = True,
          wl_status_event_limit = 50, wl_review = None, wl_gates = gs\<rparr>\<rparr>\<rparr>"

definition demo_child :: yaml_spec where
  "demo_child = demo_workflow ''child'' [demo_step ''only'' ''work''] None"

definition demo_main :: yaml_spec where
  "demo_main = demo_workflow ''main''
     [demo_step ''draft'' ''work'',
      StepSpec ''both'' None None
        (Some (ParallelSpec [BranchSpec ''left'' None [demo_step ''l1'' ''work''],
                             BranchSpec ''right'' None [demo_step ''r1'' ''work'']] ''T'' 0))
        (Some (WhenLeaf \<lparr>wl_path = ''draft.ok'', wl_eq = Some (JBool True), wl_neq = None, wl_lt = None,
           wl_lte = None, wl_gt = None, wl_gte = None, wl_in = None, wl_exists = None\<rparr>)) None None,
      StepSpec ''call'' None None None None (Some ''child'') None,
      demo_step ''publish'' ''work''] (Some [demo_gate])"

definition demo_resolver :: subworkflow_resolver where
  "demo_resolver = \<lparr>selfId = Some ''main'',
     specFor = (\<lambda>ref. if ref = ''main'' then Inr (Some demo_main)
                      else if ref = ''child'' then Inr (Some demo_child) else Inr None)\<rparr>"

definition demo_plan :: workflow_plan where
  "demo_plan = (case workflowPlanFromSpec (\<lambda>_. ''digest'') 3 demo_main (Some demo_resolver) of
     Inr p \<Rightarrow> p | Inl _ \<Rightarrow> WorkflowPlan [] None None None)"

lemma rbind_weak_cong: "m = m' \<Longrightarrow> rbind m f = rbind m' f"
  by simp

lemmas derivation_defs =
  workflowPlanFromSpec_def derive_plan_def resolveSubworkflowIdentity_def resolve_identity_def
  record_refs_def resolver_lookup_def step_prelude_def registerStepId_def RESERVED_STEP_ID_def
  kinds_count_def opt_result_def planWhenLeaf_def compensatePlanFromSpec_def map_config_of_def
  session_cache_of_def MAX_PARALLEL_NESTING_DEPTH_def require_def string_or_undefined_def
  check_when_roots_def branch_when_checks_def path_root_def workflowCompensationError_def
  activityOptionsFromSpec_def options_entry_def compensation_name_def definitions_of_def
  gate_plan_of_def reviewPlanFromSpec_def stepIndexes_def checkRoute_def checkGateRoots_def
  checkCompensateRoots_def check_map_root_def known_mismatch_def timeout_route_of_def
  inputRef_of_def outputRef_of_def obj_put_def index_key_def lifecycle_plan_of_def review_plan.defs

lemmas demo_defs =
  demo_step_def demo_gate_def demo_workflow_def demo_child_def demo_main_def demo_resolver_def

lemma demo_plan_ok: "workflowPlanFromSpec (\<lambda>_. ''digest'') 3 demo_main (Some demo_resolver) = Inr demo_plan"
proof -
  have "\<exists>p. workflowPlanFromSpec (\<lambda>_. ''digest'') 3 demo_main (Some demo_resolver) = Inr p"
    by (simp add: derivation_defs demo_defs numeral_3_eq_3 Let_def cong: rbind_weak_cong)
  then show ?thesis by (auto simp: demo_plan_def)
qed

section \<open>Properties\<close>

text \<open>C7: A plan that derivation returns is a plan the interpreter runs: for a spec (and project) that
  satisfies the schema minima, the plan object passes the plan-shape guard, at every depth of
  embedded child plans.\<close>

theorem derived_plan_passes_guard:
  assumes "workflowPlanFromSpec digest fuel spec res = Inr p" "wf_yaml_spec spec" "wf_resolver res"
  shows "planUnsupportedReason (Some (enc_plan p)) = None"
proof -
  from assms(1) obtain c where "buildWorkflowPlan digest fuel spec res
      (case Option.bind res selfId of None \<Rightarrow> [] | Some i \<Rightarrow> [i]) [] = Inr (p, c)"
    by (auto simp: workflowPlanFromSpec_def rbind_eq_Inr)
  with buildWorkflowPlan_wf [of digest fuel] assms(2,3) have "wf_plan p"
    unfolding builder_wf_def by fastforce
  then show ?thesis by (rule enc_accepted)
qed

lemma demo_wf: "wf_yaml_spec demo_main" "wf_yaml_spec demo_child" "wf_resolver (Some demo_resolver)"
  by (auto simp: wf_resolver_def wf_yaml_spec_def demo_defs wf_opt_def wf_when_spec_def split: if_splits)

lemma demo_accepted: "planUnsupportedReason (Some (enc_plan demo_plan)) = None"
proof -
  obtain c where "buildWorkflowPlan (\<lambda>_. ''digest'') 3 demo_main (Some demo_resolver) [''main''] [] = Inr (demo_plan, c)"
    using demo_plan_ok by (auto simp: workflowPlanFromSpec_def rbind_eq_Inr demo_resolver_def)
  with buildWorkflowPlan_wf [of "\<lambda>_. ''digest''" 3] demo_wf have "wf_plan demo_plan"
    unfolding builder_wf_def by fastforce
  then show ?thesis by (rule enc_accepted)
qed

lemma derived_plan_passes_guard_witness:
  "planUnsupportedReason (Some (enc_plan demo_plan)) = None"
  by (rule derived_plan_passes_guard [OF demo_plan_ok demo_wf(1,3)])

lemma plan_ids_distinct:
  assumes "workflowPlanFromSpec digest fuel spec res = Inr p"
  shows "distinct (ids_of_steps (wp_steps p)) \<and> ''input'' \<notin> set (ids_of_steps (wp_steps p))"
  using assms
proof (rule workflowPlanE)
  fix n steps st rv gs opts rp
  assume d: "planStepsFromSpec \<lparr>se_spec = spec, se_resolver = res,
        se_identity = resolveSubworkflowIdentity digest (buildWorkflowPlan digest n) res
          (case Option.bind res selfId of None \<Rightarrow> [] | Some i \<Rightarrow> [i])\<rparr> 0
      (wf_steps (sp_workflow_spec spec)) \<lparr>bs_seen = [], bs_refs = [], bs_cache = []\<rparr> = Inr (steps, st)"
    and p: "p = WorkflowPlan steps (lifecycle_plan_of (wf_lifecycle_spec (sp_workflow_spec spec)) rv gs) opts rp"
  from derives_ids(1) [OF derives(1) [OF d]] show ?thesis
    by (simp add: p seen_ok_def) (metis distinct_rev set_rev)
qed

text \<open>Every step and branch of a derived plan, at any nesting of parallel blocks, has an id of its own,
  and none is the reserved id \<open>input\<close>: the results recorded by id never overwrite each other or the
  workflow input.\<close>

theorem derived_ids_distinct:
  assumes "workflowPlanFromSpec digest fuel spec res = Inr p"
  shows "distinct (ids_of_steps (wp_steps p)) \<and> ''input'' \<notin> set (ids_of_steps (wp_steps p))"
  by (rule plan_ids_distinct [OF assms])

lemma derived_ids_distinct_witness:
  "distinct (ids_of_steps (wp_steps demo_plan)) \<and> ''input'' \<notin> set (ids_of_steps (wp_steps demo_plan))"
  by (rule derived_ids_distinct [OF demo_plan_ok])

text \<open>Parallel blocks in a derived plan nest at most three deep.\<close>

theorem derived_nesting_bounded:
  assumes "workflowPlanFromSpec digest fuel spec res = Inr p"
  shows "nesting_steps (wp_steps p) \<le> MAX_PARALLEL_NESTING_DEPTH"
  using assms
proof (rule workflowPlanE)
  fix n steps st rv gs opts rp
  assume d: "planStepsFromSpec \<lparr>se_spec = spec, se_resolver = res,
        se_identity = resolveSubworkflowIdentity digest (buildWorkflowPlan digest n) res
          (case Option.bind res selfId of None \<Rightarrow> [] | Some i \<Rightarrow> [i])\<rparr> 0
      (wf_steps (sp_workflow_spec spec)) \<lparr>bs_seen = [], bs_refs = [], bs_cache = []\<rparr> = Inr (steps, st)"
    and p: "p = WorkflowPlan steps (lifecycle_plan_of (wf_lifecycle_spec (sp_workflow_spec spec)) rv gs) opts rp"
  from derives_nesting(1) [OF derives(1) [OF d]] show ?thesis by (simp add: p)
qed

lemma derived_nesting_bounded_witness: "nesting_steps (wp_steps demo_plan) \<le> MAX_PARALLEL_NESTING_DEPTH"
  by (rule derived_nesting_bounded [OF demo_plan_ok])

text \<open>When a project workflow derives, no workflow it reaches through \<open>workflow:\<close> references (also through
  references answered from the identity memo, which skips the path check) refers back to itself.\<close>

theorem derived_references_acyclic:
  assumes "workflowPlanFromSpec digest fuel spec (Some r) = Inr p"
    and "a \<in> set (spec_refs (wf_steps (sp_workflow_spec spec)))" "(ref_edge (specFor r))\<^sup>*\<^sup>* a b"
  shows "\<not> (ref_edge (specFor r))\<^sup>+\<^sup>+ b b"
proof -
  from assms(1) obtain c where "buildWorkflowPlan digest fuel spec (Some r)
      (case selfId r of None \<Rightarrow> [] | Some i \<Rightarrow> [i]) [] = Inr (p, c)"
    by (auto simp: workflowPlanFromSpec_def rbind_eq_Inr)
  with buildWorkflowPlan_closed [of digest fuel]
  have "res_closed (Some r) c" "set (spec_refs (wf_steps (sp_workflow_spec spec))) \<subseteq> fst ` set c"
    unfolding builder_closed_def by (fastforce simp: res_closed_def)+
  with assms(2,3) closed_cache_acyclic [of "specFor r" c a b] show ?thesis
    by (auto simp: res_closed_def)
qed

lemma derived_references_acyclic_witness: "\<not> (ref_edge (specFor demo_resolver))\<^sup>+\<^sup>+ ''child'' ''child''"
  by (rule derived_references_acyclic [OF demo_plan_ok, of "''child''"])
     (auto simp: demo_main_def demo_workflow_def demo_step_def)

text \<open>Derivation always ends: for a project with finitely many declared workflows, as much fuel as
  there are workflows and one more is enough, whatever the references look like.\<close>

theorem derivation_terminates:
  assumes "finite (declared_ids r)" "card (declared_ids r) < fuel"
  shows "workflowPlanFromSpec digest fuel spec (Some r) \<noteq> Inl Out_of_fuel"
proof -
  let ?vis = "case Option.bind (Some r) selfId of None \<Rightarrow> [] | Some i \<Rightarrow> [i]"
  have "card (declared_ids r - set ?vis) < fuel"
    using assms by (meson card_mono Diff_subset order_le_less_trans)
  from buildWorkflowPlan_fuel [OF assms(1) this]
  show ?thesis by (auto simp: workflowPlanFromSpec_def no_oof_def rbind_eq_Inl)
qed

lemma derivation_terminates_witness:
  "workflowPlanFromSpec (\<lambda>_. ''digest'') 3 demo_main (Some demo_resolver) \<noteq> Inl Out_of_fuel"
proof -
  have d: "declared_ids demo_resolver = {''main'', ''child''}"
    by (auto simp: declared_ids_def demo_resolver_def)
  show ?thesis by (rule derivation_terminates) (simp_all add: d)
qed

definition routes_forward :: "plan_step list \<Rightarrow> 'a review_plan_scheme \<Rightarrow> bool" where
  "routes_forward steps r \<longleftrightarrow>
     (\<exists>i. stepIndexes steps (afterStep r) = Some i
       \<and> (\<forall>(d, t)\<in>set (userDecisions r). \<exists>j. stepIndexes steps t = Some j \<and> i < j)
       \<and> (\<forall>t. onTimeout r = Some Timeout_route \<longrightarrow> timeoutRoute r = Some t \<longrightarrow>
            (\<exists>j. stepIndexes steps t = Some j \<and> i < j)))"

lemma set_replace_key_pairs: "set (replace_key k v kvs) \<subseteq> insert (k, v) (set kvs)"
  by (induction k v kvs rule: replace_key.induct) auto

lemma set_insert_index_pairs: "set (insert_index n k v kvs) \<subseteq> insert (k, v) (set kvs)"
  by (induction n k v kvs rule: insert_index.induct) (auto split: option.splits)

lemma set_obj_put: "set (obj_put k v kvs) \<subseteq> insert (k, v) (set kvs)"
  using set_replace_key_pairs [of k v kvs] set_insert_index_pairs [of _ k v kvs]
  by (auto simp: obj_put_def split: option.splits if_splits)

lemma set_fold_obj_put: "set (fold (\<lambda>(d, r) acc. obj_put d r acc) ds acc) \<subseteq> set ds \<union> set acc"
proof (induction ds arbitrary: acc)
  case (Cons x ds)
  obtain d r where x: "x = (d, r)" by (cases x)
  show ?case using Cons.IH [of "obj_put d r acc"] set_obj_put [of d r acc] by (auto simp: x)
qed simp

lemma reviewPlan_forward:
  assumes "reviewPlanFromSpec spec rv steps refs label = Inr r"
  shows "routes_forward steps r"
proof -
  from assms obtain i where i: "stepIndexes steps (after_step rv) = Some i"
    "\<forall>x\<in>set (user_decisions rv). (case x of (d, t) \<Rightarrow> checkRoute \<lparr>re_spec = spec, re_refs = refs,
        re_gate = label, re_decision = Some d\<rparr> steps (after_step rv) i t) = Inr ()"
    "\<And>t. timeout_route_of rv = Some t \<Longrightarrow> checkRoute \<lparr>re_spec = spec, re_refs = refs,
        re_gate = label, re_decision = None\<rparr> steps (after_step rv) i t = Inr ()"
    "afterStep r = after_step rv"
    "userDecisions r = fold (\<lambda>(d, r) acc. obj_put d r acc) (user_decisions rv) []"
    "onTimeout r = map_option rt_on_timeout (review_timeout rv)"
    "timeoutRoute r = Option.bind (review_timeout rv) rt_route"
    by (auto simp: reviewPlanFromSpec_def rbind_eq_Inr each_eq_Inr split: option.splits)
  have "set (userDecisions r) \<subseteq> set (user_decisions rv)"
    using set_fold_obj_put [of "user_decisions rv" "[]"] by (simp add: i(5))
  moreover have "timeout_route_of rv = Some t"
    if "onTimeout r = Some Timeout_route" "timeoutRoute r = Some t" for t
    using that by (auto simp: timeout_route_of_def i(6,7) split: option.splits)
  ultimately show ?thesis
    using i(1,2,3,4) by (fastforce simp: routes_forward_def dest: checkRoute_forward)
qed

lemma plan_gates_forward:
  assumes "workflowPlanFromSpec digest fuel spec res = Inr p" "wp_lifecycle p = Some l"
  shows "(\<forall>r. review l = Some r \<longrightarrow> routes_forward (wp_steps p) r)
    \<and> (\<forall>gs g. gates l = Some gs \<longrightarrow> g \<in> set gs \<longrightarrow> routes_forward (wp_steps p) g)"
  using assms(1)
proof (rule workflowPlanE)
  fix n steps st rv gs opts rp
  assume rv: "opt_result (\<lambda>rv. reviewPlanFromSpec spec rv steps (bs_refs st) GL_review)
       (Option.bind (wf_lifecycle_spec (sp_workflow_spec spec)) wl_review) = Inr rv"
    and gs: "opt_result (traverse (gate_plan_of spec steps (bs_refs st)))
       (Option.bind (wf_lifecycle_spec (sp_workflow_spec spec)) wl_gates) = Inr gs"
    and p: "p = WorkflowPlan steps (lifecycle_plan_of (wf_lifecycle_spec (sp_workflow_spec spec)) rv gs) opts rp"
  from assms(2) p have l: "review l = rv" "gates l = gs"
    by (auto simp: lifecycle_plan_of_def split: option.splits if_splits)
  have "routes_forward steps r" if "rv = Some r" for r
    using rv that by (auto simp: opt_result_Inr intro: reviewPlan_forward split: option.splits)
  moreover have "routes_forward steps g" if "gs = Some gl" "g \<in> set gl" for g gl
  proof -
    from gs that obtain ss where "list_all2 (\<lambda>s g. gate_plan_of spec steps (bs_refs st) s = Inr g) ss gl"
      by (auto simp: opt_result_Inr traverse_eq_Inr split: option.splits)
    with that(2) obtain s where "gate_plan_of spec steps (bs_refs st) s = Inr g"
      by (auto dest: list_all2_member2)
    then obtain r where "reviewPlanFromSpec spec s steps (bs_refs st) (GL_gate (lg_id s)) = Inr r"
      "g = review_plan.extend r \<lparr>gate_id = lg_id s\<rparr>" by (auto simp: gate_plan_of_def rbind_eq_Inr)
    then show ?thesis using reviewPlan_forward by (fastforce simp: routes_forward_def review_plan.defs)
  qed
  ultimately show ?thesis by (simp add: p l)
qed

text \<open>Review gates only jump forward: a gate of a derived plan stands after one of the plan's steps,
  and every decision, and a timeout that routes, leads to a step later in the plan than that one.\<close>

theorem derived_routes_forward:
  assumes "workflowPlanFromSpec digest fuel spec res = Inr p" "wp_lifecycle p = Some l"
  shows "(\<forall>r. review l = Some r \<longrightarrow> routes_forward (wp_steps p) r)
    \<and> (\<forall>gs g. gates l = Some gs \<longrightarrow> g \<in> set gs \<longrightarrow> routes_forward (wp_steps p) g)"
  by (rule plan_gates_forward [OF assms])

lemma demo_lifecycle: "\<exists>l gs. wp_lifecycle demo_plan = Some l \<and> gates l = Some gs \<and> gs \<noteq> []"
  by (simp add: demo_plan_def derivation_defs demo_defs numeral_3_eq_3 Let_def cong: rbind_weak_cong)

lemma derived_routes_forward_witness:
  "\<exists>l g gs. wp_lifecycle demo_plan = Some l \<and> gates l = Some gs \<and> g \<in> set gs \<and> routes_forward (wp_steps demo_plan) g"
proof -
  from demo_lifecycle obtain l gs where l: "wp_lifecycle demo_plan = Some l" "gates l = Some gs" "gs \<noteq> []" by blast
  from l(3) have "hd gs \<in> set gs" by simp
  with derived_routes_forward [OF demo_plan_ok l(1)] l show ?thesis by blast
qed

text \<open>The plan guard leaves nothing unchecked at depth: in a plan value it accepts, every step at any
  depth, in branches and in embedded child plans, is of a kind the interpreter implements, has all
  the keys that kind needs, and has no key the interpreter does not know.\<close>

inductive step_in :: "jv \<Rightarrow> jv \<Rightarrow> bool" where
  plan_step: "map_of kvs ''steps'' = Some (JArr ss) \<Longrightarrow> s \<in> set ss \<Longrightarrow> step_in (JObj kvs) s"
| branch_step: "step_in v s \<Longrightarrow> string_field s ''kind'' = ''parallel'' \<Longrightarrow> field s ''branches'' = Some (JArr bs) \<Longrightarrow>
    b \<in> set bs \<Longrightarrow> field b ''steps'' = Some (JArr ss) \<Longrightarrow> s' \<in> set ss \<Longrightarrow> step_in v s'"
| embedded_step: "step_in v s \<Longrightarrow> string_field s ''kind'' \<in> {''subworkflow'', ''subworkflowMap''} \<Longrightarrow>
    field s ''plan'' = Some p \<Longrightarrow> step_in p s' \<Longrightarrow> step_in v s'"

lemma steps_accepted: "stepsUnsupportedReason (Some (JArr ss)) = None \<Longrightarrow> s \<in> set ss \<Longrightarrow> step_reason s = None"
  by (cases ss) (auto simp del: step_reason.simps)

lemma branches_accepted:
  "branches_reason label seen bs = None \<Longrightarrow> b \<in> set bs \<Longrightarrow> field b ''steps'' = Some ss \<Longrightarrow>
   stepsUnsupportedReason (Some ss) = None"
  by (induction bs arbitrary: seen) auto

lemma step_in_accepted:
  "step_in v s \<Longrightarrow> planUnsupportedReason (Some v) = None \<Longrightarrow> step_reason s = None"
proof (induction rule: step_in.induct)
  case (plan_step kvs ss s)
  then show ?case by (auto intro: steps_accepted simp del: stepsUnsupportedReason.simps step_reason.simps)
next
  case (branch_step v s bs b ss s')
  from branch_step.IH [OF branch_step.prems] have "step_reason s = None" .
  with branch_step.hyps have "branches_reason (step_label s) [] bs = None"
    by (cases bs) (simp_all add: step_reason.simps [of s] del: branches_reason.simps)
  from branches_accepted [OF this branch_step.hyps(4,5)] branch_step.hyps(6) show ?case by (rule steps_accepted)
next
  case (embedded_step v s p s')
  from embedded_step.IH(1) [OF embedded_step.prems] have "step_reason s = None" .
  with embedded_step.hyps have "planUnsupportedReason (Some p) = None"
    by (auto simp: step_reason.simps [of s])
  then show ?case by (rule embedded_step.IH(2))
qed

theorem guard_sound_at_depth:
  assumes "planUnsupportedReason (Some v) = None" "step_in v s"
  shows "\<exists>kind known. field s ''kind'' = Some (JStr kind) \<and> map_of KNOWN_STEP_KEYS kind = Some known
    \<and> fst ` set (obj_fields s) \<subseteq> set known \<and> (\<forall>k\<in>set (REQUIRED_STEP_KEYS kind). field s k \<noteq> None)"
proof -
  from step_in_accepted [OF assms(2,1)] have "step_shape_reason s = None"
    by (simp add: step_reason.simps [of s])
  then show ?thesis
    by (auto simp: step_shape_reason_def Let_def unknownKeysOf_Nil filter_empty_conv
        split: option.splits jv.splits)
qed

lemma plan_step_demo: "step_in (enc_plan demo_plan) (enc_step (hd (wp_steps demo_plan)))"
proof (cases demo_plan)
  case (WorkflowPlan ss lc ao rp)
  have "ss \<noteq> []"
    using demo_accepted by (cases ss) (auto simp: WorkflowPlan)
  then show ?thesis by (auto simp: WorkflowPlan intro!: step_in.plan_step)
qed

lemma guard_sound_at_depth_witness:
  "\<exists>kind known. field (enc_step (hd (wp_steps demo_plan))) ''kind'' = Some (JStr kind)
    \<and> map_of KNOWN_STEP_KEYS kind = Some known
    \<and> fst ` set (obj_fields (enc_step (hd (wp_steps demo_plan)))) \<subseteq> set known
    \<and> (\<forall>k\<in>set (REQUIRED_STEP_KEYS kind). field (enc_step (hd (wp_steps demo_plan))) k \<noteq> None)"
proof (rule guard_sound_at_depth)
  show accepted: "planUnsupportedReason (Some (enc_plan demo_plan)) = None"
    using demo_accepted .
  show "step_in (enc_plan demo_plan) (enc_step (hd (wp_steps demo_plan)))"
    by (rule plan_step_demo)
qed

end
