(* ===== verification/Run_Progress.thy ===== *)
theory Run_Progress
  imports Run_Lifecycle Plan_Claims
begin

text \<open>
  Progress through a plan whose gates route forward: a run takes the steps in order and never comes back
  to one it has left.
\<close>

section \<open>Gates of the running plan\<close>

lemma stepIndexes_nth:
  assumes "distinct (map step_id ss)" "i < length ss"
  shows "stepIndexes ss (step_id (ss ! i)) = Some i"
proof -
  have "stepIndexes ss (step_id (ss ! i)) \<noteq> None"
    using assms(2) by (auto simp: stepIndexes_def map_of_eq_None_iff set_zip intro!: image_eqI exI [of _ i])
  then obtain n where n: "stepIndexes ss (step_id (ss ! i)) = Some n" by blast
  with stepIndexes_Some [OF n] assms have "n = i" by (simp add: distinct_conv_nth) metis
  with n show ?thesis by simp
qed

lemma top_ids_subset: "step_id ` set ss \<subseteq> set (ids_of_steps ss)"
  by (induction ss) auto

lemma top_ids_distinct: "distinct (ids_of_steps ss) \<Longrightarrow> distinct (map step_id ss)"
proof (induction ss)
  case (Cons s ss)
  with top_ids_subset [of ss] show ?case by auto
qed simp

text \<open>The gates of the runtime, as the plan declared them, only name later steps.\<close>

definition gate_forward :: "plan_step list \<Rightarrow> gate_state \<Rightarrow> bool" where
  "gate_forward ss g \<longleftrightarrow> (\<forall>i. stepIndexes ss (gs_afterStep g) = Some i \<longrightarrow>
     (\<forall>t. t \<in> snd ` set (gs_userDecisions g) \<or> gs_onTimeout g = Some Timeout_route \<and> gs_timeoutRoute g = Some t \<longrightarrow>
        (\<exists>j. stepIndexes ss t = Some j \<and> i < j)))"

lemma gate_forward_build: "routes_forward ss src \<Longrightarrow> gate_forward ss (build_gate src i)"
  by (auto simp: gate_forward_def routes_forward_def build_gate_def)

definition forward_plan :: "plan_step list \<Rightarrow> lifecycle_plan \<Rightarrow> bool" where
  "forward_plan ss plan \<longleftrightarrow> distinct (map step_id ss) \<and> (\<forall>g\<in>set (gatesFromPlan plan). gate_forward ss g)"

lemma gate_forward_static: "gate_static a = gate_static b \<Longrightarrow> gate_forward ss a = gate_forward ss b"
  by (simp add: gate_static_def gate_forward_def)

lemma reachable_forward:
  assumes "forward_plan ss plan" "lc_reachable plan now rt" "g < length (lr_gates rt)"
  shows "gate_forward ss (lr_gates rt ! g)"
proof -
  note static = reachable_static [OF assms(2)]
  from arg_cong [OF static, of length] assms(3) have g: "g < length (gatesFromPlan plan)" by simp
  from arg_cong [OF static, of "\<lambda>xs. xs ! g"] assms(3) g
  have "gate_static (lr_gates rt ! g) = gate_static (gatesFromPlan plan ! g)" by simp
  from gate_forward_static [OF this] assms(1) g show ?thesis by (simp add: forward_plan_def)
qed

section \<open>Where a run is\<close>

text \<open>The turn of step \<open>i\<close>, then the step itself, then its gate.\<close>

fun rank :: "phase \<Rightarrow> nat option" where
  "rank (Ready i v) = Some (3 * i)"
| "rank (In_step i p) = Some (3 * i + 1)"
| "rank (At_gate i g v) = Some (3 * i + 2)"
| "rank _ = None"

definition not_before :: "nat \<Rightarrow> config \<Rightarrow> bool" where
  "not_before n c \<longleftrightarrow> (\<forall>m. rank (fst c) = Some m \<longrightarrow> n \<le> m)"

lemma not_before_unwind [simp]: "not_before n (unwind env e st)" "not_before n (finish_run v st)"
  by (simp_all add: not_before_def unwind_def pop_compensation_def finish_run_def Let_def)

lemma not_before_step_result: "n \<le> 3 * i + 1 \<Longrightarrow> not_before n (step_result env i r)"
  by (auto simp: step_result_def after_step_value_def Let_def split: prod.splits sum.splits option.splits)
     (simp_all add: not_before_def)

lemma not_before_run_step: "n \<le> 3 * i \<Longrightarrow> not_before n (run_step env i v st)"
  by (auto simp: run_step_def Let_def intro: not_before_step_result split: sum.splits bool.splits)

lemma not_before_follow:
  assumes "\<And>j. Option.bind target (stepIndexes (wp_steps (we_plan env))) = Some j \<Longrightarrow> n \<le> 3 * j"
  shows "not_before n (follow_route env i v target st)"
  using assms by (auto simp: follow_route_def split: option.splits) (simp add: not_before_def)

lemma routed_forward:
  assumes "forward_plan (wp_steps (we_plan env)) plan" "lc_reachable plan now rt" "waits_at env i g rt"
    and "t \<in> snd ` set (gs_userDecisions (gate_at rt g))
      \<or> gs_onTimeout (gate_at rt g) = Some Timeout_route \<and> gs_timeoutRoute (gate_at rt g) = Some t"
    and "stepIndexes (wp_steps (we_plan env)) t = Some j"
  shows "3 * i + 2 \<le> 3 * j"
proof -
  have i: "stepIndexes (wp_steps (we_plan env)) (gs_afterStep (gate_at rt g)) = Some i"
    using stepIndexes_nth assms(1,3) by (simp add: waits_at_def forward_plan_def)
  have "gate_forward (wp_steps (we_plan env)) (gate_at rt g)"
    using reachable_forward [OF assms(1,2)] assms(3) by (simp add: waits_at_def waits_on_def gate_at_def)
  with i assms(4,5) show ?thesis by (fastforce simp: gate_forward_def)
qed

lemma not_before_gate:
  assumes "forward_plan (wp_steps (we_plan env)) plan" "lc_reachable plan now rt" "waits_at env i g rt"
  shows "not_before (3 * i + 2) (poll_gate env i g v rt st)" "not_before (3 * i + 2) (expire_gate env i g v rt st)"
proof -
  have stay: "not_before (Suc (Suc (3 * i))) (At_gate i g v, st')" for st' by (simp add: not_before_def)
  have "fst (gateRouted g rt) = gs_routeTarget (gate_at rt g)"
    using assms(3) by (simp add: gateRouted_def Let_def gate_at_def close_gate_def waits_at_def waits_on_def update_gate_def)
  moreover have "gs_routeTarget (gate_at rt g) = Some t \<Longrightarrow> t \<in> snd ` set (gs_userDecisions (gate_at rt g))
      \<or> gs_onTimeout (gate_at rt g) = Some Timeout_route \<and> gs_timeoutRoute (gate_at rt g) = Some t" for t
    using reachable_routes_declared [OF assms(2)] assms(3)
    by (simp add: waits_at_def waits_on_def gate_at_def routes_declared_def)
  ultimately have "Option.bind (fst (gateRouted g rt)) (stepIndexes (wp_steps (we_plan env))) = Some j \<Longrightarrow> 3 * i + 2 \<le> 3 * j" for j
    using routed_forward [OF assms(1,2,3)] by (auto simp: bind_eq_Some_conv)
  then show "not_before (3 * i + 2) (poll_gate env i g v rt st)"
    by (cases "gateRouted g rt") (auto simp: poll_gate_def stay intro!: not_before_follow)
  have "fst (gateTimedOut g rt) = Act_route target \<Longrightarrow> target = Some t \<Longrightarrow>
      gs_onTimeout (gate_at rt g) = Some Timeout_route \<and> gs_timeoutRoute (gate_at rt g) = Some t" for target t
    using assms(3)
    by (auto simp: gateTimedOut_def Let_def gate_at_def close_gate_def waits_at_def waits_on_def update_gate_def
        recomputeCheckpoint_def split: option.splits on_timeout.splits)
  then have "fst (gateTimedOut g rt) = Act_route target \<Longrightarrow>
      Option.bind target (stepIndexes (wp_steps (we_plan env))) = Some j \<Longrightarrow> 3 * i + 2 \<le> 3 * j" for target j
    using routed_forward [OF assms(1,2,3)] by (auto simp: bind_eq_Some_conv)
  then show "not_before (3 * i + 2) (expire_gate env i g v rt st)"
    by (cases "gateTimedOut g rt")
       (auto simp: expire_gate_def stay Let_def intro!: not_before_follow split: timeout_outcome.splits)
qed

lemma not_before_event:
  assumes "forward_plan (wp_steps (we_plan env)) plan" "attended plan now env (ph, st)" "not_before n (ph, st)"
  shows "not_before n (workflow_event env ev (ph, st))"
proof (cases ph)
  case (Ready i v)
  then have "n \<le> 3 * i" using assms(3) by (simp add: not_before_def)
  from not_before_run_step [OF this] Ready assms(3) show ?thesis
    by (cases ev) (auto simp: signal_phase_def Let_def not_before_def [of _ "(Ready _ _, _)"])
next
  case (In_step i p)
  then have "n \<le> 3 * i + 1" using assms(3) by (simp add: not_before_def)
  from not_before_step_result [OF this] In_step assms(3) show ?thesis
    by (cases ev) (auto simp: signal_phase_def Let_def not_before_def [of _ "(In_step _ _, _)"])
next
  case (At_gate i g v)
  have gate: "not_before n (poll_gate env i g v rt st)" "not_before n (expire_gate env i g v rt st)"
    if "ws_lifecycle st = Some rt" for rt
  proof -
    have "lc_reachable plan now rt" "waits_at env i g rt"
      using assms(2) At_gate that by (simp_all add: attended_def lawful_def lc_holds_def)
    from not_before_gate [OF assms(1) this] show "not_before n (poll_gate env i g v rt st)"
      "not_before n (expire_gate env i g v rt st)"
      using assms(3) At_gate unfolding not_before_def by (fastforce)+
  qed
  show ?thesis using At_gate assms(3) gate
    by (cases ev) (auto simp: signal_phase_def Let_def not_before_def split: option.splits)
next
  case (Unwinding e failed entry)
  have "not_before n (pop_compensation env e f st')" for f st'
    by (simp add: not_before_def pop_compensation_def Let_def)
  then have "not_before n (workflow_event env (Answer path ans) (ph, st))" for path ans
    using Unwinding assms(3) by (cases path) (auto simp: answer_compensation_def split: sum.splits)
  then show ?thesis using Unwinding by (cases ev) (auto simp: signal_phase_def Let_def not_before_def)
next
  case (Finished r)
  with assms(3) show ?thesis by simp
qed

lemma not_before_run:
  assumes "forward_plan (wp_steps (we_plan env)) plan"
  shows "attended plan now env c \<Longrightarrow> not_before n c \<Longrightarrow> not_before n (run_events env evs c)"
proof (induction evs arbitrary: c)
  case (Cons ev evs)
  obtain ph st where "c = (ph, st)" by (cases c)
  with Cons not_before_event [OF assms] show ?case by (simp add: attended_event del: workflow_event.simps)
qed simp

section \<open>A derived plan\<close>

lemma derived_forward_plan:
  assumes "workflowPlanFromSpec digest fuel spec res = Inr p"
  obtains plan where "forward_plan (wp_steps p) plan" "\<And>l. wp_lifecycle p = Some l \<Longrightarrow> l = plan"
proof (cases "wp_lifecycle p")
  case None
  have "forward_plan (wp_steps p) \<lparr>progress = False, cancellation = False, statusEventLimit = 0, review = None, gates = None\<rparr>"
    using plan_ids_distinct [OF assms] by (simp add: forward_plan_def gatesFromPlan_def top_ids_distinct)
  with None that show thesis by auto
next
  case (Some l)
  have "forward_plan (wp_steps p) l"
    using plan_ids_distinct [OF assms] plan_gates_forward [OF assms Some]
    by (auto simp: forward_plan_def gatesFromPlan_def top_ids_distinct gate_forward_build split: option.splits)
  with Some that show thesis by auto
qed

lemma attended_any_plan:
  assumes "\<And>l. wp_lifecycle (we_plan env) = Some l \<Longrightarrow> l = plan"
  shows "attended plan now env (typefluxYamlWorkflow env raw keys now input)"
proof (cases "wp_lifecycle (we_plan env)")
  case None
  then have "lawful plan now (initial_state env now input)"
    by (simp add: lawful_def lc_holds_def initial_state_def Let_def)
  then show ?thesis
    by (simp add: typefluxYamlWorkflow_def Let_def attended_forward) (simp add: attended_def lawful_def lc_holds_def)
next
  case (Some l)
  with assms have "wp_lifecycle (we_plan env) = Some plan" by simp
  then show ?thesis by (rule attended_start)
qed

end
