(* ===== verification/Review_Gates.thy ===== *)
theory Review_Gates
  imports Run_Lifecycle
begin

text \<open>
  The review gates of a run against a machine of their own: what the gates are meant to do is stated over
  the plan and the events of a run (\<open>gates_move\<close>), without the runtime's operations or flags; then every
  event of a run is shown to be a move of that machine.
\<close>

section \<open>The machine of the review gates\<close>

text \<open>
  What the review gates of a run are meant to do, stated over the plan and the events alone. A gate is
  unopened, open or passed and holds the decision made on it with its route. \<open>Corrupt\<close> stands for the
  combinations of the runtime's flags that are none of the three.
\<close>

datatype gate_phase = Unopened | Opened | Passed | Corrupt

record gate_status =
  gx_phase :: gate_phase
  gx_decision :: "string option"
  gx_route :: "string option"
  gx_invalid :: bool

definition declared_gates :: "lifecycle_plan \<Rightarrow> (string \<times> review_plan) list" where
  "declared_gates plan =
     (case gates plan of Some gs \<Rightarrow> map (\<lambda>g. (gate_id g, review_plan.truncate g)) gs
      | None \<Rightarrow> (case review plan of Some r \<Rightarrow> [(''review'', r)] | None \<Rightarrow> []))"

text \<open>A review command: a decision, and the gate it names or none.\<close>

definition review_command :: "jv option \<Rightarrow> string \<Rightarrow> string option \<Rightarrow> bool" where
  "review_command c d gate \<longleftrightarrow> (\<exists>kvs. c = Some (JObj kvs) \<and> map_of kvs ''user_decision'' = Some (JStr d)
     \<and> (\<forall>k\<in>{''reviewer'', ''notes'', ''gate''}. map_of kvs k \<in> {None, Some JNull} \<union> range (\<lambda>s. Some (JStr s)))
     \<and> (\<forall>i. gate = Some i \<longleftrightarrow> map_of kvs ''gate'' = Some (JStr i)))"

definition last_with :: "('a \<Rightarrow> 'b) \<Rightarrow> 'a list \<Rightarrow> 'b \<Rightarrow> nat \<Rightarrow> bool" where
  "last_with f xs k g \<longleftrightarrow> g < length xs \<and> f (xs ! g) = k \<and> (\<forall>j. g < j \<and> j < length xs \<longrightarrow> f (xs ! j) \<noteq> k)"

text \<open>
  The gate a command is for: the one it names, unless that is passed; without a name the only gate
  there is, or the only one that is open.
\<close>

definition addressed :: "(string \<times> review_plan) list \<Rightarrow> gate_status list \<Rightarrow> string option \<Rightarrow> nat \<Rightarrow> bool" where
  "addressed decls gs gate g \<longleftrightarrow> g < length gs \<and>
     (case gate of
        Some i \<Rightarrow> last_with fst decls i g \<and> gx_phase (gs ! g) \<noteq> Passed
      | None \<Rightarrow> length gs = 1 \<or> (\<forall>j<length gs. gx_phase (gs ! j) = Opened \<longleftrightarrow> j = g))"

definition gate_due :: "(string \<times> review_plan) list \<Rightarrow> gate_status list \<Rightarrow> string \<Rightarrow> nat \<Rightarrow> bool" where
  "gate_due decls gs step g \<longleftrightarrow>
     g < length gs \<and> last_with (\<lambda>d. afterStep (snd d)) decls step g \<and> gx_phase (gs ! g) \<noteq> Passed"

text \<open>The effect of a refused command, and of a timeout.\<close>

definition refused :: "review_plan \<Rightarrow> gate_status \<Rightarrow> gate_status" where
  "refused r a = (if invalidUserDecision r = Invalid_fail then a\<lparr>gx_invalid := True\<rparr> else a)"

definition lapsed :: "review_plan \<Rightarrow> gate_status \<Rightarrow> gate_status" where
  "lapsed r a =
     (if onTimeout r = Some Timeout_route
      then a\<lparr>gx_phase := Passed, gx_decision := None, gx_route := timeoutRoute r\<rparr> else a\<lparr>gx_phase := Passed\<rparr>)"

text \<open>Where the run goes on: at the step a route names, or backwards.\<close>

definition goes_to :: "plan_step list \<Rightarrow> string option \<Rightarrow> phase \<Rightarrow> bool" where
  "goes_to steps route ph \<longleftrightarrow>
     (case Option.bind route (stepIndexes steps) of Some j \<Rightarrow> \<exists>v. ph = Ready j v | None \<Rightarrow> \<not> forward ph)"

fun at_step :: "phase \<Rightarrow> nat option" where
  "at_step (Ready i v) = Some i"
| "at_step (In_step i p) = Some i"
| "at_step ph = None"

definition finished :: "phase \<Rightarrow> bool" where
  "finished ph \<longleftrightarrow> (\<exists>r. ph = Finished r)"

definition signal :: "event \<Rightarrow> bool" where
  "signal ev \<longleftrightarrow> (\<exists>r. ev = Cancel_signal r) \<or> (\<exists>c. ev = Review_signal c)"

text \<open>
  One event of a run in the phase \<open>ph\<close>, which leads to the phase \<open>ph'\<close>; \<open>cancelled\<close> says that a cancel
  request came before it.
\<close>

inductive gates_move :: "plan_step list \<Rightarrow> (string \<times> review_plan) list \<Rightarrow> bool \<Rightarrow> phase \<Rightarrow> event \<Rightarrow> phase \<Rightarrow>
    gate_status list \<Rightarrow> gate_status list \<Rightarrow> bool" for steps decls cancelled where
  decide: "\<not> finished ph \<Longrightarrow> review_command c d gate \<Longrightarrow> addressed decls gs gate g \<Longrightarrow>
    map_of (userDecisions (snd (decls ! g))) d = Some t \<Longrightarrow>
    gates_move steps decls cancelled ph (Review_signal c) ph gs (gs[g := (gs ! g)\<lparr>gx_decision := Some d, gx_route := Some t\<rparr>])"
| refuse: "\<not> finished ph \<Longrightarrow> review_command c d gate \<Longrightarrow> addressed decls gs gate g \<Longrightarrow>
    map_of (userDecisions (snd (decls ! g))) d = None \<Longrightarrow>
    gates_move steps decls cancelled ph (Review_signal c) ph gs (gs[g := refused (snd (decls ! g)) (gs ! g)])"
| nobody: "\<not> finished ph \<Longrightarrow> review_command c d gate \<Longrightarrow> \<forall>g. \<not> addressed decls gs gate g \<Longrightarrow>
    gates_move steps decls cancelled ph (Review_signal c) ph gs gs"
| malformed: "\<not> finished ph \<Longrightarrow> \<forall>d gate. \<not> review_command c d gate \<Longrightarrow>
    gates_move steps decls cancelled ph (Review_signal c) ph gs
      (if length gs = 1 then [refused (snd (decls ! 0)) (gs ! 0)] else gs)"
| opens: "at_step ph = Some i \<Longrightarrow> \<not> signal ev \<Longrightarrow> gate_due decls gs (step_id (steps ! i)) g \<Longrightarrow>
    gates_move steps decls cancelled ph ev (At_gate i g v) gs (gs[g := (gs ! g)\<lparr>gx_phase := Opened\<rparr>])"
| passes: "at_step ph = Some i \<Longrightarrow> \<not> signal ev \<Longrightarrow> \<forall>g. \<not> gate_due decls gs (step_id (steps ! i)) g \<Longrightarrow>
    gates_move steps decls cancelled ph ev (Ready (Suc i) v) gs gs"
| works: "at_step ph = Some i \<Longrightarrow> \<not> signal ev \<Longrightarrow> at_step ph' = Some i \<or> \<not> forward ph' \<Longrightarrow>
    gates_move steps decls cancelled ph ev ph' gs gs"
| routes: "\<not> cancelled \<Longrightarrow> gx_phase (gs ! g) = Opened \<Longrightarrow> \<not> gx_invalid (gs ! g) \<Longrightarrow> gx_route (gs ! g) = Some t \<Longrightarrow>
    goes_to steps (Some t) ph' \<Longrightarrow>
    gates_move steps decls cancelled (At_gate i g v) Tick ph' gs (gs[g := (gs ! g)\<lparr>gx_phase := Passed\<rparr>])"
| fails: "cancelled \<or> gx_invalid (gs ! g) \<Longrightarrow> \<not> forward ph' \<Longrightarrow>
    gates_move steps decls cancelled (At_gate i g v) Tick ph' gs gs"
| waits: "\<not> cancelled \<Longrightarrow> \<not> gx_invalid (gs ! g) \<Longrightarrow> gx_route (gs ! g) = None \<Longrightarrow>
    gates_move steps decls cancelled (At_gate i g v) Tick (At_gate i g v) gs gs"
| lapses: "\<not> cancelled \<Longrightarrow> gx_phase (gs ! g) = Opened \<Longrightarrow> \<not> gx_invalid (gs ! g) \<Longrightarrow> gx_route (gs ! g) = None \<Longrightarrow>
    timeoutSeconds (snd (decls ! g)) \<noteq> None \<Longrightarrow>
    (if onTimeout (snd (decls ! g)) = Some Timeout_route then goes_to steps (timeoutRoute (snd (decls ! g))) ph'
     else \<not> forward ph') \<Longrightarrow>
    gates_move steps decls cancelled (At_gate i g v) Expire ph' gs (gs[g := lapsed (snd (decls ! g)) (gs ! g)])"
| no_lapse: "cancelled \<or> gx_invalid (gs ! g) \<or> gx_route (gs ! g) \<noteq> None \<or> timeoutSeconds (snd (decls ! g)) = None \<Longrightarrow>
    gates_move steps decls cancelled (At_gate i g v) Expire (At_gate i g v) gs gs"
| cancels: "\<not> finished ph \<Longrightarrow> ph' = ph \<or> (\<exists>i p p'. ph = In_step i p \<and> ph' = In_step i p') \<Longrightarrow>
    gates_move steps decls cancelled ph (Cancel_signal r) ph' gs gs"
| ignores: "gates_move steps decls cancelled (At_gate i g v) (Answer path ans) (At_gate i g v) gs gs"
| unwinds: "\<not> forward ph \<Longrightarrow> \<not> signal ev \<Longrightarrow> \<not> forward ph' \<Longrightarrow>
    gates_move steps decls cancelled ph ev ph' gs gs"
| ended: "gates_move steps decls cancelled (Finished r) ev (Finished r) gs gs"

text \<open>How the gates of the runtime stand in this machine.\<close>

fun phase_of :: "bool \<Rightarrow> nat option \<Rightarrow> bool \<Rightarrow> gate_phase" where
  "phase_of False None False = Unopened"
| "phase_of True (Some n) False = Opened"
| "phase_of False None True = Passed"
| "phase_of _ _ _ = Corrupt"

definition status_of :: "gate_state \<Rightarrow> gate_status" where
  "status_of g =
     \<lparr>gx_phase = phase_of (gs_waiting g) (gs_openSeq g) (gs_fired g),
      gx_decision = gs_decision g, gx_route = gs_routeTarget g, gx_invalid = gs_invalidFailed g\<rparr>"

definition gates_of :: "wf_state \<Rightarrow> gate_status list" where
  "gates_of st = (case ws_lifecycle st of None \<Rightarrow> [] | Some rt \<Rightarrow> map status_of (lr_gates rt))"

section \<open>The runtime against the machine\<close>

definition proper_gate :: "gate_state \<Rightarrow> bool" where
  "proper_gate g \<longleftrightarrow> (gs_waiting g \<longleftrightarrow> gs_openSeq g \<noteq> None) \<and> \<not> (gs_waiting g \<and> gs_fired g)"

lemma status_of_simps [simp]:
  "gx_decision (status_of g) = gs_decision g" "gx_route (status_of g) = gs_routeTarget g"
  "gx_invalid (status_of g) = gs_invalidFailed g"
  by (simp_all add: status_of_def)

lemma proper_iff: "proper_gate g \<longleftrightarrow> gx_phase (status_of g) \<noteq> Corrupt"
  by (cases "(gs_waiting g, gs_openSeq g, gs_fired g)" rule: phase_of.cases) (auto simp: proper_gate_def status_of_def)

lemma proper_phase:
  assumes "proper_gate g"
  shows "gx_phase (status_of g) = Opened \<longleftrightarrow> gs_waiting g" "gx_phase (status_of g) = Passed \<longleftrightarrow> gs_fired g"
  using assms
  by (cases "(gs_waiting g, gs_openSeq g, gs_fired g)" rule: phase_of.cases; auto simp: proper_gate_def status_of_def)+

lemma gate_change_proper: "gate_change sole a b \<Longrightarrow> proper_gate a \<Longrightarrow> proper_gate b"
  by (auto elim!: gate_changeE simp: close_gate_def proper_gate_def)

lemma reachable_proper: "lc_reachable plan now rt \<Longrightarrow> \<forall>g\<in>set (lr_gates rt). proper_gate g"
proof (induction rule: lc_reachable.induct)
  case initial
  show ?case
    by (auto simp: proper_gate_def new_LifecycleRuntime_def gatesFromPlan_def build_gate_def split: option.splits)
next
  case (step rt op)
  from gates_apply [OF reachable_fired_closed [OF step.hyps]] step.IH
  show ?case by (rule gates_step_invariant) (rule gate_change_proper)
qed

lemma built_from_declared: "gatesFromPlan plan = map (\<lambda>(i, r). build_gate r i) (declared_gates plan)"
  by (simp add: gatesFromPlan_def declared_gates_def build_gate_def review_plan.truncate_def split: option.split)

definition same_declaration :: "gate_state \<Rightarrow> string \<times> review_plan \<Rightarrow> bool" where
  "same_declaration g d \<longleftrightarrow> gs_id g = fst d \<and> gs_afterStep g = afterStep (snd d) \<and> gs_userDecisions g = userDecisions (snd d)
     \<and> gs_invalidUserDecision g = invalidUserDecision (snd d) \<and> gs_timeoutSeconds g = timeoutSeconds (snd d)
     \<and> gs_onTimeout g = onTimeout (snd d) \<and> gs_timeoutRoute g = timeoutRoute (snd d)"

lemma reachable_declared:
  assumes "lc_reachable plan now rt"
  shows "list_all2 same_declaration (lr_gates rt) (declared_gates plan)"
proof -
  have eq: "map gate_static (lr_gates rt) = map gate_static (gatesFromPlan plan)" by (rule reachable_static [OF assms])
  from arg_cong [OF eq, of length] have len: "length (lr_gates rt) = length (declared_gates plan)"
    by (simp add: built_from_declared)
  have "same_declaration (lr_gates rt ! g) (declared_gates plan ! g)" if g: "g < length (lr_gates rt)" for g
  proof -
    from arg_cong [OF eq, of "\<lambda>xs. xs ! g"] g len
    have "gate_static (lr_gates rt ! g) = gate_static (gatesFromPlan plan ! g)" by (simp add: built_from_declared)
    then show ?thesis using g len
      by (cases "declared_gates plan ! g") (simp add: built_from_declared gate_static_def build_gate_def same_declaration_def)
  qed
  with len show ?thesis by (simp add: list_all2_conv_all_nth)
qed

lemma last_with_snoc:
  "last_with f (xs @ [x]) k g \<longleftrightarrow> (if f x = k then g = length xs else last_with f xs k g)"
proof (cases "f x = k")
  case True
  then have "g < length xs \<Longrightarrow> \<not> last_with f (xs @ [x]) k g"
    by (auto simp: last_with_def intro: exI [of _ "length xs"])
  moreover have "last_with f (xs @ [x]) k (length xs)" 
    using True unfolding last_with_def by (metis le_less_Suc_eq length_append_singleton lessI less_imp_le_nat nat_neq_iff nth_append_length)
  moreover have "last_with f (xs @ [x]) k g \<Longrightarrow> g < Suc (length xs)" by (simp add: last_with_def)
  ultimately show ?thesis using True less_Suc_eq by auto
next
  case False
  have "(xs @ [x]) ! j = (if j < length xs then xs ! j else x)" if "j < Suc (length xs)" for j
    using that by (simp add: nth_append)
  then show ?thesis using False unfolding last_with_def by (auto simp: less_Suc_eq)
qed

lemma gate_index_by_snoc:
  "gate_index_by f (gs @ [x]) k = (if f x = k then Some (length gs) else gate_index_by f gs k)"
  by (simp add: gate_index_by_def)

lemma gate_index_by_last: "gate_index_by f gs k = Some g \<longleftrightarrow> last_with f gs k g"
proof (induction gs rule: rev_induct)
  case Nil
  show ?case by (simp add: gate_index_by_def last_with_def)
qed (auto simp: gate_index_by_snoc last_with_snoc)

lemma last_with_declared:
  assumes "list_all2 P xs ys" "\<And>x y. P x y \<Longrightarrow> f x = h y"
  shows "last_with f xs k g \<longleftrightarrow> last_with h ys k g"
proof -
  from assms have "length xs = length ys" and "f (xs ! j) = h (ys ! j)" if "j < length ys" for j
    using that by (auto simp: list_all2_conv_all_nth)
  moreover have "length xs = length ys" using assms(1) by (rule list_all2_lengthD)
  ultimately show ?thesis unfolding last_with_def by metis
qed

lemma string_or_null_iff: "string_or_null v \<longleftrightarrow> v \<in> {None, Some JNull} \<union> range (\<lambda>s. Some (JStr s))"
  by (auto simp: string_or_null_def split: option.splits jv.splits)

lemma bind_str_of: "Option.bind v str_of = gate \<longleftrightarrow> (\<forall>i. gate = Some i \<longleftrightarrow> v = Some (JStr i))"
proof -
  have "Option.bind v str_of = Some i \<longleftrightarrow> v = Some (JStr i)" for i
    by (cases v) (auto elim: str_of.elims)
  then show ?thesis by (metis not_Some_eq)
qed

lemma parse_object:
  "parseReviewCommand (Some (JObj kvs)) = Some (d, gate) \<longleftrightarrow> map_of kvs ''user_decision'' = Some (JStr d)
     \<and> (\<forall>k\<in>{''reviewer'', ''notes'', ''gate''}. string_or_null (map_of kvs k))
     \<and> Option.bind (map_of kvs ''gate'') str_of = gate"
proof (cases "\<exists>e. map_of kvs ''user_decision'' = Some (JStr e)")
  case True
  then obtain e where "map_of kvs ''user_decision'' = Some (JStr e)" by blast
  then show ?thesis unfolding parseReviewCommand_def by (simp only: option.case jv.case) auto
next
  case False
  then show ?thesis unfolding parseReviewCommand_def by (simp split: option.split jv.split)
qed

lemma parse_review_command: "parseReviewCommand c = Some (d, gate) \<longleftrightarrow> review_command c d gate"
proof (cases "\<exists>kvs. c = Some (JObj kvs)")
  case True
  then obtain kvs where c: "c = Some (JObj kvs)" by blast
  show ?thesis unfolding c parse_object review_command_def bind_str_of string_or_null_iff
    by (simp only: option.inject jv.inject ex_simps simp_thms)
next
  case False
  then have "parseReviewCommand c = None" by (simp add: parseReviewCommand_def split: option.split jv.split)
  with False show ?thesis by (simp add: review_command_def)
qed

text \<open>A runtime in step with its plan.\<close>

definition in_step :: "lifecycle_plan \<Rightarrow> lrt \<Rightarrow> bool" where
  "in_step plan rt \<longleftrightarrow> list_all2 same_declaration (lr_gates rt) (declared_gates plan) \<and> (\<forall>g\<in>set (lr_gates rt). proper_gate g)"

lemma in_stepD:
  assumes "in_step plan rt" "g < length (lr_gates rt)"
  shows "same_declaration (lr_gates rt ! g) (declared_gates plan ! g)" "proper_gate (lr_gates rt ! g)"
  using assms by (simp_all add: in_step_def list_all2_conv_all_nth)

lemma singleton_filter:
  "filter P [0..<n] = [g] \<longleftrightarrow> g < n \<and> (\<forall>j<n. P j \<longleftrightarrow> j = g)"
proof
  assume eq: "filter P [0..<n] = [g]"
  have "set (filter P [0..<n]) = {g}" by (simp only: eq) simp
  then show "g < n \<and> (\<forall>j<n. P j \<longleftrightarrow> j = g)" by auto
next
  assume g: "g < n \<and> (\<forall>j<n. P j \<longleftrightarrow> j = g)"
  then have "filter P [0..<n] = filter (\<lambda>j. j = g) [0..<n]" by (intro filter_cong) auto
  also have "\<dots> = [g]" using g by (induction n) (auto simp: filter_empty_conv less_Suc_eq)
  finally show "filter P [0..<n] = [g]" .
qed

lemma targetGate_addressed:
  assumes "in_step plan rt"
  shows "targetGate rt gate = Some g \<longleftrightarrow> addressed (declared_gates plan) (map status_of (lr_gates rt)) gate g"
proof (cases gate)
  case (Some i)
  have "last_with gs_id (lr_gates rt) i g \<longleftrightarrow> last_with fst (declared_gates plan) i g"
    using assms by (intro last_with_declared [of same_declaration]) (auto simp: in_step_def same_declaration_def)
  moreover have "last_with gs_id (lr_gates rt) i g \<Longrightarrow> g < length (lr_gates rt)" by (simp add: last_with_def)
  moreover have "targetGate rt gate = Some g \<longleftrightarrow> last_with gs_id (lr_gates rt) i g \<and> \<not> gs_fired (gate_at rt g)"
    by (auto simp: Some targetGate_def gatesById_def gate_index_by_last [symmetric] split: option.splits)
  ultimately show ?thesis using in_stepD [OF assms, of g] proper_phase
    by (auto simp: Some addressed_def gate_at_def)
next
  case None
  have "targetGate rt gate = Some g \<longleftrightarrow> (if length (lr_gates rt) = 1 then g = 0
      else filter (\<lambda>g. gs_waiting (gate_at rt g)) [0..<length (lr_gates rt)] = [g])"
    by (auto simp: None targetGate_def split: list.splits)
  also have "\<dots> \<longleftrightarrow> addressed (declared_gates plan) (map status_of (lr_gates rt)) gate g"
    using in_stepD(2) [OF assms] proper_phase(1)
    by (auto simp: None addressed_def singleton_filter gate_at_def)
  finally show ?thesis .
qed

lemma gate_due_pending:
  assumes "in_step plan rt"
  shows "pendingGateAfter rt step = Some g \<longleftrightarrow> gate_due (declared_gates plan) (map status_of (lr_gates rt)) step g"
proof -
  have "last_with gs_afterStep (lr_gates rt) step g \<longleftrightarrow> last_with (\<lambda>d. afterStep (snd d)) (declared_gates plan) step g"
    using assms by (intro last_with_declared [of same_declaration]) (auto simp: in_step_def same_declaration_def)
  moreover have "last_with gs_afterStep (lr_gates rt) step g \<Longrightarrow> g < length (lr_gates rt)" by (simp add: last_with_def)
  moreover have "pendingGateAfter rt step = Some g \<longleftrightarrow> last_with gs_afterStep (lr_gates rt) step g \<and> \<not> gs_fired (gate_at rt g)"
    by (auto simp: pendingGateAfter_def gatesByAfterStep_def gate_index_by_last [symmetric] split: option.splits)
  ultimately show ?thesis using in_stepD [OF assms, of g] proper_phase
    by (auto simp: gate_due_def gate_at_def)
qed

lemma status_update: "map status_of (gs[g := x]) = (map status_of gs)[g := status_of x]"
  by (simp add: map_update)

lemma status_refused:
  assumes "same_declaration a d"
  shows "status_of (if gs_invalidUserDecision a = Invalid_fail then a\<lparr>gs_invalidFailed := True\<rparr> else a) = refused (snd d) (status_of a)"
  using assms by (simp add: same_declaration_def refused_def status_of_def)

lemma mark_invalid_refused:
  assumes "in_step plan rt" "g < length (lr_gates rt)"
  shows "map status_of (lr_gates (mark_invalid g rt)) =
    (map status_of (lr_gates rt))[g := refused (snd (declared_gates plan ! g)) (map status_of (lr_gates rt) ! g)]"
proof -
  have "lr_gates (mark_invalid g rt) = (lr_gates rt)[g := (if gs_invalidUserDecision (lr_gates rt ! g) = Invalid_fail
      then (lr_gates rt ! g)\<lparr>gs_invalidFailed := True\<rparr> else lr_gates rt ! g)]"
    by (simp add: mark_invalid_def gate_at_def)
  then show ?thesis using status_refused [OF in_stepD(1) [OF assms]] assms(2) by (simp only: status_update nth_map)
qed

lemma review_move:
  assumes "in_step plan rt" "\<not> finished ph"
  shows "gates_move steps (declared_gates plan) cancelled ph (Review_signal c) ph
    (map status_of (lr_gates rt)) (map status_of (lr_gates (submitReview c rt)))"
proof -
  have target: "targetGate (bump_signal rt) gate = targetGate rt gate" for gate
    by (simp add: targetGate_def gatesById_def gate_at_def bump_signal_def cong: option.case_cong)
  have in_step: "in_step plan (bump_signal rt)" using assms(1) by (simp add: in_step_def)
  note addressed = targetGate_addressed [OF assms(1)]
  show ?thesis
  proof (cases rule: submitReview_cases [where c = c and rt = rt])
    case malformed
    then have "\<forall>d gate. \<not> review_command c d gate" by (simp flip: parse_review_command)
    note move = gates_move.malformed [OF assms(2) this, of steps "declared_gates plan" cancelled "map status_of (lr_gates rt)"]
    show ?thesis
    proof (cases "length (lr_gates rt) = 1")
      case True
      then obtain a where "lr_gates rt = [a]" by (auto simp: length_Suc_conv)
      with malformed move mark_invalid_refused [OF in_step, of 0] show ?thesis
        by (simp add: submitReview_malformed Let_def)
    next
      case False
      with malformed move show ?thesis by (simp add: submitReview_malformed Let_def)
    qed
  next
    case (no_target d gate)
    then have "\<forall>g. \<not> addressed (declared_gates plan) (map status_of (lr_gates rt)) gate g"
      by (simp add: target flip: addressed)
    from gates_move.nobody [OF assms(2) no_target(1) [unfolded parse_review_command] this]
    show ?thesis by (simp add: submitReview_no_target [OF no_target])
  next
    case (unknown d gate g)
    then have g: "addressed (declared_gates plan) (map status_of (lr_gates rt)) gate g"
      by (simp add: target flip: addressed)
    then have len: "g < length (lr_gates rt)" by (simp add: addressed_def)
    have "map_of (userDecisions (snd (declared_gates plan ! g))) d = None"
      using unknown(3) in_stepD(1) [OF assms(1) len] by (simp add: gate_at_def same_declaration_def)
    from gates_move.refuse [OF assms(2) unknown(1) [unfolded parse_review_command] g this]
    show ?thesis using mark_invalid_refused [OF in_step, of g] len
      by (simp add: submitReview_unknown [OF unknown] Let_def)
  next
    case (staged d gate g r)
    then have g: "addressed (declared_gates plan) (map status_of (lr_gates rt)) gate g"
      by (simp add: target flip: addressed)
    then have len: "g < length (lr_gates rt)" by (simp add: addressed_def)
    have "map_of (userDecisions (snd (declared_gates plan ! g))) d = Some r"
      using staged(3) in_stepD(1) [OF assms(1) len] by (simp add: gate_at_def same_declaration_def)
    from gates_move.decide [OF assms(2) staged(1) [unfolded parse_review_command] g this]
    have "gates_move steps (declared_gates plan) cancelled ph (Review_signal c) ph (map status_of (lr_gates rt))
      (map status_of ((lr_gates rt)[g := (lr_gates rt ! g)\<lparr>gs_decision := Some d, gs_routeTarget := Some r\<rparr>]))"
      using len by (simp add: status_update) (simp add: status_of_def)
    then show ?thesis
      by (simp add: submitReview_staged [OF staged] Let_def stage_decision_def)
  qed
qed

section \<open>Every event is a move\<close>

lemma gates_of_frame [simp]:
  "gates_of (issue c st) = gates_of st" "gates_of (st\<lparr>ws_stack := es\<rparr>) = gates_of st"
  "gates_of (st\<lparr>ws_lifecycle := Some rt\<rparr>) = map status_of (lr_gates rt)"
  by (simp_all add: gates_of_def issue_def)

lemma lr_gates_ops [simp]:
  "lr_gates (requestCancel r rt) = lr_gates rt" "lr_gates (invalidReviewFailedTerminal rt) = lr_gates rt"
  "lr_gates (lc_cancelled s rt) = lr_gates rt" "lr_gates (lc_failed s rt) = lr_gates rt"
  "lr_gates (lc_completed rt) = lr_gates rt" "lr_gates (compensationStarted i rt) = lr_gates rt"
  "lr_gates (compensationCompleted i rt) = lr_gates rt" "lr_gates (compensationFailed i rt) = lr_gates rt"
  "lr_gates (skipUnits n rt) = lr_gates rt" "lr_gates (stepStarted i rt) = lr_gates rt"
  "lr_gates (stepSkipped i w rt) = lr_gates rt"
  by (simp_all add: lc_defs Let_def)

lemma gates_of_lifecycle: "(\<And>rt. lr_gates (f rt) = lr_gates rt) \<Longrightarrow> gates_of (on_lifecycle f st) = gates_of st"
  by (simp add: gates_of_def on_lifecycle_def split: option.split)

lemma gates_of_ops [simp]:
  "gates_of (on_lifecycle (requestCancel r) st) = gates_of st" "gates_of (on_lifecycle invalidReviewFailedTerminal st) = gates_of st"
  "gates_of (on_lifecycle lc_completed st) = gates_of st" "gates_of (on_lifecycle (compensationStarted i) st) = gates_of st"
  "gates_of (on_lifecycle (compensationCompleted i) st) = gates_of st" "gates_of (on_lifecycle (compensationFailed i) st) = gates_of st"
  "gates_of (on_lifecycle (skipUnits n) st) = gates_of st" "gates_of (on_lifecycle (stepStarted i) st) = gates_of st"
  "gates_of (terminal_event e s st) = gates_of st"
  by (simp_all add: gates_of_lifecycle terminal_event_def)

lemma gates_of_outcome: "same_outcome st st' \<Longrightarrow> gates_of st' = gates_of st"
  by (cases "ws_lifecycle st"; cases "ws_lifecycle st'") (simp_all add: same_outcome_def gates_of_def lc_outcome_def)

definition backs_out :: "wf_state \<Rightarrow> config \<Rightarrow> bool" where
  "backs_out st c \<longleftrightarrow> \<not> forward (fst c) \<and> gates_of (snd c) = gates_of st"

lemma backs_out_unwind: "gates_of st1 = gates_of st \<Longrightarrow> backs_out st (pop_compensation env e failed st1)"
  "gates_of st1 = gates_of st \<Longrightarrow> backs_out st (unwind env e st1)"
  "gates_of st1 = gates_of st \<Longrightarrow> backs_out st (finish_run v st1)"
  by (simp_all add: backs_out_def pop_compensation_def unwind_def finish_run_def Let_def)

text \<open>One event as a move.\<close>

definition moves :: "wf_env \<Rightarrow> lifecycle_plan \<Rightarrow> bool \<Rightarrow> phase \<Rightarrow> event \<Rightarrow> wf_state \<Rightarrow> config \<Rightarrow> bool" where
  "moves env plan cancelled ph ev st c \<longleftrightarrow>
     gates_move (wp_steps (we_plan env)) (declared_gates plan) cancelled ph ev (fst c) (gates_of st) (gates_of (snd c))"

lemma moves_backs_out:
  "backs_out st c \<Longrightarrow> at_step ph = Some i \<Longrightarrow> \<not> signal ev \<Longrightarrow> moves env plan cancelled ph ev st c"
  by (simp add: backs_out_def moves_def gates_move.works)

lemma moves_after_step:
  assumes "at_step ph = Some i" "\<not> signal ev" "gates_of st1 = gates_of st" "lc_holds (in_step plan) st1"
  shows "moves env plan cancelled ph ev st (after_step_value env i v st1)"
proof -
  let ?s = "wp_steps (we_plan env) ! i"
  obtain r st2 where c: "complete_step ?s v st1 = (r, st2)" by (cases "complete_step ?s v st1")
  have outcome: "same_outcome st1 st2" by (rule outcome.complete_step_effect [OF c])
  have same: "gates_of st2 = gates_of st" using gates_of_outcome [OF outcome] assms(3) by simp
  show ?thesis
  proof (cases r)
    case (Inl e)
    with c same show ?thesis
      by (simp add: after_step_value_def Let_def moves_backs_out [OF _ assms(1,2)] backs_out_unwind)
  next
    case (Inr u)
    show ?thesis
    proof (cases "ws_lifecycle st2")
      case None
      then have "gates_of st = []" using same by (simp add: gates_of_def)
      then have "\<forall>g. \<not> gate_due (declared_gates plan) (gates_of st) (step_id ?s) g" by (simp add: gate_due_def)
      from gates_move.passes [OF assms(1,2) this] None Inr c same show ?thesis
        by (simp add: after_step_value_def moves_def)
    next
      case (Some rt)
      then obtain rt1 where rt1: "ws_lifecycle st1 = Some rt1" "lr_gates rt = lr_gates rt1"
        using outcome by (cases "ws_lifecycle st1") (auto simp: same_outcome_def lc_outcome_def)
      then have rt: "in_step plan rt" using assms(4) by (simp add: lc_holds_def in_step_def)
      have gs: "gates_of st = map status_of (lr_gates rt)" using same Some by (simp add: gates_of_def)
      note due = gate_due_pending [OF rt, of "step_id ?s", folded gs]
      show ?thesis
      proof (cases "pendingGateAfter rt (step_id ?s)")
        case None
        then have "\<forall>g. \<not> gate_due (declared_gates plan) (gates_of st) (step_id ?s) g" by (simp flip: due)
        from gates_move.passes [OF assms(1,2) this] None Some Inr c same show ?thesis
          by (simp add: after_step_value_def moves_def)
      next
        case (Some g)
        then have g: "gate_due (declared_gates plan) (gates_of st) (step_id ?s) g" by (simp flip: due)
        then have len: "g < length (lr_gates rt)" and "gx_phase (status_of (lr_gates rt ! g)) \<noteq> Passed"
          using gs by (auto simp: gate_due_def)
        then have "\<not> gs_fired (lr_gates rt ! g)" using in_stepD(2) [OF rt len] proper_phase by simp
        then have "map status_of (lr_gates (waitingForGate g rt)) = (gates_of st)[g := (gates_of st ! g)\<lparr>gx_phase := Opened\<rparr>]"
          using len gs by (simp add: waitingForGate_def Let_def status_update) (simp add: status_of_def)
        with gates_move.opens [OF assms(1,2) g] Some \<open>ws_lifecycle st2 = Some rt\<close> Inr c show ?thesis
          by (simp add: after_step_value_def moves_def gates_of_def on_lifecycle_def)
      qed
    qed
  qed
qed

lemma moves_step_result:
  assumes "at_step ph = Some i" "\<not> signal ev" "same_outcome st (snd r)" "lc_holds (in_step plan) st"
  shows "moves env plan cancelled ph ev st (step_result env i r)"
proof -
  have same: "gates_of (snd r) = gates_of st" by (rule gates_of_outcome [OF assms(3)])
  have "lc_holds (in_step plan) (snd r)" using assms(3,4)
    by (cases "ws_lifecycle st"; cases "ws_lifecycle (snd r)") (simp_all add: same_outcome_def lc_outcome_def lc_holds_def in_step_def)
  note step = moves_after_step [OF assms(1,2) same this]
  obtain res st1 where r: "r = (res, st1)" by (cases r)
  show ?thesis
  proof (cases res)
    case (Inl out)
    then show ?thesis using step same
      by (cases out) (simp_all add: r step_result_def moves_backs_out [OF _ assms(1,2)] backs_out_unwind)
  next
    case (Inr p)
    have "at_step (In_step i p) = Some i \<or> \<not> forward (In_step i p)" by simp
    from gates_move.works [OF assms(1,2) this] Inr r same show ?thesis by (simp add: step_result_def moves_def)
  qed
qed

lemma moves_run_step:
  assumes "lc_holds (in_step plan) st"
  shows "moves env plan cancelled (Ready i v) Tick st (run_step env i v st)"
proof -
  let ?s = "wp_steps (we_plan env) ! i" and ?st = "on_lifecycle (stepStarted (step_id (wp_steps (we_plan env) ! i))) st"
  note away = moves_backs_out [of st _ "Ready i v" i Tick]
  have "same_outcome ?st (snd (start_step env ?s v ?st))"
    by (cases "start_step env ?s v ?st") (simp add: outcome.start_effects(3))
  then have "same_outcome st (snd (start_step env ?s v ?st))" by (rule outcome.trans [OF outcome.started])
  then have "moves env plan cancelled (Ready i v) Tick st (step_result env i (start_step env ?s v ?st))"
    using assms by (intro moves_step_result) (simp_all add: signal_def)
  moreover have "gates_of (skip_step (step_id ?s) w n st) = gates_of st" for w n
    by (rule gates_of_outcome [OF outcome.skip_step_effect])
  ultimately show ?thesis
    by (simp add: run_step_def Let_def away signal_def backs_out_unwind split: sum.split bool.split)
qed

lemma goes_to_follow:
  "goes_to (wp_steps (we_plan env)) target (fst (follow_route env i v target st))"
  "gates_of (snd (follow_route env i v target st)) = gates_of st"
  using backs_out_unwind(2) [of st st env]
  by (auto simp: goes_to_def follow_route_def backs_out_def split: option.split)

lemma waits_at_open:
  assumes "in_step plan rt" "waits_at env i g rt"
  shows "g < length (lr_gates rt)" "gx_phase (status_of (lr_gates rt ! g)) = Opened"
    "\<not> gs_fired (lr_gates rt ! g)"
  using assms in_stepD(2) [OF assms(1), of g] proper_phase(1) [of "lr_gates rt ! g"]
  by (auto simp: waits_at_def waits_on_def gate_at_def proper_gate_def)

lemma status_close: "status_of (close_gate a) = (status_of a)\<lparr>gx_phase := Passed\<rparr>"
  by (simp add: status_of_def close_gate_def)

lemma moves_poll:
  assumes "in_step plan rt" "ws_lifecycle st = Some rt" "waits_at env i g rt"
  shows "moves env plan (cancel_requested st) (At_gate i g v) Tick st (poll_gate env i g v rt st)"
proof -
  let ?steps = "wp_steps (we_plan env)" and ?ds = "declared_gates plan" and ?a = "lr_gates rt ! g"
  have gs: "gates_of st = map status_of (lr_gates rt)" by (simp add: gates_of_def assms(2))
  have cancelled: "cancel_requested st \<longleftrightarrow> lr_cancellationRequested rt" by (simp add: cancel_requested_def assms(2))
  note opn = waits_at_open [OF assms(1,3)]
  have away: "moves env plan (cancel_requested st) (At_gate i g v) Tick st c"
    if "backs_out st c" "cancel_requested st \<or> gs_invalidFailed ?a" for c
    using that gates_move.fails [of "cancel_requested st" "gates_of st" g "fst c"] opn gs
    by (simp add: moves_def backs_out_def)
  consider (stop) "lr_cancellationRequested rt \<or> gs_invalidFailed ?a"
    | (wait) "\<not> lr_cancellationRequested rt" "\<not> gs_invalidFailed ?a" "gs_routeTarget ?a = None"
    | (route) t where "\<not> lr_cancellationRequested rt" "\<not> gs_invalidFailed ?a" "gs_routeTarget ?a = Some t"
    by auto
  then show ?thesis
  proof cases
    case stop
    then have "backs_out st (poll_gate env i g v rt st)" by (auto simp: poll_gate_def gate_at_def backs_out_unwind)
    with stop show ?thesis by (intro away) (auto simp: cancelled)
  next
    case wait
    from gates_move.waits [of "cancel_requested st" "gates_of st" g ?steps ?ds i v] wait opn gs
    show ?thesis by (simp add: poll_gate_def gate_at_def moves_def cancelled)
  next
    case (route t)
    have routed: "fst (gateRouted g rt) = Some t" "lr_gates (snd (gateRouted g rt)) = (lr_gates rt)[g := close_gate ?a]"
      using route opn(1) by (simp_all add: gateRouted_def Let_def gate_at_def) (simp add: close_gate_def update_gate_def)
    have "map status_of (lr_gates (snd (gateRouted g rt))) = (gates_of st)[g := (gates_of st ! g)\<lparr>gx_phase := Passed\<rparr>]"
      using opn(1) by (simp add: routed gs status_update status_close)
    moreover have "poll_gate env i g v rt st = follow_route env i v (Some t) (st\<lparr>ws_lifecycle := Some (snd (gateRouted g rt))\<rparr>)"
      using route routed by (simp add: poll_gate_def gate_at_def case_prod_unfold)
    ultimately show ?thesis
      using gates_move.routes [of "cancel_requested st" "gates_of st" g t ?steps] route opn gs goes_to_follow
      by (simp add: moves_def cancelled)
  qed
qed

lemma moves_expire:
  assumes "in_step plan rt" "ws_lifecycle st = Some rt" "waits_at env i g rt"
  shows "moves env plan (cancel_requested st) (At_gate i g v) Expire st (expire_gate env i g v rt st)"
proof -
  let ?steps = "wp_steps (we_plan env)" and ?ds = "declared_gates plan" and ?a = "lr_gates rt ! g"
  let ?d = "snd (declared_gates plan ! g)"
  have gs: "gates_of st = map status_of (lr_gates rt)" by (simp add: gates_of_def assms(2))
  have cancelled: "cancel_requested st \<longleftrightarrow> lr_cancellationRequested rt" by (simp add: cancel_requested_def assms(2))
  note opn = waits_at_open [OF assms(1,3)]
  note decl = in_stepD(1) [OF assms(1) opn(1), unfolded same_declaration_def]
  show ?thesis
  proof (cases "gs_timeoutSeconds ?a = None \<or> lr_cancellationRequested rt \<or> gs_invalidFailed ?a \<or> gs_routeTarget ?a \<noteq> None")
    case True
    then have "expire_gate env i g v rt st = (At_gate i g v, st)" by (simp add: expire_gate_def gate_at_def)
    with gates_move.no_lapse [of "cancel_requested st" "gates_of st" g ?ds ?steps i v] True opn(1) gs decl cancelled
    show ?thesis by (auto simp: moves_def)
  next
    case False
    define out where "out = gateTimedOut g rt"
    have status: "map status_of (lr_gates (snd out)) = (gates_of st)[g := lapsed ?d (gates_of st ! g)]"
      using opn(1) decl by (auto simp: out_def gateTimedOut_def Let_def gate_at_def gs status_update lapsed_def status_close
          close_gate_def status_of_def split: option.split on_timeout.split)
    have outcome: "fst out = (case onTimeout ?d of Some Timeout_route \<Rightarrow> Act_route (timeoutRoute ?d)
        | Some Timeout_cancel \<Rightarrow> Act_cancel | _ \<Rightarrow> Act_fail)"
      using opn(1) decl by (auto simp: out_def gateTimedOut_def Let_def gate_at_def close_gate_def recomputeCheckpoint_def
          update_gate_def split: option.split on_timeout.split)
    let ?st = "st\<lparr>ws_lifecycle := Some (snd out)\<rparr>"
    have eq: "expire_gate env i g v rt st = (case fst out of Act_route target \<Rightarrow> follow_route env i v target ?st
        | Act_cancel \<Rightarrow> unwind env cancelled_failure ?st | Act_fail \<Rightarrow> unwind env (App_failure ''TypefluxReviewTimeout'') ?st)"
      using False unfolding out_def by (auto simp: expire_gate_def gate_at_def case_prod_unfold Let_def)
    let ?c = "expire_gate env i g v rt st"
    have "gates_of (snd ?c) = gates_of ?st
      \<and> (if onTimeout ?d = Some Timeout_route then goes_to ?steps (timeoutRoute ?d) (fst ?c) else \<not> forward (fst ?c))"
      unfolding eq outcome using goes_to_follow [of env] backs_out_unwind(2) [of ?st ?st env]
      by (auto simp: backs_out_def split: option.split on_timeout.split)
    then show ?thesis
      using gates_move.lapses [of "cancel_requested st" "gates_of st" g ?ds ?steps] False opn gs decl status
      by (simp add: moves_def cancelled)
  qed
qed

text \<open>A run that has a lifecycle runtime keeps it.\<close>

lemma lifecycle_kept [simp]:
  "(ws_lifecycle (snd (pop_compensation env e failed st)) = None) = (ws_lifecycle st = None)"
  "(ws_lifecycle (snd (unwind env e st)) = None) = (ws_lifecycle st = None)"
  "(ws_lifecycle (snd (finish_run v st)) = None) = (ws_lifecycle st = None)"
  "(ws_lifecycle (snd (follow_route env i v t st)) = None) = (ws_lifecycle st = None)"
  by (simp_all add: pop_compensation_def unwind_def finish_run_def follow_route_def terminal_event_def Let_def
      split: option.split)

lemma lifecycle_outcome: "same_outcome st st' \<Longrightarrow> (ws_lifecycle st' = None) = (ws_lifecycle st = None)"
  by (cases "ws_lifecycle st"; cases "ws_lifecycle st'") (simp_all add: same_outcome_def)

lemma lifecycle_after_step [simp]:
  "(ws_lifecycle (snd (after_step_value env i v st)) = None) = (ws_lifecycle st = None)"
proof -
  let ?s = "wp_steps (we_plan env) ! i"
  obtain r st2 where c: "complete_step ?s v st = (r, st2)" by (cases "complete_step ?s v st")
  with lifecycle_outcome [OF outcome.complete_step_effect [OF c]] show ?thesis
    by (simp add: after_step_value_def Let_def split: sum.split option.split)
qed

lemma lifecycle_step_result [simp]:
  "(ws_lifecycle (snd (step_result env i r)) = None) = (ws_lifecycle (snd r) = None)"
  by (simp add: step_result_def split: prod.split sum.split)

lemma lifecycle_run_step [simp]: "(ws_lifecycle (snd (run_step env i v st)) = None) = (ws_lifecycle st = None)"
proof -
  let ?s = "wp_steps (we_plan env) ! i" and ?st = "on_lifecycle (stepStarted (step_id (wp_steps (we_plan env) ! i))) st"
  have "same_outcome ?st (snd (start_step env ?s v ?st))"
    by (cases "start_step env ?s v ?st") (simp add: outcome.start_effects(3))
  from lifecycle_outcome [OF this] lifecycle_outcome [OF outcome.skip_step_effect] show ?thesis
    by (simp add: run_step_def Let_def split: sum.split bool.split)
qed

lemma lifecycle_gate:
  assumes "ws_lifecycle st = Some rt"
  shows "ws_lifecycle (snd (poll_gate env i g v rt st)) \<noteq> None" "ws_lifecycle (snd (expire_gate env i g v rt st)) \<noteq> None"
  using assms by (auto simp: poll_gate_def expire_gate_def Let_def case_prod_unfold simp del: not_None_eq split: timeout_outcome.split)

lemma lifecycle_event [simp]:
  "(ws_lifecycle (snd (workflow_event env ev (ph, st))) = None) = (ws_lifecycle st = None)"
proof -
  have "(ws_lifecycle (snd (step_result env i (deliver env False path ans p st))) = None) = (ws_lifecycle st = None)" for i path ans p
  proof -
    have "same_outcome st (snd (deliver env False path ans p st))"
      by (cases "deliver env False path ans p st") (simp add: outcome.deliver_effect)
    then show ?thesis by (simp add: lifecycle_outcome)
  qed
  moreover have "(ws_lifecycle (snd (answer_compensation env e failed entry ans st)) = None) = (ws_lifecycle st = None)"
    for e failed entry ans by (simp add: answer_compensation_def split: sum.split)
  ultimately show ?thesis using lifecycle_gate [of st]
    by (cases "(env, ev, ph, st)" rule: workflow_event.cases) (auto simp: Let_def split: option.split)
qed

lemma lifecycle_run: "(ws_lifecycle (snd (run_events env evs c)) = None) = (ws_lifecycle (snd c) = None)"
proof (induction evs arbitrary: c)
  case (Cons ev evs)
  obtain ph st where "c = (ph, st)" by (cases c)
  with Cons show ?case by (simp del: workflow_event.simps)
qed simp

lemma moves_event:
  assumes "attended plan now env (ph, st)" "ws_lifecycle st \<noteq> None"
  shows "moves env plan (cancel_requested st) ph ev st (workflow_event env ev (ph, st))"
proof -
  from assms(2) obtain rt where rt: "ws_lifecycle st = Some rt" by blast
  have "lc_reachable plan now rt" using assms(1) rt by (simp add: attended_def lawful_def lc_holds_def)
  from reachable_declared [OF this] reachable_proper [OF this] have in_step: "in_step plan rt" by (simp add: in_step_def)
  then have holds: "lc_holds (in_step plan) st" by (simp add: lc_holds_def rt)
  consider (ended) r where "ph = Finished r" | (cancel) r where "\<not> finished ph" "ev = Cancel_signal r"
    | (review) c where "\<not> finished ph" "ev = Review_signal c" | (other) "\<not> finished ph" "\<not> signal ev"
    by (cases ev) (auto simp: finished_def signal_def)
  then show ?thesis
  proof cases
    case ended
    then show ?thesis by (simp add: moves_def gates_move.ended)
  next
    case cancel
    let ?st = "on_lifecycle (requestCancel r) st"
    have "workflow_event env ev (ph, st) = (signal_phase ?st ph, ?st)"
      using cancel by (cases ph) (simp_all add: finished_def Let_def)
    moreover have "signal_phase ?st ph = ph \<or> (\<exists>i p p'. ph = In_step i p \<and> signal_phase ?st ph = In_step i p')"
      by (cases ph) (simp_all add: signal_phase_def)
    ultimately show ?thesis using cancel by (simp add: moves_def gates_move.cancels)
  next
    case review
    then have ev: "workflow_event env ev (ph, st) = (ph, on_lifecycle (submitReview c) st)"
      by (cases ph) (simp_all add: finished_def)
    with review_move [OF in_step review(1)] review(2) show ?thesis
      by (simp add: moves_def gates_of_def on_lifecycle_def rt)
  next
    case other
    show ?thesis
    proof (cases ph)
      case (Ready i v)
      with other gates_move.works [of "Ready i v" i ev "Ready i v"] moves_run_step [OF holds, of env _ i v] show ?thesis
        by (cases ev) (simp_all add: moves_def signal_def)
    next
      case (In_step i p)
      have "same_outcome st (snd (deliver env False path ans p st))" for path ans
        by (cases "deliver env False path ans p st") (simp add: outcome.deliver_effect)
      then have "moves env plan (cancel_requested st) ph ev st (step_result env i (deliver env False path ans p st))" for path ans
        using In_step other holds by (intro moves_step_result) simp_all
      with In_step other gates_move.works [of "In_step i p" i ev "In_step i p"] show ?thesis
        by (cases ev) (simp_all add: moves_def signal_def)
    next
      case (At_gate i g v)
      then have "waits_at env i g rt" using assms(1) rt by (simp add: attended_def lc_holds_def)
      with At_gate other rt in_step show ?thesis
        by (cases ev) (simp_all add: moves_poll moves_expire signal_def, simp add: moves_def gates_move.ignores)
    next
      case (Unwinding e failed entry)
      have "backs_out st (Unwinding e failed entry, st)" by (simp add: backs_out_def)
      moreover have "backs_out st (answer_compensation env e failed entry ans st)" for ans
        by (simp add: answer_compensation_def backs_out_unwind split: sum.split)
      ultimately have "backs_out st (workflow_event env ev (ph, st))"
        using other Unwinding
        by (cases "(env, ev, ph, st)" rule: workflow_event.cases) (auto simp: signal_def)
      with other Unwinding show ?thesis by (simp add: moves_def backs_out_def gates_move.unwinds)
    next
      case (Finished r)
      with other show ?thesis by (simp add: finished_def)
    qed
  qed
qed

lemma attended_proper:
  assumes "attended plan now env (ph, st)" "a \<in> set (gates_of st)"
  shows "gx_phase a \<noteq> Corrupt"
proof -
  from assms(2) obtain rt where rt: "ws_lifecycle st = Some rt" "a \<in> status_of ` set (lr_gates rt)"
    by (cases "ws_lifecycle st") (simp_all add: gates_of_def)
  then have "lc_reachable plan now rt" using assms(1) by (simp add: attended_def lawful_def lc_holds_def)
  from reachable_proper [OF this] rt(2) show ?thesis by (auto simp: proper_iff)
qed

lemma initial_gates:
  assumes "wp_lifecycle (we_plan env) = Some plan"
  shows "gates_of (initial_state env now input) =
      map (\<lambda>d. \<lparr>gx_phase = Unopened, gx_decision = None, gx_route = None, gx_invalid = False\<rparr>) (declared_gates plan)"
    "ws_lifecycle (initial_state env now input) \<noteq> None"
  using assms
  by (simp_all add: gates_of_def initial_state_def Let_def lc_started_def addUnits_def new_LifecycleRuntime_def
      built_from_declared build_gate_def status_of_def case_prod_unfold)

end
