(* ===== verification/Run_Claims.thy ===== *)
theory Run_Claims
  imports Run_Outcome Run_Progress Review_Gates
begin

text \<open>
  The promises of the plan interpreter (\<open>packages/typescript/temporal-yaml/src/workflows.ts\<close>) as properties
  of its runs, with a demonstration workflow their witnesses run on: book a trip (with a cancellation to
  compensate it), then pay.
\<close>

section \<open>The demonstration workflow\<close>

definition demo_book :: plan_step where
  "demo_book = ActivityStep ''book'' ''bookTrip'' None
     (Some \<lparr>comp_activity = ''cancelTrip'', comp_inputFrom = None, comp_retry = None\<rparr>)"

definition demo_pay :: plan_step where
  "demo_pay = ActivityStep ''pay'' ''charge'' None None"

definition demo_trip :: workflow_plan where
  "demo_trip = WorkflowPlan [demo_book, demo_pay]
     (Some \<lparr>progress = True, cancellation = True, statusEventLimit = 10, review = None, gates = None\<rparr>) None None"

definition demo_env :: wf_env where
  "demo_env = \<lparr>we_plan = demo_trip, we_workflowId = ''trip-1'', we_subjects = [], we_searchAttribute = None\<rparr>"

definition demo_start :: config where
  "demo_start = typefluxYamlWorkflow demo_env (Some (enc_plan demo_trip)) None (\<lambda>_. None) (JStr ''oslo'')"

text \<open>Booked; the payment fails.\<close>

definition demo_events :: "event list" where
  "demo_events = [Tick, Answer [] (Inr (JStr ''ref-7'')), Tick, Answer [] (Inl (Ext_failed ''declined''))]"

lemma demo_trip_ok: "planUnsupportedReason (Some (enc_plan demo_trip)) = None"
  by (rule enc_accepted) (simp add: demo_trip_def demo_book_def demo_pay_def wf_opt_def wf_compensate_def wf_lifecycle_def)

lemma demo_start_eq: "demo_start = (Ready 0 (JStr ''oslo''), initial_state demo_env (\<lambda>_. None) (JStr ''oslo''))"
  by (simp add: demo_start_def typefluxYamlWorkflow_def demo_trip_ok)

definition demo_run :: "event list \<Rightarrow> config" where
  "demo_run evs = run_events demo_env evs demo_start"

lemmas demo_run_defs =
  demo_run_def demo_events_def demo_start_eq run_step_def gate_open_def step_result_def after_step_value_def
  complete_step_def pushCompensation_def pushCompensationEntry_def unwind_def pop_compensation_def
  answer_compensation_def terminal_event_def demo_env_def demo_trip_def demo_book_def demo_pay_def initial_state_def
  new_LifecycleRuntime_def gatesFromPlan_def cancel_requested_def issue_def on_lifecycle_def lc_defs
  record_event_def pendingGateAfter_def gatesByAfterStep_def gate_index_by_def

section \<open>Runs of atomic steps\<close>

definition accepted_start :: "jv option \<Rightarrow> string list option \<Rightarrow> bool" where
  "accepted_start raw keys \<longleftrightarrow> planUnsupportedReason raw = None
     \<and> (\<forall>ks. keys = Some ks \<longrightarrow> set ks \<subseteq> {''searchAttribute''})"

definition ungated :: "workflow_plan \<Rightarrow> bool" where
  "ungated plan \<longleftrightarrow> (\<forall>l. wp_lifecycle plan = Some l \<longrightarrow> gatesFromPlan l = [])"

lemma accepted_starts:
  assumes "accepted_start raw keys"
  shows "typefluxYamlWorkflow env raw keys now input = (Ready 0 input, initial_state env now input)"
  using assms by (auto simp: accepted_start_def typefluxYamlWorkflow_def Let_def)

lemma initial_unattended: "ungated (we_plan env) \<Longrightarrow> lc_holds unattended (initial_state env now input)"
  by (auto simp: ungated_def initial_state_def lc_holds_def unattended_def addUnits_def lc_started_def
      record_event_def new_LifecycleRuntime_def Let_def)

lemma initial_frame [simp]:
  "ws_calls (initial_state env now input) = []" "ws_stack (initial_state env now input) = []"
  "ws_context (initial_state env now input) = [(''input'', input)]"
  by (simp_all add: initial_state_def Let_def)

lemma run_events_append: "run_events env (xs @ ys) c = run_events env ys (run_events env xs c)"
  by (simp add: run_events_def)

lemma sequence_calls_append [simp]:
  "length vs = length ss \<Longrightarrow> sequence_calls env (ss @ ts) v vs = sequence_calls env ss v vs"
  by (induction env ss v vs rule: sequence_calls.induct) auto

lemma sequence_entries_append [simp]:
  "length vs = length ss \<Longrightarrow> sequence_entries (ss @ ts) vs = sequence_entries ss vs"
  by (induction ss vs rule: sequence_entries.induct) auto

text \<open>C38: A workflow of atomic steps whose calls all succeed completes with the last result: each step is called
  once, in order, on the result of the one before, and the context ends with every result under its
  step's id.\<close>

theorem sequence_completes:
  assumes "accepted_start raw keys" "ungated (we_plan env)"
    and "list_all atomic_step (wp_steps (we_plan env))" "length vs = length (wp_steps (we_plan env))"
  shows "\<exists>st. run_events env (successes vs @ [Tick]) (typefluxYamlWorkflow env raw keys now input) =
      (Finished (Inr (last (input # vs))), st)
    \<and> ws_calls st = sequence_calls env (wp_steps (we_plan env)) input vs
    \<and> ws_context st = sequence_context (wp_steps (we_plan env)) vs [(''input'', input)]"
proof -
  obtain st1 where "run_events env (successes vs) (Ready 0 input, initial_state env now input) =
      (Ready (length (wp_steps (we_plan env))) (last (input # vs)), st1)"
    "ws_calls st1 = sequence_calls env (wp_steps (we_plan env)) input vs"
    "ws_context st1 = sequence_context (wp_steps (we_plan env)) vs [(''input'', input)]"
    using run_sequence [of 0 vs env "initial_state env now input" input] assms(3,4)
      initial_unattended [OF assms(2), of now input] by auto
  then show ?thesis
    by (simp add: accepted_starts [OF assms(1)] run_events_append run_step_def finish_run_def)
qed

lemma demo_accepted_start: "accepted_start (Some (enc_plan demo_trip)) None"
  by (simp add: accepted_start_def demo_trip_ok)

lemma demo_atomic: "ungated demo_trip" "list_all atomic_step [demo_book, demo_pay]"
  by (simp_all add: ungated_def demo_trip_def gatesFromPlan_def demo_book_def demo_pay_def)

lemma sequence_completes_witness:
  "\<exists>st. run_events demo_env (successes [JStr ''ref-7'', JStr ''paid''] @ [Tick]) demo_start = (Finished (Inr (JStr ''paid'')), st)"
proof -
  have "\<exists>st. run_events demo_env (successes [JStr ''ref-7'', JStr ''paid''] @ [Tick]) demo_start =
      (Finished (Inr (last [JStr ''oslo'', JStr ''ref-7'', JStr ''paid''])), st)
    \<and> ws_calls st = sequence_calls demo_env (wp_steps (we_plan demo_env)) (JStr ''oslo'') [JStr ''ref-7'', JStr ''paid'']
    \<and> ws_context st = sequence_context (wp_steps (we_plan demo_env)) [JStr ''ref-7'', JStr ''paid'']
        [(''input'', JStr ''oslo'')]"
    unfolding demo_start_def
    by (rule sequence_completes [OF demo_accepted_start])
       (use demo_atomic in \<open>simp_all add: demo_env_def demo_trip_def\<close>)
  then show ?thesis by auto
qed

text \<open>C13: When a step of such a workflow fails, the run ends with that failure, and its calls are: each step up to
  the failed one, in order, and then the compensations of the steps before it, last first, each on the
  result its step returned. Whatever else happens meanwhile (further signals, answers that fail) cannot
  change that.\<close>

theorem saga_compensates:
  assumes "accepted_start raw keys" "ungated (we_plan env)"
    and "wp_steps (we_plan env) = pre @ s # post" "list_all atomic_step (pre @ [s])" "length vs = length pre"
    and "run_events env (successes vs @ [Tick, Answer [] (Inl e)] @ evs) (typefluxYamlWorkflow env raw keys now input)
      = (Finished r, st)"
  shows "r = Inl (Call_rejected e)
    \<and> ws_calls st = sequence_calls env pre input vs @ [step_call env s (last (input # vs))]
        @ map (comp_call env) (rev (sequence_entries pre vs))"
proof -
  let ?i = "length pre"
  obtain st1 where st1: "run_events env (successes vs) (Ready 0 input, initial_state env now input) =
      (Ready ?i (last (input # vs)), st1)"
    "ws_calls st1 = sequence_calls env pre input vs" "ws_stack st1 = sequence_entries pre vs" "lc_holds unattended st1"
    using run_sequence [of 0 vs env "initial_state env now input" input] assms(3-5)
      initial_unattended [OF assms(2), of now input] by auto
  obtain st2 where st2: "run_events env [Tick, Answer [] (Inl e)] (Ready ?i (last (input # vs)), st1) =
      unwind env (Call_rejected e) st2"
    "ws_calls st2 = ws_calls st1 @ [step_call env s (last (input # vs))]" "ws_stack st2 = ws_stack st1"
    by (rule run_atomic [of ?i env s st1 "last (input # vs)" _ e]) (use assms(3,4) st1(4) in simp_all)
  have run: "run_events env evs (unwind env (Call_rejected e) st2) = (Finished r, st)"
    using assms(6) unfolding accepted_starts [OF assms(1)] run_events_append st1(1) st2(1) .
  from turned_run [OF unwind_turned, of env "Call_rejected e" st2 evs]
  have "turned env (Call_rejected e) (ws_calls st2 @ comp_calls env st2) (Finished r, st)" by (simp add: run)
  then show ?thesis
    by (cases r) (auto simp: turned_def comp_calls_def st1 st2)
qed

lemma saga_compensates_witness:
  "fst (run_events demo_env (demo_events @ [Answer [] (Inl (Ext_failed ''down''))]) demo_start) =
      Finished (Inl (Call_rejected (Ext_failed ''declined'')))
    \<and> ws_calls (snd (run_events demo_env (demo_events @ [Answer [] (Inl (Ext_failed ''down''))]) demo_start)) =
      [step_call demo_env demo_book (JStr ''oslo''), step_call demo_env demo_pay (JStr ''ref-7''),
       comp_call demo_env \<lparr>ce_stepId = ''book'', ce_activity = ''cancelTrip'', ce_input = JStr ''ref-7'', ce_retry = None\<rparr>]"
proof -
  let ?c = "run_events demo_env (demo_events @ [Answer [] (Inl (Ext_failed ''down''))]) demo_start"
  obtain r where r: "fst ?c = Finished r"
    by (simp add: demo_run_defs Let_def)
  have "r = Inl (Call_rejected (Ext_failed ''declined''))
    \<and> ws_calls (snd ?c) = sequence_calls demo_env [demo_book] (JStr ''oslo'') [JStr ''ref-7'']
        @ [step_call demo_env demo_pay (last (JStr ''oslo'' # [JStr ''ref-7'']))]
        @ map (comp_call demo_env) (rev (sequence_entries [demo_book] [JStr ''ref-7'']))"
    by (rule saga_compensates [of "Some (enc_plan demo_trip)" None demo_env "[demo_book]" demo_pay "[]"
          "[JStr ''ref-7'']" "Ext_failed ''declined''" "[Answer [] (Inl (Ext_failed ''down''))]" "\<lambda>_. None" "JStr ''oslo''"])
       (use demo_accepted_start demo_atomic r in
        \<open>simp_all add: demo_env_def demo_trip_def successes_def demo_events_def demo_start_def prod_eq_iff\<close>)
  with r show ?thesis by (simp add: demo_book_def step_entries_def)
qed

section \<open>Compensation in general\<close>

text \<open>C39: The unwinding of a failed run ends after as many answers as there are recorded compensations, whether
  they succeed or fail and whatever signals arrive in between, always with the original failure; the
  reported compensation status is \<open>complete\<close> when all of them succeeded and \<open>partial\<close> otherwise.\<close>

theorem unwinding_ends:
  assumes "lc_holds no_comp_status st" "ws_stack st \<noteq> []" "length (ws_stack st) \<le> length (top_answers evs)"
  shows "\<exists>st1. run_events env evs (unwind env e st) = (Finished (Inl e), st1)
    \<and> lc_holds (\<lambda>rt. lr_compensationStatus rt =
        Some (comp_outcome (\<exists>a\<in>set (take (length (ws_stack st)) (top_answers evs)). isl a))) st1"
proof -
  obtain es entry where stack: "ws_stack st = es @ [entry]" using assms(2) by (metis append_butlast_last_id)
  let ?st = "issue (comp_call env entry) (on_lifecycle (compensationStarted (ce_stepId entry)) (st\<lparr>ws_stack := es\<rparr>))"
  have "unwind env e st = (Unwinding e False entry, ?st)"
    by (simp add: unwind_def pop_compensation_def stack Let_def comp_call_def)
  moreover have "lc_holds no_comp_status ?st" using assms(1) by simp
  moreover have "\<exists>st1. c = (Finished (Inl e), st1)
      \<and> lc_holds (\<lambda>rt. lr_compensationStatus rt =
        Some (comp_outcome (\<exists>a\<in>set (take (length (ws_stack st)) (top_answers evs)). isl a))) st1"
    if "unwound e False (entry # rev es) (top_answers evs) c" for c
    using that assms(3) by (cases c) (simp add: unwound_def stack Let_def)
  ultimately show ?thesis using unwinding_run [of ?st e False entry evs env] by simp
qed

definition demo_failing :: wf_state where
  "demo_failing = \<lparr>ws_context = [], ws_stack = [\<lparr>ce_stepId = ''a'', ce_activity = ''undoA'', ce_input = JNull, ce_retry = None\<rparr>,
      \<lparr>ce_stepId = ''b'', ce_activity = ''undoB'', ce_input = JNull, ce_retry = None\<rparr>],
     ws_lifecycle = Some (new_LifecycleRuntime (the (wp_lifecycle demo_trip)) (\<lambda>_. None)), ws_calls = []\<rparr>"

lemma unwinding_ends_witness:
  "\<exists>st1. run_events demo_env [Answer [] (Inl (Ext_failed ''x'')), Cancel_signal None, Answer [] (Inr JNull)]
      (unwind demo_env cancelled_failure demo_failing) = (Finished (Inl cancelled_failure), st1)
    \<and> lc_holds (\<lambda>rt. lr_compensationStatus rt = Some Comp_partial) st1"
  using unwinding_ends [of demo_failing "[Answer [] (Inl (Ext_failed ''x'')), Cancel_signal None, Answer [] (Inr JNull)]"
      demo_env cancelled_failure]
  by (simp add: demo_failing_def lc_holds_def no_comp_status_def new_LifecycleRuntime_def comp_outcome_def)

text \<open>C1: No recorded compensation is lost or run twice: from any moment of a run before it turned back, if it goes
  on to fail, then the last calls it makes are the compensations recorded by that moment, in reverse
  order of recording.\<close>

theorem no_compensation_lost:
  assumes "forward ph" "run_events env evs (ph, st) = (Finished (Inl e), st1)"
  shows "\<exists>between. ws_calls st1 = ws_calls st @ between @ map (comp_call env) (rev (ws_stack st))"
proof -
  have "moved env st (ph, st)" using assms(1) by (simp add: moved_stay growth.refl)
  from moved_run [OF this, of evs] assms(2) have "moved env st (Finished (Inl e), st1)" by simp
  then obtain st2 where "grows st st2" "ws_calls st1 @ comp_calls env st1 = ws_calls st2 @ comp_calls env st2"
    "ws_stack st1 = []" by (auto simp: moved_def turned_def)
  then show ?thesis by (auto simp: grows_def comp_calls_def)
qed

lemma no_compensation_lost_witness:
  "\<exists>st1 between. run_events demo_env (drop 2 demo_events @ [Answer [] (Inr JNull)]) (run_events demo_env (take 2 demo_events) demo_start)
      = (Finished (Inl (Call_rejected (Ext_failed ''declined''))), st1)
    \<and> ws_calls st1 = ws_calls (snd (run_events demo_env (take 2 demo_events) demo_start)) @ between
        @ map (comp_call demo_env) (rev (ws_stack (snd (run_events demo_env (take 2 demo_events) demo_start))))"
proof -
  let ?c = "run_events demo_env (take 2 demo_events) demo_start"
  have f: "forward (fst ?c)" by (simp add: demo_run_defs Let_def)
  obtain st1 where st1: "run_events demo_env (drop 2 demo_events @ [Answer [] (Inr JNull)]) (fst ?c, snd ?c)
      = (Finished (Inl (Call_rejected (Ext_failed ''declined''))), st1)"
    by (simp add: demo_run_defs Let_def)
  from no_compensation_lost [OF f this] st1 show ?thesis by simp
qed

section \<open>Calls in progress\<close>

definition awaiting :: "config \<Rightarrow> bool" where
  "awaiting c \<longleftrightarrow> (\<forall>i p. fst c = In_step i p \<longrightarrow> live p)"

lemma awaiting_unwind [simp]: "awaiting (unwind env e st)"
  by (simp add: awaiting_def unwind_def pop_compensation_def Let_def)

lemma awaiting_step_result:
  assumes "\<And>p. fst r = Inr p \<Longrightarrow> live p"
  shows "awaiting (step_result env i r)"
  using assms
  by (auto simp: step_result_def after_step_value_def Let_def split: prod.splits sum.splits option.splits)
     (simp_all add: awaiting_def)

lemma awaiting_event:
  assumes "awaiting (ph, st)"
  shows "awaiting (workflow_event env ev (ph, st))"
proof (cases ph)
  case (Ready i v)
  have "awaiting (step_result env i (start_step env s v st'))" for s st'
    by (rule awaiting_step_result) (cases "start_step env s v st'", auto dest: start_live(3))
  then have "awaiting (run_step env i v st)"
    by (auto simp: run_step_def finish_run_def Let_def split: sum.splits bool.splits) (simp_all add: awaiting_def)
  then show ?thesis using Ready assms by (cases ev) (auto simp: signal_phase_def Let_def awaiting_def)
next
  case (In_step i p)
  then have p: "live p" using assms by (simp add: awaiting_def)
  have "awaiting (step_result env i (deliver env False path ans p st))" for path ans
    by (rule awaiting_step_result) (cases "deliver env False path ans p st", auto dest: deliver_live [OF _ p])
  then show ?thesis using In_step p by (cases ev) (auto simp: signal_phase_def Let_def awaiting_def cancel_scopes_live(1))
next
  case (At_gate i g v)
  have "awaiting (follow_route env i v t st')" for t st'
    by (auto simp: follow_route_def split: option.splits) (simp add: awaiting_def)
  then have "awaiting (poll_gate env i g v rt st)" "awaiting (expire_gate env i g v rt st)" for rt
    by (auto simp: poll_gate_def expire_gate_def Let_def split: prod.splits timeout_outcome.splits)
       (simp_all add: awaiting_def)
  then show ?thesis using At_gate assms
    by (cases ev) (auto simp: signal_phase_def Let_def awaiting_def split: option.splits)
next
  case (Unwinding e failed entry)
  have "awaiting (pop_compensation env e f st')" for f st'
    by (simp add: awaiting_def pop_compensation_def Let_def)
  then have "awaiting (workflow_event env (Answer path ans) (ph, st))" for path ans
    using Unwinding assms by (cases path) (auto simp: answer_compensation_def split: sum.splits)
  then show ?thesis using Unwinding assms by (cases ev) (auto simp: signal_phase_def Let_def awaiting_def)
next
  case (Finished r)
  with assms show ?thesis by simp
qed

lemma awaiting_run: "awaiting c \<Longrightarrow> awaiting (run_events env evs c)"
proof (induction evs arbitrary: c)
  case (Cons ev evs)
  obtain ph st where "c = (ph, st)" by (cases c)
  with Cons show ?case by (simp add: awaiting_event del: workflow_event.simps)
qed simp

lemma awaiting_start: "awaiting (typefluxYamlWorkflow env raw keys now input)"
  by (simp add: awaiting_def typefluxYamlWorkflow_def Let_def)

text \<open>C12: Structured concurrency: while a run is in a step it awaits at least one call, an answer to any other
  call changes nothing, and the run leaves the step only on the answer to the last call it awaits; so no
  branch and no map item is still in flight when the next step, a gate or the compensations begin.\<close>

theorem structured_concurrency:
  assumes "run_events env evs (typefluxYamlWorkflow env raw keys now input) = (In_step i p, st)"
  shows "pending p \<noteq> []
    \<and> (path \<notin> set (pending p) \<longrightarrow> workflow_event env (Answer path ans) (In_step i p, st) = (In_step i p, st))
    \<and> (set (pending p) \<noteq> {path} \<longrightarrow>
        (\<exists>p1 st1. workflow_event env (Answer path ans) (In_step i p, st) = (In_step i p1, st1)))"
proof -
  have l: "live p" using awaiting_run [OF awaiting_start, of env evs env raw keys now input] assms
    by (simp add: awaiting_def)
  have "\<exists>p1 st1. deliver env False path ans p st = (Inr p1, st1)" if "set (pending p) \<noteq> {path}"
    using that deliver_ends [of env False path ans p st]
    by (cases "deliver env False path ans p st"; cases "fst (deliver env False path ans p st)") auto
  then have "\<exists>p1 st1. workflow_event env (Answer path ans) (In_step i p, st) = (In_step i p1, st1)"
    if "set (pending p) \<noteq> {path}" using that by (fastforce simp: step_result_def)
  moreover have "workflow_event env (Answer path ans) (In_step i p, st) = (In_step i p, st)"
    if "path \<notin> set (pending p)" using that by (simp add: deliver_stray step_result_def)
  ultimately show ?thesis by (simp add: live_pending(1) [OF l] del: workflow_event.simps)
qed

lemma structured_concurrency_witness:
  "\<exists>p st. run_events demo_env [Tick] demo_start = (In_step 0 p, st) \<and> pending p \<noteq> []"
proof -
  obtain p st where run: "run_events demo_env [Tick] demo_start = (In_step 0 p, st)"
    by (simp add: demo_run_defs Let_def)
  from structured_concurrency [OF run [unfolded demo_start_def]] run show ?thesis by blast
qed

section \<open>The reported end\<close>

text \<open>C23: The lifecycle tells how the run ended: \<open>completed\<close> exactly for a result, \<open>cancelled\<close> exactly for the
  cancellation failure and \<open>failed\<close> for every other failure, a compensation status is reported for every
  failure, and the reported state agrees, except that after a failed review it may be \<open>cancelling\<close>.\<close>

theorem run_status_truthful:
  assumes "run_events env evs (typefluxYamlWorkflow env raw keys now input) = (Finished r, st)"
    and "ws_lifecycle st = Some rt"
  shows "case r of
      Inr v \<Rightarrow> ls_terminal_status (lc_status rt) = Some T_completed \<and> ls_state (lc_status rt) = S_completed
    | Inl e \<Rightarrow> ls_compensation_status (lc_status rt) \<noteq> None
        \<and> ls_terminal_status (lc_status rt) = Some (if e = cancelled_failure then T_cancelled else T_failed)
        \<and> (ls_state (lc_status rt) = (if e = cancelled_failure then S_cancelled else S_failed)
           \<or> review_failure e \<and> ls_state (lc_status rt) = S_cancelling)"
proof -
  have "truthful (Finished r, st)" using truthful_run [OF truthful_start] assms(1) by metis
  with assms(2) show ?thesis
    by (cases r) (auto simp: truthful_def lc_holds_def completed_truly_def failed_truly_def lc_status_def
        split: if_splits)
qed

lemma run_status_truthful_witness:
  "\<exists>rt. ws_lifecycle (snd (run_events demo_env (demo_events @ [Answer [] (Inr JNull)]) demo_start)) = Some rt
    \<and> ls_terminal_status (lc_status rt) = Some T_failed"
proof -
  let ?c = "run_events demo_env (demo_events @ [Answer [] (Inr JNull)]) demo_start"
  have "fst ?c = Finished (Inl (Call_rejected (Ext_failed ''declined'')))" "ws_lifecycle (snd ?c) \<noteq> None"
    by (simp_all add: demo_run_defs Let_def)
  then obtain rt where rt: "ws_lifecycle (snd ?c) = Some rt"
    and run: "?c = (Finished (Inl (Call_rejected (Ext_failed ''declined''))), snd ?c)"
    by (metis prod.collapse option.exhaust)
  from run_status_truthful [OF run [unfolded demo_start_def] rt [unfolded demo_start_def]] rt show ?thesis
    by (simp add: cancelled_failure_def demo_start_def del: run_events_Cons)
qed

section \<open>From a specification to a run\<close>

text \<open>A plan derived from a well-formed specification starts on the interpreter: its plan object passes the
  interpreter's own guard, and the run is at its first step with the input as running value, as the only
  context entry, with nothing called and nothing to compensate.\<close>

theorem derived_plan_starts:
  assumes "workflowPlanFromSpec digest fuel spec res = Inr p" "wf_yaml_spec spec" "wf_resolver res"
    and "we_plan env = p" "\<forall>ks. keys = Some ks \<longrightarrow> set ks \<subseteq> {''searchAttribute''}"
  shows "\<exists>st. typefluxYamlWorkflow env (Some (enc_plan p)) keys now input = (Ready 0 input, st)
    \<and> ws_context st = [(''input'', input)] \<and> ws_calls st = [] \<and> ws_stack st = []
    \<and> (ws_lifecycle st = None \<longleftrightarrow> wp_lifecycle p = None)"
proof -
  from assms(1) obtain c where "buildWorkflowPlan digest fuel spec res
      (case Option.bind res selfId of None \<Rightarrow> [] | Some i \<Rightarrow> [i]) [] = Inr (p, c)"
    by (auto simp: workflowPlanFromSpec_def rbind_eq_Inr)
  with buildWorkflowPlan_wf [of digest fuel] assms(2,3) have "wf_plan p"
    unfolding builder_wf_def by fastforce
  then have "accepted_start (Some (enc_plan p)) keys"
    using assms(5) by (simp add: accepted_start_def enc_accepted)
  then show ?thesis using assms(4) by (simp add: accepted_starts) (simp add: initial_state_def Let_def)
qed

lemma derived_plan_starts_witness:
  "\<exists>st. typefluxYamlWorkflow (demo_env\<lparr>we_plan := demo_plan\<rparr>) (Some (enc_plan demo_plan)) None (\<lambda>_. None) JNull
      = (Ready 0 JNull, st)"
  using derived_plan_starts [OF demo_plan_ok demo_wf(1,3), of "demo_env\<lparr>we_plan := demo_plan\<rparr>" None "\<lambda>_. None" JNull]
  by auto

text \<open>C5: A run of a derived plan only goes forward: through a step's turn, the step and its gate, and then to a
  later step. A step that was left is never entered again, whatever the reviewers decide.\<close>

theorem run_moves_forward:
  assumes "workflowPlanFromSpec digest fuel spec res = Inr p" "we_plan env = p"
    and "run_events env evs (typefluxYamlWorkflow env raw keys now input) = (ph1, st1)" "rank ph1 = Some m"
    and "run_events env evs' (ph1, st1) = (ph2, st2)" "rank ph2 = Some n"
  shows "m \<le> n"
proof -
  from derived_forward_plan [OF assms(1)] obtain plan where plan: "forward_plan (wp_steps (we_plan env)) plan"
    "\<And>l. wp_lifecycle (we_plan env) = Some l \<Longrightarrow> l = plan" using assms(2) by metis
  have "attended plan now env (typefluxYamlWorkflow env raw keys now input)" by (rule attended_any_plan [OF plan(2)])
  then have "attended plan now env (ph1, st1)" using attended_run assms(3) by metis
  moreover have "not_before m (ph1, st1)" using assms(4) by (simp add: not_before_def)
  ultimately have "not_before m (run_events env evs' (ph1, st1))" by (rule not_before_run [OF plan(1)])
  then show ?thesis using assms(5,6) by (simp add: not_before_def)
qed

lemma demo_first_step: "\<exists>a c ss. wp_steps demo_plan = ActivityStep ''draft'' a None c # ss"
  by (simp add: demo_plan_def derivation_defs demo_defs numeral_3_eq_3 Let_def cong: rbind_weak_cong)

lemma run_moves_forward_witness:
  "\<exists>p st m. run_events (demo_env\<lparr>we_plan := demo_plan\<rparr>) [Tick]
      (typefluxYamlWorkflow (demo_env\<lparr>we_plan := demo_plan\<rparr>) (Some (enc_plan demo_plan)) None (\<lambda>_. None) JNull)
      = (In_step 0 p, st) \<and> 0 \<le> m \<and> rank (In_step 0 p) = Some m"
proof -
  let ?env = "demo_env\<lparr>we_plan := demo_plan\<rparr>"
  obtain a c ss where first: "wp_steps demo_plan = ActivityStep ''draft'' a None c # ss" using demo_first_step by blast
  let ?c = "typefluxYamlWorkflow ?env (Some (enc_plan demo_plan)) None (\<lambda>_. None) JNull"
  let ?st = "initial_state ?env (\<lambda>_. None) JNull"
  have c: "?c = (Ready 0 JNull, ?st)" by (simp add: typefluxYamlWorkflow_def demo_accepted)
  have "\<not> cancel_requested ?st"
    by (simp add: cancel_requested_def initial_state_def Let_def lc_started_def addUnits_def record_event_def
        new_LifecycleRuntime_def split: option.split)
  then obtain p st where run: "run_events ?env [Tick] ?c = (In_step 0 p, st)"
    by (simp add: c run_step_def first gate_open_def step_result_def Let_def)
  have "0 \<le> (1::nat)"
    by (rule run_moves_forward [OF demo_plan_ok, of ?env "[]" "Some (enc_plan demo_plan)" None "\<lambda>_. None" JNull
          "Ready 0 JNull" ?st 0 "[Tick]" "In_step 0 p" st]) (use c run in simp_all)
  with run show ?thesis by simp
qed

text \<open>Whatever events a run gets, the interpreter drives the lifecycle runtime only by its operations and opens,
  routes and times out gates only while they wait, so what is proved of the runtime's reachable states
  holds at every moment of a run; and the gate a run waits at stands after the step it has just run.\<close>

theorem run_lifecycle_lawful:
  assumes "wp_lifecycle (we_plan env) = Some plan"
    and "run_events env evs (typefluxYamlWorkflow env raw keys now input) = (ph, st)" "ws_lifecycle st = Some rt"
  shows "lc_reachable plan now rt \<and> (\<forall>i g v. ph = At_gate i g v \<longrightarrow> waits_at env i g rt)"
proof -
  have "attended plan now env (typefluxYamlWorkflow env raw keys now input)" by (rule attended_start [OF assms(1)])
  then have "attended plan now env (ph, st)" using attended_run assms(2) by metis
  with assms(3) show ?thesis by (simp add: attended_def lawful_def lc_holds_def)
qed

lemma run_lifecycle_lawful_witness:
  "\<exists>rt. ws_lifecycle (snd (run_events demo_env [Tick] demo_start)) = Some rt
    \<and> lc_reachable (the (wp_lifecycle demo_trip)) (\<lambda>_. None) rt"
proof -
  let ?c = "run_events demo_env [Tick] demo_start"
  have "ws_lifecycle (snd ?c) \<noteq> None" by (simp add: demo_run_defs Let_def)
  then obtain rt where rt: "ws_lifecycle (snd ?c) = Some rt" by blast
  have "wp_lifecycle (we_plan demo_env) = Some (the (wp_lifecycle demo_trip))" by (simp add: demo_env_def demo_trip_def)
  from run_lifecycle_lawful [OF this, of "[Tick]" "Some (enc_plan demo_trip)" None "\<lambda>_. None" "JStr ''oslo''" "fst ?c" "snd ?c" rt] rt
  show ?thesis by (simp add: demo_start_def)
qed

section \<open>Review gates\<close>

text \<open>The trip with a review after the booking: an approval goes on to the payment; undecided, it fails after an hour.\<close>

definition demo_review :: review_plan where
  "demo_review = \<lparr>afterStep = ''book'', userDecisions = [(''approve'', ''pay'')], invalidUserDecision = Invalid_fail,
     timeoutSeconds = Some 3600, onTimeout = Some Timeout_fail, timeoutRoute = None\<rparr>"

definition demo_reviewed :: lifecycle_plan where
  "demo_reviewed = \<lparr>progress = True, cancellation = True, statusEventLimit = 10, review = Some demo_review, gates = None\<rparr>"

definition reviewed_env :: wf_env where
  "reviewed_env = demo_env\<lparr>we_plan := WorkflowPlan [demo_book, demo_pay] (Some demo_reviewed) None None\<rparr>"

lemma reviewed_accepted: "accepted_start (Some (enc_plan (we_plan reviewed_env))) None"
proof -
  have "planUnsupportedReason (Some (enc_plan (we_plan reviewed_env))) = None"
    by (rule enc_accepted) (simp add: reviewed_env_def demo_reviewed_def demo_review_def demo_book_def demo_pay_def
        wf_opt_def wf_compensate_def wf_lifecycle_def)
  then show ?thesis by (simp add: accepted_start_def)
qed

lemmas reviewed_run_defs = demo_run_defs reviewed_env_def demo_reviewed_def demo_review_def build_gate_def gates_of_def
  status_of_def gate_at_def waitingForGate_def refreshWaiting_def earliestWaitingGate_def update_gate_def
  open_seq_def submitReview_def parseReviewCommand_def string_or_null_def targetGate_def

text \<open>C36: The review gates of a run follow their machine. All of them start unopened; every event of the run moves
  them the way the machine says: a command decides the one gate it is for, with the route that gate
  declares for the decision, or is refused under that gate's policy, or is for no gate; the end of a step
  opens the gate due after it and the run goes past a step only when no gate is due; an open gate with a
  decision is passed and the run goes on at its route, an undecided one lapses the way it declares;
  nothing else changes a gate. And no gate is ever in a combination of flags that is not one of
  unopened, open and passed.\<close>

theorem gates_follow_machine:
  assumes "wp_lifecycle (we_plan env) = Some plan" "accepted_start raw keys"
    and "run_events env evs (typefluxYamlWorkflow env raw keys now input) = (ph, st)"
    and "workflow_event env ev (ph, st) = (ph', st')"
  shows "gates_of (snd (typefluxYamlWorkflow env raw keys now input)) =
        map (\<lambda>d. \<lparr>gx_phase = Unopened, gx_decision = None, gx_route = None, gx_invalid = False\<rparr>) (declared_gates plan)
    \<and> gates_move (wp_steps (we_plan env)) (declared_gates plan) (cancel_requested st) ph ev ph' (gates_of st) (gates_of st')
    \<and> (\<forall>a\<in>set (gates_of st'). gx_phase a \<noteq> Corrupt)"
proof -
  let ?start = "typefluxYamlWorkflow env raw keys now input"
  have start: "?start = (Ready 0 input, initial_state env now input)" by (rule accepted_starts [OF assms(2)])
  have "attended plan now env ?start" by (rule attended_start [OF assms(1)])
  then have att: "attended plan now env (ph, st)" using attended_run assms(3) by metis
  then have "attended plan now env (ph', st')" using attended_event assms(4) by metis
  then have "\<forall>a\<in>set (gates_of st'). gx_phase a \<noteq> Corrupt" using attended_proper by blast
  moreover have "ws_lifecycle st \<noteq> None"
    using lifecycle_run [of env evs ?start] assms(3) initial_gates(2) [OF assms(1), of now input] start by simp
  with moves_event [OF att, of ev] assms(4)
  have "gates_move (wp_steps (we_plan env)) (declared_gates plan) (cancel_requested st) ph ev ph' (gates_of st) (gates_of st')"
    by (simp add: moves_def)
  ultimately show ?thesis using initial_gates(1) [OF assms(1)] start by simp
qed

lemma gates_follow_machine_witness:
  "\<exists>v. gates_move [demo_book, demo_pay] [(''review'', demo_review)] False (At_gate 0 0 v)
     (Review_signal (Some (JObj [(''user_decision'', JStr ''approve'')]))) (At_gate 0 0 v)
     [\<lparr>gx_phase = Opened, gx_decision = None, gx_route = None, gx_invalid = False\<rparr>]
     [\<lparr>gx_phase = Opened, gx_decision = Some ''approve'', gx_route = Some ''pay'', gx_invalid = False\<rparr>]"
proof -
  let ?env = reviewed_env and ?command = "Some (JObj [(''user_decision'', JStr ''approve'')])"
  let ?start = "typefluxYamlWorkflow ?env (Some (enc_plan (we_plan ?env))) None (\<lambda>_. None) (JStr ''oslo'')"
  let ?c = "run_events ?env [Tick, Answer [] (Inr (JStr ''ref-7''))] ?start"
  have start: "?start = (Ready 0 (JStr ''oslo''), initial_state ?env (\<lambda>_. None) (JStr ''oslo''))"
    by (rule accepted_starts [OF reviewed_accepted])
  have at: "fst ?c = At_gate 0 0 (JStr ''ref-7'')" "\<not> cancel_requested (snd ?c)"
    "gates_of (snd ?c) = [\<lparr>gx_phase = Opened, gx_decision = None, gx_route = None, gx_invalid = False\<rparr>]"
    unfolding start by (simp_all add: reviewed_run_defs Let_def)
  let ?d = "workflow_event ?env (Review_signal ?command) ?c"
  have after: "fst ?d = At_gate 0 0 (JStr ''ref-7'')"
    "gates_of (snd ?d) = [\<lparr>gx_phase = Opened, gx_decision = Some ''approve'', gx_route = Some ''pay'', gx_invalid = False\<rparr>]"
    unfolding start by (simp_all add: reviewed_run_defs Let_def)
  have plan: "wp_lifecycle (we_plan ?env) = Some demo_reviewed" "wp_steps (we_plan ?env) = [demo_book, demo_pay]"
    "declared_gates demo_reviewed = [(''review'', demo_review)]"
    by (simp_all add: reviewed_env_def demo_reviewed_def declared_gates_def)
  have "gates_move [demo_book, demo_pay] [(''review'', demo_review)] (cancel_requested (snd ?c)) (fst ?c)
      (Review_signal ?command) (fst ?d) (gates_of (snd ?c)) (gates_of (snd ?d))"
    using gates_follow_machine [OF plan(1) reviewed_accepted prod.collapse [symmetric], where ev = "Review_signal ?command"
        and ph' = "fst ?d" and st' = "snd ?d"] unfolding plan prod.collapse by blast
  then have "gates_move [demo_book, demo_pay] [(''review'', demo_review)] False (At_gate 0 0 (JStr ''ref-7''))
      (Review_signal ?command) (At_gate 0 0 (JStr ''ref-7''))
      [\<lparr>gx_phase = Opened, gx_decision = None, gx_route = None, gx_invalid = False\<rparr>]
      [\<lparr>gx_phase = Opened, gx_decision = Some ''approve'', gx_route = Some ''pay'', gx_invalid = False\<rparr>]"
    using at(2) unfolding at after by (simp only: simp_thms)
  then show ?thesis by blast
qed

end
