(* ===== verification/Provider_Limits.thy ===== *)
theory Provider_Limits
  imports Prelude
begin

text \<open>
  Provider call admission (\<open>packages/typescript/temporal/src/provider-limits.ts\<close>): limits and their
  validation, the permit semaphore, the interval slots, and the choice of the policy that governs a
  call. Concurrency is a sequence of events: a call of \<open>limit\<close>, the continuation after \<open>acquire\<close>, a
  timer, an abort, the end of the admitted function. Numbers are finite; the clock is part of an event.
\<close>

section \<open>Limits\<close>

record call_limits =
  maxConcurrent :: "rat option"
  minIntervalSeconds :: "rat option"

datatype limits_error = MaxConcurrent_below_one | MinInterval_negative

definition validateLimits :: "call_limits \<Rightarrow> (limits_error, call_limits) result" where
  "validateLimits limits =
     (if (case maxConcurrent limits of None \<Rightarrow> False | Some n \<Rightarrow> n < 1) then Inl MaxConcurrent_below_one
      else if (case minIntervalSeconds limits of None \<Rightarrow> False | Some s \<Rightarrow> s < 0) then Inl MinInterval_negative
      else Inr limits)"

section \<open>The semaphore\<close>

record semaphore =
  available :: rat
  waiters :: "nat list"

datatype acquire_result = Acquire_aborted | Acquired | Queued

definition acquire :: "bool \<Rightarrow> nat \<Rightarrow> semaphore \<Rightarrow> semaphore \<times> acquire_result" where
  "acquire aborted call s =
     (if aborted then (s, Acquire_aborted)
      else if available s > 0 then (s\<lparr>available := available s - 1\<rparr>, Acquired)
      else (s\<lparr>waiters := waiters s @ [call]\<rparr>, Queued))"

text \<open>\<open>onAbort\<close> of a queued call; the result says whether the call was still waiting.\<close>

definition abort_waiter :: "nat \<Rightarrow> semaphore \<Rightarrow> semaphore \<times> bool" where
  "abort_waiter call s =
     (if call \<in> set (waiters s) then (s\<lparr>waiters := remove1 call (waiters s)\<rparr>, True) else (s, False))"

text \<open>\<open>release()\<close>, with the waiter the permit is handed to.\<close>

definition release :: "semaphore \<Rightarrow> semaphore \<times> nat option" where
  "release s =
     (case waiters s of
        next_call # rest \<Rightarrow> (s\<lparr>waiters := rest\<rparr>, Some next_call)
      | [] \<Rightarrow> (s\<lparr>available := available s + 1\<rparr>, None))"

section \<open>The limiter\<close>

record call_limiter =
  li_limits :: call_limits
  li_semaphore :: "semaphore option"
  li_nextCallAt :: rat

definition new_limiter :: "call_limits \<Rightarrow> (limits_error, call_limiter) result" where
  "new_limiter limits =
     rbind (validateLimits limits) (\<lambda>ok.
       Inr \<lparr>li_limits = ok,
            li_semaphore = map_option (\<lambda>n. \<lparr>available = n, waiters = []\<rparr>) (maxConcurrent limits),
            li_nextCallAt = 0\<rparr>)"

definition truthy_interval :: "call_limits \<Rightarrow> rat option" where
  "truthy_interval l = (case minIntervalSeconds l of None \<Rightarrow> None | Some s \<Rightarrow> if s = 0 then None else Some s)"

definition limiter_enabled :: "call_limiter \<Rightarrow> bool" where
  "limiter_enabled li \<longleftrightarrow> maxConcurrent (li_limits li) \<noteq> None \<or> truthy_interval (li_limits li) \<noteq> None"

definition reserveRateSlot :: "rat \<Rightarrow> rat \<Rightarrow> call_limiter \<Rightarrow> call_limiter \<times> rat" where
  "reserveRateSlot minInterval now li =
     (let waitSeconds = max 0 (li_nextCallAt li - now)
      in (li\<lparr>li_nextCallAt := max now (li_nextCallAt li) + minInterval\<rparr>, waitSeconds))"

text \<open>
  Where a call inside \<open>limit\<close> is once it holds its permit: before the continuation of the \<open>await\<close>,
  in the sleep of its interval slot, or inside the admitted function.
\<close>

datatype hold = Granted | Sleeping | Running

datatype limit_event =
    Ev_call nat bool
  | Ev_resume nat rat bool
  | Ev_timer nat
  | Ev_abort nat
  | Ev_settle nat

datatype limit_log =
    L_arrive nat
  | L_grant nat
  | L_leave nat
  | L_slot nat rat
  | L_start nat
  | L_reject nat
  | L_settle nat

record limit_state =
  ls_limiter :: call_limiter
  ls_holders :: "(nat \<times> hold) list"
  ls_log :: "limit_log list"

definition drop_holder :: "nat \<Rightarrow> (nat \<times> hold) list \<Rightarrow> (nat \<times> hold) list" where
  "drop_holder call hs = filter (\<lambda>h. fst h \<noteq> call) hs"

definition set_hold :: "nat \<Rightarrow> hold \<Rightarrow> (nat \<times> hold) list \<Rightarrow> (nat \<times> hold) list" where
  "set_hold call h hs = map (\<lambda>(c, old). if c = call then (c, h) else (c, old)) hs"

text \<open>\<open>finally \{ this.semaphore?.release() \}\<close> for a call that held a permit.\<close>

definition leave_limit :: "nat \<Rightarrow> limit_log \<Rightarrow> limit_state \<Rightarrow> limit_state" where
  "leave_limit call entry st =
     (let hs = drop_holder call (ls_holders st); li = ls_limiter st
      in case li_semaphore li of
           None \<Rightarrow> st\<lparr>ls_holders := hs, ls_log := ls_log st @ [entry]\<rparr>
         | Some s \<Rightarrow>
             (case release s of
                (s', None) \<Rightarrow>
                  st\<lparr>ls_limiter := li\<lparr>li_semaphore := Some s'\<rparr>, ls_holders := hs, ls_log := ls_log st @ [entry]\<rparr>
              | (s', Some next_call) \<Rightarrow>
                  st\<lparr>ls_limiter := li\<lparr>li_semaphore := Some s'\<rparr>, ls_holders := hs @ [(next_call, Granted)],
                     ls_log := ls_log st @ [entry, L_grant next_call]\<rparr>))"

definition limit_call :: "nat \<Rightarrow> bool \<Rightarrow> limit_state \<Rightarrow> limit_state" where
  "limit_call call aborted st =
     (if L_arrive call \<in> set (ls_log st) then st
      else
        (let li = ls_limiter st; hs = ls_holders st @ [(call, Granted)]
         in case li_semaphore li of
              None \<Rightarrow> st\<lparr>ls_holders := hs, ls_log := ls_log st @ [L_arrive call, L_grant call]\<rparr>
            | Some s \<Rightarrow>
                (case acquire aborted call s of
                   (s', Acquire_aborted) \<Rightarrow> st\<lparr>ls_log := ls_log st @ [L_arrive call, L_leave call, L_reject call]\<rparr>
                 | (s', Acquired) \<Rightarrow>
                     st\<lparr>ls_limiter := li\<lparr>li_semaphore := Some s'\<rparr>, ls_holders := hs,
                        ls_log := ls_log st @ [L_arrive call, L_grant call]\<rparr>
                 | (s', Queued) \<Rightarrow>
                     st\<lparr>ls_limiter := li\<lparr>li_semaphore := Some s'\<rparr>, ls_log := ls_log st @ [L_arrive call]\<rparr>)))"

definition limit_resume :: "nat \<Rightarrow> rat \<Rightarrow> bool \<Rightarrow> limit_state \<Rightarrow> limit_state" where
  "limit_resume call now aborted st =
     (if (call, Granted) \<notin> set (ls_holders st) then st
      else
        case truthy_interval (li_limits (ls_limiter st)) of
          None \<Rightarrow> st\<lparr>ls_holders := set_hold call Running (ls_holders st), ls_log := ls_log st @ [L_start call]\<rparr>
        | Some m \<Rightarrow>
            (let (li', waitSeconds) = reserveRateSlot m now (ls_limiter st);
                 st' = st\<lparr>ls_limiter := li', ls_log := ls_log st @ [L_slot call (now + waitSeconds)]\<rparr>
             in if waitSeconds > 0
                then if aborted then leave_limit call (L_reject call) st'
                     else st'\<lparr>ls_holders := set_hold call Sleeping (ls_holders st')\<rparr>
                else st'\<lparr>ls_holders := set_hold call Running (ls_holders st'), ls_log := ls_log st' @ [L_start call]\<rparr>))"

definition limit_timer :: "nat \<Rightarrow> limit_state \<Rightarrow> limit_state" where
  "limit_timer call st =
     (if (call, Sleeping) \<in> set (ls_holders st)
      then st\<lparr>ls_holders := set_hold call Running (ls_holders st), ls_log := ls_log st @ [L_start call]\<rparr>
      else st)"

definition limit_abort :: "nat \<Rightarrow> limit_state \<Rightarrow> limit_state" where
  "limit_abort call st =
     (if (call, Sleeping) \<in> set (ls_holders st) then leave_limit call (L_reject call) st
      else case li_semaphore (ls_limiter st) of
             None \<Rightarrow> st
           | Some s \<Rightarrow>
               (case abort_waiter call s of
                  (s', True) \<Rightarrow>
                    st\<lparr>ls_limiter := (ls_limiter st)\<lparr>li_semaphore := Some s'\<rparr>,
                       ls_log := ls_log st @ [L_leave call, L_reject call]\<rparr>
                | (s', False) \<Rightarrow> st))"

definition limit_settle :: "nat \<Rightarrow> limit_state \<Rightarrow> limit_state" where
  "limit_settle call st =
     (if (call, Running) \<in> set (ls_holders st) then leave_limit call (L_settle call) st else st)"

fun limit_step :: "limit_event \<Rightarrow> limit_state \<Rightarrow> limit_state" where
  "limit_step (Ev_call call aborted) st = limit_call call aborted st"
| "limit_step (Ev_resume call now aborted) st = limit_resume call now aborted st"
| "limit_step (Ev_timer call) st = limit_timer call st"
| "limit_step (Ev_abort call) st = limit_abort call st"
| "limit_step (Ev_settle call) st = limit_settle call st"

definition limit_start :: "call_limiter \<Rightarrow> limit_state" where
  "limit_start li = \<lparr>ls_limiter = li, ls_holders = [], ls_log = []\<rparr>"

definition limit_run :: "call_limiter \<Rightarrow> limit_event list \<Rightarrow> limit_state" where
  "limit_run li evs = fold limit_step evs (limit_start li)"

section \<open>Which limits govern a call\<close>

datatype policy_source = Src_model | Src_provider | Src_default | Src_none

record provider_policy =
  pp_limits :: "call_limits option"
  pp_models :: "(string \<times> call_limits) list"

record rate_limit_policy =
  rl_default :: "call_limits option"
  rl_providers :: "(string \<times> provider_policy) list"

record policy_selection =
  ps_providerName :: string
  ps_providerModel :: "string option"
  ps_policySource :: policy_source
  ps_policyKey :: string
  ps_limits :: "call_limits option"

definition selectProviderPolicy :: "rate_limit_policy \<Rightarrow> string \<Rightarrow> string option \<Rightarrow> policy_selection" where
  "selectProviderPolicy policy providerName providerModel =
     (let providerPolicy = map_of (rl_providers policy) providerName;
          modelLimits = (case (providerModel, providerPolicy) of
             (Some m, Some pp) \<Rightarrow> map_of (pp_models pp) m | _ \<Rightarrow> None);
          providerLimits = (case providerPolicy of None \<Rightarrow> None | Some pp \<Rightarrow> pp_limits pp);
          selection = (\<lambda>source key limits. \<lparr>ps_providerName = providerName, ps_providerModel = providerModel,
             ps_policySource = source, ps_policyKey = key, ps_limits = limits\<rparr>)
      in case (modelLimits, providerModel) of
           (Some l, Some m) \<Rightarrow> selection Src_model (''provider:'' @ providerName @ ''/model:'' @ m) (Some l)
         | _ \<Rightarrow>
           (case providerLimits of
              Some l \<Rightarrow> selection Src_provider (''provider:'' @ providerName) (Some l)
            | None \<Rightarrow>
              (case rl_default policy of
                 Some l \<Rightarrow> selection Src_default ''default'' (Some l)
               | None \<Rightarrow> selection Src_none
                   (''none:'' @ providerName @ '':'' @ (case providerModel of None \<Rightarrow> ''*'' | Some m \<Rightarrow> m)) None)))"

record limit_controller =
  lc_policy :: rate_limit_policy
  lc_limiters :: "string \<rightharpoonup> call_limiter"

definition check_limits :: "call_limits option \<Rightarrow> (limits_error, unit) result" where
  "check_limits l = (case l of None \<Rightarrow> Inr () | Some x \<Rightarrow> rbind (validateLimits x) (\<lambda>_. Inr ()))"

definition new_controller :: "rate_limit_policy \<Rightarrow> (limits_error, limit_controller) result" where
  "new_controller policy =
     rbind (check_limits (rl_default policy)) (\<lambda>_.
     rbind (each (\<lambda>(_, pp). rbind (check_limits (pp_limits pp)) (\<lambda>_.
              each (\<lambda>(_, l). check_limits (Some l)) (pp_models pp))) (rl_providers policy)) (\<lambda>_.
     Inr \<lparr>lc_policy = policy, lc_limiters = Map.empty\<rparr>))"

definition controller_select :: "limit_controller \<Rightarrow> string \<Rightarrow> string option \<Rightarrow> policy_selection" where
  "controller_select c = selectProviderPolicy (lc_policy c)"

definition limiterFor ::
    "limit_controller \<Rightarrow> policy_selection \<Rightarrow> (limits_error, limit_controller \<times> call_limiter option) result" where
  "limiterFor c selection =
     (case ps_limits selection of
        None \<Rightarrow> Inr (c, None)
      | Some limits \<Rightarrow>
          (let shown = (\<lambda>li. if limiter_enabled li then Some li else None)
           in case lc_limiters c (ps_policyKey selection) of
                Some li \<Rightarrow> Inr (c, shown li)
              | None \<Rightarrow>
                  rbind (new_limiter limits) (\<lambda>li.
                    Inr (c\<lparr>lc_limiters := (lc_limiters c)(ps_policyKey selection \<mapsto> li)\<rparr>, shown li))))"

end
