(* ===== verification/Provider_Limits_Claims.thy ===== *)
theory Provider_Limits_Claims
  imports Provider_Limits
begin

text \<open>
  What the admission layer guarantees under every interleaving of calls, continuations, timers, aborts
  and completions: permits are never exceeded nor lost, waiting calls are admitted in order of
  arrival, interval slots are spaced, and the most specific policy wins.
\<close>

section \<open>Projections of the log\<close>

definition arrivals :: "limit_log list \<Rightarrow> nat list" where
  "arrivals l = concat (map (\<lambda>e. case e of L_arrive c \<Rightarrow> [c] | _ \<Rightarrow> []) l)"

definition grants :: "limit_log list \<Rightarrow> nat list" where
  "grants l = concat (map (\<lambda>e. case e of L_grant c \<Rightarrow> [c] | _ \<Rightarrow> []) l)"

definition leavers :: "limit_log list \<Rightarrow> nat list" where
  "leavers l = concat (map (\<lambda>e. case e of L_leave c \<Rightarrow> [c] | _ \<Rightarrow> []) l)"

definition slots :: "limit_log list \<Rightarrow> rat list" where
  "slots l = concat (map (\<lambda>e. case e of L_slot c t \<Rightarrow> [t] | _ \<Rightarrow> []) l)"

named_theorems log_simps \<open>projections of a growing log\<close>

lemma log_append [log_simps]:
  "arrivals (l @ m) = arrivals l @ arrivals m" "grants (l @ m) = grants l @ grants m"
  "leavers (l @ m) = leavers l @ leavers m" "slots (l @ m) = slots l @ slots m"
  by (simp_all add: arrivals_def grants_def leavers_def slots_def)

lemma log_Cons [log_simps]:
  "arrivals (e # m) = (case e of L_arrive c \<Rightarrow> [c] | _ \<Rightarrow> []) @ arrivals m"
  "grants (e # m) = (case e of L_grant c \<Rightarrow> [c] | _ \<Rightarrow> []) @ grants m"
  "leavers (e # m) = (case e of L_leave c \<Rightarrow> [c] | _ \<Rightarrow> []) @ leavers m"
  "slots (e # m) = (case e of L_slot c t \<Rightarrow> [t] | _ \<Rightarrow> []) @ slots m"
  by (simp_all add: arrivals_def grants_def leavers_def slots_def)

lemma log_Nil [log_simps]: "arrivals [] = []" "grants [] = []" "leavers [] = []" "slots [] = []"
  by (simp_all add: arrivals_def grants_def leavers_def slots_def)

lemma set_arrivals: "c \<in> set (arrivals l) \<longleftrightarrow> L_arrive c \<in> set l"
  by (induction l) (auto simp: log_simps split: limit_log.splits)

section \<open>The invariant\<close>

definition waiting :: "limit_state \<Rightarrow> nat list" where
  "waiting st = (case li_semaphore (ls_limiter st) of None \<Rightarrow> [] | Some s \<Rightarrow> waiters s)"

definition holding :: "limit_state \<Rightarrow> nat list" where
  "holding st = map fst (ls_holders st)"

definition permits_ok :: "limit_state \<Rightarrow> bool" where
  "permits_ok st \<longleftrightarrow>
     (case (maxConcurrent (li_limits (ls_limiter st)), li_semaphore (ls_limiter st)) of
        (None, None) \<Rightarrow> True
      | (Some n, Some s) \<Rightarrow> available s + of_nat (length (ls_holders st)) = n \<and> - 1 < available s
          \<and> (waiters s \<noteq> [] \<longrightarrow> available s \<le> 0)
      | _ \<Rightarrow> False)"

definition queue_ok :: "limit_state \<Rightarrow> bool" where
  "queue_ok st \<longleftrightarrow> distinct (arrivals (ls_log st)) \<and> distinct (holding st)
     \<and> set (holding st) \<subseteq> set (grants (ls_log st))
     \<and> grants (ls_log st) @ waiting st
       = filter (\<lambda>c. c \<notin> set (leavers (ls_log st))) (arrivals (ls_log st))
     \<and> set (leavers (ls_log st)) \<subseteq> set (arrivals (ls_log st))"

definition spaced :: "rat \<Rightarrow> rat list \<Rightarrow> bool" where
  "spaced m ts \<longleftrightarrow> sorted_wrt (\<lambda>a b. a + m \<le> b) ts"

definition spacing_ok :: "limit_state \<Rightarrow> bool" where
  "spacing_ok st \<longleftrightarrow>
     (case truthy_interval (li_limits (ls_limiter st)) of
        None \<Rightarrow> slots (ls_log st) = []
      | Some m \<Rightarrow> 0 \<le> m \<and> spaced m (slots (ls_log st))
          \<and> (\<forall>t\<in>set (slots (ls_log st)). t + m \<le> li_nextCallAt (ls_limiter st)))"

definition limit_inv :: "limit_state \<Rightarrow> bool" where
  "limit_inv st \<longleftrightarrow> permits_ok st \<and> queue_ok st \<and> spacing_ok st"

lemma holding_set_hold [simp]: "map fst (set_hold c h hs) = map fst hs"
  by (induction hs) (auto simp: set_hold_def)

lemma length_set_hold [simp]: "length (set_hold c h hs) = length hs"
  by (simp add: set_hold_def)

lemma map_fst_drop_holder: "map fst (drop_holder c hs) = filter (\<lambda>x. x \<noteq> c) (map fst hs)"
  by (induction hs) (auto simp: drop_holder_def)

lemma length_drop_holder:
  "distinct (map fst hs) \<Longrightarrow> c \<in> set (map fst hs) \<Longrightarrow> Suc (length (drop_holder c hs)) = length hs"
proof (induction hs)
  case (Cons h hs)
  have "c \<notin> set (map fst hs) \<Longrightarrow> drop_holder c hs = hs"
    by (auto simp: drop_holder_def intro!: filter_True)
  with Cons show ?case by (auto simp: drop_holder_def)
qed simp

lemma queue_distinct: "queue_ok st \<Longrightarrow> distinct (grants (ls_log st) @ waiting st)"
  by (metis distinct_filter queue_ok_def)

text \<open>An update that touches neither holders, permits, arrivals nor slots.\<close>

lemma limit_inv_hold:
  "limit_inv st \<Longrightarrow> limit_inv (st\<lparr>ls_holders := set_hold c h (ls_holders st), ls_log := ls_log st @ [L_start c]\<rparr>)"
  "limit_inv st \<Longrightarrow> limit_inv (st\<lparr>ls_holders := set_hold c h (ls_holders st)\<rparr>)"
  by (auto simp: limit_inv_def permits_ok_def queue_ok_def spacing_ok_def holding_def waiting_def log_simps
      split: option.splits)

lemma limit_inv_leave:
  assumes inv: "limit_inv st" and held: "c \<in> set (holding st)"
    and e: "e = L_reject c \<or> e = L_settle c"
  shows "limit_inv (leave_limit c e st)"
proof -
  have d: "distinct (holding st)" "c \<in> set (map fst (ls_holders st))"
    using inv held by (auto simp: limit_inv_def queue_ok_def holding_def)
  have len: "Suc (length (drop_holder c (ls_holders st))) = length (ls_holders st)"
    using length_drop_holder [OF _ d(2)] d(1) by (simp add: holding_def)
  show ?thesis
  proof (cases "li_semaphore (ls_limiter st)")
    case None
    with inv e d show ?thesis
      by (auto simp: leave_limit_def limit_inv_def permits_ok_def queue_ok_def spacing_ok_def holding_def
          waiting_def log_simps map_fst_drop_holder split: option.splits)
  next
    case (Some s)
    show ?thesis
    proof (cases "waiters s")
      case Nil
      with Some inv e d len show ?thesis
        by (auto simp: leave_limit_def release_def limit_inv_def permits_ok_def queue_ok_def spacing_ok_def
            holding_def waiting_def log_simps map_fst_drop_holder split: option.splits)
    next
      case (Cons w ws)
      have q: "queue_ok st" using inv by (simp add: limit_inv_def)
      have "distinct (grants (ls_log st) @ w # ws)"
        using queue_distinct [OF q] Some Cons by (simp add: waiting_def)
      then have "w \<notin> set (grants (ls_log st))" by simp
      then have "w \<notin> set (holding st)" using q by (auto simp: queue_ok_def)
      with Cons Some inv e d len show ?thesis
        by (auto simp: leave_limit_def release_def limit_inv_def permits_ok_def queue_ok_def spacing_ok_def
            holding_def waiting_def log_simps map_fst_drop_holder split: option.splits)
    qed
  qed
qed

lemma remove1_filter:
  assumes "distinct (gs @ ws)" and "gs @ ws = filter (\<lambda>x. x \<notin> L) as" and "c \<in> set ws"
  shows "gs @ remove1 c ws = filter (\<lambda>x. x \<notin> insert c L) as"
proof -
  have "gs @ remove1 c ws = filter (\<lambda>x. x \<noteq> c) (gs @ ws)"
  proof -
    have "filter (\<lambda>x. x \<noteq> c) gs = gs" using assms(1,3) by (intro filter_True) auto
    moreover have "remove1 c ws = filter (\<lambda>x. x \<noteq> c) ws"
      using assms(1) by (auto simp: distinct_remove1_removeAll removeAll_filter_not_eq intro: filter_cong)
    ultimately show ?thesis by simp
  qed
  also have "\<dots> = filter (\<lambda>x. x \<notin> insert c L) as"
    unfolding assms(2) by (auto intro: filter_cong)
  finally show ?thesis .
qed

lemma limit_inv_abort: "limit_inv st \<Longrightarrow> limit_inv (limit_abort c st)"
proof -
  assume inv: "limit_inv st"
  show ?thesis
  proof (cases "(c, Sleeping) \<in> set (ls_holders st)")
    case True
    then have "c \<in> set (holding st)" by (force simp: holding_def)
    from limit_inv_leave [OF inv this] True show ?thesis by (simp add: limit_abort_def)
  next
    case False
    show ?thesis
    proof (cases "c \<in> set (waiting st)")
      case waits: True
      then obtain s where s: "li_semaphore (ls_limiter st) = Some s" "c \<in> set (waiters s)"
        by (cases "li_semaphore (ls_limiter st)") (auto simp: waiting_def)
      have q: "queue_ok st" using inv by (simp add: limit_inv_def)
      then have "grants (ls_log st) @ remove1 c (waiters s)
          = filter (\<lambda>x. x \<notin> insert c (set (leavers (ls_log st)))) (arrivals (ls_log st))"
        using remove1_filter [OF queue_distinct [OF q], of "set (leavers (ls_log st))" "arrivals (ls_log st)" c]
          waits s by (simp add: queue_ok_def waiting_def)
      moreover have "c \<in> set (arrivals (ls_log st))"
        using q waits unfolding queue_ok_def by (metis (no_types, lifting) Un_iff filter_is_subset set_append subsetD)
      moreover have "remove1 c (waiters s) \<noteq> [] \<Longrightarrow> waiters s \<noteq> []" by auto
      ultimately show ?thesis
        using inv False s
        by (auto simp: limit_abort_def abort_waiter_def limit_inv_def permits_ok_def queue_ok_def spacing_ok_def
            holding_def waiting_def log_simps split: option.splits)
    next
      case no: False
      with inv False show ?thesis
        by (auto simp: limit_abort_def abort_waiter_def waiting_def split: option.splits)
    qed
  qed
qed

lemma limit_inv_settle: "limit_inv st \<Longrightarrow> limit_inv (limit_settle c st)"
proof -
  assume inv: "limit_inv st"
  have "c \<in> set (holding st)" if "(c, Running) \<in> set (ls_holders st)"
    using that by (force simp: holding_def)
  with limit_inv_leave [OF inv] inv show ?thesis by (simp add: limit_settle_def)
qed

lemma limit_inv_timer: "limit_inv st \<Longrightarrow> limit_inv (limit_timer c st)"
  by (simp add: limit_timer_def limit_inv_hold)

lemma limit_inv_call: "limit_inv st \<Longrightarrow> limit_inv (limit_call c ab st)"
proof -
  assume inv: "limit_inv st"
  show ?thesis
  proof (cases "L_arrive c \<in> set (ls_log st)")
    case False
    then have new: "c \<notin> set (arrivals (ls_log st))" by (simp add: set_arrivals)
    have q: "queue_ok st" using inv by (simp add: limit_inv_def)
    then have g: "set (grants (ls_log st)) \<subseteq> set (arrivals (ls_log st))"
      unfolding queue_ok_def by (metis filter_is_subset le_sup_iff set_append)
    with new q have nh: "c \<notin> set (holding st)" "c \<notin> set (leavers (ls_log st))" "c \<notin> set (grants (ls_log st))"
      by (auto simp: queue_ok_def)
    have f: "filter (\<lambda>x. x \<noteq> c \<and> x \<notin> set (leavers (ls_log st))) (arrivals (ls_log st))
        = filter (\<lambda>x. x \<notin> set (leavers (ls_log st))) (arrivals (ls_log st))"
      using new by (intro filter_cong) auto
    show ?thesis
    proof (cases "li_semaphore (ls_limiter st)")
      case None
      with False inv new nh f show ?thesis
        by (auto simp: limit_call_def limit_inv_def permits_ok_def queue_ok_def spacing_ok_def
            holding_def waiting_def log_simps split: option.splits)
    next
      case (Some s)
      show ?thesis
      proof (cases "ab \<or> available s \<le> 0")
        case True
        with Some False inv new nh f show ?thesis
          by (auto simp: limit_call_def acquire_def limit_inv_def permits_ok_def queue_ok_def spacing_ok_def
              holding_def waiting_def log_simps split: option.splits)
      next
        case free: False
        with inv Some have "waiters s = []"
          by (auto simp: limit_inv_def permits_ok_def split: option.splits)
        with free Some False inv new nh f show ?thesis
          by (auto simp: limit_call_def acquire_def limit_inv_def permits_ok_def queue_ok_def spacing_ok_def
              holding_def waiting_def log_simps split: option.splits)
      qed
    qed
  qed (use inv in \<open>simp add: limit_call_def\<close>)
qed

lemma limit_inv_slot:
  assumes inv: "limit_inv st" and m: "truthy_interval (li_limits (ls_limiter st)) = Some m"
    and r: "reserveRateSlot m now (ls_limiter st) = (li', w)"
  shows "limit_inv (st\<lparr>ls_limiter := li', ls_log := ls_log st @ [L_slot c (now + w)]\<rparr>)"
proof -
  have slot: "now + w = max now (li_nextCallAt (ls_limiter st))"
    and li': "li' = (ls_limiter st)\<lparr>li_nextCallAt := max now (li_nextCallAt (ls_limiter st)) + m\<rparr>"
    using r by (auto simp: reserveRateSlot_def Let_def)
  have "spaced m (slots (ls_log st) @ [now + w])" "0 \<le> m"
    using inv m slot by (auto simp: limit_inv_def spacing_ok_def spaced_def sorted_wrt_append)
  with inv m slot li' show ?thesis
    by (auto simp: limit_inv_def permits_ok_def queue_ok_def spacing_ok_def holding_def waiting_def log_simps
        split: option.splits)
qed

lemma limit_inv_resume: "limit_inv st \<Longrightarrow> limit_inv (limit_resume c now ab st)"
proof -
  assume inv: "limit_inv st"
  show ?thesis
  proof (cases "(c, Granted) \<in> set (ls_holders st)")
    case True
    then have h: "c \<in> set (map fst (ls_holders st))" by force
    show ?thesis
    proof (cases "truthy_interval (li_limits (ls_limiter st))")
      case None
      with True inv show ?thesis by (simp add: limit_resume_def limit_inv_hold)
    next
      case (Some m)
      obtain li' w where r: "reserveRateSlot m now (ls_limiter st) = (li', w)" by fastforce
      let ?st = "st\<lparr>ls_limiter := li', ls_log := ls_log st @ [L_slot c (now + w)]\<rparr>"
      have i: "limit_inv ?st" by (rule limit_inv_slot [OF inv Some r])
      have "limit_resume c now ab st = (if w > 0 then if ab then leave_limit c (L_reject c) ?st
          else ?st\<lparr>ls_holders := set_hold c Sleeping (ls_holders ?st)\<rparr>
          else ?st\<lparr>ls_holders := set_hold c Running (ls_holders ?st), ls_log := ls_log ?st @ [L_start c]\<rparr>)"
        using True Some r by (simp add: limit_resume_def Let_def)
      moreover have "c \<in> set (holding ?st)" using h by (simp add: holding_def)
      ultimately show ?thesis using limit_inv_leave [OF i] limit_inv_hold [OF i] by (simp split del: if_split split: if_split)
    qed
  qed (use inv in \<open>simp add: limit_resume_def\<close>)
qed

lemma limit_inv_step: "limit_inv st \<Longrightarrow> limit_inv (limit_step ev st)"
  by (cases ev) (simp_all add: limit_inv_call limit_inv_resume limit_inv_timer limit_inv_abort limit_inv_settle)

lemma limit_inv_start:
  assumes "new_limiter limits = Inr li"
  shows "limit_inv (limit_start li)"
proof -
  have li: "li = \<lparr>li_limits = limits, li_semaphore = map_option (\<lambda>n. \<lparr>available = n, waiters = []\<rparr>) (maxConcurrent limits),
      li_nextCallAt = 0\<rparr>" and ok: "validateLimits limits = Inr limits"
    using assms by (auto simp: new_limiter_def result_simps validateLimits_def split: if_splits)
  from ok li show ?thesis
    by (auto simp: limit_inv_def permits_ok_def queue_ok_def spacing_ok_def spaced_def limit_start_def holding_def
        waiting_def log_simps validateLimits_def truthy_interval_def split: option.splits if_splits)
qed

lemma limit_inv_run: "new_limiter limits = Inr li \<Longrightarrow> limit_inv (limit_run li evs)"
proof -
  have "limit_inv st \<Longrightarrow> limit_inv (fold limit_step evs st)" for st
    by (induction evs arbitrary: st) (simp_all add: limit_inv_step)
  then show "new_limiter limits = Inr li \<Longrightarrow> limit_inv (limit_run li evs)"
    by (simp add: limit_run_def limit_inv_start)
qed

section \<open>Guarantees\<close>

lemma leave_limits [simp]: "li_limits (ls_limiter (leave_limit c e st)) = li_limits (ls_limiter st)"
  by (auto simp: leave_limit_def Let_def split: option.splits prod.splits)

lemma step_limits: "li_limits (ls_limiter (limit_step ev st)) = li_limits (ls_limiter st)"
  by (cases ev)
    (auto simp: limit_call_def limit_resume_def limit_timer_def limit_abort_def limit_settle_def Let_def
      reserveRateSlot_def split: option.splits prod.splits acquire_result.splits bool.splits)

lemma limits_run:
  assumes "new_limiter limits = Inr li"
  shows "li_limits (ls_limiter (limit_run li evs)) = limits"
proof -
  have "li_limits (ls_limiter (fold limit_step evs st)) = li_limits (ls_limiter st)" for st
    by (induction evs arbitrary: st) (simp_all add: step_limits)
  moreover have "li_limits li = limits"
    using assms by (auto simp: new_limiter_def result_simps validateLimits_def split: if_splits)
  ultimately show ?thesis by (simp add: limit_run_def limit_start_def)
qed

text \<open>C33: Permits are neither exceeded nor lost: at every moment of every interleaving at most
  \<open>\<lceil>maxConcurrent\<rceil>\<close> calls are admitted, a call waits only while every permit is taken, and when no
  call is admitted none waits and all permits are back, whatever calls were aborted on the way.\<close>

theorem permits_bounded:
  assumes "new_limiter limits = Inr li" and "maxConcurrent limits = Some n"
  shows "int (length (ls_holders (limit_run li evs))) \<le> \<lceil>n\<rceil>
    \<and> (waiting (limit_run li evs) \<noteq> [] \<longrightarrow> n \<le> of_nat (length (ls_holders (limit_run li evs))))
    \<and> (ls_holders (limit_run li evs) = [] \<longrightarrow> waiting (limit_run li evs) = []
        \<and> map_option available (li_semaphore (ls_limiter (limit_run li evs))) = Some n)"
proof -
  let ?st = "limit_run li evs"
  have lim: "li_limits (ls_limiter ?st) = limits" using limits_run [OF assms(1)] .
  have "1 \<le> n" using assms by (auto simp: new_limiter_def result_simps validateLimits_def split: if_splits)
  obtain s where s: "li_semaphore (ls_limiter ?st) = Some s"
    and a: "available s + of_nat (length (ls_holders ?st)) = n" "- 1 < available s"
      "waiters s \<noteq> [] \<longrightarrow> available s \<le> 0"
    using limit_inv_run [OF assms(1), of evs] lim assms(2)
    by (auto simp: limit_inv_def permits_ok_def split: option.splits)
  from a(1,2) have "rat_of_int (int (length (ls_holders ?st)) - 1) < n" by simp
  then have "int (length (ls_holders ?st)) - 1 < \<lceil>n\<rceil>" by (simp only: less_ceiling_iff)
  with a s \<open>1 \<le> n\<close> show ?thesis by (auto simp: waiting_def)
qed

text \<open>C32: Admission is first come, first served: the calls admitted so far, followed by those still
  waiting, are exactly the calls that arrived, in order of arrival, without the ones that were
  aborted while they queued. So no call is lost, admitted twice or overtaken.\<close>

theorem admission_fifo:
  assumes "new_limiter limits = Inr li"
  shows "grants (ls_log (limit_run li evs)) @ waiting (limit_run li evs)
    = filter (\<lambda>c. c \<notin> set (leavers (ls_log (limit_run li evs)))) (arrivals (ls_log (limit_run li evs)))
    \<and> distinct (arrivals (ls_log (limit_run li evs)))"
  using limit_inv_run [OF assms, of evs] by (simp add: limit_inv_def queue_ok_def)

text \<open>Interval slots are spaced: any two slots reserved on one limiter, in the order they were
  reserved, lie at least \<open>minIntervalSeconds\<close> apart, for every reading of the clock (also one that
  stands still or runs backwards).\<close>

theorem slots_spaced:
  assumes "new_limiter limits = Inr li" and "truthy_interval limits = Some m"
    and "i < j" and "j < length (slots (ls_log (limit_run li evs)))"
  shows "slots (ls_log (limit_run li evs)) ! i + m \<le> slots (ls_log (limit_run li evs)) ! j"
proof -
  have "spaced m (slots (ls_log (limit_run li evs)))"
    using limit_inv_run [OF assms(1), of evs] limits_run [OF assms(1), of evs] assms(2)
    by (simp add: limit_inv_def spacing_ok_def)
  with assms(3,4) show ?thesis by (simp add: spaced_def sorted_wrt_iff_nth_less)
qed

section \<open>An instance\<close>

definition demo_limits :: call_limits where
  "demo_limits = \<lparr>maxConcurrent = Some 1, minIntervalSeconds = Some 2\<rparr>"

definition demo_limiter :: call_limiter where
  "demo_limiter = \<lparr>li_limits = demo_limits, li_semaphore = Some \<lparr>available = 1, waiters = []\<rparr>, li_nextCallAt = 0\<rparr>"

definition demo_events :: "limit_event list" where
  "demo_events = [Ev_call 0 False, Ev_call 1 False, Ev_call 2 False, Ev_resume 0 5 False, Ev_abort 1,
     Ev_settle 0, Ev_resume 2 6 False, Ev_timer 2]"

lemma demo_limiter: "new_limiter demo_limits = Inr demo_limiter"
  by (simp add: new_limiter_def validateLimits_def demo_limits_def demo_limiter_def)

lemmas demo_defs = demo_events_def limit_run_def limit_start_def demo_limiter_def demo_limits_def limit_call_def
  limit_resume_def limit_timer_def limit_abort_def limit_settle_def acquire_def release_def abort_waiter_def
  leave_limit_def set_hold_def drop_holder_def reserveRateSlot_def truthy_interval_def Let_def

lemma demo_run:
  "ls_log (limit_run demo_limiter demo_events) =
     [L_arrive 0, L_grant 0, L_arrive 1, L_arrive 2, L_slot 0 5, L_start 0, L_leave 1, L_reject 1,
      L_settle 0, L_grant 2, L_slot 2 7, L_start 2]"
  "ls_holders (limit_run demo_limiter demo_events) = [(2, Running)]"
  by (simp_all add: demo_defs)

theorem permits_bounded_witness:
  "int (length (ls_holders (limit_run demo_limiter demo_events))) \<le> \<lceil>1 :: rat\<rceil>"
  using permits_bounded [OF demo_limiter, of 1 demo_events] by (simp add: demo_limits_def)

theorem admission_fifo_witness:
  "[0, 2] @ waiting (limit_run demo_limiter demo_events) = filter (\<lambda>c. c \<notin> {1}) [0, 1, 2 :: nat]"
  using admission_fifo [OF demo_limiter, of demo_events] by (simp add: demo_run log_simps)

theorem slots_spaced_witness:
  "slots (ls_log (limit_run demo_limiter demo_events)) ! 0 + 2 \<le> slots (ls_log (limit_run demo_limiter demo_events)) ! 1"
  using slots_spaced [OF demo_limiter, of 2 0 1 demo_events]
  by (simp add: demo_run log_simps demo_limits_def truthy_interval_def)

end
