(* ===== verification/Canonical_Facts.thy ===== *)
theory Canonical_Facts
  imports Canonical_Json
begin

text \<open>
  Why the canonical text identifies the value: number texts determine the double, escaped strings
  form a prefix code ending at the closing quote, and arrays and objects delimit their parts.
\<close>

section \<open>Digits\<close>

definition digit_chars :: "char set" where
  "digit_chars = digit_char ` {..<10}"

definition decimal :: "string \<Rightarrow> nat" where
  "decimal s = foldl (\<lambda>a c. 10 * a + (of_char c - 48)) 0 s"

lemma of_digit_char [simp]: "d < 10 \<Longrightarrow> (of_char (digit_char d) :: nat) = 48 + d"
  by (simp add: digit_char_def)

lemma digit_char_inj: "inj_on digit_char {..<10}"
  by (rule inj_onI) (metis of_digit_char add_left_imp_eq lessThan_iff)

lemma digit_char_0 [simp]: "digit_char 0 = CHR ''0''"
  by code_simp

lemma digit_char_zero: "d < 10 \<Longrightarrow> digit_char d = CHR ''0'' \<longleftrightarrow> d = 0"
  using inj_onD [OF digit_char_inj, of d 0] by auto

lemma digit_char_in [simp]: "d < 10 \<Longrightarrow> digit_char d \<in> digit_chars"
  by (simp add: digit_chars_def)

lemma of_digit_chars: "c \<in> digit_chars \<Longrightarrow> 48 \<le> (of_char c :: nat) \<and> (of_char c :: nat) \<le> 57"
  by (auto simp: digit_chars_def)

lemma not_digit [simp]:
  "CHR ''.'' \<notin> digit_chars" "CHR ''e'' \<notin> digit_chars" "CHR ''-'' \<notin> digit_chars"
  "CHR ''+'' \<notin> digit_chars" "CHR '','' \<notin> digit_chars" "CHR '']'' \<notin> digit_chars"
  "CHR ''}'' \<notin> digit_chars" "CHR ''N'' \<notin> digit_chars" "CHR ''I'' \<notin> digit_chars"
  by (auto dest!: of_digit_chars)

lemma map_digit_char_inj:
  "map digit_char ds = map digit_char ds' \<Longrightarrow> set ds \<subseteq> {..<10} \<Longrightarrow> set ds' \<subseteq> {..<10} \<Longrightarrow> ds = ds'"
  by (subst (asm) inj_on_map_eq_map) (auto intro: inj_on_subset [OF digit_char_inj])

lemma nat_text_digits: "set (nat_text n) \<subseteq> digit_chars"
proof (induction n rule: nat_text.induct)
  case (1 n)
  then show ?case by (subst nat_text.simps) auto
qed

lemma nat_text_neq_Nil [simp]: "nat_text n \<noteq> []"
  by (subst nat_text.simps) auto

lemma decimal_snoc: "decimal (s @ [c]) = 10 * decimal s + (of_char c - 48)"
  by (simp add: decimal_def)

lemma decimal_nat_text [simp]: "decimal (nat_text n) = n"
proof (induction n rule: nat_text.induct)
  case (1 n)
  then show ?case
    by (subst nat_text.simps) (auto simp: decimal_snoc, simp add: decimal_def)
qed

lemma decimal_zeros: "decimal (replicate k (CHR ''0'') @ s) = decimal s"
  by (induction k) (simp_all add: decimal_def)

lemma decimal_padStart [simp]: "decimal (padStart k (nat_text n)) = n"
  by (simp add: padStart_def decimal_zeros)

lemma nat_text_inj: "nat_text m = nat_text n \<longleftrightarrow> m = n"
  by (metis decimal_nat_text)

lemma hd_digits_minus: "set s \<subseteq> digit_chars \<Longrightarrow> CHR ''-'' # t \<noteq> s"
  by auto

lemma int_text_inj: "int_text i = int_text j \<longleftrightarrow> i = j"
  using hd_digits_minus [OF nat_text_digits] hd_digits_minus [OF nat_text_digits, symmetric]
  by (auto simp: int_text_def nat_text_inj split: if_splits)

lemma int_text_chars: "set (int_text i) \<subseteq> insert (CHR ''-'') digit_chars"
  using nat_text_digits by (auto simp: int_text_def)

lemma hd_nat_text: "hd (nat_text n) \<in> digit_chars"
  using nat_text_digits [of n] by (cases "nat_text n") (auto dest: arg_cong [where f = "\<lambda>x. x = []"])

section \<open>Numbers\<close>

text \<open>
  The decimals that are the shortest text of a double with a fractional part: normalised, and not
  an integer.
\<close>

fun wf_num :: "jsnum \<Rightarrow> bool" where
  "wf_num (FracN neg ds e) \<longleftrightarrow>
     ds \<noteq> [] \<and> (\<forall>d\<in>set ds. d < 10) \<and> hd ds \<noteq> 0 \<and> last ds \<noteq> 0 \<and> e < int (length ds) - 1"
| "wf_num _ \<longleftrightarrow> True"

definition fixed_text :: "nat list \<Rightarrow> int \<Rightarrow> string" where
  "fixed_text ds e =
     (if 0 \<le> e then take (nat (e + 1)) (map digit_char ds) @ ''.'' @ drop (nat (e + 1)) (map digit_char ds)
      else ''0.'' @ replicate (nat (- (e + 1))) (CHR ''0'') @ map digit_char ds)"

definition exp_text :: "nat list \<Rightarrow> int \<Rightarrow> string" where
  "exp_text ds e =
     mantissa_text ds @ ''e'' @ (if e < 0 then ''-'' else ''+'') @ padStart 2 (nat_text (nat \<bar>e\<bar>))"

lemma formatNumber_FracN:
  "formatNumber (FracN neg ds e) =
     sign_text neg @ (if e < - 4 \<or> e \<ge> 16 then exp_text ds e else fixed_text ds e)"
  by (auto simp: frac_text_def fixed_text_def exp_text_def sign_text_def Let_def)

declare formatNumber.simps(6) [simp del]

lemma append_sep_inj:
  "p @ c # q = p' @ c # q' \<Longrightarrow> c \<notin> set p \<Longrightarrow> c \<notin> set p' \<Longrightarrow> p = p' \<and> q = q'"
proof (induction p arbitrary: p')
  case Nil
  then show ?case by (cases p') auto
next
  case (Cons a p)
  then show ?case by (cases p') auto
qed

lemma digits_subset: "\<forall>d\<in>set ds. d < 10 \<Longrightarrow> set (map digit_char ds) \<subseteq> digit_chars"
  by auto

lemma zeros_split:
  "replicate m z @ xs = replicate n z @ ys \<Longrightarrow> xs \<noteq> [] \<Longrightarrow> ys \<noteq> [] \<Longrightarrow> hd xs \<noteq> z \<Longrightarrow> hd ys \<noteq> z
   \<Longrightarrow> m = n \<and> xs = ys"
proof (induction m arbitrary: n)
  case 0
  then show ?case by (cases n) auto
next
  case (Suc m)
  then show ?case by (cases n) auto
qed

lemma fixed_text_inj:
  assumes ds: "\<forall>d\<in>set ds. d < 10" "ds \<noteq> []" "hd ds \<noteq> 0" "e < int (length ds) - 1"
    and ds': "\<forall>d\<in>set ds'. d < 10" "ds' \<noteq> []" "hd ds' \<noteq> 0" "e' < int (length ds') - 1"
    and eq: "fixed_text ds e = fixed_text ds' e'"
  shows "ds = ds' \<and> e = e'"
proof -
  let ?D = "map digit_char ds" and ?D' = "map digit_char ds'"
  have hds: "hd ?D \<noteq> CHR ''0''" "hd ?D' \<noteq> CHR ''0''" "?D \<noteq> []" "?D' \<noteq> []"
    using ds ds' by (auto simp: hd_map digit_char_zero)
  have dot: "CHR ''.'' \<notin> set (take n ?D)" "CHR ''.'' \<notin> set (take n ?D')" for n
    using digits_subset [OF ds(1)] digits_subset [OF ds'(1)] not_digit(1)
    by (meson in_set_takeD subsetD)+
  have split: "?D = ?D' \<and> e = e'"
  proof (cases "0 \<le> e")
    case pos: True
    show ?thesis
    proof (cases "0 \<le> e'")
      case True
      with pos eq have "take (nat (e + 1)) ?D @ CHR ''.'' # drop (nat (e + 1)) ?D
          = take (nat (e' + 1)) ?D' @ CHR ''.'' # drop (nat (e' + 1)) ?D'"
        by (simp add: fixed_text_def)
      from append_sep_inj [OF this dot]
      have t: "take (nat (e + 1)) ?D = take (nat (e' + 1)) ?D'"
        and d: "drop (nat (e + 1)) ?D = drop (nat (e' + 1)) ?D'" by auto
      from arg_cong [OF t, of length] ds ds' pos True have "e = e'" by simp
      moreover from t d have "?D = ?D'" by (metis append_take_drop_id)
      ultimately show ?thesis by simp
    next
      case False
      with pos eq have "hd (fixed_text ds e) = CHR ''0''" by (simp add: fixed_text_def)
      moreover have "hd (fixed_text ds e) = hd ?D"
        using pos hds by (cases ds) (simp_all add: fixed_text_def nat_add_distrib)
      ultimately show ?thesis using hds by simp
    qed
  next
    case neg: False
    show ?thesis
    proof (cases "0 \<le> e'")
      case True
      with neg eq have "hd (fixed_text ds' e') = CHR ''0''" by (metis fixed_text_def append_Cons list.sel(1))
      moreover have "hd (fixed_text ds' e') = hd ?D'"
        using True hds by (cases ds') (simp_all add: fixed_text_def nat_add_distrib)
      ultimately show ?thesis using hds by simp
    next
      case False
      with neg eq have "replicate (nat (- (e + 1))) (CHR ''0'') @ ?D
          = replicate (nat (- (e' + 1))) (CHR ''0'') @ ?D'"
        by (simp add: fixed_text_def)
      from zeros_split [OF this hds(3,4) hds(1,2)] neg False show ?thesis by auto
    qed
  qed
  then show ?thesis using map_digit_char_inj [of ds ds'] ds ds' by auto
qed

lemma mantissa_text_Cons:
  "mantissa_text (d # ds) = digit_char d # (if ds = [] then [] else CHR ''.'' # map digit_char ds)"
  by (cases ds) (simp_all add: mantissa_text_def)

lemma digit_char_no_dot: "d < 10 \<Longrightarrow> digit_char d \<noteq> CHR ''.''"
  by (metis digit_char_in not_digit(1))

lemma filter_no_dot:
  "\<forall>d\<in>set ds. d < 10 \<Longrightarrow> filter (\<lambda>c. c \<noteq> CHR ''.'') (map digit_char ds) = map digit_char ds"
  by (auto intro!: filter_True simp: digit_char_no_dot)

lemma mantissa_filter:
  "\<forall>d\<in>set ds. d < 10 \<Longrightarrow> filter (\<lambda>c. c \<noteq> CHR ''.'') (mantissa_text ds) = map digit_char ds"
  by (cases ds) (auto simp: mantissa_text_Cons filter_no_dot digit_char_no_dot mantissa_text_def [of "[]"])

lemma mantissa_chars:
  "\<forall>d\<in>set ds. d < 10 \<Longrightarrow> set (mantissa_text ds) \<subseteq> insert (CHR ''.'') digit_chars"
  by (cases ds) (auto simp: mantissa_text_Cons mantissa_text_def [of "[]"])

lemma padStart_digits: "set (padStart k (nat_text n)) \<subseteq> digit_chars"
proof -
  have "CHR ''0'' \<in> digit_chars" using digit_char_in [of 0] by simp
  then show ?thesis using nat_text_digits by (auto simp: padStart_def)
qed

lemma exp_text_inj:
  assumes ds: "\<forall>d\<in>set ds. d < 10" and ds': "\<forall>d\<in>set ds'. d < 10"
    and eq: "exp_text ds e = exp_text ds' e'"
  shows "ds = ds' \<and> e = e'"
proof -
  have noe: "CHR ''e'' \<notin> set (mantissa_text ds)" "CHR ''e'' \<notin> set (mantissa_text ds')"
    using mantissa_chars [OF ds] mantissa_chars [OF ds'] not_digit(2) by auto
  let ?x = "\<lambda>e. (if e < 0 then CHR ''-'' else CHR ''+'') # padStart 2 (nat_text (nat \<bar>e\<bar>))"
  from eq have "mantissa_text ds @ CHR ''e'' # ?x e = mantissa_text ds' @ CHR ''e'' # ?x e'"
    by (simp add: exp_text_def split: if_splits)
  from append_sep_inj [OF this noe]
  have m: "mantissa_text ds = mantissa_text ds'" and x: "?x e = ?x e'" by auto
  from m have "map digit_char ds = map digit_char ds'"
    by (metis mantissa_filter ds ds')
  then have "ds = ds'" using map_digit_char_inj ds ds' by blast
  moreover from x have "(e < 0) = (e' < 0)" by (auto split: if_splits)
  moreover from x have "nat \<bar>e\<bar> = nat \<bar>e'\<bar>"
    by (metis decimal_padStart list.inject)
  ultimately show ?thesis by auto
qed

lemma e_in_exp_text: "CHR ''e'' \<in> set (exp_text ds e)"
  by (simp add: exp_text_def)

lemma fixed_text_chars:
  "\<forall>d\<in>set ds. d < 10 \<Longrightarrow> set (fixed_text ds e) \<subseteq> insert (CHR ''.'') digit_chars"
  using digit_char_in [of 0]
  by (auto simp: fixed_text_def dest!: in_set_takeD in_set_dropD)

lemma exp_text_chars:
  "\<forall>d\<in>set ds. d < 10 \<Longrightarrow>
   set (exp_text ds e) \<subseteq> {CHR ''.'', CHR ''e'', CHR ''+'', CHR ''-''} \<union> digit_chars"
  using mantissa_chars [of ds] padStart_digits [of 2 "nat \<bar>e\<bar>"] by (auto simp: exp_text_def)

lemma text_no_sign:
  assumes "\<forall>d\<in>set ds. d < 10" and "ds \<noteq> []"
  shows "exp_text ds e \<noteq> [] \<and> hd (exp_text ds e) \<noteq> CHR ''-''"
    and "fixed_text ds e \<noteq> [] \<and> hd (fixed_text ds e) \<noteq> CHR ''-''"
proof -
  obtain d ds' where d: "ds = d # ds'" using assms(2) by (cases ds) auto
  then have "hd (mantissa_text ds) = digit_char d" "mantissa_text ds \<noteq> []"
    by (auto simp: mantissa_text_def split: list.splits)
  moreover have "digit_char d \<noteq> CHR ''-''" using d assms(1) by (metis digit_char_in list.set_intros(1) not_digit(3))
  ultimately show "exp_text ds e \<noteq> [] \<and> hd (exp_text ds e) \<noteq> CHR ''-''"
    by (simp add: exp_text_def hd_append)
  show "fixed_text ds e \<noteq> [] \<and> hd (fixed_text ds e) \<noteq> CHR ''-''"
    using \<open>digit_char d \<noteq> CHR ''-''\<close> d by (simp add: fixed_text_def nat_add_distrib)
qed

lemma sign_split:
  "sign_text n @ s = sign_text n' @ s' \<Longrightarrow> s \<noteq> [] \<and> hd s \<noteq> CHR ''-'' \<Longrightarrow> s' \<noteq> [] \<and> hd s' \<noteq> CHR ''-''
   \<Longrightarrow> n = n' \<and> s = s'"
  by (cases s; cases s') (auto simp: sign_text_def split: if_splits)

lemma formatNumber_frac_inj:
  assumes "wf_num (FracN n ds e)" and "wf_num (FracN n' ds' e')"
    and "formatNumber (FracN n ds e) = formatNumber (FracN n' ds' e')"
  shows "FracN n ds e = FracN n' ds' e'"
proof -
  let ?t = "\<lambda>ds e. if e < - 4 \<or> e \<ge> 16 then exp_text ds e else fixed_text ds e"
  have dig: "\<forall>d\<in>set ds. d < 10" "\<forall>d\<in>set ds'. d < 10" "ds \<noteq> []" "ds' \<noteq> []"
    using assms(1,2) by auto
  have ns: "?t ds e \<noteq> [] \<and> hd (?t ds e) \<noteq> CHR ''-''" "?t ds' e' \<noteq> [] \<and> hd (?t ds' e') \<noteq> CHR ''-''"
    using text_no_sign dig by auto
  from sign_split [OF assms(3) [unfolded formatNumber_FracN] ns]
  have n: "n = n'" and t: "?t ds e = ?t ds' e'" by auto
  have "CHR ''e'' \<notin> set (fixed_text ds e)" "CHR ''e'' \<notin> set (fixed_text ds' e')"
    using fixed_text_chars dig not_digit(2) by blast+
  with t e_in_exp_text have "(e < - 4 \<or> e \<ge> 16) = (e' < - 4 \<or> e' \<ge> 16)"
    by (metis (full_types))
  with t dig assms(1,2) have "ds = ds' \<and> e = e'"
    using exp_text_inj fixed_text_inj by (metis (full_types) wf_num.simps(1))
  with n show ?thesis by simp
qed

lemma frac_not_int:
  assumes "wf_num (FracN n ds e)"
  shows "formatNumber (FracN n ds e) \<noteq> int_text i"
proof
  assume "formatNumber (FracN n ds e) = int_text i"
  then have "set (sign_text n @ (if e < - 4 \<or> e \<ge> 16 then exp_text ds e else fixed_text ds e))
      \<subseteq> insert (CHR ''-'') digit_chars"
    using int_text_chars [of i] by (simp only: formatNumber_FracN)
  moreover have "CHR ''.'' \<in> set (fixed_text ds e)" by (simp add: fixed_text_def)
  ultimately show False using e_in_exp_text [of ds e] not_digit(1,2) by (auto split: if_splits)
qed

text \<open>The value a number has in a content hash: \<open>-0\<close> is written as \<open>0\<close>.\<close>

fun num_key :: "jsnum \<Rightarrow> jsnum" where
  "num_key NegZero = IntN 0"
| "num_key n = n"

lemma int_text_zero: "int_text 0 = ''0''"
  by code_simp

lemma finite_number_chars:
  assumes "wf_num n" and "n \<noteq> NaN" and "n \<noteq> PosInf" and "n \<noteq> NegInf"
  shows "set (formatNumber n) \<subseteq> {CHR ''.'', CHR ''e'', CHR ''+'', CHR ''-''} \<union> digit_chars"
proof (cases n)
  case NegZero
  then show ?thesis using int_text_chars [of 0] by (auto simp: int_text_zero)
next
  case (IntN i)
  then show ?thesis using int_text_chars [of i] by auto
next
  case (FracN neg ds e)
  with assms(1) have "\<forall>d\<in>set ds. d < 10" by simp
  from exp_text_chars [OF this] fixed_text_chars [OF this] FracN show ?thesis
    unfolding FracN formatNumber_FracN sign_text_def by (auto split: if_splits)
qed (use assms in auto)

lemma letters_not_finite:
  "wf_num n \<Longrightarrow> n \<noteq> NaN \<Longrightarrow> n \<noteq> PosInf \<Longrightarrow> n \<noteq> NegInf \<Longrightarrow>
   formatNumber n \<noteq> ''NaN'' \<and> formatNumber n \<noteq> ''Infinity'' \<and> formatNumber n \<noteq> ''-Infinity''"
  by (auto dest!: finite_number_chars)

lemma literal_number:
  assumes "wf_num n"
  shows "formatNumber n = ''NaN'' \<longleftrightarrow> n = NaN" and "formatNumber n = ''Infinity'' \<longleftrightarrow> n = PosInf"
    and "formatNumber n = ''-Infinity'' \<longleftrightarrow> n = NegInf"
  using letters_not_finite [OF assms] by (cases "n = NaN \<or> n = PosInf \<or> n = NegInf"; fastforce)+

lemma formatNumber_inj:
  assumes a: "wf_num a" and b: "wf_num b"
  shows "formatNumber a = formatNumber b \<longleftrightarrow> num_key a = num_key b"
proof
  assume eq: "formatNumber a = formatNumber b"
  show "num_key a = num_key b"
  proof (cases "a = NaN \<or> a = PosInf \<or> a = NegInf \<or> b = NaN \<or> b = PosInf \<or> b = NegInf")
    case True
    with eq literal_number [OF a] literal_number [OF b] have "a = b" by metis
    then show ?thesis by simp
  next
    case False
    show ?thesis
    proof (cases "(\<exists>n ds e. a = FracN n ds e) \<or> (\<exists>n ds e. b = FracN n ds e)")
      case True
      have no: "formatNumber x \<noteq> formatNumber (FracN n ds e)"
        if "x = NegZero \<or> (\<exists>i. x = IntN i)" and "wf_num (FracN n ds e)" for x n ds e
        using that frac_not_int int_text_zero by (metis formatNumber.simps(4,5))
      show ?thesis
      proof (cases a)
        case (FracN n ds e)
        with eq False no [of b n ds e] a obtain n' ds' e' where "b = FracN n' ds' e'" by (cases b) auto
        with FracN eq a b show ?thesis using formatNumber_frac_inj by blast
      next
        case NegZero
        with True b eq show ?thesis using no by (metis jsnum.distinct(27))
      next
        case (IntN i)
        with True b eq show ?thesis using no by (metis jsnum.distinct(29))
      qed (use False in auto)
    next
      case nofrac: False
      have "\<exists>i. num_key x = IntN i \<and> formatNumber x = int_text i"
        if "x \<noteq> NaN" "x \<noteq> PosInf" "x \<noteq> NegInf" "\<nexists>n ds e. x = FracN n ds e" for x
        using that by (cases x) (auto simp: int_text_zero)
      from this [of a] this [of b] False nofrac eq show ?thesis by (auto simp: int_text_inj)
    qed
  qed
next
  have "formatNumber x = formatNumber (num_key x)" for x
    by (cases x) (simp_all add: int_text_zero)
  then show "num_key a = num_key b \<Longrightarrow> formatNumber a = formatNumber b" by metis
qed

definition delimiters :: "char set" where
  "delimiters = {CHR '','', CHR '']'', CHR ''}''}"

lemma number_no_delimiter: "wf_num n \<Longrightarrow> set (formatNumber n) \<inter> delimiters = {}"
  using finite_number_chars [of n] not_digit
  by (cases "n = NaN \<or> n = PosInf \<or> n = NegInf") (auto simp: delimiters_def)

lemma number_head:
  assumes "wf_num n"
  shows "formatNumber n \<noteq> [] \<and> hd (formatNumber n) \<in> digit_chars \<union> {CHR ''-'', CHR ''N'', CHR ''I'', CHR ''.'', CHR ''e'', CHR ''+''}"
proof -
  have ne: "formatNumber n \<noteq> []"
  proof (cases n)
    case (FracN neg ds e)
    with assms text_no_sign [of ds e] show ?thesis by (auto simp: formatNumber_FracN)
  qed (auto simp: int_text_def)
  show ?thesis
  proof (cases "n = NaN \<or> n = PosInf \<or> n = NegInf")
    case False
    with finite_number_chars [OF assms] ne hd_in_set [OF ne] show ?thesis by blast
  qed auto
qed

end
