(* ===== verification/Canonical_Unique.thy ===== *)
theory Canonical_Unique
  imports Canonical_Facts
begin

text \<open>
  The main fact about \<open>canonicalJson\<close>: two values have the same canonical text exactly when they
  are the same JSON value up to the order of object keys (and \<open>-0\<close> for \<open>0\<close>).
\<close>

section \<open>Strings\<close>

definition str_code :: "char \<Rightarrow> string" where
  "str_code c = escapeNonAscii (escape_char c)"

definition short_escapes :: "(char \<times> char) list" where
  "short_escapes =
     [(dquote, dquote), (backslash, backslash), (char_of (8::nat), CHR ''b''),
      (char_of (12::nat), CHR ''f''), (char_of (10::nat), CHR ''n''), (char_of (13::nat), CHR ''r''),
      (char_of (9::nat), CHR ''t'')]"

lemma escapeNonAscii_append [simp]: "escapeNonAscii (s @ t) = escapeNonAscii s @ escapeNonAscii t"
  by (simp add: escapeNonAscii_def)

lemma escapeNonAscii_Nil [simp]: "escapeNonAscii [] = []"
  by (simp add: escapeNonAscii_def)

lemma escapeNonAscii_Cons: "escapeNonAscii (c # s) = escape_ascii c @ escapeNonAscii s"
  by (simp add: escapeNonAscii_def)

lemma escapeNonAscii_ascii: "\<forall>c\<in>set s. (of_char c :: nat) \<le> 127 \<Longrightarrow> escapeNonAscii s = s"
  by (induction s) (auto simp: escapeNonAscii_Cons escape_ascii_def)

lemma of_char_lit [simp]:
  "(of_char dquote :: nat) = 34" "(of_char backslash :: nat) = 92"
  by (simp_all add: dquote_def backslash_def)

lemma backslash_not_dquote [simp]: "backslash \<noteq> dquote" "dquote \<noteq> backslash"
  by code_simp+

lemma char_eq_iff: "c = d \<longleftrightarrow> (of_char c :: nat) = of_char d"
  by simp

lemma char_zero: "char_of (48::nat) = CHR ''0''"
  by code_simp

lemma hex_char_ascii: "d < 16 \<Longrightarrow> (of_char (hex_char d) :: nat) = (if d < 10 then 48 + d else 87 + d)"
  by (simp add: hex_char_def)

lemma hex_char_inj: "a < 16 \<Longrightarrow> b < 16 \<Longrightarrow> hex_char a = hex_char b \<longleftrightarrow> a = b"
  by (auto simp: char_eq_iff hex_char_ascii simp del: of_char_eq_iff split: if_splits)

lemma hex4_inj: "a < 256 \<Longrightarrow> b < 256 \<Longrightarrow> hex4 a = hex4 b \<longleftrightarrow> a = b"
proof -
  assume ab: "a < 256" "b < 256"
  have "hex_char (a div 16 mod 16) = hex_char (b div 16 mod 16) \<Longrightarrow> hex_char (a mod 16) = hex_char (b mod 16)
      \<Longrightarrow> a = b"
    using ab by (simp add: hex_char_inj) (metis div_mult_mod_eq)
  then show ?thesis by (auto simp: hex4_def)
qed

lemma str_code_cases:
  obtains (plain) "str_code c = [c]" "c \<noteq> backslash" "c \<noteq> dquote"
  | (short) k where "str_code c = [backslash, k]" "(c, k) \<in> set short_escapes"
  | (hex) "str_code c = [backslash, CHR ''u''] @ hex4 (of_char c)"
proof -
  let ?n = "of_char c :: nat"
  have ascii: "escapeNonAscii [backslash, k] = [backslash, k]" if "(of_char k :: nat) \<le> 127" for k
    using that by (simp add: escapeNonAscii_ascii)
  consider "c = dquote" | "c = backslash" | "?n \<in> {8, 12, 10, 13, 9}" | "?n < 32" "?n \<notin> {8, 12, 10, 13, 9}"
    | "32 \<le> ?n" "c \<noteq> dquote" "c \<noteq> backslash"
    by fastforce
  then show thesis
  proof cases
    case 3
    then have "c \<in> {char_of (8::nat), char_of (12::nat), char_of (10::nat), char_of (13::nat), char_of (9::nat)}"
      by (metis char_of_char insert_iff empty_iff)
    with short show thesis
      by (auto simp: short_escapes_def str_code_def escape_char_def Let_def ascii ascii [unfolded backslash_def] dquote_def backslash_def)
  next
    case 4
    then have "str_code c = [backslash, CHR ''u''] @ hex4 ?n"
      by (auto simp: str_code_def escape_char_def Let_def hex4_def escapeNonAscii_Cons escape_ascii_def
          hex_char_ascii dquote_def backslash_def) (simp_all add: hex_char_def char_zero)
    then show thesis by (rule hex)
  next
    case 5
    then have "str_code c = escape_ascii c"
      by (auto simp: str_code_def escape_char_def Let_def escapeNonAscii_Cons)
    with 5 plain hex show thesis by (auto simp: escape_ascii_def split: if_splits)
  qed (use short in \<open>auto simp: short_escapes_def str_code_def escape_char_def Let_def ascii\<close>)
qed

lemma short_escape_unique:
  "(c, k) \<in> set short_escapes \<Longrightarrow> (c', k) \<in> set short_escapes \<Longrightarrow> c = c'"
proof -
  have "distinct (map snd short_escapes)" by code_simp
  then show "(c, k) \<in> set short_escapes \<Longrightarrow> (c', k) \<in> set short_escapes \<Longrightarrow> c = c'"
    by (metis (mono_tags, lifting) distinct_map eq_key_imp_eq_value inj_onD prod.inject snd_conv)
qed

lemma short_escape_not_u: "(c, k) \<in> set short_escapes \<Longrightarrow> k \<noteq> CHR ''u''"
proof -
  have "CHR ''u'' \<notin> snd ` set short_escapes" by code_simp
  then show "(c, k) \<in> set short_escapes \<Longrightarrow> k \<noteq> CHR ''u''" by force
qed

lemma length_hex4 [simp]: "length (hex4 n) = 4"
  by (simp add: hex4_def)

lemma str_code_prefix: "str_code c @ x = str_code d @ y \<Longrightarrow> c = d \<and> x = y"
proof (cases c rule: str_code_cases; cases d rule: str_code_cases)
  assume hex: "str_code c = [backslash, CHR ''u''] @ hex4 (of_char c)"
    "str_code d = [backslash, CHR ''u''] @ hex4 (of_char d)" and eq: "str_code c @ x = str_code d @ y"
  then have h: "hex4 (of_char c) @ x = hex4 (of_char d) @ y" by simp
  then have "hex4 (of_char c) = hex4 (of_char d)" "x = y"
    using append_eq_append_conv [of "hex4 (of_char c)" "hex4 (of_char d)" x y] by simp_all
  then show ?thesis using hex4_inj [of "of_char c" "of_char d"] by simp
qed (auto dest: short_escape_unique short_escape_not_u)

lemma str_code_head: "str_code c \<noteq> [] \<and> hd (str_code c) \<noteq> dquote"
  by (cases c rule: str_code_cases) auto

definition str_body :: "string \<Rightarrow> string" where
  "str_body s = concat (map str_code s)"

lemma str_body_simps [simp]: "str_body [] = []" "str_body (c # s) = str_code c @ str_body s"
  by (simp_all add: str_body_def)

lemma str_body_prefix:
  "str_body s @ dquote # x = str_body t @ dquote # y \<Longrightarrow> s = t \<and> x = y"
proof (induction s arbitrary: t)
  case Nil
  then show ?case
  proof (cases t)
    case (Cons c t')
    with Nil str_code_head [of c] show ?thesis by (cases "str_code c") auto
  qed simp
next
  case (Cons c s)
  show ?case
  proof (cases t)
    case Nil
    with Cons.prems str_code_head [of c] show ?thesis by (cases "str_code c") auto
  next
    case t: (Cons d t')
    with Cons.prems have "str_code c @ (str_body s @ dquote # x) = str_code d @ (str_body t' @ dquote # y)"
      by simp
    from str_code_prefix [OF this] Cons.IH [of t'] t show ?thesis by auto
  qed
qed

lemma canonical_quote: "escapeNonAscii (quote_string s) = dquote # str_body s @ [dquote]"
proof -
  have "escapeNonAscii (concat (map escape_char s)) = str_body s"
    by (induction s) (simp_all add: str_code_def)
  moreover have "escapeNonAscii [dquote] = [dquote]" by code_simp
  ultimately show ?thesis by (simp add: quote_string_def escapeNonAscii_Cons [of dquote])
qed

section \<open>Values\<close>

text \<open>Values as JSON parsing gives them: own keys are distinct, numbers are doubles.\<close>

fun wf_jv :: "jv \<Rightarrow> bool" where
  "wf_jv (JNum n) \<longleftrightarrow> wf_num n"
| "wf_jv (JArr xs) \<longleftrightarrow> (\<forall>x\<in>set xs. wf_jv x)"
| "wf_jv (JObj kvs) \<longleftrightarrow> distinct (map fst kvs) \<and> (\<forall>(k, v)\<in>set kvs. wf_jv v)"
| "wf_jv _ \<longleftrightarrow> True"

text \<open>The JSON value without the order of keys: every object's entries in ascending key order.\<close>

fun json_value :: "jv \<Rightarrow> jv" where
  "json_value (JNum n) = JNum (num_key n)"
| "json_value (JArr xs) = JArr (map json_value xs)"
| "json_value (JObj kvs) = JObj (sort_entries (map (\<lambda>(k, v). (k, json_value v)) kvs))"
| "json_value v = v"

lemma escapeNonAscii_join: "escapeNonAscii (join sep xs) = join (escapeNonAscii sep) (map escapeNonAscii xs)"
  by (induction sep xs rule: join.induct) simp_all

lemma escape_plain [simp]: "escapeNonAscii '','' = '',''" "escapeNonAscii '':'' = '':''"
  by code_simp+

lemma formatNumber_ascii:
  assumes "wf_num n"
  shows "escapeNonAscii (formatNumber n) = formatNumber n"
proof (cases "n = NaN \<or> n = PosInf \<or> n = NegInf")
  case False
  have "(of_char c :: nat) \<le> 127" if "c \<in> set (formatNumber n)" for c
    using that finite_number_chars [OF assms] False of_digit_chars [of c] by fastforce
  then show ?thesis by (simp add: escapeNonAscii_ascii)
qed (auto, code_simp+)

definition entry_text :: "string \<times> jv \<Rightarrow> string" where
  "entry_text e = dquote # str_body (fst e) @ dquote # CHR '':'' # canonicalJson (snd e)"

lemma canonical_simps:
  "canonicalJson JNull = ''null''"
  "canonicalJson (JBool b) = (if b then ''true'' else ''false'')"
  "wf_num n \<Longrightarrow> canonicalJson (JNum n) = formatNumber n"
  "canonicalJson (JStr s) = dquote # str_body s @ [dquote]"
  "canonicalJson (JArr xs) = CHR ''['' # join '','' (map canonicalJson xs) @ '']''"
  "canonicalJson (JObj kvs) = CHR ''{'' # join '','' (map entry_text (sort_entries kvs)) @ ''}''"
proof -
  have e: "entry_text = (\<lambda>e. escapeNonAscii (quote_string (fst e) @ '':'' @ emit (snd e)))"
    by (auto simp: entry_text_def canonical_quote canonicalJson_def fun_eq_iff escapeNonAscii_Cons
        escape_ascii_def)
  have b: "escapeNonAscii '']'' = '']''" "escapeNonAscii ''}'' = ''}''"
    "escapeNonAscii (CHR ''['' # s) = CHR ''['' # escapeNonAscii s"
    "escapeNonAscii (CHR ''{'' # s) = CHR ''{'' # escapeNonAscii s"
    "escapeNonAscii ''null'' = ''null''" "escapeNonAscii ''true'' = ''true''" "escapeNonAscii ''false'' = ''false''" for s
    by (simp_all add: escapeNonAscii_Cons escape_ascii_def)
  show "canonicalJson (JObj kvs) = CHR ''{'' # join '','' (map entry_text (sort_entries kvs)) @ ''}''"
    by (simp add: canonicalJson_def escapeNonAscii_join e b case_prod_beta comp_def)
  show "canonicalJson (JArr xs) = CHR ''['' # join '','' (map canonicalJson xs) @ '']''"
    by (simp add: canonicalJson_def [abs_def] escapeNonAscii_join b comp_def)
qed (simp_all add: canonicalJson_def formatNumber_ascii canonical_quote escapeNonAscii_ascii)

definition stop :: "string \<Rightarrow> bool" where
  "stop x \<longleftrightarrow> x = [] \<or> hd x \<in> delimiters"

lemma stop_Cons [simp]: "stop (c # x) \<longleftrightarrow> c \<in> delimiters"
  by (simp add: stop_def)

lemma stop_split:
  "s @ x = t @ y \<Longrightarrow> set s \<inter> delimiters = {} \<Longrightarrow> set t \<inter> delimiters = {} \<Longrightarrow> stop x \<Longrightarrow> stop y
   \<Longrightarrow> s = t \<and> x = y"
proof (induction s arbitrary: t)
  case Nil
  then show ?case by (cases t) (auto simp: stop_def)
next
  case (Cons c s)
  then show ?case by (cases t) (auto simp: stop_def)
qed

text \<open>A printer whose texts can be told apart in front of a delimiter, and so can its lists.\<close>

definition prefix_code :: "('a \<Rightarrow> string) \<Rightarrow> ('a \<Rightarrow> 'b) \<Rightarrow> 'a \<Rightarrow> 'a \<Rightarrow> bool" where
  "prefix_code p f a b \<longleftrightarrow>
     (\<forall>x y. p a @ x = p b @ y \<longrightarrow> stop x \<longrightarrow> stop y \<longrightarrow> f a = f b \<and> x = y)"

lemma join_Cons: "join sep (x # xs) = x @ concat (map (\<lambda>t. sep @ t) xs)"
  by (induction xs arbitrary: x) simp_all

lemma comma_stop: "CHR '','' \<in> delimiters"
  by (simp add: delimiters_def)

lemma items_prefix:
  assumes "\<And>a b. a \<in> set xs \<Longrightarrow> b \<in> set ys \<Longrightarrow> prefix_code p f a b"
    and "cl \<in> delimiters" and "cl \<noteq> CHR '',''"
    and "concat (map (\<lambda>a. CHR '','' # p a) xs) @ cl # x = concat (map (\<lambda>a. CHR '','' # p a) ys) @ cl # y"
  shows "map f xs = map f ys \<and> x = y"
  using assms(1,4)
proof (induction xs arbitrary: ys)
  case Nil
  then show ?case using assms(3) by (cases ys) auto
next
  case (Cons a xs)
  show ?case
  proof (cases ys)
    case Nil
    with Cons.prems(2) assms(3) show ?thesis by simp
  next
    case (Cons b ys')
    let ?t = "\<lambda>zs z. concat (map (\<lambda>a. CHR '','' # p a) zs) @ cl # z"
    have st: "stop (?t zs z)" for zs z using assms(2) comma_stop by (cases zs) auto
    from Cons.prems(2) Cons have "p a @ ?t xs x = p b @ ?t ys' y" by simp
    with Cons.prems(1) [of a b] Cons st have "f a = f b" "?t xs x = ?t ys' y"
      unfolding prefix_code_def by (metis list.set_intros(1))+
    with Cons.IH [of ys'] Cons.prems(1) Cons show ?thesis by auto
  qed
qed

lemma join_prefix:
  assumes pc: "\<And>a b. a \<in> set xs \<Longrightarrow> b \<in> set ys \<Longrightarrow> prefix_code p f a b"
    and ne: "\<And>a. a \<in> set xs \<union> set ys \<Longrightarrow> p a \<noteq> [] \<and> hd (p a) \<notin> delimiters"
    and cl: "cl \<in> delimiters" "cl \<noteq> CHR '',''"
    and eq: "join '','' (map p xs) @ cl # x = join '','' (map p ys) @ cl # y"
  shows "map f xs = map f ys \<and> x = y"
proof (cases "xs = [] \<or> ys = []")
  case True
  have "hd (join '','' (map p zs) @ cl # z) \<noteq> cl" if "zs \<noteq> []" "set zs \<subseteq> set xs \<union> set ys" for zs z
    using that ne [of "hd zs"] cl(1) by (cases zs) (auto simp: join_Cons)
  then have no: "cl # z' \<noteq> join '','' (map p zs) @ cl # z" if "zs \<noteq> []" "set zs \<subseteq> set xs \<union> set ys" for zs z z'
    using that by (metis list.sel(1))
  from True show ?thesis
  proof
    assume xs: "xs = []"
    with eq no [of ys x y] have "ys = []" by fastforce
    with xs eq show ?thesis by simp
  next
    assume ys: "ys = []"
    with eq [symmetric] no [of xs y x] have "xs = []" by fastforce
    with ys eq show ?thesis by simp
  qed
next
  case False
  then have "concat (map (\<lambda>a. CHR '','' # p a) xs) @ cl # x = concat (map (\<lambda>a. CHR '','' # p a) ys) @ cl # y"
    using eq by (cases xs; cases ys) (simp_all add: join_Cons comp_def)
  from items_prefix [OF pc cl this] show ?thesis by simp
qed

section \<open>The text identifies the value\<close>

lemma start_not_delimiter:
  assumes "wf_jv v"
  shows "canonicalJson v \<noteq> [] \<and> hd (canonicalJson v) \<notin> delimiters"
proof (cases v)
  case (JNum n)
  with assms number_head [of n] number_no_delimiter [of n] show ?thesis
    by (auto simp: canonical_simps dest: hd_in_set)
next
  case (JStr s)
  then show ?thesis by (simp add: canonical_simps delimiters_def dquote_def) code_simp
qed (auto simp: canonical_simps delimiters_def)

text \<open>The first character tells the kind of value.\<close>

fun starts :: "jv \<Rightarrow> char set" where
  "starts JNull = {CHR ''n''}"
| "starts (JBool b) = {if b then CHR ''t'' else CHR ''f''}"
| "starts (JNum n) = digit_chars \<union> {CHR ''-'', CHR ''N'', CHR ''I'', CHR ''.'', CHR ''e'', CHR ''+''}"
| "starts (JStr s) = {dquote}"
| "starts (JArr xs) = {CHR ''[''}"
| "starts (JObj kvs) = {CHR ''{''}"

lemma canonical_start: "wf_jv v \<Longrightarrow> hd (canonicalJson v) \<in> starts v"
  using number_head by (cases v) (auto simp: canonical_simps)

lemma dquote_start [simp]:
  "dquote \<notin> digit_chars" "dquote \<notin> {CHR ''n'', CHR ''t'', CHR ''f'', CHR ''['', CHR ''{'', CHR ''-'', CHR ''N'', CHR ''I'', CHR ''.'', CHR ''e'', CHR ''+''}"
  by (auto dest!: of_digit_chars) (code_simp)+

lemma letter_start [simp]:
  "CHR ''n'' \<notin> digit_chars" "CHR ''t'' \<notin> digit_chars" "CHR ''f'' \<notin> digit_chars"
  "CHR ''['' \<notin> digit_chars" "CHR ''{'' \<notin> digit_chars"
  by (auto dest!: of_digit_chars)

fun same_kind :: "jv \<Rightarrow> jv \<Rightarrow> bool" where
  "same_kind JNull JNull = True"
| "same_kind (JBool a) (JBool b) = (a = b)"
| "same_kind (JNum a) (JNum b) = True"
| "same_kind (JStr a) (JStr b) = True"
| "same_kind (JArr a) (JArr b) = True"
| "same_kind (JObj a) (JObj b) = True"
| "same_kind a b = False"

lemma starts_disjoint: "\<not> same_kind v w \<Longrightarrow> starts v \<inter> starts w = {}"
  using dquote_start by (cases v; cases w) auto

lemma prefix_kind:
  assumes "wf_jv v" and "wf_jv w" and "same_kind v w \<Longrightarrow> prefix_code canonicalJson f v w"
  shows "prefix_code canonicalJson f v w"
proof (cases "same_kind v w")
  case False
  have "canonicalJson v @ x \<noteq> canonicalJson w @ y" for x y
    using canonical_start [OF assms(1)] canonical_start [OF assms(2)] starts_disjoint [OF False]
      start_not_delimiter [OF assms(1)] start_not_delimiter [OF assms(2)]
    by (metis disjoint_iff hd_append2)
  then show ?thesis by (simp add: prefix_code_def)
qed (use assms in blast)

lemma entry_prefix:
  assumes "prefix_code canonicalJson f (snd a) (snd b)"
  shows "prefix_code entry_text (\<lambda>(k, v). (k, f v)) a b"
  unfolding prefix_code_def
proof (intro allI impI)
  fix x y
  assume "entry_text a @ x = entry_text b @ y" and st: "stop x" "stop y"
  then have "str_body (fst a) @ dquote # (CHR '':'' # canonicalJson (snd a) @ x)
      = str_body (fst b) @ dquote # (CHR '':'' # canonicalJson (snd b) @ y)"
    by (simp add: entry_text_def)
  from str_body_prefix [OF this] assms st
  show "(\<lambda>(k, v). (k, f v)) a = (\<lambda>(k, v). (k, f v)) b \<and> x = y"
    by (auto simp: prefix_code_def case_prod_beta)
qed

lemma entry_start: "entry_text e \<noteq> [] \<and> hd (entry_text e) \<notin> delimiters"
  by (simp add: entry_text_def delimiters_def dquote_def) code_simp

lemma canonical_prefix:
  "wf_jv v \<Longrightarrow> wf_jv w \<Longrightarrow> prefix_code canonicalJson json_value v w"
proof (induction v arbitrary: w rule: json_value.induct [case_names num arr obj null bool str])
  case (num n)
  show ?case
  proof (rule prefix_kind [OF num(1,2)])
    assume "same_kind (JNum n) w"
    then obtain n' where w: "w = JNum n'" by (cases w) auto
    with num show "prefix_code canonicalJson json_value (JNum n) w"
      unfolding prefix_code_def
      by (auto simp: canonical_simps dest!: stop_split [OF _ number_no_delimiter number_no_delimiter])
        (simp add: formatNumber_inj)
  qed
next
  case (arr xs)
  show ?case
  proof (rule prefix_kind [OF arr(2,3)])
    assume "same_kind (JArr xs) w"
    then obtain ys where w: "w = JArr ys" by (cases w) auto
    have pc: "prefix_code canonicalJson json_value a b" if "a \<in> set xs" "b \<in> set ys" for a b
      using arr that w by auto
    have ne: "canonicalJson a \<noteq> [] \<and> hd (canonicalJson a) \<notin> delimiters" if "a \<in> set xs \<union> set ys" for a
      using start_not_delimiter arr(2,3) that w by auto
    have cl: "CHR '']'' \<in> delimiters" "CHR '']'' \<noteq> CHR '',''" by (simp_all add: delimiters_def)
    show "prefix_code canonicalJson json_value (JArr xs) w"
      unfolding prefix_code_def w
    proof (intro allI impI)
      fix x y
      assume "canonicalJson (JArr xs) @ x = canonicalJson (JArr ys) @ y"
      then have "join '','' (map canonicalJson xs) @ CHR '']'' # x = join '','' (map canonicalJson ys) @ CHR '']'' # y"
        by (simp add: canonical_simps)
      from join_prefix [OF pc ne cl this]
      show "json_value (JArr xs) = json_value (JArr ys) \<and> x = y" by simp
    qed
  qed
next
  case (obj kvs)
  show ?case
  proof (rule prefix_kind [OF obj(2,3)])
    assume "same_kind (JObj kvs) w"
    then obtain ls where w: "w = JObj ls" by (cases w) auto
    have pc: "prefix_code entry_text (\<lambda>(k, v). (k, json_value v)) a b"
      if "a \<in> set (sort_entries kvs)" "b \<in> set (sort_entries ls)" for a b
    proof (rule entry_prefix)
      have "wf_jv (snd a)" "wf_jv (snd b)" using that obj(2,3) w by fastforce+
      then show "prefix_code canonicalJson json_value (snd a) (snd b)"
        using obj(1) [of a "fst a" "snd a" "snd b"] that(1) by simp
    qed
    have cl: "CHR ''}'' \<in> delimiters" "CHR ''}'' \<noteq> CHR '',''" by (simp_all add: delimiters_def)
    show "prefix_code canonicalJson json_value (JObj kvs) w"
      unfolding prefix_code_def w
    proof (intro allI impI)
      fix x y
      assume "canonicalJson (JObj kvs) @ x = canonicalJson (JObj ls) @ y"
      then have "join '','' (map entry_text (sort_entries kvs)) @ CHR ''}'' # x
          = join '','' (map entry_text (sort_entries ls)) @ CHR ''}'' # y"
        by (simp add: canonical_simps)
      from join_prefix [OF pc entry_start cl this]
      show "json_value (JObj kvs) = json_value (JObj ls) \<and> x = y" by (simp add: map_sort_entries)
    qed
  qed
next
  case null
  show ?case
    by (rule prefix_kind [OF null]) (cases w; auto simp: prefix_code_def)
next
  case (bool b)
  show ?case
    by (rule prefix_kind [OF bool]) (cases w; auto simp: prefix_code_def)
next
  case (str s)
  show ?case
  proof (rule prefix_kind [OF str])
    assume "same_kind (JStr s) w"
    then obtain t where "w = JStr t" by (cases w) auto
    then show "prefix_code canonicalJson json_value (JStr s) w"
      by (auto simp: prefix_code_def canonical_simps dest: str_body_prefix)
  qed
qed

lemma emit_json_value: "wf_jv v \<Longrightarrow> emit (json_value v) = emit v"
proof (induction v rule: json_value.induct)
  case (1 n)
  then show ?case by (cases n) (simp_all add: int_text_zero)
next
  case (2 xs)
  then show ?case by (simp cong: map_cong)
next
  case (3 kvs)
  let ?m = "map (\<lambda>(k, v). (k, json_value v)) kvs"
  have "distinct (map fst ?m)" using 3(2) by (simp add: case_prod_beta comp_def)
  then have "sort_entries (sort_entries ?m) = sort_entries ?m"
    by (rule sort_entries_ascending [OF ascending_sort_entries])
  moreover have "emit (json_value (snd e)) = emit (snd e)" if "e \<in> set kvs" for e
    using 3(1) [of e "fst e" "snd e"] 3(2) that by fastforce
  moreover have "sort_entries ?m = map (\<lambda>e. (fst e, json_value (snd e))) (sort_entries kvs)"
    using map_sort_entries [of json_value kvs] by (simp add: case_prod_beta)
  ultimately show ?case
    by (simp add: case_prod_beta cong del: map_cong) (rule arg_cong [where f = "join '',''"], simp add: case_prod_beta)
qed simp_all

lemma canonical_eq_iff:
  assumes "wf_jv v" and "wf_jv w"
  shows "canonicalJson v = canonicalJson w \<longleftrightarrow> json_value v = json_value w"
proof
  assume "canonicalJson v = canonicalJson w"
  with canonical_prefix [OF assms] show "json_value v = json_value w"
    unfolding prefix_code_def by (metis append_Nil2 stop_def)
next
  assume "json_value v = json_value w"
  then show "canonicalJson v = canonicalJson w"
    unfolding canonicalJson_def by (metis assms emit_json_value)
qed

text \<open>C18: Canonical JSON is a content identity: for values as JSON parsing gives them, the texts are
  equal exactly when the values are equal up to the order of the keys of their objects (and the sign
  of zero). So a hash of the text depends on nothing but the value, and distinct values never share
  a text.\<close>

theorem canonicalJson_identity:
  assumes "wf_jv v" and "wf_jv w"
  shows "canonicalJson v = canonicalJson w \<longleftrightarrow> json_value v = json_value w"
  by (rule canonical_eq_iff [OF assms])

theorem canonicalJson_identity_witness:
  "canonicalJson (JObj [(''b'', JNum NegZero), (''a'', JArr [JStr ''x'', JNum (FracN False [1, 5] (- 6))])])
   = canonicalJson (JObj [(''a'', JArr [JStr ''x'', JNum (FracN False [1, 5] (- 6))]), (''b'', JNum (IntN 0))])"
proof -
  let ?v = "JObj [(''b'', JNum NegZero), (''a'', JArr [JStr ''x'', JNum (FracN False [1, 5] (- 6))])]"
  let ?w = "JObj [(''a'', JArr [JStr ''x'', JNum (FracN False [1, 5] (- 6))]), (''b'', JNum (IntN 0))]"
  have "wf_jv ?v" "wf_jv ?w" by simp_all
  moreover have "json_value ?v = json_value ?w" by (simp add: sort_entries_def)
  ultimately show ?thesis using canonicalJson_identity [of ?v ?w] by simp
qed

end
