(* ===== verification/Messages.thy ===== *)
theory Messages
  imports Canonical_Unique
begin

text \<open>
  Chat messages: content parts (\<open>packages/typescript/temporal/src/content-parts.ts\<close>), template
  rendering (\<open>render.ts\<close>), message hashes (\<open>manifest-hashing.ts\<close>) and the check that a cached system
  prefix has no template variable (\<open>session-cache.ts\<close>).
\<close>

section \<open>Messages\<close>

datatype content_part =
    Text_part string
  | Artifact_part string "string option"
  | Artifact_group_part string "string option"
  | Extension_part string "(string \<times> jv) list"

datatype chat_content = Content_text string | Content_parts "content_part list"

record chat_message =
  cm_role :: string
  cm_content :: chat_content
  cm_name :: "string option"

definition opt_field :: "string \<Rightarrow> jv option \<Rightarrow> (string \<times> jv) list" where
  "opt_field k v = (case v of None \<Rightarrow> [] | Some x \<Rightarrow> [(k, x)])"

fun part_payload :: "content_part \<Rightarrow> jv" where
  "part_payload (Text_part t) = JObj [(''type'', JStr ''text''), (''text'', JStr t)]"
| "part_payload (Artifact_part a t) =
     JObj ([(''type'', JStr ''artifact''), (''artifact'', JStr a)] @ opt_field ''text'' (map_option JStr t))"
| "part_payload (Artifact_group_part g t) =
     JObj ([(''type'', JStr ''artifact_group''), (''group'', JStr g)] @ opt_field ''text'' (map_option JStr t))"
| "part_payload (Extension_part p payload) =
     JObj [(''type'', JStr ''provider_extension''), (''provider'', JStr p), (''payload'', JObj payload)]"

fun contentPartPayload :: "chat_content \<Rightarrow> jv" where
  "contentPartPayload (Content_text t) = JStr t"
| "contentPartPayload (Content_parts ps) = JArr (map part_payload ps)"

definition messagePayload :: "chat_message \<Rightarrow> jv" where
  "messagePayload m =
     JObj ([(''role'', JStr (cm_role m)), (''content'', contentPartPayload (cm_content m))]
           @ opt_field ''name'' (map_option JStr (cm_name m)))"

definition schemaHash :: "(string \<Rightarrow> string) \<Rightarrow> jv \<Rightarrow> string" where
  "schemaHash sha schema = sha (canonicalJson schema)"

definition messagesHash :: "(string \<Rightarrow> string) \<Rightarrow> chat_message list \<Rightarrow> string" where
  "messagesHash sha ms = sha (canonicalJson (JArr (map messagePayload ms)))"

section \<open>Rendering\<close>

text \<open>\<open>renderContentParts\<close>; the text renderer may throw.\<close>

fun render_part :: "(string \<Rightarrow> ('e, string) result) \<Rightarrow> content_part \<Rightarrow> ('e, content_part) result" where
  "render_part f (Text_part t) = rbind (f t) (\<lambda>t'. Inr (Text_part t'))"
| "render_part f (Artifact_part a (Some t)) = rbind (f t) (\<lambda>t'. Inr (Artifact_part a (Some t')))"
| "render_part f (Artifact_group_part g (Some t)) = rbind (f t) (\<lambda>t'. Inr (Artifact_group_part g (Some t')))"
| "render_part f p = Inr p"

fun renderContentParts ::
    "(string \<Rightarrow> ('e, string) result) \<Rightarrow> chat_content \<Rightarrow> ('e, chat_content) result" where
  "renderContentParts f (Content_text t) = rbind (f t) (\<lambda>t'. Inr (Content_text t'))"
| "renderContentParts f (Content_parts ps) = rbind (traverse (render_part f) ps) (\<lambda>ps'. Inr (Content_parts ps'))"

text \<open>
  \<open>MUSTACHE_VARIABLE\<close>: \<open>\{\{\<close>, white space, identifiers joined by dots, white space, \<open>\}\}\<close>. Every
  choice of the pattern is decided by the next character, so the match needs no backtracking.
\<close>

definition code_of :: "char \<Rightarrow> nat" where
  "code_of c = of_char c"

definition is_space :: "char \<Rightarrow> bool" where
  "is_space c \<longleftrightarrow> (9 \<le> code_of c \<and> code_of c \<le> 13) \<or> code_of c = 32 \<or> code_of c = 160"

definition is_letter :: "char \<Rightarrow> bool" where
  "is_letter c \<longleftrightarrow> (65 \<le> code_of c \<and> code_of c \<le> 90) \<or> (97 \<le> code_of c \<and> code_of c \<le> 122) \<or> code_of c = 95"

definition is_word :: "char \<Rightarrow> bool" where
  "is_word c \<longleftrightarrow> is_letter c \<or> (48 \<le> code_of c \<and> code_of c \<le> 57)"

fun scan_ident :: "string \<Rightarrow> (string \<times> string) option" where
  "scan_ident [] = None"
| "scan_ident (c # cs) =
     (if is_letter c then Some (c # takeWhile is_word cs, dropWhile is_word cs) else None)"

lemma scan_ident_shorter: "scan_ident s = Some (p, r) \<Longrightarrow> length r < length s"
  by (cases s) (auto split: if_splits simp: le_imp_less_Suc length_dropWhile_le)

function scan_path :: "string \<Rightarrow> (string \<times> string) option" where
  "scan_path s =
     (case scan_ident s of
        None \<Rightarrow> None
      | Some (p, r) \<Rightarrow>
          if r \<noteq> [] \<and> hd r = CHR ''.''
          then (case scan_path (tl r) of
                  None \<Rightarrow> Some (p, r)
                | Some (q, r') \<Rightarrow> Some (p @ ''.'' @ q, r'))
          else Some (p, r))"
  by pat_completeness auto

termination
  by (relation "measure length") (auto dest!: scan_ident_shorter)

declare scan_path.simps [simp del]

definition placeholder :: "string \<Rightarrow> (string \<times> string) option" where
  "placeholder s =
     (if take 2 s = ''{{''
      then (case scan_path (dropWhile is_space (drop 2 s)) of
              None \<Rightarrow> None
            | Some (p, r) \<Rightarrow>
                (let r' = dropWhile is_space r
                 in if take 2 r' = ''}}'' then Some (p, drop 2 r') else None))
      else None)"

lemma scan_path_shorter: "scan_path s = Some (p, r) \<Longrightarrow> length r < length s"
proof (induction s arbitrary: p r rule: scan_path.induct)
  case (1 s)
  from 1(2) obtain p0 r0 where id: "scan_ident s = Some (p0, r0)"
    by (subst (asm) scan_path.simps) (auto split: option.splits)
  then have len: "length r0 < length s" by (rule scan_ident_shorter)
  show ?case
  proof (cases "r0 \<noteq> [] \<and> hd r0 = CHR ''.'' \<and> scan_path (tl r0) \<noteq> None")
    case True
    then obtain q where "scan_path (tl r0) = Some (q, r)"
      using 1(2) id scan_path.simps [of s] by auto
    with 1(1) [OF id refl] True have "length r < length (tl r0)" by blast
    with len show ?thesis by simp
  next
    case False
    then have "r = r0" using 1(2) id scan_path.simps [of s] by (auto split: if_splits option.splits)
    with len show ?thesis by simp
  qed
qed

lemma placeholder_shorter: "placeholder s = Some (p, r) \<Longrightarrow> length r < length s"
proof -
  assume ph: "placeholder s = Some (p, r)"
  obtain r' where sp: "scan_path (dropWhile is_space (drop 2 s)) = Some (p, r')"
    and r: "r = drop 2 (dropWhile is_space r')" and s: "take 2 s = ''{{''"
    using ph by (auto simp: placeholder_def Let_def split: if_splits option.splits)
  have "length r \<le> length r'" using r length_dropWhile_le [of is_space r'] by simp
  also have "\<dots> < length (dropWhile is_space (drop 2 s))" by (rule scan_path_shorter [OF sp])
  also have "\<dots> \<le> length s" using length_dropWhile_le [of is_space "drop 2 s"] by simp
  finally show ?thesis .
qed

text \<open>\<open>hasTemplateVariables\<close>: a placeholder starts somewhere in the text.\<close>

fun hasTemplateVariables :: "string \<Rightarrow> bool" where
  "hasTemplateVariables [] \<longleftrightarrow> False"
| "hasTemplateVariables (c # cs) \<longleftrightarrow> placeholder (c # cs) \<noteq> None \<or> hasTemplateVariables cs"

datatype render_error = Missing_prompt_field string

fun resolve_prompt_parts :: "string \<Rightarrow> string list \<Rightarrow> jv \<Rightarrow> (render_error, jv) result" where
  "resolve_prompt_parts path [] current = Inr current"
| "resolve_prompt_parts path (part # parts) current =
     (case current of
        JObj kvs \<Rightarrow>
          (case map_of kvs part of
             None \<Rightarrow> Inl (Missing_prompt_field path)
           | Some v \<Rightarrow> resolve_prompt_parts path parts v)
      | _ \<Rightarrow> Inl (Missing_prompt_field path))"

definition resolvePath :: "(string \<times> jv) list \<Rightarrow> string \<Rightarrow> (render_error, jv) result" where
  "resolvePath data path = resolve_prompt_parts path (split_dots path) (JObj data)"

fun formatValue :: "jv \<Rightarrow> string" where
  "formatValue JNull = []"
| "formatValue (JBool b) = (if b then ''True'' else ''False'')"
| "formatValue (JStr s) = s"
| "formatValue (JNum n) = num_text n"
| "formatValue v = stringify v"

function renderTemplate :: "(string \<times> jv) list \<Rightarrow> string \<Rightarrow> (render_error, string) result" where
  "renderTemplate input s =
     (case s of
        [] \<Rightarrow> Inr []
      | c # cs \<Rightarrow>
          (case placeholder s of
             None \<Rightarrow> rbind (renderTemplate input cs) (\<lambda>out. Inr (c # out))
           | Some (path, rest) \<Rightarrow>
               rbind (resolvePath input path) (\<lambda>v.
               rbind (renderTemplate input rest) (\<lambda>out. Inr (formatValue v @ out)))))"
  by pat_completeness auto

termination
  by (relation "measure (length \<circ> snd)") (auto dest!: placeholder_shorter)

declare renderTemplate.simps [simp del]

definition renderMessages ::
    "chat_message list \<Rightarrow> (string \<times> jv) list \<Rightarrow> (render_error, chat_message list) result" where
  "renderMessages messages input =
     traverse (\<lambda>m. rbind (renderContentParts (renderTemplate input) (cm_content m))
                 (\<lambda>content. Inr (m\<lparr>cm_content := content\<rparr>))) messages"

section \<open>A stable system prefix\<close>

fun part_texts :: "content_part \<Rightarrow> string list" where
  "part_texts (Text_part t) = [t]"
| "part_texts (Artifact_part a (Some t)) = [t]"
| "part_texts (Artifact_group_part g (Some t)) = [t]"
| "part_texts _ = []"

definition messageTexts :: "chat_message \<Rightarrow> string list" where
  "messageTexts m =
     (case cm_content m of Content_text t \<Rightarrow> [t] | Content_parts ps \<Rightarrow> concat (map part_texts ps))"

text \<open>The first text with a variable, which the error quotes.\<close>

definition assertStableSystemPrefix :: "chat_message list \<Rightarrow> (string, unit) result" where
  "assertStableSystemPrefix ms =
     each (\<lambda>m. each (\<lambda>t. require (\<not> hasTemplateVariables t) t) (messageTexts m)) ms"

lemma no_variables_identity: "\<not> hasTemplateVariables t \<Longrightarrow> renderTemplate input t = Inr t"
proof (induction t)
  case (Cons c cs)
  then show ?case by (subst renderTemplate.simps) (simp split: option.splits)
qed (simp add: renderTemplate.simps)

lemma render_part_stable:
  "\<forall>t\<in>set (part_texts p). \<not> hasTemplateVariables t \<Longrightarrow> render_part (renderTemplate input) p = Inr p"
  by (cases "(renderTemplate input, p)" rule: render_part.cases) (auto simp: no_variables_identity)

lemma traverse_id: "\<forall>x\<in>set xs. f x = Inr x \<Longrightarrow> traverse f xs = Inr xs"
  by (induction xs) simp_all

text \<open>A system prefix that passes the session-cache check is the same for every item: rendering it
  never fails and leaves every message as it is, whatever the input, so no item's values can end up
  in the prefix shared by all of them.\<close>

theorem stable_prefix_renders_unchanged:
  assumes "assertStableSystemPrefix ms = Inr ()"
  shows "renderMessages ms input = Inr ms"
  unfolding renderMessages_def
proof (rule traverse_id, rule ballI)
  fix m
  assume "m \<in> set ms"
  with assms have t: "\<forall>t\<in>set (messageTexts m). \<not> hasTemplateVariables t"
    by (auto simp: assertStableSystemPrefix_def result_simps)
  have "renderContentParts (renderTemplate input) (cm_content m) = Inr (cm_content m)"
  proof (cases "cm_content m")
    case (Content_parts ps)
    with t show ?thesis by (auto simp: messageTexts_def traverse_id render_part_stable)
  qed (use t in \<open>simp add: messageTexts_def no_variables_identity\<close>)
  then show "rbind (renderContentParts (renderTemplate input) (cm_content m))
      (\<lambda>content. Inr (m\<lparr>cm_content := content\<rparr>)) = Inr m" by simp
qed

definition demo_prefix :: "chat_message list" where
  "demo_prefix = [\<lparr>cm_role = ''system'', cm_content = Content_text ''Use {{ a b }} or {}'', cm_name = None\<rparr>]"

lemmas scan_defs = placeholder_def scan_path.simps is_space_def is_letter_def is_word_def code_of_def Let_def

theorem stable_prefix_renders_unchanged_witness:
  "assertStableSystemPrefix demo_prefix = Inr ()
   \<and> renderMessages demo_prefix [(''name'', JStr ''Ada'')] = Inr demo_prefix"
proof -
  have "assertStableSystemPrefix demo_prefix = Inr ()" by code_simp
  with stable_prefix_renders_unchanged [OF this] show ?thesis by simp
qed

end
