(* ===== verification/Artifacts.thy ===== *)
theory Artifacts
  imports Messages
begin

text \<open>
  The artifact contract (\<open>packages/typescript/temporal/src/artifacts.ts\<close>): sources and their exclusive
  fields, the validated declarations, resolved groups, their identity in cache keys, provider-side
  lookup, and the messages that attach a group to the conversation.
\<close>

section \<open>Sources\<close>

datatype source_kind = Local_path | Url_source | Object_uri | Provider_file

definition source_kind_text :: "source_kind \<Rightarrow> string" where
  "source_kind_text k = (case k of Local_path \<Rightarrow> ''local_path'' | Url_source \<Rightarrow> ''url''
     | Object_uri \<Rightarrow> ''object_uri'' | Provider_file \<Rightarrow> ''provider_file'')"

definition ARTIFACT_SOURCE_KINDS :: "source_kind list" where
  "ARTIFACT_SOURCE_KINDS = [Local_path, Url_source, Object_uri, Provider_file]"

definition SOURCE_FIELDS :: "source_kind \<Rightarrow> string list \<times> string list" where
  "SOURCE_FIELDS k = (case k of
     Local_path \<Rightarrow> ([''path''], [''url'', ''uri'', ''provider'', ''file_id''])
   | Url_source \<Rightarrow> ([''url''], [''path'', ''uri'', ''provider'', ''file_id''])
   | Object_uri \<Rightarrow> ([''uri''], [''path'', ''url'', ''provider'', ''file_id''])
   | Provider_file \<Rightarrow> ([''provider'', ''file_id''], [''path'', ''url'', ''uri'']))"

text \<open>A source as parsed: its kind and its other fields, each absent, null or a string.\<close>

record artifact_source =
  as_type :: source_kind
  as_fields :: "(string \<times> string option) list"

definition source_field :: "artifact_source \<Rightarrow> string \<Rightarrow> string option" where
  "source_field s k = (case map_of (as_fields s) k of None \<Rightarrow> None | Some v \<Rightarrow> v)"

datatype source_issue = Source_requires "string list" | Source_cannot_set "string list"

definition source_issues :: "artifact_source \<Rightarrow> source_issue list" where
  "source_issues s =
     (let (required, forbidden) = SOURCE_FIELDS (as_type s);
          missing = filter (\<lambda>f. source_field s f = None \<or> source_field s f = Some []) required;
          extras = filter (\<lambda>f. source_field s f \<noteq> None) forbidden
      in (if missing \<noteq> [] then [Source_requires (sort_strings missing)] else [])
         @ (if extras \<noteq> [] then [Source_cannot_set (sort_strings extras)] else []))"

section \<open>Declarations\<close>

datatype attach_role = Attach_system | Attach_user | Attach_assistant

record artifact_attachment =
  at_role :: attach_role
  at_text :: "string option"

record artifact_input =
  ai_name :: string
  ai_from_path :: string
  ai_required :: bool
  ai_kind :: "string option"
  ai_media_types :: "string list"
  ai_max_count :: "int option"
  ai_max_bytes :: "int option"
  ai_attach :: "artifact_attachment option"
  ai_reference :: bool

datatype artifact_error =
    Attachment_text_empty
  | Input_name_untrimmed
  | From_path_not_input
  | Media_type_untrimmed
  | Max_count_below_one
  | Max_bytes_negative
  | Reference_without_attach string
  | Reference_unstable string
  | Unsupported_source_kind source_kind

definition trimmed :: "string \<Rightarrow> bool" where
  "trimmed s \<longleftrightarrow> s \<noteq> [] \<and> \<not> is_space (hd s) \<and> \<not> is_space (last s)"

definition artifactAttachment ::
    "attach_role option \<Rightarrow> string option \<Rightarrow> (artifact_error, artifact_attachment) result" where
  "artifactAttachment role text =
     (if text = Some [] then Inl Attachment_text_empty
      else Inr \<lparr>at_role = (case role of None \<Rightarrow> Attach_user | Some r \<Rightarrow> r), at_text = text\<rparr>)"

text \<open>The fields of \<open>artifactInput(fields)\<close>; \<open>required\<close> may be absent.\<close>

record artifact_input_fields =
  aif_name :: string
  aif_from_path :: string
  aif_required :: "bool option"
  aif_kind :: "string option"
  aif_media_types :: "string list"
  aif_max_count :: "int option"
  aif_max_bytes :: "int option"
  aif_attach :: "artifact_attachment option"
  aif_reference :: bool

definition below :: "int option \<Rightarrow> int \<Rightarrow> bool" where
  "below x n \<longleftrightarrow> (case x of None \<Rightarrow> False | Some i \<Rightarrow> i < n)"

definition artifactInput :: "artifact_input_fields \<Rightarrow> (artifact_error, artifact_input) result" where
  "artifactInput f =
     rbind (require (trimmed (aif_name f)) Input_name_untrimmed) (\<lambda>_.
     rbind (require (take 6 (aif_from_path f) = ''input.'') From_path_not_input) (\<lambda>_.
     rbind (each (\<lambda>m. require (trimmed m) Media_type_untrimmed) (aif_media_types f)) (\<lambda>_.
     rbind (require (\<not> below (aif_max_count f) 1) Max_count_below_one) (\<lambda>_.
     rbind (require (\<not> below (aif_max_bytes f) 0) Max_bytes_negative) (\<lambda>_.
     rbind (require (\<not> (aif_reference f \<and> aif_attach f = None)) (Reference_without_attach (aif_name f))) (\<lambda>_.
     rbind (require (\<not> (aif_reference f \<and> aif_required f = Some False
              \<and> (case aif_attach f of None \<Rightarrow> False | Some a \<Rightarrow> at_text a = None)))
             (Reference_unstable (aif_name f))) (\<lambda>_.
     rbind (case aif_attach f of
              None \<Rightarrow> Inr None
            | Some a \<Rightarrow> rbind (artifactAttachment (Some (at_role a)) (at_text a)) (\<lambda>a'. Inr (Some a'))) (\<lambda>attach.
     Inr \<lparr>ai_name = aif_name f, ai_from_path = aif_from_path f,
          ai_required = (case aif_required f of None \<Rightarrow> True | Some b \<Rightarrow> b), ai_kind = aif_kind f,
          ai_media_types = aif_media_types f, ai_max_count = aif_max_count f, ai_max_bytes = aif_max_bytes f,
          ai_attach = attach, ai_reference = aif_reference f\<rparr>))))))))"

record artifact_policy =
  ap_local_roots :: "string list"
  ap_allowed_source_kinds :: "source_kind list"
  ap_allowed_media_types :: "string list"
  ap_max_bytes :: "int option"

definition artifactPolicy ::
    "string list \<Rightarrow> source_kind list option \<Rightarrow> string list \<Rightarrow> int option
     \<Rightarrow> (artifact_error, artifact_policy) result" where
  "artifactPolicy roots kinds mediaTypes maxBytes =
     (let sourceKinds = (case kinds of None \<Rightarrow> [Local_path] | Some ks \<Rightarrow> ks)
      in rbind (each (\<lambda>k. require (k \<in> set ARTIFACT_SOURCE_KINDS) (Unsupported_source_kind k)) sourceKinds) (\<lambda>_.
         rbind (each (\<lambda>m. require (trimmed m) Media_type_untrimmed) mediaTypes) (\<lambda>_.
         rbind (require (\<not> below maxBytes 0) Max_bytes_negative) (\<lambda>_.
         Inr \<lparr>ap_local_roots = roots, ap_allowed_source_kinds = sourceKinds,
              ap_allowed_media_types = mediaTypes, ap_max_bytes = maxBytes\<rparr>))))"

section \<open>Resolved groups\<close>

record resolved_artifact =
  ra_group :: string
  ra_index :: nat
  ra_source :: artifact_source
  ra_kind :: "string option"
  ra_media_type :: "string option"
  ra_role :: "string option"
  ra_sha256 :: "string option"
  ra_size_bytes :: "int option"

record artifact_group =
  ag_name :: string
  ag_artifacts :: "resolved_artifact list"

definition artifactSafeSummary :: "resolved_artifact \<Rightarrow> (string \<times> jv) list" where
  "artifactSafeSummary a =
     [(''group'', JStr (ra_group a)), (''index'', JNum (IntN (int (ra_index a)))),
      (''source_kind'', JStr (source_kind_text (as_type (ra_source a))))]
     @ opt_field ''kind'' (map_option JStr (ra_kind a))
     @ opt_field ''media_type'' (map_option JStr (ra_media_type a))
     @ opt_field ''role'' (map_option JStr (ra_role a))
     @ opt_field ''sha256'' (map_option JStr (ra_sha256 a))
     @ opt_field ''size_bytes'' (map_option (JNum \<circ> IntN) (ra_size_bytes a))"

definition artifactGroupsSummary :: "artifact_group list \<Rightarrow> (string \<times> jv) list list" where
  "artifactGroupsSummary groups =
     map (\<lambda>g. [(''name'', JStr (ag_name g)), (''count'', JNum (IntN (int (length (ag_artifacts g))))),
               (''artifacts'', JArr (map (JObj \<circ> artifactSafeSummary) (ag_artifacts g)))]) groups"

text \<open>The source with its null fields dropped, in the order of its own keys.\<close>

definition source_json :: "artifact_source \<Rightarrow> (string \<times> jv) list" where
  "source_json s = (''type'', JStr (source_kind_text (as_type s)))
     # concat (map (\<lambda>(k, v). opt_field k (map_option JStr v)) (as_fields s))"

definition artifactCacheIdentity :: "resolved_artifact \<Rightarrow> (string \<times> jv) list" where
  "artifactCacheIdentity a =
     (if ra_sha256 a = None
      then artifactSafeSummary a @ [(''source'', JObj (source_json (ra_source a)))]
      else artifactSafeSummary a)"

definition artifactGroupsCacheIdentity :: "artifact_group list \<Rightarrow> (string \<times> jv) list list" where
  "artifactGroupsCacheIdentity groups =
     map (\<lambda>g. [(''name'', JStr (ag_name g)), (''count'', JNum (IntN (int (length (ag_artifacts g))))),
               (''artifacts'', JArr (map (JObj \<circ> artifactCacheIdentity) (ag_artifacts g)))])
       (filter (\<lambda>g. ag_artifacts g \<noteq> []) groups)"

section \<open>Provider-side lookup\<close>

datatype lookup_error =
    Unknown_artifact_group string
  | Invalid_artifact_reference string
  | Unknown_artifact_reference string
  | Ambiguous_artifact_reference string nat

definition artifactsForGroup :: "artifact_group list \<Rightarrow> string \<Rightarrow> (lookup_error, resolved_artifact list) result" where
  "artifactsForGroup groups name =
     (case find (\<lambda>g. ag_name g = name) groups of
        None \<Rightarrow> Inl (Unknown_artifact_group name)
      | Some g \<Rightarrow> Inr (ag_artifacts g))"

definition trim :: "string \<Rightarrow> string" where
  "trim s = rev (dropWhile is_space (rev (dropWhile is_space s)))"

text \<open>\<open>/^[+-]?\d+$/\<close> with the number it denotes.\<close>

fun signed_index :: "string \<Rightarrow> int option" where
  "signed_index (c # cs) =
     (if c = CHR ''+'' then (if cs = [] then None else map_option int (digits_of cs 0))
      else if c = CHR ''-'' then (if cs = [] then None else map_option (uminus \<circ> int) (digits_of cs 0))
      else map_option int (digits_of (c # cs) 0))"
| "signed_index [] = None"

definition artifactForName :: "artifact_group list \<Rightarrow> string \<Rightarrow> (lookup_error, resolved_artifact) result" where
  "artifactForName groups name =
     (if CHR ''['' \<in> set name \<and> last name = CHR '']''
      then
        (let groupName = takeWhile (\<lambda>c. c \<noteq> CHR ''['') name;
             indexText = trim (butlast (tl (dropWhile (\<lambda>c. c \<noteq> CHR ''['') name)))
         in case signed_index indexText of
              None \<Rightarrow> Inl (Invalid_artifact_reference name)
            | Some i \<Rightarrow>
                if i < 0 then Inl (Invalid_artifact_reference name)
                else rbind (artifactsForGroup groups groupName) (\<lambda>as.
                  if nat i < length as then Inr (as ! nat i) else Inl (Unknown_artifact_reference name)))
      else rbind (artifactsForGroup groups name) (\<lambda>as.
        case as of [a] \<Rightarrow> Inr a | _ \<Rightarrow> Inl (Ambiguous_artifact_reference name (length as))))"

section \<open>Attaching\<close>

definition attach_role_text :: "attach_role \<Rightarrow> string" where
  "attach_role_text r = (case r of Attach_system \<Rightarrow> ''system'' | Attach_user \<Rightarrow> ''user'' | Attach_assistant \<Rightarrow> ''assistant'')"

definition group_present :: "artifact_group list \<Rightarrow> string \<Rightarrow> bool" where
  "group_present groups name \<longleftrightarrow> list_ex (\<lambda>g. ag_name g = name \<and> ag_artifacts g \<noteq> []) groups"

text \<open>One iteration of the loop: the message the input adds, if any.\<close>

definition attach_message :: "artifact_group list \<Rightarrow> artifact_input \<Rightarrow> chat_message list" where
  "attach_message groups input =
     (case ai_attach input of
        None \<Rightarrow> []
      | Some attach \<Rightarrow>
          (let hasArtifacts = group_present groups (ai_name input)
           in if \<not> hasArtifacts \<and> at_text attach = None then []
              else [\<lparr>cm_role = attach_role_text (at_role attach),
                     cm_content = Content_parts
                       ((case at_text attach of None \<Rightarrow> [] | Some t \<Rightarrow> [Text_part t])
                        @ (if hasArtifacts then [Artifact_group_part (ai_name input) None] else [])),
                     cm_name = None\<rparr>]))"

definition attachArtifactMessages ::
    "chat_message list \<Rightarrow> artifact_input list \<Rightarrow> artifact_group list \<Rightarrow> chat_message list" where
  "attachArtifactMessages messages inputs groups = messages @ concat (map (attach_message groups) inputs)"

section \<open>The cached prefix has a fixed shape\<close>

text \<open>A reference input that passed \<open>artifactInput\<close> always adds exactly one message once its required
  group is present, so the cached prefix has the same shape for every item.\<close>

lemma artifactInput_reference:
  assumes "artifactInput f = Inr i" and "ai_reference i"
  shows "\<exists>a. ai_attach i = Some a \<and> (ai_required i \<or> at_text a \<noteq> None)"
  using assms
  by (cases "aif_attach f")
    (auto simp: artifactInput_def artifactAttachment_def result_simps split: if_splits option.splits)

lemma reference_one_message:
  assumes "artifactInput f = Inr i" and "ai_reference i"
    and "ai_required i \<Longrightarrow> group_present groups (ai_name i)"
  shows "length (attach_message groups i) = 1"
  using artifactInput_reference [OF assms(1,2)] assms(3)
  by (auto simp: attach_message_def Let_def)

end
