(* ===== verification/Cache_Store.thy ===== *)
theory Cache_Store
  imports Canonical_Unique
begin

text \<open>
  The cross-run cache: keys, digests and records (\<open>packages/typescript/temporal/src/cache.ts\<close>) and
  the in-memory store with its subject index (\<open>InMemoryCacheStore\<close> in \<open>execute.ts\<close>). SHA-256 is a
  parameter, a function from text to text.
\<close>

section \<open>Keys and records\<close>

record cache_key =
  ck_activity :: string
  ck_input_hash :: string
  ck_scope :: "(string \<times> string) list"

record cache_record =
  cr_key :: cache_key
  cr_output :: jv
  cr_created_at :: string
  cr_output_schema_hash :: string
  cr_manifest_hash :: "string option"
  cr_tokens_saved :: "jsnum option"
  cr_subjects :: "string list option"

definition cacheKey :: "string \<Rightarrow> string \<Rightarrow> (string \<times> string) list \<Rightarrow> cache_key" where
  "cacheKey activity inputHash scope =
     \<lparr>ck_activity = activity, ck_input_hash = inputHash, ck_scope = scope\<rparr>"

definition key_json :: "cache_key \<Rightarrow> jv" where
  "key_json key =
     JObj [(''activity'', JStr (ck_activity key)), (''input_hash'', JStr (ck_input_hash key)),
           (''scope'', JObj (map (\<lambda>(k, v). (k, JStr v)) (ck_scope key)))]"

definition cacheKeyDigest :: "(string \<Rightarrow> string) \<Rightarrow> cache_key \<Rightarrow> string" where
  "cacheKeyDigest sha key = sha (canonicalJson (key_json key))"

record input_params =
  ip_activity :: string
  ip_inputSchemaHash :: string
  ip_renderedMessagesHash :: string
  ip_providerParams :: "(string \<times> jv) list option"
  ip_artifacts :: "(string \<times> jv) list list option"

definition input_payload :: "input_params \<Rightarrow> (string \<times> jv) list" where
  "input_payload p =
     (let payload =
        [(''activity'', JStr (ip_activity p)), (''input_schema_hash'', JStr (ip_inputSchemaHash p)),
         (''rendered_messages_hash'', JStr (ip_renderedMessagesHash p)),
         (''provider_params'', JObj (case ip_providerParams p of None \<Rightarrow> [] | Some q \<Rightarrow> q))]
      in case ip_artifacts p of
           None \<Rightarrow> payload
         | Some gs \<Rightarrow> if gs = [] then payload else payload @ [(''artifacts'', JArr (map JObj gs))])"

definition cacheInputHash :: "(string \<Rightarrow> string) \<Rightarrow> input_params \<Rightarrow> string" where
  "cacheInputHash sha p = sha (canonicalJson (JObj (input_payload p)))"

record record_params =
  rp_key :: cache_key
  rp_output :: jv
  rp_createdAt :: string
  rp_outputSchemaHash :: string
  rp_manifestHash :: "string option"
  rp_tokensSaved :: "jsnum option"
  rp_subjects :: "string list option"

definition cacheRecord :: "record_params \<Rightarrow> cache_record" where
  "cacheRecord p =
     \<lparr>cr_key = rp_key p, cr_output = rp_output p, cr_created_at = rp_createdAt p,
      cr_output_schema_hash = rp_outputSchemaHash p, cr_manifest_hash = rp_manifestHash p,
      cr_tokens_saved = rp_tokensSaved p,
      cr_subjects = (case rp_subjects p of None \<Rightarrow> None | Some s \<Rightarrow> if s = [] then None else Some s)\<rparr>"

section \<open>The in-memory store\<close>

text \<open>
  \<open>records\<close> and \<open>subjectIndex\<close> are JavaScript maps read by key only; a \<open>Set\<close> of digests is the list
  of its members in insertion order.
\<close>

record memory_store =
  records :: "string \<rightharpoonup> cache_record"
  subjectIndex :: "string \<rightharpoonup> string list"

definition empty_store :: memory_store where
  "empty_store = \<lparr>records = Map.empty, subjectIndex = Map.empty\<rparr>"

definition subjects_of :: "cache_record \<Rightarrow> string list" where
  "subjects_of r = (case cr_subjects r of None \<Rightarrow> [] | Some s \<Rightarrow> s)"

definition store_get :: "(string \<Rightarrow> string) \<Rightarrow> memory_store \<Rightarrow> cache_key \<Rightarrow> cache_record option" where
  "store_get sha st key = records st (cacheKeyDigest sha key)"

text \<open>\<open>unindex(digest, subjects)\<close>\<close>

fun unindex :: "string \<Rightarrow> string list \<Rightarrow> (string \<rightharpoonup> string list) \<Rightarrow> (string \<rightharpoonup> string list)" where
  "unindex digest [] idx = idx"
| "unindex digest (subjectId # subjects) idx =
     (case idx subjectId of
        None \<Rightarrow> unindex digest subjects idx
      | Some keys \<Rightarrow>
          (let keys' = removeAll digest keys
           in unindex digest subjects (if keys' = [] then idx(subjectId := None) else idx(subjectId \<mapsto> keys'))))"

text \<open>The loop of \<open>set\<close> that adds the digest to the index set of each subject.\<close>

definition set_add :: "'a \<Rightarrow> 'a list \<Rightarrow> 'a list" where
  "set_add x xs = (if x \<in> set xs then xs else xs @ [x])"

fun index_subjects :: "string \<Rightarrow> string list \<Rightarrow> (string \<rightharpoonup> string list) \<Rightarrow> (string \<rightharpoonup> string list)" where
  "index_subjects digest [] idx = idx"
| "index_subjects digest (subjectId # subjects) idx =
     (let keys = (case idx subjectId of None \<Rightarrow> [] | Some ks \<Rightarrow> ks)
      in index_subjects digest subjects (idx(subjectId \<mapsto> set_add digest keys)))"

definition store_set :: "(string \<Rightarrow> string) \<Rightarrow> cache_key \<Rightarrow> cache_record \<Rightarrow> memory_store \<Rightarrow> memory_store" where
  "store_set sha key r st =
     (let digest = cacheKeyDigest sha key;
          idx = (case records st digest of
                   None \<Rightarrow> subjectIndex st
                 | Some prior \<Rightarrow> unindex digest (subjects_of prior) (subjectIndex st))
      in \<lparr>records = (records st)(digest \<mapsto> r),
          subjectIndex = index_subjects digest (subjects_of r) idx\<rparr>)"

section \<open>Erasing a subject\<close>

definition CACHE_ERASURE_COVERAGE_CAVEAT :: string where
  "CACHE_ERASURE_COVERAGE_CAVEAT =
     ''cache erasure only covers records written with a subject index (#715 slice 1+): '' @
     ''entries written before subject plumbing, or by workflows that touched this '' @
     ''subject's data through an un-declared path, carry no subject and are invisible '' @
     ''to a per-subject erase. A full store flush is the only way to guarantee their '' @
     ''removal.''"

record erasure_report =
  er_subjectId :: string
  er_dryRun :: bool
  er_storeClass :: string
  er_supported :: bool
  er_keysFound :: nat
  er_keysDeleted :: nat
  er_keyDigests :: "string list"
  er_failures :: "string list"
  er_warnings :: "string list"
  er_fullFlushFallback :: "string option"

fun erase_digests :: "string list \<Rightarrow> memory_store \<times> nat \<Rightarrow> memory_store \<times> nat" where
  "erase_digests [] acc = acc"
| "erase_digests (digest # digests) (st, deleted) =
     (case records st digest of
        None \<Rightarrow> erase_digests digests (st, deleted)
      | Some r \<Rightarrow>
          erase_digests digests
            (\<lparr>records = (records st)(digest := None),
              subjectIndex = unindex digest (subjects_of r) (subjectIndex st)\<rparr>, deleted + 1))"

definition eraseSubject :: "string \<Rightarrow> string \<Rightarrow> bool \<Rightarrow> memory_store \<Rightarrow> memory_store \<times> erasure_report" where
  "eraseSubject storeClass subjectId dryRun st =
     (let digests = sort_strings (case subjectIndex st subjectId of None \<Rightarrow> [] | Some ks \<Rightarrow> ks);
          report = (\<lambda>deleted. \<lparr>er_subjectId = subjectId, er_dryRun = dryRun, er_storeClass = storeClass,
             er_supported = True, er_keysFound = length digests, er_keysDeleted = deleted,
             er_keyDigests = digests, er_failures = [], er_warnings = [CACHE_ERASURE_COVERAGE_CAVEAT], er_fullFlushFallback = None\<rparr>)
      in if dryRun then (st, report 0)
         else (let (st', deleted) = erase_digests digests (st, 0) in (st', report deleted)))"

text \<open>What \<open>isSubjectErasableCacheStore\<close> probes of a store object.\<close>

record store_probe =
  sp_is_object :: bool
  sp_get :: bool
  sp_set :: bool
  sp_eraseSubject :: bool
  sp_class :: string

definition isSubjectErasableCacheStore :: "store_probe \<Rightarrow> bool" where
  "isSubjectErasableCacheStore p \<longleftrightarrow> sp_is_object p \<and> sp_get p \<and> sp_set p \<and> sp_eraseSubject p"

definition notSupportedCacheErasureReport :: "store_probe \<Rightarrow> string \<Rightarrow> bool \<Rightarrow> erasure_report" where
  "notSupportedCacheErasureReport p subjectId dryRun =
     \<lparr>er_subjectId = subjectId, er_dryRun = dryRun, er_storeClass = sp_class p, er_supported = False,
      er_keysFound = 0, er_keysDeleted = 0, er_keyDigests = [], er_failures = [], er_warnings = [CACHE_ERASURE_COVERAGE_CAVEAT],
      er_fullFlushFallback = Some
        (sp_class p @ '' has no subject index (does not implement '' @
         ''SubjectErasableCacheStore); per-subject cache invalidation is unavailable. '' @
         ''Flush the whole store to erase this subject's entries, or accept '' @
         ''stale-but-inert cached outputs.'')\<rparr>"

definition eraseSubjectFromCache ::
    "store_probe \<Rightarrow> string \<Rightarrow> bool \<Rightarrow> memory_store \<Rightarrow> memory_store \<times> erasure_report" where
  "eraseSubjectFromCache p subjectId dryRun st =
     (if isSubjectErasableCacheStore p then eraseSubject (sp_class p) subjectId dryRun st
      else (st, notSupportedCacheErasureReport p subjectId dryRun))"

end
