(* ===== verification/Activity_Call.thy ===== *)
theory Activity_Call
  imports Artifacts Cache_Store Provider_Limits
begin

text \<open>
  The data of an activity execution (\<open>packages/typescript/temporal/src/execute.ts\<close>, \<open>activity.ts\<close>,
  \<open>moderation.ts\<close>, \<open>session-cache.ts\<close>): descriptors, options, errors, the log of everything the
  executor does to the outside, and the pure parts: merging of parameters, choice of the model, the
  cache key, retry delays, null coercion and the normalisation of an output check.

  Everything an adopter or a library supplies (provider, hook, output check, moderator, prompt
  registry, artifact resolver, Zod's \<open>safeParse\<close>, the clock, the abort signal) is a function in the
  descriptor or the options. The ones that may answer differently each time take the log so far.
\<close>

section \<open>Schemas\<close>

text \<open>The shape of a Zod schema as far as \<open>coerceOptionalNulls\<close> inspects it.\<close>

datatype zschema =
    Z_optional zschema
  | Z_nullable zschema
  | Z_default zschema
  | Z_array zschema
  | Z_object "(string \<times> zschema) list"
  | Z_other string

type_synonym zparser = "zschema \<Rightarrow> jv option \<Rightarrow> (string, jv) result"

fun peel :: "nat \<Rightarrow> zschema \<Rightarrow> zschema" where
  "peel (Suc n) (Z_optional s) = peel n s"
| "peel (Suc n) (Z_nullable s) = peel n s"
| "peel (Suc n) (Z_default s) = peel n s"
| "peel n s = s"

definition innerType :: "zschema \<Rightarrow> zschema" where
  "innerType s = peel 8 s"

definition accepts :: "zparser \<Rightarrow> zschema \<Rightarrow> jv option \<Rightarrow> bool" where
  "accepts parse s v \<longleftrightarrow> (case parse s v of Inr _ \<Rightarrow> True | Inl _ \<Rightarrow> False)"

text \<open>
  The keys of a shape are distinct, so the value read for a key in the loop is still that of the input.
\<close>

function coerceOptionalNulls :: "zparser \<Rightarrow> zschema \<Rightarrow> jv \<Rightarrow> jv" where
  "coerceOptionalNulls parse schema raw =
     (case (innerType schema, raw) of
        (Z_array element, JArr xs) \<Rightarrow> JArr (map (coerceOptionalNulls parse element) xs)
      | (Z_object shape, JObj kvs) \<Rightarrow>
          JObj (foldl (\<lambda>out (key, field).
            case map_of kvs key of
              None \<Rightarrow> out
            | Some v \<Rightarrow>
                if v = JNull \<and> \<not> accepts parse field (Some JNull) \<and> accepts parse field None
                then obj_delete key out
                else obj_put key (coerceOptionalNulls parse field v) out) kvs shape)
      | _ \<Rightarrow> raw)"
  by pat_completeness auto

termination
  by (relation "measure (\<lambda>(_, _, raw). size raw)")
    (auto simp: jv_map_of_size dest!: size_elem_le)

declare coerceOptionalNulls.simps [simp del]

section \<open>Parameters and the model\<close>

fun params_kept :: "jv \<Rightarrow> bool" where
  "params_kept JNull = False"
| "params_kept (JArr []) = False"
| "params_kept v = True"

definition mergeProviderParams :: "(string \<times> jv) list option list \<Rightarrow> (string \<times> jv) list" where
  "mergeProviderParams layers =
     foldl (\<lambda>merged layer. case layer of None \<Rightarrow> merged
       | Some kvs \<Rightarrow> foldl (\<lambda>m (k, v). if params_kept v then obj_put k v m else m) merged kvs) [] layers"

definition OPERATIONAL_PROVIDER_PARAM_KEYS :: "string list" where
  "OPERATIONAL_PROVIDER_PARAM_KEYS = [''timeout'']"

definition behaviorProviderParams :: "(string \<times> jv) list \<Rightarrow> (string \<times> jv) list" where
  "behaviorProviderParams params =
     foldl (\<lambda>b (k, v). if k \<notin> set OPERATIONAL_PROVIDER_PARAM_KEYS then obj_put k v b else b) [] params"

definition string_param :: "(string \<times> jv) list \<Rightarrow> string \<Rightarrow> string option" where
  "string_param params k = (case map_of params k of Some (JStr s) \<Rightarrow> Some s | _ \<Rightarrow> None)"

definition nonempty :: "string option \<Rightarrow> string option" where
  "nonempty s = (if s = Some [] then None else s)"

definition resolveModel ::
    "string option \<Rightarrow> (string \<times> jv) list option \<Rightarrow> (string \<times> jv) list \<Rightarrow> string option" where
  "resolveModel model defaultParams providerParams =
     orelse model
       (orelse (nonempty (string_param providerParams ''model''))
         (case defaultParams of None \<Rightarrow> None | Some d \<Rightarrow> string_param d ''model''))"

section \<open>Session handles\<close>

datatype session_style = Style_reference | Style_prefix

record session_handle =
  sh_provider :: string
  sh_identity_hash :: string
  sh_supported :: bool
  sh_style :: "session_style option"
  sh_cache_id :: "string option"
  sh_model :: "string option"
  sh_created_at :: "string option"
  sh_ttl_seconds :: "int option"
  sh_reference_cached :: bool
  sh_prefix_stable_messages :: "nat option"
  sh_per_item_artifact_messages :: bool

section \<open>Errors and the log\<close>

datatype provider_error =
    Transient_error "rat option"
  | Rate_limit_error "rat option"
  | Other_provider_error string

record violation =
  vi_message :: string
  vi_path :: "string list option"

datatype validation_detail = Zod_error string | Check_violations "violation list"

datatype activity_error =
    Err_no_messages
  | Err_registry string
  | Err_render render_error
  | Err_policy string
  | Err_no_resolver
  | Err_resolver string
  | Err_required_artifact string
  | Err_cancelled
  | Err_validation nat validation_detail
  | Err_provider provider_error
  | Err_check_contract
  | Err_hook string
  | Err_hook_output string
  | Err_moderator string
  | Err_moderation_blocked "string option" "string list"
  | Err_cached_output string
  | Err_store string
  | Err_limits limits_error
  | Err_admission
  | Err_input string
  | Err_handler string

record moderation_result =
  mr_flagged :: bool
  mr_categories :: "string list option"
  mr_maxScore :: "rat option"

datatype verdict_decision = Allow | Flag | Block

record resolved_call =
  rc_providerName :: string
  rc_model :: "string option"
  rc_activityName :: string
  rc_promptName :: "string option"

record call_request =
  rq_messages :: "chat_message list"
  rq_model :: "string option"
  rq_providerParams :: "(string \<times> jv) list"
  rq_artifacts :: "artifact_group list option"

datatype activity_event =
    A_guard resolved_call
  | A_registry
  | A_resolver
  | A_open
  | A_checkpoint
  | A_cache_get cache_key
  | A_cacheHit bool
  | A_generation nat "chat_message list"
  | A_provider call_request
  | A_backoff rat
  | A_generation_error
  | A_generation_output jv
  | A_check jv jv
  | A_hook jv jv
  | A_hook_output jv
  | A_hook_error
  | A_moderator jv
  | A_verdict verdict_decision
  | A_controls policy_source
  | A_admission
  | A_cache_set cache_key cache_record
  | A_handler jv
  | A_output jv
  | A_error activity_error
  | A_end

type_synonym history = "activity_event list"

section \<open>Descriptors\<close>

record moderation_config =
  md_moderator :: "history \<Rightarrow> jv \<Rightarrow> (string, moderation_result) result"
  md_onViolation :: "string option"

record cache_config =
  cc_enabled :: bool
  cc_bypassReadsEnv :: "string option"

record activity_common =
  ad_name :: string
  ad_input :: zschema
  ad_output :: zschema
  ad_inputSchemaHash :: string
  ad_outputSchemaHash :: string
  ad_validationRetries :: nat
  ad_hook :: "(history \<Rightarrow> jv \<Rightarrow> jv \<Rightarrow> (string, jv) result) option"
  ad_outputCheck :: "(history \<Rightarrow> jv \<Rightarrow> jv \<Rightarrow> (string, jv option) result) option"
  ad_moderation :: "moderation_config option"

record ai_descriptor = activity_common +
  ad_promptName :: string
  ad_cache :: "cache_config option"
  ad_providerParams :: "(string \<times> jv) list option"
  ad_artifacts :: "artifact_input list"

record code_descriptor = activity_common +
  ad_handler :: "history \<Rightarrow> jv \<Rightarrow> (string, jv) result"

datatype activity_descriptor = AI_activity ai_descriptor | Code_activity code_descriptor

section \<open>Options\<close>

record resolved_prompt =
  pr_messages :: "chat_message list"
  pr_resolvedVersion :: "string option"
  pr_model :: "string option"
  pr_temperature :: "jsnum option"
  pr_providerParams :: "(string \<times> jv) list option"

record transient_backoff =
  tb_initialMs :: rat
  tb_multiplier :: "rat option"
  tb_maxMs :: "rat option"
  tb_jitterRatio :: "rat option"

record 's cache_ops =
  co_get :: "'s \<Rightarrow> cache_key \<Rightarrow> (string, cache_record option) result"
  co_set :: "cache_key \<Rightarrow> cache_record \<Rightarrow> 's \<Rightarrow> (string, 's) result"

record 's execute_options =
  op_provider :: "history \<Rightarrow> call_request \<Rightarrow> (provider_error, jv) result"
  op_providerName :: string
  op_defaultProviderParams :: "(string \<times> jv) list option"
  op_messages :: "chat_message list option"
  op_registry :: "(history \<Rightarrow> string \<Rightarrow> (string, resolved_prompt) result) option"
  op_tenant :: "(string \<times> string) list"
  op_subjectIds :: "string list option"
  op_cacheStore :: "'s cache_ops option"
  op_model :: "string option"
  op_providerParams :: "(string \<times> jv) list option"
  op_transientRetries :: nat
  op_cancelled :: "history \<Rightarrow> bool"
  op_artifacts :: "artifact_group list option"
  op_artifactResolver :: "(history \<Rightarrow> jv \<Rightarrow> artifact_input list \<Rightarrow> (string, artifact_group list) result) option"
  op_isTransientError :: "(provider_error \<Rightarrow> bool option) option"
  op_transientRetryDelayMs :: "rat option"
  op_transientBackoff :: "transient_backoff option"
  op_providerLimitController :: "limit_controller option"
  op_admitted :: "history \<Rightarrow> bool"
  op_retryRateLimits :: "bool option"
  op_retryTransientErrors :: "bool option"
  op_cachedSession :: "session_handle option"
  op_providerModelGuard :: "(resolved_call \<Rightarrow> string option) option"
  op_moderationPolicyBlock :: "(string \<Rightarrow> string list \<Rightarrow> rat option \<Rightarrow> string option) option"
  op_sha :: "string \<Rightarrow> string"
  op_now :: "history \<Rightarrow> string"
  op_random :: "history \<Rightarrow> rat"
  op_env :: "string \<Rightarrow> bool"
  op_parse :: zparser

section \<open>Retry delays\<close>

text \<open>\<open>Math.round\<close>\<close>

definition js_round :: "rat \<Rightarrow> rat" where
  "js_round x = of_int \<lfloor>x + 1 / 2\<rfloor>"

definition transientRetryDelay ::
    "transient_backoff option \<Rightarrow> rat option \<Rightarrow> rat \<Rightarrow> nat \<Rightarrow> rat option \<Rightarrow> rat" where
  "transientRetryDelay backoff fixedMs rand attempt retryAfterSeconds =
     (let retryAfterMs = (case retryAfterSeconds of None \<Rightarrow> 0 | Some s \<Rightarrow> s * 1000)
      in case backoff of
           None \<Rightarrow> max (case fixedMs of None \<Rightarrow> 0 | Some d \<Rightarrow> d) (js_round retryAfterMs)
         | Some b \<Rightarrow>
             (let multiplier = (case tb_multiplier b of None \<Rightarrow> 2 | Some m \<Rightarrow> m);
                  grown = tb_initialMs b * multiplier ^ attempt;
                  capped = (case tb_maxMs b of None \<Rightarrow> grown | Some m \<Rightarrow> min grown m);
                  raw = max capped retryAfterMs;
                  jitterRatio = (case tb_jitterRatio b of None \<Rightarrow> 0 | Some j \<Rightarrow> j);
                  jittered = (if jitterRatio > 0 then raw * (1 + jitterRatio * rand) else raw)
              in max 0 (js_round jittered)))"

fun retry_hint :: "provider_error \<Rightarrow> rat option" where
  "retry_hint (Transient_error h) = h"
| "retry_hint (Rate_limit_error h) = h"
| "retry_hint (Other_provider_error _) = None"

fun is_rate_limit :: "provider_error \<Rightarrow> bool" where
  "is_rate_limit (Rate_limit_error _) = True"
| "is_rate_limit _ = False"

text \<open>\<open>err instanceof ProviderTransientError\<close>: a rate limit is one too.\<close>

fun is_transient_class :: "provider_error \<Rightarrow> bool" where
  "is_transient_class (Other_provider_error _) = False"
| "is_transient_class _ = True"

section \<open>Output checks\<close>

text \<open>What a check returned: \<open>undefined\<close> is \<open>None\<close>. A violation object needs a string message.\<close>

fun path_item :: "jv \<Rightarrow> string" where
  "path_item (JStr s) = s"
| "path_item v = formatValue v"

definition violation_path :: "jv option \<Rightarrow> string list option" where
  "violation_path v = (case v of Some (JArr xs) \<Rightarrow> Some (map path_item xs) | _ \<Rightarrow> None)"

definition asViolation :: "jv \<Rightarrow> violation option" where
  "asViolation v =
     (case v of
        JObj kvs \<Rightarrow>
          (case map_of kvs ''message'' of
             Some (JStr m) \<Rightarrow> Some \<lparr>vi_message = m, vi_path = violation_path (map_of kvs ''path'')\<rparr>
           | _ \<Rightarrow> None)
      | _ \<Rightarrow> None)"

definition normalizeOutputCheckResult :: "jv option \<Rightarrow> (activity_error, violation list option) result" where
  "normalizeOutputCheckResult r =
     (case r of
        None \<Rightarrow> Inr None
      | Some JNull \<Rightarrow> Inr None
      | Some (JArr xs) \<Rightarrow>
          if xs = [] then Inr None
          else if list_all (\<lambda>x. asViolation x \<noteq> None) xs then Inr (Some (map (the \<circ> asViolation) xs))
          else Inl Err_check_contract
      | Some v \<Rightarrow> (case asViolation v of Some vi \<Rightarrow> Inr (Some [vi]) | None \<Rightarrow> Inl Err_check_contract))"

definition renderOutputCheckViolations :: "violation list \<Rightarrow> string" where
  "renderOutputCheckViolations vs =
     join [char_of (10::nat)]
       (map (\<lambda>v. let path = (case vi_path v of None \<Rightarrow> [] | Some p \<Rightarrow> join ''.'' p)
                 in if path \<noteq> [] then ''- '' @ path @ '': '' @ vi_message v else ''- '' @ vi_message v) vs)"

section \<open>Cache keys\<close>

definition cacheKeyFor ::
    "(string \<Rightarrow> string) \<Rightarrow> ai_descriptor \<Rightarrow> chat_message list \<Rightarrow> string option \<Rightarrow> (string \<times> jv) list
     \<Rightarrow> (string \<times> string) list \<Rightarrow> artifact_group list \<Rightarrow> session_handle option \<Rightarrow> cache_key" where
  "cacheKeyFor sha d messages model params tenant groups session =
     (let behavior = behaviorProviderParams params;
          withModel = (case model of None \<Rightarrow> behavior | Some m \<Rightarrow> obj_put ''model'' (JStr m) behavior);
          providerParams = (case session of None \<Rightarrow> withModel
            | Some h \<Rightarrow> obj_put ''__session_identity'' (JStr (sh_identity_hash h)) withModel);
          inputHash = cacheInputHash sha
            \<lparr>ip_activity = ad_name d, ip_inputSchemaHash = ad_inputSchemaHash d,
             ip_renderedMessagesHash = messagesHash sha messages, ip_providerParams = Some providerParams,
             ip_artifacts = Some (artifactGroupsCacheIdentity groups)\<rparr>
      in cacheKey (ad_name d) inputHash tenant)"

section \<open>Message assembly for a prefix-style session\<close>

definition prefixReferenceCompositionApplies :: "session_handle option \<Rightarrow> artifact_input list \<Rightarrow> bool" where
  "prefixReferenceCompositionApplies session inputs \<longleftrightarrow>
     (case session of None \<Rightarrow> False
      | Some h \<Rightarrow> sh_supported h \<and> sh_style h = Some Style_prefix \<and> list_ex ai_reference inputs)"

definition is_system :: "chat_message \<Rightarrow> bool" where
  "is_system m \<longleftrightarrow> cm_role m = ''system''"

definition composePrefixStableMessages ::
    "chat_message list \<Rightarrow> artifact_input list \<Rightarrow> artifact_group list \<Rightarrow> chat_message list" where
  "composePrefixStableMessages rendered inputs groups =
     (let referenceInputs = filter ai_reference inputs;
          perItemInputs = filter (\<lambda>i. \<not> ai_reference i) inputs
      in filter is_system rendered @ attachArtifactMessages [] referenceInputs groups
         @ filter (\<lambda>m. \<not> is_system m) rendered @ attachArtifactMessages [] perItemInputs groups)"

definition non_system_attach :: "artifact_input \<Rightarrow> bool" where
  "non_system_attach i \<longleftrightarrow> (case ai_attach i of None \<Rightarrow> False | Some a \<Rightarrow> at_role a \<noteq> Attach_system)"

definition prefixStableMessageCount :: "artifact_input list \<Rightarrow> nat" where
  "prefixStableMessageCount inputs = length (filter (\<lambda>i. ai_reference i \<and> non_system_attach i) inputs)"

definition prefixHasPerItemArtifacts :: "artifact_input list \<Rightarrow> bool" where
  "prefixHasPerItemArtifacts inputs \<longleftrightarrow> list_ex (\<lambda>i. \<not> ai_reference i \<and> non_system_attach i) inputs"

end
