(* ===== verification/Activity_Run.thy ===== *)
theory Activity_Run
  imports Activity_Call
begin

text \<open>
  The activity executor (\<open>packages/typescript/temporal/src/execute.ts\<close>): call resolution, the model
  guard, artifacts, the cache path, the generation loop with validation repair and transient retry,
  hook, moderation and the cache write, and the pure-code path. A computation is a function of the
  state (log and store) that returns or throws.
\<close>

section \<open>Computations\<close>

record 's act_state =
  st_log :: history
  st_store :: 's

type_synonym ('s, 'a) act = "'s act_state \<Rightarrow> (activity_error, 'a) result \<times> 's act_state"

definition ret :: "'a \<Rightarrow> ('s, 'a) act" where
  "ret x = (\<lambda>st. (Inr x, st))"

definition throw :: "activity_error \<Rightarrow> ('s, 'a) act" where
  "throw e = (\<lambda>st. (Inl e, st))"

definition abind :: "('s, 'a) act \<Rightarrow> ('a \<Rightarrow> ('s, 'b) act) \<Rightarrow> ('s, 'b) act" where
  "abind m f = (\<lambda>st. case m st of (Inl e, st') \<Rightarrow> (Inl e, st') | (Inr x, st') \<Rightarrow> f x st')"

definition catch :: "('s, 'a) act \<Rightarrow> (activity_error \<Rightarrow> ('s, 'a) act) \<Rightarrow> ('s, 'a) act" where
  "catch m h = (\<lambda>st. case m st of (Inl e, st') \<Rightarrow> h e st' | (Inr x, st') \<Rightarrow> (Inr x, st'))"

definition log_event :: "activity_event \<Rightarrow> ('s, unit) act" where
  "log_event ev = (\<lambda>st. (Inr (), st\<lparr>st_log := st_log st @ [ev]\<rparr>))"

definition ask :: "(history \<Rightarrow> 'a) \<Rightarrow> ('s, 'a) act" where
  "ask f = (\<lambda>st. (Inr (f (st_log st)), st))"

text \<open>A call of outside code: it answers by the log so far, and the call is logged.\<close>

definition outside :: "activity_event \<Rightarrow> (history \<Rightarrow> 'a) \<Rightarrow> ('s, 'a) act" where
  "outside ev f = (\<lambda>st. (Inr (f (st_log st)), st\<lparr>st_log := st_log st @ [ev]\<rparr>))"

definition lift_result :: "('e \<Rightarrow> activity_error) \<Rightarrow> ('e, 'a) result \<Rightarrow> ('s, 'a) act" where
  "lift_result err r = (case r of Inl e \<Rightarrow> throw (err e) | Inr x \<Rightarrow> ret x)"

definition throwIfCancelled :: "'s execute_options \<Rightarrow> ('s, unit) act" where
  "throwIfCancelled opts =
     abind (outside A_checkpoint (op_cancelled opts)) (\<lambda>c. if c then throw Err_cancelled else ret ())"

section \<open>Transient retry\<close>

text \<open>
  One turn of the retry loop. \<open>next\<close> is the next turn, absent when \<open>attempt >= maxRetries\<close>.
  \<open>isTransientError\<close> answers \<open>None\<close> when the classifier throws.
\<close>

definition retry_disabled :: "'s execute_options \<Rightarrow> provider_error \<Rightarrow> bool" where
  "retry_disabled opts err =
     (if is_rate_limit err then op_retryRateLimits opts = Some False else op_retryTransientErrors opts = Some False)"

definition transient_attempt ::
    "'s execute_options \<Rightarrow> call_request \<Rightarrow> nat \<Rightarrow> ('s, jv) act option \<Rightarrow> ('s, jv) act" where
  "transient_attempt opts request attempt next_turn =
     abind (throwIfCancelled opts) (\<lambda>_.
     abind (outside (A_provider request) (\<lambda>h. op_provider opts h request)) (\<lambda>answer.
       case answer of
         Inr v \<Rightarrow> ret v
       | Inl err \<Rightarrow>
           abind (throwIfCancelled opts) (\<lambda>_.
             case (case op_isTransientError opts of None \<Rightarrow> Some (is_transient_class err) | Some f \<Rightarrow> f err) of
               None \<Rightarrow> throw (Err_provider err)
             | Some transient \<Rightarrow>
                 (case next_turn of
                    None \<Rightarrow> throw (Err_provider err)
                  | Some again \<Rightarrow>
                      if \<not> transient \<or> retry_disabled opts err then throw (Err_provider err)
                      else
                        abind (ask (op_random opts)) (\<lambda>rand.
                          let delayMs = transientRetryDelay (op_transientBackoff opts)
                                (op_transientRetryDelayMs opts) rand attempt (retry_hint err)
                          in if delayMs > 0
                             then abind (log_event (A_backoff delayMs)) (\<lambda>_.
                                  abind (throwIfCancelled opts) (\<lambda>_. again))
                             else again)))))"

primrec transient_loop :: "'s execute_options \<Rightarrow> call_request \<Rightarrow> nat \<Rightarrow> nat \<Rightarrow> ('s, jv) act" where
  "transient_loop opts request 0 attempt = transient_attempt opts request attempt None"
| "transient_loop opts request (Suc remaining) attempt =
     transient_attempt opts request attempt (Some (transient_loop opts request remaining (Suc attempt)))"

definition callWithTransientRetry :: "'s execute_options \<Rightarrow> call_request \<Rightarrow> ('s, jv) act" where
  "callWithTransientRetry opts request = transient_loop opts request (op_transientRetries opts) 0"

section \<open>Acceptance\<close>

definition runOutputCheck :: "'a activity_common_scheme \<Rightarrow> jv \<Rightarrow> jv \<Rightarrow> ('s, violation list option) act" where
  "runOutputCheck d input output =
     (case ad_outputCheck d of
        None \<Rightarrow> ret None
      | Some check \<Rightarrow>
          abind (outside (A_check input output) (\<lambda>h. check h input output)) (\<lambda>answer.
            case answer of
              Inl message \<Rightarrow> ret (Some [\<lparr>vi_message = message, vi_path = None\<rparr>])
            | Inr r \<Rightarrow> lift_result id (normalizeOutputCheckResult r)))"

definition runHook :: "'s execute_options \<Rightarrow> 'a activity_common_scheme \<Rightarrow> jv \<Rightarrow> jv \<Rightarrow> ('s, jv) act" where
  "runHook opts d input output =
     (case ad_hook d of
        None \<Rightarrow> ret output
      | Some hook \<Rightarrow>
          abind (outside (A_hook input output) (\<lambda>h. hook h input output)) (\<lambda>answer.
          abind (lift_result Err_hook answer) (\<lambda>hooked.
            lift_result Err_hook_output (op_parse opts (ad_output d) (Some hooked)))))"

text \<open>
  The verdict is recorded before it is enforced. A policy reason and a flagged verdict of an activity
  that does not say \<open>"flag"\<close> both block; the error carries the reason when there is one.
\<close>

definition moderation_decision :: "moderation_config \<Rightarrow> string option \<Rightarrow> moderation_result \<Rightarrow> verdict_decision" where
  "moderation_decision m reason r =
     (let flaggedBlock = (mr_flagged r \<and> md_onViolation m \<noteq> Some ''flag'')
      in if reason \<noteq> None \<or> flaggedBlock then Block else if mr_flagged r then Flag else Allow)"

definition enforce_verdict ::
    "verdict_decision \<Rightarrow> string option \<Rightarrow> string list \<Rightarrow> jv \<Rightarrow> ('s, jv) act" where
  "enforce_verdict decision reason categories output =
     abind (log_event (A_verdict decision)) (\<lambda>_.
       if decision = Block then throw (Err_moderation_blocked reason categories) else ret output)"

definition applyModeration ::
    "string \<Rightarrow> moderation_config option \<Rightarrow> jv
     \<Rightarrow> (string \<Rightarrow> string list \<Rightarrow> rat option \<Rightarrow> string option) option \<Rightarrow> ('s, jv) act" where
  "applyModeration name moderation output policyBlock =
     (case moderation of
        None \<Rightarrow> ret output
      | Some m \<Rightarrow>
          abind (outside (A_moderator output) (\<lambda>h. md_moderator m h output)) (\<lambda>answer.
          abind (lift_result Err_moderator answer) (\<lambda>r.
            let categories = (case mr_categories r of None \<Rightarrow> [] | Some cs \<Rightarrow> cs);
                reason = (case policyBlock of None \<Rightarrow> None | Some f \<Rightarrow> f name categories (mr_maxScore r))
            in enforce_verdict (moderation_decision m reason r) reason categories output)))"

definition finalizeOutput ::
    "'s execute_options \<Rightarrow> 'a activity_common_scheme \<Rightarrow> jv \<Rightarrow> jv
     \<Rightarrow> (string \<Rightarrow> string list \<Rightarrow> rat option \<Rightarrow> string option) option \<Rightarrow> ('s, jv) act" where
  "finalizeOutput opts d input output policyBlock =
     abind (if ad_hook d = None then ret output
            else catch (abind (runHook opts d input output) (\<lambda>hooked.
                          abind (log_event (A_hook_output hooked)) (\<lambda>_. ret hooked)))
                   (\<lambda>e. abind (log_event A_hook_error) (\<lambda>_. throw e)))
       (\<lambda>hooked. applyModeration (ad_name d) (ad_moderation d) hooked policyBlock)"

definition parsed_input :: "'s execute_options \<Rightarrow> 'a activity_common_scheme \<Rightarrow> jv \<Rightarrow> jv" where
  "parsed_input opts d input =
     (case op_parse opts (ad_input d) (Some input) of Inr v \<Rightarrow> v | Inl _ \<Rightarrow> input)"

definition parse_output :: "'s execute_options \<Rightarrow> 'a activity_common_scheme \<Rightarrow> jv \<Rightarrow> (string, jv) result" where
  "parse_output opts d raw =
     op_parse opts (ad_output d) (Some (coerceOptionalNulls (op_parse opts) (ad_output d) raw))"

section \<open>The generation loop\<close>

definition repair_message :: "string \<Rightarrow> chat_message" where
  "repair_message detail =
     \<lparr>cm_role = ''user'', cm_content = Content_text
        (''Previous response failed output validation. Return a corrected response ''
         @ ''matching the requested schema. Validation error: '' @ detail), cm_name = None\<rparr>"

record call_plan =
  cp_model :: "string option"
  cp_params :: "(string \<times> jv) list"
  cp_groups :: "artifact_group list option"
  cp_input :: jv
  cp_key :: "cache_key option"

definition write_cache :: "'s execute_options \<Rightarrow> ai_descriptor \<Rightarrow> call_plan \<Rightarrow> jv \<Rightarrow> ('s, unit) act" where
  "write_cache opts d cp output =
     (case (cp_key cp, op_cacheStore opts) of
        (Some key, Some ops) \<Rightarrow>
          abind (ask (op_now opts)) (\<lambda>now.
            let r = cacheRecord \<lparr>rp_key = key, rp_output = output, rp_createdAt = now,
                      rp_outputSchemaHash = ad_outputSchemaHash d, rp_manifestHash = None,
                      rp_tokensSaved = None, rp_subjects = op_subjectIds opts\<rparr>
            in (\<lambda>st. case co_set ops key r (st_store st) of
                       Inl e \<Rightarrow> (Inl (Err_store e), st\<lparr>st_log := st_log st @ [A_cache_set key r]\<rparr>)
                     | Inr s \<Rightarrow> (Inr (), st\<lparr>st_log := st_log st @ [A_cache_set key r], st_store := s\<rparr>)))
      | _ \<Rightarrow> ret ())"

definition accept_output :: "'s execute_options \<Rightarrow> ai_descriptor \<Rightarrow> call_plan \<Rightarrow> jv \<Rightarrow> jv \<Rightarrow> ('s, jv) act" where
  "accept_output opts d cp raw output =
     abind (log_event (A_generation_output raw)) (\<lambda>_.
     abind (finalizeOutput opts d (cp_input cp) output (op_moderationPolicyBlock opts)) (\<lambda>finalized.
     abind (write_cache opts d cp output) (\<lambda>_.
     abind (log_event (A_output finalized)) (\<lambda>_. ret finalized))))"

definition request_of :: "call_plan \<Rightarrow> chat_message list \<Rightarrow> call_request" where
  "request_of cp messages =
     \<lparr>rq_messages = messages, rq_model = cp_model cp, rq_providerParams = cp_params cp,
      rq_artifacts = cp_groups cp\<rparr>"

text \<open>One turn of the loop; \<open>next\<close> is absent when \<open>attempt >= validationRetries\<close>.\<close>

definition generation_attempt ::
    "'s execute_options \<Rightarrow> ai_descriptor \<Rightarrow> call_plan \<Rightarrow> nat \<Rightarrow> chat_message list
     \<Rightarrow> (chat_message list \<Rightarrow> ('s, jv) act) option \<Rightarrow> ('s, jv) act" where
  "generation_attempt opts d cp attempt messages next_turn =
     abind (throwIfCancelled opts) (\<lambda>_.
     abind (log_event (A_generation attempt messages)) (\<lambda>_.
     abind (catch (callWithTransientRetry opts (request_of cp messages))
              (\<lambda>e. abind (log_event A_generation_error) (\<lambda>_. throw e))) (\<lambda>raw.
     abind (throwIfCancelled opts) (\<lambda>_.
       case parse_output opts d raw of
         Inr output \<Rightarrow>
           abind (runOutputCheck d (cp_input cp) output) (\<lambda>violations.
             case violations of
               Some vs \<Rightarrow>
                 abind (log_event A_generation_error) (\<lambda>_.
                   case next_turn of
                     None \<Rightarrow> throw (Err_validation (attempt + 1) (Check_violations vs))
                   | Some again \<Rightarrow> again (messages @ [repair_message (renderOutputCheckViolations vs)]))
             | None \<Rightarrow> accept_output opts d cp raw output)
       | Inl zerr \<Rightarrow>
           abind (log_event A_generation_error) (\<lambda>_.
             case next_turn of
               None \<Rightarrow> throw (Err_validation (attempt + 1) (Zod_error zerr))
             | Some again \<Rightarrow> again (messages @ [repair_message zerr]))))))"

primrec generation_loop ::
    "'s execute_options \<Rightarrow> ai_descriptor \<Rightarrow> call_plan \<Rightarrow> nat \<Rightarrow> nat \<Rightarrow> chat_message list \<Rightarrow> ('s, jv) act" where
  "generation_loop opts d cp 0 attempt messages = generation_attempt opts d cp attempt messages None"
| "generation_loop opts d cp (Suc remaining) attempt messages =
     generation_attempt opts d cp attempt messages (Some (generation_loop opts d cp remaining (Suc attempt)))"

section \<open>Admission\<close>

text \<open>
  The whole loop runs inside \<open>limiter.limit\<close>. What the limiter does is the subject of
  \<open>Provider_Limits\<close>; seen from one execution it either admits the call or rejects it with the abort
  reason, which \<open>op_admitted\<close> answers.
\<close>

definition admitted_loop ::
    "'s execute_options \<Rightarrow> string option \<Rightarrow> ('s, jv) act \<Rightarrow> ('s, jv) act" where
  "admitted_loop opts model loop =
     (case op_providerLimitController opts of
        None \<Rightarrow> loop
      | Some controller \<Rightarrow>
          (let selection = controller_select controller (op_providerName opts) model
           in abind (lift_result Err_limits (limiterFor controller selection)) (\<lambda>(_, limiter).
                case limiter of
                  None \<Rightarrow> abind (log_event (A_controls (ps_policySource selection))) (\<lambda>_. loop)
                | Some li \<Rightarrow>
                    catch
                      (abind (outside A_admission (op_admitted opts)) (\<lambda>ok.
                         if ok then abind (log_event (A_controls (ps_policySource selection))) (\<lambda>_. loop)
                         else throw Err_admission))
                      (\<lambda>e. abind (throwIfCancelled opts) (\<lambda>_. throw e)))))"

section \<open>The cache path\<close>

text \<open>\<open>Some\<close> is a served hit, \<open>None\<close> means the generation loop runs.\<close>

definition cache_lookup :: "'s cache_ops \<Rightarrow> cache_key \<Rightarrow> ('s, cache_record option) act" where
  "cache_lookup ops key =
     abind (log_event (A_cache_get key)) (\<lambda>_ st.
       (case co_get ops (st_store st) key of Inl e \<Rightarrow> Inl (Err_store e) | Inr c \<Rightarrow> Inr c, st))"

definition serve_hit :: "'s execute_options \<Rightarrow> ai_descriptor \<Rightarrow> call_plan \<Rightarrow> cache_record \<Rightarrow> ('s, jv option) act" where
  "serve_hit opts d cp cached =
     abind (throwIfCancelled opts) (\<lambda>_.
     abind (lift_result Err_cached_output (parse_output opts d (cr_output cached))) (\<lambda>output.
     abind (runOutputCheck d (cp_input cp) output) (\<lambda>violations.
       if violations = None
       then abind (log_event (A_cacheHit True)) (\<lambda>_.
            abind (finalizeOutput opts d (cp_input cp) output (op_moderationPolicyBlock opts)) (\<lambda>finalized.
            abind (log_event (A_output finalized)) (\<lambda>_. ret (Some finalized))))
       else ret None)))"

definition reads_bypassed :: "'s execute_options \<Rightarrow> ai_descriptor \<Rightarrow> bool" where
  "reads_bypassed opts d \<longleftrightarrow>
     (case ad_cache d of None \<Rightarrow> False
      | Some c \<Rightarrow> (case cc_bypassReadsEnv c of None \<Rightarrow> False | Some v \<Rightarrow> op_env opts v))"

definition cache_path :: "'s execute_options \<Rightarrow> ai_descriptor \<Rightarrow> call_plan \<Rightarrow> ('s, jv option) act" where
  "cache_path opts d cp =
     (case (cp_key cp, op_cacheStore opts) of
        (Some key, Some ops) \<Rightarrow>
          if reads_bypassed opts d then ret None
          else
            abind (cache_lookup ops key) (\<lambda>found.
              case found of
                None \<Rightarrow> ret None
              | Some cached \<Rightarrow>
                  if cr_output_schema_hash cached = ad_outputSchemaHash d then serve_hit opts d cp cached
                  else ret None)
      | _ \<Rightarrow> ret None)"

section \<open>Resolving the call\<close>

record resolved_activity =
  rv_messages :: "chat_message list"
  rv_model :: "string option"
  rv_params :: "(string \<times> jv) list"

definition legacy_params :: "resolved_prompt \<Rightarrow> (string \<times> jv) list" where
  "legacy_params p = opt_field ''temperature'' (map_option JNum (pr_temperature p))
     @ opt_field ''model'' (map_option JStr (pr_model p))"

definition resolveCall :: "'s execute_options \<Rightarrow> ai_descriptor \<Rightarrow> jv \<Rightarrow> ('s, resolved_activity) act" where
  "resolveCall opts d input =
     (case op_messages opts of
        Some messages \<Rightarrow>
          (let params = mergeProviderParams [op_defaultProviderParams opts, op_providerParams opts, ad_providerParams d]
           in ret \<lparr>rv_messages = messages,
                   rv_model = resolveModel (op_model opts) (op_defaultProviderParams opts) params, rv_params = params\<rparr>)
      | None \<Rightarrow>
          (case op_registry opts of
             None \<Rightarrow> throw Err_no_messages
           | Some registry \<Rightarrow>
               abind (outside A_registry (\<lambda>h. registry h (ad_promptName d))) (\<lambda>answer.
               abind (lift_result Err_registry answer) (\<lambda>p.
               abind (lift_result Err_render (renderMessages (pr_messages p) (obj_fields input))) (\<lambda>messages.
                 let params = mergeProviderParams [op_defaultProviderParams opts, op_providerParams opts,
                       pr_providerParams p, Some (legacy_params p), ad_providerParams d]
                 in ret \<lparr>rv_messages = messages,
                         rv_model = resolveModel (op_model opts) (op_defaultProviderParams opts) params,
                         rv_params = params\<rparr>)))))"

definition invokeProviderModelGuard :: "'s execute_options \<Rightarrow> resolved_call \<Rightarrow> ('s, unit) act" where
  "invokeProviderModelGuard opts call =
     (case op_providerModelGuard opts of
        None \<Rightarrow> ret ()
      | Some guard \<Rightarrow>
          abind (log_event (A_guard call)) (\<lambda>_.
            case guard call of None \<Rightarrow> ret () | Some reason \<Rightarrow> throw (Err_policy reason)))"

definition resolve_groups ::
    "'s execute_options \<Rightarrow> ai_descriptor \<Rightarrow> jv \<Rightarrow> ('s, artifact_input list \<times> artifact_group list option) act" where
  "resolve_groups opts d input =
     (let skipped = (case op_cachedSession opts of
            Some h \<Rightarrow> if sh_reference_cached h then map ai_name (filter ai_reference (ad_artifacts d)) else []
          | None \<Rightarrow> []);
          inputs = filter (\<lambda>i. ai_name i \<notin> set skipped) (ad_artifacts d);
          given = (if skipped \<noteq> [] then map_option (filter (\<lambda>g. ag_name g \<notin> set skipped)) (op_artifacts opts)
                   else op_artifacts opts)
      in abind
           (if inputs \<noteq> [] \<and> given = None
            then (case op_artifactResolver opts of
                    None \<Rightarrow> throw Err_no_resolver
                  | Some resolver \<Rightarrow>
                      abind (outside A_resolver (\<lambda>h. resolver h input inputs)) (\<lambda>answer.
                      abind (lift_result Err_resolver answer) (\<lambda>gs. ret (Some gs))))
            else ret given)
           (\<lambda>groups.
              case find (\<lambda>i. ai_required i \<and>
                     (case find (\<lambda>g. ag_name g = ai_name i) (case groups of None \<Rightarrow> [] | Some gs \<Rightarrow> gs) of
                        None \<Rightarrow> True | Some g \<Rightarrow> ag_artifacts g = [])) inputs of
                Some i \<Rightarrow> throw (Err_required_artifact (ai_name i))
              | None \<Rightarrow> ret (inputs, groups)))"

definition base_messages ::
    "'s execute_options \<Rightarrow> chat_message list \<Rightarrow> artifact_input list \<Rightarrow> artifact_group list option
     \<Rightarrow> chat_message list" where
  "base_messages opts messages inputs groups =
     (let gs = (case groups of None \<Rightarrow> [] | Some gs \<Rightarrow> gs)
      in if prefixReferenceCompositionApplies (op_cachedSession opts) inputs
         then composePrefixStableMessages messages inputs gs
         else if inputs \<noteq> [] then attachArtifactMessages messages inputs gs else messages)"

section \<open>Executing\<close>

text \<open>\<open>try \{...\} catch (error) \{ updateError; throw \} finally \{ end \}\<close> around an opened observation.\<close>

definition observed :: "('s, jv) act \<Rightarrow> ('s, jv) act" where
  "observed body = abind (log_event A_open) (\<lambda>_ st.
     (case body st of
        (Inl e, st') \<Rightarrow> (Inl e, st'\<lparr>st_log := st_log st' @ [A_error e, A_end]\<rparr>)
      | (Inr x, st') \<Rightarrow> (Inr x, st'\<lparr>st_log := st_log st' @ [A_end]\<rparr>)))"

definition ai_body :: "'s execute_options \<Rightarrow> ai_descriptor \<Rightarrow> jv \<Rightarrow> resolved_activity \<Rightarrow> artifact_group list option
    \<Rightarrow> chat_message list \<Rightarrow> ('s, jv) act" where
  "ai_body opts d input rv groups messages =
     abind (throwIfCancelled opts) (\<lambda>_.
       let cacheActive = ((case ad_cache d of None \<Rightarrow> False | Some c \<Rightarrow> cc_enabled c) \<and> op_cacheStore opts \<noteq> None);
           key = (if cacheActive
                  then Some (cacheKeyFor (op_sha opts) d messages (rv_model rv) (rv_params rv) (op_tenant opts)
                         (case groups of None \<Rightarrow> [] | Some gs \<Rightarrow> gs) (op_cachedSession opts))
                  else None);
           cp = \<lparr>cp_model = rv_model rv, cp_params = rv_params rv, cp_groups = groups,
                 cp_input = parsed_input opts d input, cp_key = key\<rparr>
       in abind (cache_path opts d cp) (\<lambda>hit.
            case hit of
              Some out \<Rightarrow> ret out
            | None \<Rightarrow>
                abind (log_event (A_cacheHit False)) (\<lambda>_.
                  admitted_loop opts (rv_model rv)
                    (generation_loop opts d cp (ad_validationRetries d) 0 messages))))"

definition executeAiActivity :: "'s execute_options \<Rightarrow> ai_descriptor \<Rightarrow> jv \<Rightarrow> ('s, jv) act" where
  "executeAiActivity opts d input =
     abind (resolveCall opts d input) (\<lambda>rv.
     abind (invokeProviderModelGuard opts
              \<lparr>rc_providerName = op_providerName opts, rc_model = rv_model rv, rc_activityName = ad_name d,
               rc_promptName = Some (ad_promptName d)\<rparr>) (\<lambda>_.
     abind (resolve_groups opts d input) (\<lambda>(inputs, groups).
       observed (ai_body opts d input rv groups (base_messages opts (rv_messages rv) inputs groups)))))"

definition executeCodeActivity :: "'s execute_options \<Rightarrow> code_descriptor \<Rightarrow> jv \<Rightarrow> ('s, jv) act" where
  "executeCodeActivity opts d input =
     abind (lift_result Err_input (op_parse opts (ad_input d) (Some input))) (\<lambda>parsed.
     observed
       (abind (throwIfCancelled opts) (\<lambda>_.
        abind (outside (A_handler parsed) (\<lambda>h. ad_handler d h parsed)) (\<lambda>answer.
        abind (lift_result Err_handler answer) (\<lambda>raw.
        abind (throwIfCancelled opts) (\<lambda>_.
          case op_parse opts (ad_output d) (Some raw) of
            Inl zerr \<Rightarrow> throw (Err_validation 1 (Zod_error zerr))
          | Inr output \<Rightarrow>
              abind (runOutputCheck d parsed output) (\<lambda>violations.
                case violations of
                  Some vs \<Rightarrow> throw (Err_validation 1 (Check_violations vs))
                | None \<Rightarrow>
                    abind (finalizeOutput opts d parsed output None) (\<lambda>finalized.
                    abind (log_event (A_output finalized)) (\<lambda>_. ret finalized)))))))))"

definition executeActivity :: "'s execute_options \<Rightarrow> activity_descriptor \<Rightarrow> jv \<Rightarrow> ('s, jv) act" where
  "executeActivity opts d input =
     (case d of AI_activity a \<Rightarrow> executeAiActivity opts a input | Code_activity c \<Rightarrow> executeCodeActivity opts c input)"

end
