(* ===== verification/Activity_Facts.thy ===== *)
theory Activity_Facts
  imports Activity_Run
begin

text \<open>
  Reasoning about activity executions. A relation between the states before and after that is
  reflexive, transitive and holds for single log entries holds for every part of the executor built
  from such entries: the locale \<open>act_relation\<close> proves this once, for all outcomes or, when a thrown
  error may break the relation, for the outcomes that return a value (\<open>strict\<close> tells which).
\<close>

section \<open>Relations kept by computations\<close>

lemma abind_cases:
  assumes "abind m f st = (r, st')"
  obtains (threw) e where "m st = (Inl e, st')" "r = Inl e"
  | (gave) x st1 where "m st = (Inr x, st1)" "f x st1 = (r, st')"
  using assms by (auto simp: abind_def split: prod.splits sum.splits)

lemma catch_cases:
  assumes "catch m h st = (r, st')"
  obtains (threw) e st1 where "m st = (Inl e, st1)" "h e st1 = (r, st')"
  | (gave) x where "m st = (Inr x, st')" "r = Inr x"
  using assms by (auto simp: catch_def split: prod.splits sum.splits)

lemma abind_assoc: "abind (abind m f) g = abind m (\<lambda>x. abind (f x) g)"
  by (auto simp: abind_def fun_eq_iff split: prod.splits sum.splits)

lemma abind_ret: "abind (ret x) f = f x"
  by (simp add: abind_def ret_def)

text \<open>What an execution does before its observation opens.\<close>

definition guarded_call :: "'s execute_options \<Rightarrow> ai_descriptor \<Rightarrow> resolved_activity \<Rightarrow> resolved_call" where
  "guarded_call opts d rv =
     \<lparr>rc_providerName = op_providerName opts, rc_model = rv_model rv, rc_activityName = ad_name d,
      rc_promptName = Some (ad_promptName d)\<rparr>"

definition preparation ::
    "'s execute_options \<Rightarrow> ai_descriptor \<Rightarrow> jv
     \<Rightarrow> ('s, resolved_activity \<times> artifact_input list \<times> artifact_group list option) act" where
  "preparation opts d input =
     abind (resolveCall opts d input) (\<lambda>rv.
     abind (invokeProviderModelGuard opts (guarded_call opts d rv)) (\<lambda>_.
     abind (resolve_groups opts d input) (\<lambda>g. ret (rv, g))))"

lemma execution_split:
  "executeAiActivity opts d input = abind (preparation opts d input) (\<lambda>x. observed
     (case x of (rv, inputs, groups) \<Rightarrow> ai_body opts d input rv groups (base_messages opts (rv_messages rv) inputs groups)))"
  by (simp add: executeAiActivity_def preparation_def guarded_call_def abind_assoc abind_ret case_prod_unfold)

text \<open>The events a property usually has nothing to say about.\<close>

fun routine :: "activity_event \<Rightarrow> bool" where
  "routine (A_provider _) = False"
| "routine (A_cache_get _) = False"
| "routine (A_cache_set _ _) = False"
| "routine (A_verdict d) = (d \<noteq> Block)"
| "routine A_open = False"
| "routine A_end = False"
| "routine (A_guard _) = False"
| "routine _ = True"

locale act_relation =
  fixes R :: "'s act_state \<Rightarrow> 's act_state \<Rightarrow> bool" and ok :: "activity_event \<Rightarrow> bool" and strict :: bool
  assumes R_refl: "R st st"
    and R_trans: "R st1 st2 \<Longrightarrow> R st2 st3 \<Longrightarrow> R st1 st3"
    and R_event: "ok ev \<Longrightarrow> R st (st\<lparr>st_log := st_log st @ [ev]\<rparr>)"
    and routine_ok: "routine ev \<Longrightarrow> ok ev"
    and block_ok: "strict \<Longrightarrow> ok (A_verdict Block)"
begin

definition keeps :: "('s, 'a) act \<Rightarrow> bool" where
  "keeps m \<longleftrightarrow> (\<forall>st r st'. m st = (r, st') \<longrightarrow> strict \<or> \<not> isl r \<longrightarrow> R st st')"

lemma keepsD: "keeps m \<Longrightarrow> m st = (r, st') \<Longrightarrow> strict \<or> \<not> isl r \<Longrightarrow> R st st'"
  by (auto simp: keeps_def)

lemma keeps_ret: "keeps (ret x)"
  by (simp add: keeps_def ret_def R_refl)

lemma keeps_throw: "keeps (throw e)"
  by (simp add: keeps_def throw_def R_refl)

lemma keeps_ask: "keeps (ask f)"
  by (simp add: keeps_def ask_def R_refl)

lemma keeps_lift: "keeps (lift_result err r)"
  by (cases r) (simp_all add: lift_result_def keeps_ret keeps_throw)

lemma keeps_abind: "keeps m \<Longrightarrow> (\<And>x. keeps (f x)) \<Longrightarrow> keeps (abind m f)"
  unfolding keeps_def by (fastforce elim!: abind_cases intro: R_trans)

lemma keeps_event: "ok ev \<Longrightarrow> keeps (log_event ev)"
  by (auto simp: keeps_def log_event_def R_event)

lemma keeps_outside: "ok ev \<Longrightarrow> keeps (outside ev f)"
  by (auto simp: keeps_def outside_def R_event)

text \<open>The handlers of the executor all throw again.\<close>

definition rethrows :: "(activity_error \<Rightarrow> ('s, 'a) act) \<Rightarrow> bool" where
  "rethrows h \<longleftrightarrow> (\<forall>e. keeps (h e)) \<and> (\<forall>e st. isl (fst (h e st)))"

lemma keeps_catch:
  assumes m: "keeps m" and h: "rethrows h"
  shows "keeps (catch m h)"
  unfolding keeps_def
proof (intro allI impI)
  fix st r st'
  assume c: "catch m h st = (r, st')" and s: "strict \<or> \<not> isl r"
  from c show "R st st'"
  proof (cases rule: catch_cases)
    case (threw e st1)
    have "isl r" using h threw(2) by (metis fst_conv rethrows_def)
    with s have "strict" by simp
    moreover have "R st1 st'" using h threw(2) s by (auto simp: rethrows_def dest: keepsD)
    ultimately show ?thesis using keepsD [OF m threw(1)] by (blast intro: R_trans)
  next
    case (gave x)
    with m show ?thesis by (auto dest: keepsD)
  qed
qed

lemma rethrows_event: "ok ev \<Longrightarrow> rethrows (\<lambda>e. abind (log_event ev) (\<lambda>_. throw e))"
  by (simp add: rethrows_def keeps_abind keeps_event keeps_throw) (simp add: abind_def log_event_def throw_def)

lemma keeps_checkpoint: "keeps (throwIfCancelled opts)"
  unfolding throwIfCancelled_def
  by (auto intro!: keeps_abind keeps_outside keeps_ret keeps_throw routine_ok)

lemma rethrows_checkpoint: "rethrows (\<lambda>e. abind (throwIfCancelled opts) (\<lambda>_. throw e))"
proof -
  have "isl (fst (abind (throwIfCancelled opts) (\<lambda>_. throw e) st))" for e st
    by (auto simp: abind_def throw_def split: prod.splits sum.splits)
  then show ?thesis by (auto simp: rethrows_def intro!: keeps_abind keeps_checkpoint keeps_throw)
qed

lemmas keeps_basic = keeps_ret keeps_throw keeps_ask keeps_lift keeps_event keeps_outside keeps_checkpoint

lemma keeps_transient_attempt:
  assumes "ok (A_provider request)" and "\<And>m. next_turn = Some m \<Longrightarrow> keeps m"
  shows "keeps (transient_attempt opts request attempt next_turn)"
proof -
  have again: "keeps (if delay > 0 then abind (log_event (A_backoff delay)) (\<lambda>_. abind (throwIfCancelled opts) (\<lambda>_. m)) else m)"
    if "next_turn = Some m" for m and delay :: rat
    using assms(2) [OF that] by (auto intro!: keeps_abind keeps_basic routine_ok)
  show ?thesis
    unfolding transient_attempt_def Let_def
    by (cases next_turn)
      (auto intro!: keeps_abind keeps_basic assms(1) again split: sum.splits option.splits)
qed

lemma keeps_retry:
  assumes "ok (A_provider request)"
  shows "keeps (callWithTransientRetry opts request)"
proof -
  have "keeps (transient_loop opts request remaining attempt)" for remaining attempt
    using assms by (induction remaining arbitrary: attempt) (auto intro: keeps_transient_attempt)
  then show ?thesis by (simp add: callWithTransientRetry_def)
qed

lemma keeps_check: "keeps (runOutputCheck d input output)"
  unfolding runOutputCheck_def
  by (auto split: option.splits sum.splits intro!: keeps_abind keeps_basic routine_ok)

lemma keeps_hook: "keeps (runHook opts d input output)"
  unfolding runHook_def by (auto split: option.splits intro!: keeps_abind keeps_basic routine_ok)

lemma keeps_enforce: "keeps (enforce_verdict decision reason categories output)"
proof (cases "decision = Block")
  case True
  show ?thesis
  proof (cases strict)
    case strict: True
    then have "ok (A_verdict decision)" using True block_ok by simp
    then show ?thesis unfolding enforce_verdict_def by (auto intro!: keeps_abind keeps_basic)
  next
    case False
    have "isl (fst (enforce_verdict decision reason categories output st))" for st
      using True by (simp add: enforce_verdict_def abind_def log_event_def throw_def)
    with False show ?thesis by (metis fst_conv keeps_def)
  qed
next
  case False
  then have "ok (A_verdict decision)" by (intro routine_ok) simp
  with False show ?thesis
    unfolding enforce_verdict_def by (auto intro!: keeps_abind keeps_basic)
qed

lemma keeps_moderation: "keeps (applyModeration name md output policy)"
proof (cases md)
  case (Some m)
  show ?thesis
    unfolding applyModeration_def Some option.case Let_def
    by (intro keeps_abind keeps_enforce keeps_basic routine_ok) simp
qed (simp add: applyModeration_def keeps_ret)

lemma keeps_finalize: "keeps (finalizeOutput opts d input output policy)"
  unfolding finalizeOutput_def
  by (auto intro!: keeps_abind keeps_moderation keeps_catch rethrows_event keeps_hook keeps_basic routine_ok)

lemma keeps_resolve: "keeps (resolveCall opts d input)"
  unfolding resolveCall_def Let_def
  by (auto split: option.splits intro!: keeps_abind keeps_basic routine_ok)

lemma keeps_guard: "(\<And>c. ok (A_guard c)) \<Longrightarrow> keeps (invokeProviderModelGuard opts call)"
  unfolding invokeProviderModelGuard_def
  by (auto split: option.splits intro!: keeps_abind keeps_basic)

lemma keeps_groups: "keeps (resolve_groups opts d input)"
  unfolding resolve_groups_def Let_def
  by (auto split: option.splits intro!: keeps_abind keeps_basic routine_ok)

lemma keeps_preparation: "(\<And>c. ok (A_guard c)) \<Longrightarrow> keeps (preparation opts d input)"
  unfolding preparation_def by (intro keeps_abind keeps_resolve keeps_guard keeps_groups keeps_ret)

lemma keeps_observed: "ok A_open \<Longrightarrow> ok A_end \<Longrightarrow> keeps body \<Longrightarrow> keeps (observed body)"
proof -
  assume o: "ok A_open" "ok A_end" and b: "keeps body"
  have log2: "R st (st\<lparr>st_log := st_log st @ [A_error e, A_end]\<rparr>)" for st e
    using R_trans [OF R_event [of "A_error e" st] R_event [OF o(2)]] by (simp add: routine_ok)
  have "keeps (\<lambda>st. case body st of
        (Inl e, st') \<Rightarrow> (Inl e, st'\<lparr>st_log := st_log st' @ [A_error e, A_end]\<rparr>)
      | (Inr x, st') \<Rightarrow> (Inr x, st'\<lparr>st_log := st_log st' @ [A_end]\<rparr>))"
    unfolding keeps_def
    by (auto split: prod.splits sum.splits intro: R_trans [OF keepsD [OF b] R_event [OF o(2)]]
        R_trans [OF keepsD [OF b] log2])
  then show ?thesis unfolding observed_def by (intro keeps_abind keeps_event o)
qed

end

section \<open>The whole body of an execution\<close>

text \<open>When a cache read is harmless too.\<close>

locale read_relation = act_relation +
  assumes get_ok: "ok (A_cache_get k)"
begin

lemma keeps_lookup: "keeps (cache_lookup ops key)"
  using R_event [OF get_ok]
  by (auto simp: keeps_def cache_lookup_def abind_def log_event_def split: sum.splits)

lemma keeps_hit: "keeps (serve_hit opts d cp cached)"
  unfolding serve_hit_def
  by (auto intro!: keeps_abind keeps_finalize keeps_check keeps_basic routine_ok)

lemma keeps_cache_path: "keeps (cache_path opts d cp)"
  unfolding cache_path_def
  by (auto split: option.splits intro!: keeps_abind keeps_lookup keeps_hit keeps_ret)

end

text \<open>When the provider calls of this execution and cache writes are harmless too.\<close>

locale call_relation = read_relation +
  fixes calls :: "call_request \<Rightarrow> bool"
  assumes provider_ok: "calls q \<Longrightarrow> ok (A_provider q)"
    and set_ok: "ok (A_cache_set k r)"
    and write_ok: "R st (st\<lparr>st_log := st_log st @ [A_cache_set k r], st_store := s\<rparr>)"
begin

lemma keeps_write: "keeps (write_cache opts d cp output)"
proof -
  have "keeps (\<lambda>st. case f st of Inl e \<Rightarrow> (Inl (Err_store e), st\<lparr>st_log := st_log st @ [A_cache_set key r]\<rparr>)
      | Inr s \<Rightarrow> (Inr (), st\<lparr>st_log := st_log st @ [A_cache_set key r], st_store := s\<rparr>))" for f key r
    by (auto simp: keeps_def intro: write_ok R_event set_ok split: sum.splits)
  then show ?thesis
    unfolding write_cache_def by (auto simp: Let_def split: option.splits intro!: keeps_abind keeps_basic)
qed

lemma keeps_accept: "keeps (accept_output opts d cp raw output)"
  unfolding accept_output_def
  by (auto intro!: keeps_abind keeps_finalize keeps_write keeps_basic routine_ok)

lemma keeps_call:
  "calls q \<Longrightarrow> keeps (catch (callWithTransientRetry opts q) (\<lambda>e. abind (log_event A_generation_error) (\<lambda>_. throw e)))"
  by (auto intro!: keeps_catch keeps_retry [OF provider_ok] rethrows_event routine_ok)

lemma keeps_generation_attempt:
  assumes "\<And>m ms. next_turn = Some m \<Longrightarrow> keeps (m ms)" and "calls (request_of cp messages)"
  shows "keeps (generation_attempt opts d cp attempt messages next_turn)"
proof -
  have repair: "keeps (abind (log_event A_generation_error) (\<lambda>_. case next_turn of
      None \<Rightarrow> throw e | Some again \<Rightarrow> again ms))" for e ms
    using assms(1) by (auto intro!: keeps_abind keeps_basic routine_ok split: option.splits)
  have judged: "keeps (case v of Some vs \<Rightarrow> abind (log_event A_generation_error) (\<lambda>_. case next_turn of
      None \<Rightarrow> throw (e vs) | Some again \<Rightarrow> again (ms vs)) | None \<Rightarrow> accept_output opts d cp raw out)" for v e ms raw out
    by (cases v) (auto intro: repair keeps_accept)
  show ?thesis
    unfolding generation_attempt_def
    by (auto split: sum.splits intro!: keeps_abind keeps_call [OF assms(2)] keeps_check keeps_basic routine_ok judged repair)
qed

lemma keeps_generation_loop:
  assumes "\<And>ms. calls (request_of cp ms)"
  shows "keeps (generation_loop opts d cp remaining attempt messages)"
  using assms by (induction remaining arbitrary: attempt messages) (auto intro!: keeps_generation_attempt)

lemma keeps_admitted:
  assumes "keeps loop"
  shows "keeps (admitted_loop opts model loop)"
  unfolding admitted_loop_def Let_def
  using assms
  by (auto split: option.splits intro!: keeps_abind keeps_catch rethrows_checkpoint keeps_basic routine_ok)

lemma keeps_ai_body:
  assumes "\<And>ms. calls \<lparr>rq_messages = ms, rq_model = rv_model rv, rq_providerParams = rv_params rv, rq_artifacts = groups\<rparr>"
  shows "keeps (ai_body opts d input rv groups messages)"
  using assms unfolding ai_body_def Let_def
  by (auto split: option.splits intro!: keeps_abind keeps_cache_path keeps_admitted keeps_generation_loop
      keeps_basic routine_ok simp: request_of_def)

end

section \<open>Interpretations\<close>

definition appends :: "(activity_event \<Rightarrow> bool) \<Rightarrow> 's act_state \<Rightarrow> 's act_state \<Rightarrow> bool" where
  "appends P st st' \<longleftrightarrow> (\<exists>evs. st_log st' = st_log st @ evs \<and> (\<forall>ev\<in>set evs. P ev))"

lemma appends_refl: "appends P st st"
  by (simp add: appends_def)

lemma appends_trans: "appends P st1 st2 \<Longrightarrow> appends P st2 st3 \<Longrightarrow> appends P st1 st3"
  by (fastforce simp: appends_def)

lemma appends_event: "P ev \<Longrightarrow> appends P st (st\<lparr>st_log := st_log st @ [ev]\<rparr>)"
  by (auto simp: appends_def)

lemma appends_write: "P (A_cache_set k r) \<Longrightarrow> appends P st (st\<lparr>st_log := st_log st @ [A_cache_set k r], st_store := s\<rparr>)"
  by (auto simp: appends_def)

text \<open>The log only grows, and the body of an observation neither opens nor ends one.\<close>

definition inner_event :: "activity_event \<Rightarrow> bool" where
  "inner_event ev \<longleftrightarrow> ev \<noteq> A_open \<and> ev \<noteq> A_end"

interpretation growth: call_relation "appends inner_event" inner_event True "\<lambda>_. True"
  by unfold_locales
    (auto simp: appends_refl inner_event_def intro: appends_trans appends_event appends_write elim: routine.elims)

text \<open>A computation that returns a value leaves no blocked verdict in the log.\<close>

definition not_blocked :: "activity_event \<Rightarrow> bool" where
  "not_blocked ev \<longleftrightarrow> ev \<noteq> A_verdict Block"

interpretation passed: call_relation "appends not_blocked" not_blocked False "\<lambda>_. True"
  by unfold_locales
    (auto simp: appends_refl not_blocked_def intro: appends_trans appends_event appends_write)

text \<open>Before acceptance nothing is written to the cache.\<close>

fun not_cache_set :: "activity_event \<Rightarrow> bool" where
  "not_cache_set (A_cache_set _ _) = False"
| "not_cache_set _ = True"

definition unwritten :: "'s act_state \<Rightarrow> 's act_state \<Rightarrow> bool" where
  "unwritten st st' \<longleftrightarrow> st_store st' = st_store st \<and> appends not_cache_set st st'"

interpretation unwritten: read_relation unwritten not_cache_set True
  by unfold_locales
    (auto simp: unwritten_def appends_refl intro: appends_trans appends_event elim: routine.elims)

text \<open>Up to acceptance nothing is blocked either; this holds when the computation returns a value.\<close>

definition clean_event :: "activity_event \<Rightarrow> bool" where
  "clean_event ev \<longleftrightarrow> not_cache_set ev \<and> not_blocked ev"

definition clean :: "'s act_state \<Rightarrow> 's act_state \<Rightarrow> bool" where
  "clean st st' \<longleftrightarrow> st_store st' = st_store st \<and> appends clean_event st st'"

interpretation clean: read_relation clean clean_event False
  by unfold_locales
    (auto simp: clean_def clean_event_def not_blocked_def appends_refl intro: appends_trans appends_event
      elim: routine.elims)

text \<open>Every provider call of an execution uses the model it was resolved to.\<close>

definition uses_model :: "string option \<Rightarrow> activity_event \<Rightarrow> bool" where
  "uses_model model ev \<longleftrightarrow> (\<forall>q. ev = A_provider q \<longrightarrow> rq_model q = model)"

interpretation guarded: call_relation "appends (uses_model model)" "uses_model model" True
    "\<lambda>q. rq_model q = model" for model
  by unfold_locales
    (auto simp: appends_refl uses_model_def intro: appends_trans appends_event appends_write)

text \<open>Provider calls.\<close>

fun is_provider :: "activity_event \<Rightarrow> bool" where
  "is_provider (A_provider _) = True"
| "is_provider _ = False"

definition provider_calls :: "history \<Rightarrow> nat" where
  "provider_calls h = length (filter is_provider h)"

text \<open>A part of the executor that only appends events other than provider calls makes none.\<close>

definition not_provider :: "activity_event \<Rightarrow> bool" where
  "not_provider ev \<longleftrightarrow> \<not> is_provider ev"

interpretation silent: call_relation "appends not_provider" not_provider True "\<lambda>_. False"
  by unfold_locales
    (auto simp: appends_refl not_provider_def intro: appends_trans appends_event appends_write elim: routine.elims)

end
