(* ===== verification/Activity_Example.thy ===== *)
theory Activity_Example
  imports Activity_Run
begin

text \<open>
  A concrete call with the in-memory store, at which the claims about executions are instantiated: the
  provider answers an object with a null first, a bare null after that; the schema accepts objects.
\<close>

text \<open>\<open>InMemoryCacheStore\<close> as the store of an execution; its operations never fail.\<close>

definition memory_ops :: "(string \<Rightarrow> string) \<Rightarrow> memory_store cache_ops" where
  "memory_ops sha =
     \<lparr>co_get = (\<lambda>s k. Inr (store_get sha s k)), co_set = (\<lambda>k r s. Inr (store_set sha k r s))\<rparr>"

definition demo_sha :: "string \<Rightarrow> string" where
  "demo_sha s = ''digest''"

definition demo_parse :: zparser where
  "demo_parse schema v =
     (case (schema, v) of
        (Z_object _, Some (JObj kvs)) \<Rightarrow> Inr (JObj kvs)
      | (Z_other _, Some (JStr s)) \<Rightarrow> Inr (JStr s)
      | _ \<Rightarrow> Inl ''Invalid input'')"

definition demo_schema :: zschema where
  "demo_schema = Z_object [(''title'', Z_other ''string'')]"

definition demo_check :: "history \<Rightarrow> jv \<Rightarrow> jv \<Rightarrow> (string, jv option) result" where
  "demo_check h input out =
     (if out = JObj [] then Inr (Some (JObj [(''message'', JStr ''no title'')])) else Inr None)"

definition demo_activity :: ai_descriptor where
  "demo_activity =
     \<lparr>ad_name = ''summarise'', ad_input = demo_schema, ad_output = demo_schema, ad_inputSchemaHash = ''in'',
      ad_outputSchemaHash = ''out'', ad_validationRetries = Suc (Suc 0), ad_hook = None, ad_outputCheck = Some demo_check,
      ad_moderation = None, ad_promptName = ''p'', ad_cache = Some \<lparr>cc_enabled = True, cc_bypassReadsEnv = None\<rparr>,
      ad_providerParams = None, ad_artifacts = []\<rparr>"

text \<open>The first answer fails the check, the second call is rate limited, the third answer is accepted.\<close>

definition demo_provider :: "history \<Rightarrow> call_request \<Rightarrow> (provider_error, jv) result" where
  "demo_provider h q =
     (let n = length (filter (\<lambda>ev. case ev of A_provider _ \<Rightarrow> True | _ \<Rightarrow> False) h)
      in if n = 0 then Inr (JObj [])
         else if n = 1 then Inl (Rate_limit_error None)
         else Inr (JObj [(''title'', JStr ''T'')]))"

definition demo_guard :: "resolved_call \<Rightarrow> string option" where
  "demo_guard call = (if rc_model call = Some ''m-1'' then None else Some ''model not allowed'')"

definition demo_options :: "memory_store execute_options" where
  "demo_options =
     \<lparr>op_provider = demo_provider, op_providerName = ''mock'', op_defaultProviderParams = None,
      op_messages = Some [\<lparr>cm_role = ''user'', cm_content = Content_text ''hi'', cm_name = None\<rparr>],
      op_registry = None, op_tenant = [(''tenant'', ''t1'')], op_subjectIds = Some [''u1''],
      op_cacheStore = Some (memory_ops demo_sha), op_model = Some ''m-1'', op_providerParams = None,
      op_transientRetries = Suc 0, op_cancelled = (\<lambda>_. False), op_artifacts = None, op_artifactResolver = None,
      op_isTransientError = None, op_transientRetryDelayMs = None, op_transientBackoff = None,
      op_providerLimitController = None, op_admitted = (\<lambda>_. True), op_retryRateLimits = None,
      op_retryTransientErrors = None, op_cachedSession = None, op_providerModelGuard = Some demo_guard,
      op_moderationPolicyBlock = None, op_sha = demo_sha, op_now = (\<lambda>_. ''2026-01-01''), op_random = (\<lambda>_. 0),
      op_env = (\<lambda>_. False), op_parse = demo_parse\<rparr>"

definition demo_input :: jv where
  "demo_input = JObj [(''text'', JStr ''x'')]"

definition demo_run :: "memory_store act_state \<Rightarrow> (activity_error, jv) result \<times> memory_store act_state" where
  "demo_run st = executeAiActivity demo_options demo_activity demo_input st"

lemmas act_primitives = ret_def throw_def abind_def catch_def log_event_def ask_def outside_def lift_result_def
  throwIfCancelled_def

lemmas act_steps = executeAiActivity_def resolveCall_def invokeProviderModelGuard_def resolve_groups_def
  base_messages_def prefixReferenceCompositionApplies_def observed_def ai_body_def cache_path_def
  reads_bypassed_def cache_lookup_def serve_hit_def admitted_loop_def generation_attempt_def request_of_def
  callWithTransientRetry_def transient_attempt_def retry_disabled_def transientRetryDelay_def js_round_def
  runOutputCheck_def normalizeOutputCheckResult_def asViolation_def accept_output_def
  finalizeOutput_def applyModeration_def write_cache_def parsed_input_def parse_output_def mergeProviderParams_def
  resolveModel_def string_param_def nonempty_def

lemmas act_hashes = cacheKeyFor_def cacheInputHash_def cacheKeyDigest_def cacheKey_def messagesHash_def
  memory_ops_def store_get_def store_set_def empty_store_def cacheRecord_def

lemmas demo_defs = demo_run_def demo_options_def demo_activity_def demo_input_def demo_sha_def demo_parse_def
  demo_schema_def demo_check_def demo_provider_def demo_guard_def

lemmas demo_eval = act_primitives act_steps act_hashes demo_defs coerceOptionalNulls.simps innerType_def
  obj_put_def Let_def

lemma demo_result:
  "fst (demo_run \<lparr>st_log = [], st_store = empty_store\<rparr>) = Inr (JObj [(''title'', JStr ''T'')])"
  by (simp add: demo_eval)

text \<open>The run wrote one record, and the schema accepts its own outputs.\<close>

lemma demo_written:
  obtains st1 key rec where "executeAiActivity demo_options demo_activity demo_input \<lparr>st_log = [], st_store = empty_store\<rparr>
      = (Inr (JObj [(''title'', JStr ''T'')]), st1)" "A_cache_set key rec \<in> set (st_log st1)"
proof -
  let ?run = "demo_run \<lparr>st_log = [], st_store = empty_store\<rparr>"
  have "\<exists>key rec. A_cache_set key rec \<in> set (st_log (snd ?run))"
    by (simp add: demo_eval)
  then obtain key rec where "A_cache_set key rec \<in> set (st_log (snd ?run))" by blast
  moreover have "?run = (Inr (JObj [(''title'', JStr ''T'')]), snd ?run)"
    using demo_result by (metis prod.collapse)
  ultimately show thesis using that by (simp add: demo_run_def)
qed

lemma obj_put_same: "map_of kvs k = Some v \<Longrightarrow> obj_put k v kvs = kvs"
proof -
  assume m: "map_of kvs k = Some v"
  then have "k \<in> fst ` set kvs" by (metis domI dom_map_of_conv_image_fst)
  moreover have "replace_key k v kvs = kvs" using m by (induction kvs) auto
  ultimately show ?thesis by (simp add: obj_put_def)
qed

lemma demo_reparse:
  assumes "parse_output demo_options demo_activity raw = Inr out"
  shows "parse_output demo_options demo_activity out = Inr out"
  using assms
  by (cases raw) (auto simp: parse_output_def demo_defs coerceOptionalNulls.simps innerType_def accepts_def obj_put_same split: option.splits)

end
