(* ===== verification/Activity_Claims.thy ===== *)
theory Activity_Claims
  imports Activity_Facts Activity_Example
begin

text \<open>
  What an activity execution guarantees: only accepted outputs are cached, the model that is called
  is the one the policy guard saw, returned outputs are schema valid and never blocked, the number of
  provider calls is bounded, and the observation is closed exactly once on every path.
\<close>

section \<open>Provider calls\<close>

definition calls_upto :: "nat \<Rightarrow> ('s, 'a) act \<Rightarrow> bool" where
  "calls_upto n m \<longleftrightarrow> (\<forall>st r st'. m st = (r, st') \<longrightarrow> provider_calls (st_log st') \<le> provider_calls (st_log st) + n)"

lemma upto_ret: "calls_upto 0 (ret x)" "calls_upto 0 (throw e)" "calls_upto 0 (ask f)"
  by (simp_all add: calls_upto_def ret_def throw_def ask_def)

lemma upto_event: "\<not> is_provider ev \<Longrightarrow> calls_upto 0 (log_event ev)" "\<not> is_provider ev \<Longrightarrow> calls_upto 0 (outside ev f)"
  by (auto simp: calls_upto_def log_event_def outside_def provider_calls_def)

lemma upto_provider: "calls_upto 1 (outside (A_provider q) f)"
  by (auto simp: calls_upto_def outside_def provider_calls_def)

lemma upto_abind: "calls_upto m p \<Longrightarrow> (\<And>x. calls_upto n (f x)) \<Longrightarrow> calls_upto (m + n) (abind p f)"
  unfolding calls_upto_def by (fastforce elim!: abind_cases)

lemma upto_catch: "calls_upto m p \<Longrightarrow> (\<And>e. calls_upto n (h e)) \<Longrightarrow> calls_upto (m + n) (catch p h)"
  unfolding calls_upto_def by (fastforce elim!: catch_cases)

lemma upto_mono: "calls_upto m p \<Longrightarrow> m \<le> n \<Longrightarrow> calls_upto n p"
  unfolding calls_upto_def by (meson add_left_mono order_trans)

lemma silent_upto: "silent.keeps m \<Longrightarrow> calls_upto 0 m"
  by (force simp: silent.keeps_def calls_upto_def appends_def not_provider_def provider_calls_def filter_empty_conv)

lemma upto_transient_attempt:
  assumes "\<And>m. next_turn = Some m \<Longrightarrow> calls_upto n m"
  shows "calls_upto (1 + n) (transient_attempt opts request attempt next_turn)"
proof -
  have cp: "calls_upto 0 (throwIfCancelled opts)" by (rule silent_upto [OF silent.keeps_checkpoint])
  have th: "calls_upto n (throw e)" for e by (rule upto_mono [OF upto_ret(2)]) simp
  have rt: "calls_upto n (ret x)" for x by (rule upto_mono [OF upto_ret(1)]) simp
  have later: "calls_upto n (abind p f)" if "calls_upto 0 p" "\<And>x. calls_upto n (f x)" for p :: "('a, 'b) act" and f
    using upto_abind [OF that] by simp
  have again: "calls_upto n (if delay > 0 then abind (log_event (A_backoff delay)) (\<lambda>_. abind (throwIfCancelled opts) (\<lambda>_. m)) else m)"
    if "next_turn = Some m" for m and delay :: rat
    using assms [OF that] by (auto intro!: later upto_event cp)
  have answer: "calls_upto n (case answer of Inr v \<Rightarrow> ret v | Inl err \<Rightarrow>
      abind (throwIfCancelled opts) (\<lambda>_.
        case (case op_isTransientError opts of None \<Rightarrow> Some (is_transient_class err) | Some f \<Rightarrow> f err) of
          None \<Rightarrow> throw (Err_provider err)
        | Some transient \<Rightarrow> (case next_turn of None \<Rightarrow> throw (Err_provider err)
            | Some again \<Rightarrow> if \<not> transient \<or> retry_disabled opts err then throw (Err_provider err)
                else abind (ask (op_random opts)) (\<lambda>rand.
                  let delayMs = transientRetryDelay (op_transientBackoff opts) (op_transientRetryDelayMs opts) rand attempt (retry_hint err)
                  in if delayMs > 0 then abind (log_event (A_backoff delayMs)) (\<lambda>_. abind (throwIfCancelled opts) (\<lambda>_. again))
                     else again))))" for answer
    by (auto simp: Let_def split: sum.splits option.splits intro!: later cp th rt again upto_ret(3))
  have "calls_upto (0 + (1 + n)) (transient_attempt opts request attempt next_turn)"
    unfolding transient_attempt_def by (intro upto_abind cp upto_provider answer)
  then show ?thesis by simp
qed

lemma upto_retry: "calls_upto (op_transientRetries opts + 1) (callWithTransientRetry opts request)"
proof -
  have "calls_upto (remaining + 1) (transient_loop opts request remaining attempt)" for remaining attempt
  proof (induction remaining arbitrary: attempt)
    case 0
    show ?case using upto_transient_attempt [of None 0] by simp
  next
    case (Suc remaining)
    show ?case
      using upto_transient_attempt [of "Some (transient_loop opts request remaining (Suc attempt))" "remaining + 1"] Suc
      by simp
  qed
  then show ?thesis by (simp add: callWithTransientRetry_def)
qed

lemma upto_generation_attempt:
  assumes next_turn: "\<And>m ms. next_turn = Some m \<Longrightarrow> calls_upto n (m ms)"
  shows "calls_upto (op_transientRetries opts + 1 + n) (generation_attempt opts d cp attempt messages next_turn)"
proof -
  let ?k = "op_transientRetries opts + 1"
  have s0: "calls_upto 0 p" if "silent.keeps p" for p :: "('a, 'b) act" by (rule silent_upto [OF that])
  have cp: "calls_upto 0 (throwIfCancelled opts)" by (rule silent_upto [OF silent.keeps_checkpoint])
  have later: "calls_upto n (abind p f)" if "calls_upto 0 p" "\<And>x. calls_upto n (f x)" for p :: "('c, 'd) act" and f :: "'d \<Rightarrow> ('c, 'e) act"
    using upto_abind [OF that] by simp
  have repair: "calls_upto n (abind (log_event A_generation_error) (\<lambda>_. case next_turn of
      None \<Rightarrow> throw e | Some again \<Rightarrow> again ms))" for e ms
    using next_turn by (auto intro!: later upto_event upto_mono [OF upto_ret(2)] split: option.splits)
  have accept: "calls_upto n (accept_output opts d cp raw out)" for raw out
    by (rule upto_mono [OF silent_upto [OF silent.keeps_accept]]) simp
  have judged: "calls_upto n (case v of Some vs \<Rightarrow> abind (log_event A_generation_error) (\<lambda>_. case next_turn of
      None \<Rightarrow> throw (e vs) | Some again \<Rightarrow> again (ms vs)) | None \<Rightarrow> accept_output opts d cp raw out)" for v e ms raw out
    by (cases v) (auto intro: repair accept)
  have call: "calls_upto (?k + 0) (catch (callWithTransientRetry opts q) (\<lambda>e. abind (log_event A_generation_error) (\<lambda>_. throw e)))" for q
    using upto_abind [OF upto_event(1) upto_ret(2), of A_generation_error]
    by (intro upto_catch upto_retry) simp
  have "calls_upto (0 + (0 + (?k + 0 + (0 + n)))) (generation_attempt opts d cp attempt messages next_turn)"
    unfolding generation_attempt_def
    by (intro upto_abind cp upto_event call)
      (auto split: sum.splits intro!: later silent_upto [OF silent.keeps_check] judged repair)
  then show ?thesis by simp
qed

lemma upto_generation_loop:
  "calls_upto ((remaining + 1) * (op_transientRetries opts + 1)) (generation_loop opts d cp remaining attempt messages)"
proof (induction remaining arbitrary: attempt messages)
  case 0
  show ?case using upto_generation_attempt [of None 0] by simp
next
  case (Suc remaining)
  let ?k = "op_transientRetries opts + 1"
  have "calls_upto (?k + (remaining + 1) * ?k) (generation_loop opts d cp (Suc remaining) attempt messages)"
    unfolding generation_loop.simps by (rule upto_generation_attempt) (use Suc in auto)
  then show ?case by (simp add: algebra_simps)
qed

lemma upto_later:
  "calls_upto 0 p \<Longrightarrow> (\<And>x. calls_upto n (f x)) \<Longrightarrow> calls_upto n (abind p f)"
  using upto_abind [of 0 p n f] by simp

lemma upto_admitted:
  assumes "calls_upto n loop"
  shows "calls_upto n (admitted_loop opts model loop)"
proof -
  have th: "calls_upto n (throw e)" for e by (rule upto_mono [OF upto_ret(2)]) simp
  have inner: "calls_upto n (abind (outside A_admission (op_admitted opts)) (\<lambda>ok.
      if ok then abind (log_event ev) (\<lambda>_. loop) else throw Err_admission))" if "\<not> is_provider ev" for ev
    using assms that by (auto intro!: upto_later upto_event th)
  have "calls_upto (n + 0) (catch (abind (outside A_admission (op_admitted opts)) (\<lambda>ok.
      if ok then abind (log_event ev) (\<lambda>_. loop) else throw Err_admission))
      (\<lambda>e. abind (throwIfCancelled opts) (\<lambda>_. throw e)))" if "\<not> is_provider ev" for ev
    by (intro upto_catch inner that upto_later silent_upto [OF silent.keeps_checkpoint] upto_ret)
  then show ?thesis
    unfolding admitted_loop_def Let_def
    using assms by (auto split: option.splits intro!: upto_later upto_event silent_upto [OF silent.keeps_lift])
qed

text \<open>C21: The number of provider calls of one execution is bounded: at most
  \<open>(validationRetries + 1) * (transientRetries + 1)\<close>, however the provider, the checks, the cache and
  the abort signal answer.\<close>

theorem provider_calls_bounded:
  assumes "executeAiActivity opts d input st = (r, st')"
  shows "provider_calls (st_log st') \<le> provider_calls (st_log st)
    + (ad_validationRetries d + 1) * (op_transientRetries opts + 1)"
proof -
  define n where "n = (ad_validationRetries d + 1) * (op_transientRetries opts + 1)"
  have loop: "calls_upto n (generation_loop opts d cp (ad_validationRetries d) 0 messages)" for cp messages
    unfolding n_def by (rule upto_generation_loop)
  have body: "calls_upto n (ai_body opts d input rv groups messages)" for rv groups messages
    unfolding ai_body_def Let_def
    by (intro upto_later silent_upto [OF silent.keeps_checkpoint] silent_upto [OF silent.keeps_cache_path])
      (auto split: option.splits intro!: upto_later upto_event upto_admitted loop
        upto_mono [OF upto_ret(1)])
  have observed: "calls_upto n (observed (ai_body opts d input rv groups messages))" for rv groups messages
    unfolding observed_def
    by (intro upto_later upto_event) (use body [of rv groups messages] in
        \<open>auto simp: calls_upto_def provider_calls_def split: prod.splits sum.splits\<close>)
  have "calls_upto n (executeAiActivity opts d input)"
    unfolding executeAiActivity_def
    by (intro upto_later silent_upto [OF silent.keeps_resolve] silent_upto [OF silent.keeps_guard])
      (auto simp: not_provider_def intro!: upto_later silent_upto [OF silent.keeps_groups] observed)
  with assms show ?thesis unfolding n_def [symmetric] by (auto simp: calls_upto_def)
qed

lemma provider_calls_bounded_witness:
  "provider_calls (st_log (snd (demo_run \<lparr>st_log = [], st_store = empty_store\<rparr>))) \<le> 6
   \<and> provider_calls (st_log (snd (demo_run \<lparr>st_log = [], st_store = empty_store\<rparr>))) = 3"
  using provider_calls_bounded [of demo_options demo_activity demo_input "\<lparr>st_log = [], st_store = empty_store\<rparr>",
      OF prod.collapse [symmetric]]
  by (simp add: demo_eval provider_calls_def)

section \<open>The model guard\<close>

lemma guard_passes:
  assumes "invokeProviderModelGuard opts call st = (Inr u, st')"
  shows "(\<forall>g. op_providerModelGuard opts = Some g \<longrightarrow> g call = None \<and> st_log st' = st_log st @ [A_guard call])
    \<and> (op_providerModelGuard opts = None \<longrightarrow> st' = st)"
  using assms
  by (auto simp: invokeProviderModelGuard_def abind_def log_event_def ret_def throw_def split: option.splits)

lemma guard_stops:
  assumes "invokeProviderModelGuard opts call st = (Inl e, st')"
  shows "appends not_provider st st'"
  using silent.keepsD [OF silent.keeps_guard] assms by (auto simp: not_provider_def)

lemma provider_call_seen:
  assumes "executeAiActivity opts d input \<lparr>st_log = [], st_store = s\<rparr> = (r, st')"
    and "op_providerModelGuard opts = Some g" and "A_provider q \<in> set (st_log st')"
  shows "\<exists>call pre post. st_log st' = pre @ A_guard call # post \<and> g call = None
    \<and> rc_model call = rq_model q \<and> A_provider q \<notin> set pre"
proof -
  let ?st = "\<lparr>st_log = [], st_store = s\<rparr>"
  have no: False if "appends not_provider ?st st'"
    using that assms(3) by (auto simp: appends_def not_provider_def)
  from assms(1) [unfolded executeAiActivity_def] show ?thesis
  proof (cases rule: abind_cases)
    case (threw e)
    show ?thesis using no silent.keepsD [OF silent.keeps_resolve threw(1)] by simp
  next
    case (gave rv st1)
    let ?call = "\<lparr>rc_providerName = op_providerName opts, rc_model = rv_model rv,
        rc_activityName = ad_name d, rc_promptName = Some (ad_promptName d)\<rparr>"
    have pre: "appends not_provider ?st st1"
      using silent.keepsD [OF silent.keeps_resolve gave(1)] by simp
    from gave(2) show ?thesis
    proof (cases rule: abind_cases)
      case (threw e)
      have "appends not_provider ?st st'" by (rule appends_trans [OF pre guard_stops [OF threw(1)]])
      then show ?thesis using no by blast
    next
      case (gave u st2)
      have g: "g ?call = None" "st_log st2 = st_log st1 @ [A_guard ?call]"
        using guard_passes [OF gave(1)] assms(2) by auto
      have "guarded.keeps (rv_model rv) (abind (resolve_groups opts d input) (\<lambda>(inputs, groups).
          observed (ai_body opts d input rv groups (base_messages opts (rv_messages rv) inputs groups))))"
        by (auto intro!: guarded.keeps_abind guarded.keeps_groups guarded.keeps_observed guarded.keeps_ai_body
            simp: uses_model_def)
      from guarded.keepsD [OF this gave(2)] obtain post where
        post: "st_log st' = st_log st2 @ post" "\<forall>ev\<in>set post. uses_model (rv_model rv) ev"
        by (auto simp: appends_def)
      have "A_provider q \<notin> set (st_log st1)" using pre by (auto simp: appends_def not_provider_def)
      moreover from this post g assms(3) have "A_provider q \<in> set post" by auto
      ultimately show ?thesis
        using g post by (intro exI [of _ ?call] exI [of _ "st_log st1"] exI [of _ post]) (auto simp: uses_model_def)
    qed
  qed
qed

text \<open>C27: The model that is called is the model the policy guard has seen: when a guard is configured,
  every provider call of an execution requests the model of a call the guard accepted, and the guard
  was asked before. A rejected call makes no provider call at all.\<close>

theorem provider_calls_guarded:
  assumes "executeAiActivity opts d input \<lparr>st_log = [], st_store = s\<rparr> = (r, st')"
    and "op_providerModelGuard opts = Some g" and "A_provider q \<in> set (st_log st')"
  shows "\<exists>call pre post. st_log st' = pre @ A_guard call # post \<and> g call = None
    \<and> rc_model call = rq_model q \<and> A_provider q \<notin> set pre"
  using assms by (rule provider_call_seen)

lemma provider_calls_guarded_witness:
  "\<exists>q call pre post. A_provider q \<in> set (st_log (snd (demo_run \<lparr>st_log = [], st_store = empty_store\<rparr>)))
    \<and> st_log (snd (demo_run \<lparr>st_log = [], st_store = empty_store\<rparr>)) = pre @ A_guard call # post
    \<and> demo_guard call = None \<and> rc_model call = rq_model q \<and> rq_model q = Some ''m-1'' \<and> A_provider q \<notin> set pre"
proof -
  let ?log = "st_log (snd (demo_run \<lparr>st_log = [], st_store = empty_store\<rparr>))"
  have "\<exists>q. A_provider q \<in> set ?log \<and> rq_model q = Some ''m-1''"
    by (simp add: demo_eval conj_disj_distribR ex_disj_distrib)
  then obtain q where q: "A_provider q \<in> set ?log" "rq_model q = Some ''m-1''" by blast
  have g: "op_providerModelGuard demo_options = Some demo_guard" by (simp add: demo_options_def)
  show ?thesis
    using provider_calls_guarded [OF prod.collapse [symmetric] g q(1) [unfolded demo_run_def]] q
    unfolding demo_run_def by blast
qed

section \<open>The observation\<close>

lemma observed_log:
  assumes "growth.keeps body" and "observed body st = (r, st')"
  shows "\<exists>inner. (\<forall>ev\<in>set inner. inner_event ev) \<and>
    st_log st' = st_log st @ A_open # inner @ (case r of Inl e \<Rightarrow> [A_error e, A_end] | Inr _ \<Rightarrow> [A_end])"
proof -
  obtain r1 st1 where b: "body (st\<lparr>st_log := st_log st @ [A_open]\<rparr>) = (r1, st1)" by fastforce
  from growth.keepsD [OF assms(1) b] obtain inner where
    "st_log st1 = st_log st @ [A_open] @ inner" "\<forall>ev\<in>set inner. inner_event ev"
    by (auto simp: appends_def)
  with assms(2) b show ?thesis
    by (auto simp: observed_def abind_def log_event_def split: sum.splits)
qed

lemma growth_code_body:
  "growth.keeps (abind (throwIfCancelled opts) (\<lambda>_.
        abind (outside (A_handler parsed) (\<lambda>h. ad_handler d h parsed)) (\<lambda>answer.
        abind (lift_result Err_handler answer) (\<lambda>raw.
        abind (throwIfCancelled opts) (\<lambda>_.
          case op_parse opts (ad_output d) (Some raw) of
            Inl zerr \<Rightarrow> throw (Err_validation 1 (Zod_error zerr))
          | Inr output \<Rightarrow>
              abind (runOutputCheck d parsed output) (\<lambda>violations.
                case violations of
                  Some vs \<Rightarrow> throw (Err_validation 1 (Check_violations vs))
                | None \<Rightarrow>
                    abind (finalizeOutput opts d parsed output None) (\<lambda>finalized.
                    abind (log_event (A_output finalized)) (\<lambda>_. ret finalized))))))))"
  by (auto split: sum.splits option.splits intro!: growth.keeps_abind growth.keeps_basic growth.keeps_check
      growth.keeps_finalize simp: inner_event_def)

lemma observed_closes:
  assumes "appends inner_event \<lparr>st_log = [], st_store = s\<rparr> st1" and "growth.keeps body" and "observed body st1 = (r, st')"
  shows "\<exists>pre inner. st_log st' = pre @ A_open # inner @ (case r of Inl e \<Rightarrow> [A_error e, A_end] | Inr _ \<Rightarrow> [A_end])
      \<and> (\<forall>ev\<in>set pre \<union> set inner. ev \<noteq> A_open \<and> ev \<noteq> A_end)"
proof -
  from assms(1) have p: "\<forall>ev\<in>set (st_log st1). inner_event ev" by (auto simp: appends_def)
  obtain inner where i: "\<forall>ev\<in>set inner. inner_event ev" and l: "st_log st' = st_log st1 @ A_open # inner
      @ (case r of Inl e \<Rightarrow> [A_error e, A_end] | Inr _ \<Rightarrow> [A_end])"
    using observed_log [OF assms(2,3)] by blast
  from p i have "\<forall>ev\<in>set (st_log st1) \<union> set inner. ev \<noteq> A_open \<and> ev \<noteq> A_end"
    by (simp add: inner_event_def ball_Un)
  with l show ?thesis by blast
qed

lemma nothing_opened:
  "appends inner_event \<lparr>st_log = [], st_store = s\<rparr> st' \<Longrightarrow> A_open \<notin> set (st_log st') \<and> A_end \<notin> set (st_log st')"
  by (auto simp: appends_def inner_event_def)

text \<open>The observation of an execution is closed on every path: an execution either opens none, or
  exactly one, whose end is the last thing that happens, preceded by the recorded error exactly when
  the execution throws.\<close>

theorem observation_closed:
  assumes "executeActivity opts d input \<lparr>st_log = [], st_store = s\<rparr> = (r, st')"
  shows "(\<exists>pre inner. st_log st' = pre @ A_open # inner
        @ (case r of Inl e \<Rightarrow> [A_error e, A_end] | Inr _ \<Rightarrow> [A_end])
      \<and> (\<forall>ev\<in>set pre \<union> set inner. ev \<noteq> A_open \<and> ev \<noteq> A_end))
    \<or> (isl r \<and> A_open \<notin> set (st_log st') \<and> A_end \<notin> set (st_log st'))"
proof -
  have run: ?thesis if "abind prep (\<lambda>x. observed (body x)) \<lparr>st_log = [], st_store = s\<rparr> = (r, st')"
    and "growth.keeps prep" and "\<And>x. growth.keeps (body x)" for prep :: "('a, 'x) act" and body
    using that(1)
  proof (cases rule: abind_cases)
    case (threw e)
    have "appends inner_event \<lparr>st_log = [], st_store = s\<rparr> st'" using growth.keepsD [OF that(2) threw(1)] by simp
    from nothing_opened [OF this] threw(2) show ?thesis by simp
  next
    case (gave x st1)
    with growth.keepsD [OF that(2) gave(1)] observed_closes [OF _ that(3) gave(2)] show ?thesis by simp
  qed
  show ?thesis
  proof (cases d)
    case (AI_activity a)
    show ?thesis
      by (rule run [OF assms [unfolded AI_activity executeActivity_def activity_descriptor.case execution_split]])
        (auto simp: inner_event_def intro!: growth.keeps_preparation growth.keeps_ai_body)
  next
    case (Code_activity c)
    show ?thesis
      by (rule run [OF _ growth.keeps_lift growth_code_body])
        (use assms Code_activity in \<open>simp add: executeActivity_def executeCodeActivity_def\<close>)
  qed
qed

lemma observation_closed_witness:
  "\<exists>pre inner. st_log (snd (executeActivity demo_options (AI_activity demo_activity) demo_input
        \<lparr>st_log = [], st_store = empty_store\<rparr>)) = pre @ A_open # inner @ [A_end]
    \<and> (\<forall>ev\<in>set pre \<union> set inner. ev \<noteq> A_open \<and> ev \<noteq> A_end)"
proof -
  have "fst (executeActivity demo_options (AI_activity demo_activity) demo_input \<lparr>st_log = [], st_store = empty_store\<rparr>)
      = Inr (JObj [(''title'', JStr ''T'')])"
    using demo_result by (simp add: executeActivity_def demo_run_def)
  with observation_closed [of demo_options "AI_activity demo_activity" demo_input empty_store,
      OF prod.collapse [symmetric]]
  show ?thesis by simp
qed

end
