(* ===== verification/Activity_Cache.thy ===== *)
theory Activity_Cache
  imports Activity_Facts Activity_Example
begin

text \<open>
  The activity executor and the cache write: a calculus for \<open>what an execution may have written when it
  ends\<close>, and the claims that only accepted outputs are cached, that the store changes only with
  success, and that a returned output is valid and was not blocked.
\<close>

section \<open>Acceptance before the write\<close>

definition check_passes :: "'a activity_common_scheme \<Rightarrow> jv \<Rightarrow> jv \<Rightarrow> bool" where
  "check_passes d input out \<longleftrightarrow> (\<forall>check. ad_outputCheck d = Some check \<longrightarrow>
     (\<exists>h r. check h input out = Inr r \<and> normalizeOutputCheckResult r = Inr None))"

definition record_for ::
    "'s execute_options \<Rightarrow> ai_descriptor \<Rightarrow> cache_key \<Rightarrow> jv \<Rightarrow> string \<Rightarrow> cache_record" where
  "record_for opts d key out now = cacheRecord
     \<lparr>rp_key = key, rp_output = out, rp_createdAt = now, rp_outputSchemaHash = ad_outputSchemaHash d,
      rp_manifestHash = None, rp_tokensSaved = None, rp_subjects = op_subjectIds opts\<rparr>"

text \<open>The hook and the moderation turn the output \<open>out\<close> into \<open>x\<close>, at some moment.\<close>

definition finalizes :: "'s execute_options \<Rightarrow> ai_descriptor \<Rightarrow> jv \<Rightarrow> jv \<Rightarrow> jv \<Rightarrow> bool" where
  "finalizes opts d input out x \<longleftrightarrow>
     (\<exists>st st' :: 's act_state. finalizeOutput opts d input out (op_moderationPolicyBlock opts) st = (Inr x, st'))"

definition accepted_write ::
    "'s execute_options \<Rightarrow> ai_descriptor \<Rightarrow> call_plan \<Rightarrow> 's act_state \<Rightarrow> (activity_error, jv) result
     \<Rightarrow> 's act_state \<Rightarrow> bool" where
  "accepted_write opts d cp st r st' \<longleftrightarrow>
     (\<exists>evs raw out now key ops tail. cp_key cp = Some key \<and> op_cacheStore opts = Some ops
        \<and> st_log st' = st_log st @ evs @ A_cache_set key (record_for opts d key out now) # tail
        \<and> (\<forall>ev\<in>set evs. clean_event ev)
        \<and> A_generation_output raw \<in> set evs \<and> parse_output opts d raw = Inr out
        \<and> check_passes d (cp_input cp) out
        \<and> (\<forall>ev\<in>set tail. clean_event ev)
        \<and> (case r of
             Inr x \<Rightarrow> A_output x \<in> set tail \<and> finalizes opts d (cp_input cp) out x
               \<and> co_set ops key (record_for opts d key out now) (st_store st) = Inr (st_store st')
           | Inl e \<Rightarrow> st_store st' = st_store st))"

definition written :: "'s execute_options \<Rightarrow> ai_descriptor \<Rightarrow> call_plan \<Rightarrow> 's act_state
    \<Rightarrow> (activity_error, jv) result \<Rightarrow> 's act_state \<Rightarrow> bool" where
  "written opts d cp st r st' \<longleftrightarrow>
     (unwritten st st' \<and> (isl r \<or> cp_key cp = None \<or> op_cacheStore opts = None))
     \<or> accepted_write opts d cp st r st'"

lemma clean_unwritten: "clean st st' \<Longrightarrow> unwritten st st'"
  by (auto simp: clean_def unwritten_def appends_def clean_event_def)

lemma unwritten_trans: "unwritten a b \<Longrightarrow> unwritten b c \<Longrightarrow> unwritten a c"
  by (auto simp: unwritten_def intro: appends_trans)

lemma accepted_before:
  assumes "clean st st1" and "accepted_write opts d cp st1 r st'"
  shows "accepted_write opts d cp st r st'"
proof -
  obtain evs0 where e: "st_log st1 = st_log st @ evs0" "\<forall>ev\<in>set evs0. clean_event ev" "st_store st1 = st_store st"
    using assms(1) by (auto simp: clean_def appends_def)
  from assms(2) obtain evs raw out now key ops tail where a:
    "cp_key cp = Some key" "op_cacheStore opts = Some ops"
    "st_log st' = st_log st1 @ evs @ A_cache_set key (record_for opts d key out now) # tail"
    "\<forall>ev\<in>set evs. clean_event ev" "A_generation_output raw \<in> set evs" "parse_output opts d raw = Inr out"
    "check_passes d (cp_input cp) out"
    "\<forall>ev\<in>set tail. clean_event ev"
    "case r of Inr x \<Rightarrow> A_output x \<in> set tail \<and> finalizes opts d (cp_input cp) out x
             \<and> co_set ops key (record_for opts d key out now) (st_store st1) = Inr (st_store st')
         | Inl e \<Rightarrow> st_store st' = st_store st1"
    unfolding accepted_write_def by blast
  show ?thesis
    unfolding accepted_write_def
    by (rule exI [of _ "evs0 @ evs"], rule exI [of _ raw], rule exI [of _ out], rule exI [of _ now],
        rule exI [of _ key], rule exI [of _ ops], rule exI [of _ tail])
      (use a e in \<open>auto split: sum.splits\<close>)
qed

lemma accepted_then:
  assumes "accepted_write opts d cp st r st1" and "clean st1 st'"
  shows "accepted_write opts d cp st r st'"
proof -
  obtain evs0 where e: "st_log st' = st_log st1 @ evs0" "\<forall>ev\<in>set evs0. clean_event ev" "st_store st' = st_store st1"
    using assms(2) by (auto simp: clean_def appends_def)
  from assms(1) obtain evs raw out now key ops tail where a:
    "cp_key cp = Some key" "op_cacheStore opts = Some ops"
    "st_log st1 = st_log st @ evs @ A_cache_set key (record_for opts d key out now) # tail"
    "\<forall>ev\<in>set evs. clean_event ev" "A_generation_output raw \<in> set evs" "parse_output opts d raw = Inr out"
    "check_passes d (cp_input cp) out" "\<forall>ev\<in>set tail. clean_event ev"
    "case r of Inr x \<Rightarrow> A_output x \<in> set tail \<and> finalizes opts d (cp_input cp) out x
             \<and> co_set ops key (record_for opts d key out now) (st_store st) = Inr (st_store st1)
         | Inl e \<Rightarrow> st_store st1 = st_store st"
    unfolding accepted_write_def by blast
  show ?thesis
    unfolding accepted_write_def
    by (rule exI [of _ evs], rule exI [of _ raw], rule exI [of _ out], rule exI [of _ now],
        rule exI [of _ key], rule exI [of _ ops], rule exI [of _ "tail @ evs0"])
      (use a e in \<open>auto split: sum.splits\<close>)
qed

lemma accepted_error: "accepted_write opts d cp st (Inl e) st' \<Longrightarrow> accepted_write opts d cp st (Inl e') st'"
  by (simp add: accepted_write_def)

lemma written_after: "clean st st1 \<Longrightarrow> written opts d cp st1 r st' \<Longrightarrow> written opts d cp st r st'"
  by (auto simp: written_def intro: accepted_before unwritten_trans clean_unwritten)

lemma written_error: "unwritten st st' \<Longrightarrow> written opts d cp st (Inl e) st'"
  by (simp add: written_def)

lemma accept_output_written:
  assumes run: "accept_output opts d cp raw out st = (r, st')"
    and parse: "parse_output opts d raw = Inr out" and check: "check_passes d (cp_input cp) out"
  shows "written opts d cp st r st'"
proof -
  let ?st1 = "st\<lparr>st_log := st_log st @ [A_generation_output raw]\<rparr>"
  obtain r2 st2 where fin: "finalizeOutput opts d (cp_input cp) out (op_moderationPolicyBlock opts) ?st1 = (r2, st2)"
    by fastforce
  show ?thesis
  proof (cases r2)
    case (Inl e)
    with run fin have "r = Inl e" "st' = st2" by (auto simp: accept_output_def abind_def log_event_def)
    moreover have "unwritten st ?st1" by (simp add: unwritten_def appends_event)
    ultimately show ?thesis
      using unwritten.keepsD [OF unwritten.keeps_finalize fin] by (auto intro: written_error unwritten_trans)
  next
    case (Inr finalized)
    have cl: "clean ?st1 st2" using clean.keepsD [OF clean.keeps_finalize fin] Inr by simp
    then obtain evs where e: "st_log st2 = st_log st @ A_generation_output raw # evs"
      "\<forall>ev\<in>set evs. clean_event ev" "st_store st2 = st_store st"
      by (auto simp: clean_def appends_def)
    have g: "clean_event (A_generation_output raw)" "clean_event (A_output finalized)" by (simp_all add: clean_event_def not_blocked_def)
    show ?thesis
    proof (cases "\<exists>key ops. cp_key cp = Some key \<and> op_cacheStore opts = Some ops")
      case False
      with run fin Inr have r: "r = Inr finalized" "st' = st2\<lparr>st_log := st_log st2 @ [A_output finalized]\<rparr>"
        by (auto simp: accept_output_def abind_def log_event_def write_cache_def ret_def split: option.splits)
      from e g have "unwritten st st'"
        by (auto simp: unwritten_def appends_def r clean_event_def)
      with False r show ?thesis by (auto simp: written_def)
    next
      case True
      then obtain key ops where k: "cp_key cp = Some key" "op_cacheStore opts = Some ops" by auto
      let ?rec = "record_for opts d key out (op_now opts (st_log st2))"
      show ?thesis
      proof (cases "co_set ops key ?rec (st_store st2)")
        case (Inl m)
        with run fin Inr k have "r = Inl (Err_store m)" "st' = st2\<lparr>st_log := st_log st2 @ [A_cache_set key ?rec]\<rparr>"
          by (auto simp: accept_output_def abind_def log_event_def write_cache_def ask_def record_for_def Let_def)
        with e g k parse check have "accepted_write opts d cp st r st'"
          unfolding accepted_write_def
          by (intro exI [of _ "A_generation_output raw # evs"] exI [of _ raw] exI [of _ out]
              exI [of _ "op_now opts (st_log st2)"] exI [of _ key] exI [of _ ops] exI [of _ "[]"]) auto
        then show ?thesis by (simp add: written_def)
      next
        case (Inr s)
        with run fin \<open>r2 = Inr finalized\<close> k
        have "r = Inr finalized"
          "st' = st2\<lparr>st_log := st_log st2 @ [A_cache_set key ?rec, A_output finalized], st_store := s\<rparr>"
          by (auto simp: accept_output_def abind_def log_event_def write_cache_def ask_def record_for_def Let_def ret_def)
        moreover have "finalizes opts d (cp_input cp) out finalized"
          using fin \<open>r2 = Inr finalized\<close> by (auto simp: finalizes_def)
        ultimately have "accepted_write opts d cp st r st'"
          unfolding accepted_write_def
          by (intro exI [of _ "A_generation_output raw # evs"] exI [of _ raw] exI [of _ out]
              exI [of _ "op_now opts (st_log st2)"] exI [of _ key] exI [of _ ops] exI [of _ "[A_output finalized]"]) (use e g k parse check Inr in auto)
        then show ?thesis by (simp add: written_def)
      qed
    qed
  qed
qed

text \<open>A small calculus: \<open>good m\<close> when every outcome of \<open>m\<close> is \<open>written\<close>.\<close>

definition good :: "'s execute_options \<Rightarrow> ai_descriptor \<Rightarrow> call_plan \<Rightarrow> ('s, jv) act \<Rightarrow> bool" where
  "good opts d cp m \<longleftrightarrow> (\<forall>st r st'. m st = (r, st') \<longrightarrow> written opts d cp st r st')"

lemma good_throw: "good opts d cp (throw e)"
  by (auto simp: good_def throw_def unwritten_def appends_refl intro: written_error)

lemma good_abind:
  assumes "unwritten.keeps m" and "clean.keeps m"
    and "\<And>x st st'. m st = (Inr x, st') \<Longrightarrow> good opts d cp (f x)"
  shows "good opts d cp (abind m f)"
  unfolding good_def
proof (intro allI impI)
  fix st r st'
  assume "abind m f st = (r, st')"
  then show "written opts d cp st r st'"
  proof (cases rule: abind_cases)
    case (threw e)
    with unwritten.keepsD [OF assms(1) threw(1)] show ?thesis by (simp add: written_error)
  next
    case (gave x st1)
    have "clean st st1" using clean.keepsD [OF assms(2) gave(1)] by simp
    moreover have "written opts d cp st1 r st'" using assms(3) [OF gave(1)] gave(2) by (simp add: good_def)
    ultimately show ?thesis by (rule written_after)
  qed
qed

lemma good_event: "clean_event ev \<Longrightarrow> good opts d cp m \<Longrightarrow> good opts d cp (abind (log_event ev) (\<lambda>_. m))"
  by (rule good_abind) (auto simp: clean_event_def intro: unwritten.keeps_event clean.keeps_event)

lemma good_checkpoint: "good opts d cp m \<Longrightarrow> good opts d cp (abind (throwIfCancelled opts) (\<lambda>_. m))"
  by (rule good_abind) (auto intro: unwritten.keeps_checkpoint clean.keeps_checkpoint)

lemma check_passes_if:
  assumes "runOutputCheck d input out st = (Inr None, st')"
  shows "check_passes d input out"
  using assms
  by (auto simp: runOutputCheck_def check_passes_def abind_def outside_def lift_result_def ret_def throw_def
      split: option.splits sum.splits)

lemma clean_routine: "clean_event A_generation_error" "clean_event (A_generation n ms)" "clean_event (A_cacheHit b)"
  "clean_event (A_controls p)" "clean_event (A_provider q)"
  by (simp_all add: clean_event_def not_blocked_def)

lemma good_generation_attempt:
  assumes "\<And>m ms. next_turn = Some m \<Longrightarrow> good opts d cp (m ms)"
  shows "good opts d cp (generation_attempt opts d cp attempt messages next_turn)"
proof -
  have repair: "good opts d cp (abind (log_event A_generation_error) (\<lambda>_. case next_turn of
      None \<Rightarrow> throw e | Some again \<Rightarrow> again ms))" for e ms
    using assms by (auto intro!: good_event clean_routine good_throw split: option.splits)
  have call: "unwritten.keeps (catch (callWithTransientRetry opts q) (\<lambda>e. abind (log_event A_generation_error) (\<lambda>_. throw e)))"
    "clean.keeps (catch (callWithTransientRetry opts q) (\<lambda>e. abind (log_event A_generation_error) (\<lambda>_. throw e)))" for q
    by (auto intro!: unwritten.keeps_catch unwritten.keeps_retry unwritten.rethrows_event clean.keeps_catch
        clean.keeps_retry clean.rethrows_event simp: clean_routine)
  have judged: "good opts d cp (case parse_output opts d raw of
         Inr out \<Rightarrow> abind (runOutputCheck d (cp_input cp) out) (\<lambda>violations. case violations of
               Some vs \<Rightarrow> abind (log_event A_generation_error) (\<lambda>_. case next_turn of
                     None \<Rightarrow> throw (Err_validation (attempt + 1) (Check_violations vs))
                   | Some again \<Rightarrow> again (messages @ [repair_message (renderOutputCheckViolations vs)]))
             | None \<Rightarrow> accept_output opts d cp raw out)
       | Inl zerr \<Rightarrow> abind (log_event A_generation_error) (\<lambda>_. case next_turn of
               None \<Rightarrow> throw (Err_validation (attempt + 1) (Zod_error zerr))
             | Some again \<Rightarrow> again (messages @ [repair_message zerr])))" for raw
  proof (cases "parse_output opts d raw")
    case (Inr out)
    have "good opts d cp (case v of
          Some vs \<Rightarrow> abind (log_event A_generation_error) (\<lambda>_. case next_turn of
              None \<Rightarrow> throw (Err_validation (attempt + 1) (Check_violations vs))
            | Some again \<Rightarrow> again (messages @ [repair_message (renderOutputCheckViolations vs)]))
        | None \<Rightarrow> accept_output opts d cp raw out)"
      if "runOutputCheck d (cp_input cp) out st = (Inr v, st')" for v and st st' :: "'a act_state"
      using that repair Inr accept_output_written [OF _ Inr check_passes_if]
      by (cases v) (auto simp: good_def)
    then show ?thesis
      unfolding Inr sum.case by (intro good_abind [OF unwritten.keeps_check clean.keeps_check])
  qed (simp add: repair)
  show ?thesis
    unfolding generation_attempt_def
    by (intro good_checkpoint good_event clean_routine good_abind [OF call] judged)
qed

lemma good_generation_loop: "good opts d cp (generation_loop opts d cp remaining attempt messages)"
  by (induction remaining arbitrary: attempt messages) (auto intro!: good_generation_attempt)

lemma written_then:
  "written opts d cp st (Inl e) st1 \<Longrightarrow> clean st1 st' \<Longrightarrow> written opts d cp st (Inl e') st'"
  by (auto simp: written_def intro: unwritten_trans clean_unwritten accepted_then accepted_error)

text \<open>The handler around the admission only looks at the abort signal and throws again.\<close>

lemma recheck_clean:
  assumes "abind (throwIfCancelled opts) (\<lambda>_. throw e) st = (r, st')"
  shows "isl r \<and> clean st st'"
proof -
  have "clean_event A_checkpoint" by (simp add: clean_event_def not_blocked_def)
  with assms show ?thesis
    by (auto simp: throwIfCancelled_def abind_def outside_def throw_def ret_def clean_def appends_def
        split: if_splits)
qed

lemma good_recheck:
  assumes "good opts d cp m"
  shows "good opts d cp (catch m (\<lambda>e. abind (throwIfCancelled opts) (\<lambda>_. throw e)))"
  unfolding good_def
proof (intro allI impI)
  fix st r st'
  assume "catch m (\<lambda>e. abind (throwIfCancelled opts) (\<lambda>_. throw e)) st = (r, st')"
  then show "written opts d cp st r st'"
  proof (cases rule: catch_cases)
    case (threw e st1)
    from recheck_clean [OF threw(2)] obtain e' where r: "r = Inl e'" "clean st1 st'" by (cases r) auto
    have "written opts d cp st (Inl e) st1" using assms threw(1) by (simp add: good_def)
    from written_then [OF this r(2)] show ?thesis unfolding r(1) .
  next
    case (gave x)
    then show ?thesis using assms unfolding good_def by blast
  qed
qed

lemma good_admitted:
  assumes "good opts d cp loop"
  shows "good opts d cp (admitted_loop opts model loop)"
proof -
  have inner: "good opts d cp (abind (outside A_admission (op_admitted opts)) (\<lambda>ok.
      if ok then abind (log_event (A_controls p)) (\<lambda>_. loop) else throw Err_admission))" for p
    by (rule good_abind)
      (auto intro!: unwritten.keeps_outside clean.keeps_outside good_event good_throw assms clean_routine
        simp: clean_event_def not_blocked_def)
  show ?thesis
    unfolding admitted_loop_def Let_def
    using assms
    by (auto split: option.splits intro!: good_abind unwritten.keeps_lift clean.keeps_lift good_event
        clean_routine good_recheck inner)
qed

section \<open>Claims\<close>

definition plan_of ::
    "'s execute_options \<Rightarrow> ai_descriptor \<Rightarrow> jv \<Rightarrow> resolved_activity \<Rightarrow> artifact_group list option
     \<Rightarrow> chat_message list \<Rightarrow> call_plan" where
  "plan_of opts d input rv groups messages =
     \<lparr>cp_model = rv_model rv, cp_params = rv_params rv, cp_groups = groups, cp_input = parsed_input opts d input,
      cp_key = (if (case ad_cache d of None \<Rightarrow> False | Some c \<Rightarrow> cc_enabled c) \<and> op_cacheStore opts \<noteq> None
                then Some (cacheKeyFor (op_sha opts) d messages (rv_model rv) (rv_params rv) (op_tenant opts)
                       (case groups of None \<Rightarrow> [] | Some gs \<Rightarrow> gs) (op_cachedSession opts))
                else None)\<rparr>"

lemma ai_body_unfold:
  "ai_body opts d input rv groups messages =
     abind (throwIfCancelled opts) (\<lambda>_.
     abind (cache_path opts d (plan_of opts d input rv groups messages)) (\<lambda>hit. case hit of
         Some out \<Rightarrow> ret out
       | None \<Rightarrow> abind (log_event (A_cacheHit False)) (\<lambda>_. admitted_loop opts (rv_model rv)
           (generation_loop opts d (plan_of opts d input rv groups messages) (ad_validationRetries d) 0 messages))))"
  unfolding ai_body_def plan_of_def Let_def ..

lemma body_written:
  assumes "ai_body opts d input rv groups messages st = (r, st')"
  shows "unwritten st st' \<or> accepted_write opts d (plan_of opts d input rv groups messages) st r st'"
proof -
  let ?cp = "plan_of opts d input rv groups messages"
  have prefix: "unwritten.keeps (abind (throwIfCancelled opts) (\<lambda>_. cache_path opts d ?cp))"
    "clean.keeps (abind (throwIfCancelled opts) (\<lambda>_. cache_path opts d ?cp))"
    by (auto intro!: unwritten.keeps_abind unwritten.keeps_checkpoint unwritten.keeps_cache_path
        clean.keeps_abind clean.keeps_checkpoint clean.keeps_cache_path)
  have assoc: "ai_body opts d input rv groups messages =
      abind (abind (throwIfCancelled opts) (\<lambda>_. cache_path opts d ?cp)) (\<lambda>hit. case hit of
         Some out \<Rightarrow> ret out
       | None \<Rightarrow> abind (log_event (A_cacheHit False)) (\<lambda>_. admitted_loop opts (rv_model rv)
           (generation_loop opts d ?cp (ad_validationRetries d) 0 messages)))"
    unfolding ai_body_unfold abind_assoc ..
  from assms [unfolded assoc] show ?thesis
  proof (cases rule: abind_cases)
    case (threw e)
    with unwritten.keepsD [OF prefix(1) threw(1)] show ?thesis by simp
  next
    case (gave hit st1)
    show ?thesis
    proof (cases hit)
      case (Some out)
      with gave unwritten.keepsD [OF prefix(1) gave(1)] show ?thesis by (simp add: ret_def)
    next
      case None
      have "good opts d ?cp (abind (log_event (A_cacheHit False)) (\<lambda>_. admitted_loop opts (rv_model rv)
           (generation_loop opts d ?cp (ad_validationRetries d) 0 messages)))"
        by (intro good_event clean_routine good_admitted good_generation_loop)
      with gave(2) None have "written opts d ?cp st1 r st'" by (simp add: good_def)
      moreover have "clean st st1" using clean.keepsD [OF prefix(2) gave(1)] by simp
      ultimately show ?thesis using written_after unfolding written_def by blast
    qed
  qed
qed

text \<open>An execution stops before its observation opens, or runs its body.\<close>

lemma unwritten_preparation: "unwritten.keeps (preparation opts d input)"
  by (rule unwritten.keeps_preparation) simp

lemma clean_preparation: "clean.keeps (preparation opts d input)"
  by (rule clean.keeps_preparation) (simp add: clean_event_def not_blocked_def)

lemma execution_cases:
  assumes "executeAiActivity opts d input st = (r, st')"
  obtains (early) "isl r" "unwritten st st'"
  | (body) rv inputs groups st2 st3 where
      "preparation opts d input st = (Inr (rv, inputs, groups), st2)" "clean st (st2\<lparr>st_log := st_log st2 @ [A_open]\<rparr>)"
      "ai_body opts d input rv groups (base_messages opts (rv_messages rv) inputs groups)
         (st2\<lparr>st_log := st_log st2 @ [A_open]\<rparr>) = (r, st3)"
      "st_store st' = st_store st3"
      "st_log st' = st_log st3 @ (case r of Inl e \<Rightarrow> [A_error e, A_end] | Inr _ \<Rightarrow> [A_end])"
  using assms unfolding execution_split
proof (cases rule: abind_cases)
  case (threw e)
  with unwritten.keepsD [OF unwritten_preparation threw(1)] early show ?thesis by simp
next
  case (gave x st2)
  obtain rv inputs groups where x: "x = (rv, inputs, groups)" by (cases x)
  let ?st2 = "st2\<lparr>st_log := st_log st2 @ [A_open]\<rparr>"
  obtain r3 st3 where run: "ai_body opts d input rv groups (base_messages opts (rv_messages rv) inputs groups) ?st2
      = (r3, st3)" by fastforce
  have "r3 = r \<and> st_store st' = st_store st3
      \<and> st_log st' = st_log st3 @ (case r of Inl e \<Rightarrow> [A_error e, A_end] | Inr _ \<Rightarrow> [A_end])"
    using gave(2) x run by (auto simp: observed_def abind_def log_event_def split: sum.splits)
  moreover have "clean st st2" using clean.keepsD [OF clean_preparation gave(1)] by simp
  then have "clean st ?st2"
    by (rule clean.R_trans) (rule clean.R_event, simp add: clean_event_def not_blocked_def)
  ultimately show ?thesis using body gave(1) run x by simp
qed

lemma execution_written:
  assumes "executeAiActivity opts d input st = (r, st')"
  shows "unwritten st st' \<or> (\<exists>cp. accepted_write opts d cp st r st' \<and> cp_input cp = parsed_input opts d input)"
  using assms
proof (cases rule: execution_cases)
  case early
  then show ?thesis by simp
next
  case (body rv inputs groups st2 st3)
  let ?cp = "plan_of opts d input rv groups (base_messages opts (rv_messages rv) inputs groups)"
  have tail: "clean st3 st'"
    using body(4,5) by (auto simp: clean_def clean_event_def not_blocked_def appends_def split: sum.splits)
  from body_written [OF body(3)] show ?thesis
  proof
    assume "unwritten (st2\<lparr>st_log := st_log st2 @ [A_open]\<rparr>) st3"
    with tail show ?thesis using clean_unwritten [OF body(2)] by (blast intro: unwritten_trans clean_unwritten)
  next
    assume "accepted_write opts d ?cp (st2\<lparr>st_log := st_log st2 @ [A_open]\<rparr>) r st3"
    then have "accepted_write opts d ?cp st r st'"
      by (rule accepted_then [OF accepted_before [OF body(2)] tail])
    moreover have "cp_input ?cp = parsed_input opts d input" by (simp add: plan_of_def)
    ultimately show ?thesis by blast
  qed
qed

text \<open>C2: Only accepted outputs are cached, and at most once: whatever an execution writes to the cache is
  an output the model generated in this execution that parsed against the declared schema and passed
  the output check, no moderation verdict of the execution blocked it, and the record carries that output, the
  hash of the schema it was accepted under and the subjects of the call.\<close>

theorem cache_write_accepted:
  assumes "executeAiActivity opts d input \<lparr>st_log = [], st_store = s\<rparr> = (r, st')"
    and "A_cache_set key rec \<in> set (st_log st')"
  shows "\<exists>pre post raw out. st_log st' = pre @ A_cache_set key rec # post
    \<and> (\<forall>k c. A_cache_set k c \<notin> set (pre @ post)) \<and> A_verdict Block \<notin> set (pre @ post)
    \<and> A_generation_output raw \<in> set pre \<and> parse_output opts d raw = Inr out
    \<and> check_passes d (parsed_input opts d input) out
    \<and> cr_key rec = key \<and> cr_output rec = out \<and> cr_output_schema_hash rec = ad_outputSchemaHash d
    \<and> subjects_of rec = (case op_subjectIds opts of None \<Rightarrow> [] | Some us \<Rightarrow> us)"
proof -
  have no: "\<And>k c. A_cache_set k c \<notin> set evs" if "\<forall>ev\<in>set evs. not_cache_set ev" for evs
    using that by (auto dest: bspec)
  from execution_written [OF assms(1)] assms(2) no obtain cp where
    "accepted_write opts d cp \<lparr>st_log = [], st_store = s\<rparr> r st'" and i: "cp_input cp = parsed_input opts d input"
    by (auto simp: unwritten_def appends_def)
  then obtain evs raw out now key' tail where a:
    "st_log st' = evs @ A_cache_set key' (record_for opts d key' out now) # tail"
    "\<forall>ev\<in>set evs. clean_event ev" "A_generation_output raw \<in> set evs" "parse_output opts d raw = Inr out"
    "check_passes d (cp_input cp) out" "\<forall>ev\<in>set tail. clean_event ev"
    unfolding accepted_write_def by auto
  have n: "\<And>k c. A_cache_set k c \<notin> set evs" "\<And>k c. A_cache_set k c \<notin> set tail"
      "A_verdict Block \<notin> set (evs @ tail)"
    using a(2,6) no [of evs] no [of tail] by (auto simp: clean_event_def not_blocked_def)
  with assms(2) a(1) have k: "key' = key" "record_for opts d key' out now = rec" by auto
  from k have "cr_key rec = key \<and> cr_output rec = out \<and> cr_output_schema_hash rec = ad_outputSchemaHash d
    \<and> subjects_of rec = (case op_subjectIds opts of None \<Rightarrow> [] | Some us \<Rightarrow> us)"
    by (auto simp: record_for_def cacheRecord_def subjects_of_def split: option.splits if_splits)
  with a n k i show ?thesis
    by (intro exI [of _ evs] exI [of _ tail] exI [of _ raw] exI [of _ out]) auto
qed

lemma cache_write_accepted_witness:
  "\<exists>key rec pre post. st_log (snd (demo_run \<lparr>st_log = [], st_store = empty_store\<rparr>)) = pre @ A_cache_set key rec # post
    \<and> (\<forall>k c. A_cache_set k c \<notin> set (pre @ post)) \<and> A_verdict Block \<notin> set (pre @ post)
    \<and> check_passes demo_activity (parsed_input demo_options demo_activity demo_input) (cr_output rec)
    \<and> cr_output_schema_hash rec = ''out'' \<and> subjects_of rec = [''u1'']"
proof -
  obtain st1 key rec where w: "executeAiActivity demo_options demo_activity demo_input
      \<lparr>st_log = [], st_store = empty_store\<rparr> = (Inr (JObj [(''title'', JStr ''T'')]), st1)"
    "A_cache_set key rec \<in> set (st_log st1)" by (rule demo_written)
  have h: "ad_outputSchemaHash demo_activity = ''out''" "op_subjectIds demo_options = Some [''u1'']"
    by (simp_all add: demo_activity_def demo_options_def)
  from cache_write_accepted [OF w] show ?thesis
    unfolding demo_run_def w(1) snd_conv h option.case by blast
qed

text \<open>A returned value is the result of a parse.\<close>

definition yields :: "('a \<Rightarrow> bool) \<Rightarrow> ('s, 'a) act \<Rightarrow> bool" where
  "yields P m \<longleftrightarrow> (\<forall>st x st'. m st = (Inr x, st') \<longrightarrow> P x)"

lemma yieldsD: "yields P m \<Longrightarrow> m st = (Inr x, st') \<Longrightarrow> P x"
  by (auto simp: yields_def)

lemma yields_ret: "P x \<Longrightarrow> yields P (ret x)"
  by (simp add: yields_def ret_def)

lemma yields_throw: "yields P (throw e)"
  by (simp add: yields_def throw_def)

lemma yields_abind: "(\<And>x. yields P (f x)) \<Longrightarrow> yields P (abind m f)"
  unfolding yields_def by (blast elim: abind_cases)

lemma yields_bind: "yields Q m \<Longrightarrow> (\<And>x. Q x \<Longrightarrow> yields P (f x)) \<Longrightarrow> yields P (abind m f)"
  unfolding yields_def by (blast elim: abind_cases)

lemma yields_catch: "yields P m \<Longrightarrow> (\<And>e. yields P (h e)) \<Longrightarrow> yields P (catch m h)"
  unfolding yields_def by (blast elim: catch_cases)

lemma yields_lift: "(\<And>x. r = Inr x \<Longrightarrow> P x) \<Longrightarrow> yields P (lift_result err r)"
  by (cases r) (auto simp: lift_result_def intro: yields_ret yields_throw)

lemmas yields_basic = yields_ret yields_throw yields_lift

definition schema_valid :: "'s execute_options \<Rightarrow> 'a activity_common_scheme \<Rightarrow> jv \<Rightarrow> bool" where
  "schema_valid opts d out \<longleftrightarrow> (\<exists>v. op_parse opts (ad_output d) (Some v) = Inr out)"

lemma schema_validI: "op_parse opts (ad_output d) (Some v) = Inr out \<Longrightarrow> schema_valid opts d out"
  by (auto simp: schema_valid_def)

lemma parse_valid: "parse_output opts d raw = Inr out \<Longrightarrow> schema_valid opts d out"
  by (auto simp: schema_valid_def parse_output_def)

lemma yields_finalize:
  assumes "schema_valid opts d out"
  shows "yields (schema_valid opts d) (finalizeOutput opts d input out policy)"
proof -
  have hook: "yields (schema_valid opts d) (runHook opts d input out)"
    using assms unfolding runHook_def
    by (auto split: option.splits intro!: yields_abind yields_basic simp: schema_valid_def)
  have moderated: "yields (schema_valid opts d) (applyModeration name md x policy)"
    if "schema_valid opts d x" for name md x
    using that unfolding applyModeration_def enforce_verdict_def
    by (auto split: option.splits intro!: yields_abind yields_basic simp: Let_def)
  have hooked: "yields (schema_valid opts d) (abind (runHook opts d input out) (\<lambda>hooked.
      abind (log_event (A_hook_output hooked)) (\<lambda>_. ret hooked)))"
    by (rule yields_bind [OF hook], rule yields_abind, rule yields_ret)
  show ?thesis
    unfolding finalizeOutput_def
    by (rule yields_bind [of "schema_valid opts d"])
      (use hooked assms in \<open>auto intro!: yields_catch yields_abind yields_basic moderated\<close>)
qed

lemma yields_generation: "yields (schema_valid opts d) (generation_loop opts d cp remaining attempt messages)"
proof -
  have accept: "yields (schema_valid opts d) (accept_output opts d cp raw out)" if "parse_output opts d raw = Inr out" for raw out
    unfolding accept_output_def
    by (rule yields_abind, rule yields_bind [OF yields_finalize])
      (use that in \<open>auto intro!: yields_abind yields_ret parse_valid\<close>)
  have attempt: "yields (schema_valid opts d) (generation_attempt opts d cp attempt messages next_turn)"
    if "\<And>m ms. next_turn = Some m \<Longrightarrow> yields (schema_valid opts d) (m ms)" for attempt messages next_turn
    using that unfolding generation_attempt_def
    by (auto split: sum.splits option.splits intro!: yields_abind yields_basic accept)
  show ?thesis
    by (induction remaining arbitrary: attempt messages) (auto intro!: attempt)
qed

lemma yields_body: "yields (schema_valid opts d) (ai_body opts d input rv groups messages)"
proof -
  have hit: "yields (\<lambda>h. \<forall>x. h = Some x \<longrightarrow> schema_valid opts d x) (serve_hit opts d cp cached)" for cp cached
  proof -
    have served: "yields (\<lambda>h. \<forall>x. h = Some x \<longrightarrow> schema_valid opts d x)
        (abind (finalizeOutput opts d i out policy) (\<lambda>f. abind (log_event (A_output f)) (\<lambda>_. ret (Some f))))"
      if "schema_valid opts d out" for i out policy
      by (rule yields_bind [OF yields_finalize [OF that]]) (auto intro!: yields_abind yields_ret)
    show ?thesis
      unfolding serve_hit_def
      by (rule yields_abind, rule yields_bind [of "schema_valid opts d"], rule yields_lift)
        (auto intro!: yields_abind [where m = "runOutputCheck d i out" for i out]
          yields_abind [where m = "log_event ev" for ev] served yields_ret parse_valid)
  qed
  have path: "yields (\<lambda>h. \<forall>x. h = Some x \<longrightarrow> schema_valid opts d x) (cache_path opts d cp)" for cp
    unfolding cache_path_def
    by (auto split: option.splits intro!: yields_abind hit yields_basic)
  have admitted: "yields P loop \<Longrightarrow> yields P (admitted_loop opts model loop)" for P loop model
    unfolding admitted_loop_def
    by (auto split: option.splits simp: Let_def intro!: yields_abind yields_catch yields_basic)
  show ?thesis
    unfolding ai_body_unfold
    by (rule yields_abind, rule yields_bind [OF path])
      (auto split: option.splits intro!: yields_abind yields_basic admitted yields_generation)
qed

lemma yields_observed: "yields P body \<Longrightarrow> yields P (observed body)"
  unfolding observed_def yields_def abind_def log_event_def by (auto split: prod.splits sum.splits)

lemma yields_execution: "yields (schema_valid opts d) (executeAiActivity opts d input)"
  unfolding executeAiActivity_def
  by (intro yields_abind) (auto intro!: yields_abind yields_observed yields_body)

lemma passed_execution: "passed.keeps (executeAiActivity opts d input)"
  unfolding executeAiActivity_def
  by (auto intro!: passed.keeps_abind passed.keeps_resolve passed.keeps_guard passed.keeps_groups
      passed.keeps_observed passed.keeps_ai_body simp: not_blocked_def)

lemma code_run:
  assumes "executeCodeActivity opts d input st = (Inr out, st')"
  shows "schema_valid opts d out \<and> appends not_blocked st st'"
proof
  show "schema_valid opts d out"
  proof -
    have "yields (schema_valid opts d) (executeCodeActivity opts d input)"
      unfolding executeCodeActivity_def
      by (rule yields_abind, rule yields_observed)
        (auto split: sum.splits option.splits intro!: yields_abind [where m = "throwIfCancelled opts"]
          yields_abind [where m = "outside ev f" for ev f] yields_abind [where m = "lift_result e r" for e r]
          yields_abind [where m = "runOutputCheck d i x" for i x] yields_throw yields_bind [OF yields_finalize]
          yields_abind [where m = "log_event ev" for ev] yields_ret schema_validI)
    with assms show ?thesis by (auto simp: yields_def)
  qed
  have "passed.keeps (executeCodeActivity opts d input)"
    unfolding executeCodeActivity_def
    by (auto split: sum.splits option.splits intro!: passed.keeps_abind passed.keeps_observed passed.keeps_basic
        passed.keeps_check passed.keeps_finalize simp: not_blocked_def)
  with assms show "appends not_blocked st st'" by (auto dest: passed.keepsD)
qed

text \<open>C22: What an execution returns is valid and was not blocked: a returned output is the result of
  parsing with the schema the activity declares (also after a hook, and also when it comes from the
  cache), and no moderation verdict of the execution was a block.\<close>

theorem returned_output_valid:
  assumes "executeActivity opts d input \<lparr>st_log = [], st_store = s\<rparr> = (Inr out, st')"
  shows "(\<exists>v. op_parse opts (case d of AI_activity a \<Rightarrow> ad_output a | Code_activity c \<Rightarrow> ad_output c) (Some v) = Inr out)
    \<and> A_verdict Block \<notin> set (st_log st')"
proof (cases d)
  case (AI_activity a)
  with assms have run: "executeAiActivity opts a input \<lparr>st_log = [], st_store = s\<rparr> = (Inr out, st')"
    by (simp add: executeActivity_def)
  have "schema_valid opts a out" by (rule yieldsD [OF yields_execution run])
  with passed.keepsD [OF passed_execution run] AI_activity show ?thesis
    by (auto simp: schema_valid_def appends_def not_blocked_def)
next
  case (Code_activity c)
  with assms have run: "executeCodeActivity opts c input \<lparr>st_log = [], st_store = s\<rparr> = (Inr out, st')"
    by (simp add: executeActivity_def)
  with code_run [OF run] Code_activity show ?thesis
    by (auto simp: schema_valid_def appends_def not_blocked_def)
qed

lemma returned_output_valid_witness:
  "(\<exists>v. demo_parse demo_schema (Some v) = Inr (JObj [(''title'', JStr ''T'')]))
    \<and> A_verdict Block \<notin> set (st_log (snd (demo_run \<lparr>st_log = [], st_store = empty_store\<rparr>)))"
proof -
  obtain st1 key rec where w: "executeAiActivity demo_options demo_activity demo_input
      \<lparr>st_log = [], st_store = empty_store\<rparr> = (Inr (JObj [(''title'', JStr ''T'')]), st1)"
    by (rule demo_written)
  then have "executeActivity demo_options (AI_activity demo_activity) demo_input \<lparr>st_log = [], st_store = empty_store\<rparr>
      = (Inr (JObj [(''title'', JStr ''T'')]), st1)" by (simp add: executeActivity_def)
  from returned_output_valid [OF this] w show ?thesis
    by (simp add: demo_run_def demo_options_def demo_activity_def)
qed

text \<open>The store changes only with success: an execution that throws leaves the cache as it was, and one
  that returns either leaves it as it was or has put in exactly the record of one accepted output.\<close>

theorem store_changes_with_success:
  assumes "executeAiActivity opts d input \<lparr>st_log = [], st_store = s\<rparr> = (r, st')"
  shows "case r of
      Inl e \<Rightarrow> st_store st' = s
    | Inr x \<Rightarrow> st_store st' = s \<or>
        (\<exists>ops key rec. op_cacheStore opts = Some ops \<and> co_set ops key rec s = Inr (st_store st')
           \<and> A_cache_set key rec \<in> set (st_log st') \<and> check_passes d (parsed_input opts d input) (cr_output rec))"
  using execution_written [OF assms]
proof
  assume "unwritten \<lparr>st_log = [], st_store = s\<rparr> st'"
  then show ?thesis by (simp add: unwritten_def split: sum.splits)
next
  assume "\<exists>cp. accepted_write opts d cp \<lparr>st_log = [], st_store = s\<rparr> r st' \<and> cp_input cp = parsed_input opts d input"
  then show ?thesis
    unfolding accepted_write_def
    by (cases r) (auto simp: record_for_def cacheRecord_def intro!: exI)
qed

lemma store_changes_with_success_witness:
  "\<exists>key rec st1. executeAiActivity demo_options demo_activity demo_input \<lparr>st_log = [], st_store = empty_store\<rparr>
      = (Inr (JObj [(''title'', JStr ''T'')]), st1)
    \<and> (st_store st1 = empty_store \<or> store_set demo_sha key rec empty_store = st_store st1)"
proof -
  obtain st1 key rec where w: "executeAiActivity demo_options demo_activity demo_input
      \<lparr>st_log = [], st_store = empty_store\<rparr> = (Inr (JObj [(''title'', JStr ''T'')]), st1)"
    by (rule demo_written)
  from store_changes_with_success [OF w] w show ?thesis
    by (auto simp: demo_options_def memory_ops_def)
qed

end
