(* ===== verification/Cache_Claims.thy ===== *)
theory Cache_Claims
  imports Cache_Store
begin

text \<open>
  The contract of a cache store as two locales, what follows from them for every store, and their
  interpretation by the in-memory store: the subject index is exact, an erasure is complete and
  touches nothing else, and key digests identify keys.
\<close>

section \<open>The contract\<close>

locale cache_store =
  fixes lookup :: "'s \<Rightarrow> 'k \<Rightarrow> 'r option"
    and update :: "'k \<Rightarrow> 'r \<Rightarrow> 's \<Rightarrow> 's"
    and same_entry :: "'k \<Rightarrow> 'k \<Rightarrow> bool"
    and invar :: "'s \<Rightarrow> bool"
  assumes lookup_update: "invar st \<Longrightarrow> lookup (update k r st) k' = (if same_entry k k' then Some r else lookup st k')"
    and invar_update: "invar st \<Longrightarrow> invar (update k r st)"
    and same_refl: "same_entry k k"
begin

lemma hit_after_update: "invar st \<Longrightarrow> lookup (update k r st) k = Some r"
  by (simp add: lookup_update same_refl)

end

text \<open>A store that can erase the entries of a subject.\<close>

locale erasable_store = cache_store +
  fixes erase :: "'u \<Rightarrow> 's \<Rightarrow> 's"
    and mentions :: "'r \<Rightarrow> 'u \<Rightarrow> bool"
  assumes lookup_erase:
      "invar st \<Longrightarrow> lookup (erase u st) k = (case lookup st k of None \<Rightarrow> None
         | Some r \<Rightarrow> if mentions r u then None else Some r)"
    and invar_erase: "invar st \<Longrightarrow> invar (erase u st)"
begin

lemma erased: "invar st \<Longrightarrow> lookup (erase u st) k = Some r \<Longrightarrow> \<not> mentions r u"
  by (auto simp: lookup_erase split: option.splits if_splits)

text \<open>Only a new write that names the subject can bring its data back.\<close>

lemma stays_erased:
  assumes "invar st" and "\<And>k r. (k, r) \<in> set ws \<Longrightarrow> \<not> mentions r u"
  shows "lookup (fold (\<lambda>(k, r). update k r) ws (erase u st)) k = Some r \<Longrightarrow> \<not> mentions r u"
proof -
  have "invar st' \<and> (\<forall>k r. lookup st' k = Some r \<longrightarrow> \<not> mentions r u)
      \<Longrightarrow> (\<And>k r. (k, r) \<in> set ws \<Longrightarrow> \<not> mentions r u)
      \<Longrightarrow> lookup (fold (\<lambda>(k, r). update k r) ws st') k = Some r \<Longrightarrow> \<not> mentions r u" for st'
  proof (induction ws arbitrary: st')
    case (Cons w ws)
    obtain k' r' where w: "w = (k', r')" by (cases w)
    have "invar (update k' r' st') \<and> (\<forall>k r. lookup (update k' r' st') k = Some r \<longrightarrow> \<not> mentions r u)"
      using Cons.prems(1,2) w by (auto simp: lookup_update invar_update split: if_splits)
    from Cons.IH [OF this] Cons.prems(2,3) w show ?case by auto
  qed simp
  from this [of "erase u st"] assms erased invar_erase
  show "lookup (fold (\<lambda>(k, r). update k r) ws (erase u st)) k = Some r \<Longrightarrow> \<not> mentions r u" by blast
qed

end

section \<open>The subject index\<close>

definition indexed :: "(string \<rightharpoonup> string list) \<Rightarrow> string \<Rightarrow> string \<Rightarrow> bool" where
  "indexed idx s d \<longleftrightarrow> (case idx s of None \<Rightarrow> False | Some ks \<Rightarrow> d \<in> set ks)"

definition tidy :: "(string \<rightharpoonup> string list) \<Rightarrow> bool" where
  "tidy idx \<longleftrightarrow> (\<forall>s ks. idx s = Some ks \<longrightarrow> ks \<noteq> [] \<and> distinct ks)"

definition store_inv :: "memory_store \<Rightarrow> bool" where
  "store_inv st \<longleftrightarrow> tidy (subjectIndex st) \<and>
     (\<forall>s d. indexed (subjectIndex st) s d \<longleftrightarrow>
        (\<exists>r. records st d = Some r \<and> s \<in> set (subjects_of r)))"

lemma indexed_drop:
  "idx u = Some ks \<Longrightarrow>
   indexed (if removeAll d ks = [] then idx(u := None) else idx(u \<mapsto> removeAll d ks)) s d' \<longleftrightarrow>
   indexed idx s d' \<and> \<not> (d' = d \<and> s = u)"
  by (auto simp: indexed_def filter_empty_conv removeAll_filter_not_eq)

lemma tidy_drop:
  "idx u = Some ks \<Longrightarrow> tidy idx \<Longrightarrow>
   tidy (if removeAll d ks = [] then idx(u := None) else idx(u \<mapsto> removeAll d ks))"
  by (auto simp: tidy_def distinct_removeAll)

lemma indexed_add:
  "indexed (idx(u \<mapsto> set_add d (case idx u of None \<Rightarrow> [] | Some ks \<Rightarrow> ks))) s d' \<longleftrightarrow>
   indexed idx s d' \<or> (d' = d \<and> s = u)"
  by (auto simp: indexed_def set_add_def split: option.splits)

lemma tidy_add: "tidy idx \<Longrightarrow> tidy (idx(u \<mapsto> set_add d (case idx u of None \<Rightarrow> [] | Some ks \<Rightarrow> ks)))"
  by (auto simp: tidy_def set_add_def split: option.splits)

lemma unindex_spec:
  "(indexed (unindex d ss idx) s d' \<longleftrightarrow> indexed idx s d' \<and> \<not> (d' = d \<and> s \<in> set ss))
   \<and> (tidy idx \<longrightarrow> tidy (unindex d ss idx))"
proof (induction ss arbitrary: idx)
  case (Cons u ss)
  show ?case
  proof (cases "idx u")
    case None
    with Cons.IH [of idx] show ?thesis by (auto simp: indexed_def)
  next
    case (Some ks)
    let ?idx = "if removeAll d ks = [] then idx(u := None) else idx(u \<mapsto> removeAll d ks)"
    from Some have "unindex d (u # ss) idx = unindex d ss ?idx" by (simp add: Let_def)
    with Cons.IH [of ?idx] indexed_drop [where idx = idx and u = u, OF Some] tidy_drop [where idx = idx and u = u, OF Some]
    show ?thesis by (simp only: list.set insert_iff) blast
  qed
qed simp

lemma index_subjects_spec:
  "(indexed (index_subjects d ss idx) s d' \<longleftrightarrow> indexed idx s d' \<or> (d' = d \<and> s \<in> set ss))
   \<and> (tidy idx \<longrightarrow> tidy (index_subjects d ss idx))"
proof (induction ss arbitrary: idx)
  case (Cons u ss)
  let ?idx = "idx(u \<mapsto> set_add d (case idx u of None \<Rightarrow> [] | Some ks \<Rightarrow> ks))"
  have "index_subjects d (u # ss) idx = index_subjects d ss ?idx" by (simp add: Let_def)
  with Cons.IH [of ?idx] indexed_add [of idx u d s d'] tidy_add [of idx u d]
  show ?case by (simp only: list.set insert_iff) blast
qed simp

lemmas index_specs = unindex_spec [THEN conjunct1] index_subjects_spec [THEN conjunct1]
  unindex_spec [THEN conjunct2, rule_format] index_subjects_spec [THEN conjunct2, rule_format]

lemma store_inv_empty: "store_inv empty_store"
  by (simp add: store_inv_def empty_store_def tidy_def indexed_def)

lemma store_inv_set: "store_inv st \<Longrightarrow> store_inv (store_set sha key r st)"
  by (cases "records st (cacheKeyDigest sha key)")
    (auto simp: store_inv_def store_set_def Let_def index_specs)

lemma store_inv_remove:
  "store_inv st \<Longrightarrow> records st d = Some r \<Longrightarrow>
   store_inv \<lparr>records = (records st)(d := None), subjectIndex = unindex d (subjects_of r) (subjectIndex st)\<rparr>"
  by (auto simp: store_inv_def index_specs)

lemma erase_digests_spec:
  "store_inv st \<Longrightarrow> distinct ds \<Longrightarrow> erase_digests ds (st, n) = (st', n') \<Longrightarrow>
   store_inv st' \<and> (\<forall>d. records st' d = (if d \<in> set ds then None else records st d)) \<and>
   n' = n + length (filter (\<lambda>d. records st d \<noteq> None) ds)"
proof (induction ds "(st, n)" arbitrary: st n rule: erase_digests.induct)
  case (2 d ds st n)
  show ?case
  proof (cases "records st d")
    case None
    with 2 show ?thesis by auto
  next
    case (Some r)
    let ?st = "\<lparr>records = (records st)(d := None), subjectIndex = unindex d (subjects_of r) (subjectIndex st)\<rparr>"
    have "filter (\<lambda>x. records ?st x \<noteq> None) ds = filter (\<lambda>x. records st x \<noteq> None) ds"
      using 2(4) by (intro filter_cong) auto
    with 2(2) [OF Some store_inv_remove [OF 2(3) Some]] 2(4,5) Some show ?thesis by auto
  qed
qed simp

definition index_keys :: "memory_store \<Rightarrow> string \<Rightarrow> string list" where
  "index_keys st s = sort_strings (case subjectIndex st s of None \<Rightarrow> [] | Some ks \<Rightarrow> ks)"

lemma index_keys_spec:
  assumes "store_inv st"
  shows "distinct (index_keys st s)"
    and "d \<in> set (index_keys st s) \<longleftrightarrow> (\<exists>r. records st d = Some r \<and> s \<in> set (subjects_of r))"
proof -
  show "distinct (index_keys st s)"
    using assms by (auto simp: index_keys_def store_inv_def tidy_def split: option.splits)
  have "d \<in> set (index_keys st s) \<longleftrightarrow> indexed (subjectIndex st) s d"
    by (auto simp: index_keys_def indexed_def split: option.splits)
  then show "d \<in> set (index_keys st s) \<longleftrightarrow> (\<exists>r. records st d = Some r \<and> s \<in> set (subjects_of r))"
    using assms by (simp add: store_inv_def)
qed

lemma eraseSubject_spec:
  assumes inv: "store_inv st" and er: "eraseSubject cls s False st = (st', rep)"
  shows "store_inv st'"
    and "records st' d = (case records st d of None \<Rightarrow> None
           | Some r \<Rightarrow> if s \<in> set (subjects_of r) then None else Some r)"
    and "er_keyDigests rep = index_keys st s \<and> er_keysFound rep = length (index_keys st s)
         \<and> er_keysDeleted rep = length (index_keys st s)"
proof -
  obtain n where e: "erase_digests (index_keys st s) (st, 0) = (st', n)"
    and rep: "er_keyDigests rep = index_keys st s" "er_keysFound rep = length (index_keys st s)" "er_keysDeleted rep = n"
    using er by (auto simp: eraseSubject_def index_keys_def Let_def split: prod.splits)
  note spec = erase_digests_spec [OF inv index_keys_spec(1) [OF inv] e] index_keys_spec(2) [OF inv, of _ s]
  show "store_inv st'" using spec by simp
  show "records st' d = (case records st d of None \<Rightarrow> None
           | Some r \<Rightarrow> if s \<in> set (subjects_of r) then None else Some r)"
    using spec by (auto split: option.splits)
  have "filter (\<lambda>d. records st d \<noteq> None) (index_keys st s) = index_keys st s"
    using spec(2) by (auto intro!: filter_True)
  with spec(1) rep show "er_keyDigests rep = index_keys st s \<and> er_keysFound rep = length (index_keys st s)
         \<and> er_keysDeleted rep = length (index_keys st s)" by simp
qed

interpretation memory: erasable_store "store_get sha" "store_set sha"
    "\<lambda>k k'. cacheKeyDigest sha k = cacheKeyDigest sha k'" store_inv
    "\<lambda>s st. fst (eraseSubject cls s False st)" "\<lambda>r s. s \<in> set (subjects_of r)"
  for sha cls
proof
  show "store_get sha (fst (eraseSubject cls u False st)) k = (case store_get sha st k of None \<Rightarrow> None
         | Some r \<Rightarrow> if u \<in> set (subjects_of r) then None else Some r)" if "store_inv st" for st u k
    using eraseSubject_spec(2) [OF that prod.collapse [symmetric]] by (simp add: store_get_def)
  show "store_inv (fst (eraseSubject cls u False st))" if "store_inv st" for st u
    using eraseSubject_spec(1) [OF that prod.collapse [symmetric]] by simp
  show "store_get sha (store_set sha k r st) k' =
      (if cacheKeyDigest sha k = cacheKeyDigest sha k' then Some r else store_get sha st k')" for st k r k'
    by (auto simp: store_get_def store_set_def Let_def)
qed (simp_all add: store_inv_set)

section \<open>Runs of the store\<close>

datatype store_op = Op_set cache_key cache_record | Op_erase string bool

fun store_step :: "(string \<Rightarrow> string) \<Rightarrow> string \<Rightarrow> store_op \<Rightarrow> memory_store \<Rightarrow> memory_store" where
  "store_step sha cls (Op_set key r) st = store_set sha key r st"
| "store_step sha cls (Op_erase s dryRun) st = fst (eraseSubject cls s dryRun st)"

definition store_run :: "(string \<Rightarrow> string) \<Rightarrow> string \<Rightarrow> store_op list \<Rightarrow> memory_store" where
  "store_run sha cls ops = fold (store_step sha cls) ops empty_store"

lemma dry_run [simp]:
  "fst (eraseSubject cls s True st) = st"
  "er_keyDigests (snd (eraseSubject cls s True st)) = index_keys st s"
  "er_keysFound (snd (eraseSubject cls s True st)) = length (index_keys st s)"
  "er_keysDeleted (snd (eraseSubject cls s True st)) = 0"
  by (simp_all add: eraseSubject_def index_keys_def Let_def)

lemma store_inv_step: "store_inv st \<Longrightarrow> store_inv (store_step sha cls op st)"
proof (cases op)
  case (Op_erase s dryRun)
  then show "store_inv st \<Longrightarrow> store_inv (store_step sha cls op st)"
    using memory.invar_erase by (cases dryRun) auto
qed (simp add: store_inv_set)

lemma store_inv_run: "store_inv (store_run sha cls ops)"
proof -
  have "store_inv st \<Longrightarrow> store_inv (fold (store_step sha cls) ops st)" for st
    by (induction ops arbitrary: st) (simp_all add: store_inv_step)
  then show ?thesis by (simp add: store_run_def store_inv_empty)
qed

text \<open>C31: The subject index of the in-memory cache is exact after every sequence of writes,
  overwrites, erasures and dry runs: it lists a digest under a subject exactly when the record now
  stored under that digest names the subject, with no duplicate and no empty set left behind.\<close>

theorem store_index_exact:
  "tidy (subjectIndex (store_run sha cls ops))
   \<and> (indexed (subjectIndex (store_run sha cls ops)) s d \<longleftrightarrow>
      (\<exists>r. records (store_run sha cls ops) d = Some r \<and> s \<in> set (subjects_of r)))"
  using store_inv_run [of sha cls ops] by (simp add: store_inv_def)

text \<open>Erasing a subject is complete and precise: afterwards no lookup returns a record naming the
  subject, every other entry is as before, and the report counts exactly the deleted records. A dry
  run reports the same digests and changes nothing.\<close>

theorem eraseSubject_complete:
  "let st = store_run sha cls ops;
       st' = fst (eraseSubject cls s False st);
       rep = snd (eraseSubject cls s False st);
       dry = eraseSubject cls s True st
   in (store_get sha st' k = (case store_get sha st k of None \<Rightarrow> None
         | Some r \<Rightarrow> if s \<in> set (subjects_of r) then None else Some r))
      \<and> er_keysDeleted rep = card {d. \<exists>r. records st d = Some r \<and> s \<in> set (subjects_of r)}
      \<and> er_keyDigests (snd dry) = er_keyDigests rep \<and> fst dry = st"
proof -
  let ?st = "store_run sha cls ops"
  note inv = store_inv_run [of sha cls ops]
  note spec = eraseSubject_spec(3) [OF inv prod.collapse [symmetric], of cls s]
  have "set (index_keys ?st s) = {d. \<exists>r. records ?st d = Some r \<and> s \<in> set (subjects_of r)}"
    using index_keys_spec(2) [OF inv] by auto
  with distinct_card [OF index_keys_spec(1) [OF inv, of s]] spec memory.lookup_erase [OF inv]
  show ?thesis by (simp add: Let_def)
qed

text \<open>What has been erased stays erased: after an erasure, no sequence of writes whose records do
  not name the subject can make a lookup return a record that does.\<close>

theorem erased_stays_erased:
  assumes "\<And>k r. (k, r) \<in> set ws \<Longrightarrow> s \<notin> set (subjects_of r)"
    and "store_get sha (fold (\<lambda>(k, r). store_set sha k r) ws
           (fst (eraseSubject cls s False (store_run sha cls ops)))) k = Some r"
  shows "s \<notin> set (subjects_of r)"
  using memory.stays_erased [OF store_inv_run assms] .

definition demo_record :: "string list \<Rightarrow> cache_record" where
  "demo_record ss = \<lparr>cr_key = cacheKey ''a'' ''h'' [], cr_output = JNull, cr_created_at = ''t'',
     cr_output_schema_hash = ''o'', cr_manifest_hash = None, cr_tokens_saved = None, cr_subjects = Some ss\<rparr>"

theorem erased_stays_erased_witness:
  "''u'' \<notin> set (subjects_of (demo_record [''w'']))
   \<and> store_get id (fold (\<lambda>(k, r). store_set id k r) [(cacheKey ''a'' ''h'' [], demo_record [''w''])]
        (fst (eraseSubject ''C'' ''u'' False
           (store_run id ''C'' [Op_set (cacheKey ''a'' ''h'' []) (demo_record [''u'', ''w''])])))) (cacheKey ''a'' ''h'' [])
     = Some (demo_record [''w''])"
proof -
  let ?k = "cacheKey ''a'' ''h'' []" and ?r = "demo_record [''w'']"
  let ?ops = "[Op_set ?k (demo_record [''u'', ''w''])]"
  have get: "store_get id (fold (\<lambda>(k, r). store_set id k r) [(?k, ?r)]
        (fst (eraseSubject ''C'' ''u'' False (store_run id ''C'' ?ops)))) ?k = Some ?r"
    by (simp add: store_get_def store_set_def Let_def)
  have "''u'' \<notin> set (subjects_of ?r)"
    by (rule erased_stays_erased [OF _ get]) (auto simp: demo_record_def subjects_of_def)
  with get show ?thesis by simp
qed

section \<open>Digests identify keys\<close>

definition string_fields :: "(string \<times> string) list \<Rightarrow> (string \<times> jv) list" where
  "string_fields kvs = map (\<lambda>(k, v). (k, JStr v)) kvs"

lemma json_value_string_fields:
  "json_value (JObj (string_fields kvs)) = JObj (string_fields (sort_entries kvs))"
proof -
  have "map (\<lambda>(k, v). (k, json_value v)) (string_fields kvs) = string_fields kvs"
    by (auto simp: string_fields_def)
  moreover have "sort_entries (string_fields kvs) = string_fields (sort_entries kvs)"
    unfolding string_fields_def by (rule map_sort_entries)
  ultimately show ?thesis by simp
qed

lemma string_fields_inj: "string_fields a = string_fields b \<longleftrightarrow> a = b"
proof -
  have "inj (\<lambda>(k :: string, v). (k, JStr v))" by (auto intro: injI)
  then show ?thesis by (simp add: string_fields_def inj_map_eq_map)
qed

lemma sort_entries_same_map:
  "distinct (map fst a) \<Longrightarrow> distinct (map fst b) \<Longrightarrow> sort_entries a = sort_entries b \<longleftrightarrow> map_of a = map_of b"
  by (metis ascending_distinct ascending_sort_entries map_of_eqI map_of_eq_set set_sort_entries
      sort_entries_unique list.set_map map_of_inject_set)

text \<open>Cache key digests identify cache keys: as long as SHA-256 does not collide on the two
  canonical texts, two keys have the same digest exactly when activity and input hash agree and the
  scopes are the same mapping, in whatever order their entries were written.\<close>

theorem cacheKeyDigest_identity:
  assumes "distinct (map fst (ck_scope k))" and "distinct (map fst (ck_scope k'))"
    and "sha (canonicalJson (key_json k)) = sha (canonicalJson (key_json k'))
         \<Longrightarrow> canonicalJson (key_json k) = canonicalJson (key_json k')"
  shows "cacheKeyDigest sha k = cacheKeyDigest sha k' \<longleftrightarrow>
    ck_activity k = ck_activity k' \<and> ck_input_hash k = ck_input_hash k'
    \<and> map_of (ck_scope k) = map_of (ck_scope k')"
proof -
  have wf: "wf_jv (key_json k)" if "distinct (map fst (ck_scope k))" for k
    using that by (auto simp: key_json_def comp_def case_prod_beta)
  have same: "json_value (key_json k) = json_value (key_json k') \<longleftrightarrow>
      ck_activity k = ck_activity k' \<and> ck_input_hash k = ck_input_hash k'
      \<and> sort_entries (ck_scope k) = sort_entries (ck_scope k')"
    using json_value_string_fields [of "ck_scope k"] json_value_string_fields [of "ck_scope k'"]
    by (simp add: key_json_def sort_entries_ascending string_fields_inj flip: string_fields_def)
  show ?thesis
    using canonical_eq_iff [OF wf [OF assms(1)] wf [OF assms(2)]] assms(3) same
      sort_entries_same_map [OF assms(1,2)]
    by (auto simp: cacheKeyDigest_def)
qed

theorem cacheKeyDigest_identity_witness:
  "cacheKeyDigest id (cacheKey ''a'' ''h'' [(''x'', ''1''), (''b'', ''2'')])
   = cacheKeyDigest id (cacheKey ''a'' ''h'' [(''b'', ''2''), (''x'', ''1'')])"
proof -
  let ?k = "cacheKey ''a'' ''h'' [(''x'', ''1''), (''b'', ''2'')]"
  let ?k' = "cacheKey ''a'' ''h'' [(''b'', ''2''), (''x'', ''1'')]"
  have "distinct (map fst (ck_scope ?k))" "distinct (map fst (ck_scope ?k'))"
    "map_of (ck_scope ?k) = map_of (ck_scope ?k')"
    by (auto simp: cacheKey_def fun_eq_iff)
  then show ?thesis
    using cacheKeyDigest_identity [of ?k ?k' id] by (simp add: cacheKey_def)
qed

end
