(* ===== verification/Activity_Served.thy ===== *)
theory Activity_Served
  imports Activity_Cache Cache_Claims
begin

text \<open>
  Two executions over one store: after an execution of a call has written its accepted output, the same
  call is answered from the store, without the provider. The argument uses only the store contract
  \<open>cache_store\<close>, through its interpretation by the in-memory store.
\<close>

section \<open>Computations that answer the same way every time\<close>

text \<open>Where the computation returns, it returns the same at any other moment and leaves the store alone.\<close>

definition repeats :: "('s, 'a) act \<Rightarrow> bool" where
  "repeats m \<longleftrightarrow> (\<forall>st st1 x st'. m st = (Inr x, st1) \<longrightarrow> (\<exists>st2. m st' = (Inr x, st2) \<and> st_store st2 = st_store st'))"

lemma repeatsD: "repeats m \<Longrightarrow> m st = (Inr x, st1) \<Longrightarrow> \<exists>st2. m st' = (Inr x, st2) \<and> st_store st2 = st_store st'"
  by (auto simp: repeats_def)

lemma repeats_abind:
  fixes m :: "('s, 'a) act"
  assumes "repeats m" "\<And>x. repeats (f x)"
  shows "repeats (abind m f)"
  unfolding repeats_def
proof (intro allI impI)
  fix st st1 y and st' :: "'s act_state"
  assume "abind m f st = (Inr y, st1)"
  then obtain x sa where x: "m st = (Inr x, sa)" "f x sa = (Inr y, st1)" by (auto elim: abind_cases)
  from repeatsD [OF assms(1) x(1), of st'] obtain sb where b: "m st' = (Inr x, sb)" "st_store sb = st_store st'" by blast
  from repeatsD [OF assms(2) x(2), of sb] b show "\<exists>st2. abind m f st' = (Inr y, st2) \<and> st_store st2 = st_store st'"
    by (auto simp: abind_def)
qed

lemma repeats_basic:
  "repeats (ret x)" "repeats (throw e)" "repeats (log_event ev)" "repeats (lift_result err r)"
  by (auto simp: repeats_def ret_def throw_def log_event_def lift_result_def split: sum.split)

lemma repeats_outside:
  "(\<And>h h'. f h = f h') \<Longrightarrow> repeats (outside ev f)"
  "\<forall>h h'. f1 h = f1 h' \<Longrightarrow> repeats (outside ev (\<lambda>h. f1 h a))"
  "\<forall>h h'. f2 h = f2 h' \<Longrightarrow> repeats (outside ev (\<lambda>h. f2 h a b))"
  by (auto simp: repeats_def outside_def) metis+

lemma repeats_catch:
  fixes m :: "('s, 'a) act"
  assumes "repeats m" "\<And>e st. isl (fst (h e st))"
  shows "repeats (catch m h)"
  unfolding repeats_def
proof (intro allI impI)
  fix st st1 y and st' :: "'s act_state"
  assume run: "catch m h st = (Inr y, st1)"
  then have "m st = (Inr y, st1)"
    using assms(2) by (auto elim!: catch_cases) (metis fst_conv isl_def sum.distinct(1))
  from repeatsD [OF assms(1) this, of st'] show "\<exists>st2. catch m h st' = (Inr y, st2) \<and> st_store st2 = st_store st'"
    by (auto simp: catch_def)
qed

text \<open>The code the activity is configured with, apart from the provider, answers by its arguments alone.\<close>

definition answers_by_arguments :: "'s execute_options \<Rightarrow> ai_descriptor \<Rightarrow> bool" where
  "answers_by_arguments opts d \<longleftrightarrow>
     (\<forall>f h h'. op_registry opts = Some f \<longrightarrow> f h = f h') \<and> (\<forall>f h h'. op_artifactResolver opts = Some f \<longrightarrow> f h = f h')
     \<and> (\<forall>f h h'. ad_outputCheck d = Some f \<longrightarrow> f h = f h') \<and> (\<forall>f h h'. ad_hook d = Some f \<longrightarrow> f h = f h')
     \<and> (\<forall>m h h'. ad_moderation d = Some m \<longrightarrow> md_moderator m h = md_moderator m h')"

lemma repeats_resolve: "answers_by_arguments opts d \<Longrightarrow> repeats (resolveCall opts d input)"
  unfolding resolveCall_def answers_by_arguments_def
  by (auto simp: Let_def split: option.splits intro!: repeats_abind repeats_basic repeats_outside)

lemma repeats_guard: "repeats (invokeProviderModelGuard opts call)"
  unfolding invokeProviderModelGuard_def by (auto split: option.splits intro!: repeats_abind repeats_basic)

lemma repeats_groups: "answers_by_arguments opts d \<Longrightarrow> repeats (resolve_groups opts d input)"
  unfolding resolve_groups_def answers_by_arguments_def Let_def
  by (rule repeats_abind) (auto split: option.splits intro!: repeats_abind repeats_basic repeats_outside)

lemma repeats_preparation: "answers_by_arguments opts d \<Longrightarrow> repeats (preparation opts d input)"
  unfolding preparation_def by (intro repeats_abind repeats_resolve repeats_guard repeats_groups repeats_basic)

lemma repeats_checkpoint: "(\<And>h. \<not> op_cancelled opts h) \<Longrightarrow> repeats (throwIfCancelled opts)"
  unfolding throwIfCancelled_def by (intro repeats_abind repeats_outside(1)) (auto intro: repeats_basic)

lemma repeats_moderation:
  assumes "answers_by_arguments opts d"
  shows "repeats (applyModeration name (ad_moderation d) out policy)"
proof (cases "ad_moderation d")
  case (Some m)
  then have "repeats (outside (A_moderator out) (\<lambda>h. md_moderator m h out))"
    using assms by (intro repeats_outside(2)) (simp add: answers_by_arguments_def)
  with Some show ?thesis
    by (auto simp: applyModeration_def enforce_verdict_def Let_def intro!: repeats_abind repeats_basic)
qed (simp add: applyModeration_def repeats_basic)

lemma repeats_finalize:
  assumes "answers_by_arguments opts d"
  shows "repeats (finalizeOutput opts d input out policy)"
proof -
  have "repeats (runHook opts d input out)"
    using assms unfolding runHook_def answers_by_arguments_def
    by (auto split: option.splits intro!: repeats_abind repeats_basic repeats_outside)
  moreover have "isl (fst (abind (log_event A_hook_error) (\<lambda>_. throw e) st))" for e and st :: "'a act_state"
    by (simp add: abind_def log_event_def throw_def)
  ultimately show ?thesis
    unfolding finalizeOutput_def
    by (intro repeats_abind repeats_moderation [OF assms])
      (auto intro!: repeats_catch repeats_abind repeats_basic)
qed

lemma check_again:
  assumes "check_passes d input out" and "answers_by_arguments opts d"
  shows "\<exists>st'. runOutputCheck d input out st = (Inr None, st') \<and> st_store st' = st_store st"
proof (cases "ad_outputCheck d")
  case (Some c)
  with assms(1) obtain h r where r: "c h input out = Inr r" "normalizeOutputCheckResult r = Inr None"
    by (auto simp: check_passes_def)
  have "c (st_log st) = c h" using assms(2) Some by (simp add: answers_by_arguments_def)
  with r Some show ?thesis
    by (simp add: runOutputCheck_def abind_def outside_def lift_result_def ret_def)
qed (simp add: runOutputCheck_def ret_def)

lemma demo_title_parses:
  "parse_output demo_options demo_activity (JObj [(''title'', JStr ''T'')]) = Inr (JObj [(''title'', JStr ''T'')])"
  by (simp add: parse_output_def demo_defs coerceOptionalNulls.simps innerType_def accepts_def obj_put_same)

section \<open>Serving a hit\<close>

lemma checkpoint_passes:
  "\<not> op_cancelled opts (st_log st) \<Longrightarrow> throwIfCancelled opts st = (Inr (), st\<lparr>st_log := st_log st @ [A_checkpoint]\<rparr>)"
  by (simp add: throwIfCancelled_def abind_def outside_def ret_def)

lemma hit_answers:
  assumes "\<And>h. \<not> op_cancelled opts h" and "parse_output opts d (cr_output cached) = Inr out"
    and "check_passes d (cp_input cp) out" and "answers_by_arguments opts d" and "finalizes opts d (cp_input cp) out x"
    and "serve_hit opts d cp cached st = (r, st')"
  shows "r = Inr (Some x) \<and> A_cacheHit True \<in> set (st_log st')"
proof -
  let ?st1 = "st\<lparr>st_log := st_log st @ [A_checkpoint]\<rparr>"
  obtain st2 where check: "runOutputCheck d (cp_input cp) out ?st1 = (Inr None, st2)"
    using check_again [OF assms(3,4)] by blast
  let ?st3 = "st2\<lparr>st_log := st_log st2 @ [A_cacheHit True]\<rparr>"
  obtain st4 where fin: "finalizeOutput opts d (cp_input cp) out (op_moderationPolicyBlock opts) ?st3 = (Inr x, st4)"
    using assms(5) repeatsD [OF repeats_finalize [OF assms(4)]] unfolding finalizes_def by blast
  have "A_cacheHit True \<in> set (st_log st4)"
    using growth.keepsD [OF growth.keeps_finalize fin] by (auto simp: appends_def)
  then show ?thesis using assms(6) checkpoint_passes [OF assms(1)] check fin assms(2)
    by (auto simp: serve_hit_def abind_def lift_result_def ret_def log_event_def)
qed

lemma path_served:
  assumes "op_cacheStore opts = Some (memory_ops sha)" and "cp_key cp = Some key" and "\<not> reads_bypassed opts d"
    and "store_get sha (st_store st) key = Some cached" and "cr_output_schema_hash cached = ad_outputSchemaHash d"
  shows "cache_path opts d cp st = serve_hit opts d cp cached (st\<lparr>st_log := st_log st @ [A_cache_get key]\<rparr>)"
  using assms by (simp add: cache_path_def cache_lookup_def abind_def log_event_def memory_ops_def)

lemma silent_provider:
  "appends not_provider st st' \<Longrightarrow> A_provider q \<in> set (st_log st') \<Longrightarrow> A_provider q \<in> set (st_log st)"
  by (force simp: appends_def not_provider_def)

lemma body_served:
  assumes "op_cacheStore opts = Some (memory_ops sha)" and "cp_key (plan_of opts d input rv groups messages) = Some key"
    and "\<not> reads_bypassed opts d" and "store_get sha (st_store st) key = Some cached"
    and "cr_output_schema_hash cached = ad_outputSchemaHash d" and "\<And>h. \<not> op_cancelled opts h"
    and "parse_output opts d (cr_output cached) = Inr out" and "check_passes d (parsed_input opts d input) out"
    and "answers_by_arguments opts d" and "finalizes opts d (parsed_input opts d input) out x"
    and "ai_body opts d input rv groups messages st = (r, st')"
  shows "r = Inr x \<and> appends not_provider st st' \<and> unwritten st st' \<and> A_cacheHit True \<in> set (st_log st')"
proof -
  let ?cp = "plan_of opts d input rv groups messages"
  let ?st1 = "st\<lparr>st_log := st_log st @ [A_checkpoint, A_cache_get key]\<rparr>"
  obtain r1 st1 where hit: "serve_hit opts d ?cp cached ?st1 = (r1, st1)" by fastforce
  have plan: "cp_input ?cp = parsed_input opts d input" by (simp add: plan_of_def)
  note answers = hit_answers [where cp = ?cp, unfolded plan, OF assms(6-10) hit]
  have body: "r = Inr x \<and> st' = st1"
    using assms(11) hit answers checkpoint_passes [OF assms(6)]
      path_served [OF assms(1,2,3), where st = "st\<lparr>st_log := st_log st @ [A_checkpoint]\<rparr>"] assms(4,5)
    by (auto simp: ai_body_unfold abind_def ret_def split: sum.splits)
  have "appends not_provider ?st1 st1" using silent.keepsD [OF silent.keeps_hit hit] by simp
  moreover have "appends not_provider st ?st1" by (simp add: appends_def not_provider_def)
  ultimately have "appends not_provider st st1" by (blast intro: appends_trans)
  moreover have "unwritten ?st1 st1" using unwritten.keepsD [OF unwritten.keeps_hit hit] by simp
  then have "unwritten st st1" by (auto simp: unwritten_def appends_def)
  ultimately show ?thesis using body answers by auto
qed

text \<open>What a first execution that wrote leaves in the store.\<close>

lemma first_stored:
  assumes "store_inv s" and "op_cacheStore opts = Some (memory_ops sha)"
    and "executeAiActivity opts d input \<lparr>st_log = [], st_store = s\<rparr> = (Inr x, st1)" "A_cache_set key rec \<in> set (st_log st1)"
  shows "\<exists>rv inputs groups st2.
    preparation opts d input \<lparr>st_log = [], st_store = s\<rparr> = (Inr (rv, inputs, groups), st2)
    \<and> cp_key (plan_of opts d input rv groups (base_messages opts (rv_messages rv) inputs groups)) = Some key
    \<and> check_passes d (parsed_input opts d input) (cr_output rec)
    \<and> finalizes opts d (parsed_input opts d input) (cr_output rec) x
    \<and> cr_output_schema_hash rec = ad_outputSchemaHash d
    \<and> store_get sha (st_store st1) key = Some rec"
  using assms(3)
proof (cases rule: execution_cases)
  case (body rv inputs groups sa sb)
  let ?cp = "plan_of opts d input rv groups (base_messages opts (rv_messages rv) inputs groups)"
  have set: "A_cache_set key rec \<in> set (st_log sb)" using assms(4) body(5) by simp
  moreover have quiet: "\<forall>ev \<in> set (st_log sa). clean_event ev"
    using body(2) by (auto simp: clean_def appends_def)
  ultimately have "\<not> unwritten (sa\<lparr>st_log := st_log sa @ [A_open]\<rparr>) sb"
    by (fastforce simp: unwritten_def appends_def clean_event_def)
  with body_written [OF body(3)] have
    "accepted_write opts d ?cp (sa\<lparr>st_log := st_log sa @ [A_open]\<rparr>) (Inr x) sb" by simp
  then obtain evs out now k tail where w: "cp_key ?cp = Some k"
    "st_log sb = (st_log sa @ [A_open]) @ evs @ A_cache_set k (record_for opts d k out now) # tail"
    "\<forall>ev\<in>set evs. clean_event ev" "\<forall>ev\<in>set tail. clean_event ev"
    "check_passes d (cp_input ?cp) out" "finalizes opts d (cp_input ?cp) out x"
    "store_set sha k (record_for opts d k out now) (st_store sa) = st_store sb"
    using assms(2) unfolding accepted_write_def by (auto simp: memory_ops_def)
  have rec: "key = k" "rec = record_for opts d k out now"
    using set w(2-4) quiet by (auto simp: clean_event_def)
  have "store_inv (st_store sa)" using assms(1) body(2) by (simp add: clean_def)
  then have "store_get sha (st_store st1) k = Some (record_for opts d k out now)"
    using w(7) body(4) memory.hit_after_update [of "st_store sa" sha k "record_for opts d k out now"] by simp
  moreover have "cr_output rec = out" "cr_output_schema_hash rec = ad_outputSchemaHash d"
    by (simp_all add: rec(2) record_for_def cacheRecord_def)
  ultimately show ?thesis using w(1,5,6) body(1) rec by (auto simp: plan_of_def intro!: exI)
qed simp

text \<open>C14: A call that has been answered is served from the store: after an execution that returned and wrote the
  record \<open>rec\<close> to the in-memory store, an execution of the same call over the resulting store returns the same
  output, hook and moderation included, makes no provider call, logs a hit and leaves the store as it is. The
  conditions are those under which the code means to serve a hit: reads are not bypassed and no cancellation comes in;
  the prompt registry, the artifact resolver, the output check, the hook and the moderator answer by their arguments
  alone; and the output stored in \<open>rec\<close>, which a hit parses again, is one its schema parses to itself, as it is
  whenever the schema transforms nothing.\<close>

theorem second_run_served:
  assumes "store_inv s" and "op_cacheStore opts = Some (memory_ops sha)"
    and "\<not> reads_bypassed opts d" and "\<And>h. \<not> op_cancelled opts h" and "answers_by_arguments opts d"
    and "executeAiActivity opts d input \<lparr>st_log = [], st_store = s\<rparr> = (Inr x, st1)" "A_cache_set key rec \<in> set (st_log st1)"
    and "parse_output opts d (cr_output rec) = Inr (cr_output rec)"
  shows "\<exists>st2. executeAiActivity opts d input \<lparr>st_log = [], st_store = st_store st1\<rparr> = (Inr x, st2)
    \<and> (\<forall>q. A_provider q \<notin> set (st_log st2)) \<and> A_cacheHit True \<in> set (st_log st2) \<and> st_store st2 = st_store st1"
proof -
  from first_stored [OF assms(1,2,6,7)] obtain rv inputs groups st2' where w:
    "preparation opts d input \<lparr>st_log = [], st_store = s\<rparr> = (Inr (rv, inputs, groups), st2')"
    "cp_key (plan_of opts d input rv groups (base_messages opts (rv_messages rv) inputs groups)) = Some key"
    "check_passes d (parsed_input opts d input) (cr_output rec)"
    "finalizes opts d (parsed_input opts d input) (cr_output rec) x"
    "cr_output_schema_hash rec = ad_outputSchemaHash d" "store_get sha (st_store st1) key = Some rec" by blast
  let ?ms = "base_messages opts (rv_messages rv) inputs groups"
  let ?st = "\<lparr>st_log = [], st_store = st_store st1\<rparr>"
  obtain st3 where p: "preparation opts d input ?st = (Inr (rv, inputs, groups), st3)" "st_store st3 = st_store st1"
    using repeatsD [OF repeats_preparation [OF assms(5)] w(1), of ?st] by auto
  let ?st4 = "st3\<lparr>st_log := st_log st3 @ [A_open]\<rparr>"
  obtain r st5 where run: "ai_body opts d input rv groups ?ms ?st4 = (r, st5)" by fastforce
  have served: "r = Inr x \<and> appends not_provider ?st4 st5 \<and> unwritten ?st4 st5 \<and> A_cacheHit True \<in> set (st_log st5)"
    by (rule body_served [OF assms(2) w(2) assms(3) _ w(5) assms(4,8) w(3) assms(5) w(4) run]) (simp add: p(2) w(6))
  then have second: "executeAiActivity opts d input ?st = (Inr x, st5\<lparr>st_log := st_log st5 @ [A_end]\<rparr>)"
    using p(1) run by (simp add: execution_split observed_def abind_def log_event_def)
  have "silent.keeps (preparation opts d input)" by (rule silent.keeps_preparation) (simp add: not_provider_def)
  then have "appends not_provider ?st st3" using p(1) by (auto dest: silent.keepsD)
  then have "A_provider q \<notin> set (st_log st3)" for q using silent_provider by fastforce
  then have "A_provider q \<notin> set (st_log st5)" for q using served silent_provider by fastforce
  then show ?thesis using second served p(2) by (auto simp: unwritten_def)
qed

lemma second_run_served_witness:
  "\<exists>st1 st2. executeAiActivity demo_options demo_activity demo_input \<lparr>st_log = [], st_store = empty_store\<rparr>
      = (Inr (JObj [(''title'', JStr ''T'')]), st1)
    \<and> executeAiActivity demo_options demo_activity demo_input \<lparr>st_log = [], st_store = st_store st1\<rparr>
      = (Inr (JObj [(''title'', JStr ''T'')]), st2)
    \<and> (\<forall>q. A_provider q \<notin> set (st_log st2)) \<and> st_store st2 = st_store st1"
proof -
  obtain st1 key rec where w: "executeAiActivity demo_options demo_activity demo_input
      \<lparr>st_log = [], st_store = empty_store\<rparr> = (Inr (JObj [(''title'', JStr ''T'')]), st1)"
    "A_cache_set key rec \<in> set (st_log st1)" by (rule demo_written)
  have store: "op_cacheStore demo_options = Some (memory_ops demo_sha)" by (simp add: demo_options_def)
  from first_stored [OF store_inv_empty store w] have "finalizes demo_options demo_activity
      (parsed_input demo_options demo_activity demo_input) (cr_output rec) (JObj [(''title'', JStr ''T'')])" by blast
  then have "cr_output rec = JObj [(''title'', JStr ''T'')]"
    by (auto simp: finalizes_def finalizeOutput_def applyModeration_def demo_activity_def abind_def ret_def)
  then have parsed: "parse_output demo_options demo_activity (cr_output rec) = Inr (cr_output rec)" by (simp add: demo_title_parses)
  have "answers_by_arguments demo_options demo_activity"
    by (auto simp: answers_by_arguments_def demo_options_def demo_activity_def demo_check_def fun_eq_iff)
  from second_run_served [OF store_inv_empty store _ _ this w parsed] w show ?thesis
    by (auto simp: demo_options_def demo_activity_def reads_bypassed_def)
qed

end
