(* ===== verification/Policy_Merge.thy ===== *)
theory Policy_Merge
  imports Canonical_Unique
begin

text \<open>
  Composition of project policies (\<open>packages/typescript/yaml/src/policy-composition.ts\<close>): dropping the
  unset parts of a policy document, the recursive merge with its rules by field name, and the composed
  policy with its hash. Policy documents are objects as the schema of \<open>policy.ts\<close> leaves them; SHA-256
  is a parameter.
\<close>

section \<open>Fields with a rule of their own\<close>

definition ALLOWLIST_FIELD_NAMES :: "string list" where
  "ALLOWLIST_FIELD_NAMES =
     [''allowed_addresses'', ''allowed_backends'', ''allowed_hosts'', ''allowed_media_types'',
      ''allowed_module_roots'', ''allowed_namespaces'', ''allowed_regions'', ''allowed_sources'',
      ''base_urls'', ''models'']"

definition RISK_TIER_ORDER :: "string list" where
  "RISK_TIER_ORDER = [''safe'', ''policy_gated'', ''human_gated'', ''prohibited'']"

definition MOST_RESTRICTIVE_ORDERED_ENUM :: "(string \<times> string list) list" where
  "MOST_RESTRICTIVE_ORDERED_ENUM = [(''min_tier'', RISK_TIER_ORDER)]"

datatype direction = Take_min | Take_max

definition MOST_RESTRICTIVE_NUMERIC :: "(string \<times> direction) list" where
  "MOST_RESTRICTIVE_NUMERIC =
     [(''max_bytes'', Take_min), (''max_concurrent'', Take_min), (''min_interval_seconds'', Take_max),
      (''score_threshold'', Take_min), (''max_steps'', Take_min), (''max_total_steps'', Take_min),
      (''max_parallel_width'', Take_min), (''max_parallel_nesting'', Take_min),
      (''max_subworkflow_depth'', Take_min)]"

text \<open>\<open>path.slice(path.lastIndexOf(".") + 1)\<close>, \<open>startsWith\<close> and \<open>endsWith\<close>\<close>

definition lastSegment :: "string \<Rightarrow> string" where
  "lastSegment path = rev (takeWhile (\<lambda>c. c \<noteq> CHR ''.'') (rev path))"

definition startsWith :: "string \<Rightarrow> string \<Rightarrow> bool" where
  "startsWith s p \<longleftrightarrow> take (length p) s = p"

definition endsWith :: "string \<Rightarrow> string \<Rightarrow> bool" where
  "endsWith s p \<longleftrightarrow> length p \<le> length s \<and> drop (length s - length p) s = p"

fun isEmptyRecord :: "jv \<Rightarrow> bool" where
  "isEmptyRecord (JObj []) = True"
| "isEmptyRecord _ = False"

fun isEmptyArray :: "jv \<Rightarrow> bool" where
  "isEmptyArray (JArr []) = True"
| "isEmptyArray _ = False"

section \<open>Dropping what is not set\<close>

definition preserveEmptyMapping :: "string list \<Rightarrow> bool" where
  "preserveEmptyMapping path \<longleftrightarrow>
     (length path = 2 \<or> length path = 3) \<and> path ! 0 = ''providers'' \<and> path ! 1 = ''allowed''
     \<or> path \<noteq> [] \<and> last path = ''constrain_providers''
     \<or> length path \<ge> 2 \<and> path ! (length path - 2) = ''constrain_providers''"

definition preserveEmptyAllowlist :: "string list \<Rightarrow> bool" where
  "preserveEmptyAllowlist path \<longleftrightarrow> path \<noteq> [] \<and> last path \<in> set ALLOWLIST_FIELD_NAMES"

definition preserveEmptyValue :: "string list \<Rightarrow> jv \<Rightarrow> bool" where
  "preserveEmptyValue path v \<longleftrightarrow>
     (if isEmptyRecord v then preserveEmptyMapping path
      else if isEmptyArray v then preserveEmptyAllowlist path else False)"

definition kept_value :: "string list \<Rightarrow> jv \<Rightarrow> bool" where
  "kept_value path v \<longleftrightarrow> \<not> (v = JNull \<or> isEmptyRecord v \<or> isEmptyArray v) \<or> preserveEmptyValue path v"

function dropEmpty :: "string list \<Rightarrow> jv \<Rightarrow> jv" where
  "dropEmpty path (JObj kvs) =
     JObj (filter (\<lambda>(k, v). kept_value (path @ [k]) v) (map (\<lambda>(k, v). (k, dropEmpty (path @ [k]) v)) kvs))"
| "dropEmpty path (JArr xs) = JArr (map (dropEmpty path) (filter (\<lambda>x. x \<noteq> JNull) xs))"
| "dropEmpty path JNull = JNull"
| "dropEmpty path (JBool b) = JBool b"
| "dropEmpty path (JNum n) = JNum n"
| "dropEmpty path (JStr s) = JStr s"
  by pat_completeness auto

termination
  by (relation "measure (\<lambda>(_, v). size v)") (auto simp: jv_field_size le_imp_less_Suc size_elem_le)

section \<open>Lists\<close>

definition same_value :: "jv \<Rightarrow> jv \<Rightarrow> bool" where
  "same_value a b \<longleftrightarrow> strict_eq a b \<or> canonicalJson a = canonicalJson b"

definition dedupe :: "jv list \<Rightarrow> jv list" where
  "dedupe values = foldl (\<lambda>out v. if list_ex (\<lambda>existing. same_value existing v) out then out else out @ [v]) [] values"

text \<open>The sort key, strings before other values, and the stable sort by it.\<close>

fun allowlist_key :: "jv \<Rightarrow> nat \<times> string" where
  "allowlist_key (JStr s) = (0, s)"
| "allowlist_key v = (1, canonicalJson v)"

definition key_le :: "jv \<Rightarrow> jv \<Rightarrow> bool" where
  "key_le a b \<longleftrightarrow> (let (i, s) = allowlist_key a; (j, t) = allowlist_key b
     in i < j \<or> i = j \<and> str_le s t)"

fun insert_value :: "jv \<Rightarrow> jv list \<Rightarrow> jv list" where
  "insert_value x [] = [x]"
| "insert_value x (y # ys) = (if key_le x y then x # y # ys else y # insert_value x ys)"

definition sort_values :: "jv list \<Rightarrow> jv list" where
  "sort_values xs = foldr insert_value xs []"

definition sortedAllowlist :: "jv list \<Rightarrow> jv list" where
  "sortedAllowlist values = sort_values (dedupe values)"

datatype policy_error =
    No_overlapping_values string
  | No_overlapping_keys string
  | Conflicting_values string jv jv
  | No_policy_selected
  | Empty_closure

definition intersectAllowlist :: "jv list \<Rightarrow> jv list \<Rightarrow> string \<Rightarrow> (policy_error, jv list) result" where
  "intersectAllowlist left right path =
     (if left = [] \<or> right = [] then Inr []
      else let effective = filter (\<lambda>v. list_ex (\<lambda>l. same_value l v) left) right
           in if effective = [] then Inl (No_overlapping_values path) else Inr (sortedAllowlist effective))"

section \<open>Scalars\<close>

definition isRealNumber :: "jsnum \<Rightarrow> bool" where
  "isRealNumber n \<longleftrightarrow> n \<notin> {NaN, PosInf, NegInf}"

definition js_min :: "jsnum \<Rightarrow> jsnum \<Rightarrow> jsnum" where
  "js_min a b = (if num_lt b a then b else if num_lt a b then a else if a = NegZero then a else b)"

definition js_max :: "jsnum \<Rightarrow> jsnum \<Rightarrow> jsnum" where
  "js_max a b = (if num_lt a b then b else if num_lt b a then a else if a = NegZero then b else a)"

definition mergeNumeric :: "jv \<Rightarrow> jv \<Rightarrow> string \<Rightarrow> jv option" where
  "mergeNumeric left right path =
     (case (map_of MOST_RESTRICTIVE_NUMERIC (lastSegment path), left, right) of
        (Some d, JNum a, JNum b) \<Rightarrow>
          if isRealNumber a \<and> isRealNumber b
          then Some (JNum (case d of Take_min \<Rightarrow> js_min a b | Take_max \<Rightarrow> js_max a b))
          else None
      | _ \<Rightarrow> None)"

definition requirement_field :: "string \<Rightarrow> bool" where
  "requirement_field field \<longleftrightarrow>
     field = ''required'' \<or> startsWith field ''require_'' \<or> endsWith field ''_required''"

definition allowance_field :: "string \<Rightarrow> bool" where
  "allowance_field field \<longleftrightarrow>
     startsWith field ''allow_'' \<or> field = ''retry_rate_limits'' \<or> field = ''retry_transient_errors''"

definition mergeBool :: "bool \<Rightarrow> bool \<Rightarrow> string \<Rightarrow> bool option" where
  "mergeBool left right path =
     (let field = lastSegment path
      in if requirement_field field then Some (left \<or> right)
         else if allowance_field field then Some (left \<and> right) else None)"

fun index_of :: "string list \<Rightarrow> string \<Rightarrow> nat option" where
  "index_of [] s = None"
| "index_of (x # xs) s = (if x = s then Some 0 else map_option Suc (index_of xs s))"

definition mergeOrderedEnum :: "jv \<Rightarrow> jv \<Rightarrow> string \<Rightarrow> jv option" where
  "mergeOrderedEnum left right path =
     (case (map_of MOST_RESTRICTIVE_ORDERED_ENUM (lastSegment path), left, right) of
        (Some order, JStr a, JStr b) \<Rightarrow>
          (case (index_of order a, index_of order b) of
             (Some i, Some j) \<Rightarrow> Some (if i \<ge> j then JStr a else JStr b)
           | _ \<Rightarrow> None)
      | _ \<Rightarrow> None)"

definition merge_scalar :: "jv \<Rightarrow> jv \<Rightarrow> string \<Rightarrow> (policy_error, jv) result" where
  "merge_scalar left right path =
     (case (case (left, right) of (JBool a, JBool b) \<Rightarrow> map_option JBool (mergeBool a b path) | _ \<Rightarrow> None) of
        Some v \<Rightarrow> Inr v
      | None \<Rightarrow>
          (case mergeNumeric left right path of
             Some v \<Rightarrow> Inr v
           | None \<Rightarrow>
               (case mergeOrderedEnum left right path of
                  Some v \<Rightarrow> Inr v
                | None \<Rightarrow>
                    if strict_eq left right then Inr left else Inl (Conflicting_values path left right))))"

section \<open>The merge\<close>

definition mapping_allowlist_path :: "string \<Rightarrow> bool" where
  "mapping_allowlist_path path \<longleftrightarrow>
     endsWith path ''providers.allowed'' \<or> lastSegment path = ''constrain_providers''"

text \<open>
  \<open>mergePolicyPayloads\<close> iterates over the entries of the right object and \<open>intersectMappingAllowlist\<close> over
  the keys of the right one that the left one has; both assign into an object built so far.
\<close>

function (sequential) mergePolicyValue :: "jv \<Rightarrow> jv \<Rightarrow> string \<Rightarrow> (policy_error, jv) result"
  and mergePolicyPayloads ::
    "(string \<times> jv) list \<Rightarrow> (string \<times> jv) list \<Rightarrow> string \<Rightarrow> (policy_error, (string \<times> jv) list) result"
  and intersect_entries ::
    "(string \<times> jv) list \<Rightarrow> (string \<times> jv) list \<Rightarrow> string \<Rightarrow> (string \<times> jv) list
     \<Rightarrow> (policy_error, (string \<times> jv) list) result" where
  "mergePolicyValue (JObj left) (JObj right) path =
     (if mapping_allowlist_path path
      then if left = [] \<or> right = [] then Inr (JObj [])
           else if filter (\<lambda>(k, v). k \<in> fst ` set left) right = [] then Inl (No_overlapping_keys path)
           else rbind (intersect_entries left right path []) (\<lambda>kvs. Inr (JObj kvs))
      else rbind (mergePolicyPayloads left right path) (\<lambda>kvs. Inr (JObj kvs)))"
| "mergePolicyValue (JArr left) (JArr right) path =
     (if lastSegment path \<in> set ALLOWLIST_FIELD_NAMES
      then rbind (intersectAllowlist left right path) (\<lambda>xs. Inr (JArr xs))
      else Inr (JArr (dedupe (left @ right))))"
| "mergePolicyValue left right path = merge_scalar left right path"
| "mergePolicyPayloads merged [] path = Inr merged"
| "mergePolicyPayloads merged ((key, v) # rest) path =
     rbind (case map_of merged key of
              None \<Rightarrow> Inr v | Some old \<Rightarrow> mergePolicyValue old v (path @ ''.'' @ key))
       (\<lambda>new. mergePolicyPayloads (obj_put key new merged) rest path)"
| "intersect_entries left [] path out = Inr out"
| "intersect_entries left ((key, v) # rest) path out =
     (case map_of left key of
        None \<Rightarrow> intersect_entries left rest path out
      | Some old \<Rightarrow>
          rbind (mergePolicyValue old v (path @ ''.'' @ key))
            (\<lambda>new. intersect_entries left rest path (obj_put key new out)))"
  by pat_completeness auto

termination
  by (relation "measure (\<lambda>x. case x of
        Inl (_, right, _) \<Rightarrow> size right
      | Inr (Inl (_, right, _)) \<Rightarrow> size_list (size_prod (\<lambda>_. 0) size) right
      | Inr (Inr (_, right, _, _)) \<Rightarrow> size_list (size_prod (\<lambda>_. 0) size) right)") auto

section \<open>Composition\<close>

record applied_policy =
  ap_id :: string
  ap_name :: string
  ap_blocks :: "(string \<times> jv) list"

text \<open>\<open>policyConstraints\<close>: the document without \<open>version\<close>, \<open>name\<close>, \<open>description\<close> and \<open>extends\<close>.\<close>

definition policyConstraints :: "applied_policy \<Rightarrow> (string \<times> jv) list" where
  "policyConstraints p = obj_fields (dropEmpty []
     (JObj (filter (\<lambda>(k, v). k \<notin> {''version'', ''name'', ''description'', ''extends''}) (ap_blocks p))))"

record composed_policy =
  cp_selectedPolicyIds :: "string list"
  cp_appliedPolicyIds :: "string list"
  cp_policyNames :: "string list"
  cp_policyHash :: string
  cp_payload :: "(string \<times> jv) list"

text \<open>\<open>[...new Set(ids)].sort()\<close> on a list of strings.\<close>

fun string_items :: "jv list \<Rightarrow> string list" where
  "string_items [] = []"
| "string_items (JStr s # xs) = s # string_items xs"
| "string_items (_ # xs) = string_items xs"

definition canonical_ids :: "jv \<Rightarrow> jv" where
  "canonical_ids v = (case v of JArr xs \<Rightarrow> JArr (map JStr (sort_strings (remdups (string_items xs)))) | _ \<Rightarrow> v)"

definition canonicalHashPayload :: "(string \<times> jv) list \<Rightarrow> (string \<times> jv) list" where
  "canonicalHashPayload payload =
     map (\<lambda>(k, v). (k, if k \<in> {''selected_policy_ids'', ''applied_policy_ids'', ''policy_names''}
                       then canonical_ids v else v)) payload"

definition policyHash :: "(string \<Rightarrow> string) \<Rightarrow> (string \<times> jv) list \<Rightarrow> string" where
  "policyHash sha payload = sha (canonicalJson (JObj (canonicalHashPayload payload)))"

fun merge_applied :: "(string \<times> jv) list \<Rightarrow> applied_policy list \<Rightarrow> (policy_error, (string \<times> jv) list) result" where
  "merge_applied merged [] = Inr merged"
| "merge_applied merged (p # ps) =
     rbind (mergePolicyPayloads merged (policyConstraints p) (ap_id p)) (\<lambda>m. merge_applied m ps)"

definition effective_payload :: "string list \<Rightarrow> applied_policy list \<Rightarrow> (string \<times> jv) list \<Rightarrow> (string \<times> jv) list" where
  "effective_payload selected applied merged = obj_fields (dropEmpty [] (JObj (obj_assign
     [(''version'', JStr ''1''), (''selected_policy_ids'', JArr (map JStr selected)),
      (''applied_policy_ids'', JArr (map (JStr \<circ> ap_id) applied)),
      (''policy_names'', JArr (map (JStr \<circ> ap_name) applied))] merged)))"

definition composeProjectPolicies ::
    "(string \<Rightarrow> string) \<Rightarrow> applied_policy list \<Rightarrow> string list \<Rightarrow> (policy_error, composed_policy) result" where
  "composeProjectPolicies sha applied selected =
     (if selected = [] then Inl No_policy_selected
      else if applied = [] then Inl Empty_closure
      else rbind (merge_applied [] applied) (\<lambda>merged.
        let payload = effective_payload selected applied merged
        in Inr \<lparr>cp_selectedPolicyIds = selected, cp_appliedPolicyIds = map ap_id applied,
                cp_policyNames = map ap_name applied, cp_policyHash = policyHash sha payload,
                cp_payload = payload\<rparr>))"

end
