(* ===== verification/Policy_Merge_Facts.thy ===== *)
theory Policy_Merge_Facts
  imports Policy_Merge
begin

text \<open>
  What the policy merge does to a policy: the specification \<open>stricter path a b\<close>, \<open>b\<close> is at least as
  restrictive as \<open>a\<close> by the rule of the field at \<open>path\<close>, and the proof that a merge is at least as strict
  as both of its arguments.
\<close>

section \<open>Order of numbers\<close>

fun num_rank :: "jsnum \<Rightarrow> int \<times> rat" where
  "num_rank PosInf = (1, 0)"
| "num_rank NegInf = (- 1, 0)"
| "num_rank n = (0, case num_val n of Some v \<Rightarrow> v | None \<Rightarrow> 0)"

lemma num_lt_rank:
  "num_lt x y \<longleftrightarrow> x \<noteq> NaN \<and> y \<noteq> NaN \<and>
     (fst (num_rank x) < fst (num_rank y)
      \<or> fst (num_rank x) = fst (num_rank y) \<and> snd (num_rank x) < snd (num_rank y))"
  by (cases x; cases y) (simp_all add: Let_def)

lemma num_eq_rank: "num_eq x y \<longleftrightarrow> x \<noteq> NaN \<and> y \<noteq> NaN \<and> num_rank x = num_rank y"
  by (cases x; cases y) (simp_all add: Let_def)

lemma num_le_rank:
  "num_le x y \<longleftrightarrow> x \<noteq> NaN \<and> y \<noteq> NaN \<and>
     (fst (num_rank x) < fst (num_rank y)
      \<or> fst (num_rank x) = fst (num_rank y) \<and> snd (num_rank x) \<le> snd (num_rank y))"
  unfolding num_le_def num_lt_rank num_eq_rank by (auto simp: prod_eq_iff)

lemma num_le_trans: "num_le x y \<Longrightarrow> num_le y z \<Longrightarrow> num_le x z"
  by (auto simp: num_le_rank)

lemma num_le_lt_trans: "num_le x y \<Longrightarrow> num_lt y z \<Longrightarrow> num_lt x z"
  by (auto simp: num_le_rank num_lt_rank)

lemma js_min_le: "isRealNumber a \<Longrightarrow> isRealNumber b \<Longrightarrow> num_le (js_min a b) a \<and> num_le (js_min a b) b"
  by (auto simp: js_min_def isRealNumber_def num_le_rank num_lt_rank)

lemma js_max_ge: "isRealNumber a \<Longrightarrow> isRealNumber b \<Longrightarrow> num_le a (js_max a b) \<and> num_le b (js_max a b)"
  by (auto simp: js_max_def isRealNumber_def num_le_rank num_lt_rank)

lemma js_min_cases: "js_min a b = a \<or> js_min a b = b"
  by (simp add: js_min_def)

lemma js_max_cases: "js_max a b = a \<or> js_max a b = b"
  by (simp add: js_max_def)

section \<open>Strictness of values\<close>

definition texts :: "jv list \<Rightarrow> string set" where
  "texts xs = {s. JStr s \<in> set xs}"

definition bool_stricter :: "string \<Rightarrow> bool \<Rightarrow> bool \<Rightarrow> bool" where
  "bool_stricter f a b \<longleftrightarrow>
     (if requirement_field f then a \<longrightarrow> b else if allowance_field f then b \<longrightarrow> a else a = b)"

definition num_stricter :: "string \<Rightarrow> jsnum \<Rightarrow> jsnum \<Rightarrow> bool" where
  "num_stricter f a b \<longleftrightarrow> a = b \<or>
     (case map_of MOST_RESTRICTIVE_NUMERIC f of
        Some Take_min \<Rightarrow> num_le b a | Some Take_max \<Rightarrow> num_le a b | None \<Rightarrow> num_eq a b)"

definition text_stricter :: "string \<Rightarrow> string \<Rightarrow> string \<Rightarrow> bool" where
  "text_stricter f s t \<longleftrightarrow> s = t \<or>
     (\<exists>order i j. map_of MOST_RESTRICTIVE_ORDERED_ENUM f = Some order
        \<and> index_of order s = Some i \<and> index_of order t = Some j \<and> i \<le> j)"

definition list_stricter :: "string \<Rightarrow> jv list \<Rightarrow> jv list \<Rightarrow> bool" where
  "list_stricter f xs ys \<longleftrightarrow>
     (if f \<in> set ALLOWLIST_FIELD_NAMES then texts ys \<subseteq> texts xs else texts xs \<subseteq> texts ys)"

text \<open>
  A mapping allow-list is stricter when it has fewer keys, any other object when it keeps every field.
\<close>

inductive stricter :: "string \<Rightarrow> jv \<Rightarrow> jv \<Rightarrow> bool" where
  st_null: "stricter p JNull JNull"
| st_bool: "bool_stricter (lastSegment p) a b \<Longrightarrow> stricter p (JBool a) (JBool b)"
| st_num: "num_stricter (lastSegment p) a b \<Longrightarrow> stricter p (JNum a) (JNum b)"
| st_text: "text_stricter (lastSegment p) s t \<Longrightarrow> stricter p (JStr s) (JStr t)"
| st_list: "list_stricter (lastSegment p) xs ys \<Longrightarrow> stricter p (JArr xs) (JArr ys)"
| st_mapping: "mapping_allowlist_path p \<Longrightarrow>
    (\<And>k w. map_of m k = Some w \<Longrightarrow> \<exists>v. map_of l k = Some v \<and> stricter (p @ ''.'' @ k) v w) \<Longrightarrow>
    stricter p (JObj l) (JObj m)"
| st_fields: "\<not> mapping_allowlist_path p \<Longrightarrow>
    (\<And>k v. map_of l k = Some v \<Longrightarrow> \<exists>w. map_of m k = Some w \<and> stricter (p @ ''.'' @ k) v w) \<Longrightarrow>
    stricter p (JObj l) (JObj m)"

inductive_simps stricter_simps [simp]:
  "stricter p JNull x"
  "stricter p (JBool a) x"
  "stricter p (JNum n) x"
  "stricter p (JStr s) x"
  "stricter p (JArr xs) x"

inductive_cases stricter_objE: "stricter p (JObj l) x"

definition payload_stricter :: "(string \<times> jv) list \<Rightarrow> (string \<times> jv) list \<Rightarrow> bool" where
  "payload_stricter l m \<longleftrightarrow> (\<forall>k v. map_of l k = Some v \<longrightarrow> (\<exists>w. map_of m k = Some w \<and> stricter k v w))"

lemma stricter_refl: "stricter p v v"
proof (induction v arbitrary: p)
  case (JObj kvs)
  have "\<exists>w. map_of kvs k = Some w \<and> stricter (p @ ''.'' @ k) v w" if "map_of kvs k = Some v" for k v
    using JObj [of "(k, v)" v] that by (auto dest: map_of_SomeD simp: snds.simps)
  then show ?case by (cases "mapping_allowlist_path p") (auto intro: st_mapping st_fields)
qed (auto simp: bool_stricter_def num_stricter_def text_stricter_def list_stricter_def)

lemma num_stricter_trans: "num_stricter f a b \<Longrightarrow> num_stricter f b c \<Longrightarrow> num_stricter f a c"
  by (auto simp: num_stricter_def num_eq_rank split: option.splits direction.splits intro: num_le_trans)

lemma text_stricter_trans: "text_stricter f a b \<Longrightarrow> text_stricter f b c \<Longrightarrow> text_stricter f a c"
  unfolding text_stricter_def by (elim disjE exE conjE) (auto intro: le_trans)

lemma stricter_trans: "stricter p a b \<Longrightarrow> stricter p b c \<Longrightarrow> stricter p a c"
proof (induction arbitrary: c rule: stricter.induct)
  case (st_mapping p m l)
  from st_mapping.prems st_mapping.hyps obtain n where c: "c = JObj n"
    and n: "\<And>k w. map_of n k = Some w \<Longrightarrow> \<exists>v. map_of m k = Some v \<and> stricter (p @ ''.'' @ k) v w"
    by (auto elim: stricter_objE)
  have "\<exists>v. map_of l k = Some v \<and> stricter (p @ ''.'' @ k) v w" if "map_of n k = Some w" for k w
    using n [OF that] st_mapping.IH by blast
  with c st_mapping.hyps show ?case by (auto intro: stricter.st_mapping)
next
  case (st_fields p l m)
  from st_fields.prems st_fields.hyps obtain n where c: "c = JObj n"
    and n: "\<And>k v. map_of m k = Some v \<Longrightarrow> \<exists>w. map_of n k = Some w \<and> stricter (p @ ''.'' @ k) v w"
    by (auto elim: stricter_objE)
  have "\<exists>w. map_of n k = Some w \<and> stricter (p @ ''.'' @ k) v w" if "map_of l k = Some v" for k v
    using st_fields.IH [OF that] n by blast
  with c st_fields.hyps show ?case by (auto intro: stricter.st_fields)
qed (auto simp: bool_stricter_def list_stricter_def split: if_splits intro: num_stricter_trans text_stricter_trans)

section \<open>Field rules along a path\<close>

lemma lastSegment_step [simp]: "lastSegment (p @ CHR ''.'' # k) = lastSegment k"
proof (cases "CHR ''.'' \<in> set k")
  case True
  then show ?thesis by (simp add: lastSegment_def takeWhile_append1 [of "CHR ''.''"])
next
  case False
  then have "takeWhile (\<lambda>c. c \<noteq> CHR ''.'') (rev k) = rev k" by (auto simp: takeWhile_eq_all_conv)
  moreover from False have "takeWhile (\<lambda>c. c \<noteq> CHR ''.'') (rev k @ CHR ''.'' # rev p) = rev k"
    by (subst takeWhile_append2) auto
  ultimately show ?thesis by (simp only: lastSegment_def rev_append rev.simps append.simps append_assoc)
qed

lemma endsWith_append [simp]: "endsWith (p @ s) s"
  by (simp add: endsWith_def)

lemma endsWith_iff: "endsWith s e \<longleftrightarrow> (\<exists>u. s = u @ e)"
proof
  assume "endsWith s e"
  then have "s = take (length s - length e) s @ e"
    unfolding endsWith_def by (metis append_take_drop_id)
  then show "\<exists>u. s = u @ e" by blast
qed auto

lemma endsWith_Cons_iff:
  "endsWith (p @ c # k) e \<longleftrightarrow> endsWith k e \<or> (\<exists>u. e = u @ c # k \<and> endsWith p u)"
proof
  assume "endsWith (p @ c # k) e"
  then obtain u where "p @ c # k = u @ e" by (auto simp: endsWith_iff)
  then obtain us where "p = u @ us \<and> us @ c # k = e \<or> p @ us = u \<and> c # k = us @ e"
    by (auto simp: append_eq_append_conv2)
  then consider (inside) us where "p = u @ us" "e = us @ c # k" | (below) vs where "k = vs @ e"
    by (cases us) (metis append_Nil append_Nil2, metis append_Cons list.inject)
  then show "endsWith k e \<or> (\<exists>u. e = u @ c # k \<and> endsWith p u)"
    by cases (unfold endsWith_iff, blast+)
next
  assume "endsWith k e \<or> (\<exists>u. e = u @ c # k \<and> endsWith p u)"
  then show "endsWith (p @ c # k) e"
  proof
    assume "endsWith k e"
    then obtain v where "k = v @ e" by (auto simp: endsWith_iff)
    then have "p @ c # k = (p @ c # v) @ e" by simp
    then show ?thesis unfolding endsWith_iff by blast
  next
    assume "\<exists>u. e = u @ c # k \<and> endsWith p u"
    then obtain u v where "e = u @ c # k" "p = v @ u" by (auto simp: endsWith_iff)
    then have "p @ c # k = v @ e" by simp
    then show ?thesis unfolding endsWith_iff by blast
  qed
qed

lemma endsWith_step_whole:
  assumes "c \<notin> set e"
  shows "endsWith (p @ c # k) e \<longleftrightarrow> endsWith k e"
  using assms by (auto simp: endsWith_Cons_iff)

lemma endsWith_step_split:
  assumes "c \<notin> set a" and "c \<notin> set b"
  shows "endsWith (p @ c # k) (a @ c # b) \<longleftrightarrow> endsWith k (a @ c # b) \<or> k = b \<and> endsWith p a"
proof -
  have "a @ c # b = u @ c # k \<longleftrightarrow> a = u \<and> b = k" for u
    using assms by (rule append_Cons_eq_iff)
  then show ?thesis by (auto simp: endsWith_Cons_iff)
qed

lemma endsWith_providers_step: "endsWith (p @ CHR ''.'' # k) ''providers'' \<longleftrightarrow> endsWith k ''providers''"
  by (rule endsWith_step_whole) simp

lemma endsWith_allowed_step:
  "endsWith (p @ CHR ''.'' # k) ''providers.allowed'' \<longleftrightarrow>
     endsWith k ''providers.allowed'' \<or> k = ''allowed'' \<and> endsWith p ''providers''"
  using endsWith_step_split [of "CHR ''.''" "''providers''" "''allowed''" p k] by simp

lemma mapping_path_step:
  "mapping_allowlist_path (p @ CHR ''.'' # k) \<longleftrightarrow>
     mapping_allowlist_path k \<or> k = ''allowed'' \<and> endsWith p ''providers''"
  by (auto simp: mapping_allowlist_path_def endsWith_allowed_step)

text \<open>Two paths have the same rules: for the value there and for every value below.\<close>

definition same_rules :: "string \<Rightarrow> string \<Rightarrow> bool" where
  "same_rules p q \<longleftrightarrow> lastSegment p = lastSegment q \<and> mapping_allowlist_path p = mapping_allowlist_path q
     \<and> endsWith p ''providers'' = endsWith q ''providers''"

lemma same_rules_step: "same_rules p q \<Longrightarrow> same_rules (p @ CHR ''.'' # k) (q @ CHR ''.'' # k)"
  by (simp add: same_rules_def mapping_path_step endsWith_providers_step)

lemma same_rules_root: "k \<noteq> ''allowed'' \<Longrightarrow> same_rules (p @ CHR ''.'' # k) k"
  by (simp add: same_rules_def mapping_path_step endsWith_providers_step)

lemma stricter_same_rules: "stricter p a b \<Longrightarrow> same_rules p q \<Longrightarrow> stricter q a b"
proof (induction arbitrary: q rule: stricter.induct)
  case (st_mapping p m l)
  have "\<exists>v. map_of l k = Some v \<and> stricter (q @ ''.'' @ k) v w" if "map_of m k = Some w" for k w
    using st_mapping.IH [OF that] same_rules_step [OF st_mapping.prems] by auto
  with st_mapping show ?case by (auto simp: same_rules_def intro: stricter.st_mapping)
next
  case (st_fields p l m)
  have "\<exists>w. map_of m k = Some w \<and> stricter (q @ ''.'' @ k) v w" if "map_of l k = Some v" for k v
    using st_fields.IH [OF that] same_rules_step [OF st_fields.prems] by auto
  with st_fields show ?case by (auto simp: same_rules_def intro: stricter.st_fields)
qed (auto simp: same_rules_def)

section \<open>Lists\<close>

lemma json_value_text: "json_value v = JStr s \<longleftrightarrow> v = JStr s"
  by (cases v) auto

lemma same_value_text:
  assumes "wf_jv v"
  shows "same_value v (JStr s) \<longleftrightarrow> v = JStr s"
proof -
  have "canonicalJson v = canonicalJson (JStr s) \<longleftrightarrow> v = JStr s"
    using canonical_eq_iff [OF assms, of "JStr s"] by (simp add: json_value_text)
  then show ?thesis by (cases v) (auto simp: same_value_def)
qed

lemma set_dedupe_subset: "set (dedupe xs) \<subseteq> set xs"
proof -
  have "set (foldl (\<lambda>out v. if list_ex (\<lambda>e. same_value e v) out then out else out @ [v]) acc xs) \<subseteq> set acc \<union> set xs"
    for acc
  proof (induction xs arbitrary: acc)
    case (Cons x xs)
    from Cons [of acc] Cons [of "acc @ [x]"] show ?case by auto
  qed simp
  from this [of "[]"] show ?thesis by (simp add: dedupe_def)
qed

lemma texts_dedupe:
  assumes "\<forall>x\<in>set xs. wf_jv x"
  shows "texts (dedupe xs) = texts xs"
proof -
  have "texts (foldl (\<lambda>out v. if list_ex (\<lambda>e. same_value e v) out then out else out @ [v]) acc xs)
        = texts acc \<union> texts xs" if "\<forall>x\<in>set acc. wf_jv x" for acc
    using assms that
  proof (induction xs arbitrary: acc)
    case Nil
    then show ?case by (simp add: texts_def)
  next
    case (Cons x xs)
    show ?case
    proof (cases "list_ex (\<lambda>e. same_value e x) acc")
      case True
      with Cons.prems(2) have "texts [x] \<subseteq> texts acc"
        by (auto simp: texts_def list_ex_iff same_value_text)
      then have "texts acc \<union> texts (x # xs) = texts acc \<union> texts xs" by (auto simp: texts_def)
      with Cons True show ?thesis by simp
    next
      case False
      with Cons.IH [of "acc @ [x]"] Cons.prems show ?thesis by (auto simp: texts_def)
    qed
  qed
  from this [of "[]"] show ?thesis by (simp add: dedupe_def texts_def)
qed

lemma set_insert_value [simp]: "set (insert_value x ys) = insert x (set ys)"
  by (induction x ys rule: insert_value.induct) auto

lemma set_sort_values [simp]: "set (sort_values xs) = set xs"
  unfolding sort_values_def by (induction xs) auto

lemma intersectAllowlist_sound:
  assumes "intersectAllowlist left right p = Inr ys" and "\<forall>x\<in>set left. wf_jv x"
  shows "texts ys \<subseteq> texts left \<and> texts ys \<subseteq> texts right \<and> set ys \<subseteq> set right"
proof -
  let ?es = "filter (\<lambda>v. list_ex (\<lambda>l. same_value l v) left) right"
  from assms(1) have "set ys \<subseteq> set ?es"
    using set_dedupe_subset [of ?es]
    by (auto simp: intersectAllowlist_def sortedAllowlist_def Let_def split: if_splits)
  with assms(2) show ?thesis
    by (fastforce simp: texts_def list_ex_iff same_value_text)
qed

section \<open>The merge is an upper bound\<close>

lemma merge_scalar_stricter:
  assumes "merge_scalar a b p = Inr c" and "wf_jv a" and "wf_jv b"
  shows "stricter p a c \<and> stricter p b c \<and> wf_jv c"
proof (cases a)
  case a: (JBool x)
  from assms(1) a obtain y where b: "b = JBool y"
    by (cases b) (auto simp: merge_scalar_def mergeNumeric_def mergeOrderedEnum_def split: option.splits)
  with assms(1) a show ?thesis
    by (auto simp: merge_scalar_def mergeBool_def mergeNumeric_def mergeOrderedEnum_def bool_stricter_def
        Let_def split: option.splits if_splits)
next
  case a: (JNum x)
  from assms(1) a obtain y where b: "b = JNum y"
    by (cases b) (auto simp: merge_scalar_def mergeNumeric_def mergeOrderedEnum_def split: option.splits)
  show ?thesis
  proof (cases "mergeNumeric a b p")
    case None
    with assms a b have "c = JNum x" "num_eq x y"
      by (auto simp: merge_scalar_def mergeOrderedEnum_def split: option.splits if_splits)
    with assms(2) a b show ?thesis
      by (auto simp: num_stricter_def num_le_def num_eq_rank split: option.splits direction.splits)
  next
    case (Some v)
    with assms(1) a b obtain d where c: "c = JNum (case d of Take_min \<Rightarrow> js_min x y | Take_max \<Rightarrow> js_max x y)"
      "map_of MOST_RESTRICTIVE_NUMERIC (lastSegment p) = Some d" "isRealNumber x" "isRealNumber y"
      by (auto simp: merge_scalar_def mergeNumeric_def split: option.splits if_splits)
    moreover have "c = a \<or> c = b"
      using c(1) a b js_min_cases [of x y] js_max_cases [of x y] by (cases d) auto
    ultimately show ?thesis
      using assms(2,3) a b js_min_le [of x y] js_max_ge [of x y]
      by (cases d) (auto simp: num_stricter_def)
  qed
next
  case a: (JStr s)
  from assms(1) a obtain t where b: "b = JStr t"
    by (cases b) (auto simp: merge_scalar_def mergeNumeric_def mergeOrderedEnum_def split: option.splits)
  show ?thesis
  proof (cases "mergeOrderedEnum a b p")
    case None
    with assms(1) a b show ?thesis
      by (auto simp: merge_scalar_def mergeNumeric_def text_stricter_def split: option.splits if_splits)
  next
    case (Some v)
    then obtain order i j where "map_of MOST_RESTRICTIVE_ORDERED_ENUM (lastSegment p) = Some order"
      "index_of order s = Some i" "index_of order t = Some j" "v = (if i \<ge> j then a else b)"
      using a b by (auto simp: mergeOrderedEnum_def split: option.splits)
    moreover from Some assms(1) a b have "c = v"
      by (auto simp: merge_scalar_def mergeNumeric_def split: option.splits)
    ultimately show ?thesis using a b by (auto simp: text_stricter_def)
  qed
next
  case a: JNull
  from assms(1) a have "b = JNull \<and> c = JNull"
    by (cases b) (auto simp: merge_scalar_def mergeNumeric_def mergeOrderedEnum_def split: option.splits)
  with a show ?thesis by simp
qed (use assms(1) in \<open>auto simp: merge_scalar_def mergeNumeric_def mergeOrderedEnum_def split: option.splits if_splits\<close>)

end
