(* ===== verification/Policy_Compose.thy ===== *)
theory Policy_Compose
  imports Policy_Merge_Facts
begin

text \<open>
  Every merge of two policy values, and so every composition of policies, is at least as strict as each
  policy that went into it; and what dropping the unset parts of a policy leaves in place.
\<close>

section \<open>The merge is an upper bound\<close>

definition wf_fields :: "(string \<times> jv) list \<Rightarrow> bool" where
  "wf_fields kvs \<longleftrightarrow> wf_jv (JObj kvs)"

lemma wf_fields_simps [simp]:
  "wf_fields []"
  "wf_fields ((k, v) # kvs) \<longleftrightarrow> k \<notin> fst ` set kvs \<and> wf_jv v \<and> wf_fields kvs"
  by (auto simp: wf_fields_def)

lemma wf_jv_obj: "wf_jv (JObj kvs) \<longleftrightarrow> wf_fields kvs"
  by (simp add: wf_fields_def)

lemma wf_fields_distinct: "wf_fields kvs \<Longrightarrow> distinct (map fst kvs)"
  by (simp add: wf_fields_def)

definition covers :: "string \<Rightarrow> (string \<times> jv) list \<Rightarrow> (string \<times> jv) list \<Rightarrow> bool" where
  "covers p l m \<longleftrightarrow> (\<forall>k v. map_of l k = Some v \<longrightarrow> (\<exists>w. map_of m k = Some w \<and> stricter (p @ ''.'' @ k) v w))"

lemma wf_field: "wf_fields kvs \<Longrightarrow> map_of kvs k = Some v \<Longrightarrow> wf_jv v"
  by (auto simp: wf_fields_def dest!: map_of_SomeD)

lemma wf_fieldsI:
  "distinct (map fst kvs) \<Longrightarrow> (\<And>k v. map_of kvs k = Some v \<Longrightarrow> wf_jv v) \<Longrightarrow> wf_fields kvs"
  by (auto simp: wf_fields_def)

lemma wf_obj_put: "wf_fields kvs \<Longrightarrow> wf_jv v \<Longrightarrow> wf_fields (obj_put k v kvs)"
  by (rule wf_fieldsI) (auto simp: map_of_obj_put wf_fields_distinct wf_field simp del: map_of_eq_Some_iff split: if_splits)

lemma covers_refl [simp]: "covers p l l"
  by (auto simp: covers_def intro: stricter_refl)

lemma covers_trans: "covers p l m \<Longrightarrow> covers p m n \<Longrightarrow> covers p l n"
  unfolding covers_def by (meson stricter_trans)

text \<open>What one key of the result of \<open>intersect_entries\<close> comes from.\<close>

definition shared_from :: "string \<Rightarrow> (string \<times> jv) list \<Rightarrow> (string \<times> jv) list \<Rightarrow> string \<Rightarrow> jv \<Rightarrow> bool" where
  "shared_from p l r k w \<longleftrightarrow> (\<exists>u v. map_of l k = Some u \<and> map_of r k = Some v
     \<and> stricter (p @ ''.'' @ k) u w \<and> stricter (p @ ''.'' @ k) v w)"

lemma shared_from_later:
  "key \<notin> fst ` set rest \<Longrightarrow> shared_from p l rest k w \<Longrightarrow> shared_from p l ((key, v) # rest) k w"
  unfolding shared_from_def by (metis map_of_Cons_code(2) map_of_eq_None_iff option.distinct(1))

lemma merge_upper_bound:
  "\<lbrakk>mergePolicyValue a b p = Inr c; wf_jv a; wf_jv b\<rbrakk> \<Longrightarrow> stricter p a c \<and> stricter p b c \<and> wf_jv c"
  "\<lbrakk>mergePolicyPayloads l r p = Inr m; wf_fields l; wf_fields r\<rbrakk> \<Longrightarrow>
     wf_fields m \<and> covers p l m \<and> covers p r m"
  "\<lbrakk>intersect_entries l r p out = Inr m; wf_fields l; wf_fields r; wf_fields out\<rbrakk> \<Longrightarrow>
     wf_fields m \<and> (\<forall>k w. map_of m k = Some w \<longrightarrow> map_of out k = Some w \<or> shared_from p l r k w)"
proof (induction a b p and l r p and l r p out arbitrary: c and m and m
    rule: mergePolicyValue_mergePolicyPayloads_intersect_entries.induct)
  case (1 left right path)
  show ?case
  proof (cases "mapping_allowlist_path path")
    case False
    with 1 show ?thesis
      by (auto simp: result_simps covers_def wf_jv_obj simp del: wf_jv.simps(3) intro!: stricter.st_fields)
  next
    case True
    then obtain m where c: "c = JObj m" and m: "m = [] \<or> left \<noteq> [] \<and> right \<noteq> []
        \<and> filter (\<lambda>(k, v). k \<in> fst ` set left) right \<noteq> [] \<and> intersect_entries left right path [] = Inr m"
      using "1.prems"(1) True by (auto simp: result_simps split: if_splits)
    from m have "wf_fields m \<and> (\<forall>k w. map_of m k = Some w \<longrightarrow> shared_from path left right k w)"
      using 1 True by (auto simp: wf_jv_obj simp del: wf_jv.simps(3))
    with c True show ?thesis
      by (auto simp: shared_from_def wf_jv_obj simp del: wf_jv.simps(3) intro!: stricter.st_mapping) metis+
  qed
next
  case (2 left right path)
  show ?case
  proof (cases "lastSegment path \<in> set ALLOWLIST_FIELD_NAMES")
    case True
    with 2 intersectAllowlist_sound [of left right path] show ?thesis
      by (fastforce simp: result_simps list_stricter_def)
  next
    case False
    with 2 texts_dedupe [of "left @ right"] set_dedupe_subset [of "left @ right"] show ?thesis
      by (fastforce simp: list_stricter_def texts_def)
  qed
next
  case (5 merged key v rest path)
  show ?case
  proof (cases "map_of merged key")
    case None
    with 5 have step: "mergePolicyPayloads (obj_put key v merged) rest path = Inr m" by simp
    moreover from 5 have "wf_fields (obj_put key v merged)" "wf_fields rest" by (auto intro: wf_obj_put)
    ultimately have ih: "wf_fields m" "covers path (obj_put key v merged) m" "covers path rest m"
      using "5.IH" None by auto
    from None have "covers path merged (obj_put key v merged)"
      by (auto simp: covers_def map_of_obj_put intro: stricter_refl)
    from this ih(2) have "covers path merged m" by (rule covers_trans)
    with ih show ?thesis by (auto simp: covers_def map_of_obj_put)
  next
    case (Some old)
    with 5 obtain new where new: "mergePolicyValue old v (path @ ''.'' @ key) = Inr new"
      and step: "mergePolicyPayloads (obj_put key new merged) rest path = Inr m"
      by (auto simp: result_simps)
    from Some new 5 have strict: "stricter (path @ ''.'' @ key) old new" "stricter (path @ ''.'' @ key) v new" "wf_jv new"
      using wf_field [of merged key old] by auto
    from strict 5 have "wf_fields (obj_put key new merged)" "wf_fields rest" by (auto intro: wf_obj_put)
    with 5 step have ih: "wf_fields m" "covers path (obj_put key new merged) m" "covers path rest m" by auto
    from Some strict have "covers path merged (obj_put key new merged)"
      by (auto simp: covers_def map_of_obj_put intro: stricter_refl)
    from this ih(2) have "covers path merged m" by (rule covers_trans)
    moreover from ih(2) obtain w where "map_of m key = Some w" "stricter (path @ ''.'' @ key) new w"
      unfolding covers_def map_of_obj_put by (metis fun_upd_same)
    ultimately show ?thesis
      using ih strict(2) by (auto simp: covers_def intro: stricter_trans)
  qed
next
  case (7 left key v rest path out)
  show ?case
  proof (cases "map_of left key")
    case None
    with 7 have "wf_fields m \<and> (\<forall>k w. map_of m k = Some w \<longrightarrow> map_of out k = Some w \<or> shared_from path left rest k w)"
      by auto
    with "7.prems"(3) show ?thesis
      using shared_from_later [of key rest path left _ _ v] by (simp, blast)
  next
    case (Some old)
    with 7 obtain new where new: "mergePolicyValue old v (path @ ''.'' @ key) = Inr new"
      and step: "intersect_entries left rest path (obj_put key new out) = Inr m"
      by (auto simp: result_simps)
    from Some new 7 have strict: "stricter (path @ ''.'' @ key) old new" "stricter (path @ ''.'' @ key) v new" "wf_jv new"
      using wf_field [of left key old] by auto
    from strict 7 have "wf_fields (obj_put key new out)" by (auto intro: wf_obj_put)
    with 7 Some new step have "wf_fields m \<and>
      (\<forall>k w. map_of m k = Some w \<longrightarrow> map_of (obj_put key new out) k = Some w \<or> shared_from path left rest k w)"
      by auto
    moreover from Some strict have "shared_from path left ((key, v) # rest) key new"
      by (auto simp: shared_from_def)
    ultimately show ?thesis
      using "7.prems"(3) shared_from_later [of key rest path left _ _ v]
      by (auto simp: map_of_obj_put split: if_splits)
  qed
qed (simp_all add: merge_scalar_stricter covers_def del: stricter_simps)

section \<open>Reading a stricter policy\<close>

fun dotted :: "string \<Rightarrow> string list \<Rightarrow> string" where
  "dotted p [] = p"
| "dotted p (k # ks) = dotted (p @ ''.'' @ k) ks"

text \<open>No mapping allow-list on the way to the value.\<close>

fun plain_path :: "string \<Rightarrow> string list \<Rightarrow> bool" where
  "plain_path p [] = True"
| "plain_path p (k # ks) = (\<not> mapping_allowlist_path p \<and> plain_path (p @ ''.'' @ k) ks)"

lemma lastSegment_dotted: "lastSegment (dotted p ks) = lastSegment (last (p # ks))"
  by (induction ks arbitrary: p) auto

lemma stricter_value_at:
  "stricter p v w \<Longrightarrow> value_at v ks = Some a \<Longrightarrow> plain_path p ks \<Longrightarrow>
   \<exists>b. value_at w ks = Some b \<and> stricter (dotted p ks) a b"
proof (induction ks arbitrary: p v w)
  case (Cons k ks)
  from Cons.prems(2) obtain l u where v: "v = JObj l" and u: "map_of l k = Some u" "value_at u ks = Some a"
    by (cases v) (auto split: option.splits)
  from Cons.prems(1,3) v obtain m where m: "w = JObj m"
    "\<And>k v. map_of l k = Some v \<Longrightarrow> \<exists>w. map_of m k = Some w \<and> stricter (p @ ''.'' @ k) v w"
    by (auto elim!: stricter_objE)
  with u obtain w' where w: "w = JObj m" "map_of m k = Some w'" "stricter (p @ ''.'' @ k) u w'" by blast
  from Cons.IH [OF w(3) u(2)] Cons.prems(3) w show ?case by auto
qed simp

section \<open>Dropping what is not set\<close>

lemma dropEmpty_atom [simp]:
  "dropEmpty path v = JNull \<longleftrightarrow> v = JNull"
  "dropEmpty path v = JStr s \<longleftrightarrow> v = JStr s"
  by (cases v; simp)+

lemma texts_dropEmpty [simp]:
  "texts (map (dropEmpty path) (filter (\<lambda>x. x \<noteq> JNull) xs)) = texts xs"
proof -
  have "JStr s \<in> dropEmpty path ` {x \<in> set xs. x \<noteq> JNull}" if "JStr s \<in> set xs" for s
    using that by (intro image_eqI [of _ _ "JStr s"]) simp_all
  then show ?thesis by (auto simp: texts_def dest!: sym [of "JStr _" "dropEmpty _ _"])
qed

lemma map_of_filter_map:
  "distinct (map fst kvs) \<Longrightarrow>
   map_of (filter (\<lambda>(k, v). P k v) (map (\<lambda>(k, v). (k, f k v)) kvs)) k =
     (case map_of kvs k of None \<Rightarrow> None | Some v \<Rightarrow> if P k (f k v) then Some (f k v) else None)"
proof (induction kvs)
  case (Cons kv kvs)
  obtain j v where kv: "kv = (j, v)" by (cases kv)
  have "k = j \<Longrightarrow> map_of kvs k = None" using Cons.prems kv by (simp add: map_of_eq_None_iff)
  with Cons kv show ?case by auto
qed simp

definition dropped :: "string list \<Rightarrow> (string \<times> jv) list \<Rightarrow> (string \<times> jv) list" where
  "dropped path kvs = filter (\<lambda>(k, v). kept_value (path @ [k]) v) (map (\<lambda>(k, v). (k, dropEmpty (path @ [k]) v)) kvs)"

lemma dropEmpty_obj: "dropEmpty path (JObj kvs) = JObj (dropped path kvs)"
  by (simp add: dropped_def)

lemma map_of_dropped:
  "distinct (map fst kvs) \<Longrightarrow> map_of (dropped path kvs) k =
     (case map_of kvs k of None \<Rightarrow> None
      | Some v \<Rightarrow> if kept_value (path @ [k]) (dropEmpty (path @ [k]) v) then Some (dropEmpty (path @ [k]) v) else None)"
  unfolding dropped_def by (rule map_of_filter_map)

lemma distinct_dropped: "distinct (map fst kvs) \<Longrightarrow> distinct (map fst (dropped path kvs))"
  unfolding dropped_def
  by (induction kvs) (auto simp: image_iff)

lemma wf_dropEmpty: "wf_jv v \<Longrightarrow> wf_jv (dropEmpty path v)"
proof (induction path v rule: dropEmpty.induct)
  case (1 path kvs)
  have "wf_jv w" if "(k, w) \<in> set (dropped path kvs)" for k w
    using that 1 by (fastforce simp: dropped_def)
  with 1 distinct_dropped [of kvs path] show ?case unfolding dropEmpty_obj by auto
qed auto

lemma dropEmpty_idem: "dropEmpty path (dropEmpty path v) = dropEmpty path v"
proof (induction path v rule: dropEmpty.induct)
  case (1 path kvs)
  have "map (\<lambda>(k, v). (k, dropEmpty (path @ [k]) v)) (dropped path kvs) = dropped path kvs"
    by (rule map_idI) (use 1 in \<open>fastforce simp: dropped_def\<close>)
  then have "dropped path (dropped path kvs) = dropped path kvs"
    by (subst dropped_def) (simp add: dropped_def)
  then show ?case by (simp only: dropEmpty_obj)
next
  case (2 path xs)
  have "filter (\<lambda>x. x \<noteq> JNull) (map (dropEmpty path) (filter (\<lambda>x. x \<noteq> JNull) xs))
        = map (dropEmpty path) (filter (\<lambda>x. x \<noteq> JNull) xs)"
    by (simp add: filter_id_conv)
  with 2 show ?case by simp
qed simp_all

lemma kept_nonempty: "value_at v (k # ks) = Some a \<Longrightarrow> kept_value path v"
  by (cases v) (auto simp: kept_value_def elim: isEmptyRecord.elims split: option.splits)

lemma value_at_dropEmpty:
  "wf_jv v \<Longrightarrow> value_at v (k # ks) = Some a \<Longrightarrow>
   kept_value (path @ k # ks) (dropEmpty (path @ k # ks) a) \<Longrightarrow>
   value_at (dropEmpty path v) (k # ks) = Some (dropEmpty (path @ k # ks) a)"
proof (induction ks arbitrary: path v k)
  case Nil
  then show ?case
    by (cases v) (auto simp: dropEmpty_obj map_of_dropped simp del: dropEmpty.simps(1) map_of_eq_Some_iff
        split: option.splits)
next
  case (Cons j ks)
  from Cons.prems(2) obtain l u where v: "v = JObj l" and u: "map_of l k = Some u" "value_at u (j # ks) = Some a"
    by (cases v) (auto split: option.splits)
  from v u Cons.prems(1) have wf: "wf_jv u" "distinct (map fst l)" by (auto dest!: map_of_SomeD)
  with Cons.IH [of u j "path @ [k]"] u Cons.prems(3)
  have ih: "value_at (dropEmpty (path @ [k]) u) (j # ks) = Some (dropEmpty (path @ k # j # ks) a)" by simp
  from kept_nonempty [OF ih] u wf v ih show ?case
    by (simp add: dropEmpty_obj map_of_dropped del: dropEmpty.simps(1))
qed

section \<open>Composition\<close>

text \<open>The sections of a policy document; the schema of \<open>policy.ts\<close> allows no other key.\<close>

definition POLICY_SECTIONS :: "string list" where
  "POLICY_SECTIONS = [''providers'', ''observability'', ''runtime'', ''artifacts'', ''review'', ''semantics'',
                      ''imports'', ''secrets'', ''composition'', ''risk_tiers'']"

definition wf_policy :: "applied_policy \<Rightarrow> bool" where
  "wf_policy p \<longleftrightarrow> wf_fields (ap_blocks p)
     \<and> fst ` set (ap_blocks p) \<subseteq> {''version'', ''name'', ''description'', ''extends''} \<union> set POLICY_SECTIONS"

definition known_sections :: "(string \<times> jv) list \<Rightarrow> bool" where
  "known_sections kvs \<longleftrightarrow> fst ` set kvs \<subseteq> set POLICY_SECTIONS"

lemma policyConstraints_dropped:
  "policyConstraints p = dropped [] (filter (\<lambda>(k, v). k \<notin> {''version'', ''name'', ''description'', ''extends''}) (ap_blocks p))"
  unfolding policyConstraints_def dropEmpty_obj by simp

lemma wf_fields_dropped: "wf_fields kvs \<Longrightarrow> wf_fields (dropped path kvs)"
  using wf_dropEmpty [of "JObj kvs" path] by (simp add: dropEmpty_obj wf_jv_obj del: wf_jv.simps(3) dropEmpty.simps(1))

lemma wf_policyConstraints:
  assumes "wf_policy p"
  shows "wf_fields (policyConstraints p) \<and> known_sections (policyConstraints p)"
proof
  show "wf_fields (policyConstraints p)"
    unfolding policyConstraints_dropped
    by (rule wf_fields_dropped) (use assms in \<open>auto simp: wf_policy_def wf_fields_def intro: distinct_map_filter\<close>)
  show "known_sections (policyConstraints p)"
    using assms by (fastforce simp: policyConstraints_dropped dropped_def known_sections_def wf_policy_def)
qed

lemma covers_payload_stricter:
  "covers i l m \<Longrightarrow> known_sections l \<Longrightarrow> payload_stricter l m"
proof -
  assume c: "covers i l m" and k: "known_sections l"
  have "stricter k v w" if "map_of l k = Some v" "stricter (i @ ''.'' @ k) v w" for k v w
  proof -
    from that(1) k have "k \<in> set POLICY_SECTIONS" by (auto simp: known_sections_def dest!: map_of_SomeD)
    then have "k \<noteq> ''allowed''" by (auto simp: POLICY_SECTIONS_def)
    from stricter_same_rules [OF that(2)] same_rules_root [OF this, of i] show ?thesis by simp
  qed
  with c show ?thesis unfolding covers_def payload_stricter_def by meson
qed

lemma payload_stricter_refl [simp]: "payload_stricter l l"
  by (auto simp: payload_stricter_def intro: stricter_refl)

lemma payload_stricter_trans: "payload_stricter l m \<Longrightarrow> payload_stricter m n \<Longrightarrow> payload_stricter l n"
  unfolding payload_stricter_def by (meson stricter_trans)

lemma mergePolicyPayloads_keys:
  "mergePolicyPayloads l r p = Inr m \<Longrightarrow> fst ` set m = fst ` set l \<union> fst ` set r"
proof (induction r arbitrary: l)
  case (Cons e r)
  obtain k v where e: "e = (k, v)" by (cases e)
  with Cons.prems obtain x where "mergePolicyPayloads (obj_put k x l) r p = Inr m" by (auto simp: result_simps)
  from Cons.IH [OF this] e show ?case by (simp add: keys_obj_put)
qed simp

lemma merge_applied_stricter:
  "merge_applied l ps = Inr m \<Longrightarrow> wf_fields l \<Longrightarrow> known_sections l \<Longrightarrow> \<forall>p\<in>set ps. wf_policy p \<Longrightarrow>
   wf_fields m \<and> known_sections m \<and> payload_stricter l m \<and> (\<forall>p\<in>set ps. payload_stricter (policyConstraints p) m)"
proof (induction ps arbitrary: l)
  case (Cons p ps)
  from Cons.prems(1) obtain n where n: "mergePolicyPayloads l (policyConstraints p) (ap_id p) = Inr n"
    "merge_applied n ps = Inr m"
    by (auto simp: result_simps)
  have p: "wf_fields (policyConstraints p)" "known_sections (policyConstraints p)"
    using Cons.prems(4) wf_policyConstraints by auto
  from merge_upper_bound(2) [OF n(1) Cons.prems(2) p(1)]
  have m: "wf_fields n" "covers (ap_id p) l n" "covers (ap_id p) (policyConstraints p) n" by auto
  have "known_sections n"
    using mergePolicyPayloads_keys [OF n(1)] Cons.prems(3) p(2) by (simp add: known_sections_def)
  from Cons.IH [OF n(2) m(1) this] Cons.prems(4)
  have ih: "wf_fields m" "known_sections m" "payload_stricter n m" "\<forall>p\<in>set ps. payload_stricter (policyConstraints p) m"
    by auto
  moreover have "payload_stricter l m" "payload_stricter (policyConstraints p) m"
    using covers_payload_stricter [OF m(2) Cons.prems(3)] covers_payload_stricter [OF m(3) p(2)] ih(3)
    by (auto intro: payload_stricter_trans)
  ultimately show ?case by simp
qed simp

lemma effective_section:
  assumes "wf_fields merged" and "k \<in> set POLICY_SECTIONS"
  shows "map_of (effective_payload selected applied merged) k = map_of (dropped [] merged) k"
proof -
  have k: "k \<notin> {''version'', ''selected_policy_ids'', ''applied_policy_ids'', ''policy_names''}"
    using assms(2) by (auto simp: POLICY_SECTIONS_def)
  let ?meta = "[(''version'', JStr ''1''), (''selected_policy_ids'', JArr (map JStr selected)),
      (''applied_policy_ids'', JArr (map (JStr \<circ> ap_id) applied)),
      (''policy_names'', JArr (map (JStr \<circ> ap_name) applied))]"
  have d: "distinct (map fst (obj_assign ?meta merged))" by (rule distinct_obj_assign) simp
  have "map_of (obj_assign ?meta merged) k = map_of merged k"
    using assms(1) k by (auto simp: map_of_obj_assign wf_fields_distinct map_add_def split: option.splits)
  then show ?thesis
    using d assms(1)
    by (simp add: effective_payload_def dropEmpty_obj map_of_dropped wf_fields_distinct del: dropEmpty.simps(1))
qed

lemma composed_payload:
  assumes "composeProjectPolicies sha applied selected = Inr c"
  obtains merged where "merge_applied [] applied = Inr merged" "cp_payload c = effective_payload selected applied merged"
  using assms by (auto simp: composeProjectPolicies_def result_simps Let_def split: if_splits)

section \<open>One layer of a composition\<close>

text \<open>\<open>P\<close> is the payload of a policy composed alone, \<open>C\<close> that of a closure the policy belongs to.\<close>

definition layer_of :: "jv \<Rightarrow> jv \<Rightarrow> bool" where
  "layer_of P C \<longleftrightarrow> (\<exists>sha applied selected solo c p.
     (\<forall>q\<in>set applied. wf_policy q) \<and> p \<in> set applied
     \<and> composeProjectPolicies sha [p] [ap_id p] = Inr solo
     \<and> composeProjectPolicies sha applied selected = Inr c
     \<and> P = JObj (cp_payload solo) \<and> C = JObj (cp_payload c))"

definition section_path :: "string list \<Rightarrow> bool" where
  "section_path ks \<longleftrightarrow> ks \<noteq> [] \<and> hd ks \<in> set POLICY_SECTIONS \<and> plain_path (hd ks) (tl ks)"

definition field_of :: "string list \<Rightarrow> string" where
  "field_of ks = lastSegment (last ks)"

lemma merge_fresh:
  "mergePolicyPayloads l r p = Inr m \<Longrightarrow> distinct (map fst r) \<Longrightarrow> fst ` set l \<inter> fst ` set r = {} \<Longrightarrow>
   map_of m = map_of l ++ map_of r"
proof (induction r arbitrary: l)
  case (Cons e r)
  obtain k v where e: "e = (k, v)" by (cases e)
  with Cons.prems have k: "map_of l k = None" "map_of r k = None" by (auto simp: map_of_eq_None_iff)
  with Cons.prems e have step: "mergePolicyPayloads (obj_put k v l) r p = Inr m" by simp
  have "map_of m = map_of (obj_put k v l) ++ map_of r"
    by (rule Cons.IH [OF step]) (use Cons.prems e in \<open>auto simp: keys_obj_put\<close>)
  with e k show ?case by (auto simp: map_of_obj_put map_add_def fun_eq_iff split: option.splits)
qed simp

lemma alone_section:
  assumes "wf_policy p" and "composeProjectPolicies sha [p] [ap_id p] = Inr solo" and "k \<in> set POLICY_SECTIONS"
  shows "map_of (cp_payload solo) k = map_of (policyConstraints p) k"
proof -
  let ?c = "policyConstraints p"
  from assms(2) obtain m where m: "mergePolicyPayloads [] ?c (ap_id p) = Inr m"
    and pay: "cp_payload solo = effective_payload [ap_id p] [p] m"
    by (rule composed_payload) (auto simp: result_simps)
  have wf: "wf_fields ?c" using wf_policyConstraints [OF assms(1)] by simp
  from merge_fresh [OF m] wf have eq: "map_of m = map_of ?c" by (simp add: wf_fields_distinct)
  have wfm: "wf_fields m" using merge_upper_bound(2) [OF m] wf by simp
  have "distinct (map fst (filter (\<lambda>(k, v). k \<notin> {''version'', ''name'', ''description'', ''extends''}) (ap_blocks p)))"
    using assms(1) by (auto simp: wf_policy_def wf_fields_def intro: distinct_map_filter)
  then have "kept_value [k] v \<and> dropEmpty [k] v = v" if "map_of ?c k = Some v" for v
    using that unfolding policyConstraints_dropped
    by (auto simp: map_of_dropped dropEmpty_idem simp del: map_of_eq_Some_iff split: option.splits if_splits)
  then have "map_of (dropped [] m) k = map_of ?c k"
    using eq wfm by (auto simp: map_of_dropped wf_fields_distinct simp del: map_of_eq_Some_iff split: option.splits)
  then show ?thesis using pay wfm assms(3) by (simp add: effective_section)
qed

lemma wf_value_at: "wf_jv v \<Longrightarrow> value_at v ks = Some a \<Longrightarrow> wf_jv a"
  by (induction v ks rule: value_at.induct) (auto split: option.splits dest!: map_of_SomeD)

lemma value_at_section: "map_of l k = map_of m k \<Longrightarrow> value_at (JObj l) (k # ks) = value_at (JObj m) (k # ks)"
  by simp

lemma layer_value:
  assumes "layer_of P C" and "section_path ks" and "value_at P ks = Some a"
  obtains b where "stricter (dotted (hd ks) (tl ks)) a b" and "wf_jv b"
    and "kept_value ks (dropEmpty ks b) \<Longrightarrow> value_at C ks = Some (dropEmpty ks b)"
proof -
  from assms(1) obtain sha applied selected solo c p where
    wf: "\<forall>q\<in>set applied. wf_policy q" and p: "p \<in> set applied"
    and solo: "composeProjectPolicies sha [p] [ap_id p] = Inr solo"
    and c: "composeProjectPolicies sha applied selected = Inr c"
    and P: "P = JObj (cp_payload solo)" and C: "C = JObj (cp_payload c)"
    unfolding layer_of_def by blast
  from assms(2) obtain k js where ks: "ks = k # js" "k \<in> set POLICY_SECTIONS" "plain_path k js"
    by (cases ks) (auto simp: section_path_def)
  from c obtain m where m: "merge_applied [] applied = Inr m" "cp_payload c = effective_payload selected applied m"
    by (rule composed_payload)
  from merge_applied_stricter [OF m(1)] wf p have strict: "wf_fields m" "payload_stricter (policyConstraints p) m"
    by (auto simp: known_sections_def)
  from assms(3) have "value_at (JObj (policyConstraints p)) (k # js) = Some a"
    using alone_section [OF _ solo ks(2)] wf p P ks(1) by simp
  then obtain u where u: "map_of (policyConstraints p) k = Some u" "value_at u js = Some a"
    by (auto split: option.splits)
  from strict(2) u(1) obtain w where w: "map_of m k = Some w" "stricter k u w"
    unfolding payload_stricter_def by blast
  from stricter_value_at [OF w(2) u(2) ks(3)] obtain b where b: "value_at w js = Some b" "stricter (dotted k js) a b"
    by blast
  have at: "value_at (JObj m) (k # js) = Some b" using w(1) b(1) by simp
  have wfm: "wf_jv (JObj m)" using strict(1) by (simp add: wf_fields_def)
  show thesis
  proof (rule that [of b])
    show "stricter (dotted (hd ks) (tl ks)) a b" using b(2) ks by simp
    show "wf_jv b" using wf_value_at [OF wfm at] .
    assume "kept_value ks (dropEmpty ks b)"
    with value_at_dropEmpty [OF wfm at, of "[]"] ks have
      "value_at (JObj (dropped [] m)) (k # js) = Some (dropEmpty ks b)"
      by (simp add: dropEmpty_obj del: dropEmpty.simps(1))
    moreover have "map_of (cp_payload c) k = map_of (dropped [] m) k"
      using effective_section [OF strict(1) ks(2)] m(2) by simp
    ultimately show "value_at C ks = Some (dropEmpty ks b)" using C ks(1) by simp
  qed
qed

end
