(* ===== verification/Policy_Layers.thy ===== *)
theory Policy_Layers
  imports Policy_Compose
begin

text \<open>
  What the checks of a composed policy may rely on, as an interface: the locale \<open>tightening\<close> states, field
  kind by field kind, what a layer's value becomes in the composition. The interpretation \<open>composed\<close>
  discharges the laws for \<open>composeProjectPolicies\<close>.
\<close>

lemma num_stricter_lt:
  "num_stricter f x y \<Longrightarrow> map_of MOST_RESTRICTIVE_NUMERIC f \<noteq> Some Take_max \<Longrightarrow> num_lt x n \<Longrightarrow> num_lt y n"
  by (auto simp: num_stricter_def num_eq_rank num_lt_rank num_le_rank split: option.splits direction.splits)

section \<open>The interface\<close>

locale tightening =
  fixes layer :: "jv \<Rightarrow> jv \<Rightarrow> bool"
  assumes flags: "\<lbrakk>layer P C; section_path ks; value_at P ks = Some (JBool a)\<rbrakk> \<Longrightarrow>
      \<exists>b. value_at C ks = Some (JBool b) \<and> bool_stricter (field_of ks) a b"
    and numbers: "\<lbrakk>layer P C; section_path ks; value_at P ks = Some (JNum x)\<rbrakk> \<Longrightarrow>
      \<exists>y. value_at C ks = Some (JNum y) \<and> num_stricter (field_of ks) x y"
    and words: "\<lbrakk>layer P C; section_path ks; value_at P ks = Some (JStr s)\<rbrakk> \<Longrightarrow>
      \<exists>t. value_at C ks = Some (JStr t) \<and> text_stricter (field_of ks) s t"
    and allowlists: "\<lbrakk>layer P C; section_path ks; last ks \<in> set ALLOWLIST_FIELD_NAMES;
      value_at P ks = Some (JArr xs)\<rbrakk> \<Longrightarrow>
      \<exists>ys. value_at C ks = Some (JArr ys) \<and> texts ys \<subseteq> texts xs"
    and unions: "\<lbrakk>layer P C; section_path ks; field_of ks \<notin> set ALLOWLIST_FIELD_NAMES;
      value_at P ks = Some (JArr xs); texts xs \<noteq> {}\<rbrakk> \<Longrightarrow>
      \<exists>ys. value_at C ks = Some (JArr ys) \<and> texts xs \<subseteq> texts ys"
    and providers: "\<lbrakk>layer P C; value_at P [''providers'', ''allowed''] = Some (JObj l)\<rbrakk> \<Longrightarrow>
      \<exists>m. value_at C [''providers'', ''allowed''] = Some (JObj m) \<and>
        (\<forall>k w. map_of m k = Some w \<longrightarrow> (\<exists>v. map_of l k = Some v \<and>
          (\<not> mapping_allowlist_path k \<longrightarrow> (\<forall>xs. value_at v [''models''] = Some (JArr xs) \<longrightarrow>
             (\<exists>ys. value_at w [''models''] = Some (JArr ys) \<and> texts ys \<subseteq> texts xs)))))"
begin

text \<open>A requirement stays, an allowance once denied stays denied.\<close>

lemma required: "\<lbrakk>layer P C; section_path ks; requirement_field (field_of ks); value_at P ks = Some (JBool True)\<rbrakk> \<Longrightarrow>
    value_at C ks = Some (JBool True)"
  using flags [of P C ks True] by (auto simp: bool_stricter_def)

lemma denied: "\<lbrakk>layer P C; section_path ks; \<not> requirement_field (field_of ks); value_at P ks = Some (JBool False)\<rbrakk> \<Longrightarrow>
    value_at C ks = Some (JBool False)"
  using flags [of P C ks False] by (auto simp: bool_stricter_def split: if_splits)

lemma fixed_flag: "\<lbrakk>layer P C; section_path ks; \<not> requirement_field (field_of ks);
    \<not> allowance_field (field_of ks); value_at P ks = Some (JBool x)\<rbrakk> \<Longrightarrow> value_at C ks = Some (JBool x)"
  using flags [of P C ks x] by (auto simp: bool_stricter_def)

lemma ceiling: "\<lbrakk>layer P C; section_path ks; map_of MOST_RESTRICTIVE_NUMERIC (field_of ks) \<noteq> Some Take_max;
    value_at P ks = Some (JNum x); num_lt x n\<rbrakk> \<Longrightarrow> \<exists>y. value_at C ks = Some (JNum y) \<and> num_lt y n"
  using numbers [of P C ks x] num_stricter_lt [of "field_of ks" x _ n] by blast

lemma fixed_text: "\<lbrakk>layer P C; section_path ks; map_of MOST_RESTRICTIVE_ORDERED_ENUM (field_of ks) = None;
    value_at P ks = Some (JStr s)\<rbrakk> \<Longrightarrow> value_at C ks = Some (JStr s)"
  using words [of P C ks s] by (auto simp: text_stricter_def)

end

section \<open>The composition provides it\<close>

lemma allowlist_field_plain: "f \<in> set ALLOWLIST_FIELD_NAMES \<Longrightarrow> lastSegment f = f"
  by (auto simp: ALLOWLIST_FIELD_NAMES_def lastSegment_def)

lemma field_of_dotted: "ks \<noteq> [] \<Longrightarrow> lastSegment (dotted (hd ks) (tl ks)) = field_of ks"
  by (cases ks) (simp_all add: lastSegment_dotted field_of_def)

lemma section_path_nonempty: "section_path ks \<Longrightarrow> ks \<noteq> []"
  by (simp add: section_path_def)

lemma layer_scalar:
  assumes "layer_of P C" and "section_path ks" and "value_at P ks = Some a"
    and "\<And>b. stricter (dotted (hd ks) (tl ks)) a b \<Longrightarrow> \<exists>n t x. b \<in> {JBool x, JNum n, JStr t}"
  shows "\<exists>b. value_at C ks = Some b \<and> stricter (dotted (hd ks) (tl ks)) a b"
proof -
  from assms(1-3) obtain b where b: "stricter (dotted (hd ks) (tl ks)) a b" "wf_jv b"
    "kept_value ks (dropEmpty ks b) \<Longrightarrow> value_at C ks = Some (dropEmpty ks b)"
    by (rule layer_value) blast
  from assms(4) [OF b(1)] have "dropEmpty ks b = b" "kept_value ks b"
    by (auto simp: kept_value_def)
  with b show ?thesis by auto
qed

lemma layer_allowlist:
  assumes "layer_of P C" and "section_path ks" and "last ks \<in> set ALLOWLIST_FIELD_NAMES"
    and "value_at P ks = Some (JArr xs)"
  shows "\<exists>ys. value_at C ks = Some (JArr ys) \<and> texts ys \<subseteq> texts xs"
proof -
  from assms(1,2,4) obtain b where b: "stricter (dotted (hd ks) (tl ks)) (JArr xs) b" "wf_jv b"
    "kept_value ks (dropEmpty ks b) \<Longrightarrow> value_at C ks = Some (dropEmpty ks b)"
    by (rule layer_value) blast
  from assms(2,3) have "field_of ks \<in> set ALLOWLIST_FIELD_NAMES" "ks \<noteq> []"
    by (auto simp: field_of_def allowlist_field_plain section_path_def)
  with b(1) obtain ys where ys: "b = JArr ys" "texts ys \<subseteq> texts xs"
    by (auto simp: list_stricter_def field_of_dotted)
  have "kept_value ks (JArr zs)" for zs
    using assms(3) \<open>ks \<noteq> []\<close>
    by (cases zs) (auto simp: kept_value_def preserveEmptyValue_def preserveEmptyAllowlist_def)
  with b(3) ys show ?thesis by auto
qed

lemma layer_union:
  assumes "layer_of P C" and "section_path ks" and "field_of ks \<notin> set ALLOWLIST_FIELD_NAMES"
    and "value_at P ks = Some (JArr xs)" and "texts xs \<noteq> {}"
  shows "\<exists>ys. value_at C ks = Some (JArr ys) \<and> texts xs \<subseteq> texts ys"
proof -
  from assms(1,2,4) obtain b where b: "stricter (dotted (hd ks) (tl ks)) (JArr xs) b" "wf_jv b"
    "kept_value ks (dropEmpty ks b) \<Longrightarrow> value_at C ks = Some (dropEmpty ks b)"
    by (rule layer_value) blast
  with assms(2,3) obtain ys where ys: "b = JArr ys" "texts xs \<subseteq> texts ys"
    by (auto simp: list_stricter_def field_of_dotted section_path_nonempty)
  let ?zs = "map (dropEmpty ks) (filter (\<lambda>x. x \<noteq> JNull) ys)"
  have "texts [] = {}" by (simp add: texts_def)
  with ys assms(5) have "?zs \<noteq> []" by (metis bot.extremum_uniqueI texts_dropEmpty)
  then have "kept_value ks (JArr ?zs)" by (cases ?zs) (auto simp: kept_value_def)
  with b(3) ys show ?thesis by auto
qed

lemma layer_providers:
  assumes "layer_of P C" and "value_at P [''providers'', ''allowed''] = Some (JObj l)"
  shows "\<exists>m. value_at C [''providers'', ''allowed''] = Some (JObj m) \<and>
    (\<forall>k w. map_of m k = Some w \<longrightarrow> (\<exists>v. map_of l k = Some v \<and>
      (\<not> mapping_allowlist_path k \<longrightarrow> (\<forall>xs. value_at v [''models''] = Some (JArr xs) \<longrightarrow>
         (\<exists>ys. value_at w [''models''] = Some (JArr ys) \<and> texts ys \<subseteq> texts xs)))))"
proof -
  let ?ks = "[''providers'', ''allowed'']" and ?p = "''providers.allowed''"
  have path: "section_path ?ks" "mapping_allowlist_path ?p" "dotted (hd ?ks) (tl ?ks) = ?p"
    by (simp_all add: section_path_def POLICY_SECTIONS_def mapping_allowlist_path_def endsWith_def lastSegment_def)
  from assms(1) path(1) assms(2) obtain b where b: "stricter ?p (JObj l) b" "wf_jv b"
    "kept_value ?ks (dropEmpty ?ks b) \<Longrightarrow> value_at C ?ks = Some (dropEmpty ?ks b)"
    by (rule layer_value) (simp add: path(3))
  from b(1) path(2) obtain m where m: "b = JObj m"
    "\<And>k w. map_of m k = Some w \<Longrightarrow> \<exists>v. map_of l k = Some v \<and> stricter (?p @ ''.'' @ k) v w"
    by (auto elim: stricter_objE)
  have "kept_value ?ks (JObj kvs)" for kvs
    by (cases kvs) (auto simp: kept_value_def preserveEmptyValue_def preserveEmptyMapping_def)
  with b(3) m(1) have C: "value_at C ?ks = Some (JObj (dropped ?ks m))"
    by (simp add: dropEmpty_obj del: dropEmpty.simps(1))
  have "\<exists>v. map_of l k = Some v \<and> (\<not> mapping_allowlist_path k \<longrightarrow> (\<forall>xs. value_at v [''models''] = Some (JArr xs) \<longrightarrow>
      (\<exists>ys. value_at w [''models''] = Some (JArr ys) \<and> texts ys \<subseteq> texts xs)))"
    if "map_of (dropped ?ks m) k = Some w" for k w
  proof -
    from that b(2) m(1) obtain w0 where w0: "map_of m k = Some w0" "w = dropEmpty (?ks @ [k]) w0" "wf_jv w0"
      by (auto simp: map_of_dropped split: option.splits if_splits dest: map_of_SomeD)
    from m(2) [OF w0(1)] obtain v where v: "map_of l k = Some v" "stricter (?p @ ''.'' @ k) v w0" by blast
    have "\<exists>ys. value_at w [''models''] = Some (JArr ys) \<and> texts ys \<subseteq> texts xs"
      if plain: "\<not> mapping_allowlist_path k" and xs: "value_at v [''models''] = Some (JArr xs)" for xs
    proof -
      have "plain_path (?p @ ''.'' @ k) [''models'']"
        using plain mapping_path_step [of ?p k] by (simp add: endsWith_def)
      from stricter_value_at [OF v(2) xs this] obtain ys where ys: "value_at w0 [''models''] = Some (JArr ys)"
        "texts ys \<subseteq> texts xs"
        by (auto simp: list_stricter_def ALLOWLIST_FIELD_NAMES_def lastSegment_def split: if_splits)
      have "kept_value path (JArr zs)" if "path \<noteq> []" "last path = ''models''" for path zs
        using that by (cases zs) (auto simp: kept_value_def preserveEmptyValue_def preserveEmptyAllowlist_def
            ALLOWLIST_FIELD_NAMES_def)
      with value_at_dropEmpty [OF w0(3) ys(1), of "?ks @ [k]"] w0(2) ys(2) show ?thesis by simp
    qed
    with v(1) show ?thesis by blast
  qed
  with C show ?thesis by blast
qed

interpretation composed: tightening layer_of
proof
  fix P C ks x
  assume "layer_of P C" "section_path ks" "value_at P ks = Some (JBool x)"
  from layer_scalar [OF this] show "\<exists>y. value_at C ks = Some (JBool y) \<and> bool_stricter (field_of ks) x y"
    using \<open>section_path ks\<close> by (auto simp: field_of_dotted section_path_nonempty)
next
  fix P C ks x
  assume "layer_of P C" "section_path ks" "value_at P ks = Some (JNum x)"
  from layer_scalar [OF this] show "\<exists>y. value_at C ks = Some (JNum y) \<and> num_stricter (field_of ks) x y"
    using \<open>section_path ks\<close> by (auto simp: field_of_dotted section_path_nonempty)
next
  fix P C ks s
  assume "layer_of P C" "section_path ks" "value_at P ks = Some (JStr s)"
  from layer_scalar [OF this] show "\<exists>t. value_at C ks = Some (JStr t) \<and> text_stricter (field_of ks) s t"
    using \<open>section_path ks\<close> by (auto simp: field_of_dotted section_path_nonempty)
qed (rule layer_allowlist layer_union layer_providers; assumption)+

end
