(* ===== verification/Secret_References.thy ===== *)
theory Secret_References
  imports Artifacts
begin

text \<open>
  The secret slots of a workflow spec (\<open>packages/typescript/yaml/src/secret-references.ts\<close>): the walk over
  the fixed list of slots, the record of where each credential comes from, and the resolution of one
  slot to its text. The spec is the parsed document; the environment and the file system are the record
  \<open>surroundings\<close>.
\<close>

section \<open>Surroundings\<close>

text \<open>
  \<open>process.env\<close>, \<open>statSync(file)\<close> of a regular file (its size; \<open>None\<close> when it throws or is not a file),
  \<open>existsSync\<close> and \<open>readFileSync\<close> (\<open>None\<close> when it throws).
\<close>

record surroundings =
  su_env :: "string \<Rightarrow> string option"
  su_file_size :: "string \<Rightarrow> nat option"
  su_exists :: "string \<Rightarrow> bool"
  su_read :: "string \<Rightarrow> string option"

section \<open>Records\<close>

datatype secret_source = Src_literal | Src_env | Src_file

record secret_record =
  sr_runtime_path :: string
  sr_source_kind :: secret_source
  sr_source_name :: string
  sr_configured :: bool

record value_source =
  vs_env :: "string option"
  vs_file :: "string option"

definition nonempty_string :: "jv option \<Rightarrow> string option" where
  "nonempty_string v = (case v of Some (JStr s) \<Rightarrow> if s = [] then None else Some s | _ \<Rightarrow> None)"

text \<open>\<open>source.env\<close> and \<open>source.file\<close> of an array are undefined: neither is an element or its length.\<close>

definition valueFromOf :: "jv \<Rightarrow> value_source option" where
  "valueFromOf v =
     (case own_prop v ''value_from'' of
        None \<Rightarrow> None
      | Some source \<Rightarrow>
          if js_typeof source \<noteq> T_object \<or> source = JNull then None
          else Some \<lparr>vs_env = nonempty_string (own_prop source ''env''),
                     vs_file = nonempty_string (own_prop source ''file'')\<rparr>)"

definition size_positive :: "surroundings \<Rightarrow> string \<Rightarrow> bool" where
  "size_positive su file = (case su_file_size su file of None \<Rightarrow> False | Some n \<Rightarrow> n > 0)"

definition sourceConfigured :: "surroundings \<Rightarrow> value_source \<Rightarrow> bool" where
  "sourceConfigured su source =
     (case vs_env source of
        Some env \<Rightarrow> (case su_env su env of None \<Rightarrow> False | Some s \<Rightarrow> trim s \<noteq> [])
      | None \<Rightarrow> (case vs_file source of Some file \<Rightarrow> size_positive su file | None \<Rightarrow> False))"

text \<open>\<open>appendSecretReference\<close>: the records to push for one slot value.\<close>

definition secret_reference :: "surroundings \<Rightarrow> string \<Rightarrow> jv option \<Rightarrow> secret_record list" where
  "secret_reference su path v =
     (case v of
        None \<Rightarrow> []
      | Some w \<Rightarrow>
          if nonempty_string (Some w) \<noteq> None
          then [\<lparr>sr_runtime_path = path, sr_source_kind = Src_literal, sr_source_name = [], sr_configured = True\<rparr>]
          else (case valueFromOf w of
                  None \<Rightarrow> []
                | Some source \<Rightarrow>
                    (case vs_env source of
                       Some env \<Rightarrow> [\<lparr>sr_runtime_path = path, sr_source_kind = Src_env, sr_source_name = env,
                                    sr_configured = sourceConfigured su source\<rparr>]
                     | None \<Rightarrow>
                         (case vs_file source of
                            Some file \<Rightarrow> [\<lparr>sr_runtime_path = path, sr_source_kind = Src_file,
                                          sr_source_name = file, sr_configured = sourceConfigured su source\<rparr>]
                          | None \<Rightarrow> []))))"

section \<open>Slots\<close>

text \<open>
  A slot path as the code writes it, read apart: a plain dotted path, \<open>prefix{*}\<close> for every entry of a
  map, \<open>prefix[*].leaf\<close> for the leaf of every element of an array.
\<close>

datatype slot = Plain_slot string | Map_slot string | List_slot string string

definition SECRET_SLOT_PATHS :: "slot list" where
  "SECRET_SLOT_PATHS =
     [Plain_slot ''runtime.temporal.api_key'',
      Plain_slot ''runtime.temporal.tls.server_root_ca_cert'',
      Plain_slot ''runtime.temporal.tls.client_cert'',
      Plain_slot ''runtime.temporal.tls.client_private_key'',
      List_slot ''runtime.temporal.payload_codec.keys'' ''value_from'',
      Plain_slot ''runtime.provider.api_key'',
      Map_slot ''runtime.provider.config'',
      Map_slot ''runtime.registry.config'',
      Map_slot ''runtime.observability.config'',
      Plain_slot ''runtime.observability.langfuse.public_key'',
      Plain_slot ''runtime.observability.langfuse.secret_key'',
      Plain_slot ''runtime.observability.langsmith.api_key'']"

definition secretSlotValue :: "jv \<Rightarrow> string \<Rightarrow> jv option" where
  "secretSlotValue doc path = value_at doc (split_dots path)"

definition bracketed :: "string \<Rightarrow> string \<Rightarrow> string" where
  "bracketed prefix key = prefix @ ''['' @ key @ '']''"

definition appendMapReferences :: "surroundings \<Rightarrow> string \<Rightarrow> jv \<Rightarrow> secret_record list" where
  "appendMapReferences su prefix doc =
     (case secretSlotValue doc prefix of
        Some (JObj kvs) \<Rightarrow> concat (map (\<lambda>(k, v). secret_reference su (bracketed prefix k) (Some v)) kvs)
      | _ \<Rightarrow> [])"

text \<open>\<open>String(index)\<close>\<close>

definition index_text :: "nat \<Rightarrow> string" where
  "index_text n = formatNumber (IntN (int n))"

text \<open>
  An element that is an array has neither the leaf nor an id; \<open>{ value_from: undefined }\<close> has no source.
\<close>

definition element_reference :: "surroundings \<Rightarrow> string \<Rightarrow> string \<Rightarrow> nat \<Rightarrow> jv \<Rightarrow> secret_record list" where
  "element_reference su prefix leaf index item =
     (if js_typeof item \<noteq> T_object \<or> item = JNull then []
      else let keyId = (case nonempty_string (own_prop item ''id'') of Some s \<Rightarrow> s | None \<Rightarrow> index_text index)
           in (case own_prop item leaf of
                 None \<Rightarrow> []
               | Some source \<Rightarrow>
                   secret_reference su (bracketed prefix keyId @ ''.'' @ leaf) (Some (JObj [(''value_from'', source)]))))"

definition appendWildcardReferences :: "surroundings \<Rightarrow> string \<Rightarrow> string \<Rightarrow> jv \<Rightarrow> secret_record list" where
  "appendWildcardReferences su prefix leaf doc =
     (case secretSlotValue doc prefix of
        Some (JArr items) \<Rightarrow>
          concat (map (\<lambda>(i, item). element_reference su prefix leaf i item) (enumerate 0 items))
      | _ \<Rightarrow> [])"

definition secretReferenceRecords :: "surroundings \<Rightarrow> jv \<Rightarrow> secret_record list" where
  "secretReferenceRecords su spec =
     concat (map (\<lambda>slot. case slot of
         Plain_slot path \<Rightarrow> secret_reference su path (secretSlotValue spec path)
       | Map_slot prefix \<Rightarrow> appendMapReferences su prefix spec
       | List_slot prefix leaf \<Rightarrow> appendWildcardReferences su prefix leaf spec) SECRET_SLOT_PATHS)"

section \<open>Resolution of a slot to its text\<close>

text \<open>The value of a slot as the spec schema leaves it, and its configuration check in the policy module.\<close>

datatype secret_value = Literal string | Value_from "string option" "string option" "bool option"

datatype secret_error =
    Env_not_set string
  | Env_empty string
  | File_missing string
  | File_unreadable string
  | File_empty string
  | No_source

definition demanded :: "bool option \<Rightarrow> bool" where
  "demanded required = (case required of None \<Rightarrow> True | Some b \<Rightarrow> b)"

fun resolveOptionalSecretText ::
    "surroundings \<Rightarrow> secret_value option \<Rightarrow> (secret_error, string option) result" where
  "resolveOptionalSecretText su None = Inr None"
| "resolveOptionalSecretText su (Some (Literal s)) = Inr (if s \<noteq> [] then Some s else None)"
| "resolveOptionalSecretText su (Some (Value_from (Some env) file required)) =
     (case su_env su env of
        None \<Rightarrow> if demanded required then Inl (Env_not_set env) else Inr None
      | Some raw \<Rightarrow>
          if trim raw = [] then (if demanded required then Inl (Env_empty env) else Inr None)
          else Inr (Some (trim raw)))"
| "resolveOptionalSecretText su (Some (Value_from None (Some file) required)) =
     (if \<not> su_exists su file then (if demanded required then Inl (File_missing file) else Inr None)
      else (case su_read su file of
              None \<Rightarrow> Inl (File_unreadable file)
            | Some raw \<Rightarrow>
                if trim raw = [] then (if demanded required then Inl (File_empty file) else Inr None)
                else Inr (Some (trim raw))))"
| "resolveOptionalSecretText su (Some (Value_from None None required)) = Inl No_source"

text \<open>\<open>secretValueConfigured\<close> of \<open>policy-enforcement.ts\<close>\<close>

fun secretValueConfigured :: "surroundings \<Rightarrow> secret_value option \<Rightarrow> bool" where
  "secretValueConfigured su None = False"
| "secretValueConfigured su (Some (Literal s)) = (s \<noteq> [])"
| "secretValueConfigured su (Some (Value_from (Some env) file required)) =
     (case su_env su env of None \<Rightarrow> False | Some s \<Rightarrow> trim s \<noteq> [])"
| "secretValueConfigured su (Some (Value_from None (Some file) required)) = size_positive su file"
| "secretValueConfigured su (Some (Value_from None None required)) = False"

text \<open>The file system answers consistently: a readable file with text is a regular file of positive size.\<close>

definition sized_files :: "surroundings \<Rightarrow> bool" where
  "sized_files su \<longleftrightarrow> (\<forall>file raw. su_read su file = Some raw \<longrightarrow> raw \<noteq> [] \<longrightarrow> size_positive su file)"

definition from_file :: "secret_value \<Rightarrow> bool" where
  "from_file v \<longleftrightarrow> (case v of Value_from None (Some file) required \<Rightarrow> True | _ \<Rightarrow> False)"

lemma trim_Nil: "trim [] = []"
  by (simp add: trim_def)

lemma resolved_configured:
  assumes "sized_files su" and "resolveOptionalSecretText su slot = Inr (Some text)"
  shows "secretValueConfigured su slot \<and> text \<noteq> []"
  using assms
proof (cases "(su, slot)" rule: resolveOptionalSecretText.cases)
  case (4 su' f required)
  with assms obtain raw where "su_read su f = Some raw" "trim raw = text" "trim raw \<noteq> []"
    by (auto split: if_splits option.splits)
  moreover from this have "raw \<noteq> []" using trim_Nil by auto
  ultimately show ?thesis using assms(1) 4 by (auto simp: sized_files_def)
qed (auto split: if_splits option.splits)

lemma configured_resolved:
  assumes "\<not> from_file v"
  shows "secretValueConfigured su (Some v) \<longleftrightarrow> (\<exists>text. resolveOptionalSecretText su (Some v) = Inr (Some text))"
  using assms by (cases "(su, Some v)" rule: resolveOptionalSecretText.cases)
    (auto simp: from_file_def split: option.splits)

text \<open>A slot that resolves to a text is one the policy check calls configured, and the text is not empty;
  for literals and environment references the converse holds too, and a demanded environment reference
  that is not configured makes the resolution fail instead of falling through.\<close>

theorem secret_resolution_agrees:
  assumes "sized_files su"
  shows "(resolveOptionalSecretText su (Some v) = Inr (Some text) \<longrightarrow> secretValueConfigured su (Some v) \<and> text \<noteq> [])
    \<and> (\<not> from_file v \<and> secretValueConfigured su (Some v) \<longrightarrow> (\<exists>t. resolveOptionalSecretText su (Some v) = Inr (Some t)))
    \<and> (v = Value_from (Some env) file required \<and> demanded required \<and> \<not> secretValueConfigured su (Some v)
        \<longrightarrow> (\<exists>e. resolveOptionalSecretText su (Some v) = Inl e))"
proof (intro conjI impI)
  assume "v = Value_from (Some env) file required \<and> demanded required \<and> \<not> secretValueConfigured su (Some v)"
  then show "\<exists>e. resolveOptionalSecretText su (Some v) = Inl e" by (auto split: option.splits)
qed (use assms resolved_configured configured_resolved in blast)+

lemma spaces: "is_space CHR '' ''" "\<not> is_space CHR ''k''" "is_space (CHR 0x0A)"
  by code_simp+

definition example_surroundings :: surroundings where
  "example_surroundings = \<lparr>su_env = (\<lambda>e. if e = ''KEY'' then Some '' k '' else None), su_file_size = (\<lambda>_. Some 1),
     su_exists = (\<lambda>_. True), su_read = (\<lambda>_. Some [CHR 0x0A])\<rparr>"

theorem secret_resolution_agrees_witness:
  "secretValueConfigured example_surroundings (Some (Value_from (Some ''KEY'') None None))
   \<and> resolveOptionalSecretText example_surroundings (Some (Value_from (Some ''KEY'') None None)) = Inr (Some ''k'')
   \<and> (\<exists>e. resolveOptionalSecretText example_surroundings (Some (Value_from (Some ''OTHER'') None None)) = Inl e)"
proof -
  have sized: "sized_files example_surroundings"
    by (simp add: sized_files_def example_surroundings_def size_positive_def)
  have k: "resolveOptionalSecretText example_surroundings (Some (Value_from (Some ''KEY'') None None)) = Inr (Some ''k'')"
    by (simp add: example_surroundings_def trim_def spaces)
  have "\<not> secretValueConfigured example_surroundings (Some (Value_from (Some ''OTHER'') None None))"
    by (simp add: example_surroundings_def)
  with k show ?thesis
    using secret_resolution_agrees [OF sized, of "Value_from (Some ''KEY'') None None" "''k''" "''KEY''" None None]
      secret_resolution_agrees [OF sized, of "Value_from (Some ''OTHER'') None None" "[]" "''OTHER''" None None]
    by (auto simp: demanded_def)
qed

text \<open>
  For files the two differ: a file of white space has positive size, so its slot is called configured, but
  it resolves to nothing, which is an error when the slot is demanded.
\<close>

lemma blank_file_configured:
  "secretValueConfigured example_surroundings (Some (Value_from None (Some ''/run/key'') None))
   \<and> resolveOptionalSecretText example_surroundings (Some (Value_from None (Some ''/run/key'') None))
     = Inl (File_empty ''/run/key'')"
  by (simp add: example_surroundings_def size_positive_def trim_def spaces demanded_def)

end
