(* ===== verification/Policy_Check.thy ===== *)
theory Policy_Check
  imports Secret_References Policy_Merge Plan_Guard Spec
begin

text \<open>
  Admission of a workflow against a composed policy, first part
  (\<open>packages/typescript/yaml/src/policy-enforcement.ts\<close>): the parts of the parsed spec the checks read,
  the navigation of the policy payload, and the checks of provider and model, secrets, registry,
  artifacts, observability and Temporal connection. A failed check carries the list of its reasons
  in place of the message text.
\<close>

section \<open>The spec as the checks read it\<close>

record provider_section =
  pv_type :: string
  pv_model :: "string option"
  pv_params_model :: "string option"
  pv_allow_prompt_model_override :: bool

record inline_prompt =
  ip_model :: "string option"
  ip_params_model :: "string option"

text \<open>A prompt of the registry is a reference text (\<open>None\<close>) or an inline prompt.\<close>

record registry_section =
  rg_type :: string
  rg_host :: "string option"
  rg_prompts :: "(string \<times> inline_prompt option) list option"

record artifact_section =
  as_allowed_sources :: "string list"
  as_allowed_media_types :: "string list"
  as_max_bytes :: "jsnum option"

record artifact_declaration =
  da_name :: string
  da_media_types :: "string list"
  da_max_bytes :: "jsnum option"

datatype on_violation = Violation_block | Violation_flag

record governed_definition =
  gd_name :: string
  gd_params_model :: "string option"
  gd_artifacts :: "artifact_declaration list option"
  gd_moderation :: "on_violation option"
  gd_side_effecting :: bool

record redaction_section =
  rd_enabled :: "bool option"
  rd_preserve_typeflux_metadata :: "bool option"
  rd_custom_rules :: "string list option"

record observability_section =
  ob_type :: "string option"
  ob_redaction :: "redaction_section option"

datatype tls_setting = Tls_flag bool | Tls_block

record temporal_section =
  tm_address :: "string option"
  tm_namespace :: "string option"
  tm_tls :: "tls_setting option"
  tm_api_key :: "secret_value option"
  tm_payload_codec :: bool

record retry_section =
  rt_max_attempts :: "jsnum option"
  rt_retry_rate_limits :: bool
  rt_retry_transient_errors :: bool

record limit_tier =
  lt_max_concurrent :: "jsnum option"
  lt_min_interval_seconds :: "jsnum option"

record provider_tier = limit_tier +
  lt_models :: "(string \<times> limit_tier) list"

record limits_section =
  lm_default :: "limit_tier option"
  lm_providers :: "(string \<times> provider_tier) list"

text \<open>\<open>gv_document\<close> is the same spec as a tree, for the walk over the secret slots.\<close>

record governed_spec =
  gv_provider :: provider_section
  gv_registry :: registry_section
  gv_temporal :: temporal_section
  gv_observability :: "observability_section option"
  gv_artifacts :: "artifact_section option"
  gv_provider_retry :: "retry_section option"
  gv_provider_limits :: "limits_section option"
  gv_definitions :: "governed_definition list option"
  gv_steps :: "workflow_step_spec list"
  gv_lifecycle :: "workflow_lifecycle_spec option"
  gv_risk_tier :: "string option"
  gv_document :: jv

definition governed_definitions :: "governed_spec \<Rightarrow> governed_definition list" where
  "governed_definitions spec = (case gv_definitions spec of None \<Rightarrow> [] | Some ds \<Rightarrow> ds)"

section \<open>Navigation of the payload\<close>

definition mappingAtOrNone :: "jv \<Rightarrow> string list \<Rightarrow> (string \<times> jv) list option" where
  "mappingAtOrNone payload path = (case value_at payload path of Some (JObj kvs) \<Rightarrow> Some kvs | _ \<Rightarrow> None)"

definition listAtOrNone :: "jv \<Rightarrow> string list \<Rightarrow> jv list option" where
  "listAtOrNone payload path = (case value_at payload path of Some (JArr xs) \<Rightarrow> Some xs | _ \<Rightarrow> None)"

text \<open>\<open>list.includes_text(text)\<close>, \<open>mapping[key] === true\<close>, and the number a key holds if it holds one.\<close>

definition includes_text :: "jv list \<Rightarrow> string \<Rightarrow> bool" where
  "includes_text xs s \<longleftrightarrow> JStr s \<in> set xs"

definition set_to :: "bool \<Rightarrow> (string \<times> jv) list \<Rightarrow> string \<Rightarrow> bool" where
  "set_to b m k \<longleftrightarrow> map_of m k = Some (JBool b)"

definition number_at :: "(string \<times> jv) list \<Rightarrow> string \<Rightarrow> jsnum option" where
  "number_at m k = (case map_of m k of Some (JNum n) \<Rightarrow> Some n | _ \<Rightarrow> None)"

text \<open>The elements of a \<open>new Set(xs)\<close> in insertion order.\<close>

definition js_set :: "'a list \<Rightarrow> 'a list" where
  "js_set xs = rev (remdups (rev xs))"

section \<open>Check results\<close>

datatype provider_failure = Provider_not_allowed string | Model_not_allowed string "string option"

datatype risk_requirement =
    Need_review | Need_moderation | Need_redaction | Need_payload_codec | Need_compensation | Need_providers

datatype artifact_failure =
    Source_not_allowed string
  | Media_types_unconstrained
  | Media_type_not_allowed string
  | Max_bytes_missing
  | Max_bytes_exceeds jsnum jsnum
  | Activity_media_type_not_allowed string string string
  | Activity_max_bytes_exceeds string string jsnum jsnum

datatype observability_failure =
    Observability_required
  | Backend_not_allowed string
  | Redaction_required
  | Metadata_not_preserved
  | Rules_required_but_disabled "string list"
  | Rules_missing "string list"

datatype temporal_failure =
    Address_not_allowed string
  | Namespace_not_allowed string
  | Region_not_mapped string
  | Mapped_region_not_allowed string string
  | Region_conflict string string
  | Region_not_allowed "string option"
  | Tls_required
  | Api_key_required
  | Payload_codec_required

datatype posture_failure =
    Review_required
  | Review_required_for_decision
  | Gate_decision_differs string invalid_policy jv
  | Moderation_required string
  | Block_required string "on_violation option"
  | Attempts_exceed jsnum jsnum
  | Rate_limit_retry_broader
  | Transient_retry_broader

datatype ceiling_failure =
    Limits_missing
  | Max_concurrent_broader jsnum
  | Min_interval_broader jsnum
  | Steps_exceed nat jsnum
  | Total_steps_exceed nat jsnum
  | Width_exceeds "string option" nat jsnum
  | Nesting_exceeds "string option" nat jsnum
  | Map_over_workflow_forbidden "string list"

datatype risk_failure =
    Risk_tier_undeclared
  | Risk_tier_prohibited string
  | Risk_requirement_unsatisfied string risk_requirement

datatype policy_failure =
    Provider_failure provider_failure
  | Override_not_enforceable
  | Literal_secret string
  | Registry_host_missing
  | Registry_host_not_allowed string
  | Artifact_failure artifact_failure
  | Observability_failure observability_failure
  | Temporal_failure temporal_failure
  | Posture_failure posture_failure
  | Ceiling_failure ceiling_failure
  | Risk_failure risk_failure

datatype check_status = Passed | Skipped | Failed "policy_failure list"

datatype check_code =
    Policy_selection | Policy_allowlists | Policy_provider | Policy_secrets | Policy_registry | Policy_imports
  | Policy_observability | Policy_temporal | Policy_artifacts | Policy_review | Policy_semantics
  | Policy_provider_retry | Policy_provider_limits | Policy_composition_ceilings | Policy_risk_tier

type_synonym policy_check = "check_code \<times> check_status"

text \<open>\<open>failures.length > 0 ? failed(...) : passed(...)\<close>\<close>

definition verdict_of :: "policy_failure list \<Rightarrow> check_status" where
  "verdict_of failures = (if failures = [] then Passed else Failed failures)"

definition fail_if :: "bool \<Rightarrow> 'f \<Rightarrow> 'f list" where
  "fail_if b f = (if b then [f] else [])"

section \<open>Provider and model\<close>

text \<open>
  \<open>type in DEFAULT_MODELS\<close> also sees the members an object inherits; such a member is not a string, so the
  model is then some \<open>Inherited_member\<close>.
\<close>

datatype model_id = Model string | Inherited_member string

definition DEFAULT_MODELS :: "(string \<times> string) list" where
  "DEFAULT_MODELS = [(''openai'', ''gpt-4o-mini''), (''anthropic'', ''claude-sonnet-4-6''),
                     (''gemini'', ''gemini-2.5-flash'')]"

definition OBJECT_PROTOTYPE :: "string list" where
  "OBJECT_PROTOTYPE =
     [''constructor'', ''__defineGetter__'', ''__defineSetter__'', ''hasOwnProperty'', ''__lookupGetter__'',
      ''__lookupSetter__'', ''isPrototypeOf'', ''propertyIsEnumerable'', ''toString'', ''valueOf'',
      ''__proto__'', ''toLocaleString'']"

definition defaultModelForProviderType :: "string \<Rightarrow> model_id option" where
  "defaultModelForProviderType t =
     (case map_of DEFAULT_MODELS t of
        Some m \<Rightarrow> Some (Model m)
      | None \<Rightarrow> if t \<in> set OBJECT_PROTOTYPE then Some (Inherited_member t) else None)"

definition effectiveModelFor :: "provider_section \<Rightarrow> model_id option" where
  "effectiveModelFor p =
     (case pv_model p of
        Some (c # cs) \<Rightarrow> Some (Model (c # cs))
      | _ \<Rightarrow> (case pv_params_model p of
                Some m \<Rightarrow> Some (Model m)
              | None \<Rightarrow> defaultModelForProviderType (pv_type p)))"

definition prompt_models :: "inline_prompt option \<Rightarrow> string list" where
  "prompt_models prompt =
     (case prompt of
        None \<Rightarrow> []
      | Some p \<Rightarrow>
          (case ip_model p of Some (c # cs) \<Rightarrow> [c # cs] | _ \<Rightarrow> [])
          @ (case ip_params_model p of Some m \<Rightarrow> [m] | None \<Rightarrow> []))"

definition collectOverrideModels :: "governed_spec \<Rightarrow> string list" where
  "collectOverrideModels spec = js_set
     (concat (map (prompt_models \<circ> snd) (case rg_prompts (gv_registry spec) of None \<Rightarrow> [] | Some ps \<Rightarrow> ps))
      @ concat (map (\<lambda>d. case gd_params_model d of Some m \<Rightarrow> [m] | None \<Rightarrow> []) (governed_definitions spec)))"

definition includes_model :: "jv list \<Rightarrow> model_id option \<Rightarrow> bool" where
  "includes_model xs m = (case m of Some (Model s) \<Rightarrow> includes_text xs s | _ \<Rightarrow> False)"

definition model_text :: "model_id option \<Rightarrow> string option" where
  "model_text m = (case m of Some (Model s) \<Rightarrow> Some s | _ \<Rightarrow> None)"

definition providerModelPolicyFailure :: "jv \<Rightarrow> string \<Rightarrow> model_id option \<Rightarrow> provider_failure option" where
  "providerModelPolicyFailure payload providerName providerModel =
     (case mappingAtOrNone payload [''providers'', ''allowed''] of
        None \<Rightarrow> None
      | Some allowed \<Rightarrow>
          (case map_of allowed providerName of
             None \<Rightarrow> Some (Provider_not_allowed providerName)
           | Some providerPolicy \<Rightarrow>
               (case listAtOrNone providerPolicy [''models''] of
                  None \<Rightarrow> None
                | Some models \<Rightarrow>
                    if includes_model models providerModel then None
                    else Some (Model_not_allowed providerName (model_text providerModel)))))"

definition inline_type :: string where "inline_type = ''inline''"

definition validateProvider :: "governed_spec \<Rightarrow> jv \<Rightarrow> check_status" where
  "validateProvider spec payload =
     (case mappingAtOrNone payload [''providers'', ''allowed''] of
        None \<Rightarrow> Skipped
      | Some allowed \<Rightarrow>
          let provider = gv_provider spec; name = pv_type provider in
          (case providerModelPolicyFailure payload name (effectiveModelFor provider) of
             Some failure \<Rightarrow> Failed [Provider_failure failure]
           | None \<Rightarrow>
               (case map_option (\<lambda>p. listAtOrNone p [''models'']) (map_of allowed name) of
                  Some (Some models) \<Rightarrow>
                    (case find (\<lambda>m. \<not> includes_text models m) (collectOverrideModels spec) of
                       Some m \<Rightarrow> Failed [Provider_failure (Model_not_allowed name (Some m))]
                     | None \<Rightarrow>
                         if pv_allow_prompt_model_override provider \<and> rg_type (gv_registry spec) \<noteq> inline_type
                         then Failed [Override_not_enforceable] else Passed)
                | _ \<Rightarrow> Passed)))"

section \<open>Secrets and registry\<close>

definition validateSecrets :: "surroundings \<Rightarrow> governed_spec \<Rightarrow> jv \<Rightarrow> check_status" where
  "validateSecrets su spec payload =
     (case mappingAtOrNone payload [''secrets''] of
        None \<Rightarrow> Skipped
      | Some secretsPolicy \<Rightarrow>
          if \<not> set_to True secretsPolicy ''require_secret_references'' then Skipped
          else verdict_of (map (Literal_secret \<circ> sr_runtime_path)
            (filter (\<lambda>r. sr_source_kind r = Src_literal) (secretReferenceRecords su (gv_document spec)))))"

definition validateRegistry :: "governed_spec \<Rightarrow> jv \<Rightarrow> check_status" where
  "validateRegistry spec payload =
     (case (case mappingAtOrNone payload [''runtime'', ''registry''] of
              None \<Rightarrow> None | Some m \<Rightarrow> listAtOrNone (JObj m) [''allowed_hosts'']) of
        None \<Rightarrow> Skipped
      | Some allowedHosts \<Rightarrow>
          let registry = gv_registry spec in
          if rg_type registry = inline_type \<or> rg_type registry = ''custom'' then Passed
          else (case rg_host registry of
                  None \<Rightarrow> Failed [Registry_host_missing]
                | Some host \<Rightarrow>
                    if includes_text allowedHosts host then Passed else Failed [Registry_host_not_allowed host]))"

section \<open>Artifacts\<close>

definition mediaTypeMatches :: "string \<Rightarrow> string \<Rightarrow> bool" where
  "mediaTypeMatches candidate pattern =
     (if pattern = ''*/*'' then True
      else if candidate = pattern then True
      else if endsWith pattern ''/*'' \<and> \<not> endsWith candidate ''/*''
      then startsWith candidate (butlast pattern)
      else if endsWith candidate ''/*'' \<and> endsWith pattern ''/*'' then candidate = pattern
      else False)"

definition mediaAllowed :: "string \<Rightarrow> jv list \<Rightarrow> bool" where
  "mediaAllowed candidate allowed \<longleftrightarrow>
     list_ex (\<lambda>p. case p of JStr s \<Rightarrow> mediaTypeMatches candidate s | _ \<Rightarrow> False) allowed"

definition declaration_failures ::
    "jv list option \<Rightarrow> jsnum option \<Rightarrow> string \<Rightarrow> artifact_declaration \<Rightarrow> artifact_failure list" where
  "declaration_failures allowedMedia maxBytes name a =
     (case allowedMedia of
        None \<Rightarrow> []
      | Some allowed \<Rightarrow> map (Activity_media_type_not_allowed name (da_name a))
          (filter (\<lambda>media. \<not> mediaAllowed media allowed) (da_media_types a)))
     @ (case (maxBytes, da_max_bytes a) of
          (Some m, Some n) \<Rightarrow> fail_if (num_lt m n) (Activity_max_bytes_exceeds name (da_name a) n m)
        | _ \<Rightarrow> [])"

definition activity_artifacts :: "governed_definition \<Rightarrow> artifact_declaration list" where
  "activity_artifacts d = (case gd_artifacts d of None \<Rightarrow> [] | Some as \<Rightarrow> as)"

definition artifact_failures ::
    "jv list option \<Rightarrow> jsnum option \<Rightarrow> governed_definition \<Rightarrow> artifact_failure list" where
  "artifact_failures allowedMedia maxBytes d =
     concat (map (declaration_failures allowedMedia maxBytes (gd_name d)) (activity_artifacts d))"

definition runtime_sources :: "governed_spec \<Rightarrow> string list" where
  "runtime_sources spec = (case gv_artifacts spec of None \<Rightarrow> [''local_path''] | Some a \<Rightarrow> as_allowed_sources a)"

definition runtime_media :: "governed_spec \<Rightarrow> string list" where
  "runtime_media spec = (case gv_artifacts spec of None \<Rightarrow> [] | Some a \<Rightarrow> as_allowed_media_types a)"

definition runtime_max_bytes :: "governed_spec \<Rightarrow> jsnum option" where
  "runtime_max_bytes spec = (case gv_artifacts spec of None \<Rightarrow> None | Some a \<Rightarrow> as_max_bytes a)"

definition validateArtifacts :: "governed_spec \<Rightarrow> jv \<Rightarrow> check_status" where
  "validateArtifacts spec payload =
     (case mappingAtOrNone payload [''artifacts''] of
        None \<Rightarrow> Skipped
      | Some block \<Rightarrow>
          let media = runtime_media spec;
              allowedMedia = listAtOrNone (JObj block) [''allowed_media_types''];
              maxBytes = number_at block ''max_bytes''
          in verdict_of (map Artifact_failure
            ((case listAtOrNone (JObj block) [''allowed_sources''] of
                None \<Rightarrow> []
              | Some allowed \<Rightarrow> map Source_not_allowed (filter (\<lambda>s. \<not> includes_text allowed s) (runtime_sources spec)))
             @ (case allowedMedia of
                  None \<Rightarrow> []
                | Some allowed \<Rightarrow>
                    fail_if (media = []) Media_types_unconstrained
                    @ map Media_type_not_allowed (filter (\<lambda>m. \<not> mediaAllowed m allowed) media))
             @ (case maxBytes of
                  None \<Rightarrow> []
                | Some m \<Rightarrow>
                    (case runtime_max_bytes spec of
                       None \<Rightarrow> [Max_bytes_missing]
                     | Some n \<Rightarrow> fail_if (num_lt m n) (Max_bytes_exceeds n m)))
             @ concat (map (artifact_failures allowedMedia maxBytes) (governed_definitions spec)))))"

section \<open>Observability\<close>

text \<open>\<open>redactionEnabled\<close> and \<open>missingCustomRedactionRules\<close>, shared with the risk tiers.\<close>

definition redactionEnabled :: "governed_spec \<Rightarrow> bool" where
  "redactionEnabled spec =
     (case gv_observability spec of
        None \<Rightarrow> True
      | Some ob \<Rightarrow>
          (case ob_redaction ob of
             None \<Rightarrow> True
           | Some r \<Rightarrow> (case rd_enabled r of None \<Rightarrow> True | Some b \<Rightarrow> b)))"

definition preserves_metadata :: "governed_spec \<Rightarrow> bool" where
  "preserves_metadata spec =
     (case gv_observability spec of
        None \<Rightarrow> True
      | Some ob \<Rightarrow>
          (case ob_redaction ob of
             None \<Rightarrow> True
           | Some r \<Rightarrow> (case rd_preserve_typeflux_metadata r of None \<Rightarrow> True | Some b \<Rightarrow> b)))"

definition missingCustomRedactionRules :: "governed_spec \<Rightarrow> string list \<Rightarrow> string list" where
  "missingCustomRedactionRules spec required =
     (let present = (case gv_observability spec of
        None \<Rightarrow> []
      | Some ob \<Rightarrow>
          (case ob_redaction ob of
             None \<Rightarrow> []
           | Some r \<Rightarrow> (case rd_custom_rules r of None \<Rightarrow> [] | Some names \<Rightarrow> names)))
      in filter (\<lambda>name. name \<notin> set present) required)"

definition observability_backend :: "governed_spec \<Rightarrow> string" where
  "observability_backend spec =
     (case gv_observability spec of
        None \<Rightarrow> ''none''
      | Some ob \<Rightarrow> (case ob_type ob of Some (c # cs) \<Rightarrow> c # cs | _ \<Rightarrow> ''none''))"

text \<open>The names in \<open>require_custom_rules\<close> are strings by the schema of the policy.\<close>

definition rules_failures :: "governed_spec \<Rightarrow> string list \<Rightarrow> observability_failure list" where
  "rules_failures spec required =
     (if required = [] then []
      else fail_if (\<not> redactionEnabled spec) (Rules_required_but_disabled (sort_strings required))
           @ (let missing = missingCustomRedactionRules spec required
              in fail_if (missing \<noteq> []) (Rules_missing (sort_strings missing))))"

definition validateObservability :: "governed_spec \<Rightarrow> jv \<Rightarrow> check_status" where
  "validateObservability spec payload =
     (case mappingAtOrNone payload [''observability''] of
        None \<Rightarrow> Skipped
      | Some obsPolicy \<Rightarrow>
          let backend = observability_backend spec in verdict_of (map Observability_failure
            (fail_if (set_to True obsPolicy ''required'' \<and> backend = ''none'') Observability_required
             @ (case listAtOrNone (JObj obsPolicy) [''allowed_backends''] of
                  None \<Rightarrow> []
                | Some allowed \<Rightarrow> fail_if (\<not> includes_text allowed backend) (Backend_not_allowed backend))
             @ (case mappingAtOrNone (JObj obsPolicy) [''redaction''] of
                  None \<Rightarrow> []
                | Some redactionPolicy \<Rightarrow>
                    fail_if (set_to True redactionPolicy ''required'' \<and> \<not> redactionEnabled spec) Redaction_required
                    @ fail_if (set_to True redactionPolicy ''preserve_typeflux_metadata''
                               \<and> \<not> preserves_metadata spec) Metadata_not_preserved
                    @ (case listAtOrNone (JObj redactionPolicy) [''require_custom_rules''] of
                         None \<Rightarrow> []
                       | Some rules \<Rightarrow> rules_failures spec (string_items rules))))))"

section \<open>Temporal connection\<close>

definition payloadCodecConfiguredForSpec :: "governed_spec \<Rightarrow> bool" where
  "payloadCodecConfiguredForSpec spec = tm_payload_codec (gv_temporal spec)"

definition region_failures ::
    "string option \<Rightarrow> string \<Rightarrow> (string \<times> jv) list \<Rightarrow> temporal_failure list" where
  "region_failures region address temporalPolicy =
     (let allowedRegions = listAtOrNone (JObj temporalPolicy) [''allowed_regions''] in
      case mappingAtOrNone (JObj temporalPolicy) [''address_regions''] of
        Some addressRegions \<Rightarrow>
          (case map_of addressRegions address of
             Some (JStr mapped) \<Rightarrow>
               (case allowedRegions of
                  Some allowed \<Rightarrow> fail_if (\<not> includes_text allowed mapped) (Mapped_region_not_allowed address mapped)
                | None \<Rightarrow> [])
               @ (case region of
                    Some r \<Rightarrow> fail_if (r \<noteq> mapped) (Region_conflict r mapped)
                  | None \<Rightarrow> [])
           | _ \<Rightarrow> [Region_not_mapped address])
      | None \<Rightarrow>
          (case allowedRegions of
             Some allowed \<Rightarrow>
               (case region of
                  Some r \<Rightarrow> fail_if (\<not> includes_text allowed r) (Region_not_allowed (Some r))
                | None \<Rightarrow> [Region_not_allowed None])
           | None \<Rightarrow> []))"

definition tls_enabled :: "governed_spec \<Rightarrow> bool" where
  "tls_enabled spec \<longleftrightarrow> (case tm_tls (gv_temporal spec) of None \<Rightarrow> False | Some t \<Rightarrow> t \<noteq> Tls_flag False)"

definition temporal_address :: "governed_spec \<Rightarrow> string" where
  "temporal_address spec = (case tm_address (gv_temporal spec) of None \<Rightarrow> ''localhost:7233'' | Some a \<Rightarrow> a)"

definition temporal_namespace :: "governed_spec \<Rightarrow> string" where
  "temporal_namespace spec = (case tm_namespace (gv_temporal spec) of None \<Rightarrow> ''default'' | Some n \<Rightarrow> n)"

definition validateTemporal :: "surroundings \<Rightarrow> governed_spec \<Rightarrow> jv \<Rightarrow> check_status" where
  "validateTemporal su spec payload =
     (case mappingAtOrNone payload [''runtime'', ''temporal''] of
        None \<Rightarrow> Skipped
      | Some policy \<Rightarrow>
          let address = temporal_address spec; namespace = temporal_namespace spec in verdict_of (map Temporal_failure
            ((case listAtOrNone (JObj policy) [''allowed_addresses''] of
                None \<Rightarrow> []
              | Some allowed \<Rightarrow> fail_if (\<not> includes_text allowed address) (Address_not_allowed address))
             @ (case listAtOrNone (JObj policy) [''allowed_namespaces''] of
                  None \<Rightarrow> []
                | Some allowed \<Rightarrow> fail_if (\<not> includes_text allowed namespace) (Namespace_not_allowed namespace))
             @ region_failures (su_env su ''TYPEFLUX_TEMPORAL_REGION'') address policy
             @ fail_if (set_to True policy ''require_tls'' \<and> \<not> tls_enabled spec) Tls_required
             @ fail_if (set_to True policy ''require_api_key''
                        \<and> \<not> secretValueConfigured su (tm_api_key (gv_temporal spec))) Api_key_required
             @ fail_if (set_to True policy ''require_payload_codec''
                        \<and> \<not> payloadCodecConfiguredForSpec spec) Payload_codec_required)))"

end
