(* ===== verification/Policy_Admission.thy ===== *)
theory Policy_Admission
  imports Policy_Check
begin

text \<open>
  Admission of a workflow against a composed policy, second part
  (\<open>packages/typescript/yaml/src/policy-enforcement.ts\<close>): review routes, moderation, provider retry and
  call limits, composition ceilings, risk tiers, the list of all checks, fail-closed enforcement and the
  guard that runs inside an activity.
\<close>

section \<open>Review routes\<close>

definition enabledReviewGates :: "governed_spec \<Rightarrow> (string \<times> invalid_policy) list" where
  "enabledReviewGates spec =
     (case gv_lifecycle spec of
        None \<Rightarrow> []
      | Some l \<Rightarrow>
          if \<not> wl_enabled l then []
          else (case wl_review l of
                  Some r \<Rightarrow> [(''review'', invalid_user_decision r)]
                | None \<Rightarrow>
                    (case wl_gates l of
                       None \<Rightarrow> []
                     | Some named \<Rightarrow> map (\<lambda>g. (lg_id g, invalid_user_decision g)) named)))"

text \<open>\<open>undefined\<close> stands for a key the policy does not have; the two decisions are compared as texts.\<close>

definition validateReview :: "governed_spec \<Rightarrow> jv \<Rightarrow> check_status" where
  "validateReview spec payload =
     (case mappingAtOrNone payload [''review''] of
        None \<Rightarrow> Skipped
      | Some reviewPolicy \<Rightarrow>
          let enabled = enabledReviewGates spec in verdict_of (map Posture_failure
            (fail_if (set_to True reviewPolicy ''require_review_routes'' \<and> enabled = []) Review_required
             @ (case map_of reviewPolicy ''invalid_user_decision'' of
                  None \<Rightarrow> []
                | Some decision \<Rightarrow>
                    fail_if (enabled = []) Review_required_for_decision
                    @ concat (map (\<lambda>(gate, d). fail_if (\<not> strict_eq (JStr (invalid_name d)) decision)
                                                      (Gate_decision_differs gate d decision)) enabled)))))"

section \<open>Moderation\<close>

definition activitiesMissingModeration :: "governed_spec \<Rightarrow> string list" where
  "activitiesMissingModeration spec =
     map gd_name (filter (\<lambda>d. gd_moderation d = None) (governed_definitions spec))"

definition moderation_failures :: "string list \<Rightarrow> bool \<Rightarrow> governed_definition \<Rightarrow> posture_failure list" where
  "moderation_failures missing requireBlock d =
     (if gd_name d \<in> set missing then [Moderation_required (gd_name d)]
      else (case gd_moderation d of
              Some v \<Rightarrow> fail_if (requireBlock \<and> v \<noteq> Violation_block) (Block_required (gd_name d) (Some v))
            | None \<Rightarrow> []))"

definition validateSemantics :: "governed_spec \<Rightarrow> jv \<Rightarrow> check_status" where
  "validateSemantics spec payload =
     (case mappingAtOrNone payload [''semantics''] of
        None \<Rightarrow> Skipped
      | Some semanticsPolicy \<Rightarrow>
          let requireBlock = set_to True semanticsPolicy ''require_block'';
              requiresModeration = set_to True semanticsPolicy ''required'' \<or> requireBlock
          in if \<not> requiresModeration \<or> governed_definitions spec = [] then Skipped
             else verdict_of (map Posture_failure
               (concat (map (moderation_failures (activitiesMissingModeration spec) requireBlock)
                            (governed_definitions spec)))))"

section \<open>Provider retry\<close>

definition retry_attempts :: "governed_spec \<Rightarrow> jsnum" where
  "retry_attempts spec =
     (case gv_provider_retry spec of None \<Rightarrow> IntN 1
      | Some r \<Rightarrow> (case rt_max_attempts r of None \<Rightarrow> IntN 1 | Some n \<Rightarrow> n))"

definition retries_rate_limits :: "governed_spec \<Rightarrow> bool" where
  "retries_rate_limits spec = (case gv_provider_retry spec of None \<Rightarrow> True | Some r \<Rightarrow> rt_retry_rate_limits r)"

definition retries_transient_errors :: "governed_spec \<Rightarrow> bool" where
  "retries_transient_errors spec =
     (case gv_provider_retry spec of None \<Rightarrow> True | Some r \<Rightarrow> rt_retry_transient_errors r)"

definition validateProviderRetry :: "governed_spec \<Rightarrow> jv \<Rightarrow> check_status" where
  "validateProviderRetry spec payload =
     (case mappingAtOrNone payload [''runtime'', ''provider_retry''] of
        None \<Rightarrow> Skipped
      | Some retryPolicy \<Rightarrow>
          let maxAttempts = retry_attempts spec
          in verdict_of (map Posture_failure
            ((case number_at retryPolicy ''max_attempts'' of
                None \<Rightarrow> [] | Some m \<Rightarrow> fail_if (num_lt m maxAttempts) (Attempts_exceed maxAttempts m))
             @ fail_if (set_to False retryPolicy ''retry_rate_limits'' \<and> retries_rate_limits spec) Rate_limit_retry_broader
             @ fail_if (set_to False retryPolicy ''retry_transient_errors'' \<and> retries_transient_errors spec) Transient_retry_broader)))"

section \<open>Provider call limits\<close>

definition nonEmptyMapping :: "(string \<times> jv) list option \<Rightarrow> (string \<times> jv) list option" where
  "nonEmptyMapping m = (case m of Some (e # es) \<Rightarrow> Some (e # es) | _ \<Rightarrow> None)"

text \<open>An inherited member used as a key is a text no mapping has.\<close>

definition selectPolicyProviderLimit ::
    "(string \<times> jv) list \<Rightarrow> string \<Rightarrow> model_id option \<Rightarrow> (string \<times> jv) list option" where
  "selectPolicyProviderLimit limitsPolicy providerName providerModel =
     (let fallback = nonEmptyMapping (mappingAtOrNone (JObj limitsPolicy) [''default''])
      in case nonEmptyMapping (mappingAtOrNone (JObj limitsPolicy) [''providers'']) of
           None \<Rightarrow> fallback
         | Some providers \<Rightarrow>
             (case nonEmptyMapping (mappingAtOrNone (JObj providers) [providerName]) of
                None \<Rightarrow> fallback
              | Some providerLimits \<Rightarrow>
                  orelse (case model_text providerModel of
                            None \<Rightarrow> None
                          | Some m \<Rightarrow> nonEmptyMapping (mappingAtOrNone (JObj providerLimits) [''models'', m]))
                    (orelse (nonEmptyMapping (mappingAtOrNone (JObj providerLimits) [''limits''])) fallback)))"

definition selectRuntimeProviderLimit ::
    "limits_section \<Rightarrow> string \<Rightarrow> model_id option \<Rightarrow> limit_tier option" where
  "selectRuntimeProviderLimit limits providerName providerModel =
     (case map_of (lm_providers limits) providerName of
        None \<Rightarrow> lm_default limits
      | Some providerSpec \<Rightarrow>
          (case Option.bind (model_text providerModel) (map_of (lt_models providerSpec)) of
             Some tier \<Rightarrow> Some tier
           | None \<Rightarrow>
               if lt_max_concurrent providerSpec \<noteq> None \<or> lt_min_interval_seconds providerSpec \<noteq> None
               then Some (limit_tier.truncate providerSpec) else lm_default limits))"

definition providerLimitFailures :: "limit_tier \<Rightarrow> (string \<times> jv) list \<Rightarrow> ceiling_failure list" where
  "providerLimitFailures runtime policy =
     (case number_at policy ''max_concurrent'' of
        None \<Rightarrow> []
      | Some m \<Rightarrow> fail_if (case lt_max_concurrent runtime of None \<Rightarrow> True | Some n \<Rightarrow> num_lt m n)
                         (Max_concurrent_broader m))
     @ (case number_at policy ''min_interval_seconds'' of
          None \<Rightarrow> []
        | Some m \<Rightarrow> fail_if (case lt_min_interval_seconds runtime of None \<Rightarrow> True | Some n \<Rightarrow> num_lt n m)
                           (Min_interval_broader m))"

definition validateProviderLimits :: "governed_spec \<Rightarrow> jv \<Rightarrow> check_status" where
  "validateProviderLimits spec payload =
     (case mappingAtOrNone payload [''runtime'', ''provider_limits''] of
        None \<Rightarrow> Skipped
      | Some limitsPolicy \<Rightarrow>
          let name = pv_type (gv_provider spec); model = effectiveModelFor (gv_provider spec) in
          (case selectPolicyProviderLimit limitsPolicy name model of
             None \<Rightarrow> Skipped
           | Some policyLimits \<Rightarrow>
               (case Option.bind (gv_provider_limits spec) (\<lambda>l. selectRuntimeProviderLimit l name model) of
                  None \<Rightarrow> Failed [Ceiling_failure Limits_missing]
                | Some runtimeLimits \<Rightarrow> verdict_of (map Ceiling_failure (providerLimitFailures runtimeLimits policyLimits)))))"

section \<open>Composition ceilings\<close>

record composition_metrics =
  flattenedStepCount :: nat
  maxParallelWidth :: nat
  maxParallelNesting :: nat
  widestParallelStep :: "string option"
  deepestParallelStep :: "string option"
  mapOverWorkflowStepIds :: "string list"

definition enter_parallel ::
    "string \<Rightarrow> nat \<Rightarrow> nat \<Rightarrow> composition_metrics \<Rightarrow> composition_metrics" where
  "enter_parallel sid width nesting m =
     (let m1 = (if width > maxParallelWidth m
                then m\<lparr>maxParallelWidth := width, widestParallelStep := Some sid\<rparr> else m)
      in if nesting > maxParallelNesting m1
         then m1\<lparr>maxParallelNesting := nesting, deepestParallelStep := Some sid\<rparr> else m1)"

definition fans_out_workflow :: "workflow_map_spec option \<Rightarrow> bool" where
  "fans_out_workflow m \<longleftrightarrow> (case m of None \<Rightarrow> False | Some w \<Rightarrow> wm_workflow w \<noteq> None)"

fun measure_steps :: "workflow_step_spec list \<Rightarrow> nat \<Rightarrow> composition_metrics \<Rightarrow> composition_metrics"
  and measure_branches :: "workflow_parallel_branch_spec list \<Rightarrow> nat \<Rightarrow> composition_metrics \<Rightarrow> composition_metrics" where
  "measure_steps [] depth m = m"
| "measure_steps (StepSpec sid act mp par wh sub undo # rest) depth m =
     (let m1 = m\<lparr>flattenedStepCount := flattenedStepCount m + 1\<rparr> in
      measure_steps rest depth
        (if fans_out_workflow mp then m1\<lparr>mapOverWorkflowStepIds := mapOverWorkflowStepIds m1 @ [sid]\<rparr>
         else (case par of
                 None \<Rightarrow> m1
               | Some (ParallelSpec branches out mb) \<Rightarrow>
                   measure_branches branches (depth + 1) (enter_parallel sid (length branches) (depth + 1) m1))))"
| "measure_branches [] depth m = m"
| "measure_branches (BranchSpec bid wh steps # rest) depth m = measure_branches rest depth (measure_steps steps depth m)"

definition collectCompositionMetrics :: "workflow_step_spec list \<Rightarrow> composition_metrics" where
  "collectCompositionMetrics steps = measure_steps steps 0
     \<lparr>flattenedStepCount = 0, maxParallelWidth = 0, maxParallelNesting = 0, widestParallelStep = None,
      deepestParallelStep = None, mapOverWorkflowStepIds = []\<rparr>"

definition exceeds :: "nat \<Rightarrow> jsnum \<Rightarrow> bool" where
  "exceeds n limit \<longleftrightarrow> num_lt limit (IntN (int n))"

definition composition_failures :: "composition_metrics \<Rightarrow> (string \<times> jv) list \<Rightarrow> ceiling_failure list" where
  "composition_failures metrics policy =
     (case number_at policy ''max_steps'' of
        None \<Rightarrow> [] | Some m \<Rightarrow> fail_if (exceeds (flattenedStepCount metrics) m)
                                     (Steps_exceed (flattenedStepCount metrics) m))
     @ (case number_at policy ''max_total_steps'' of
          None \<Rightarrow> [] | Some m \<Rightarrow> fail_if (exceeds (flattenedStepCount metrics) m)
                                       (Total_steps_exceed (flattenedStepCount metrics) m))
     @ (case number_at policy ''max_parallel_width'' of
          None \<Rightarrow> [] | Some m \<Rightarrow> fail_if (exceeds (maxParallelWidth metrics) m)
                                 (Width_exceeds (widestParallelStep metrics) (maxParallelWidth metrics) m))
     @ (case number_at policy ''max_parallel_nesting'' of
          None \<Rightarrow> [] | Some m \<Rightarrow> fail_if (exceeds (maxParallelNesting metrics) m)
                                 (Nesting_exceeds (deepestParallelStep metrics) (maxParallelNesting metrics) m))
     @ fail_if (set_to False policy ''allow_map_over_workflow'' \<and> mapOverWorkflowStepIds metrics \<noteq> [])
               (Map_over_workflow_forbidden (mapOverWorkflowStepIds metrics))"

definition validateComposition :: "governed_spec \<Rightarrow> jv \<Rightarrow> check_status" where
  "validateComposition spec payload =
     (case nonEmptyMapping (mappingAtOrNone payload [''composition'']) of
        None \<Rightarrow> Skipped
      | Some policy \<Rightarrow> verdict_of (map Ceiling_failure
        (composition_failures (collectCompositionMetrics (gv_steps spec)) policy)))"

section \<open>Compensation of side effects\<close>

fun uncompensated :: "string list \<Rightarrow> workflow_step_spec list \<Rightarrow> string list"
  and uncompensated_branches :: "string list \<Rightarrow> workflow_parallel_branch_spec list \<Rightarrow> string list" where
  "uncompensated effecting [] = []"
| "uncompensated effecting (StepSpec sid act mp par wh sub undo # rest) =
     (case par of
        Some (ParallelSpec branches out mb) \<Rightarrow> uncompensated_branches effecting branches
      | None \<Rightarrow>
          (case orelse act (Option.bind mp wm_activity) of
             Some invoked \<Rightarrow> if invoked \<in> set effecting \<and> undo = None then [sid] else []
           | None \<Rightarrow> []))
     @ uncompensated effecting rest"
| "uncompensated_branches effecting [] = []"
| "uncompensated_branches effecting (BranchSpec bid wh steps # rest) =
     uncompensated effecting steps @ uncompensated_branches effecting rest"

definition sideEffectingStepsMissingCompensation :: "governed_spec \<Rightarrow> string list" where
  "sideEffectingStepsMissingCompensation spec =
     (let effecting = map gd_name (filter gd_side_effecting (governed_definitions spec))
      in if effecting = [] then [] else uncompensated effecting (gv_steps spec))"

section \<open>Risk tiers\<close>

text \<open>An unknown tier ranks above all others.\<close>

definition tierRank :: "string \<Rightarrow> nat" where
  "tierRank tier = (case index_of RISK_TIER_ORDER tier of Some i \<Rightarrow> i | None \<Rightarrow> length RISK_TIER_ORDER)"

definition maxTier :: "string \<Rightarrow> string \<Rightarrow> string" where
  "maxTier best tier = (if tierRank tier > tierRank best then tier else best)"

datatype floor_source = From_declared | From_closure | From_policy_floor

record risk_evaluation =
  re_declared :: string
  re_floor :: string
  re_effective :: string
  re_floor_source :: floor_source
  re_undeclared :: bool
  re_require_declared :: bool
  re_denied :: bool
  re_requirements :: "(risk_requirement \<times> bool) list"

definition need :: "(string \<times> jv) list \<Rightarrow> string \<Rightarrow> risk_requirement \<Rightarrow> bool \<Rightarrow> (risk_requirement \<times> bool) list" where
  "need tierBlock key req satisfied = (if set_to True tierBlock key then [(req, satisfied)] else [])"

definition tier_requirements :: "governed_spec \<Rightarrow> (string \<times> jv) list \<Rightarrow> (risk_requirement \<times> bool) list" where
  "tier_requirements spec tierBlock =
     need tierBlock ''require_review'' Need_review (enabledReviewGates spec \<noteq> [])
     @ need tierBlock ''require_moderation'' Need_moderation (activitiesMissingModeration spec = [])
     @ need tierBlock ''require_redaction'' Need_redaction (redactionEnabled spec)
     @ need tierBlock ''require_payload_codec'' Need_payload_codec (payloadCodecConfiguredForSpec spec)
     @ need tierBlock ''require_compensation'' Need_compensation (sideEffectingStepsMissingCompensation spec = [])
     @ (case mappingAtOrNone (JObj tierBlock) [''constrain_providers''] of
          None \<Rightarrow> []
        | Some allowed \<Rightarrow>
            [(Need_providers,
              providerModelPolicyFailure (JObj [(''providers'', JObj [(''allowed'', JObj allowed)])])
                (pv_type (gv_provider spec)) (effectiveModelFor (gv_provider spec)) = None)])"

definition evaluateRiskTier :: "governed_spec \<Rightarrow> jv \<Rightarrow> string option \<Rightarrow> risk_evaluation option" where
  "evaluateRiskTier spec payload cascadeFloor =
     (case mappingAtOrNone payload [''risk_tiers''] of
        None \<Rightarrow> None
      | Some [] \<Rightarrow> None
      | Some riskPolicy \<Rightarrow>
          let declared = (case gv_risk_tier spec of None \<Rightarrow> ''safe'' | Some t \<Rightarrow> t);
              least = (case map_of riskPolicy ''min_tier'' of Some (JStr (c # cs)) \<Rightarrow> c # cs | _ \<Rightarrow> ''safe'');
              effective = (case cascadeFloor of
                             None \<Rightarrow> maxTier declared least | Some f \<Rightarrow> maxTier (maxTier declared least) f);
              tierBlock = (case mappingAtOrNone (JObj riskPolicy) [effective] of None \<Rightarrow> [] | Some m \<Rightarrow> m)
          in Some \<lparr>re_declared = declared, re_floor = least, re_effective = effective,
                   re_floor_source = (if effective = declared then From_declared
                                      else if cascadeFloor = Some effective then From_closure
                                      else From_policy_floor),
                   re_undeclared = (gv_risk_tier spec = None),
                   re_require_declared = set_to True riskPolicy ''require_declared'',
                   re_denied = (effective = ''prohibited''),
                   re_requirements = tier_requirements spec tierBlock\<rparr>)"

record risk_cascade =
  rc_lifted_by :: string
  rc_parent_effective :: string
  rc_evaluation :: risk_evaluation

text \<open>\<open>memberRiskTiers\<close> is a map in insertion order; the first member of the highest tier lifts.\<close>

definition better_member ::
    "string \<Rightarrow> (string \<times> string) option \<Rightarrow> string \<times> string \<Rightarrow> (string \<times> string) option" where
  "better_member parent best entry =
     (if fst entry = parent then best
      else (case best of
              None \<Rightarrow> Some entry
            | Some b \<Rightarrow> if tierRank (snd entry) > tierRank (snd b) then Some entry else Some b))"

definition riskTierCascade ::
    "string \<Rightarrow> risk_evaluation \<Rightarrow> (string \<times> string) list \<Rightarrow> governed_spec \<Rightarrow> jv \<Rightarrow> risk_cascade option" where
  "riskTierCascade parent parentEval memberRiskTiers spec payload =
     (case foldl (better_member parent) None memberRiskTiers of
        None \<Rightarrow> None
      | Some (liftingMember, cascadeFloor) \<Rightarrow>
          if tierRank cascadeFloor \<le> tierRank (re_effective parentEval) then None
          else map_option (\<lambda>lifted. \<lparr>rc_lifted_by = liftingMember,
                 rc_parent_effective = re_effective parentEval, rc_evaluation = lifted\<rparr>)
               (evaluateRiskTier spec payload (Some cascadeFloor)))"

definition riskTierFailures :: "risk_evaluation \<Rightarrow> bool \<Rightarrow> risk_failure list" where
  "riskTierFailures ev includeRequireDeclared =
     fail_if (includeRequireDeclared \<and> re_require_declared ev \<and> re_undeclared ev) Risk_tier_undeclared
     @ fail_if (re_denied ev) (Risk_tier_prohibited (re_effective ev))
     @ map (\<lambda>(req, ok). Risk_requirement_unsatisfied (re_effective ev) req)
           (filter (\<lambda>(req, ok). \<not> ok) (re_requirements ev))"

definition validateRiskTier :: "governed_spec \<Rightarrow> jv \<Rightarrow> check_status" where
  "validateRiskTier spec payload =
     (case evaluateRiskTier spec payload None of
        None \<Rightarrow> Skipped | Some ev \<Rightarrow> verdict_of (map Risk_failure (riskTierFailures ev True)))"

section \<open>All checks\<close>

definition validateImports :: "jv \<Rightarrow> check_status" where
  "validateImports payload = Skipped"

definition validatePolicyCompliance :: "surroundings \<Rightarrow> governed_spec \<Rightarrow> composed_policy \<Rightarrow> policy_check list" where
  "validatePolicyCompliance su spec policy =
     (let payload = JObj (cp_payload policy) in
      [(Policy_selection, Passed), (Policy_allowlists, Passed),
       (Policy_provider, validateProvider spec payload),
       (Policy_secrets, validateSecrets su spec payload),
       (Policy_registry, validateRegistry spec payload),
       (Policy_imports, validateImports payload),
       (Policy_observability, validateObservability spec payload),
       (Policy_temporal, validateTemporal su spec payload),
       (Policy_artifacts, validateArtifacts spec payload),
       (Policy_review, validateReview spec payload),
       (Policy_semantics, validateSemantics spec payload),
       (Policy_provider_retry, validateProviderRetry spec payload),
       (Policy_provider_limits, validateProviderLimits spec payload),
       (Policy_composition_ceilings, validateComposition spec payload),
       (Policy_risk_tier, validateRiskTier spec payload)])"

fun is_failed :: "check_status \<Rightarrow> bool" where
  "is_failed (Failed fs) = True"
| "is_failed _ = False"

definition enforcePolicyCompliance ::
    "surroundings \<Rightarrow> governed_spec \<Rightarrow> composed_policy \<Rightarrow> (policy_check list, unit) result" where
  "enforcePolicyCompliance su spec policy =
     (let checks = validatePolicyCompliance su spec policy
      in if filter (\<lambda>(_, status). is_failed status) checks \<noteq> [] then Inl checks else Inr ())"

section \<open>The guard inside an activity\<close>

text \<open>\<open>this.providerName || call.providerName\<close>\<close>

definition guarded_provider :: "string option \<Rightarrow> string \<Rightarrow> string" where
  "guarded_provider bound called = (case bound of Some (c # cs) \<Rightarrow> c # cs | _ \<Rightarrow> called)"

definition enforceProviderModel ::
    "jv \<Rightarrow> string option \<Rightarrow> string \<Rightarrow> string option \<Rightarrow> (provider_failure, unit) result" where
  "enforceProviderModel payload bound called callModel =
     (let providerName = guarded_provider bound called;
          model = (case callModel of Some m \<Rightarrow> Some (Model m) | None \<Rightarrow> defaultModelForProviderType providerName)
      in case providerModelPolicyFailure payload providerName model of
           None \<Rightarrow> Inr () | Some failure \<Rightarrow> Inl failure)"

definition enforceModerationConfig ::
    "jv \<Rightarrow> string \<Rightarrow> bool \<Rightarrow> on_violation option \<Rightarrow> (posture_failure, unit) result" where
  "enforceModerationConfig payload activityName configured onViolation =
     (case mappingAtOrNone payload [''semantics''] of
        None \<Rightarrow> Inr ()
      | Some semantics \<Rightarrow>
          if (set_to True semantics ''required'' \<or> set_to True semantics ''require_block'') \<and> \<not> configured
          then Inl (Moderation_required activityName)
          else if set_to True semantics ''require_block'' \<and> configured \<and> onViolation \<noteq> Some Violation_block
          then Inl (Block_required activityName onViolation)
          else Inr ())"

datatype block_reason = Disallowed_categories "string list" | Score_at_threshold jsnum jsnum

text \<open>\<open>verdict.maxScore >= threshold\<close> is false when either is NaN.\<close>

definition moderationPolicyBlock :: "jv \<Rightarrow> string list \<Rightarrow> jsnum option \<Rightarrow> block_reason option" where
  "moderationPolicyBlock payload categories maxScore =
     (case mappingAtOrNone payload [''semantics''] of
        None \<Rightarrow> None
      | Some semantics \<Rightarrow>
          let hit = (case listAtOrNone (JObj semantics) [''categories''] of
                       None \<Rightarrow> []
                     | Some disallowed \<Rightarrow> sort_strings (filter (includes_text disallowed) (js_set categories)))
          in if hit \<noteq> [] then Some (Disallowed_categories hit)
             else (case (number_at semantics ''score_threshold'', maxScore) of
                     (Some t, Some s) \<Rightarrow> if num_le t s then Some (Score_at_threshold s t) else None
                   | _ \<Rightarrow> None))"

end
