(* ===== verification/Policy_Tightening.thy ===== *)
theory Policy_Tightening
  imports Policy_Layers Policy_Admission
begin

text \<open>
  Check by check: what a policy rejects alone is rejected by every composition it is a layer of. The
  lemmas are proved from the laws of the locale \<open>tightening\<close>, for any way of composing that obeys them.
\<close>

section \<open>Reading a payload\<close>

lemma value_at_append:
  "value_at v (ks @ js) = (case value_at v ks of None \<Rightarrow> None | Some w \<Rightarrow> value_at w js)"
  by (induction v ks rule: value_at.induct) (auto split: option.splits)

lemma value_at_field:
  "value_at v (ks @ [k]) = (case mappingAtOrNone v ks of None \<Rightarrow> None | Some m \<Rightarrow> map_of m k)"
  by (simp add: value_at_append mappingAtOrNone_def split: option.splits jv.splits)

text \<open>Every read of a check goes through a block of the payload: \<open>block v ks k\<close> is the value of its key \<open>k\<close>.\<close>

lemma block_field: "mappingAtOrNone v ks = Some m \<Longrightarrow> map_of m k = value_at v (ks @ [k])"
  by (simp add: value_at_field)

lemma block_exists: "value_at v (ks @ [k]) = Some w \<Longrightarrow> \<exists>m. mappingAtOrNone v ks = Some m"
  by (simp add: value_at_field split: option.splits)

lemma list_in_block: "mappingAtOrNone v ks = Some m \<Longrightarrow> listAtOrNone (JObj m) [k] = listAtOrNone v (ks @ [k])"
  by (simp add: listAtOrNone_def value_at_field split: option.splits)

lemma mapping_in_block: "mappingAtOrNone v ks = Some m \<Longrightarrow> mappingAtOrNone (JObj m) [k] = mappingAtOrNone v (ks @ [k])"
  by (simp add: mappingAtOrNone_def value_at_field split: option.splits jv.splits)

lemma listAtOrNone_Some: "listAtOrNone v ks = Some xs \<longleftrightarrow> value_at v ks = Some (JArr xs)"
  by (auto simp: listAtOrNone_def split: option.splits jv.splits)

lemma mappingAtOrNone_Some: "mappingAtOrNone v ks = Some m \<longleftrightarrow> value_at v ks = Some (JObj m)"
  by (auto simp: mappingAtOrNone_def split: option.splits jv.splits)

lemma set_to_block: "mappingAtOrNone v ks = Some m \<Longrightarrow> set_to b m k \<longleftrightarrow> value_at v (ks @ [k]) = Some (JBool b)"
  by (simp add: set_to_def value_at_field)

lemma number_in_block:
  "mappingAtOrNone v ks = Some m \<Longrightarrow> number_at m k = Some n \<longleftrightarrow> value_at v (ks @ [k]) = Some (JNum n)"
  by (auto simp: number_at_def value_at_field split: option.splits jv.splits)

lemma includes_texts: "includes_text xs s \<longleftrightarrow> s \<in> texts xs"
  by (simp add: includes_text_def texts_def)

lemma set_string_items [simp]: "set (string_items xs) = texts xs"
  by (induction xs rule: string_items.induct) (auto simp: texts_def)

lemma mediaAllowed_texts: "mediaAllowed media xs \<longleftrightarrow> (\<exists>s\<in>texts xs. mediaTypeMatches media s)"
proof -
  have "(case v of JStr s \<Rightarrow> mediaTypeMatches media s | _ \<Rightarrow> False) \<longleftrightarrow> (\<exists>s. v = JStr s \<and> mediaTypeMatches media s)" for v
    by (cases v) auto
  then show ?thesis by (auto simp: mediaAllowed_def list_ex_iff texts_def)
qed

lemma no_block: "mappingAtOrNone v ks = None \<Longrightarrow> value_at v (ks @ k # js) = None"
  by (simp add: value_at_append mappingAtOrNone_def split: option.splits jv.splits)

lemma find_holds: "find P xs = Some x \<Longrightarrow> x \<in> set xs \<and> P x"
  by (induction xs) (auto split: if_splits)

lemma fail_if_neq_Nil [simp]: "fail_if b f = [] \<longleftrightarrow> \<not> b"
  by (simp add: fail_if_def)

lemma is_failed_verdict [simp]: "is_failed (verdict_of fs) \<longleftrightarrow> fs \<noteq> []"
  by (simp add: verdict_of_def)

lemmas block_simps = set_to_block list_in_block mapping_in_block number_in_block

lemmas path_simps = section_path_def POLICY_SECTIONS_def mapping_allowlist_path_def endsWith_def startsWith_def
  lastSegment_def field_of_def requirement_field_def allowance_field_def ALLOWLIST_FIELD_NAMES_def
  MOST_RESTRICTIVE_NUMERIC_def MOST_RESTRICTIVE_ORDERED_ENUM_def

section \<open>When a check fails\<close>

lemma provider_fails_iff:
  "is_failed (validateProvider spec v) \<longleftrightarrow>
     (\<exists>l. value_at v [''providers'', ''allowed''] = Some (JObj l) \<and>
       (case map_of l (pv_type (gv_provider spec)) of
          None \<Rightarrow> True
        | Some p \<Rightarrow> \<exists>xs. value_at p [''models''] = Some (JArr xs) \<and>
            (\<not> includes_model xs (effectiveModelFor (gv_provider spec))
             \<or> (\<exists>m\<in>set (collectOverrideModels spec). \<not> includes_text xs m)
             \<or> pv_allow_prompt_model_override (gv_provider spec) \<and> rg_type (gv_registry spec) \<noteq> inline_type)))"
proof (cases "mappingAtOrNone v [''providers'', ''allowed'']")
  case (Some l)
  show ?thesis
  proof (cases "map_of l (pv_type (gv_provider spec))")
    case p: (Some p)
    show ?thesis
      using Some p
      by (cases "listAtOrNone p [''models'']")
        (auto simp: validateProvider_def providerModelPolicyFailure_def Let_def find_None_iff
          mappingAtOrNone_Some [symmetric] listAtOrNone_Some [symmetric] split: option.splits dest: find_holds)
  qed (use Some in \<open>simp add: validateProvider_def providerModelPolicyFailure_def Let_def mappingAtOrNone_Some [symmetric]\<close>)
qed (simp add: validateProvider_def mappingAtOrNone_Some [symmetric])

lemma secrets_fails_iff:
  "is_failed (validateSecrets su spec v) \<longleftrightarrow>
     value_at v [''secrets'', ''require_secret_references''] = Some (JBool True)
     \<and> (\<exists>r\<in>set (secretReferenceRecords su (gv_document spec)). sr_source_kind r = Src_literal)"
proof (cases "mappingAtOrNone v [''secrets'']")
  case None
  with no_block [OF None] show ?thesis by (simp add: validateSecrets_def)
next
  case (Some m)
  with block_simps [OF Some] show ?thesis by (auto simp: validateSecrets_def filter_empty_conv)
qed

lemma registry_fails_iff:
  "is_failed (validateRegistry spec v) \<longleftrightarrow>
     (\<exists>xs. value_at v [''runtime'', ''registry'', ''allowed_hosts''] = Some (JArr xs)
       \<and> rg_type (gv_registry spec) \<noteq> inline_type \<and> rg_type (gv_registry spec) \<noteq> ''custom''
       \<and> (\<forall>host. rg_host (gv_registry spec) = Some host \<longrightarrow> host \<notin> texts xs))"
proof (cases "mappingAtOrNone v [''runtime'', ''registry'']")
  case None
  with no_block [OF None] show ?thesis by (simp add: validateRegistry_def)
next
  case (Some m)
  with block_simps [OF Some] show ?thesis
    by (auto simp: validateRegistry_def Let_def includes_texts split: option.splits simp flip: listAtOrNone_Some)
qed

definition rule_missing :: "governed_spec \<Rightarrow> string \<Rightarrow> bool" where
  "rule_missing spec name \<longleftrightarrow> missingCustomRedactionRules spec [name] \<noteq> []"

lemma rules_fail_iff:
  "rules_failures spec required \<noteq> [] \<longleftrightarrow>
     (\<exists>s\<in>set required. \<not> redactionEnabled spec \<or> rule_missing spec s)"
  by (cases required)
    (auto simp: rules_failures_def rule_missing_def missingCustomRedactionRules_def Let_def filter_empty_conv
      split: option.splits)

lemma observability_fails_iff:
  "is_failed (validateObservability spec v) \<longleftrightarrow>
     value_at v [''observability'', ''required''] = Some (JBool True) \<and> observability_backend spec = ''none''
     \<or> (\<exists>xs. value_at v [''observability'', ''allowed_backends''] = Some (JArr xs)
          \<and> observability_backend spec \<notin> texts xs)
     \<or> value_at v [''observability'', ''redaction'', ''required''] = Some (JBool True) \<and> \<not> redactionEnabled spec
     \<or> value_at v [''observability'', ''redaction'', ''preserve_typeflux_metadata''] = Some (JBool True)
         \<and> \<not> preserves_metadata spec
     \<or> (\<exists>xs. value_at v [''observability'', ''redaction'', ''require_custom_rules''] = Some (JArr xs)
          \<and> (\<exists>s\<in>texts xs. \<not> redactionEnabled spec \<or> rule_missing spec s))"
proof (cases "mappingAtOrNone v [''observability'']")
  case None
  with no_block [OF None] show ?thesis by (simp add: validateObservability_def)
next
  case (Some m)
  note outer = Some block_simps [OF Some]
  show ?thesis
  proof (cases "mappingAtOrNone v [''observability'', ''redaction'']")
    case None
    with no_block [OF None] outer show ?thesis
      by (auto simp: validateObservability_def Let_def includes_texts listAtOrNone_Some split: option.splits)
        (simp_all flip: listAtOrNone_Some)
  next
    case inner: (Some r)
    with block_simps [OF inner] outer show ?thesis
      by (auto simp: validateObservability_def Let_def includes_texts rules_fail_iff split: option.splits
          simp flip: listAtOrNone_Some)
  qed
qed

text \<open>Without a region mapping of the policy.\<close>

lemma temporal_fails_iff:
  assumes "value_at v [''runtime'', ''temporal'', ''address_regions''] = None"
  shows "is_failed (validateTemporal su spec v) \<longleftrightarrow>
     (\<exists>xs. value_at v [''runtime'', ''temporal'', ''allowed_addresses''] = Some (JArr xs) \<and> temporal_address spec \<notin> texts xs)
     \<or> (\<exists>xs. value_at v [''runtime'', ''temporal'', ''allowed_namespaces''] = Some (JArr xs) \<and> temporal_namespace spec \<notin> texts xs)
     \<or> (\<exists>xs. value_at v [''runtime'', ''temporal'', ''allowed_regions''] = Some (JArr xs)
          \<and> (\<forall>r. su_env su ''TYPEFLUX_TEMPORAL_REGION'' = Some r \<longrightarrow> r \<notin> texts xs))
     \<or> value_at v [''runtime'', ''temporal'', ''require_tls''] = Some (JBool True) \<and> \<not> tls_enabled spec
     \<or> value_at v [''runtime'', ''temporal'', ''require_api_key''] = Some (JBool True)
         \<and> \<not> secretValueConfigured su (tm_api_key (gv_temporal spec))
     \<or> value_at v [''runtime'', ''temporal'', ''require_payload_codec''] = Some (JBool True)
         \<and> \<not> payloadCodecConfiguredForSpec spec"
proof (cases "mappingAtOrNone v [''runtime'', ''temporal'']")
  case None
  with no_block [OF None] show ?thesis by (simp add: validateTemporal_def)
next
  case (Some m)
  from assms have "mappingAtOrNone v [''runtime'', ''temporal'', ''address_regions''] = None"
    by (simp add: mappingAtOrNone_def)
  with Some block_simps [OF Some] show ?thesis
    by (auto simp: validateTemporal_def Let_def includes_texts region_failures_def split: option.splits
        simp flip: listAtOrNone_Some)
qed

definition declared_artifacts :: "governed_spec \<Rightarrow> artifact_declaration list" where
  "declared_artifacts spec = concat (map activity_artifacts (governed_definitions spec))"

lemma artifact_failures_iff:
  "(\<exists>d\<in>set (governed_definitions spec). artifact_failures allowed maxBytes d \<noteq> []) \<longleftrightarrow>
     (\<exists>a\<in>set (declared_artifacts spec).
        (\<exists>xs. allowed = Some xs \<and> (\<exists>m\<in>set (da_media_types a). \<not> mediaAllowed m xs))
        \<or> (\<exists>n b. maxBytes = Some n \<and> da_max_bytes a = Some b \<and> num_lt n b))"
proof -
  have "declaration_failures allowed maxBytes name a \<noteq> [] \<longleftrightarrow>
        (\<exists>xs. allowed = Some xs \<and> (\<exists>m\<in>set (da_media_types a). \<not> mediaAllowed m xs))
        \<or> (\<exists>n b. maxBytes = Some n \<and> da_max_bytes a = Some b \<and> num_lt n b)" for name a
    by (cases allowed; cases maxBytes; cases "da_max_bytes a")
      (auto simp: declaration_failures_def filter_empty_conv)
  then show ?thesis by (auto simp: declared_artifacts_def artifact_failures_def)
qed

lemma artifacts_fails_iff:
  "is_failed (validateArtifacts spec v) \<longleftrightarrow>
     (\<exists>xs. value_at v [''artifacts'', ''allowed_sources''] = Some (JArr xs) \<and> (\<exists>s\<in>set (runtime_sources spec). s \<notin> texts xs))
     \<or> (\<exists>xs. value_at v [''artifacts'', ''allowed_media_types''] = Some (JArr xs) \<and>
          (runtime_media spec = [] \<or> (\<exists>m\<in>set (runtime_media spec). \<not> mediaAllowed m xs)
           \<or> (\<exists>a\<in>set (declared_artifacts spec). \<exists>m\<in>set (da_media_types a). \<not> mediaAllowed m xs)))
     \<or> (\<exists>n. value_at v [''artifacts'', ''max_bytes''] = Some (JNum n) \<and>
          (runtime_max_bytes spec = None \<or> (\<exists>b. runtime_max_bytes spec = Some b \<and> num_lt n b)
           \<or> (\<exists>a\<in>set (declared_artifacts spec). \<exists>b. da_max_bytes a = Some b \<and> num_lt n b)))"
proof (cases "mappingAtOrNone v [''artifacts'']")
  case None
  with no_block [OF None] show ?thesis by (simp add: validateArtifacts_def)
next
  case (Some m)
  let ?S = "listAtOrNone v [''artifacts'', ''allowed_sources'']"
  let ?M = "listAtOrNone v [''artifacts'', ''allowed_media_types'']"
  let ?B = "number_at m ''max_bytes''"
  have B: "?B = Some n \<longleftrightarrow> value_at v [''artifacts'', ''max_bytes''] = Some (JNum n)" for n
    using number_in_block [OF Some] by simp
  have "is_failed (validateArtifacts spec v) \<longleftrightarrow>
     (\<exists>xs. ?S = Some xs \<and> (\<exists>s\<in>set (runtime_sources spec). s \<notin> texts xs))
     \<or> (\<exists>xs. ?M = Some xs \<and> (runtime_media spec = [] \<or> (\<exists>m\<in>set (runtime_media spec). \<not> mediaAllowed m xs)))
     \<or> (\<exists>n. ?B = Some n \<and> (runtime_max_bytes spec = None \<or> (\<exists>b. runtime_max_bytes spec = Some b \<and> num_lt n b)))
     \<or> (\<exists>d\<in>set (governed_definitions spec). artifact_failures ?M ?B d \<noteq> [])"
    using Some list_in_block [OF Some]
    by (cases ?S; cases ?M; cases ?B)
      (auto simp: validateArtifacts_def Let_def includes_texts filter_empty_conv split: option.splits)
  then show ?thesis
    unfolding artifact_failures_iff B listAtOrNone_Some by blast
qed

lemma review_fails_iff:
  "is_failed (validateReview spec v) \<longleftrightarrow>
     value_at v [''review'', ''require_review_routes''] = Some (JBool True) \<and> enabledReviewGates spec = []
     \<or> (\<exists>w. value_at v [''review'', ''invalid_user_decision''] = Some w \<and>
          (enabledReviewGates spec = []
           \<or> (\<exists>(gate, d)\<in>set (enabledReviewGates spec). \<not> strict_eq (JStr (invalid_name d)) w)))"
proof (cases "mappingAtOrNone v [''review'']")
  case None
  with no_block [OF None] show ?thesis by (simp add: validateReview_def)
next
  case (Some m)
  with set_to_block [OF Some] block_field [OF Some] show ?thesis
    by (cases "map_of m ''invalid_user_decision''") (auto simp: validateReview_def Let_def case_prod_beta)
qed

lemma semantics_fails_iff:
  "is_failed (validateSemantics spec v) \<longleftrightarrow>
     (value_at v [''semantics'', ''required''] = Some (JBool True)
      \<or> value_at v [''semantics'', ''require_block''] = Some (JBool True))
     \<and> (\<exists>d\<in>set (governed_definitions spec). gd_name d \<in> set (activitiesMissingModeration spec)
          \<or> value_at v [''semantics'', ''require_block''] = Some (JBool True)
            \<and> (\<exists>w. gd_moderation d = Some w \<and> w \<noteq> Violation_block))"
proof (cases "mappingAtOrNone v [''semantics'']")
  case None
  with no_block [OF None] show ?thesis by (simp add: validateSemantics_def)
next
  case (Some m)
  have "moderation_failures missing b d \<noteq> [] \<longleftrightarrow> gd_name d \<in> set missing \<or> b \<and> (\<exists>w. gd_moderation d = Some w \<and> w \<noteq> Violation_block)"
    for missing b d
    by (auto simp: moderation_failures_def split: option.splits)
  with Some set_to_block [OF Some] show ?thesis
    by (auto simp: validateSemantics_def Let_def)
qed

lemma retry_fails_iff:
  "is_failed (validateProviderRetry spec v) \<longleftrightarrow>
     (\<exists>n. value_at v [''runtime'', ''provider_retry'', ''max_attempts''] = Some (JNum n) \<and> num_lt n (retry_attempts spec))
     \<or> value_at v [''runtime'', ''provider_retry'', ''retry_rate_limits''] = Some (JBool False) \<and> retries_rate_limits spec
     \<or> value_at v [''runtime'', ''provider_retry'', ''retry_transient_errors''] = Some (JBool False)
         \<and> retries_transient_errors spec"
proof (cases "mappingAtOrNone v [''runtime'', ''provider_retry'']")
  case None
  with no_block [OF None] show ?thesis by (simp add: validateProviderRetry_def)
next
  case (Some m)
  have attempts: "(\<exists>n. value_at v [''runtime'', ''provider_retry'', ''max_attempts''] = Some (JNum n) \<and> num_lt n x)
     \<longleftrightarrow> (\<exists>n. number_at m ''max_attempts'' = Some n \<and> num_lt n x)" for x
    using number_in_block [OF Some, of "''max_attempts''"] by simp
  show ?thesis
    unfolding attempts using Some set_to_block [OF Some]
    by (cases "number_at m ''max_attempts''") (simp_all add: validateProviderRetry_def Let_def)
qed

text \<open>The ceilings with the measure each of them bounds.\<close>

definition ceilings :: "governed_spec \<Rightarrow> (string \<times> nat) list" where
  "ceilings spec = (let m = collectCompositionMetrics (gv_steps spec) in
     [(''max_steps'', flattenedStepCount m), (''max_total_steps'', flattenedStepCount m),
      (''max_parallel_width'', maxParallelWidth m), (''max_parallel_nesting'', maxParallelNesting m)])"

lemma composition_fails_iff:
  "is_failed (validateComposition spec v) \<longleftrightarrow>
     (\<exists>(k, measured)\<in>set (ceilings spec). \<exists>n. value_at v [''composition'', k] = Some (JNum n) \<and> exceeds measured n)
     \<or> value_at v [''composition'', ''allow_map_over_workflow''] = Some (JBool False)
         \<and> mapOverWorkflowStepIds (collectCompositionMetrics (gv_steps spec)) \<noteq> []"
proof (cases "mappingAtOrNone v [''composition'']")
  case None
  with no_block [OF None] show ?thesis by (simp add: validateComposition_def nonEmptyMapping_def)
next
  case (Some m)
  have reads: "map_of m k = value_at v [''composition'', k]" for k using block_field [OF Some] by simp
  have "composition_failures (collectCompositionMetrics (gv_steps spec)) m \<noteq> [] \<longleftrightarrow>
     (\<exists>(k, measured)\<in>set (ceilings spec). \<exists>n. number_at m k = Some n \<and> exceeds measured n)
     \<or> set_to False m ''allow_map_over_workflow'' \<and> mapOverWorkflowStepIds (collectCompositionMetrics (gv_steps spec)) \<noteq> []"
    by (auto simp: composition_failures_def ceilings_def Let_def split: option.splits)
  moreover have "is_failed (validateComposition spec v) \<longleftrightarrow>
     composition_failures (collectCompositionMetrics (gv_steps spec)) m \<noteq> []"
    using Some by (cases m) (simp_all add: validateComposition_def nonEmptyMapping_def composition_failures_def
        number_at_def set_to_def)
  ultimately show ?thesis
    using set_to_block [OF Some] number_in_block [OF Some] by simp
qed

lemma moderation_block_iff:
  "moderationPolicyBlock v categories score \<noteq> None \<longleftrightarrow>
     (\<exists>xs. value_at v [''semantics'', ''categories''] = Some (JArr xs) \<and> (\<exists>s\<in>texts xs. s \<in> set categories))
     \<or> (\<exists>s. score = Some s \<and> (\<exists>t. value_at v [''semantics'', ''score_threshold''] = Some (JNum t) \<and> num_le t s))"
proof (cases "mappingAtOrNone v [''semantics'']")
  case None
  with no_block [OF None] show ?thesis by (simp add: moderationPolicyBlock_def)
next
  case (Some m)
  have hit: "sort_strings xs = [] \<longleftrightarrow> xs = []" for xs
    by (metis set_sort_strings set_empty)
  have bar: "(\<exists>t. value_at v [''semantics'', ''score_threshold''] = Some (JNum t) \<and> num_le t s)
     \<longleftrightarrow> (\<exists>t. number_at m ''score_threshold'' = Some t \<and> num_le t s)" for s
    using number_in_block [OF Some, of "''score_threshold''"] by simp
  show ?thesis
    unfolding bar using Some list_in_block [OF Some, of "''categories''"]
    by (cases "number_at m ''score_threshold''"; cases score; cases "listAtOrNone v [''semantics'', ''categories'']")
      (auto simp: moderationPolicyBlock_def Let_def hit filter_empty_conv includes_texts js_set_def
        simp flip: listAtOrNone_Some)
qed

section \<open>Checks under composition\<close>

text \<open>The fields of the payload the checks read, each with a plain path from its section.\<close>

definition required_paths :: "string list list" where
  "required_paths =
     [[''secrets'', ''require_secret_references''], [''observability'', ''required''],
      [''observability'', ''redaction'', ''required''], [''runtime'', ''temporal'', ''require_tls''],
      [''runtime'', ''temporal'', ''require_api_key''], [''runtime'', ''temporal'', ''require_payload_codec''],
      [''review'', ''require_review_routes''], [''semantics'', ''required''], [''semantics'', ''require_block'']]"

definition denied_paths :: "string list list" where
  "denied_paths =
     [[''runtime'', ''provider_retry'', ''retry_rate_limits''],
      [''runtime'', ''provider_retry'', ''retry_transient_errors''], [''composition'', ''allow_map_over_workflow'']]"

definition allowlist_paths :: "string list list" where
  "allowlist_paths =
     [[''runtime'', ''registry'', ''allowed_hosts''], [''observability'', ''allowed_backends''],
      [''runtime'', ''temporal'', ''allowed_addresses''], [''runtime'', ''temporal'', ''allowed_namespaces''],
      [''runtime'', ''temporal'', ''allowed_regions''], [''artifacts'', ''allowed_sources''],
      [''artifacts'', ''allowed_media_types'']]"

definition ceiling_paths :: "string list list" where
  "ceiling_paths =
     [[''artifacts'', ''max_bytes''], [''runtime'', ''provider_retry'', ''max_attempts''],
      [''composition'', ''max_steps''], [''composition'', ''max_total_steps''],
      [''composition'', ''max_parallel_width''], [''composition'', ''max_parallel_nesting'']]"

lemma required_paths_rule: "ks \<in> set required_paths \<Longrightarrow> section_path ks \<and> requirement_field (field_of ks)"
  unfolding required_paths_def by (auto simp: path_simps)

lemma denied_paths_rule: "ks \<in> set denied_paths \<Longrightarrow> section_path ks \<and> \<not> requirement_field (field_of ks)"
  unfolding denied_paths_def by (auto simp: path_simps)

lemma allowlist_paths_rule: "ks \<in> set allowlist_paths \<Longrightarrow> section_path ks \<and> last ks \<in> set ALLOWLIST_FIELD_NAMES"
  unfolding allowlist_paths_def by (auto simp: path_simps)

lemma ceiling_paths_rule:
  "ks \<in> set ceiling_paths \<Longrightarrow> section_path ks \<and> map_of MOST_RESTRICTIVE_NUMERIC (field_of ks) \<noteq> Some Take_max"
  unfolding ceiling_paths_def by (auto simp: path_simps)

context tightening begin

lemma required_at: "layer P C \<Longrightarrow> ks \<in> set required_paths \<Longrightarrow> value_at P ks = Some (JBool True) \<Longrightarrow>
    value_at C ks = Some (JBool True)"
  using required_paths_rule required by blast

lemma denied_at: "layer P C \<Longrightarrow> ks \<in> set denied_paths \<Longrightarrow> value_at P ks = Some (JBool False) \<Longrightarrow>
    value_at C ks = Some (JBool False)"
  using denied_paths_rule denied by blast

lemma allowlist_at: "layer P C \<Longrightarrow> ks \<in> set allowlist_paths \<Longrightarrow> value_at P ks = Some (JArr xs) \<Longrightarrow>
    \<exists>ys. value_at C ks = Some (JArr ys) \<and> texts ys \<subseteq> texts xs"
  using allowlist_paths_rule allowlists by blast

lemma ceiling_at: "layer P C \<Longrightarrow> ks \<in> set ceiling_paths \<Longrightarrow> value_at P ks = Some (JNum x) \<Longrightarrow>
    \<exists>y. value_at C ks = Some (JNum y) \<and> (\<forall>n. num_lt x n \<longrightarrow> num_lt y n)"
  using ceiling_paths_rule numbers num_stricter_lt by meson

text \<open>The same laws for the shape in which the checks use them.\<close>

lemma allowlist_excludes:
  assumes "layer P C" and "ks \<in> set allowlist_paths" and "\<exists>xs. value_at P ks = Some (JArr xs) \<and> Q (texts xs)"
    and "\<And>A B. Q A \<Longrightarrow> B \<subseteq> A \<Longrightarrow> Q B"
  shows "\<exists>ys. value_at C ks = Some (JArr ys) \<and> Q (texts ys)"
proof -
  from assms(3) obtain xs where xs: "value_at P ks = Some (JArr xs)" "Q (texts xs)" by blast
  from allowlist_at [OF assms(1,2) xs(1)] obtain ys where ys: "value_at C ks = Some (JArr ys)"
    "texts ys \<subseteq> texts xs" by blast
  from assms(4) [OF xs(2) ys(2)] ys(1) show ?thesis by blast
qed

lemma ceiling_exceeded:
  assumes "layer P C" and "ks \<in> set ceiling_paths" and "\<exists>x. value_at P ks = Some (JNum x) \<and> Q x"
    and "\<And>x y. Q x \<Longrightarrow> (\<And>n. num_lt x n \<Longrightarrow> num_lt y n) \<Longrightarrow> Q y"
  shows "\<exists>y. value_at C ks = Some (JNum y) \<and> Q y"
proof -
  from assms(3) obtain x where x: "value_at P ks = Some (JNum x)" "Q x" by blast
  from ceiling_at [OF assms(1,2) x(1)] obtain y where y: "value_at C ks = Some (JNum y)"
    "\<forall>n. num_lt x n \<longrightarrow> num_lt y n" by blast
  from assms(4) [OF x(2), of y] y show ?thesis by blast
qed

lemma provider_entry:
  assumes "layer P C" and "value_at P [''providers'', ''allowed''] = Some (JObj l)" and "\<not> mapping_allowlist_path t"
  obtains m where "value_at C [''providers'', ''allowed''] = Some (JObj m)" "map_of m t = None"
  | m v w where "value_at C [''providers'', ''allowed''] = Some (JObj m)" "map_of m t = Some w" "map_of l t = Some v"
    "\<And>xs. value_at v [''models''] = Some (JArr xs) \<Longrightarrow>
       \<exists>ys. value_at w [''models''] = Some (JArr ys) \<and> texts ys \<subseteq> texts xs"
proof -
  from providers [OF assms(1,2)] obtain m where m: "value_at C [''providers'', ''allowed''] = Some (JObj m)"
    and sub: "\<And>k w. map_of m k = Some w \<Longrightarrow> \<exists>v. map_of l k = Some v \<and> (\<not> mapping_allowlist_path k \<longrightarrow>
      (\<forall>xs. value_at v [''models''] = Some (JArr xs) \<longrightarrow>
        (\<exists>ys. value_at w [''models''] = Some (JArr ys) \<and> texts ys \<subseteq> texts xs)))"
    by blast
  show thesis
  proof (cases "map_of m t")
    case None
    with m that(1) show thesis by blast
  next
    case (Some w)
    with sub assms(3) obtain v where "map_of l t = Some v"
      "\<forall>xs. value_at v [''models''] = Some (JArr xs) \<longrightarrow>
        (\<exists>ys. value_at w [''models''] = Some (JArr ys) \<and> texts ys \<subseteq> texts xs)"
      by blast
    with m Some that(2) show thesis by blast
  qed
qed

lemma includes_model_mono: "texts ys \<subseteq> texts xs \<Longrightarrow> includes_model ys e \<Longrightarrow> includes_model xs e"
  by (auto simp: includes_model_def includes_texts split: option.splits model_id.splits)

lemma provider_tightens:
  assumes "layer P C" and "is_failed (validateProvider spec P)"
    and "\<not> mapping_allowlist_path (pv_type (gv_provider spec))"
  shows "is_failed (validateProvider spec C)"
proof -
  from assms(2) obtain l where l: "value_at P [''providers'', ''allowed''] = Some (JObj l)"
    unfolding provider_fails_iff by blast
  from assms(1) l assms(3) show ?thesis
  proof (cases rule: provider_entry)
    case (1 m)
    then show ?thesis by (simp add: provider_fails_iff)
  next
    case (2 m v w)
    from assms(2) l 2(3) obtain xs where xs: "value_at v [''models''] = Some (JArr xs)"
      "\<not> includes_model xs (effectiveModelFor (gv_provider spec))
       \<or> (\<exists>m\<in>set (collectOverrideModels spec). \<not> includes_text xs m)
       \<or> pv_allow_prompt_model_override (gv_provider spec) \<and> rg_type (gv_registry spec) \<noteq> inline_type"
      by (auto simp: provider_fails_iff)
    from 2(4) [OF xs(1)] obtain ys where ys: "value_at w [''models''] = Some (JArr ys)" "texts ys \<subseteq> texts xs" by blast
    from xs(2) ys(2) includes_model_mono [OF ys(2)]
    have "\<not> includes_model ys (effectiveModelFor (gv_provider spec))
       \<or> (\<exists>m\<in>set (collectOverrideModels spec). \<not> includes_text ys m)
       \<or> pv_allow_prompt_model_override (gv_provider spec) \<and> rg_type (gv_registry spec) \<noteq> inline_type"
      by (auto simp: includes_texts)
    with 2(1,2) ys(1) show ?thesis by (auto simp: provider_fails_iff)
  qed
qed

lemma model_failure_tightens:
  assumes "layer P C" and "providerModelPolicyFailure P t e \<noteq> None" and "\<not> mapping_allowlist_path t"
  shows "providerModelPolicyFailure C t e \<noteq> None"
proof -
  from assms(2) obtain l where l: "value_at P [''providers'', ''allowed''] = Some (JObj l)"
    by (auto simp: providerModelPolicyFailure_def mappingAtOrNone_Some split: option.splits)
  from assms(1) l assms(3) show ?thesis
  proof (cases rule: provider_entry)
    case (1 m)
    then show ?thesis by (simp add: providerModelPolicyFailure_def flip: mappingAtOrNone_Some)
  next
    case (2 m v w)
    from assms(2) l 2(3) obtain xs where xs: "value_at v [''models''] = Some (JArr xs)" "\<not> includes_model xs e"
      by (auto simp: providerModelPolicyFailure_def listAtOrNone_Some simp flip: mappingAtOrNone_Some
          split: option.splits if_splits)
    from 2(4) [OF xs(1)] obtain ys where ys: "listAtOrNone w [''models''] = Some ys" "texts ys \<subseteq> texts xs"
      unfolding listAtOrNone_Some by blast
    with xs(2) includes_model_mono [OF ys(2)] 2(1,2) show ?thesis
      by (auto simp: providerModelPolicyFailure_def simp flip: mappingAtOrNone_Some)
  qed
qed

lemma secrets_tightens: "layer P C \<Longrightarrow> is_failed (validateSecrets su spec P) \<Longrightarrow> is_failed (validateSecrets su spec C)"
  using required_at [of P C "[''secrets'', ''require_secret_references'']"]
  by (simp add: secrets_fails_iff required_paths_def)

lemma registry_tightens:
  assumes "layer P C" and "is_failed (validateRegistry spec P)"
  shows "is_failed (validateRegistry spec C)"
  using assms(2) unfolding registry_fails_iff
  by (rule allowlist_excludes [OF assms(1), rotated]) (auto simp: allowlist_paths_def)

lemma observability_tightens:
  assumes "layer P C" and "is_failed (validateObservability spec P)"
  shows "is_failed (validateObservability spec C)"
proof -
  let ?rules = "[''observability'', ''redaction'', ''require_custom_rules'']"
  let ?meta = "[''observability'', ''redaction'', ''preserve_typeflux_metadata'']"
  have rules: "\<exists>ys. value_at C ?rules = Some (JArr ys) \<and> (\<exists>s\<in>texts ys. Q s)"
    if "\<exists>xs. value_at P ?rules = Some (JArr xs) \<and> (\<exists>s\<in>texts xs. Q s)" for Q
  proof -
    from that obtain xs s where xs: "value_at P ?rules = Some (JArr xs)" "s \<in> texts xs" "Q s" by blast
    have "section_path ?rules" "field_of ?rules \<notin> set ALLOWLIST_FIELD_NAMES" by (simp_all add: path_simps)
    from unions [OF assms(1) this xs(1)] xs(2,3) show ?thesis by blast
  qed
  have meta: "value_at P ?meta = Some (JBool True) \<Longrightarrow> value_at C ?meta = Some (JBool True)"
    by (rule fixed_flag [OF assms(1)]) (simp_all add: path_simps)
  have backends: "\<exists>xs. value_at C [''observability'', ''allowed_backends''] = Some (JArr xs) \<and> s \<notin> texts xs"
    if "\<exists>xs. value_at P [''observability'', ''allowed_backends''] = Some (JArr xs) \<and> s \<notin> texts xs" for s
    by (rule allowlist_excludes [OF assms(1) _ that]) (auto simp: allowlist_paths_def)
  from assms(2) show ?thesis
    unfolding observability_fails_iff
    by (elim disj_forward conj_forward)
      (assumption | erule meta rules backends | (rule required_at [OF assms(1)], simp add: required_paths_def))+
qed

lemma temporal_tightens:
  assumes "layer P C" and "is_failed (validateTemporal su spec P)"
    and "value_at P [''runtime'', ''temporal'', ''address_regions''] = None"
    and "value_at C [''runtime'', ''temporal'', ''address_regions''] = None"
  shows "is_failed (validateTemporal su spec C)"
  using assms(2) unfolding temporal_fails_iff [OF assms(3)] temporal_fails_iff [OF assms(4)]
  by (elim disj_forward conj_forward)
    (assumption
     | (rule required_at [OF assms(1)], simp add: required_paths_def)
     | (erule allowlist_excludes [OF assms(1), rotated], blast, simp add: allowlist_paths_def))+

lemma artifacts_tightens:
  assumes "layer P C" and "is_failed (validateArtifacts spec P)"
  shows "is_failed (validateArtifacts spec C)"
  using assms(2) unfolding artifacts_fails_iff mediaAllowed_texts
  by (elim disj_forward)
    ((erule allowlist_excludes [OF assms(1), rotated], blast, simp add: allowlist_paths_def)
     | (erule ceiling_exceeded [OF assms(1), rotated], blast, simp add: ceiling_paths_def))+

lemma review_tightens:
  assumes "layer P C" and "is_failed (validateReview spec P)"
    and "\<And>w. value_at P [''review'', ''invalid_user_decision''] = Some w \<Longrightarrow> \<exists>s. w = JStr s"
  shows "is_failed (validateReview spec C)"
proof -
  have decision: "\<exists>w. value_at C [''review'', ''invalid_user_decision''] = Some w \<and> Q w"
    if decided: "\<exists>w. value_at P [''review'', ''invalid_user_decision''] = Some w \<and> Q w" for Q
  proof -
    from decided obtain w where w: "value_at P [''review'', ''invalid_user_decision''] = Some w" "Q w" by blast
    from assms(3) [OF w(1)] obtain s where s: "w = JStr s" by blast
    have "value_at C [''review'', ''invalid_user_decision''] = Some (JStr s)"
      by (rule fixed_text [OF assms(1)]) (use w(1) s in \<open>simp_all add: path_simps\<close>)
    with w(2) s show ?thesis by blast
  qed
  from assms(2) show ?thesis
    unfolding review_fails_iff
    by (elim disj_forward conj_forward)
      (assumption | erule decision | (rule required_at [OF assms(1)], simp add: required_paths_def))+
qed

lemma semantics_tightens:
  assumes "layer P C" and "is_failed (validateSemantics spec P)"
  shows "is_failed (validateSemantics spec C)"
proof -
  have mono: "(r' \<or> b') \<and> (\<exists>d\<in>D. F d \<or> b' \<and> G d)"
    if "(r \<or> b) \<and> (\<exists>d\<in>D. F d \<or> b \<and> G d)" "r \<Longrightarrow> r'" "b \<Longrightarrow> b'"
    for r b r' b' F G and D :: "governed_definition set"
    using that by blast
  from assms(2) show ?thesis
    unfolding semantics_fails_iff
    by (rule mono) (rule required_at [OF assms(1)]; simp add: required_paths_def)+
qed

lemma retry_tightens:
  assumes "layer P C" and "is_failed (validateProviderRetry spec P)"
  shows "is_failed (validateProviderRetry spec C)"
  using assms(2) unfolding retry_fails_iff
  by (elim disj_forward conj_forward)
    (assumption
     | (rule denied_at [OF assms(1)], simp add: denied_paths_def)
     | (erule ceiling_exceeded [OF assms(1), rotated], blast, simp add: ceiling_paths_def))+

lemma composition_tightens:
  assumes "layer P C" and "is_failed (validateComposition spec P)"
  shows "is_failed (validateComposition spec C)"
proof -
  have ceiling: "\<exists>(k, measured)\<in>set (ceilings spec). \<exists>n. value_at C [''composition'', k] = Some (JNum n) \<and> exceeds measured n"
    if "\<exists>(k, measured)\<in>set (ceilings spec). \<exists>n. value_at P [''composition'', k] = Some (JNum n) \<and> exceeds measured n"
  proof -
    from that obtain k measured where k: "(k, measured) \<in> set (ceilings spec)"
      "\<exists>n. value_at P [''composition'', k] = Some (JNum n) \<and> exceeds measured n" by blast
    from k(1) have "[''composition'', k] \<in> set ceiling_paths"
      by (auto simp: ceilings_def ceiling_paths_def Let_def)
    from ceiling_exceeded [OF assms(1) this k(2)] k(1) show ?thesis by (auto simp: exceeds_def)
  qed
  from assms(2) show ?thesis
    unfolding composition_fails_iff
    by (elim disj_forward conj_forward)
      (assumption | erule ceiling | (rule denied_at [OF assms(1)], simp add: denied_paths_def))+
qed

text \<open>The bar of the guard for moderation verdicts.\<close>

lemma moderation_bar_tightens:
  assumes "layer P C" and "moderationPolicyBlock P categories score \<noteq> None"
  shows "moderationPolicyBlock C categories score \<noteq> None"
proof -
  let ?cats = "[''semantics'', ''categories'']" and ?bar = "[''semantics'', ''score_threshold'']"
  have cats: "\<exists>ys. value_at C ?cats = Some (JArr ys) \<and> (\<exists>s\<in>texts ys. Q s)"
    if "\<exists>xs. value_at P ?cats = Some (JArr xs) \<and> (\<exists>s\<in>texts xs. Q s)" for Q
  proof -
    from that obtain xs s where xs: "value_at P ?cats = Some (JArr xs)" "s \<in> texts xs" "Q s" by blast
    have "section_path ?cats" "field_of ?cats \<notin> set ALLOWLIST_FIELD_NAMES" by (simp_all add: path_simps)
    from unions [OF assms(1) this xs(1)] xs(2,3) show ?thesis by blast
  qed
  have bar: "\<exists>t. value_at C ?bar = Some (JNum t) \<and> num_le t s" if "\<exists>t. value_at P ?bar = Some (JNum t) \<and> num_le t s" for s
  proof -
    from that obtain t where t: "value_at P ?bar = Some (JNum t)" "num_le t s" by blast
    have "section_path ?bar" by (simp add: path_simps)
    from numbers [OF assms(1) this t(1)] t(2) show ?thesis
      by (auto simp: path_simps num_stricter_def intro: num_le_trans)
  qed
  from assms(2) show ?thesis
    unfolding moderation_block_iff
    by (elim disj_forward) (erule cats, erule exE, elim conjE, metis bar)
qed

end

end
