(* ===== verification/Policy_Example.thy ===== *)
theory Policy_Example
  imports Policy_Tightening
begin

text \<open>
  Two policies and a workflow on which the definitions are evaluated: an organisation allows two models and
  bounds the size of a workflow, a team allows one of the models and asks for redaction.
\<close>

definition demo_hash :: "string \<Rightarrow> string" where
  "demo_hash text = ''0''"

definition policy_org :: applied_policy where
  "policy_org = \<lparr>ap_id = ''org'', ap_name = ''Org'', ap_blocks =
     [(''version'', JStr ''1''), (''name'', JStr ''Org''), (''extends'', JArr []),
      (''providers'', JObj [(''allowed'', JObj [(''openai'', JObj [(''models'', JArr [JStr ''m-1'', JStr ''m-2''])])])]),
      (''semantics'', JObj [(''categories'', JArr [JStr ''hate'']), (''score_threshold'', JNum (FracN False [8] (-1)))]),
      (''composition'', JObj [(''max_steps'', JNum (IntN 10))]),
      (''risk_tiers'', JObj [(''safe'', JObj []), (''prohibited'', JObj [])])]\<rparr>"

definition policy_team :: applied_policy where
  "policy_team = \<lparr>ap_id = ''team'', ap_name = ''Team'', ap_blocks =
     [(''version'', JStr ''1''), (''name'', JStr ''Team''), (''extends'', JArr [JStr ''org'']),
      (''providers'', JObj [(''allowed'', JObj [(''openai'', JObj [(''models'', JArr [JStr ''m-1''])])])]),
      (''observability'', JObj [(''redaction'', JObj [(''required'', JBool True)])]),
      (''composition'', JObj [(''max_steps'', JNum (IntN 20))])]\<rparr>"

definition demo_spec :: governed_spec where
  "demo_spec = \<lparr>
     gv_provider = \<lparr>pv_type = ''openai'', pv_model = Some ''m-2'', pv_params_model = None,
                    pv_allow_prompt_model_override = False\<rparr>,
     gv_registry = \<lparr>rg_type = ''inline'', rg_host = None, rg_prompts = None\<rparr>,
     gv_temporal = \<lparr>tm_address = None, tm_namespace = None, tm_tls = None, tm_api_key = None,
                    tm_payload_codec = False\<rparr>,
     gv_observability = None, gv_artifacts = None, gv_provider_retry = None, gv_provider_limits = None,
     gv_definitions = None, gv_steps = [], gv_lifecycle = None, gv_risk_tier = None, gv_document = JNull\<rparr>"

definition demo_surroundings :: surroundings where
  "demo_surroundings = \<lparr>su_env = (\<lambda>_. None), su_file_size = (\<lambda>_. None), su_exists = (\<lambda>_. False),
     su_read = (\<lambda>_. None)\<rparr>"

lemma same_text [simp]: "same_value (JStr s) (JStr t) \<longleftrightarrow> s = t"
  using same_value_text [of "JStr s" t] by simp

lemmas merge_eval = composeProjectPolicies_def policyConstraints_def effective_payload_def policyHash_def demo_hash_def
  kept_value_def preserveEmptyValue_def preserveEmptyMapping_def preserveEmptyAllowlist_def
  ALLOWLIST_FIELD_NAMES_def mapping_allowlist_path_def endsWith_def startsWith_def lastSegment_def
  intersectAllowlist_def sortedAllowlist_def dedupe_def sort_values_def key_le_def merge_scalar_def mergeBool_def
  mergeNumeric_def mergeOrderedEnum_def MOST_RESTRICTIVE_NUMERIC_def MOST_RESTRICTIVE_ORDERED_ENUM_def
  RISK_TIER_ORDER_def requirement_field_def allowance_field_def js_min_def js_max_def isRealNumber_def
  obj_put_def obj_assign_def index_key_def str_le_def scale10_def

lemma policies_wf: "wf_policy policy_org" "wf_policy policy_team"
  by (simp_all add: wf_policy_def policy_org_def policy_team_def POLICY_SECTIONS_def wf_fields_def)

lemma demo_team_alone:
  "\<exists>solo. composeProjectPolicies demo_hash [policy_team] [ap_id policy_team] = Inr solo \<and>
     cp_payload solo = [(''version'', JStr ''1''),
      (''selected_policy_ids'', JArr [JStr ''team'']),
      (''applied_policy_ids'', JArr [JStr ''team'']),
      (''policy_names'', JArr [JStr ''Team'']),
      (''providers'', JObj [(''allowed'', JObj [(''openai'', JObj [(''models'', JArr [JStr ''m-1''])])])]),
      (''observability'', JObj [(''redaction'', JObj [(''required'', JBool True)])]),
      (''composition'', JObj [(''max_steps'', JNum (IntN 20))])]"
  by (simp add: policy_team_def merge_eval)

lemma demo_org_alone:
  "\<exists>solo. composeProjectPolicies demo_hash [policy_org] [ap_id policy_org] = Inr solo \<and>
     cp_payload solo = [(''version'', JStr ''1''),
      (''selected_policy_ids'', JArr [JStr ''org'']),
      (''applied_policy_ids'', JArr [JStr ''org'']),
      (''policy_names'', JArr [JStr ''Org'']),
      (''providers'', JObj [(''allowed'', JObj [(''openai'', JObj [(''models'', JArr [JStr ''m-1'', JStr ''m-2''])])])]),
      (''semantics'', JObj [(''categories'', JArr [JStr ''hate'']), (''score_threshold'', JNum (FracN False [8] (-1)))]),
      (''composition'', JObj [(''max_steps'', JNum (IntN 10))])]"
  by (simp add: policy_org_def merge_eval)

lemma demo_closure:
  "\<exists>c. composeProjectPolicies demo_hash [policy_org, policy_team] [''team''] = Inr c \<and>
     cp_payload c = [(''version'', JStr ''1''),
      (''selected_policy_ids'', JArr [JStr ''team'']),
      (''applied_policy_ids'', JArr [JStr ''org'', JStr ''team'']),
      (''policy_names'', JArr [JStr ''Org'', JStr ''Team'']),
      (''providers'', JObj [(''allowed'', JObj [(''openai'', JObj [(''models'', JArr [JStr ''m-1''])])])]),
      (''semantics'', JObj [(''categories'', JArr [JStr ''hate'']), (''score_threshold'', JNum (FracN False [8] (-1)))]),
      (''composition'', JObj [(''max_steps'', JNum (IntN 10))]),
      (''observability'', JObj [(''redaction'', JObj [(''required'', JBool True)])])]"
  by (simp add: policy_org_def policy_team_def merge_eval)

end
