(* ===== verification/Policy_Claims.thy ===== *)
theory Policy_Claims
  imports Policy_Example
begin

text \<open>
  Properties of policy composition: composing policies only tightens the checks, the merge is at least as
  strict as each of its policies field by field, and the composed payload says what the merge says.
\<close>

section \<open>Composition only tightens\<close>

text \<open>The value a composed policy has at a path.\<close>

definition governs :: "composed_policy \<Rightarrow> string list \<Rightarrow> jv option" where
  "governs c ks = value_at (JObj (cp_payload c)) ks"

definition region_map_path :: "string list" where
  "region_map_path = [''runtime'', ''temporal'', ''address_regions'']"

definition decision_path :: "string list" where
  "decision_path = [''review'', ''invalid_user_decision'']"

definition fails_check :: "surroundings \<Rightarrow> governed_spec \<Rightarrow> composed_policy \<Rightarrow> check_code \<Rightarrow> bool" where
  "fails_check su spec c code \<longleftrightarrow> (\<exists>status. (code, status) \<in> set (validatePolicyCompliance su spec c) \<and> is_failed status)"

lemma fails_check_simps:
  "fails_check su spec c Policy_provider \<longleftrightarrow> is_failed (validateProvider spec (JObj (cp_payload c)))"
  "fails_check su spec c Policy_secrets \<longleftrightarrow> is_failed (validateSecrets su spec (JObj (cp_payload c)))"
  "fails_check su spec c Policy_registry \<longleftrightarrow> is_failed (validateRegistry spec (JObj (cp_payload c)))"
  "fails_check su spec c Policy_observability \<longleftrightarrow> is_failed (validateObservability spec (JObj (cp_payload c)))"
  "fails_check su spec c Policy_temporal \<longleftrightarrow> is_failed (validateTemporal su spec (JObj (cp_payload c)))"
  "fails_check su spec c Policy_artifacts \<longleftrightarrow> is_failed (validateArtifacts spec (JObj (cp_payload c)))"
  "fails_check su spec c Policy_review \<longleftrightarrow> is_failed (validateReview spec (JObj (cp_payload c)))"
  "fails_check su spec c Policy_semantics \<longleftrightarrow> is_failed (validateSemantics spec (JObj (cp_payload c)))"
  "fails_check su spec c Policy_provider_retry \<longleftrightarrow> is_failed (validateProviderRetry spec (JObj (cp_payload c)))"
  "fails_check su spec c Policy_provider_limits \<longleftrightarrow> is_failed (validateProviderLimits spec (JObj (cp_payload c)))"
  "fails_check su spec c Policy_composition_ceilings \<longleftrightarrow> is_failed (validateComposition spec (JObj (cp_payload c)))"
  "fails_check su spec c Policy_risk_tier \<longleftrightarrow> is_failed (validateRiskTier spec (JObj (cp_payload c)))"
  "\<not> fails_check su spec c Policy_selection" "\<not> fails_check su spec c Policy_allowlists"
  "\<not> fails_check su spec c Policy_imports"
  by (auto simp: fails_check_def validatePolicyCompliance_def validateImports_def Let_def)

lemma layer_of_member:
  "\<lbrakk>\<forall>q\<in>set applied. wf_policy q; p \<in> set applied; composeProjectPolicies sha [p] [ap_id p] = Inr solo;
    composeProjectPolicies sha applied selected = Inr c\<rbrakk> \<Longrightarrow>
   layer_of (JObj (cp_payload solo)) (JObj (cp_payload c))"
  unfolding layer_of_def by blast

lemma check_tightens:
  assumes layer: "layer_of (JObj (cp_payload solo)) (JObj (cp_payload c))"
    and fails: "fails_check su spec solo code" and code: "code \<notin> {Policy_provider_limits, Policy_risk_tier}"
    and plain: "\<not> mapping_allowlist_path (pv_type (gv_provider spec))"
    and decision: "\<And>w. governs solo decision_path = Some w \<Longrightarrow> \<exists>s. w = JStr s"
    and regions: "code = Policy_temporal \<Longrightarrow> governs solo region_map_path = None \<and> governs c region_map_path = None"
  shows "fails_check su spec c code"
proof -
  note paths = governs_def region_map_path_def decision_path_def
  show ?thesis
    using fails code decision regions
      composed.provider_tightens [OF layer _ plain] composed.secrets_tightens [OF layer]
      composed.registry_tightens [OF layer] composed.observability_tightens [OF layer]
      composed.temporal_tightens [OF layer] composed.artifacts_tightens [OF layer]
      composed.review_tightens [OF layer] composed.semantics_tightens [OF layer]
      composed.retry_tightens [OF layer] composed.composition_tightens [OF layer]
    unfolding paths
    by (cases code) (simp_all add: fails_check_simps)
qed

text \<open>C4: Composing policies only tightens: a check of a workflow that a policy fails alone fails under every
  closure the policy is composed in. This holds for every check but the provider limits and the risk
  tiers, and for the connection check as long as no region map is declared; the policies are documents of
  the schema, and the provider's name is not one of the names the merge treats as a mapping of its own.\<close>

theorem composition_only_tightens:
  assumes "\<forall>q\<in>set applied. wf_policy q" and "p \<in> set applied"
    and "composeProjectPolicies sha [p] [ap_id p] = Inr solo"
    and "composeProjectPolicies sha applied selected = Inr c"
    and "fails_check su spec solo code" and "code \<notin> {Policy_provider_limits, Policy_risk_tier}"
    and "\<not> mapping_allowlist_path (pv_type (gv_provider spec))"
    and "\<And>w. governs solo decision_path = Some w \<Longrightarrow> \<exists>s. w = JStr s"
    and "code = Policy_temporal \<Longrightarrow> governs solo region_map_path = None \<and> governs c region_map_path = None"
  shows "fails_check su spec c code"
  using layer_of_member [OF assms(1-4)] assms(5-9) by (rule check_tightens)

lemmas payload_eval = governs_def decision_path_def region_map_path_def fails_check_simps validateProvider_def providerModelPolicyFailure_def mappingAtOrNone_def listAtOrNone_def effectiveModelFor_def
  includes_model_def includes_text_def

theorem composition_only_tightens_witness:
  "\<exists>c. composeProjectPolicies demo_hash [policy_org, policy_team] [''team''] = Inr c
     \<and> fails_check demo_surroundings demo_spec c Policy_provider"
proof -
  obtain solo where solo: "composeProjectPolicies demo_hash [policy_team] [ap_id policy_team] = Inr solo"
    and pay: "value_at (JObj (cp_payload solo)) [''providers'', ''allowed''] = Some (JObj [(''openai'', JObj [(''models'', JArr [JStr ''m-1''])])])"
      "value_at (JObj (cp_payload solo)) [''review'', ''invalid_user_decision''] = None"
    using demo_team_alone by auto
  obtain c where c: "composeProjectPolicies demo_hash [policy_org, policy_team] [''team''] = Inr c"
    using demo_closure by blast
  have wf: "\<forall>q\<in>set [policy_org, policy_team]. wf_policy q" using policies_wf by simp
  have fails: "fails_check demo_surroundings demo_spec solo Policy_provider"
    using pay(1) by (simp add: payload_eval demo_spec_def)
  have "fails_check demo_surroundings demo_spec c Policy_provider"
    using composition_only_tightens [OF wf _ solo c fails] pay(2)
    by (simp add: payload_eval demo_spec_def mapping_allowlist_path_def endsWith_def lastSegment_def)
  with c show ?thesis by blast
qed

section \<open>The composed payload\<close>

text \<open>C30: The merge of a closure refines each policy in it: by the rule of every field (\<open>stricter\<close>), the
  merged constraints are at least as restrictive as the constraints of each applied policy.\<close>

theorem closure_refines_policies:
  assumes "\<forall>q\<in>set applied. wf_policy q" and "merge_applied [] applied = Inr merged" and "p \<in> set applied"
  shows "payload_stricter (policyConstraints p) merged"
  using merge_applied_stricter [OF assms(2)] assms(1,3) by (simp add: known_sections_def)

theorem closure_refines_policies_witness:
  "\<exists>merged. merge_applied [] [policy_org, policy_team] = Inr merged
     \<and> payload_stricter (policyConstraints policy_team) merged"
proof -
  obtain c where c: "composeProjectPolicies demo_hash [policy_org, policy_team] [''team''] = Inr c"
    using demo_closure by blast
  then obtain merged where m: "merge_applied [] [policy_org, policy_team] = Inr merged" by (rule composed_payload)
  have "payload_stricter (policyConstraints policy_team) merged"
    by (rule closure_refines_policies [OF _ m]) (use policies_wf in simp_all)
  with m show ?thesis by blast
qed

text \<open>Where an empty value is a constraint: nothing is allowed there.\<close>

definition deny_all :: "string list \<Rightarrow> jv \<Rightarrow> bool" where
  "deny_all path v \<longleftrightarrow>
     v = JObj [] \<and> ((\<exists>p. path = [''providers'', ''allowed''] @ p \<and> length p \<le> 1)
                   \<or> ''constrain_providers'' \<in> set (drop (length path - 2) path))
     \<or> v = JArr [] \<and> path \<noteq> [] \<and> last path \<in> set ALLOWLIST_FIELD_NAMES"

lemma preserve_mapping:
  "preserveEmptyMapping path \<longleftrightarrow> (\<exists>p. path = [''providers'', ''allowed''] @ p \<and> length p \<le> 1)
     \<or> ''constrain_providers'' \<in> set (drop (length path - 2) path)"
proof -
  have "((length path = 2 \<or> length path = 3) \<and> path ! 0 = ''providers'' \<and> path ! 1 = ''allowed'')
      \<longleftrightarrow> (\<exists>p. path = [''providers'', ''allowed''] @ p \<and> length p \<le> 1)"
    by (cases path rule: list.exhaust; cases "tl path" rule: list.exhaust; cases "tl (tl path)" rule: list.exhaust) auto
  moreover have "(path \<noteq> [] \<and> last path = c \<or> length path \<ge> 2 \<and> path ! (length path - 2) = c)
      \<longleftrightarrow> c \<in> set (drop (length path - 2) path)" for c
  proof (cases path rule: rev_cases)
    case (snoc ys y)
    then show ?thesis by (cases ys rule: rev_cases) (auto simp: nth_append)
  qed simp
  ultimately show ?thesis unfolding preserveEmptyMapping_def by (simp only:)
qed

lemma kept_deny_all: "kept_value path v \<longleftrightarrow> v \<noteq> JNull \<and> (v \<in> {JObj [], JArr []} \<longrightarrow> deny_all path v)"
proof -
  have "isEmptyRecord v \<longleftrightarrow> v = JObj []" "isEmptyArray v \<longleftrightarrow> v = JArr []"
    by (auto elim: isEmptyRecord.elims isEmptyArray.elims)
  then show ?thesis
    by (auto simp: kept_value_def preserveEmptyValue_def preserve_mapping preserveEmptyAllowlist_def deny_all_def)
qed

lemma value_at_dropped:
  "wf_jv v \<Longrightarrow> value_at (dropEmpty path v) ks = Some w \<Longrightarrow>
   \<exists>a. value_at v ks = Some a \<and> w = dropEmpty (path @ ks) a \<and> (ks \<noteq> [] \<longrightarrow> kept_value (path @ ks) w)"
proof (induction ks arbitrary: path v)
  case (Cons k ks)
  from Cons.prems(2) obtain kvs where v: "v = JObj kvs" by (cases v) simp_all
  with Cons.prems obtain u where u: "map_of (dropped path kvs) k = Some u" "value_at u ks = Some w"
    by (auto simp: dropEmpty_obj simp del: dropEmpty.simps(1) map_of_eq_Some_iff split: option.splits)
  have "distinct (map fst kvs)" using Cons.prems(1) v by simp
  with u(1) obtain u0 where u0: "map_of kvs k = Some u0" "u = dropEmpty (path @ [k]) u0" "kept_value (path @ [k]) u"
    by (auto simp: map_of_dropped simp del: map_of_eq_Some_iff split: option.splits if_splits)
  have "wf_jv u0" using Cons.prems(1) v u0(1) by (auto dest: map_of_SomeD)
  from Cons.IH [OF this, of "path @ [k]"] u(2) u0(2) obtain a where
    "value_at u0 ks = Some a" "w = dropEmpty (path @ k # ks) a" "ks \<noteq> [] \<longrightarrow> kept_value (path @ k # ks) w" by auto
  then show ?case using v u0 u(2) by (cases ks) auto
qed simp

text \<open>The values at a path of the payload and of the merge it was made from.\<close>

definition same_constraint :: "string list \<Rightarrow> jv option \<Rightarrow> jv option \<Rightarrow> bool" where
  "same_constraint path there here \<longleftrightarrow>
     (\<forall>a. (\<exists>b. a = JBool b) \<or> (\<exists>n. a = JNum n) \<or> (\<exists>s. a = JStr s) \<longrightarrow> (here = Some a \<longleftrightarrow> there = Some a))
     \<and> (\<forall>v. there = Some v \<and> deny_all path v \<longrightarrow> here = Some v)
     \<and> (\<forall>xs. there = Some (JArr xs) \<and> set xs \<noteq> {} \<and> JNull \<notin> set xs \<longrightarrow>
          (\<exists>ys. here = Some (JArr ys) \<and> length ys = length xs \<and> (\<forall>s. JStr s \<in> set ys \<longleftrightarrow> JStr s \<in> set xs)))
     \<and> (\<forall>ys. here = Some (JArr ys) \<longrightarrow>
          (\<exists>xs. there = Some (JArr xs) \<and> (\<forall>s. JStr s \<in> set ys \<longleftrightarrow> JStr s \<in> set xs)))"

lemma dropEmpty_shape:
  "dropEmpty path v = JBool b \<longleftrightarrow> v = JBool b" "dropEmpty path v = JNum n \<longleftrightarrow> v = JNum n"
  "dropEmpty path v = JArr ys \<longleftrightarrow> (\<exists>xs. v = JArr xs \<and> ys = map (dropEmpty path) (filter (\<lambda>x. x \<noteq> JNull) xs))"
  by (cases v; auto)+

lemma dropped_texts: "JStr s \<in> set (map (dropEmpty path) (filter (\<lambda>x. x \<noteq> JNull) xs)) \<longleftrightarrow> JStr s \<in> set xs"
  using texts_dropEmpty [of path xs] by (auto simp: texts_def)

lemma same_constraint_dropped:
  assumes "wf_jv v" "ks \<noteq> []"
  shows "same_constraint ks (value_at v ks) (value_at (dropEmpty [] v) ks)"
proof -
  obtain k js where ks: "ks = k # js" using assms(2) by (cases ks) auto
  have down: "value_at (dropEmpty [] v) ks = Some (dropEmpty ks a)"
    if "value_at v ks = Some a" "kept_value ks (dropEmpty ks a)" for a
    using value_at_dropEmpty [of v k js a "[]"] assms(1) that by (simp add: ks)
  have up: "\<exists>a. value_at v ks = Some a \<and> w = dropEmpty ks a" if "value_at (dropEmpty [] v) ks = Some w" for w
    using value_at_dropped [OF assms(1) that] by auto
  have "value_at (dropEmpty [] v) ks = Some a \<longleftrightarrow> value_at v ks = Some a"
    if a: "(\<exists>b. a = JBool b) \<or> (\<exists>n. a = JNum n) \<or> (\<exists>s. a = JStr s)" for a
  proof
    assume "value_at (dropEmpty [] v) ks = Some a"
    from up [OF this] a show "value_at v ks = Some a" by (auto simp: dropEmpty_shape dest!: sym [of "JStr _"] sym [of "JBool _"] sym [of "JNum _"])
  next
    assume "value_at v ks = Some a"
    from down [OF this] a show "value_at (dropEmpty [] v) ks = Some a" by (auto simp: kept_deny_all)
  qed
  moreover have "value_at (dropEmpty [] v) ks = Some e" if "value_at v ks = Some e" "deny_all ks e" for e
    using down [OF that(1)] that(2) by (auto simp: kept_deny_all deny_all_def)
  moreover have "\<exists>ys. value_at (dropEmpty [] v) ks = Some (JArr ys) \<and> length ys = length xs \<and> (\<forall>s. JStr s \<in> set ys \<longleftrightarrow> JStr s \<in> set xs)"
    if "value_at v ks = Some (JArr xs)" "set xs \<noteq> {}" "JNull \<notin> set xs" for xs
  proof -
    have all: "filter (\<lambda>x. x \<noteq> JNull) xs = xs" using that(3) by (auto simp: filter_id_conv)
    then have "value_at (dropEmpty [] v) ks = Some (JArr (map (dropEmpty ks) xs))"
      using down [OF that(1)] that(2) by (simp add: kept_deny_all)
    with dropped_texts [of _ ks xs] all show ?thesis by auto
  qed
  moreover have "\<exists>xs. value_at v ks = Some (JArr xs) \<and> (\<forall>s. JStr s \<in> set ys \<longleftrightarrow> JStr s \<in> set xs)"
    if "value_at (dropEmpty [] v) ks = Some (JArr ys)" for ys
    using up [OF that] dropped_texts by (auto simp: dropEmpty_shape dest!: sym [of "JArr _"])
  ultimately show ?thesis unfolding same_constraint_def by blast
qed

text \<open>The payload is the cleaned merge with the four fields that identify the composition put in front.\<close>

lemma payload_is_dropped:
  assumes "\<forall>q\<in>set applied. wf_policy q" and "merge_applied [] applied = Inr merged"
    and "composeProjectPolicies sha applied selected = Inr c"
  obtains whole where "JObj (cp_payload c) = dropEmpty [] (JObj whole)" "wf_jv (JObj whole)"
    "\<And>k. k \<in> set POLICY_SECTIONS \<Longrightarrow> map_of whole k = map_of merged k"
    "fst ` set whole \<subseteq> {''version'', ''selected_policy_ids'', ''applied_policy_ids'', ''policy_names''} \<union> set POLICY_SECTIONS"
proof
  have eff: "cp_payload c = effective_payload selected applied merged"
    using composed_payload [OF assms(3)] assms(2) by (metis sum.inject(2))
  from merge_applied_stricter [OF assms(2)] assms(1) have wf: "wf_fields merged" "known_sections merged"
    by (auto simp: known_sections_def)
  define stamp where "stamp = [(''version'', JStr ''1''), (''selected_policy_ids'', JArr (map JStr selected)),
      (''applied_policy_ids'', JArr (map (JStr \<circ> ap_id) applied)),
      (''policy_names'', JArr (map (JStr \<circ> ap_name) applied))]"
  let ?whole = "obj_assign stamp merged"
  show "JObj (cp_payload c) = dropEmpty [] (JObj ?whole)"
    by (simp add: eff effective_payload_def stamp_def dropEmpty_obj del: dropEmpty.simps(1))
  have d: "distinct (map fst ?whole)" unfolding stamp_def by (rule distinct_obj_assign) simp
  have at: "map_of ?whole = map_of stamp ++ map_of merged"
    by (rule map_of_obj_assign) (use wf(1) in \<open>simp add: wf_fields_distinct\<close>)
  have "wf_fields ?whole"
  proof (rule wf_fieldsI [OF d])
    fix k v
    assume "map_of ?whole k = Some v"
    with at consider "map_of merged k = Some v" | "map_of stamp k = Some v" by (auto simp: map_add_def split: option.splits)
    then show "wf_jv v"
      by cases (use wf(1) in \<open>auto simp: stamp_def wf_field split: if_splits\<close>)
  qed
  then show "wf_jv (JObj ?whole)" by (simp add: wf_fields_def)
  have "fst ` set ?whole = fst ` set stamp \<union> fst ` set merged"
    using arg_cong [OF at, of dom] by (simp add: dom_map_of_conv_image_fst Un_commute)
  then show "fst ` set ?whole \<subseteq> {''version'', ''selected_policy_ids'', ''applied_policy_ids'', ''policy_names''} \<union> set POLICY_SECTIONS"
    using wf(2) by (auto simp: stamp_def known_sections_def)
  show "map_of ?whole k = map_of merged k" if "k \<in> set POLICY_SECTIONS" for k
  proof -
    have "map_of stamp k = None" using that by (auto simp: stamp_def POLICY_SECTIONS_def)
    then show ?thesis by (simp add: at map_add_def split: option.split)
  qed
qed

text \<open>C40: A composed payload carries exactly the constraints of the merge, and nothing that is not set. In every
  section of a policy and at every path: a boolean, number or text is there exactly when the merge has it; a list is there
  exactly when the merge has one with the same texts, apart from lists of nothing; an empty
  allow-list, and an empty provider mapping or provider constraint, which allow nothing, are kept. No other
  empty object or list is left in the payload and no null, as a field or in a list. Keys are distinct
  at every level, and at the top there are only the sections of a policy and the four fields that identify the
  composition.\<close>

theorem composed_payload_exact:
  assumes "\<forall>q\<in>set applied. wf_policy q" and "merge_applied [] applied = Inr merged"
    and "composeProjectPolicies sha applied selected = Inr c"
  shows "(\<forall>path. path \<noteq> [] \<and> hd path \<in> set POLICY_SECTIONS \<longrightarrow>
        same_constraint path (value_at (JObj merged) path) (value_at (JObj (cp_payload c)) path))
    \<and> (\<forall>path v. path \<noteq> [] \<and> value_at (JObj (cp_payload c)) path = Some v \<longrightarrow>
        v \<noteq> JNull \<and> (v \<in> {JObj [], JArr []} \<longrightarrow> deny_all path v) \<and> (\<forall>xs. v = JArr xs \<longrightarrow> JNull \<notin> set xs))
    \<and> wf_jv (JObj (cp_payload c))
    \<and> fst ` set (cp_payload c) \<subseteq> {''version'', ''selected_policy_ids'', ''applied_policy_ids'', ''policy_names''}
        \<union> set POLICY_SECTIONS"
proof -
  obtain whole where pay: "JObj (cp_payload c) = dropEmpty [] (JObj whole)" and whole: "wf_jv (JObj whole)"
    and sections: "\<And>k. k \<in> set POLICY_SECTIONS \<Longrightarrow> map_of whole k = map_of merged k"
    and keys: "fst ` set whole \<subseteq> {''version'', ''selected_policy_ids'', ''applied_policy_ids'', ''policy_names''} \<union> set POLICY_SECTIONS"
    by (rule payload_is_dropped [OF assms]) blast
  have "wf_jv (JObj (cp_payload c))" unfolding pay using whole by (rule wf_dropEmpty)
  moreover have "fst ` set (cp_payload c) \<subseteq> fst ` set whole"
    using pay by (force simp: dropEmpty_obj dropped_def simp del: dropEmpty.simps(1))
  moreover have "same_constraint path (value_at (JObj merged) path) (value_at (JObj (cp_payload c)) path)"
    if path: "path \<noteq> []" "hd path \<in> set POLICY_SECTIONS" for path
  proof -
    have "value_at (JObj whole) path = value_at (JObj merged) path" using path sections by (cases path) simp_all
    with same_constraint_dropped [OF whole path(1)] show ?thesis unfolding pay by simp
  qed
  moreover have "v \<noteq> JNull \<and> (v \<in> {JObj [], JArr []} \<longrightarrow> deny_all path v) \<and> (\<forall>xs. v = JArr xs \<longrightarrow> JNull \<notin> set xs)"
    if "path \<noteq> []" "value_at (JObj (cp_payload c)) path = Some v" for path v
  proof -
    from value_at_dropped [OF whole, of "[]"] that obtain a where "v = dropEmpty path a" "kept_value path v"
      unfolding pay by auto
    moreover have "JNull \<notin> set (map (dropEmpty path) (filter (\<lambda>x. x \<noteq> JNull) xs))" for xs by (auto dest: sym)
    ultimately show ?thesis by (auto simp: kept_deny_all dropEmpty_shape dest!: sym [of "JArr _"])
  qed
  ultimately show ?thesis using keys by (intro conjI allI impI) blast+
qed

theorem composed_payload_exact_witness:
  "\<exists>c merged. composeProjectPolicies demo_hash [policy_org, policy_team] [''team''] = Inr c
     \<and> merge_applied [] [policy_org, policy_team] = Inr merged
     \<and> same_constraint [''providers'', ''allowed''] (value_at (JObj merged) [''providers'', ''allowed''])
         (value_at (JObj (cp_payload c)) [''providers'', ''allowed''])"
proof -
  obtain c where c: "composeProjectPolicies demo_hash [policy_org, policy_team] [''team''] = Inr c"
    using demo_closure by blast
  then obtain merged where m: "merge_applied [] [policy_org, policy_team] = Inr merged" by (rule composed_payload)
  have wf: "\<forall>q\<in>set [policy_org, policy_team]. wf_policy q" using policies_wf by simp
  have "[''providers'', ''allowed''] \<noteq> [] \<and> hd [''providers'', ''allowed''] \<in> set POLICY_SECTIONS" by (simp add: POLICY_SECTIONS_def)
  with composed_payload_exact [OF wf m c] c m show ?thesis by blast
qed

end
