(* ===== verification/Policy_Guard.thy ===== *)
theory Policy_Guard
  imports Policy_Claims Activity_Claims
begin

text \<open>
  The policy guard inside an activity execution: \<open>RuntimePolicyGuard\<close> of \<open>policy-enforcement.ts\<close> wired into
  the executor as \<open>runtime-assembly.ts\<close> does it, its agreement with the check at admission, and what it
  gives for the provider calls of an execution.
\<close>

section \<open>The hook\<close>

definition provider_failure_text :: "provider_failure \<Rightarrow> string" where
  "provider_failure_text f =
     (case f of
        Provider_not_allowed p \<Rightarrow> ''provider '' @ [CHR 0x27] @ p @ [CHR 0x27] @ '' is not allowed by selected project policy''
      | Model_not_allowed p m \<Rightarrow>
          ''provider model '' @ [CHR 0x27] @ (case m of None \<Rightarrow> [] | Some s \<Rightarrow> s) @ [CHR 0x27]
          @ '' is not allowed for provider '' @ [CHR 0x27] @ p @ [CHR 0x27])"

text \<open>\<open>providerModelGuard: (call) => policyGuard.enforceProviderModel(call)\<close>, with the failure it throws.\<close>

definition providerModelGuard :: "composed_policy \<Rightarrow> string option \<Rightarrow> resolved_call \<Rightarrow> string option" where
  "providerModelGuard policy bound call =
     (case enforceProviderModel (JObj (cp_payload policy)) bound (rc_providerName call) (rc_model call) of
        Inl failure \<Rightarrow> Some (provider_failure_text failure) | Inr _ \<Rightarrow> None)"

text \<open>The model of a call under the default of the provider type.\<close>

definition called_model :: "string \<Rightarrow> string option \<Rightarrow> model_id option" where
  "called_model t m = (case m of Some s \<Rightarrow> Some (Model s) | None \<Rightarrow> defaultModelForProviderType t)"

lemma guarded_provider_bound: "t \<noteq> [] \<Longrightarrow> guarded_provider (Some t) called = t"
  by (cases t) (simp_all add: guarded_provider_def)

lemma enforce_accepts_iff:
  "t \<noteq> [] \<Longrightarrow> enforceProviderModel payload (Some t) called m = Inr () \<longleftrightarrow>
     providerModelPolicyFailure payload t (called_model t m) = None"
  by (simp add: enforceProviderModel_def guarded_provider_bound called_model_def Let_def split: option.splits)

section \<open>Admission and guard agree\<close>

text \<open>The models a call of the workflow can resolve to, as far as the spec determines them.\<close>

definition spec_models :: "governed_spec \<Rightarrow> string option set" where
  "spec_models spec = insert (model_text (effectiveModelFor (gv_provider spec))) (Some ` set (collectOverrideModels spec))"

definition override_unseen :: "governed_spec \<Rightarrow> jv \<Rightarrow> bool" where
  "override_unseen spec payload \<longleftrightarrow>
     pv_allow_prompt_model_override (gv_provider spec) \<and> rg_type (gv_registry spec) \<noteq> inline_type
     \<and> (\<exists>allowed p models. mappingAtOrNone payload [''providers'', ''allowed''] = Some allowed
          \<and> map_of allowed (pv_type (gv_provider spec)) = Some p \<and> listAtOrNone p [''models''] = Some models)"

lemma called_effective:
  "called_model (pv_type p) (model_text (effectiveModelFor p)) = effectiveModelFor p"
  by (auto simp: effectiveModelFor_def called_model_def model_text_def defaultModelForProviderType_def
      split: option.splits list.splits model_id.splits)

text \<open>C20: The check of provider and model at admission and the guard at run time decide alike: a workflow
  passes the check exactly when the guard accepts a call with the effective model and with every model the
  spec can override it with, and no model can come from a registry that admission does not see.\<close>

theorem guard_agrees_with_admission:
  assumes "pv_type (gv_provider spec) \<noteq> []"
  shows "\<not> is_failed (validateProvider spec payload) \<longleftrightarrow>
    (\<forall>m\<in>spec_models spec. enforceProviderModel payload (Some (pv_type (gv_provider spec))) called m = Inr ())
    \<and> \<not> override_unseen spec payload"
proof -
  let ?t = "pv_type (gv_provider spec)"
  have accepts: "(\<forall>m\<in>spec_models spec. providerModelPolicyFailure payload ?t (called_model ?t m) = None) \<longleftrightarrow>
      providerModelPolicyFailure payload ?t (effectiveModelFor (gv_provider spec)) = None
      \<and> (\<forall>s\<in>set (collectOverrideModels spec). providerModelPolicyFailure payload ?t (Some (Model s)) = None)"
    by (simp add: spec_models_def called_effective) (simp add: called_model_def)
  note split_simps = providerModelPolicyFailure_def override_unseen_def includes_model_def
  show ?thesis
    unfolding enforce_accepts_iff [OF assms] accepts provider_fails_iff
    by (cases "mappingAtOrNone payload [''providers'', ''allowed'']")
      (auto simp: split_simps simp flip: mappingAtOrNone_Some listAtOrNone_Some split: option.splits)
qed

theorem guard_agrees_with_admission_witness:
  "\<exists>c. composeProjectPolicies demo_hash [policy_org, policy_team] [''team''] = Inr c
     \<and> is_failed (validateProvider demo_spec (JObj (cp_payload c)))
     \<and> (\<exists>m\<in>spec_models demo_spec.
          enforceProviderModel (JObj (cp_payload c)) (Some ''openai'') ''custom'' m \<noteq> Inr ())"
proof -
  obtain c where c: "composeProjectPolicies demo_hash [policy_org, policy_team] [''team''] = Inr c"
    and pay: "value_at (JObj (cp_payload c)) [''providers'', ''allowed''] = Some (JObj [(''openai'', JObj [(''models'', JArr [JStr ''m-1''])])])"
    using demo_closure by auto
  have fails: "is_failed (validateProvider demo_spec (JObj (cp_payload c)))"
    using pay by (simp add: payload_eval demo_spec_def)
  have t: "pv_type (gv_provider demo_spec) = ''openai''" by (simp add: demo_spec_def)
  have "\<not> override_unseen demo_spec (JObj (cp_payload c))" by (simp add: override_unseen_def demo_spec_def)
  with fails guard_agrees_with_admission [of demo_spec "JObj (cp_payload c)" "''custom''"] t
  have "\<exists>m\<in>spec_models demo_spec.
      enforceProviderModel (JObj (cp_payload c)) (Some ''openai'') ''custom'' m \<noteq> Inr ()"
    by auto
  with c fails show ?thesis by blast
qed

section \<open>Provider calls of an execution\<close>

lemma guard_passes_policy:
  assumes "providerModelGuard c (Some t) call = None" and "t \<noteq> []"
  shows "providerModelPolicyFailure (JObj (cp_payload c)) t (called_model t (rc_model call)) = None"
proof -
  have "enforceProviderModel (JObj (cp_payload c)) (Some t) (rc_providerName call) (rc_model call) = Inr ()"
    using assms(1) by (auto simp: providerModelGuard_def split: sum.splits)
  then show ?thesis using enforce_accepts_iff [OF assms(2)] by simp
qed

text \<open>C8: From the policy files to the provider: when an activity runs with the guard of a composed policy,
  every provider call it makes requests a model that each policy of the closure, alone, allows for the
  bound provider.\<close>

theorem provider_calls_allowed:
  assumes "\<forall>q\<in>set applied. wf_policy q" and "p \<in> set applied"
    and "composeProjectPolicies sha [p] [ap_id p] = Inr solo"
    and "composeProjectPolicies sha applied selected = Inr c"
    and "op_providerModelGuard opts = Some (providerModelGuard c (Some t))" and "t \<noteq> []"
    and "\<not> mapping_allowlist_path t"
    and "executeAiActivity opts d input \<lparr>st_log = [], st_store = s\<rparr> = (r, st')"
    and "A_provider request \<in> set (st_log st')"
  shows "providerModelPolicyFailure (JObj (cp_payload solo)) t (called_model t (rq_model request)) = None"
proof -
  from provider_call_seen [OF assms(8,5,9)] obtain call where
    "providerModelGuard c (Some t) call = None" "rc_model call = rq_model request" by blast
  with guard_passes_policy [OF _ assms(6)]
  have "providerModelPolicyFailure (JObj (cp_payload c)) t (called_model t (rq_model request)) = None" by metis
  then show ?thesis
    using composed.model_failure_tightens [OF layer_of_member [OF assms(1-4)] _ assms(7)] by blast
qed

definition guarded_options :: "composed_policy \<Rightarrow> memory_store execute_options" where
  "guarded_options c = demo_options\<lparr>op_providerModelGuard := Some (providerModelGuard c (Some ''openai''))\<rparr>"

lemma guarded_run:
  assumes "\<And>call. rc_model call = Some ''m-1'' \<Longrightarrow> g call = None"
  shows "\<exists>q. A_provider q \<in> set (st_log (snd (executeAiActivity (demo_options\<lparr>op_providerModelGuard := Some g\<rparr>)
      demo_activity demo_input \<lparr>st_log = [], st_store = empty_store\<rparr>))) \<and> rq_model q = Some ''m-1''"
  using assms by (simp add: demo_eval conj_disj_distribR ex_disj_distrib)

theorem provider_calls_allowed_witness:
  "\<exists>c q. composeProjectPolicies demo_hash [policy_org, policy_team] [''team''] = Inr c
     \<and> A_provider q \<in> set (st_log (snd (executeAiActivity (guarded_options c) demo_activity demo_input
          \<lparr>st_log = [], st_store = empty_store\<rparr>)))
     \<and> providerModelPolicyFailure (JObj (policyConstraints policy_team)) ''openai'' (Some (Model ''m-1'')) = None"
proof -
  obtain solo where solo: "composeProjectPolicies demo_hash [policy_team] [ap_id policy_team] = Inr solo"
    using demo_team_alone by blast
  have wf: "\<forall>q\<in>set [policy_org, policy_team]. wf_policy q" using policies_wf by simp
  obtain c where c: "composeProjectPolicies demo_hash [policy_org, policy_team] [''team''] = Inr c"
    and pay: "value_at (JObj (cp_payload c)) [''providers'', ''allowed''] = Some (JObj [(''openai'', JObj [(''models'', JArr [JStr ''m-1''])])])"
    using demo_closure by auto
  have pass: "providerModelGuard c (Some ''openai'') call = None" if "rc_model call = Some ''m-1''" for call
    using that pay by (simp add: providerModelGuard_def enforceProviderModel_def guarded_provider_def payload_eval)
  let ?run = "executeAiActivity (guarded_options c) demo_activity demo_input \<lparr>st_log = [], st_store = empty_store\<rparr>"
  from guarded_run [of "providerModelGuard c (Some ''openai'')"] pass obtain q where q: "A_provider q \<in> set (st_log (snd ?run))" "rq_model q = Some ''m-1''"
    unfolding guarded_options_def by blast
  have "providerModelPolicyFailure (JObj (cp_payload solo)) ''openai'' (called_model ''openai'' (rq_model q)) = None"
    by (rule provider_calls_allowed [OF wf _ solo c _ _ _ prod.collapse [symmetric] q(1)])
      (simp_all add: guarded_options_def mapping_allowlist_path_def endsWith_def lastSegment_def)
  moreover have "value_at (JObj (policyConstraints policy_team)) [''providers'', ''allowed'']
      = value_at (JObj (cp_payload solo)) [''providers'', ''allowed'']"
    using alone_section [OF policies_wf(2) solo, of "''providers''"] by (simp add: POLICY_SECTIONS_def)
  ultimately have "providerModelPolicyFailure (JObj (policyConstraints policy_team)) ''openai'' (Some (Model ''m-1'')) = None"
    using q(2) by (simp add: called_model_def providerModelPolicyFailure_def mappingAtOrNone_def)
  with c q(1) show ?thesis by blast
qed

section \<open>The bar for moderation verdicts\<close>

text \<open>The bar the guard applies to a moderator's report is no lower in a composition than in any of its
  policies: a report that a policy alone would block is blocked.\<close>

theorem moderation_bar_composes:
  assumes "\<forall>q\<in>set applied. wf_policy q" and "p \<in> set applied"
    and "composeProjectPolicies sha [p] [ap_id p] = Inr solo"
    and "composeProjectPolicies sha applied selected = Inr c"
    and "moderationPolicyBlock (JObj (cp_payload solo)) categories score \<noteq> None"
  shows "moderationPolicyBlock (JObj (cp_payload c)) categories score \<noteq> None"
  by (rule composed.moderation_bar_tightens [OF layer_of_member [OF assms(1-4)] assms(5)])

theorem moderation_bar_composes_witness:
  "\<exists>c. composeProjectPolicies demo_hash [policy_org, policy_team] [''team''] = Inr c
     \<and> moderationPolicyBlock (JObj (cp_payload c)) [''hate''] None \<noteq> None"
proof -
  obtain solo where solo: "composeProjectPolicies demo_hash [policy_org] [ap_id policy_org] = Inr solo"
    and pay: "value_at (JObj (cp_payload solo)) [''semantics'', ''categories''] = Some (JArr [JStr ''hate''])"
    using demo_org_alone by auto
  obtain c where c: "composeProjectPolicies demo_hash [policy_org, policy_team] [''team''] = Inr c"
    using demo_closure by blast
  have wf: "\<forall>q\<in>set [policy_org, policy_team]. wf_policy q" using policies_wf by simp
  have "moderationPolicyBlock (JObj (cp_payload solo)) [''hate''] None \<noteq> None"
    using pay unfolding moderation_block_iff by (simp add: texts_def)
  from moderation_bar_composes [OF wf _ solo c this] c show ?thesis by auto
qed

end
