(* ===== verification/Policy_Loosening.thy ===== *)
theory Policy_Loosening
  imports Policy_Claims
begin

text \<open>
  Examples for the three checks in which composing two policies may admit a workflow that one of them
  rejects: provider limits (the more specific tier replaces the others), risk tiers (a higher floor selects
  another block of requirements) and the region map of the connection (the maps are united). They show
  that the checks left out of \<open>Policy_Claims.composition_only_tightens\<close> are left out with reason.
\<close>

definition loosens :: "check_code \<Rightarrow> bool" where
  "loosens code \<longleftrightarrow> (\<exists>su spec sha p q solo c. wf_policy p \<and> wf_policy q
     \<and> composeProjectPolicies sha [p] [ap_id p] = Inr solo
     \<and> composeProjectPolicies sha [p, q] [ap_id p, ap_id q] = Inr c
     \<and> fails_check su spec solo code \<and> enforcePolicyCompliance su spec c = Inr ())"

lemma enforce_iff: "enforcePolicyCompliance su spec c = Inr () \<longleftrightarrow> (\<forall>code. \<not> fails_check su spec c code)"
  by (auto simp: enforcePolicyCompliance_def fails_check_def filter_empty_conv Let_def)

text \<open>Policies whose name is their id, and the payload of a composition of such policies.\<close>

definition bare_policy :: "string \<Rightarrow> (string \<times> jv) list \<Rightarrow> applied_policy" where
  "bare_policy pid blocks = \<lparr>ap_id = pid, ap_name = pid, ap_blocks = blocks\<rparr>"

definition stamped :: "string list \<Rightarrow> (string \<times> jv) list \<Rightarrow> (string \<times> jv) list" where
  "stamped ids blocks = [(''version'', JStr ''1''), (''selected_policy_ids'', JArr (map JStr ids)),
     (''applied_policy_ids'', JArr (map JStr ids)), (''policy_names'', JArr (map JStr ids))] @ blocks"

lemma loosensI:
  assumes "wf_policy p" and "wf_policy q"
    and "\<exists>solo. composeProjectPolicies demo_hash [p] [ap_id p] = Inr solo \<and> cp_payload solo = stamped [ap_id p] P"
    and "\<exists>c. composeProjectPolicies demo_hash [p, q] [ap_id p, ap_id q] = Inr c \<and> cp_payload c = stamped [ap_id p, ap_id q] C"
    and "\<And>solo. cp_payload solo = stamped [ap_id p] P \<Longrightarrow> fails_check su spec solo code"
    and "\<And>c k. cp_payload c = stamped [ap_id p, ap_id q] C \<Longrightarrow> \<not> fails_check su spec c k"
  shows "loosens code"
  unfolding loosens_def enforce_iff using assms by blast

lemmas checks_eval = payload_eval mappingAtOrNone_def validateSecrets_def validateRegistry_def validateObservability_def
  validateTemporal_def validateArtifacts_def validateReview_def validateSemantics_def validateProviderRetry_def
  validateProviderLimits_def validateComposition_def validateRiskTier_def evaluateRiskTier_def
  nonEmptyMapping_def selectPolicyProviderLimit_def selectRuntimeProviderLimit_def providerLimitFailures_def
  number_at_def model_text_def limit_tier.truncate_def maxTier_def tier_requirements_def need_def set_to_def
  enabledReviewGates_def riskTierFailures_def fail_if_def verdict_of_def region_failures_def temporal_address_def
  tls_enabled_def Let_def demo_spec_def demo_surroundings_def bare_policy_def stamped_def

lemmas policy_shape = wf_policy_def wf_fields_def POLICY_SECTIONS_def bare_policy_def

lemma tier_ranks [simp]:
  "tierRank ''safe'' = 0" "tierRank ''policy_gated'' = 1" "tierRank ''human_gated'' = 2" "tierRank ''prohibited'' = 3"
  by (simp_all add: tierRank_def RISK_TIER_ORDER_def)

section \<open>Provider limits\<close>

definition limits_org :: applied_policy where
  "limits_org = bare_policy ''org'' [(''runtime'', JObj [(''provider_limits'',
     JObj [(''default'', JObj [(''max_concurrent'', JNum (IntN 5))])])])]"

definition limits_team :: applied_policy where
  "limits_team = bare_policy ''team'' [(''runtime'', JObj [(''provider_limits'', JObj [(''providers'',
     JObj [(''openai'', JObj [(''limits'', JObj [(''max_concurrent'', JNum (IntN 100))])])])])])]"

definition limits_spec :: governed_spec where
  "limits_spec = demo_spec\<lparr>gv_provider_limits := Some \<lparr>lm_default =
     Some \<lparr>lt_max_concurrent = Some (IntN 50), lt_min_interval_seconds = None\<rparr>, lm_providers = []\<rparr>\<rparr>"

lemma limits_loosen: "loosens Policy_provider_limits"
proof (rule loosensI [of limits_org limits_team
    "[(''runtime'', JObj [(''provider_limits'', JObj [(''default'', JObj [(''max_concurrent'', JNum (IntN 5))])])])]"
    "[(''runtime'', JObj [(''provider_limits'', JObj [(''default'', JObj [(''max_concurrent'', JNum (IntN 5))]),
       (''providers'', JObj [(''openai'', JObj [(''limits'', JObj [(''max_concurrent'', JNum (IntN 100))])])])])])]"
    demo_surroundings limits_spec])
  fix c :: composed_policy and k
  assume "cp_payload c = stamped [ap_id limits_org, ap_id limits_team]
    [(''runtime'', JObj [(''provider_limits'', JObj [(''default'', JObj [(''max_concurrent'', JNum (IntN 5))]),
       (''providers'', JObj [(''openai'', JObj [(''limits'', JObj [(''max_concurrent'', JNum (IntN 100))])])])])])]"
  then show "\<not> fails_check demo_surroundings limits_spec c k"
    by (cases k) (simp_all add: checks_eval limits_spec_def limits_org_def limits_team_def)
qed (simp_all add: policy_shape limits_org_def limits_team_def merge_eval checks_eval limits_spec_def)

section \<open>Risk tiers\<close>

definition tiers_org :: applied_policy where
  "tiers_org = bare_policy ''org'' [(''risk_tiers'', JObj [(''safe'', JObj [(''require_review'', JBool True)])])]"

definition tiers_team :: applied_policy where
  "tiers_team = bare_policy ''team'' [(''risk_tiers'', JObj [(''min_tier'', JStr ''policy_gated'')])]"

lemma tiers_loosen: "loosens Policy_risk_tier"
proof (rule loosensI [of tiers_org tiers_team
    "[(''risk_tiers'', JObj [(''safe'', JObj [(''require_review'', JBool True)])])]"
    "[(''risk_tiers'', JObj [(''safe'', JObj [(''require_review'', JBool True)]), (''min_tier'', JStr ''policy_gated'')])]"
    demo_surroundings demo_spec])
  fix c :: composed_policy and k
  assume "cp_payload c = stamped [ap_id tiers_org, ap_id tiers_team]
    [(''risk_tiers'', JObj [(''safe'', JObj [(''require_review'', JBool True)]), (''min_tier'', JStr ''policy_gated'')])]"
  then show "\<not> fails_check demo_surroundings demo_spec c k"
    by (cases k) (simp_all add: checks_eval tiers_org_def tiers_team_def)
qed (simp_all add: policy_shape tiers_org_def tiers_team_def merge_eval checks_eval)

section \<open>Region map\<close>

definition regions_org :: applied_policy where
  "regions_org = bare_policy ''org'' [(''runtime'', JObj [(''temporal'',
     JObj [(''allowed_regions'', JArr [JStr ''eu'']), (''address_regions'', JObj [(''eu:7233'', JStr ''eu'')])])])]"

definition regions_team :: applied_policy where
  "regions_team = bare_policy ''team'' [(''runtime'', JObj [(''temporal'',
     JObj [(''address_regions'', JObj [(''localhost:7233'', JStr ''eu'')])])])]"

lemma regions_loosen: "loosens Policy_temporal"
proof (rule loosensI [of regions_org regions_team
    "[(''runtime'', JObj [(''temporal'',
       JObj [(''allowed_regions'', JArr [JStr ''eu'']), (''address_regions'', JObj [(''eu:7233'', JStr ''eu'')])])])]"
    "[(''runtime'', JObj [(''temporal'', JObj [(''allowed_regions'', JArr [JStr ''eu'']),
       (''address_regions'', JObj [(''eu:7233'', JStr ''eu''), (''localhost:7233'', JStr ''eu'')])])])]"
    demo_surroundings demo_spec])
  fix c :: composed_policy and k
  assume "cp_payload c = stamped [ap_id regions_org, ap_id regions_team]
    [(''runtime'', JObj [(''temporal'', JObj [(''allowed_regions'', JArr [JStr ''eu'']),
       (''address_regions'', JObj [(''eu:7233'', JStr ''eu''), (''localhost:7233'', JStr ''eu'')])])])]"
  then show "\<not> fails_check demo_surroundings demo_spec c k"
    by (cases k) (simp_all add: checks_eval regions_org_def regions_team_def)
qed (simp_all add: policy_shape regions_org_def regions_team_def merge_eval checks_eval)

end
