(* ===== verification/Project_Closure.thy ===== *)
theory Project_Closure
  imports Policy_Admission
begin

text \<open>
  The closure of a workflow under its sub-workflow references: \<open>collectSubworkflowReferences\<close> of
  \<open>packages/typescript/yaml/src/project-validation.ts\<close>, and of \<open>project-enforcement.ts\<close> the walk over the
  closure, the longest chain of references and the admission of the closure against the policy of the
  parent. The resolver of sibling specs is the caller's; it may answer, know nothing or throw. It may also
  name ever new workflows, so the walk is a partial function: \<open>None\<close> stands for a walk that does not end.
\<close>

section \<open>References\<close>

definition add_reference :: "string list \<Rightarrow> string \<Rightarrow> string list" where
  "add_reference seen ref = (if ref \<in> set seen then seen else seen @ [ref])"

fun collect_references :: "workflow_step_spec list \<Rightarrow> string list \<Rightarrow> string list"
  and collect_branch_references :: "workflow_parallel_branch_spec list \<Rightarrow> string list \<Rightarrow> string list" where
  "collect_references [] seen = seen"
| "collect_references (StepSpec sid act mp par wh sub undo # rest) seen = collect_references rest
     (case sub of
        Some w \<Rightarrow> add_reference seen w
      | None \<Rightarrow>
          (case Option.bind mp wm_workflow of
             Some w \<Rightarrow> add_reference seen w
           | None \<Rightarrow>
               (case par of
                  Some (ParallelSpec branches out mb) \<Rightarrow> collect_branch_references branches seen
                | None \<Rightarrow> seen)))"
| "collect_branch_references [] seen = seen"
| "collect_branch_references (BranchSpec bid wh steps # rest) seen =
     collect_branch_references rest (collect_references steps seen)"

definition collectSubworkflowReferences :: "workflow_step_spec list \<Rightarrow> string list" where
  "collectSubworkflowReferences steps = collect_references steps []"

text \<open>The references of a resolved workflow.\<close>

definition references_of :: "governed_spec \<Rightarrow> string list" where
  "references_of spec = collectSubworkflowReferences (gv_steps spec)"

section \<open>The walk\<close>

datatype resolution = Resolved governed_spec | Unresolved | Resolver_throws string

type_synonym closure_resolver = "string \<Rightarrow> resolution"
type_synonym closure_members = "(string \<times> governed_spec option) list"

text \<open>A computation that may not end, and may throw what the resolver throws.\<close>

type_synonym 'a walked = "(string, 'a) result option"

partial_function (option) walk ::
    "closure_resolver \<Rightarrow> string list \<Rightarrow> string list \<Rightarrow> closure_members \<Rightarrow> closure_members walked" where
  "walk resolver visited frontier members =
     (case frontier of
        [] \<Rightarrow> Some (Inr members)
      | ref # rest \<Rightarrow>
          if ref \<in> set visited then walk resolver visited rest members
          else (case resolver ref of
                  Resolver_throws e \<Rightarrow> Some (Inl e)
                | Unresolved \<Rightarrow> walk resolver (ref # visited) rest (members @ [(ref, None)])
                | Resolved child \<Rightarrow>
                    walk resolver (ref # visited) (rest @ references_of child) (members @ [(ref, Some child)])))"

definition walkSubworkflowClosure :: "governed_spec \<Rightarrow> closure_resolver \<Rightarrow> string \<Rightarrow> closure_members walked" where
  "walkSubworkflowClosure spec resolver parent = walk resolver [parent] (references_of spec) []"

text \<open>A resolver whose exceptions count as "unknown".\<close>

definition tolerant :: "closure_resolver \<Rightarrow> closure_resolver" where
  "tolerant resolver w = (case resolver w of Resolver_throws e \<Rightarrow> Unresolved | r \<Rightarrow> r)"

section \<open>The longest chain of references\<close>

definition map_get :: "(string \<times> 'v list) list \<Rightarrow> string \<Rightarrow> 'v list" where
  "map_get m k = (case map_of m k of None \<Rightarrow> [] | Some vs \<Rightarrow> vs)"

text \<open>\<open>map.set(key, value)\<close>: a key keeps its place.\<close>

fun map_set :: "'k \<Rightarrow> 'v \<Rightarrow> ('k \<times> 'v) list \<Rightarrow> ('k \<times> 'v) list" where
  "map_set k v [] = [(k, v)]"
| "map_set k v ((k', v') # m) = (if k' = k then (k, v) # m else (k', v') # map_set k v m)"

type_synonym reference_map = "(string \<times> string list) list"
type_synonym chain_cache = "(string \<times> string list) list"

text \<open>
  \<open>deepest\<close> returns the chain and the cache; \<open>deepest_child\<close> is its loop, at the position \<open>n\<close> of the children.
  The measure counts the nodes that are not on the stack; a node that refers to itself is entered once more
  before it is on the stack.
\<close>

definition chain_measure :: "reference_map \<Rightarrow> string \<Rightarrow> string list \<Rightarrow> nat" where
  "chain_measure references node visiting =
     2 * card (fst ` set references - set visiting) + (if node \<in> set visiting then 1 else 0)"

lemma map_get_key: "n < length (map_get m k) \<Longrightarrow> k \<in> fst ` set m"
  by (auto simp: map_get_def split: option.splits dest: map_of_SomeD intro!: rev_image_eqI)

lemma chain_measure_step:
  assumes "node \<in> fst ` set references" and "child \<notin> set visiting"
  shows "chain_measure references child (node # visiting) < chain_measure references node visiting"
proof (cases "node \<in> set visiting")
  case True
  then show ?thesis using assms(2) by (auto simp: chain_measure_def insert_absorb)
next
  case False
  let ?K = "fst ` set references"
  have "?K - set (node # visiting) \<subset> ?K - set visiting" using assms(1) False by auto
  then have "card (?K - set (node # visiting)) < card (?K - set visiting)" by (rule psubset_card_mono [rotated]) simp
  then show ?thesis using False by (simp add: chain_measure_def)
qed

function deepest :: "reference_map \<Rightarrow> string \<Rightarrow> string list \<Rightarrow> chain_cache \<Rightarrow> string list \<times> chain_cache"
  and deepest_child ::
    "reference_map \<Rightarrow> string \<Rightarrow> string list \<Rightarrow> nat \<Rightarrow> string list \<Rightarrow> chain_cache \<Rightarrow> string list \<times> chain_cache" where
  "deepest references node visiting cache =
     (case map_of cache node of
        Some cached \<Rightarrow> (cached, cache)
      | None \<Rightarrow>
          let (best, cache') = deepest_child references node visiting 0 [] cache
          in (node # best, map_set node (node # best) cache'))"
| "deepest_child references node visiting n best cache =
     (if n < length (map_get references node) then
        let child = map_get references node ! n in
        if child \<in> set visiting then deepest_child references node visiting (Suc n) best cache
        else let (sub, cache') = deepest references child (node # visiting) cache
             in deepest_child references node visiting (Suc n)
                  (if length sub > length best then sub else best) cache'
      else (best, cache))"
  by pat_completeness auto

termination
proof (relation "measures
    [\<lambda>x. case x of Inl (r, k, v, _) \<Rightarrow> chain_measure r k v | Inr (r, k, v, _) \<Rightarrow> chain_measure r k v,
     \<lambda>x. case x of Inl (r, k, _, _) \<Rightarrow> Suc (length (map_get r k)) | Inr (r, k, _, n, _) \<Rightarrow> length (map_get r k) - n]",
    goal_cases)
  case (4 r k v n best cache child)
  then show ?case using chain_measure_step [of k r child v] map_get_key [of n r k] by simp
qed auto

definition deepestReferenceChain :: "string \<Rightarrow> reference_map \<Rightarrow> string list" where
  "deepestReferenceChain start references = fst (deepest references start [] [])"

end
