(* ===== verification/Project_Resolve.thy ===== *)
theory Project_Resolve
  imports Policy_Merge Artifacts
begin

text \<open>
  The policies of a project (\<open>packages/typescript/yaml/src/project-resolve.ts\<close>): the part of the manifest
  policies are bound by, the walk along \<open>extends\<close> that orders the policies of a selection, their
  composition, and the validation of the policy references of a manifest.
\<close>

section \<open>The manifest\<close>

record validation_target =
  vt_workflows :: "string list"
  vt_environment :: "string option"
  vt_policies :: "string list"

text \<open>The keys of \<open>environments\<close> and \<open>policies\<close>, and the targets, in property order.\<close>

record project_spec =
  pj_workflows :: "string list"
  pj_environments :: "string list"
  pj_policies :: "string list"
  pj_targets :: "(string \<times> validation_target) list"

record policy_document =
  pd_name :: string
  pd_extends :: "string list"
  pd_blocks :: "(string \<times> jv) list"

type_synonym policy_sources = "(string \<times> policy_document) list"

datatype resolve_error =
    Policy_id_untrimmed
  | Policy_id_not_local string
  | Extends_cycle "string list"
  | Unknown_project_policy string
  | Policy_source_missing string
  | Policy_name_differs string string
  | No_policy_ids
  | Composition_fails policy_error

section \<open>The closure of a selection\<close>

definition assertPolicyId :: "string \<Rightarrow> (resolve_error, unit) result" where
  "assertPolicyId i =
     (if i = [] \<or> trim i \<noteq> i then Inl Policy_id_untrimmed
      else if list_ex (\<lambda>c. c \<in> {CHR ''/'', CHR 0x5C, CHR '':''}) i then Inl (Policy_id_not_local i)
      else Inr ())"

text \<open>The document a policy id stands for, or why it stands for none.\<close>

definition declared_policy :: "project_spec \<Rightarrow> policy_sources \<Rightarrow> string \<Rightarrow> (resolve_error, policy_document) result" where
  "declared_policy project sources i =
     (if i \<notin> set (pj_policies project) then Inl (Unknown_project_policy i)
      else (case map_of sources i of
              None \<Rightarrow> Inl (Policy_source_missing i)
            | Some spec \<Rightarrow> if pd_name spec \<noteq> i then Inl (Policy_name_differs i (pd_name spec)) else Inr spec))"

lemma declared_policy_declared: "declared_policy project sources i = Inr spec \<Longrightarrow> i \<in> set (pj_policies project)"
  by (simp add: declared_policy_def split: if_splits)

definition applied_as :: "string \<Rightarrow> policy_document \<Rightarrow> applied_policy" where
  "applied_as i spec = \<lparr>ap_id = i, ap_name = pd_name spec, ap_blocks = pd_blocks spec\<rparr>"

definition add_applied :: "string \<Rightarrow> policy_document \<Rightarrow> applied_policy list \<Rightarrow> applied_policy list" where
  "add_applied i spec applied = (if i \<in> ap_id ` set applied then applied else applied @ [applied_as i spec])"

text \<open>
  \<open>visiting\<close> is the stack of the walk. It holds declared policies only, so the walk ends: every nested call
  has one declared policy more on it.
\<close>

function visit :: "project_spec \<Rightarrow> policy_sources \<Rightarrow> string \<Rightarrow> string list \<Rightarrow> applied_policy list
    \<Rightarrow> (resolve_error, applied_policy list) result"
  and visit_all :: "project_spec \<Rightarrow> policy_sources \<Rightarrow> string list \<Rightarrow> string list \<Rightarrow> applied_policy list
    \<Rightarrow> (resolve_error, applied_policy list) result" where
  "visit project sources i visiting applied =
     (case assertPolicyId i of
        Inl e \<Rightarrow> Inl e
      | Inr _ \<Rightarrow>
          if i \<in> ap_id ` set applied then Inr applied
          else if i \<in> set visiting then Inl (Extends_cycle (visiting @ [i]))
          else (case declared_policy project sources i of
                  Inl e \<Rightarrow> Inl e
                | Inr spec \<Rightarrow>
                    rbind (visit_all project sources (pd_extends spec) (visiting @ [i]) applied)
                      (\<lambda>applied'. Inr (add_applied i spec applied'))))"
| "visit_all project sources [] visiting applied = Inr applied"
| "visit_all project sources (i # ids) visiting applied =
     rbind (visit project sources i visiting applied) (visit_all project sources ids visiting)"
  by pat_completeness auto

termination
proof (relation "measures
    [\<lambda>x. case x of Inl (p, _, _, v, _) \<Rightarrow> card (set (pj_policies p) - set v)
        | Inr (p, _, _, v, _) \<Rightarrow> card (set (pj_policies p) - set v),
     \<lambda>x. case x of Inl _ \<Rightarrow> 0 | Inr (_, _, ids, _, _) \<Rightarrow> length ids]", goal_cases)
  case (2 p s i v a u spec)
  then have "set (pj_policies p) - set (v @ [i]) \<subset> set (pj_policies p) - set v"
    by (auto dest: declared_policy_declared)
  then have "card (set (pj_policies p) - set (v @ [i])) < card (set (pj_policies p) - set v)"
    by (intro psubset_card_mono) simp_all
  then show ?case by simp
qed simp_all

definition resolveProjectPolicyClosure ::
    "project_spec \<Rightarrow> policy_sources \<Rightarrow> string list \<Rightarrow> (resolve_error, applied_policy list) result" where
  "resolveProjectPolicyClosure project sources policyIds = visit_all project sources policyIds [] []"

definition composition_result :: "(policy_error, 'a) result \<Rightarrow> (resolve_error, 'a) result" where
  "composition_result r = (case r of Inl e \<Rightarrow> Inl (Composition_fails e) | Inr c \<Rightarrow> Inr c)"

definition composeProjectPolicyIds ::
    "(string \<Rightarrow> string) \<Rightarrow> project_spec \<Rightarrow> policy_sources \<Rightarrow> string list \<Rightarrow> (resolve_error, composed_policy) result" where
  "composeProjectPolicyIds sha project sources policyIds =
     (if policyIds = [] then Inl No_policy_ids
      else rbind (resolveProjectPolicyClosure project sources policyIds)
             (\<lambda>applied. composition_result (composeProjectPolicies sha applied policyIds)))"

section \<open>Validation of the references\<close>

datatype project_issue =
    Unknown_target_workflow string string
  | Unknown_target_environment string string
  | Unknown_target_policy string string
  | Missing_policy_source string
  | Invalid_policy_composition string resolve_error
  | Invalid_target_policy_composition string resolve_error

definition target_issues :: "project_spec \<Rightarrow> string \<times> validation_target \<Rightarrow> project_issue list" where
  "target_issues project = (\<lambda>(name, target).
     map (Unknown_target_workflow name) (filter (\<lambda>w. w \<notin> set (pj_workflows project)) (vt_workflows target))
     @ (case vt_environment target of
          None \<Rightarrow> []
        | Some e \<Rightarrow> if e \<in> set (pj_environments project) then [] else [Unknown_target_environment name e])
     @ map (Unknown_target_policy name) (filter (\<lambda>p. p \<notin> set (pj_policies project)) (vt_policies target)))"

definition policy_issues ::
    "(string \<Rightarrow> string) \<Rightarrow> project_spec \<Rightarrow> policy_sources \<Rightarrow> string \<Rightarrow> project_issue list" where
  "policy_issues sha project sources p =
     (if map_of sources p = None then [Missing_policy_source p]
      else (case composeProjectPolicyIds sha project sources [p] of
              Inl e \<Rightarrow> [Invalid_policy_composition p e] | Inr _ \<Rightarrow> []))"

definition target_composition_issues ::
    "(string \<Rightarrow> string) \<Rightarrow> project_spec \<Rightarrow> policy_sources \<Rightarrow> string \<times> validation_target \<Rightarrow> project_issue list" where
  "target_composition_issues sha project sources = (\<lambda>(name, target).
     if vt_policies target = [] then []
     else if \<not> set (vt_policies target) \<subseteq> set (pj_policies project) then []
     else if list_ex (\<lambda>p. policy_issues sha project sources p \<noteq> []) (vt_policies target) then []
     else (case composeProjectPolicyIds sha project sources (vt_policies target) of
             Inl e \<Rightarrow> [Invalid_target_policy_composition name e] | Inr _ \<Rightarrow> []))"

definition validateProjectPolicyReferences ::
    "(string \<Rightarrow> string) \<Rightarrow> project_spec \<Rightarrow> policy_sources \<Rightarrow> project_issue list" where
  "validateProjectPolicyReferences sha project sources =
     concat (map (target_issues project) (pj_targets project))
     @ concat (map (policy_issues sha project sources) (pj_policies project))
     @ concat (map (target_composition_issues sha project sources) (pj_targets project))"

end
