(* ===== verification/Project_Enforcement.thy ===== *)
theory Project_Enforcement
  imports Project_Closure Project_Resolve
begin

text \<open>
  The policies of a project bound to a workflow (\<open>packages/typescript/yaml/src/project-enforcement.ts\<close>):
  selection by validation targets, admission of the workflow and of its whole sub-workflow closure, the
  binding of declared risk tiers, the report of a validation and the guard of a run. \<open>None\<close> stands for a
  resolver whose closure never ends; a failed check carries its reasons in place of the message text.
\<close>

section \<open>Computations that may not end or may throw\<close>

definition wbind :: "('e, 'a) result option \<Rightarrow> ('a \<Rightarrow> ('e, 'b) result option) \<Rightarrow> ('e, 'b) result option" where
  "wbind m f = (case m of None \<Rightarrow> None | Some (Inl e) \<Rightarrow> Some (Inl e) | Some (Inr x) \<Rightarrow> f x)"

definition wreturn :: "'a \<Rightarrow> ('e, 'a) result option" where
  "wreturn x = Some (Inr x)"

definition rethrow :: "('e \<Rightarrow> 'f) \<Rightarrow> ('e, 'a) result option \<Rightarrow> ('f, 'a) result option" where
  "rethrow f m = (case m of None \<Rightarrow> None | Some (Inl e) \<Rightarrow> Some (Inl (f e)) | Some (Inr x) \<Rightarrow> Some (Inr x))"

section \<open>Admission of the closure\<close>

datatype closure_failure =
    Resolver_missing "string list"
  | Member_fails string check_code "policy_failure list"
  | Member_unresolved string
  | Closure_steps_exceed nat jsnum
  | Closure_depth_exceeds nat jsnum "string list"
  | Cascade_failure string risk_failure

record closure_details =
  cd_referenced :: "string list"
  cd_unresolved :: "string list"
  cd_total_steps :: "nat option"
  cd_depth :: "nat option"
  cd_cascade :: "risk_cascade option"
  cd_policy_hash :: string

text \<open>The check has failed if there is a reason.\<close>

type_synonym closure_check = "closure_failure list \<times> closure_details"

record closure_tally =
  ct_order :: "string list"
  ct_unresolved :: "string list"
  ct_failures :: "closure_failure list"
  ct_references :: reference_map
  ct_step_counts :: "(string \<times> nat) list"
  ct_risk_tiers :: "(string \<times> string) list"

definition step_count :: "governed_spec \<Rightarrow> nat" where
  "step_count spec = flattenedStepCount (collectCompositionMetrics (gv_steps spec))"

definition set_tier ::
    "string \<Rightarrow> risk_evaluation option \<Rightarrow> (string \<times> string) list \<Rightarrow> (string \<times> string) list" where
  "set_tier member risk tiers = (case risk of None \<Rightarrow> tiers | Some r \<Rightarrow> map_set member (re_effective r) tiers)"

definition start_tally :: "governed_spec \<Rightarrow> jv \<Rightarrow> string \<Rightarrow> closure_tally" where
  "start_tally spec payload parent =
     \<lparr>ct_order = [], ct_unresolved = [], ct_failures = [], ct_references = [(parent, references_of spec)],
      ct_step_counts = [(parent, step_count spec)],
      ct_risk_tiers = set_tier parent (evaluateRiskTier spec payload None) []\<rparr>"

fun member_failure :: "string \<Rightarrow> policy_check \<Rightarrow> closure_failure list" where
  "member_failure ref (code, Failed reasons) = [Member_fails ref code reasons]"
| "member_failure ref (code, _) = []"

definition tally_member ::
    "surroundings \<Rightarrow> composed_policy \<Rightarrow> closure_tally \<Rightarrow> string \<times> governed_spec option \<Rightarrow> closure_tally" where
  "tally_member su policy t member =
     (case member of
        (ref, None) \<Rightarrow> t\<lparr>ct_unresolved := ct_unresolved t @ [ref], ct_references := map_set ref [] (ct_references t)\<rparr>
      | (ref, Some child) \<Rightarrow>
          t\<lparr>ct_order := ct_order t @ [ref],
            ct_failures := ct_failures t @ concat (map (member_failure ref) (validatePolicyCompliance su child policy)),
            ct_references := map_set ref (references_of child) (ct_references t),
            ct_step_counts := map_set ref (step_count child) (ct_step_counts t),
            ct_risk_tiers := set_tier ref (evaluateRiskTier child (JObj (cp_payload policy)) None) (ct_risk_tiers t)\<rparr>)"

definition composition_section :: "composed_policy \<Rightarrow> (string \<times> jv) list" where
  "composition_section policy = (case map_of (cp_payload policy) ''composition'' of Some (JObj m) \<Rightarrow> m | _ \<Rightarrow> [])"

definition total_steps :: "closure_tally \<Rightarrow> nat" where
  "total_steps t = sum_list (map snd (ct_step_counts t))"

definition closure_verdict ::
    "governed_spec \<Rightarrow> composed_policy \<Rightarrow> string \<Rightarrow> closure_tally \<Rightarrow> closure_check" where
  "closure_verdict spec policy parent t =
     (let composition = composition_section policy;
          payload = JObj (cp_payload policy);
          deepestChain = deepestReferenceChain parent (ct_references t);
          observedDepth = length deepestChain - 1;
          maxTotal = number_at composition ''max_total_steps'';
          maxDepth = number_at composition ''max_subworkflow_depth'';
          cascade = (case evaluateRiskTier spec payload None of
                       None \<Rightarrow> None
                     | Some parentRisk \<Rightarrow> riskTierCascade parent parentRisk (ct_risk_tiers t) spec payload)
      in (ct_failures t @ map Member_unresolved (ct_unresolved t)
            @ (case maxTotal of
                 None \<Rightarrow> [] | Some m \<Rightarrow> fail_if (exceeds (total_steps t) m) (Closure_steps_exceed (total_steps t) m))
            @ (case maxDepth of
                 None \<Rightarrow> []
               | Some m \<Rightarrow> fail_if (exceeds observedDepth m) (Closure_depth_exceeds observedDepth m deepestChain))
            @ (case cascade of
                 None \<Rightarrow> []
               | Some c \<Rightarrow> map (Cascade_failure (rc_lifted_by c)) (riskTierFailures (rc_evaluation c) False)),
          \<lparr>cd_referenced = ct_order t, cd_unresolved = ct_unresolved t,
           cd_total_steps = map_option (\<lambda>_. total_steps t) maxTotal,
           cd_depth = map_option (\<lambda>_. observedDepth) maxDepth,
           cd_cascade = cascade, cd_policy_hash = cp_policyHash policy\<rparr>))"

definition validateSubworkflowClosurePolicy ::
    "surroundings \<Rightarrow> governed_spec \<Rightarrow> composed_policy \<Rightarrow> closure_resolver option \<Rightarrow> string
     \<Rightarrow> closure_check option walked" where
  "validateSubworkflowClosurePolicy su spec policy resolver parent =
     (if references_of spec = [] then wreturn None
      else (case resolver of
              None \<Rightarrow> wreturn (Some ([Resolver_missing (references_of spec)],
                \<lparr>cd_referenced = [], cd_unresolved = references_of spec, cd_total_steps = None, cd_depth = None,
                 cd_cascade = None, cd_policy_hash = cp_policyHash policy\<rparr>))
            | Some resolve \<Rightarrow>
                wbind (walkSubworkflowClosure spec resolve parent) (\<lambda>members.
                  wreturn (Some (closure_verdict spec policy parent
                    (foldl (tally_member su policy) (start_tally spec (JObj (cp_payload policy)) parent) members))))))"

section \<open>The risk-tier posture\<close>

record risk_posture =
  rp_base :: risk_evaluation
  rp_cascade :: "risk_cascade option"

definition closureMemberEffectiveTiers ::
    "governed_spec \<Rightarrow> composed_policy \<Rightarrow> closure_resolver option \<Rightarrow> string \<Rightarrow> (string \<times> string) list walked" where
  "closureMemberEffectiveTiers spec policy resolver parent =
     (let payload = JObj (cp_payload policy);
          own = set_tier parent (evaluateRiskTier spec payload None) []
      in case resolver of
           None \<Rightarrow> wreturn own
         | Some resolve \<Rightarrow>
             wbind (walkSubworkflowClosure spec (tolerant resolve) parent) (\<lambda>members.
               wreturn (foldl (\<lambda>tiers (ref, child). case child of
                   None \<Rightarrow> tiers | Some c \<Rightarrow> set_tier ref (evaluateRiskTier c payload None) tiers) own members)))"

definition evaluateWorkflowRiskTier ::
    "governed_spec \<Rightarrow> composed_policy \<Rightarrow> closure_resolver option \<Rightarrow> string \<Rightarrow> risk_posture option walked" where
  "evaluateWorkflowRiskTier spec policy resolver parent =
     (let payload = JObj (cp_payload policy)
      in case evaluateRiskTier spec payload None of
           None \<Rightarrow> wreturn None
         | Some base \<Rightarrow>
             wbind (closureMemberEffectiveTiers spec policy resolver parent) (\<lambda>tiers.
               wreturn (Some \<lparr>rp_base = base, rp_cascade = riskTierCascade parent base tiers spec payload\<rparr>)))"

section \<open>Selection\<close>

definition target_applies :: "string \<Rightarrow> string \<Rightarrow> validation_target \<Rightarrow> bool" where
  "target_applies environment workflow target \<longleftrightarrow>
     (case vt_environment target of None \<Rightarrow> True | Some e \<Rightarrow> e = environment) \<and> workflow \<in> set (vt_workflows target)"

definition selectProjectPolicyIdsForWorkflow ::
    "project_spec \<Rightarrow> string \<Rightarrow> string \<Rightarrow> string list \<Rightarrow> string list" where
  "selectProjectPolicyIdsForWorkflow project environment workflow explicit =
     (if explicit \<noteq> [] then js_set explicit
      else js_set (concat (map (vt_policies \<circ> snd)
             (filter (target_applies environment workflow \<circ> snd) (pj_targets project)))))"

end
