(* ===== verification/Project_Guard.thy ===== *)
theory Project_Guard
  imports Project_Enforcement
begin

text \<open>
  The policies of a project bound to a workflow, second part
  (\<open>packages/typescript/yaml/src/project-enforcement.ts\<close>): the binding of declared risk tiers, the report of
  a validation and the guard that a run starts with.
\<close>

section \<open>Binding of the risk tiers\<close>

definition ELEVATED_RISK_TIERS :: "string list" where
  "ELEVATED_RISK_TIERS = [''policy_gated'', ''human_gated'', ''prohibited'']"

definition higher_tier :: "string option \<Rightarrow> string option \<Rightarrow> string option" where
  "higher_tier best declared =
     (case declared of
        None \<Rightarrow> best
      | Some d \<Rightarrow> (case best of None \<Rightarrow> Some d | Some b \<Rightarrow> if tierRank d > tierRank b then Some d else best))"

definition member_tier :: "string \<times> governed_spec option \<Rightarrow> string option" where
  "member_tier member = Option.bind (snd member) gv_risk_tier"

definition maxDeclaredClosureRiskTier ::
    "governed_spec \<Rightarrow> closure_resolver option \<Rightarrow> string \<Rightarrow> string option walked" where
  "maxDeclaredClosureRiskTier spec resolver parent =
     (case resolver of
        None \<Rightarrow> wreturn (gv_risk_tier spec)
      | Some resolve \<Rightarrow>
          wbind (walkSubworkflowClosure spec (tolerant resolve) parent) (\<lambda>members.
            wreturn (foldl (\<lambda>best m. higher_tier best (member_tier m)) (gv_risk_tier spec) members)))"

datatype binding_failure =
    Closure_unverifiable
  | Tier_unbound string
  | Tiers_missing string "string list"
  | Tier_hollow string "string list" string

text \<open>\<open>None\<close> is the passed check.\<close>

definition binding_verdict ::
    "governed_spec \<Rightarrow> string list \<Rightarrow> jv \<Rightarrow> closure_resolver option \<Rightarrow> string option \<Rightarrow> binding_failure option" where
  "binding_verdict spec selected payload resolver declared =
     (case declared of
        Some tier \<Rightarrow>
          if tier \<in> set ELEVATED_RISK_TIERS then
            if selected = [] then Some (Tier_unbound tier)
            else (case evaluateRiskTier spec payload (Some tier) of
                    None \<Rightarrow> Some (Tiers_missing tier selected)
                  | Some ev \<Rightarrow>
                      if \<not> re_denied ev \<and> re_requirements ev = []
                      then Some (Tier_hollow tier selected (re_effective ev)) else None)
          else reason_if (selected = [] \<and> resolver = None \<and> references_of spec \<noteq> []) Closure_unverifiable
      | None \<Rightarrow> reason_if (selected = [] \<and> resolver = None \<and> references_of spec \<noteq> []) Closure_unverifiable)"

definition riskTierBindingCheck ::
    "governed_spec \<Rightarrow> string list \<Rightarrow> jv \<Rightarrow> closure_resolver option \<Rightarrow> string \<Rightarrow> binding_failure option walked" where
  "riskTierBindingCheck spec selected payload resolver parent =
     wbind (maxDeclaredClosureRiskTier spec resolver parent)
       (\<lambda>declared. wreturn (binding_verdict spec selected payload resolver declared))"

section \<open>The checks of a workflow\<close>

record enforcement_context =
  ec_spec :: governed_spec
  ec_workflow :: string
  ec_environment :: string
  ec_explicit :: "string list"
  ec_resolver :: "closure_resolver option"

datatype project_check =
    Admission_check policy_check
  | Binding_check "binding_failure option"
  | Binding_elsewhere "string list"
  | Binding_not_checked
  | Closure_check closure_check
  | Nothing_selected
  | Composition_failed resolve_error

fun check_failed :: "project_check \<Rightarrow> bool" where
  "check_failed (Admission_check c) = is_failed (snd c)"
| "check_failed (Binding_check f) = (f \<noteq> None)"
| "check_failed (Closure_check c) = (fst c \<noteq> [])"
| "check_failed (Composition_failed e) = True"
| "check_failed _ = False"

definition boundInOtherEnvironments :: "project_spec \<Rightarrow> string \<Rightarrow> string \<Rightarrow> string list" where
  "boundInOtherEnvironments project workflow environment =
     js_set (concat (map (\<lambda>(name, target).
         if workflow \<notin> set (vt_workflows target) \<or> vt_policies target = [] then []
         else (case vt_environment target of
                 None \<Rightarrow> [] | Some e \<Rightarrow> if e \<noteq> environment then [e] else []))
       (pj_targets project)))"

definition softenedUnboundBindingCheck :: "project_spec \<Rightarrow> enforcement_context \<Rightarrow> project_check walked" where
  "softenedUnboundBindingCheck project ctx =
     wbind (riskTierBindingCheck (ec_spec ctx) [] JNull (ec_resolver ctx) (ec_workflow ctx)) (\<lambda>failure.
       let elsewhere = boundInOtherEnvironments project (ec_workflow ctx) (ec_environment ctx)
       in wreturn (if failure = None \<or> elsewhere = [] then Binding_check failure else Binding_elsewhere elsewhere))"

text \<open>The three groups of checks of a workflow with a composed policy, shared by validation and guard.\<close>

definition bound_checks ::
    "surroundings \<Rightarrow> enforcement_context \<Rightarrow> string list \<Rightarrow> composed_policy \<Rightarrow> project_check list walked" where
  "bound_checks su ctx selected policy =
     wbind (riskTierBindingCheck (ec_spec ctx) selected (JObj (cp_payload policy)) (ec_resolver ctx) (ec_workflow ctx))
       (\<lambda>bound. wbind (validateSubworkflowClosurePolicy su (ec_spec ctx) policy (ec_resolver ctx) (ec_workflow ctx))
         (\<lambda>closure. wreturn
           (map Admission_check (validatePolicyCompliance su (ec_spec ctx) policy) @ [Binding_check bound]
            @ (case closure of None \<Rightarrow> [] | Some c \<Rightarrow> [Closure_check c]))))"

definition selected_for :: "project_spec \<Rightarrow> enforcement_context \<Rightarrow> string list" where
  "selected_for project ctx =
     selectProjectPolicyIdsForWorkflow project (ec_environment ctx) (ec_workflow ctx) (ec_explicit ctx)"

definition validateWorkflowPolicyCompliance ::
    "(string \<Rightarrow> string) \<Rightarrow> surroundings \<Rightarrow> project_spec \<Rightarrow> policy_sources \<Rightarrow> enforcement_context
     \<Rightarrow> project_check list walked" where
  "validateWorkflowPolicyCompliance sha su project sources ctx =
     (let selected = selected_for project ctx in
      if selected = [] then
        wbind (softenedUnboundBindingCheck project ctx) (\<lambda>bound. wreturn [Nothing_selected, bound])
      else (case composeProjectPolicyIds sha project sources selected of
              Inl e \<Rightarrow> wreturn [Composition_failed e, Binding_not_checked]
            | Inr policy \<Rightarrow> bound_checks su ctx selected policy))"

section \<open>The guard of a run\<close>

record runtime_guard =
  gu_policy :: composed_policy
  gu_providerName :: string

datatype guard_refusal =
    Guard_unresolved resolve_error
  | Guard_failed "project_check list"
  | Guard_resolver string

definition buildProjectPolicyRuntimeGuard ::
    "(string \<Rightarrow> string) \<Rightarrow> surroundings \<Rightarrow> project_spec \<Rightarrow> policy_sources \<Rightarrow> enforcement_context
     \<Rightarrow> (guard_refusal, runtime_guard option) result option" where
  "buildProjectPolicyRuntimeGuard sha su project sources ctx =
     (let selected = selected_for project ctx in
      if selected = [] then
        wbind (rethrow Guard_resolver (riskTierBindingCheck (ec_spec ctx) selected JNull (ec_resolver ctx) (ec_workflow ctx)))
          (\<lambda>unbound. if check_failed (Binding_check unbound) then Some (Inl (Guard_failed [Binding_check unbound]))
                     else wreturn None)
      else (case composeProjectPolicyIds sha project sources selected of
              Inl e \<Rightarrow> Some (Inl (Guard_unresolved e))
            | Inr policy \<Rightarrow>
                wbind (rethrow Guard_resolver (bound_checks su ctx selected policy)) (\<lambda>checks.
                  if filter check_failed checks \<noteq> [] then Some (Inl (Guard_failed checks))
                  else wreturn (Some \<lparr>gu_policy = policy, gu_providerName = pv_type (gv_provider (ec_spec ctx))\<rparr>))))"

text \<open>\<open>assertRiskTierEnforced\<close>, the same refusal for callers that compose their own policy.\<close>

definition assertRiskTierEnforced ::
    "governed_spec \<Rightarrow> string list \<Rightarrow> jv \<Rightarrow> closure_resolver option \<Rightarrow> string \<Rightarrow> (guard_refusal, unit) result option" where
  "assertRiskTierEnforced spec selected payload resolver parent =
     wbind (rethrow Guard_resolver (riskTierBindingCheck spec selected payload resolver parent))
       (\<lambda>failure. if failure = None then wreturn () else Some (Inl (Guard_failed [Binding_check failure])))"

end
