(* ===== verification/Project_Closure_Facts.thy ===== *)
theory Project_Closure_Facts
  imports Project_Closure
begin

text \<open>
  The walk over the closure of a workflow visits every member of the closure once, and ends if the closure is
  finite. The longest chain of references is one, if no workflow refers back to itself.
\<close>

section \<open>The closure\<close>

text \<open>The workflows a parent with the references \<open>seeds\<close> reaches, itself left out.\<close>

inductive in_closure :: "closure_resolver \<Rightarrow> string \<Rightarrow> string list \<Rightarrow> string \<Rightarrow> bool"
  for resolver parent seeds where
  direct: "ref \<in> set seeds \<Longrightarrow> ref \<noteq> parent \<Longrightarrow> in_closure resolver parent seeds ref"
| nested: "in_closure resolver parent seeds m \<Longrightarrow> resolver m = Resolved child \<Longrightarrow>
    ref \<in> set (references_of child) \<Longrightarrow> ref \<noteq> parent \<Longrightarrow> in_closure resolver parent seeds ref"

definition closure_of :: "governed_spec \<Rightarrow> closure_resolver \<Rightarrow> string \<Rightarrow> string set" where
  "closure_of spec resolver parent = {m. in_closure resolver parent (references_of spec) m}"

definition answer_of :: "closure_resolver \<Rightarrow> string \<Rightarrow> governed_spec option" where
  "answer_of resolver m = (case resolver m of Resolved child \<Rightarrow> Some child | _ \<Rightarrow> None)"

definition throws :: "closure_resolver \<Rightarrow> string \<Rightarrow> string \<Rightarrow> bool" where
  "throws resolver m e \<longleftrightarrow> resolver m = Resolver_throws e"

text \<open>What the walk has seen, and what it still has to see.\<close>

definition explored :: "closure_resolver \<Rightarrow> string \<Rightarrow> string list \<Rightarrow> string set \<Rightarrow> string set \<Rightarrow> bool" where
  "explored resolver parent seeds V F \<longleftrightarrow>
     (\<forall>m\<in>V. m \<noteq> parent \<longrightarrow> in_closure resolver parent seeds m \<and> (\<forall>e. \<not> throws resolver m e))
     \<and> (\<forall>m\<in>F. m \<noteq> parent \<longrightarrow> in_closure resolver parent seeds m)
     \<and> set seeds \<subseteq> V \<union> F
     \<and> (\<forall>m\<in>V. m \<noteq> parent \<longrightarrow> (\<forall>child. resolver m = Resolved child \<longrightarrow> set (references_of child) \<subseteq> V \<union> F))"

lemma explored_skip: "explored resolver parent seeds V (insert ref F) \<Longrightarrow> ref \<in> V \<Longrightarrow> explored resolver parent seeds V F"
  by (simp add: explored_def insert_absorb)

lemma explored_unresolved:
  "explored resolver parent seeds V (insert ref F) \<Longrightarrow> resolver ref = Unresolved \<Longrightarrow>
   explored resolver parent seeds (insert ref V) F"
  unfolding explored_def throws_def by auto

lemma explored_resolved:
  assumes "explored resolver parent seeds V (insert ref F)" and "resolver ref = Resolved child"
    and "ref \<noteq> parent"
  shows "explored resolver parent seeds (insert ref V) (F \<union> set (references_of child))"
proof -
  from assms(1,3) have "in_closure resolver parent seeds ref" by (simp add: explored_def)
  then have "in_closure resolver parent seeds m" if "m \<in> set (references_of child)" "m \<noteq> parent" for m
    using nested assms(2) that by blast
  moreover have "A \<subseteq> V \<union> insert ref F \<Longrightarrow> A \<subseteq> insert ref V \<union> (F \<union> set (references_of child))" for A
    by blast
  moreover have "set (references_of child) \<subseteq> insert ref V \<union> (F \<union> set (references_of child))" by blast
  ultimately show ?thesis
    using assms by (simp add: explored_def throws_def ball_Un)
qed

lemma explored_end:
  "in_closure resolver parent seeds m \<Longrightarrow> explored resolver parent seeds V {} \<Longrightarrow> m \<in> V"
proof (induction rule: in_closure.induct)
  case (nested m child ref)
  from nested.hyps(1) have "m \<noteq> parent" by cases
  with nested show ?case unfolding explored_def by blast
qed (auto simp: explored_def)

definition walk_state :: "closure_resolver \<Rightarrow> string \<Rightarrow> string list \<Rightarrow> string list \<Rightarrow> string list
    \<Rightarrow> closure_members \<Rightarrow> bool" where
  "walk_state resolver parent seeds visited frontier members \<longleftrightarrow>
     set visited = insert parent (fst ` set members) \<and> parent \<notin> fst ` set members \<and> distinct (map fst members)
     \<and> (\<forall>x\<in>set members. snd x = answer_of resolver (fst x))
     \<and> explored resolver parent seeds (insert parent (fst ` set members)) (set frontier)"

lemma walk_state_start: "walk_state resolver parent seeds [parent] seeds []"
  by (auto simp: walk_state_def explored_def intro: direct)

lemma walk_state_skip:
  "walk_state resolver parent seeds visited (ref # rest) members \<Longrightarrow> ref \<in> set visited \<Longrightarrow>
   walk_state resolver parent seeds visited rest members"
  using explored_skip [of resolver parent seeds "insert parent (fst ` set members)" ref "set rest"]
  by (simp add: walk_state_def)

lemma walk_state_unresolved:
  "walk_state resolver parent seeds visited (ref # rest) members \<Longrightarrow> ref \<notin> set visited \<Longrightarrow>
   resolver ref = Unresolved \<Longrightarrow> walk_state resolver parent seeds (ref # visited) rest (members @ [(ref, None)])"
  using explored_unresolved [of resolver parent seeds "insert parent (fst ` set members)" ref "set rest"]
  by (auto simp: walk_state_def answer_of_def insert_commute)

lemma walk_state_resolved:
  "walk_state resolver parent seeds visited (ref # rest) members \<Longrightarrow> ref \<notin> set visited \<Longrightarrow>
   resolver ref = Resolved child \<Longrightarrow>
   walk_state resolver parent seeds (ref # visited) (rest @ references_of child) (members @ [(ref, Some child)])"
  using explored_resolved [of resolver parent seeds "insert parent (fst ` set members)" ref "set rest" child]
  by (auto simp: walk_state_def answer_of_def insert_commute)

text \<open>What a finished walk returns.\<close>

definition walk_outcome :: "closure_resolver \<Rightarrow> string \<Rightarrow> string list \<Rightarrow> (string, closure_members) result \<Rightarrow> bool" where
  "walk_outcome resolver parent seeds r =
     (case r of
        Inl e \<Rightarrow> \<exists>m. in_closure resolver parent seeds m \<and> throws resolver m e
      | Inr members \<Rightarrow> distinct (map fst members)
          \<and> set members = {(m, answer_of resolver m) |m. in_closure resolver parent seeds m}
          \<and> (\<forall>m e. in_closure resolver parent seeds m \<longrightarrow> \<not> throws resolver m e))"

lemma walk_state_end:
  assumes "walk_state resolver parent seeds visited [] members"
  shows "walk_outcome resolver parent seeds (Inr members)"
proof -
  have e: "explored resolver parent seeds (insert parent (fst ` set members)) {}"
    and p: "parent \<notin> fst ` set members" using assms by (simp_all add: walk_state_def)
  have members: "m \<in> fst ` set members \<longleftrightarrow> in_closure resolver parent seeds m" for m
  proof
    assume "m \<in> fst ` set members"
    moreover from this p have "m \<noteq> parent" by blast
    ultimately show "in_closure resolver parent seeds m" using e unfolding explored_def by blast
  next
    assume c: "in_closure resolver parent seeds m"
    then have "m \<noteq> parent" by cases
    with explored_end [OF c e] show "m \<in> fst ` set members" by simp
  qed
  have "\<forall>x\<in>set members. x = (fst x, answer_of resolver (fst x))"
    using assms by (simp add: walk_state_def prod_eq_iff)
  then have "set members = (\<lambda>m. (m, answer_of resolver m)) ` fst ` set members"
    by (simp add: image_image)
  then have "set members = {(m, answer_of resolver m) |m. in_closure resolver parent seeds m}"
    using members by blast
  moreover have "\<not> throws resolver m e" if "in_closure resolver parent seeds m" for m e
  proof -
    from that members [of m] have m: "m \<in> insert parent (fst ` set members)" by simp
    from that have "m \<noteq> parent" by cases
    with e m show ?thesis unfolding explored_def by blast
  qed
  ultimately show ?thesis using assms by (simp add: walk_outcome_def walk_state_def)
qed

lemma walk_correct:
  assumes "walk resolver visited frontier members = Some r"
    and "walk_state resolver parent seeds visited frontier members"
  shows "walk_outcome resolver parent seeds r"
  using assms
proof (induction rule: walk.raw_induct [rotated 1, consumes 1, case_names step])
  case (step walk' resolver visited frontier members r)
  show ?case
  proof (cases frontier)
    case Nil
    with step.hyps walk_state_end step.prems show ?thesis by auto
  next
    case (Cons ref rest)
    note st = step.prems [unfolded Cons]
    show ?thesis
    proof (cases "ref \<in> set visited")
      case True
      with step walk_state_skip [OF st True] show ?thesis by (simp add: Cons)
    next
      case False
      then have "in_closure resolver parent seeds ref" using st by (simp add: walk_state_def explored_def)
      then show ?thesis
        using step.IH step.hyps False walk_state_unresolved [OF st False] walk_state_resolved [OF st False]
        by (cases "resolver ref") (auto simp: Cons walk_outcome_def throws_def)
    qed
  qed
qed

section \<open>The walk ends\<close>

lemma walk_ends:
  assumes "finite {m. in_closure resolver parent seeds m}"
    and "walk_state resolver parent seeds visited frontier members"
  shows "\<exists>r. walk resolver visited frontier members = Some r"
  using assms(2)
proof (induction "card ({m. in_closure resolver parent seeds m} - set visited)"
    arbitrary: visited frontier members rule: less_induct)
  case less
  let ?C = "{m. in_closure resolver parent seeds m}"
  have smaller: "card (?C - set (ref # visited)) < card (?C - set visited)"
    if "ref \<notin> set visited" "walk_state resolver parent seeds visited (ref # rest) members" for ref rest
  proof -
    have "ref \<in> ?C" using that by (auto simp: walk_state_def explored_def)
    with that(1) have "?C - set (ref # visited) \<subset> ?C - set visited" by auto
    with assms(1) show ?thesis by (intro psubset_card_mono) simp_all
  qed
  from less.prems show ?case
  proof (induction frontier)
    case Nil
    then show ?case by (simp add: walk.simps)
  next
    case (Cons ref rest)
    note st = Cons.prems
    show ?case
    proof (cases "ref \<in> set visited")
      case True
      with Cons.IH walk_state_skip [OF st] show ?thesis by (simp add: walk.simps [of resolver visited "ref # rest"])
    next
      case False
      with less.hyps [OF smaller [OF False st]] walk_state_unresolved [OF st False] walk_state_resolved [OF st False]
      show ?thesis
        by (cases "resolver ref") (simp_all add: walk.simps [of resolver visited "ref # rest"])
    qed
  qed
qed

lemma closure_walked:
  assumes "finite (closure_of spec resolver parent)"
  shows "\<exists>r. walkSubworkflowClosure spec resolver parent = Some r \<and> walk_outcome resolver parent (references_of spec) r"
proof -
  from assms have "finite {m. in_closure resolver parent (references_of spec) m}" by (simp add: closure_of_def)
  from walk_ends [OF this walk_state_start] obtain r where
    r: "walk resolver [parent] (references_of spec) [] = Some r" by blast
  with walk_correct [OF r walk_state_start] show ?thesis by (auto simp: walkSubworkflowClosure_def)
qed

lemma closure_members:
  assumes "walkSubworkflowClosure spec resolver parent = Some (Inr members)"
  shows "distinct (map fst members)" "set members = {(m, answer_of resolver m) |m. m \<in> closure_of spec resolver parent}"
    "m \<in> closure_of spec resolver parent \<Longrightarrow> \<not> throws resolver m e"
  using walk_correct [OF assms [unfolded walkSubworkflowClosure_def] walk_state_start]
  by (auto simp: walk_outcome_def closure_of_def)

lemma closure_keys:
  assumes "walkSubworkflowClosure spec resolver parent = Some (Inr members)"
  shows "fst ` set members = closure_of spec resolver parent"
  using closure_members(2) [OF assms] by force

lemma closure_not_parent: "m \<in> closure_of spec resolver parent \<Longrightarrow> m \<noteq> parent"
  by (auto simp: closure_of_def elim: in_closure.cases)

section \<open>Forgiving resolvers\<close>

lemma tolerant_resolved [simp]: "tolerant resolver m = Resolved c \<longleftrightarrow> resolver m = Resolved c"
  by (simp add: tolerant_def split: resolution.splits)

lemma tolerant_throws [simp]: "\<not> throws (tolerant resolver) m e"
  by (simp add: tolerant_def throws_def split: resolution.splits)

lemma tolerant_answer [simp]: "answer_of (tolerant resolver) m = answer_of resolver m"
  by (simp add: tolerant_def answer_of_def split: resolution.splits)

lemma in_closure_tolerant: "in_closure (tolerant resolver) parent seeds m \<longleftrightarrow> in_closure resolver parent seeds m"
proof
  show "in_closure (tolerant resolver) parent seeds m \<Longrightarrow> in_closure resolver parent seeds m"
    by (induction rule: in_closure.induct) (auto intro: in_closure.intros)
  show "in_closure resolver parent seeds m \<Longrightarrow> in_closure (tolerant resolver) parent seeds m"
    by (induction rule: in_closure.induct) (auto intro: in_closure.intros)
qed

lemma closure_of_tolerant [simp]: "closure_of spec (tolerant resolver) parent = closure_of spec resolver parent"
  by (simp add: closure_of_def in_closure_tolerant)

lemma tolerant_walked:
  assumes "walkSubworkflowClosure spec (tolerant resolver) parent = Some r"
  shows "\<exists>members. r = Inr members"
  using walk_correct [OF assms [unfolded walkSubworkflowClosure_def] walk_state_start]
  by (cases r) (auto simp: walk_outcome_def)

text \<open>While nothing throws, forgiving changes nothing.\<close>

lemma walk_tolerant:
  assumes "walk resolver visited frontier members = Some r"
  shows "\<forall>ms. r = Inr ms \<longrightarrow> walk (tolerant resolver) visited frontier members = Some (Inr ms)"
  using assms
proof (induction rule: walk.raw_induct [rotated 1, consumes 1, case_names step])
  case (step walk' resolver visited frontier members r)
  show ?case
  proof (cases frontier)
    case (Cons ref rest)
    note unfold = walk.simps [of "tolerant resolver" visited "ref # rest"]
    show ?thesis
    proof (cases "resolver ref")
      case (Resolved c)
      then have t: "tolerant resolver ref = Resolved c" by simp
      from step Resolved show ?thesis by (auto simp: Cons unfold t split: if_splits)
    next
      case Unresolved
      then have t: "tolerant resolver ref = Unresolved" by (simp add: tolerant_def)
      from step Unresolved show ?thesis by (auto simp: Cons unfold t split: if_splits)
    next
      case (Resolver_throws e)
      with step show ?thesis by (auto simp: Cons unfold split: if_splits)
    qed
  qed (use step in \<open>simp add: walk.simps\<close>)
qed

lemma walkSubworkflowClosure_tolerant:
  "walkSubworkflowClosure spec resolver parent = Some (Inr members) \<Longrightarrow>
   walkSubworkflowClosure spec (tolerant resolver) parent = Some (Inr members)"
  using walk_tolerant by (fastforce simp: walkSubworkflowClosure_def)

section \<open>The longest chain\<close>

definition refers :: "reference_map \<Rightarrow> (string \<times> string) set" where
  "refers references = {(a, b). b \<in> set (map_get references a)}"

definition chain_from :: "reference_map \<Rightarrow> string \<Rightarrow> string list \<Rightarrow> bool" where
  "chain_from references node c \<longleftrightarrow> c \<noteq> [] \<and> hd c = node \<and> successively (\<lambda>a b. (a, b) \<in> refers references) c"

definition longest_chain :: "reference_map \<Rightarrow> string \<Rightarrow> string list \<Rightarrow> bool" where
  "longest_chain references node c \<longleftrightarrow>
     chain_from references node c \<and> (\<forall>d. chain_from references node d \<longrightarrow> length d \<le> length c)"

lemma chain_from_Cons:
  "chain_from references node d \<longleftrightarrow>
     d = [node] \<or> (\<exists>child rest. d = node # rest \<and> (node, child) \<in> refers references \<and> chain_from references child rest)"
  by (cases d rule: list.exhaust [case_product list.exhaust]) (auto simp: chain_from_def successively_Cons neq_Nil_conv)

definition cache_longest :: "reference_map \<Rightarrow> chain_cache \<Rightarrow> bool" where
  "cache_longest references cache \<longleftrightarrow> (\<forall>k c. map_of cache k = Some c \<longrightarrow> longest_chain references k c)"

lemma map_of_map_set [simp]: "map_of (map_set k v m) = (map_of m)(k \<mapsto> v)"
  by (induction k v m rule: map_set.induct) auto

text \<open>\<open>best\<close> is a longest chain below the first \<open>n\<close> children.\<close>

definition best_below :: "reference_map \<Rightarrow> string \<Rightarrow> nat \<Rightarrow> string list \<Rightarrow> bool" where
  "best_below references node n best \<longleftrightarrow>
     (best = [] \<or> (\<exists>child. (node, child) \<in> refers references \<and> chain_from references child best))
     \<and> (\<forall>i<n. i < length (map_get references node) \<longrightarrow>
          (\<forall>d. chain_from references (map_get references node ! i) d \<longrightarrow> length d \<le> length best))"

lemma best_below_all:
  assumes "best_below references node n best" and "length (map_get references node) \<le> n"
  shows "longest_chain references node (node # best)"
proof -
  have bound: "length d \<le> length best" if "(node, child) \<in> refers references" "chain_from references child d" for child d
  proof -
    from that(1) obtain i where i: "i < length (map_get references node)" "map_get references node ! i = child"
      by (auto simp: refers_def in_set_conv_nth)
    with assms(2) have "i < n" by simp
    with i that(2) assms(1) show ?thesis unfolding best_below_def by blast
  qed
  have "chain_from references node (node # best)"
    using assms(1) by (subst chain_from_Cons) (auto simp: best_below_def)
  moreover have "length d \<le> length (node # best)" if "chain_from references node d" for d
    using that bound by (subst (asm) chain_from_Cons) auto
  ultimately show ?thesis by (simp add: longest_chain_def)
qed


lemma best_below_step:
  assumes "best_below references node n best" and "n < length (map_get references node)"
    and "longest_chain references (map_get references node ! n) sub"
  shows "best_below references node (Suc n) (if length sub > length best then sub else best)"
proof -
  have "(node, map_get references node ! n) \<in> refers references" using assms(2) by (simp add: refers_def)
  moreover define top where "top = (if length sub > length best then sub else best)"
  moreover have "length best \<le> length top" "length sub \<le> length top" by (simp_all add: top_def)
  moreover have "top = sub \<or> top = best" by (simp add: top_def)
  ultimately have "best_below references node (Suc n) top"
    using assms(1,3) unfolding best_below_def longest_chain_def less_Suc_eq by (metis order_trans)
  then show ?thesis by (simp only: top_def)
qed

lemma cache_longest_set:
  "cache_longest references cache \<Longrightarrow> longest_chain references node c \<Longrightarrow> cache_longest references (map_set node c cache)"
  by (simp add: cache_longest_def)

text \<open>Every node on the stack leads to the current one, so in an acyclic map no child is on the stack.\<close>

definition stack_leads :: "reference_map \<Rightarrow> string list \<Rightarrow> string \<Rightarrow> bool" where
  "stack_leads references visiting node \<longleftrightarrow> (\<forall>v\<in>set visiting. (v, node) \<in> (refers references)\<^sup>+)"

lemma stack_step:
  assumes "stack_leads references visiting node" and "(node, child) \<in> refers references" and "acyclic (refers references)"
  shows "child \<notin> set visiting" "stack_leads references (node # visiting) child"
proof -
  show "child \<notin> set visiting"
  proof
    assume "child \<in> set visiting"
    with assms(1) have "(child, node) \<in> (refers references)\<^sup>+" by (simp add: stack_leads_def)
    with assms(2,3) show False by (auto simp: acyclic_def dest: trancl_into_trancl)
  qed
  from assms(1,2) show "stack_leads references (node # visiting) child"
    by (auto simp: stack_leads_def intro: trancl_into_trancl)
qed

lemma deepest_longest:
  "acyclic (refers references) \<Longrightarrow> stack_leads references visiting node \<Longrightarrow> cache_longest references cache \<Longrightarrow>
     deepest references node visiting cache = (c, cache') \<Longrightarrow>
     longest_chain references node c \<and> cache_longest references cache'"
  "acyclic (refers references) \<Longrightarrow> stack_leads references visiting node \<Longrightarrow> cache_longest references cache \<Longrightarrow>
     best_below references node n best \<Longrightarrow> deepest_child references node visiting n best cache = (c, cache') \<Longrightarrow>
     longest_chain references node (node # c) \<and> cache_longest references cache'"
proof (induction references node visiting cache and references node visiting n best cache
    arbitrary: c cache' and c cache' rule: deepest_deepest_child.induct)
  case (1 references node visiting cache)
  show ?case
  proof (cases "map_of cache node")
    case None
    obtain best cache1 where b: "deepest_child references node visiting 0 [] cache = (best, cache1)" by fastforce
    have "best_below references node 0 []" by (simp add: best_below_def)
    from 1(1) [OF None 1(2-4) this b] have "longest_chain references node (node # best) \<and> cache_longest references cache1" .
    with 1(5) None b show ?thesis by (auto simp: cache_longest_set)
  qed (use 1 in \<open>auto simp: cache_longest_def\<close>)
next
  case (2 references node visiting n best cache)
  let ?child = "map_get references node ! n"
  show ?case
  proof (cases "n < length (map_get references node)")
    case True
    then have e: "(node, ?child) \<in> refers references" by (simp add: refers_def)
    note st = stack_step [OF 2(5) e 2(4)]
    obtain sub cache1 where s: "deepest references ?child (node # visiting) cache = (sub, cache1)" by fastforce
    from 2(2) [OF True refl st(1) 2(4) st(2) 2(6) s] have l: "longest_chain references ?child sub"
      and c1: "cache_longest references cache1" by simp_all
    from 2(8) True st(1) s have rest: "deepest_child references node visiting (Suc n)
        (if length sub > length best then sub else best) cache1 = (c, cache')" by (simp add: Let_def)
    show ?thesis
      by (rule 2(3) [OF True refl st(1) s [symmetric] refl 2(4,5) c1 best_below_step [OF 2(7) True l] rest])
  next
    case False
    with 2(8) have "c = best" "cache' = cache" by simp_all
    with False 2(6,7) best_below_all [of references node n best] show ?thesis by simp
  qed
qed

lemma deepest_chain_longest:
  assumes "acyclic (refers references)"
  shows "longest_chain references start (deepestReferenceChain start references)"
proof -
  obtain c cache' where d: "deepest references start [] [] = (c, cache')" by fastforce
  have "stack_leads references [] start" "cache_longest references []"
    by (simp_all add: stack_leads_def cache_longest_def)
  with deepest_longest(1) [OF assms _ _ d] show ?thesis
    by (simp add: deepestReferenceChain_def d del: deepest.simps)
qed

end
