(* ===== verification/Project_Resolve_Facts.thy ===== *)
theory Project_Resolve_Facts
  imports Project_Resolve
begin

text \<open>
  What the walk along \<open>extends\<close> returns: the reachable policies, each once and after the policies it
  extends; and when it returns: exactly if every reachable policy is there and none extends itself.
\<close>

section \<open>Policies and the order of their layers\<close>

definition admissible :: "project_spec \<Rightarrow> policy_sources \<Rightarrow> string \<Rightarrow> bool" where
  "admissible project sources i \<longleftrightarrow>
     assertPolicyId i = Inr () \<and> (\<exists>spec. declared_policy project sources i = Inr spec)"

definition extends_edges :: "project_spec \<Rightarrow> policy_sources \<Rightarrow> (string \<times> string) set" where
  "extends_edges project sources =
     {(i, p). \<exists>spec. declared_policy project sources i = Inr spec \<and> p \<in> set (pd_extends spec)}"

text \<open>Each policy stands once, is the one its id names, and comes after everything it extends.\<close>

definition layer_placed :: "project_spec \<Rightarrow> policy_sources \<Rightarrow> applied_policy list \<Rightarrow> applied_policy \<Rightarrow> bool" where
  "layer_placed project sources low a \<longleftrightarrow>
     ap_id a \<notin> ap_id ` set low \<and> assertPolicyId (ap_id a) = Inr ()
     \<and> (\<exists>spec. declared_policy project sources (ap_id a) = Inr spec \<and> a = applied_as (ap_id a) spec
          \<and> set (pd_extends spec) \<subseteq> ap_id ` set low)"

definition layered :: "project_spec \<Rightarrow> policy_sources \<Rightarrow> applied_policy list \<Rightarrow> bool" where
  "layered project sources applied \<longleftrightarrow>
     (\<forall>low a up. applied = low @ a # up \<longrightarrow> layer_placed project sources low a)"

lemma layered_Nil [simp]: "layered project sources []"
  by (simp add: layered_def)

lemma layered_snoc:
  "layered project sources (applied @ [a]) \<longleftrightarrow>
     layered project sources applied \<and> layer_placed project sources applied a"
proof -
  have split: "applied @ [a] = low @ b # up \<longleftrightarrow>
      up = [] \<and> low = applied \<and> b = a \<or> (\<exists>rest. up = rest @ [a] \<and> applied = low @ b # rest)" for low b up
    by (cases up rule: rev_cases) auto
  show ?thesis unfolding layered_def split by blast
qed

lemma layered_distinct: "layered project sources applied \<Longrightarrow> distinct (map ap_id applied)"
  by (induction applied rule: rev_induct) (auto simp: layered_snoc layer_placed_def)

lemma layered_split: "layered project sources applied \<Longrightarrow> applied = low @ a # up \<Longrightarrow> layer_placed project sources low a"
  by (auto simp: layered_def)

lemma layered_member:
  assumes "layered project sources applied" and "a \<in> set applied"
  shows "\<exists>low. layer_placed project sources low a \<and> set low \<subseteq> set applied"
proof -
  from split_list [OF assms(2)] obtain low up where s: "applied = low @ a # up" by blast
  with layered_split [OF assms(1) this] show ?thesis by (intro exI [of _ low]) auto
qed

lemma layered_closed:
  assumes "layered project sources applied" and "(i, p) \<in> (extends_edges project sources)\<^sup>*"
    and "i \<in> ap_id ` set applied"
  shows "p \<in> ap_id ` set applied"
  using assms(2,3)
proof (induction rule: rtrancl_induct)
  case (step j p)
  then obtain a where "a \<in> set applied" "ap_id a = j" by auto
  with layered_member [OF assms(1)] step.hyps(2) show ?case
    by (fastforce simp: layer_placed_def extends_edges_def)
qed

text \<open>Along an edge the position in the list decreases, so no policy of a layered list extends itself.\<close>

lemma layered_acyclic:
  assumes "layered project sources applied" and "i \<in> ap_id ` set applied"
  shows "(i, i) \<notin> (extends_edges project sources)\<^sup>+"
proof -
  let ?E = "extends_edges project sources"
  have "(i, p) \<in> ?E\<^sup>+ \<Longrightarrow> \<exists>low a up. applied = low @ a # up \<and> ap_id a = i \<and> p \<in> ap_id ` set low" for p
  proof (induction rule: trancl_induct)
    case (base p)
    from assms(2) obtain low a up where s: "applied = low @ a # up" "ap_id a = i"
      by (auto dest!: split_list)
    with assms(1) base show ?case unfolding layered_def layer_placed_def extends_edges_def by fastforce
  next
    case (step j p)
    then obtain low a up where s: "applied = low @ a # up" "ap_id a = i" "j \<in> ap_id ` set low" by blast
    have "layered project sources low"
      using assms(1) by (auto simp: layered_def s(1))
    from layered_closed [OF this r_into_rtrancl [OF step.hyps(2)] s(3)] s show ?case by blast
  qed
  moreover have "layer_placed project sources low a" if "applied = low @ a # up" for low a up
    using assms(1) that by (auto simp: layered_def)
  ultimately show ?thesis unfolding layer_placed_def by metis
qed

lemma layered_admissible: "layered project sources applied \<Longrightarrow> i \<in> ap_id ` set applied \<Longrightarrow> admissible project sources i"
  by (auto simp: admissible_def layer_placed_def dest!: layered_member)

section \<open>What the walk returns\<close>

definition extended_to :: "project_spec \<Rightarrow> policy_sources \<Rightarrow> string set \<Rightarrow> applied_policy list \<Rightarrow> applied_policy list \<Rightarrow> bool" where
  "extended_to project sources ids applied out \<longleftrightarrow>
     layered project sources out \<and> ap_id ` set applied \<union> ids \<subseteq> ap_id ` set out
     \<and> ap_id ` set out \<subseteq> ap_id ` set applied \<union> (extends_edges project sources)\<^sup>* `` ids"

lemma bounds_trans:
  "A \<union> I \<subseteq> M \<Longrightarrow> M \<subseteq> A \<union> RI \<Longrightarrow> M \<union> J \<subseteq> X \<Longrightarrow> X \<subseteq> M \<union> RJ \<Longrightarrow> A \<union> (I \<union> J) \<subseteq> X \<and> X \<subseteq> A \<union> (RI \<union> RJ)"
  by blast

lemma bounds_insert:
  "A \<union> I \<subseteq> X \<Longrightarrow> X \<subseteq> A \<union> RI \<Longrightarrow> RI \<subseteq> R \<Longrightarrow> i \<in> R \<Longrightarrow> A \<union> {i} \<subseteq> insert i X \<and> insert i X \<subseteq> A \<union> R"
  by blast

lemma extended_add:
  assumes "extended_to project sources (set (pd_extends spec)) applied out"
    and "declared_policy project sources i = Inr spec" and "assertPolicyId i = Inr ()"
  shows "extended_to project sources {i} applied (add_applied i spec out)"
proof -
  let ?E = "extends_edges project sources"
  have "?E\<^sup>* `` set (pd_extends spec) \<subseteq> ?E\<^sup>* `` {i}"
    using assms(2) by (auto simp: extends_edges_def intro: converse_rtrancl_into_rtrancl)
  moreover have "layered project sources (add_applied i spec out)"
    using assms by (auto simp: extended_to_def add_applied_def layered_snoc layer_placed_def applied_as_def)
  moreover have "ap_id ` set (add_applied i spec out) = insert i (ap_id ` set out)"
    by (auto simp: add_applied_def applied_as_def)
  moreover have "i \<in> ?E\<^sup>* `` {i}" by simp
  ultimately show ?thesis
    using assms(1) bounds_insert [of "ap_id ` set applied" "set (pd_extends spec)" "ap_id ` set out"
      "?E\<^sup>* `` set (pd_extends spec)" "?E\<^sup>* `` {i}" i]
    unfolding extended_to_def by simp
qed

lemma extended_trans:
  "extended_to project sources I applied mid \<Longrightarrow> extended_to project sources J mid out \<Longrightarrow>
   extended_to project sources (I \<union> J) applied out"
  using bounds_trans [of "ap_id ` set applied" I "ap_id ` set mid" "(extends_edges project sources)\<^sup>* `` I" J
    "ap_id ` set out" "(extends_edges project sources)\<^sup>* `` J"]
  unfolding extended_to_def Image_Un by simp

lemma visit_returns:
  "visit project sources i visiting applied = Inr out \<Longrightarrow> layered project sources applied \<Longrightarrow>
     extended_to project sources {i} applied out"
  "visit_all project sources ids visiting applied = Inr out \<Longrightarrow> layered project sources applied \<Longrightarrow>
     extended_to project sources (set ids) applied out"
proof (induction project sources i visiting applied and project sources ids visiting applied
    arbitrary: out and out rule: visit_visit_all.induct)
  case (1 project sources i visiting applied)
  show ?case
  proof (cases "i \<in> ap_id ` set applied")
    case True
    with 1(2,3) show ?thesis
      by (auto simp: extended_to_def split: sum.splits)
  next
    case False
    with 1(2) obtain spec out0 where src: "declared_policy project sources i = Inr spec" "assertPolicyId i = Inr ()"
      and v: "i \<notin> set visiting" "visit_all project sources (pd_extends spec) (visiting @ [i]) applied = Inr out0"
        "out = add_applied i spec out0"
      by (auto simp: result_simps split: sum.splits if_splits)
    with 1(1) [OF src(2) False v(1) src(1) v(2) 1(3)] show ?thesis by (simp add: extended_add)
  qed
next
  case (2 project sources visiting applied)
  then show ?case by (auto simp: extended_to_def)
next
  case (3 project sources i ids visiting applied)
  then obtain mid where m: "visit project sources i visiting applied = Inr mid"
    "visit_all project sources ids visiting mid = Inr out" by (auto simp: result_simps)
  from 3(1) [OF m(1) 3(4)] have a: "extended_to project sources {i} applied mid" .
  then have "layered project sources mid" by (simp add: extended_to_def)
  from extended_trans [OF a 3(2) [OF m(2) this]] show ?case by simp
qed

section \<open>When the walk returns\<close>

definition resolvable :: "project_spec \<Rightarrow> policy_sources \<Rightarrow> string set \<Rightarrow> bool" where
  "resolvable project sources ids \<longleftrightarrow>
     (\<forall>x\<in>(extends_edges project sources)\<^sup>* `` ids. admissible project sources x
        \<and> (x, x) \<notin> (extends_edges project sources)\<^sup>+)"

lemma resolvable_step:
  "resolvable project sources {i} \<Longrightarrow> declared_policy project sources i = Inr spec \<Longrightarrow>
   resolvable project sources (set (pd_extends spec))"
  by (auto simp: resolvable_def extends_edges_def intro: converse_rtrancl_into_rtrancl)

lemma resolvable_member: "resolvable project sources ids \<Longrightarrow> i \<in> ids \<Longrightarrow> resolvable project sources {i}"
  by (auto simp: resolvable_def)

lemma visit_succeeds:
  "resolvable project sources {i} \<Longrightarrow> \<forall>v\<in>set visiting. (v, i) \<in> (extends_edges project sources)\<^sup>+ \<Longrightarrow>
     \<exists>out. visit project sources i visiting applied = Inr out"
  "resolvable project sources (set ids) \<Longrightarrow>
     \<forall>v\<in>set visiting. \<forall>i\<in>set ids. (v, i) \<in> (extends_edges project sources)\<^sup>+ \<Longrightarrow>
     \<exists>out. visit_all project sources ids visiting applied = Inr out"
proof (induction project sources i visiting applied and project sources ids visiting applied
    rule: visit_visit_all.induct)
  case (1 project sources i visiting applied)
  let ?E = "extends_edges project sources"
  from 1(2) have "admissible project sources i" "(i, i) \<notin> ?E\<^sup>+" by (auto simp: resolvable_def)
  then obtain spec where src: "assertPolicyId i = Inr ()" "declared_policy project sources i = Inr spec"
    by (auto simp: admissible_def)
  from \<open>(i, i) \<notin> ?E\<^sup>+\<close> 1(3) have fresh: "i \<notin> set visiting" by auto
  show ?case
  proof (cases "i \<in> ap_id ` set applied")
    case False
    have "(i, p) \<in> ?E" if "p \<in> set (pd_extends spec)" for p using that src(2) by (auto simp: extends_edges_def)
    with 1(3) have "\<forall>v\<in>set (visiting @ [i]). \<forall>p\<in>set (pd_extends spec). (v, p) \<in> ?E\<^sup>+"
      by (auto intro: trancl_into_trancl)
    from 1(1) [OF src(1) False fresh src(2) resolvable_step [OF 1(2) src(2)] this] False fresh src
    show ?thesis by (auto simp: result_simps)
  qed (use src in auto)
next
  case (3 project sources i ids visiting applied)
  have "resolvable project sources {i}" "resolvable project sources (set ids)"
    using 3(3) by (auto simp: resolvable_def)
  with 3 show ?case by (fastforce simp: result_simps)
qed simp

lemma resolve_iff_resolvable:
  "(\<exists>applied. resolveProjectPolicyClosure project sources ids = Inr applied) \<longleftrightarrow> resolvable project sources (set ids)"
proof
  assume "\<exists>applied. resolveProjectPolicyClosure project sources ids = Inr applied"
  then obtain applied where "extended_to project sources (set ids) [] applied"
    using visit_returns(2) by (fastforce simp: resolveProjectPolicyClosure_def)
  then have l: "layered project sources applied" "set ids \<subseteq> ap_id ` set applied" by (auto simp: extended_to_def)
  have "x \<in> ap_id ` set applied" if "x \<in> (extends_edges project sources)\<^sup>* `` set ids" for x
    using that l(2) layered_closed [OF l(1)] by auto
  with l(1) show "resolvable project sources (set ids)"
    unfolding resolvable_def using layered_admissible layered_acyclic by blast
qed (use visit_succeeds(2) in \<open>force simp: resolveProjectPolicyClosure_def\<close>)

lemma resolved_closure:
  assumes "resolveProjectPolicyClosure project sources ids = Inr applied"
  shows "layered project sources applied" "ap_id ` set applied = (extends_edges project sources)\<^sup>* `` set ids"
proof -
  from assms visit_returns(2) have e: "extended_to project sources (set ids) [] applied"
    by (fastforce simp: resolveProjectPolicyClosure_def)
  then show "layered project sources applied" by (simp add: extended_to_def)
  with e show "ap_id ` set applied = (extends_edges project sources)\<^sup>* `` set ids"
    unfolding extended_to_def by (auto dest: layered_closed)
qed

lemma composition_result_Inr [result_simps]: "composition_result r = Inr c \<longleftrightarrow> r = Inr c"
  by (simp add: composition_result_def split: sum.splits)

lemma composed_selection:
  assumes "composeProjectPolicyIds sha project sources ids = Inr c"
  obtains applied where "resolveProjectPolicyClosure project sources ids = Inr applied"
    "composeProjectPolicies sha applied ids = Inr c"
  using assms by (auto simp: composeProjectPolicyIds_def result_simps split: if_splits)

end
