(* ===== verification/Project_Facts.thy ===== *)
theory Project_Facts
  imports Project_Guard Project_Closure_Facts Project_Resolve_Facts Policy_Claims
begin

text \<open>
  What the tally over a closure holds, when the closure check passes, and what a guard that was built and a
  report without failures have in common.
\<close>

section \<open>Sequencing\<close>

lemma wbind_eq_Inr [result_simps]: "wbind m f = Some (Inr y) \<longleftrightarrow> (\<exists>x. m = Some (Inr x) \<and> f x = Some (Inr y))"
  by (auto simp: wbind_def split: option.splits sum.splits)

lemma wreturn_eq [result_simps]: "wreturn x = Some (Inr y) \<longleftrightarrow> x = y"
  by (simp add: wreturn_def)

lemma rethrow_eq_Inr [result_simps]: "rethrow f m = Some (Inr y) \<longleftrightarrow> m = Some (Inr y)"
  by (auto simp: rethrow_def split: option.splits sum.splits)

lemma wbind_wreturn [simp]: "wbind (wreturn x) f = f x"
  by (simp add: wbind_def wreturn_def)

section \<open>The tally\<close>

lemma map_set_fresh: "k \<notin> fst ` set m \<Longrightarrow> map_set k v m = m @ [(k, v)]"
  by (induction k v m rule: map_set.induct) auto

lemma set_tier_fresh:
  "k \<notin> fst ` set tiers \<Longrightarrow> set_tier k risk tiers = tiers @ set_tier k risk []"
  by (simp add: set_tier_def map_set_fresh split: option.splits)

lemma fst_set_tier: "fst ` set (set_tier k risk []) \<subseteq> {k}"
  by (cases risk) (auto simp: set_tier_def)

definition member_failures :: "surroundings \<Rightarrow> composed_policy \<Rightarrow> string \<times> governed_spec option \<Rightarrow> closure_failure list" where
  "member_failures su policy member =
     (case snd member of None \<Rightarrow> []
      | Some child \<Rightarrow> concat (map (member_failure (fst member)) (validatePolicyCompliance su child policy)))"

definition member_references :: "string \<times> governed_spec option \<Rightarrow> string \<times> string list" where
  "member_references member = (fst member, case snd member of None \<Rightarrow> [] | Some child \<Rightarrow> references_of child)"

definition member_steps :: "string \<times> governed_spec option \<Rightarrow> (string \<times> nat) list" where
  "member_steps member = (case snd member of None \<Rightarrow> [] | Some child \<Rightarrow> [(fst member, step_count child)])"

definition member_tiers :: "jv \<Rightarrow> string \<times> governed_spec option \<Rightarrow> (string \<times> string) list" where
  "member_tiers payload member =
     (case snd member of None \<Rightarrow> [] | Some child \<Rightarrow> set_tier (fst member) (evaluateRiskTier child payload None) [])"

lemma member_simps:
  "member_failures su policy (ref, None) = []" "member_references (ref, None) = (ref, [])"
  "member_steps (ref, None) = []" "member_tiers payload (ref, None) = []"
  "member_failures su policy (ref, Some child) = concat (map (member_failure ref) (validatePolicyCompliance su child policy))"
  "member_references (ref, Some child) = (ref, references_of child)"
  "member_steps (ref, Some child) = [(ref, step_count child)]"
  "member_tiers payload (ref, Some child) = set_tier ref (evaluateRiskTier child payload None) []"
  by (simp_all add: member_failures_def member_references_def member_steps_def member_tiers_def)

definition tally_of :: "surroundings \<Rightarrow> governed_spec \<Rightarrow> composed_policy \<Rightarrow> string \<Rightarrow> closure_members \<Rightarrow> closure_tally" where
  "tally_of su spec policy parent members =
     foldl (tally_member su policy) (start_tally spec (JObj (cp_payload policy)) parent) members"

lemma tier_keys: "fst ` set (concat (map (member_tiers payload) members)) \<subseteq> fst ` set members"
proof (induction members)
  case (Cons m members)
  have "fst ` set (member_tiers payload m) \<subseteq> {fst m}"
    using fst_set_tier by (cases "snd m") (simp_all add: member_tiers_def)
  with Cons show ?case by (simp add: image_Un) blast
qed simp

lemma tiers_fresh:
  "ref \<noteq> parent \<Longrightarrow> ref \<notin> fst ` set members \<Longrightarrow>
   ref \<notin> fst ` set (set_tier parent own [] @ concat (map (member_tiers payload) members))"
  using tier_keys [of payload members] fst_set_tier [of parent own]
  unfolding set_append image_Un by (meson UnE singletonD subsetD)

lemma step_keys: "fst ` set (concat (map member_steps members)) \<subseteq> fst ` set members"
  by (induction members) (auto simp: member_steps_def split: option.splits)

lemma reference_keys: "fst ` set (map member_references members) = fst ` set members"
  by (simp add: member_references_def image_image)

lemma tally_contents:
  assumes "distinct (map fst members)" and "parent \<notin> fst ` set members"
  shows "tally_of su spec policy parent members =
    \<lparr>ct_order = map fst (filter (\<lambda>m. snd m \<noteq> None) members),
     ct_unresolved = map fst (filter (\<lambda>m. snd m = None) members),
     ct_failures = concat (map (member_failures su policy) members),
     ct_references = (parent, references_of spec) # map member_references members,
     ct_step_counts = (parent, step_count spec) # concat (map member_steps members),
     ct_risk_tiers = set_tier parent (evaluateRiskTier spec (JObj (cp_payload policy)) None) []
       @ concat (map (member_tiers (JObj (cp_payload policy))) members)\<rparr>"
  using assms
proof (induction members rule: rev_induct)
  case Nil
  then show ?case by (simp add: tally_of_def start_tally_def)
next
  case (snoc m members)
  let ?own = "set_tier parent (evaluateRiskTier spec (JObj (cp_payload policy)) None) []"
  obtain ref child where m: "m = (ref, child)" by (cases m)
  from snoc.prems m have fresh: "ref \<notin> fst ` set members" "ref \<noteq> parent" by auto
  have keys: "ref \<notin> fst ` set ((parent, step_count spec) # concat (map member_steps members))"
    using fresh step_keys [of members] by auto
  have keys': "ref \<notin> fst ` set (?own @ concat (map (member_tiers (JObj (cp_payload policy))) members))"
    by (rule tiers_fresh) (use fresh in simp_all)
  have refs: "ref \<notin> fst ` set ((parent, references_of spec) # map member_references members)"
    using fresh reference_keys [of members] by (simp del: set_map)
  have step: "tally_of su spec policy parent (members @ [m]) = tally_member su policy (tally_of su spec policy parent members) m"
    by (simp add: tally_of_def)
  have old: "distinct (map fst members)" "parent \<notin> fst ` set members" using snoc.prems by auto
  note IH = snoc.IH [OF old]
  show ?case
    unfolding step IH
    by (cases child) (simp_all only: m tally_member_def prod.case option.case closure_tally.simps
        map_set_fresh [OF keys] map_set_fresh [OF refs] set_tier_fresh [OF keys'],
      simp_all add: member_simps)
qed

section \<open>A closure check that passes\<close>

lemma member_failure_none: "member_failure ref c = [] \<longleftrightarrow> \<not> is_failed (snd c)"
  by (cases "(ref, c)" rule: member_failure.cases) auto

lemma member_failures_none:
  "member_failures su policy (ref, Some child) = [] \<longleftrightarrow> (\<forall>code. \<not> fails_check su child policy code)"
  by (auto simp: member_simps member_failure_none fails_check_def)

lemma no_failures: "fail_if b f = [] \<longleftrightarrow> \<not> b"
  by (simp add: fail_if_def)

lemma closure_verdict_passed:
  assumes "fst (closure_verdict spec policy parent t) = []"
  shows "ct_failures t = []" "ct_unresolved t = []"
    "number_at (composition_section policy) ''max_total_steps'' = Some m \<Longrightarrow> \<not> exceeds (total_steps t) m"
    "number_at (composition_section policy) ''max_subworkflow_depth'' = Some m \<Longrightarrow>
       \<not> exceeds (length (deepestReferenceChain parent (ct_references t)) - 1) m"
    "\<lbrakk>evaluateRiskTier spec (JObj (cp_payload policy)) None = Some ev;
      riskTierCascade parent ev (ct_risk_tiers t) spec (JObj (cp_payload policy)) = Some c\<rbrakk> \<Longrightarrow>
       riskTierFailures (rc_evaluation c) False = []"
  using assms by (auto simp: closure_verdict_def Let_def no_failures)

text \<open>The tally of a closure, and what a guard or a report without failures knows of it.\<close>

lemma closure_checked:
  assumes "validateSubworkflowClosurePolicy su spec policy resolver parent = Some (Inr closure)"
    and "references_of spec \<noteq> []" and "case closure of None \<Rightarrow> True | Some c \<Rightarrow> fst c = []"
  obtains resolve members where "resolver = Some resolve"
    "walkSubworkflowClosure spec resolve parent = Some (Inr members)"
    "fst (closure_verdict spec policy parent (tally_of su spec policy parent members)) = []"
  using assms
  by (cases resolver) (auto simp: validateSubworkflowClosurePolicy_def tally_of_def result_simps)

lemma walked_fresh:
  assumes "walkSubworkflowClosure spec resolve parent = Some (Inr members)"
  shows "distinct (map fst members)" "parent \<notin> fst ` set members"
  using closure_members(1) [OF assms] closure_keys [OF assms] closure_not_parent [of parent spec resolve parent] by auto

lemma closure_compliant:
  assumes "walkSubworkflowClosure spec resolve parent = Some (Inr members)"
    and "fst (closure_verdict spec policy parent (tally_of su spec policy parent members)) = []"
    and "m \<in> closure_of spec resolve parent"
  shows "\<exists>child. resolve m = Resolved child \<and> (\<forall>code. \<not> fails_check su child policy code)"
proof -
  note fresh = walked_fresh [OF assms(1)] and passed = closure_verdict_passed(1,2) [OF assms(2)]
  have mem: "(m, answer_of resolve m) \<in> set members" using closure_members(2) [OF assms(1)] assms(3) by blast
  with passed(2) have "answer_of resolve m \<noteq> None"
    by (auto simp: tally_contents [OF fresh] filter_empty_conv)
  then obtain child where c: "resolve m = Resolved child" by (auto simp: answer_of_def split: resolution.splits)
  have "member_failures su policy (m, Some child) = []"
    using passed(1) mem c by (auto simp: tally_contents [OF fresh] answer_of_def)
  with c show ?thesis by (simp add: member_failures_none)
qed

section \<open>A guard that was built\<close>

lemma admitted_checks:
  "filter check_failed (map Admission_check (validatePolicyCompliance su spec policy)) = [] \<longleftrightarrow>
     (\<forall>code. \<not> fails_check su spec policy code)"
  by (auto simp: filter_empty_conv fails_check_def)

lemma guard_built:
  assumes "buildProjectPolicyRuntimeGuard sha su project sources ctx = Some (Inr (Some g))"
  obtains bound closure where
    "composeProjectPolicyIds sha project sources (selected_for project ctx) = Inr (gu_policy g)"
    "riskTierBindingCheck (ec_spec ctx) (selected_for project ctx) (JObj (cp_payload (gu_policy g)))
       (ec_resolver ctx) (ec_workflow ctx) = Some (Inr bound)" "bound = None"
    "validateSubworkflowClosurePolicy su (ec_spec ctx) (gu_policy g) (ec_resolver ctx) (ec_workflow ctx) = Some (Inr closure)"
    "case closure of None \<Rightarrow> True | Some c \<Rightarrow> fst c = []"
    "\<forall>code. \<not> fails_check su (ec_spec ctx) (gu_policy g) code" "selected_for project ctx \<noteq> []"
  using assms
  by (auto simp: buildProjectPolicyRuntimeGuard_def bound_checks_def Let_def result_simps admitted_checks
      split: if_splits sum.splits option.splits)

end
