(* ===== verification/Risk_Tiers.thy ===== *)
theory Risk_Tiers
  imports Project_Facts
begin

text \<open>
  The risk tiers as a linear order. \<open>tierRank\<close>, \<open>maxTier\<close> and the searches for the highest tier of a closure
  compute maxima in it, so the tier at which the cascade evaluates a workflow and the tier at which the
  binding of declared tiers evaluates it are the same.
\<close>

section \<open>The order\<close>

datatype risk_level = Safe | Policy_gated | Human_gated | Prohibited

fun level_rank :: "risk_level \<Rightarrow> nat" where
  "level_rank Safe = 0"
| "level_rank Policy_gated = 1"
| "level_rank Human_gated = 2"
| "level_rank Prohibited = 3"

lemma level_rank_inj [simp]: "level_rank a = level_rank b \<longleftrightarrow> a = b"
  by (cases a; cases b) simp_all

instantiation risk_level :: linorder
begin

definition less_eq_risk_level :: "risk_level \<Rightarrow> risk_level \<Rightarrow> bool" where
  "less_eq_risk_level a b \<longleftrightarrow> level_rank a \<le> level_rank b"

definition less_risk_level :: "risk_level \<Rightarrow> risk_level \<Rightarrow> bool" where
  "less_risk_level a b \<longleftrightarrow> level_rank a < level_rank b"

instance
  by standard (auto simp: less_eq_risk_level_def less_risk_level_def)

end

instantiation risk_level :: order_bot
begin

definition bot_risk_level :: risk_level where
  "bot_risk_level = Safe"

instance
  by standard (simp add: bot_risk_level_def less_eq_risk_level_def)

end

lemma Safe_least [simp]: "Safe \<le> l" "max Safe l = l" "max l Safe = l"
  using bot_least [of l] by (simp_all add: bot_risk_level_def max_absorb1 max_absorb2)

lemma le_Safe [simp]: "l \<le> Safe \<longleftrightarrow> l = Safe"
  by (cases l) (simp_all add: less_eq_risk_level_def)

section \<open>Tiers of the schema\<close>

definition known_tier :: "string \<Rightarrow> bool" where
  "known_tier t \<longleftrightarrow> t \<in> set RISK_TIER_ORDER"

definition level_of :: "string \<Rightarrow> risk_level" where
  "level_of t = (if t = ''safe'' then Safe else if t = ''policy_gated'' then Policy_gated
     else if t = ''human_gated'' then Human_gated else Prohibited)"

lemma known_cases:
  "known_tier t \<Longrightarrow> (t = ''safe'' \<Longrightarrow> P) \<Longrightarrow> (t = ''policy_gated'' \<Longrightarrow> P) \<Longrightarrow> (t = ''human_gated'' \<Longrightarrow> P) \<Longrightarrow>
   (t = ''prohibited'' \<Longrightarrow> P) \<Longrightarrow> P"
  by (auto simp: known_tier_def RISK_TIER_ORDER_def)

lemma known_safe [simp]: "known_tier ''safe''" "level_of ''safe'' = Safe"
  by (simp_all add: known_tier_def RISK_TIER_ORDER_def level_of_def)

lemma tierRank_level: "known_tier t \<Longrightarrow> tierRank t = level_rank (level_of t)"
  by (erule known_cases) (simp_all add: tierRank_def RISK_TIER_ORDER_def level_of_def)

lemma tierRank_less: "known_tier a \<Longrightarrow> known_tier b \<Longrightarrow> tierRank a < tierRank b \<longleftrightarrow> level_of a < level_of b"
  by (simp add: tierRank_level less_risk_level_def)

lemma tierRank_le: "known_tier a \<Longrightarrow> known_tier b \<Longrightarrow> tierRank a \<le> tierRank b \<longleftrightarrow> level_of a \<le> level_of b"
  by (simp add: tierRank_level less_eq_risk_level_def)

lemma level_of_inj: "known_tier a \<Longrightarrow> known_tier b \<Longrightarrow> level_of a = level_of b \<longleftrightarrow> a = b"
  by (erule known_cases; erule known_cases) (simp_all add: level_of_def)

lemma maxTier_level:
  assumes "known_tier a" and "known_tier b"
  shows "known_tier (maxTier a b)" "level_of (maxTier a b) = max (level_of a) (level_of b)"
  using assms by (auto simp: maxTier_def tierRank_less max_def not_less)

section \<open>The effective tier\<close>

definition declared_level :: "governed_spec \<Rightarrow> risk_level" where
  "declared_level spec = (case gv_risk_tier spec of None \<Rightarrow> Safe | Some t \<Rightarrow> level_of t)"

definition declares_known :: "governed_spec \<Rightarrow> bool" where
  "declares_known spec \<longleftrightarrow> (case gv_risk_tier spec of None \<Rightarrow> True | Some t \<Rightarrow> known_tier t)"

definition policy_floor :: "jv \<Rightarrow> string" where
  "policy_floor payload =
     (case value_at payload [''risk_tiers'', ''min_tier''] of Some (JStr (c # cs)) \<Rightarrow> c # cs | _ \<Rightarrow> ''safe'')"

definition tier_block :: "jv \<Rightarrow> string \<Rightarrow> (string \<times> jv) list" where
  "tier_block payload tier =
     (case mappingAtOrNone payload [''risk_tiers''] of
        None \<Rightarrow> []
      | Some riskPolicy \<Rightarrow> (case mappingAtOrNone (JObj riskPolicy) [tier] of None \<Rightarrow> [] | Some m \<Rightarrow> m))"

definition tiers_in_play :: "jv \<Rightarrow> bool" where
  "tiers_in_play payload \<longleftrightarrow> (\<exists>e es. mappingAtOrNone payload [''risk_tiers''] = Some (e # es))"

lemma evaluate_in_play: "evaluateRiskTier spec payload fl \<noteq> None \<longleftrightarrow> tiers_in_play payload"
  by (auto simp: evaluateRiskTier_def tiers_in_play_def Let_def split: option.splits list.splits)

lemma evaluated_tier:
  assumes "evaluateRiskTier spec payload fl = Some ev"
  shows "re_effective ev = (let own = maxTier (case gv_risk_tier spec of None \<Rightarrow> ''safe'' | Some t \<Rightarrow> t) (policy_floor payload)
      in case fl of None \<Rightarrow> own | Some f \<Rightarrow> maxTier own f)"
    "re_denied ev \<longleftrightarrow> re_effective ev = ''prohibited''"
    "re_requirements ev = tier_requirements spec (tier_block payload (re_effective ev))"
proof -
  from assms obtain e es where r: "mappingAtOrNone payload [''risk_tiers''] = Some (e # es)"
    using evaluate_in_play [of spec payload fl] by (auto simp: tiers_in_play_def)
  then have at: "value_at payload [''risk_tiers'', ''min_tier''] = map_of (e # es) ''min_tier''"
    by (cases payload) (auto simp: mappingAtOrNone_def split: option.splits jv.splits)
  show "re_effective ev = (let own = maxTier (case gv_risk_tier spec of None \<Rightarrow> ''safe'' | Some t \<Rightarrow> t) (policy_floor payload)
      in case fl of None \<Rightarrow> own | Some f \<Rightarrow> maxTier own f)"
    using assms r unfolding evaluateRiskTier_def policy_floor_def at Let_def by auto
  show "re_denied ev \<longleftrightarrow> re_effective ev = ''prohibited''"
    "re_requirements ev = tier_requirements spec (tier_block payload (re_effective ev))"
    using assms r unfolding evaluateRiskTier_def tier_block_def Let_def by auto
qed

lemma effective_level:
  assumes "evaluateRiskTier spec payload fl = Some ev" and "declares_known spec" and "known_tier (policy_floor payload)"
    and "\<forall>f. fl = Some f \<longrightarrow> known_tier f"
  shows "known_tier (re_effective ev)"
    "level_of (re_effective ev) = max (max (declared_level spec) (level_of (policy_floor payload)))
       (case fl of None \<Rightarrow> Safe | Some f \<Rightarrow> level_of f)"
  using assms(2-4) maxTier_level
  by (auto simp: evaluated_tier(1) [OF assms(1)] Let_def declares_known_def declared_level_def split: option.splits)

section \<open>The highest tier of a closure\<close>

definition level_opt :: "string option \<Rightarrow> risk_level" where
  "level_opt t = (case t of None \<Rightarrow> Safe | Some d \<Rightarrow> level_of d)"

definition known_opt :: "string option \<Rightarrow> bool" where
  "known_opt t \<longleftrightarrow> (case t of None \<Rightarrow> True | Some d \<Rightarrow> known_tier d)"

lemma higher_tier_level:
  assumes "known_opt a" and "known_opt b"
  shows "known_opt (higher_tier a b)" "level_opt (higher_tier a b) = max (level_opt a) (level_opt b)"
  using assms
  by (auto simp: higher_tier_def known_opt_def level_opt_def tierRank_less tierRank_le max_def not_less intro: antisym split: option.splits)

lemma highest_declared:
  assumes "known_opt best" and "\<forall>m\<in>set members. known_opt (member_tier m)"
  shows "known_opt (foldl (\<lambda>b m. higher_tier b (member_tier m)) best members)"
    "level_opt (foldl (\<lambda>b m. higher_tier b (member_tier m)) best members)
       = foldl max (level_opt best) (map (level_opt \<circ> member_tier) members)"
  using assms by (induction members arbitrary: best) (simp_all add: higher_tier_level)

definition lifted_level :: "(string \<times> string) option \<Rightarrow> risk_level" where
  "lifted_level best = level_opt (map_option snd best)"

lemma better_member_level:
  assumes "known_opt (map_option snd best)" and "known_tier (snd entry)"
  shows "known_opt (map_option snd (better_member parent best entry))"
    "lifted_level (better_member parent best entry) =
       (if fst entry = parent then lifted_level best else max (lifted_level best) (level_of (snd entry)))"
  using assms
  by (auto simp: better_member_def known_opt_def lifted_level_def level_opt_def tierRank_less tierRank_le max_def not_less intro: antisym split: option.splits)

lemma lifting_level:
  assumes "known_opt (map_option snd best)" and "\<forall>e\<in>set tiers. known_tier (snd e)"
  shows "known_opt (map_option snd (foldl (better_member parent) best tiers))"
    "lifted_level (foldl (better_member parent) best tiers)
       = foldl max (lifted_level best) (map (level_of \<circ> snd) (filter (\<lambda>e. fst e \<noteq> parent) tiers))"
  using assms by (induction tiers arbitrary: best) (simp_all add: better_member_level)

lemma foldl_max_upper: "x \<le> foldl max (x::risk_level) xs" "y \<in> set xs \<Longrightarrow> y \<le> foldl max x xs"
proof (induction xs arbitrary: x)
  case (Cons z xs)
  { case 1 show ?case using Cons(1) [of "max x z"] by simp }
  { case 2 then show ?case using Cons(1) [of "max x z"] Cons(2) [of "max x z"] by auto }
qed simp_all

lemma foldl_max_floor: "max l (foldl max (x::risk_level) (map (max l) xs)) = max l (foldl max x xs)"
proof (induction xs arbitrary: x)
  case (Cons z xs)
  have "foldl max (max x (max l z)) ys = max l (foldl max (max x z) ys)" for ys
    by (induction ys arbitrary: x z) (simp_all add: max.left_commute max.assoc, metis max.commute max.left_commute)
  with Cons show ?case by (simp add: max.left_commute)
qed simp

lemma foldl_max_start: "foldl max (x::risk_level) xs = max x (foldl max Safe xs)"
proof (induction xs arbitrary: x)
  case (Cons z xs)
  show ?case using Cons [of "max x z"] Cons [of z] by (simp add: max.assoc)
qed simp

text \<open>What the members of a closure contribute to the search for the highest tier.\<close>

lemma member_tier_level:
  assumes "m = (w, Some child)" and "declares_known child" and "known_tier (policy_floor payload)" and "tiers_in_play payload"
  obtains t where "member_tiers payload m = [(w, t)]" "known_tier t"
    "level_of t = max (level_of (policy_floor payload)) (level_opt (member_tier m))"
proof -
  obtain ev where ev: "evaluateRiskTier child payload None = Some ev"
    using assms(4) evaluate_in_play [of child payload None] by blast
  have d: "level_opt (member_tier m) = declared_level child"
    by (simp add: assms(1) member_tier_def level_opt_def declared_level_def)
  show thesis
    by (rule that [of "re_effective ev"])
      (use effective_level [OF ev assms(2,3)] ev d assms(1) in \<open>simp_all add: member_tiers_def set_tier_def max.commute\<close>)
qed

lemma members_lift:
  assumes "\<forall>m\<in>set members. \<exists>child. snd m = Some child \<and> declares_known child"
    and "known_tier (policy_floor payload)" and "tiers_in_play payload"
  shows "(\<forall>e\<in>set (concat (map (member_tiers payload) members)). known_tier (snd e))
    \<and> map (level_of \<circ> snd) (concat (map (member_tiers payload) members)) =
       map (max (level_of (policy_floor payload))) (map (level_opt \<circ> member_tier) members)"
  using assms(1)
proof (induction members)
  case (Cons m members)
  from Cons.prems obtain child where m: "m = (fst m, Some child)" "declares_known child" by (cases m) auto
  from member_tier_level [OF m assms(2,3)] obtain t where "member_tiers payload m = [(fst m, t)]" "known_tier t"
    "level_of t = max (level_of (policy_floor payload)) (level_opt (member_tier m))" by blast
  with Cons show ?case by simp
qed simp

lemma closure_lift:
  assumes fresh: "parent \<notin> fst ` set members"
    and members: "\<forall>m\<in>set members. \<exists>child. snd m = Some child \<and> declares_known child"
    and fl: "known_tier (policy_floor payload)" and play: "tiers_in_play payload" and own: "declares_known spec"
  defines "tiers \<equiv> set_tier parent (evaluateRiskTier spec payload None) [] @ concat (map (member_tiers payload) members)"
  shows "known_opt (map_option snd (foldl (better_member parent) None tiers))"
    "lifted_level (foldl (better_member parent) None tiers) =
       foldl max Safe (map (max (level_of (policy_floor payload))) (map (level_opt \<circ> member_tier) members))"
proof -
  obtain ev where ev: "evaluateRiskTier spec payload None = Some ev"
    using play evaluate_in_play [of spec payload None] by blast
  have own_tier: "set_tier parent (evaluateRiskTier spec payload None) [] = [(parent, re_effective ev)]"
    by (simp add: ev set_tier_def)
  have "fst e \<noteq> parent" if "e \<in> set (concat (map (member_tiers payload) members))" for e
  proof -
    from that have "fst e \<in> fst ` set (concat (map (member_tiers payload) members))" by (rule imageI)
    then have "fst e \<in> fst ` set members" by (rule subsetD [OF tier_keys])
    with fresh show ?thesis by blast
  qed
  then have "filter (\<lambda>e. fst e \<noteq> parent) (concat (map (member_tiers payload) members)) = concat (map (member_tiers payload) members)"
    by (intro filter_True ballI)
  then have kept: "filter (\<lambda>e. fst e \<noteq> parent) tiers = concat (map (member_tiers payload) members)"
    unfolding tiers_def own_tier by (simp del: filter_concat)
  have known: "\<forall>e\<in>set tiers. known_tier (snd e)"
    using members_lift [OF members fl play] effective_level(1) [OF ev own fl] by (auto simp: tiers_def own_tier)
  have start: "known_opt (map_option snd None)" "lifted_level None = Safe"
    by (simp_all add: known_opt_def lifted_level_def level_opt_def)
  show "known_opt (map_option snd (foldl (better_member parent) None tiers))"
    by (rule lifting_level(1) [OF start(1) known])
  show "lifted_level (foldl (better_member parent) None tiers) =
       foldl max Safe (map (max (level_of (policy_floor payload))) (map (level_opt \<circ> member_tier) members))"
    using lifting_level(2) [OF start(1) known] members_lift [OF members fl play] kept start(2) by simp
qed

section \<open>The lifted evaluation\<close>

definition controls_satisfied :: "risk_evaluation \<Rightarrow> bool" where
  "controls_satisfied ev \<longleftrightarrow> \<not> re_denied ev \<and> list_all snd (re_requirements ev)"

lemma failures_none: "riskTierFailures ev b = [] \<Longrightarrow> controls_satisfied ev"
  by (auto simp: riskTierFailures_def controls_satisfied_def no_failures filter_empty_conv list_all_iff)

lemma same_tier_same_controls:
  assumes "evaluateRiskTier spec payload f = Some a" and "evaluateRiskTier spec payload f' = Some b"
    and "re_effective a = re_effective b"
  shows "controls_satisfied a \<longleftrightarrow> controls_satisfied b"
  using assms(3) by (simp add: controls_satisfied_def evaluated_tier(2,3) [OF assms(1)] evaluated_tier(2,3) [OF assms(2)])

text \<open>
  If the evaluation of the parent and the one lifted by its closure ask nothing more, neither does the
  evaluation at the highest declared tier: all are maxima over the same levels.
\<close>

lemma binding_satisfied:
  assumes fresh: "parent \<notin> fst ` set members"
    and members: "\<forall>m\<in>set members. \<exists>child. snd m = Some child \<and> declares_known child"
    and fl: "known_tier (policy_floor payload)" and own: "declares_known spec"
    and base: "evaluateRiskTier spec payload None = Some base" "controls_satisfied base"
    and cascade: "\<And>c. riskTierCascade parent base (set_tier parent (evaluateRiskTier spec payload None) []
         @ concat (map (member_tiers payload) members)) spec payload = Some c \<Longrightarrow> controls_satisfied (rc_evaluation c)"
    and best: "known_tier b" "level_of b = foldl max (declared_level spec) (map (level_opt \<circ> member_tier) members)"
    and ev: "evaluateRiskTier spec payload (Some b) = Some ev"
  shows "controls_satisfied ev"
proof -
  let ?l = "level_of (policy_floor payload)" and ?ds = "map (level_opt \<circ> member_tier) members"
  let ?tiers = "set_tier parent (evaluateRiskTier spec payload None) [] @ concat (map (member_tiers payload) members)"
  let ?lift = "foldl (better_member parent) None ?tiers"
  have play: "tiers_in_play payload" using base(1) evaluate_in_play [of spec payload None] by simp
  note lift = closure_lift [OF fresh members fl play own]
  have "level_of (re_effective ev) = max (max (declared_level spec) ?l) (level_of b)"
    using effective_level(2) [OF ev own fl] best(1) by simp
  also have "\<dots> = max (declared_level spec) (max ?l (foldl max Safe ?ds))"
    using foldl_max_start [of "declared_level spec" ?ds] best(2) by (simp add: max.assoc max.left_commute)
  also have "\<dots> = max (max (declared_level spec) ?l) (lifted_level ?lift)"
    using foldl_max_floor [of ?l Safe ?ds] lift(2) by (simp add: max.assoc)
  finally have level: "level_of (re_effective ev) = max (max (declared_level spec) ?l) (lifted_level ?lift)" .
  have base_level: "level_of (re_effective base) = max (declared_level spec) ?l"
    using effective_level(2) [OF base(1) own fl] by simp
  have known: "known_tier (re_effective ev)" "known_tier (re_effective base)"
    using effective_level(1) [OF ev own fl] effective_level(1) [OF base(1) own fl] best(1) by simp_all
  show ?thesis
  proof (cases "lifted_level ?lift \<le> level_of (re_effective base)")
    case True
    with level base_level have "level_of (re_effective base) = level_of (re_effective ev)" by (simp add: max_absorb1)
    with known level_of_inj same_tier_same_controls [OF base(1) ev] base(2) show ?thesis by blast
  next
    case False
    then obtain m t where mt: "?lift = Some (m, t)" by (cases ?lift) (auto simp: lifted_level_def level_opt_def)
    with lift have t: "known_tier t" "lifted_level ?lift = level_of t"
      by (simp_all add: known_opt_def lifted_level_def level_opt_def)
    obtain up where up: "evaluateRiskTier spec payload (Some t) = Some up"
      using play evaluate_in_play [of spec payload "Some t"] by blast
    have "\<not> tierRank t \<le> tierRank (re_effective base)" using False t tierRank_le [OF t(1) known(2)] by simp
    with mt up have "controls_satisfied up" using cascade by (simp add: riskTierCascade_def)
    moreover have "level_of (re_effective up) = level_of (re_effective ev)"
      using effective_level(2) [OF up own fl] t level by simp
    then have "re_effective up = re_effective ev"
      using level_of_inj known(1) effective_level(1) [OF up own fl] t(1) by simp
    ultimately show ?thesis using same_tier_same_controls [OF up ev] by simp
  qed
qed

end
