(* ===== verification/Project_Example.thy ===== *)
theory Project_Example
  imports Risk_Tiers Policy_Example
begin

text \<open>
  A project on which the definitions are evaluated: a policy that extends another, a workflow bound to it, and
  the sub-workflow that workflow calls, which declares a risk tier.
\<close>

definition base_policy :: policy_document where
  "base_policy = \<lparr>pd_name = ''base'', pd_extends = [], pd_blocks =
     [(''composition'', JObj [(''max_total_steps'', JNum (IntN 2)), (''max_subworkflow_depth'', JNum (IntN 1))]),
      (''risk_tiers'', JObj [(''policy_gated'', JObj [(''require_moderation'', JBool True)])])]\<rparr>"

definition team_policy :: policy_document where
  "team_policy = \<lparr>pd_name = ''team'', pd_extends = [''base''], pd_blocks =
     [(''providers'', JObj [(''allowed'', JObj [(''openai'', JObj [(''models'', JArr [JStr ''m-2''])])])])]\<rparr>"

definition demo_sources :: policy_sources where
  "demo_sources = [(''base'', base_policy), (''team'', team_policy)]"

definition demo_project :: project_spec where
  "demo_project = \<lparr>pj_workflows = [''main'', ''leaf''], pj_environments = [''prod''], pj_policies = [''base'', ''team''],
     pj_targets = [(''ci'', \<lparr>vt_workflows = [''main''], vt_environment = None, vt_policies = [''team'']\<rparr>)]\<rparr>"

definition leaf_spec :: governed_spec where
  "leaf_spec = demo_spec\<lparr>gv_steps := [StepSpec ''work'' (Some ''act'') None None None None None],
     gv_risk_tier := Some ''policy_gated''\<rparr>"

definition main_spec :: governed_spec where
  "main_spec = demo_spec\<lparr>gv_steps := [StepSpec ''call'' None None None None (Some ''leaf'') None]\<rparr>"

definition demo_resolver :: closure_resolver where
  "demo_resolver w = (if w = ''leaf'' then Resolved leaf_spec else Unresolved)"

definition demo_context :: enforcement_context where
  "demo_context = \<lparr>ec_spec = main_spec, ec_workflow = ''main'', ec_environment = ''prod'', ec_explicit = [],
     ec_resolver = Some demo_resolver\<rparr>"

section \<open>The closure of the policies\<close>

lemmas project_data = demo_sources_def demo_project_def base_policy_def team_policy_def

lemma demo_ids [simp]: "assertPolicyId ''base'' = Inr ()" "assertPolicyId ''team'' = Inr ()"
  by (simp_all add: assertPolicyId_def trim_def is_space_def code_of_def)

lemma demo_resolved:
  "resolveProjectPolicyClosure demo_project demo_sources [''team''] =
     Inr [applied_as ''base'' base_policy, applied_as ''team'' team_policy]"
  by (simp add: resolveProjectPolicyClosure_def project_data declared_policy_def add_applied_def applied_as_def)

lemma demo_composed:
  "\<exists>c. composeProjectPolicyIds demo_hash demo_project demo_sources [''team''] = Inr c \<and>
     cp_payload c = [(''version'', JStr ''1''),
      (''selected_policy_ids'', JArr [JStr ''team'']),
      (''applied_policy_ids'', JArr [JStr ''base'', JStr ''team'']),
      (''policy_names'', JArr [JStr ''base'', JStr ''team'']),
      (''composition'', JObj [(''max_total_steps'', JNum (IntN 2)), (''max_subworkflow_depth'', JNum (IntN 1))]),
      (''risk_tiers'', JObj [(''policy_gated'', JObj [(''require_moderation'', JBool True)])]),
      (''providers'', JObj [(''allowed'', JObj [(''openai'', JObj [(''models'', JArr [JStr ''m-2''])])])])]"
  by (simp add: composeProjectPolicyIds_def demo_resolved composition_result_def applied_as_def base_policy_def
      team_policy_def merge_eval)

lemma demo_selected: "selected_for demo_project demo_context = [''team'']"
  by (simp add: selected_for_def selectProjectPolicyIdsForWorkflow_def demo_project_def demo_context_def
      target_applies_def js_set_def)

section \<open>The closure of the workflow\<close>

lemma main_references [simp]: "references_of main_spec = [''leaf'']"
  by (simp add: references_of_def collectSubworkflowReferences_def main_spec_def add_reference_def)

lemma leaf_references [simp]: "references_of leaf_spec = []"
  by (simp add: references_of_def collectSubworkflowReferences_def leaf_spec_def)

lemma demo_closure_of: "closure_of main_spec demo_resolver ''main'' = {''leaf''}"
proof -
  have "in_closure demo_resolver ''main'' [''leaf''] m \<Longrightarrow> m = ''leaf''" for m
    by (induction rule: in_closure.induct) (auto simp: demo_resolver_def split: if_splits)
  then show ?thesis by (auto simp: closure_of_def intro: direct)
qed

lemma demo_walk: "walkSubworkflowClosure main_spec demo_resolver ''main'' = Some (Inr [(''leaf'', Some leaf_spec)])"
  by (simp add: walkSubworkflowClosure_def walk.simps demo_resolver_def)

lemma demo_walk_tolerant:
  "walkSubworkflowClosure main_spec (tolerant demo_resolver) ''main'' = Some (Inr [(''leaf'', Some leaf_spec)])"
  by (rule walkSubworkflowClosure_tolerant [OF demo_walk])

end
