(* ===== verification/Project_Demo.thy ===== *)
theory Project_Demo
  imports Project_Example
begin

text \<open>The guard of the example project: every check of the workflow and of its closure passes.\<close>

lemmas check_data = fails_check_simps validateProvider_def validateSecrets_def validateRegistry_def
  validateObservability_def validateTemporal_def validateArtifacts_def validateReview_def validateSemantics_def
  validateProviderRetry_def validateProviderLimits_def validateComposition_def
  mappingAtOrNone_def listAtOrNone_def nonEmptyMapping_def providerModelPolicyFailure_def effectiveModelFor_def
  includes_model_def includes_text_def verdict_of_def fail_if_def collectOverrideModels_def
  governed_definitions_def collectCompositionMetrics_def composition_failures_def number_at_def exceeds_def
  num_lt_rank num_le_rank set_to_def fans_out_workflow_def Let_def js_set_def

definition demo_payload :: "(string \<times> jv) list" where
  "demo_payload = [(''version'', JStr ''1''),
      (''selected_policy_ids'', JArr [JStr ''team'']),
      (''applied_policy_ids'', JArr [JStr ''base'', JStr ''team'']),
      (''policy_names'', JArr [JStr ''base'', JStr ''team'']),
      (''composition'', JObj [(''max_total_steps'', JNum (IntN 2)), (''max_subworkflow_depth'', JNum (IntN 1))]),
      (''risk_tiers'', JObj [(''policy_gated'', JObj [(''require_moderation'', JBool True)])]),
      (''providers'', JObj [(''allowed'', JObj [(''openai'', JObj [(''models'', JArr [JStr ''m-2''])])])])]"

lemmas demo_data = demo_payload_def main_spec_def leaf_spec_def demo_spec_def

lemma demo_tiers [simp]:
  "maxTier ''safe'' ''safe'' = ''safe''" "maxTier ''policy_gated'' ''safe'' = ''policy_gated''"
  "maxTier ''safe'' ''policy_gated'' = ''policy_gated''"
  "tierRank ''safe'' = 0" "tierRank ''policy_gated'' = 1"
  by (simp_all add: maxTier_def tierRank_def RISK_TIER_ORDER_def)

lemma demo_in_play: "mappingAtOrNone (JObj demo_payload) [''risk_tiers''] =
    Some [(''policy_gated'', JObj [(''require_moderation'', JBool True)])]"
  by (simp add: mappingAtOrNone_def demo_payload_def)

lemma demo_requirements:
  "activitiesMissingModeration main_spec = []" "activitiesMissingModeration leaf_spec = []"
  by (simp_all add: activitiesMissingModeration_def governed_definitions_def demo_data)

lemma demo_tier_of: "gv_risk_tier main_spec = None" "gv_risk_tier leaf_spec = Some ''policy_gated''"
  by (simp_all add: demo_data)

lemmas risk_data = evaluateRiskTier_def demo_in_play demo_tier_of tier_requirements_def need_def set_to_def
  demo_requirements Let_def

lemma main_risk: "evaluateRiskTier main_spec (JObj demo_payload) None =
   Some \<lparr>re_declared = ''safe'', re_floor = ''safe'', re_effective = ''safe'', re_floor_source = From_declared,
     re_undeclared = True, re_require_declared = False, re_denied = False, re_requirements = []\<rparr>"
  by (simp add: risk_data) (simp add: mappingAtOrNone_def)

lemma leaf_risk: "evaluateRiskTier leaf_spec (JObj demo_payload) None =
   Some \<lparr>re_declared = ''policy_gated'', re_floor = ''safe'', re_effective = ''policy_gated'', re_floor_source = From_declared,
     re_undeclared = False, re_require_declared = False, re_denied = False,
     re_requirements = [(Need_moderation, True)]\<rparr>"
  by (simp add: risk_data) (simp add: mappingAtOrNone_def)

lemma main_risk_lifted: "evaluateRiskTier main_spec (JObj demo_payload) (Some ''policy_gated'') =
   Some \<lparr>re_declared = ''safe'', re_floor = ''safe'', re_effective = ''policy_gated'', re_floor_source = From_closure,
     re_undeclared = True, re_require_declared = False, re_denied = False,
     re_requirements = [(Need_moderation, True)]\<rparr>"
  by (simp add: risk_data) (simp add: mappingAtOrNone_def)

lemma demo_risk_tier:
  "\<not> is_failed (validateRiskTier main_spec (JObj demo_payload))"
  "\<not> is_failed (validateRiskTier leaf_spec (JObj demo_payload))"
  by (simp_all add: validateRiskTier_def main_risk leaf_risk riskTierFailures_def verdict_of_def fail_if_def)

lemma demo_compliant:
  assumes "cp_payload c = demo_payload" and "spec = main_spec \<or> spec = leaf_spec"
  shows "\<not> fails_check su spec c code"
proof (cases "code = Policy_risk_tier")
  case False
  with assms(2) show ?thesis
    by (cases code; elim disjE) (simp_all add: check_data assms(1) demo_data)
qed (use assms demo_risk_tier in \<open>auto simp: fails_check_simps\<close>)

lemma demo_context_simps [simp]:
  "ec_spec demo_context = main_spec" "ec_workflow demo_context = ''main''"
  "ec_environment demo_context = ''prod''" "ec_resolver demo_context = Some demo_resolver"
  by (simp_all add: demo_context_def)

section \<open>The guard\<close>

lemma demo_policy:
  obtains c where "composeProjectPolicyIds demo_hash demo_project demo_sources [''team''] = Inr c" "cp_payload c = demo_payload"
  using demo_composed by (auto simp: demo_payload_def)

lemma demo_steps: "step_count main_spec = 1" "step_count leaf_spec = 1"
  by (simp_all add: step_count_def collectCompositionMetrics_def demo_data fans_out_workflow_def)

lemma demo_chain: "deepestReferenceChain ''main'' [(''main'', [''leaf'']), (''leaf'', [])] = [''main'', ''leaf'']"
  by (simp add: deepestReferenceChain_def map_get_def Let_def)

lemma demo_tally:
  assumes "cp_payload c = demo_payload"
  shows "tally_of su main_spec c ''main'' [(''leaf'', Some leaf_spec)] =
    \<lparr>ct_order = [''leaf''], ct_unresolved = [], ct_failures = [], ct_references = [(''main'', [''leaf'']), (''leaf'', [])],
     ct_step_counts = [(''main'', 1), (''leaf'', 1)],
     ct_risk_tiers = [(''main'', ''safe''), (''leaf'', ''policy_gated'')]\<rparr>"
proof -
  have "member_failures su c (''leaf'', Some leaf_spec) = []"
    using demo_compliant [OF assms] by (simp add: member_failures_none)
  then show ?thesis
    by (simp add: tally_contents assms main_risk leaf_risk demo_steps member_references_def member_steps_def
        member_tiers_def set_tier_def)
qed

lemma demo_cascade:
  "riskTierCascade ''main'' \<lparr>re_declared = ''safe'', re_floor = ''safe'', re_effective = ''safe'', re_floor_source = From_declared,
     re_undeclared = True, re_require_declared = False, re_denied = False, re_requirements = []\<rparr>
     [(''main'', ''safe''), (''leaf'', ''policy_gated'')] main_spec (JObj demo_payload) =
   Some \<lparr>rc_lifted_by = ''leaf'', rc_parent_effective = ''safe'', rc_evaluation =
     \<lparr>re_declared = ''safe'', re_floor = ''safe'', re_effective = ''policy_gated'', re_floor_source = From_closure,
     re_undeclared = True, re_require_declared = False, re_denied = False,
     re_requirements = [(Need_moderation, True)]\<rparr>\<rparr>"
  by (simp add: riskTierCascade_def better_member_def main_risk_lifted)

lemma demo_closure_check:
  assumes "cp_payload c = demo_payload"
  shows "\<exists>d. validateSubworkflowClosurePolicy su main_spec c (Some demo_resolver) ''main'' = Some (Inr (Some ([], d)))"
proof -
  have comp: "composition_section c = [(''max_total_steps'', JNum (IntN 2)), (''max_subworkflow_depth'', JNum (IntN 1))]"
    by (simp add: composition_section_def assms demo_payload_def)
  show ?thesis
    using demo_tally [OF assms, of su]
    by (simp add: validateSubworkflowClosurePolicy_def demo_walk wbind_def wreturn_def closure_verdict_def comp
        tally_of_def Let_def total_steps_def number_at_def exceeds_def num_lt_rank num_le_rank fail_if_def demo_chain
        assms main_risk demo_cascade riskTierFailures_def)
qed

lemma demo_bound:
  assumes "cp_payload c = demo_payload"
  shows "riskTierBindingCheck main_spec [''team''] (JObj (cp_payload c)) (Some demo_resolver) ''main'' = Some (Inr None)"
  by (simp add: riskTierBindingCheck_def maxDeclaredClosureRiskTier_def demo_walk_tolerant wbind_def wreturn_def
      member_tier_def demo_tier_of higher_tier_def binding_verdict_def ELEVATED_RISK_TIERS_def assms main_risk_lifted)

lemma demo_guard:
  obtains g where
    "buildProjectPolicyRuntimeGuard demo_hash su demo_project demo_sources demo_context = Some (Inr (Some g))"
    "composeProjectPolicyIds demo_hash demo_project demo_sources [''team''] = Inr (gu_policy g)"
    "cp_payload (gu_policy g) = demo_payload"
proof -
  obtain c where c: "composeProjectPolicyIds demo_hash demo_project demo_sources [''team''] = Inr c" "cp_payload c = demo_payload"
    by (rule demo_policy)
  obtain d where d: "validateSubworkflowClosurePolicy su main_spec c (Some demo_resolver) ''main'' = Some (Inr (Some ([], d)))"
    using demo_closure_check [OF c(2)] by blast
  have "filter check_failed (map Admission_check (validatePolicyCompliance su main_spec c)) = []"
    using demo_compliant [OF c(2)] by (simp only: admitted_checks) blast
  then have "buildProjectPolicyRuntimeGuard demo_hash su demo_project demo_sources demo_context =
      Some (Inr (Some \<lparr>gu_policy = c, gu_providerName = pv_type (gv_provider main_spec)\<rparr>))"
    by (simp add: buildProjectPolicyRuntimeGuard_def demo_selected Let_def c(1) bound_checks_def demo_bound [OF c(2)] d
        rethrow_def wbind_def wreturn_def)
  then show thesis by (rule that) (simp_all add: c)
qed

end
