(* ===== verification/Project_Claims.thy ===== *)
theory Project_Claims
  imports Project_Demo
begin

text \<open>
  Properties of the policies of a project: what a guard that was built says about the workflow and every
  workflow it reaches, how the policies of a selection are resolved, and that each single one of them is
  enforced.
\<close>

section \<open>The closure of the workflow\<close>

lemma closure_empty:
  assumes "references_of spec = []"
  shows "closure_of spec resolve parent = {}"
proof -
  have "in_closure resolve parent [] m \<Longrightarrow> False" for m
    by (induction rule: in_closure.induct) simp_all
  with assms show ?thesis by (auto simp: closure_of_def)
qed

lemma guard_member:
  assumes "buildProjectPolicyRuntimeGuard sha su project sources ctx = Some (Inr (Some g))"
    and "ec_resolver ctx = Some resolve" and "m \<in> closure_of (ec_spec ctx) resolve (ec_workflow ctx)"
  shows "\<exists>child. resolve m = Resolved child \<and> (\<forall>code. \<not> fails_check su child (gu_policy g) code)"
  using assms(1)
proof (rule guard_built)
  fix closure
  assume c: "validateSubworkflowClosurePolicy su (ec_spec ctx) (gu_policy g) (ec_resolver ctx) (ec_workflow ctx) = Some (Inr closure)"
    "case closure of None \<Rightarrow> True | Some c \<Rightarrow> fst c = []"
  from assms(3) closure_empty have "references_of (ec_spec ctx) \<noteq> []" by blast
  from closure_checked [OF c(1) this c(2)] show ?thesis
    using closure_compliant assms(2,3) by (metis option.inject)
qed

text \<open>C6: Admission is transitive and fails closed: a run that starts with a guard has passed every check of the
  composed policy, and so has every workflow it can reach through sub-workflow references, at any depth;
  each of them resolves, and without a resolver a workflow with references gets no guard.\<close>

theorem guard_covers_closure:
  assumes "buildProjectPolicyRuntimeGuard sha su project sources ctx = Some (Inr (Some g))"
  shows "(\<forall>code. \<not> fails_check su (ec_spec ctx) (gu_policy g) code)
    \<and> (references_of (ec_spec ctx) = [] \<or> (\<exists>resolve. ec_resolver ctx = Some resolve
        \<and> (\<forall>m\<in>closure_of (ec_spec ctx) resolve (ec_workflow ctx).
             \<exists>child. resolve m = Resolved child \<and> (\<forall>code. \<not> fails_check su child (gu_policy g) code))))"
  using assms
proof (rule guard_built)
  fix closure
  assume c: "validateSubworkflowClosurePolicy su (ec_spec ctx) (gu_policy g) (ec_resolver ctx) (ec_workflow ctx) = Some (Inr closure)"
    "case closure of None \<Rightarrow> True | Some c \<Rightarrow> fst c = []"
    and own: "\<forall>code. \<not> fails_check su (ec_spec ctx) (gu_policy g) code"
  show ?thesis
  proof (cases "references_of (ec_spec ctx) = []")
    case False
    from closure_checked [OF c(1) False c(2)] obtain resolve where "ec_resolver ctx = Some resolve" by blast
    with own guard_member [OF assms] show ?thesis by blast
  qed (simp add: own)
qed

theorem guard_covers_closure_witness:
  "\<exists>g. buildProjectPolicyRuntimeGuard demo_hash demo_surroundings demo_project demo_sources demo_context = Some (Inr (Some g))
     \<and> (\<forall>code. \<not> fails_check demo_surroundings leaf_spec (gu_policy g) code)"
proof -
  obtain g where g: "buildProjectPolicyRuntimeGuard demo_hash demo_surroundings demo_project demo_sources demo_context
      = Some (Inr (Some g))" by (rule demo_guard)
  from guard_covers_closure [OF g] have "\<forall>code. \<not> fails_check demo_surroundings leaf_spec (gu_policy g) code"
    by (simp add: demo_closure_of demo_resolver_def)
  with g show ?thesis by blast
qed

section \<open>The closure of the policies\<close>

text \<open>C28: The policies of a selection resolve exactly if every policy reachable through \<open>extends\<close> is a proper id,
  declared, provided and named like its id, and none extends itself, however far around. What they resolve
  to is the set of the reachable policies, each once and after everything it extends.\<close>

theorem policy_closure_resolves:
  "case resolveProjectPolicyClosure project sources ids of
     Inl e \<Rightarrow> \<not> resolvable project sources (set ids)
   | Inr applied \<Rightarrow> resolvable project sources (set ids) \<and> layered project sources applied
       \<and> ap_id ` set applied = (extends_edges project sources)\<^sup>* `` set ids"
  using resolve_iff_resolvable [of project sources ids] resolved_closure [of project sources ids]
  by (cases "resolveProjectPolicyClosure project sources ids") auto

text \<open>C3: From the manifest to the last sub-workflow: when a guard was built, the workflow and every workflow it
  reaches pass the checks of each single policy the selection extends to, however deep in the \<open>extends\<close>
  tree. The exceptions are those of the composition: provider limits, risk tiers, a region map.\<close>

theorem project_policies_enforced:
  assumes "buildProjectPolicyRuntimeGuard sha su project sources ctx = Some (Inr (Some g))"
    and "\<forall>q doc. declared_policy project sources q = Inr doc \<longrightarrow> wf_policy (applied_as q doc)"
    and "s \<in> set (selected_for project ctx)" and "(s, i) \<in> (extends_edges project sources)\<^sup>*"
    and "declared_policy project sources i = Inr doc"
    and "composeProjectPolicies sha [applied_as i doc] [i] = Inr solo"
    and "spec = ec_spec ctx \<or> (\<exists>resolve m. ec_resolver ctx = Some resolve
           \<and> m \<in> closure_of (ec_spec ctx) resolve (ec_workflow ctx) \<and> resolve m = Resolved spec)"
    and "code \<notin> {Policy_provider_limits, Policy_risk_tier}"
    and "\<not> mapping_allowlist_path (pv_type (gv_provider spec))"
    and "\<And>w. governs solo decision_path = Some w \<Longrightarrow> \<exists>t. w = JStr t"
    and "code = Policy_temporal \<Longrightarrow> governs solo region_map_path = None \<and> governs (gu_policy g) region_map_path = None"
  shows "\<not> fails_check su spec solo code"
  using assms(1)
proof (rule guard_built)
  assume own: "\<forall>code. \<not> fails_check su (ec_spec ctx) (gu_policy g) code"
    and "composeProjectPolicyIds sha project sources (selected_for project ctx) = Inr (gu_policy g)"
  then obtain applied where a: "resolveProjectPolicyClosure project sources (selected_for project ctx) = Inr applied"
    "composeProjectPolicies sha applied (selected_for project ctx) = Inr (gu_policy g)"
    using composed_selection by blast
  note closure = resolved_closure [OF a(1)]
  have placed: "declared_policy project sources (ap_id q) = Inr d \<Longrightarrow> q = applied_as (ap_id q) d" if "q \<in> set applied" for q d
    using layered_member [OF closure(1) that] by (auto simp: layer_placed_def)
  have wf: "\<forall>q\<in>set applied. wf_policy q"
    using layered_member [OF closure(1)] assms(2) unfolding layer_placed_def by metis
  have "i \<in> ap_id ` set applied" using closure(2) assms(3,4) by blast
  then have mem: "applied_as i doc \<in> set applied" using placed assms(5) by auto
  have "\<not> fails_check su spec (gu_policy g) code"
    using assms(7) own guard_member [OF assms(1)] by fastforce
  moreover have id: "ap_id (applied_as i doc) = i" by (simp add: applied_as_def)
  ultimately show ?thesis
    using check_tightens [OF layer_of_member [OF wf mem _ a(2)] _ assms(8,9,10,11)] assms(6) by metis
qed

theorem project_policies_enforced_witness:
  "\<exists>g solo. buildProjectPolicyRuntimeGuard demo_hash demo_surroundings demo_project demo_sources demo_context = Some (Inr (Some g))
     \<and> composeProjectPolicies demo_hash [applied_as ''base'' base_policy] [''base''] = Inr solo
     \<and> \<not> fails_check demo_surroundings leaf_spec solo Policy_composition_ceilings"
proof -
  obtain g where g: "buildProjectPolicyRuntimeGuard demo_hash demo_surroundings demo_project demo_sources demo_context
      = Some (Inr (Some g))" by (rule demo_guard)
  obtain solo where solo: "composeProjectPolicies demo_hash [applied_as ''base'' base_policy] [''base''] = Inr solo"
    "governs solo decision_path = None"
    by (simp add: applied_as_def base_policy_def merge_eval governs_def decision_path_def)
  have wf: "\<forall>q doc. declared_policy demo_project demo_sources q = Inr doc \<longrightarrow> wf_policy (applied_as q doc)"
    by (auto simp: declared_policy_def project_data applied_as_def wf_policy_def POLICY_SECTIONS_def wf_fields_def)
  have base: "declared_policy demo_project demo_sources ''base'' = Inr base_policy"
    "declared_policy demo_project demo_sources ''team'' = Inr team_policy"
    by (simp_all add: declared_policy_def demo_project_def demo_sources_def base_policy_def team_policy_def)
  then have edge: "(''team'', ''base'') \<in> (extends_edges demo_project demo_sources)\<^sup>*"
    by (auto simp: extends_edges_def team_policy_def)
  have "\<not> fails_check demo_surroundings leaf_spec solo Policy_composition_ceilings"
    by (rule project_policies_enforced [OF g wf _ edge base(1) solo(1)])
      (simp_all add: demo_selected demo_closure_of demo_resolver_def leaf_spec_def demo_spec_def solo(2)
        mapping_allowlist_path_def endsWith_def lastSegment_def)
  with g solo show ?thesis by blast
qed

end
