(* ===== verification/Project_Limits.thy ===== *)
theory Project_Limits
  imports Project_Claims
begin

text \<open>
  Properties of a guard that was built: the ceilings over the whole closure, and the risk tiers the workflow
  and its closure declare.
\<close>

section \<open>The composed program\<close>

definition workflow_references :: "governed_spec \<Rightarrow> closure_resolver \<Rightarrow> string \<Rightarrow> string \<Rightarrow> string list" where
  "workflow_references spec resolve parent w =
     (if w = parent then references_of spec
      else (case answer_of resolve w of None \<Rightarrow> [] | Some child \<Rightarrow> references_of child))"

definition closure_edges :: "governed_spec \<Rightarrow> closure_resolver \<Rightarrow> string \<Rightarrow> (string \<times> string) set" where
  "closure_edges spec resolve parent =
     {(a, b). a \<in> insert parent (closure_of spec resolve parent) \<and> b \<in> set (workflow_references spec resolve parent a)}"

text \<open>A chain of references that starts at the parent.\<close>

definition reference_chain :: "governed_spec \<Rightarrow> closure_resolver \<Rightarrow> string \<Rightarrow> string list \<Rightarrow> bool" where
  "reference_chain spec resolve parent c \<longleftrightarrow>
     c \<noteq> [] \<and> hd c = parent \<and> successively (\<lambda>a b. b \<in> set (workflow_references spec resolve parent a)) c"

definition steps_of :: "closure_resolver \<Rightarrow> string \<Rightarrow> nat" where
  "steps_of resolve w = (case answer_of resolve w of None \<Rightarrow> 0 | Some child \<Rightarrow> step_count child)"

lemma exceeds_mono: "exceeds n l \<Longrightarrow> n \<le> k \<Longrightarrow> exceeds k l"
  by (cases l) (auto simp: exceeds_def num_lt_rank num_le_rank)

lemma closure_step:
  assumes "a \<in> insert parent (closure_of spec resolve parent)" and "b \<in> set (workflow_references spec resolve parent a)"
  shows "b \<in> insert parent (closure_of spec resolve parent)"
proof (cases "b = parent")
  case False
  from assms(2) consider "a = parent" "b \<in> set (references_of spec)"
    | child where "a \<noteq> parent" "resolve a = Resolved child" "b \<in> set (references_of child)"
    by (auto simp: workflow_references_def answer_of_def split: if_splits option.splits resolution.splits)
  then show ?thesis
    using assms(1) False by cases (auto simp: closure_of_def intro: direct nested)
qed simp

lemma chain_stays:
  "successively (\<lambda>a b. b \<in> set (workflow_references spec resolve parent a)) c \<Longrightarrow> c \<noteq> [] \<Longrightarrow>
   hd c \<in> insert parent (closure_of spec resolve parent) \<Longrightarrow>
   successively (\<lambda>a b. (a, b) \<in> closure_edges spec resolve parent) c"
proof (induction c rule: induct_list012)
  case (3 a b c)
  then have "b \<in> insert parent (closure_of spec resolve parent)"
    using closure_step [of a parent spec resolve b] by simp
  with 3 show ?case by (simp add: closure_edges_def)
qed simp_all

section \<open>What the tally measures\<close>

lemma tally_references:
  assumes "walkSubworkflowClosure spec resolve parent = Some (Inr members)"
  shows "refers (ct_references (tally_of su spec policy parent members)) = closure_edges spec resolve parent"
proof -
  note fresh = walked_fresh [OF assms] and mem = closure_members(1,2) [OF assms]
  have "map_get ((parent, references_of spec) # map member_references members) a =
      (if a \<in> insert parent (closure_of spec resolve parent) then workflow_references spec resolve parent a else [])" for a
  proof (cases "a = parent")
    case False
    have keys: "map_of (map member_references members) a = map_option (\<lambda>c. case c of None \<Rightarrow> [] | Some s \<Rightarrow> references_of s)
        (map_of members a)"
      by (induction members) (auto simp: member_references_def)
    show ?thesis
    proof (cases "a \<in> closure_of spec resolve parent")
      case True
      then have "(a, answer_of resolve a) \<in> set members" using mem(2) by blast
      then have "map_of members a = Some (answer_of resolve a)" using mem(1) by simp
      with False True keys show ?thesis by (simp add: map_get_def workflow_references_def split: option.splits)
    next
      case out: False
      then have "map_of members a = None" using closure_keys [OF assms] by (simp add: map_of_eq_None_iff)
      with False out keys show ?thesis by (simp add: map_get_def)
    qed
  qed (simp add: map_get_def workflow_references_def)
  then show ?thesis
    unfolding refers_def closure_edges_def tally_contents [OF fresh] by auto
qed

lemma tally_total:
  assumes "walkSubworkflowClosure spec resolve parent = Some (Inr members)"
  shows "total_steps (tally_of su spec policy parent members) =
    step_count spec + (\<Sum>w\<in>closure_of spec resolve parent. steps_of resolve w)"
proof -
  note fresh = walked_fresh [OF assms] and mem = closure_members(1,2) [OF assms]
  have "sum_list (map snd (concat (map member_steps members))) = sum_list (map (steps_of resolve \<circ> fst) members)"
    if "\<forall>m\<in>set members. snd m = answer_of resolve (fst m)"
    using that by (induction members) (auto simp: member_steps_def steps_of_def split: option.splits)
  moreover have "\<forall>m\<in>set members. snd m = answer_of resolve (fst m)" using mem(2) by auto
  moreover have "sum_list (map (steps_of resolve \<circ> fst) members) = (\<Sum>w\<in>fst ` set members. steps_of resolve w)"
    using sum_list_distinct_conv_sum_set [OF mem(1), of "steps_of resolve"] by simp
  ultimately show ?thesis
    using closure_keys [OF assms] by (simp add: total_steps_def tally_contents [OF fresh])
qed

section \<open>Ceilings\<close>

lemma guard_tally:
  assumes "buildProjectPolicyRuntimeGuard sha su project sources ctx = Some (Inr (Some g))"
    and "ec_resolver ctx = Some resolve" and "references_of (ec_spec ctx) \<noteq> []"
  obtains members where "walkSubworkflowClosure (ec_spec ctx) resolve (ec_workflow ctx) = Some (Inr members)"
    "fst (closure_verdict (ec_spec ctx) (gu_policy g) (ec_workflow ctx)
       (tally_of su (ec_spec ctx) (gu_policy g) (ec_workflow ctx) members)) = []"
  using assms(1)
proof (rule guard_built)
  fix closure
  assume c: "validateSubworkflowClosurePolicy su (ec_spec ctx) (gu_policy g) (ec_resolver ctx) (ec_workflow ctx) = Some (Inr closure)"
    "case closure of None \<Rightarrow> True | Some c \<Rightarrow> fst c = []"
  from closure_checked [OF c(1) assms(3) c(2)] assms(2) that show thesis by (metis option.inject)
qed

text \<open>C19: The ceilings bound the composed program, not its pieces: with a guard built, the steps of the workflow
  and of every workflow of its closure, each counted once, stay within \<open>max_total_steps\<close>, and every chain of
  references stays within \<open>max_subworkflow_depth\<close>, provided no workflow leads back to itself.\<close>

theorem closure_ceilings_hold:
  assumes "buildProjectPolicyRuntimeGuard sha su project sources ctx = Some (Inr (Some g))"
    and "ec_resolver ctx = Some resolve" and "references_of (ec_spec ctx) \<noteq> []"
    and "number_at (composition_section (gu_policy g)) ''max_total_steps'' = Some m"
    and "number_at (composition_section (gu_policy g)) ''max_subworkflow_depth'' = Some d"
    and "acyclic (closure_edges (ec_spec ctx) resolve (ec_workflow ctx))"
    and "reference_chain (ec_spec ctx) resolve (ec_workflow ctx) c"
  shows "\<not> exceeds (step_count (ec_spec ctx)
      + (\<Sum>w\<in>closure_of (ec_spec ctx) resolve (ec_workflow ctx). steps_of resolve w)) m
    \<and> \<not> exceeds (length c - 1) d"
  using assms(1-3)
proof (rule guard_tally)
  let ?spec = "ec_spec ctx" and ?parent = "ec_workflow ctx"
  fix members
  assume w: "walkSubworkflowClosure ?spec resolve ?parent = Some (Inr members)"
    and v: "fst (closure_verdict ?spec (gu_policy g) ?parent (tally_of su ?spec (gu_policy g) ?parent members)) = []"
  let ?refs = "ct_references (tally_of su ?spec (gu_policy g) ?parent members)"
  note edges = tally_references [OF w, of su "gu_policy g"]
  have "longest_chain ?refs ?parent (deepestReferenceChain ?parent ?refs)"
    by (rule deepest_chain_longest) (simp add: edges assms(6))
  moreover have "chain_from ?refs ?parent c"
    using assms(7) chain_stays [of ?spec resolve ?parent c] by (simp add: chain_from_def edges reference_chain_def)
  ultimately have "length c \<le> length (deepestReferenceChain ?parent ?refs)" by (simp add: longest_chain_def)
  then have "length c - 1 \<le> length (deepestReferenceChain ?parent ?refs) - 1" by simp
  with closure_verdict_passed(4) [OF v assms(5)] have "\<not> exceeds (length c - 1) d" using exceeds_mono by blast
  with closure_verdict_passed(3) [OF v assms(4)] tally_total [OF w] show ?thesis by simp
qed

theorem closure_ceilings_hold_witness:
  "\<exists>g. buildProjectPolicyRuntimeGuard demo_hash demo_surroundings demo_project demo_sources demo_context = Some (Inr (Some g))
     \<and> \<not> exceeds (step_count main_spec + (\<Sum>w\<in>{''leaf''}. steps_of demo_resolver w)) (IntN 2)
     \<and> \<not> exceeds (length [''main'', ''leaf''] - 1) (IntN 1)"
proof -
  obtain g where g: "buildProjectPolicyRuntimeGuard demo_hash demo_surroundings demo_project demo_sources demo_context
      = Some (Inr (Some g))" "cp_payload (gu_policy g) = demo_payload" by (rule demo_guard)
  have bounds: "composition_section (gu_policy g) = [(''max_total_steps'', JNum (IntN 2)), (''max_subworkflow_depth'', JNum (IntN 1))]"
    by (simp add: composition_section_def g(2) demo_payload_def)
  have refs: "workflow_references main_spec demo_resolver ''main'' w = (if w = ''main'' then [''leaf''] else [])" for w
    by (simp add: workflow_references_def answer_of_def demo_resolver_def)
  have "closure_edges main_spec demo_resolver ''main'' = {(''main'', ''leaf'')}"
    by (auto simp: closure_edges_def demo_closure_of refs split: if_splits)
  then have "acyclic (closure_edges main_spec demo_resolver ''main'')" by (simp add: acyclic_insert) (simp add: acyclic_def)
  moreover have "reference_chain main_spec demo_resolver ''main'' [''main'', ''leaf'']"
    by (simp add: reference_chain_def refs)
  ultimately show ?thesis
    using closure_ceilings_hold [OF g(1), of demo_resolver "IntN 2" "IntN 1" "[''main'', ''leaf'']"] g(1)
    by (simp add: bounds number_at_def demo_closure_of)
qed

section \<open>Risk tiers\<close>

text \<open>The tier a workflow of the program declares; \<open>parent\<close> is the program itself.\<close>

definition declared_by :: "governed_spec \<Rightarrow> closure_resolver option \<Rightarrow> string \<Rightarrow> string \<Rightarrow> bool" where
  "declared_by spec resolver parent t \<longleftrightarrow> gv_risk_tier spec = Some t
     \<or> (\<exists>resolve m child. resolver = Some resolve \<and> m \<in> closure_of spec resolve parent
          \<and> resolve m = Resolved child \<and> gv_risk_tier child = Some t)"

definition tiers_known :: "governed_spec \<Rightarrow> closure_resolver option \<Rightarrow> bool" where
  "tiers_known spec resolver \<longleftrightarrow> declares_known spec
     \<and> (\<forall>resolve m child. resolver = Some resolve \<longrightarrow> resolve m = Resolved child \<longrightarrow> declares_known child)"

lemma elevated_level: "known_tier t \<Longrightarrow> t \<in> set ELEVATED_RISK_TIERS \<longleftrightarrow> level_of t \<noteq> Safe"
  by (erule known_cases) (simp_all add: ELEVATED_RISK_TIERS_def level_of_def)

lemma known_member_tier:
  assumes "m \<in> set members" and "tiers_known spec (Some resolve)"
    and "set members = {(w, answer_of resolve w) |w. w \<in> C}"
  shows "known_opt (member_tier m)"
proof -
  from assms(1,3) obtain w where m: "m = (w, answer_of resolve w)" by blast
  show ?thesis
  proof (cases "resolve w")
    case (Resolved child)
    with assms(2) have "declares_known child" by (auto simp: tiers_known_def)
    with m Resolved show ?thesis by (simp add: member_tier_def answer_of_def declares_known_def known_opt_def)
  qed (simp_all add: m member_tier_def answer_of_def known_opt_def)
qed

text \<open>The highest tier is at least every declared one.\<close>

lemma max_declared:
  assumes "maxDeclaredClosureRiskTier spec resolver parent = Some (Inr best)" and "tiers_known spec resolver"
  shows "known_opt best" "declared_by spec resolver parent t \<Longrightarrow> level_of t \<le> level_opt best"
proof -
  have own: "known_opt (gv_risk_tier spec)" using assms(2) by (simp add: tiers_known_def declares_known_def known_opt_def)
  have "known_opt best \<and> (declared_by spec resolver parent t \<longrightarrow> level_of t \<le> level_opt best)"
  proof (cases resolver)
    case None
    with assms(1) have "best = gv_risk_tier spec" by (simp add: maxDeclaredClosureRiskTier_def wreturn_def)
    with own None show ?thesis by (auto simp: declared_by_def level_opt_def)
  next
    case (Some resolve)
    with assms(1) obtain members where w: "walkSubworkflowClosure spec (tolerant resolve) parent = Some (Inr members)"
      and best: "best = foldl (\<lambda>b m. higher_tier b (member_tier m)) (gv_risk_tier spec) members"
      by (auto simp: maxDeclaredClosureRiskTier_def result_simps)
    have mem: "set members = {(w, answer_of resolve w) |w. w \<in> closure_of spec resolve parent}"
      using closure_members(2) [OF w] by simp
    have known: "\<forall>m\<in>set members. known_opt (member_tier m)"
      using known_member_tier [OF _ _ mem] assms(2) Some by blast
    note hi = highest_declared [OF own known, folded best]
    have "level_of t \<le> level_opt best" if "declared_by spec resolver parent t"
    proof (cases "gv_risk_tier spec = Some t")
      case True
      then have "level_opt (gv_risk_tier spec) = level_of t" by (simp add: level_opt_def)
      then show ?thesis unfolding hi(2) by (metis foldl_max_upper(1))
    next
      case False
      with that Some obtain m child where m: "m \<in> closure_of spec resolve parent" "resolve m = Resolved child"
        "gv_risk_tier child = Some t" unfolding declared_by_def by blast
      then have "answer_of resolve m = Some child" by (simp add: answer_of_def)
      with m(1) have "(m, Some child) \<in> set members" unfolding mem by force
      moreover have "level_of t = (level_opt \<circ> member_tier) (m, Some child)"
        by (simp add: member_tier_def level_opt_def m(3))
      ultimately have "level_of t \<in> set (map (level_opt \<circ> member_tier) members)"
        unfolding set_map by (rule rev_image_eqI)
      then show ?thesis unfolding hi(2) by (rule foldl_max_upper(2))
    qed
    with hi(1) show ?thesis by blast
  qed
  then show "known_opt best" "declared_by spec resolver parent t \<Longrightarrow> level_of t \<le> level_opt best" by blast+
qed

text \<open>Without a policy nothing elevated runs: when a run starts without a guard, neither the workflow nor any
  workflow of its closure declares an elevated risk tier, and a workflow with references had a resolver to
  show it.\<close>

theorem unguarded_run_declares_nothing:
  assumes "buildProjectPolicyRuntimeGuard sha su project sources ctx = Some (Inr None)"
    and "tiers_known (ec_spec ctx) (ec_resolver ctx)"
  shows "selected_for project ctx = []
    \<and> \<not> (\<exists>t\<in>set ELEVATED_RISK_TIERS. declared_by (ec_spec ctx) (ec_resolver ctx) (ec_workflow ctx) t)
    \<and> (references_of (ec_spec ctx) = [] \<or> ec_resolver ctx \<noteq> None)"
proof -
  from assms(1) have sel: "selected_for project ctx = []"
    and b: "riskTierBindingCheck (ec_spec ctx) [] JNull (ec_resolver ctx) (ec_workflow ctx) = Some (Inr None)"
    by (auto simp: buildProjectPolicyRuntimeGuard_def Let_def result_simps split: if_splits sum.splits option.splits)
  from b obtain best where best: "maxDeclaredClosureRiskTier (ec_spec ctx) (ec_resolver ctx) (ec_workflow ctx) = Some (Inr best)"
    and v: "binding_verdict (ec_spec ctx) [] JNull (ec_resolver ctx) best = None"
    by (auto simp: riskTierBindingCheck_def result_simps)
  note hi = max_declared [OF best assms(2)]
  have safe: "level_opt best = Safe"
    using v hi(1) elevated_level
    by (auto simp: binding_verdict_def known_opt_def level_opt_def split: option.splits if_splits)
  have "level_of t = Safe" if "declared_by (ec_spec ctx) (ec_resolver ctx) (ec_workflow ctx) t" for t
    using hi(2) [OF that] safe by simp
  moreover have "\<forall>t\<in>set ELEVATED_RISK_TIERS. level_of t \<noteq> Safe"
    by (simp add: ELEVATED_RISK_TIERS_def level_of_def)
  moreover have "references_of (ec_spec ctx) = [] \<or> ec_resolver ctx \<noteq> None"
    using v by (auto simp: binding_verdict_def split: option.splits if_splits)
  ultimately show ?thesis using sel by blast
qed

theorem unguarded_run_declares_nothing_witness:
  "\<exists>ctx. buildProjectPolicyRuntimeGuard demo_hash demo_surroundings demo_project [] ctx = Some (Inr None)
     \<and> \<not> declared_by (ec_spec ctx) (ec_resolver ctx) (ec_workflow ctx) ''human_gated''"
proof -
  define ctx where "ctx = \<lparr>ec_spec = demo_spec, ec_workflow = ''other'', ec_environment = ''prod'', ec_explicit = [],
     ec_resolver = None\<rparr>"
  have "references_of demo_spec = []" by (simp add: references_of_def collectSubworkflowReferences_def demo_spec_def)
  then have g: "buildProjectPolicyRuntimeGuard demo_hash demo_surroundings demo_project [] ctx = Some (Inr None)"
    by (simp add: buildProjectPolicyRuntimeGuard_def ctx_def selected_for_def selectProjectPolicyIdsForWorkflow_def
        target_applies_def demo_project_def js_set_def riskTierBindingCheck_def maxDeclaredClosureRiskTier_def
        binding_verdict_def demo_spec_def rethrow_def wbind_def wreturn_def)
  have "tiers_known (ec_spec ctx) (ec_resolver ctx)"
    by (simp add: tiers_known_def declares_known_def ctx_def demo_spec_def)
  from unguarded_run_declares_nothing [OF g this] g show ?thesis by (auto simp: ELEVATED_RISK_TIERS_def)
qed

text \<open>The members the binding check has seen are those of the closure check.\<close>

lemma guard_members:
  assumes "buildProjectPolicyRuntimeGuard sha su project sources ctx = Some (Inr (Some g))"
    and "tiers_known (ec_spec ctx) (ec_resolver ctx)"
    and "maxDeclaredClosureRiskTier (ec_spec ctx) (ec_resolver ctx) (ec_workflow ctx) = Some (Inr best)"
  obtains members where "distinct (map fst members)" "ec_workflow ctx \<notin> fst ` set members"
    "\<forall>m\<in>set members. \<exists>child. snd m = Some child \<and> declares_known child"
    "best = foldl (\<lambda>b m. higher_tier b (member_tier m)) (gv_risk_tier (ec_spec ctx)) members"
    "members = [] \<or> fst (closure_verdict (ec_spec ctx) (gu_policy g) (ec_workflow ctx)
       (tally_of su (ec_spec ctx) (gu_policy g) (ec_workflow ctx) members)) = []"
proof (cases "ec_resolver ctx")
  case None
  with assms(3) show thesis by (intro that [of "[]"]) (simp_all add: maxDeclaredClosureRiskTier_def wreturn_def)
next
  case (Some resolve)
  let ?spec = "ec_spec ctx" and ?parent = "ec_workflow ctx"
  from assms(3) Some obtain members where w: "walkSubworkflowClosure ?spec (tolerant resolve) ?parent = Some (Inr members)"
    and best: "best = foldl (\<lambda>b m. higher_tier b (member_tier m)) (gv_risk_tier ?spec) members"
    by (auto simp: maxDeclaredClosureRiskTier_def result_simps)
  note fresh = walked_fresh [OF w] and mem = closure_members(2) [OF w]
  have resolved: "\<exists>child. snd m = Some child \<and> declares_known child" if "m \<in> set members" for m
  proof -
    from that mem obtain v where v: "m = (v, answer_of resolve v)" "v \<in> closure_of ?spec resolve ?parent" by auto
    from guard_member [OF assms(1) Some v(2)] obtain child where "resolve v = Resolved child" by blast
    with v(1) assms(2) Some show ?thesis by (auto simp: answer_of_def tiers_known_def)
  qed
  show thesis
  proof (cases "references_of ?spec = []")
    case True
    with closure_empty mem have "members = []" by simp
    with fresh resolved best show thesis by (intro that [of "[]"]) simp_all
  next
    case False
    from assms(1) Some False show thesis
    proof (rule guard_tally)
      fix ms
      assume m: "walkSubworkflowClosure ?spec resolve ?parent = Some (Inr ms)"
        "fst (closure_verdict ?spec (gu_policy g) ?parent (tally_of su ?spec (gu_policy g) ?parent ms)) = []"
      from walkSubworkflowClosure_tolerant [OF m(1)] w have "ms = members" by simp
      with m(2) fresh resolved best show thesis by (intro that [of members]) simp_all
    qed
  qed
qed

lemma guard_controls:
  assumes guard: "buildProjectPolicyRuntimeGuard sha su project sources ctx = Some (Inr (Some g))"
    and known: "tiers_known (ec_spec ctx) (ec_resolver ctx)" "known_tier (policy_floor (JObj (cp_payload (gu_policy g))))"
    and max: "maxDeclaredClosureRiskTier (ec_spec ctx) (ec_resolver ctx) (ec_workflow ctx) = Some (Inr (Some u))"
    and u: "known_tier u"
    and ev: "evaluateRiskTier (ec_spec ctx) (JObj (cp_payload (gu_policy g))) (Some u) = Some ev"
  shows "controls_satisfied ev"
  using guard
proof (rule guard_built)
  let ?spec = "ec_spec ctx" and ?payload = "JObj (cp_payload (gu_policy g))"
  assume own: "\<forall>code. \<not> fails_check su ?spec (gu_policy g) code"
  from guard_members [OF guard known(1) max] obtain members where m:
    "distinct (map fst members)" "ec_workflow ctx \<notin> fst ` set members"
    "\<forall>m\<in>set members. \<exists>child. snd m = Some child \<and> declares_known child"
    "Some u = foldl (\<lambda>b m. higher_tier b (member_tier m)) (gv_risk_tier ?spec) members"
    "members = [] \<or> fst (closure_verdict ?spec (gu_policy g) (ec_workflow ctx)
       (tally_of su ?spec (gu_policy g) (ec_workflow ctx) members)) = []" by blast
  obtain base where base: "evaluateRiskTier ?spec ?payload None = Some base"
    using ev evaluate_in_play [of ?spec ?payload] by fastforce
  have sat: "controls_satisfied base"
    using own base failures_none [of base True]
    by (auto simp: fails_check_simps validateRiskTier_def verdict_of_def split: if_splits dest!: spec [of _ Policy_risk_tier])
  have cascade: "controls_satisfied (rc_evaluation c)"
    if "riskTierCascade (ec_workflow ctx) base (set_tier (ec_workflow ctx) (evaluateRiskTier ?spec ?payload None) []
       @ concat (map (member_tiers ?payload) members)) ?spec ?payload = Some c" for c
  proof (cases "members = []")
    case True
    with that show ?thesis by (simp add: riskTierCascade_def better_member_def base set_tier_def)
  next
    case False
    with m(5) have v: "fst (closure_verdict ?spec (gu_policy g) (ec_workflow ctx)
       (tally_of su ?spec (gu_policy g) (ec_workflow ctx) members)) = []" by blast
    from closure_verdict_passed(5) [OF v base] that have "riskTierFailures (rc_evaluation c) False = []"
      by (simp add: tally_contents [OF m(1,2)])
    then show ?thesis by (rule failures_none)
  qed
  have own_known: "declares_known ?spec" using known(1) by (simp add: tiers_known_def)
  then have "known_opt (gv_risk_tier ?spec)" by (simp add: declares_known_def known_opt_def)
  moreover have "\<forall>m\<in>set members. known_opt (member_tier m)"
    using m(3) by (auto simp: member_tier_def known_opt_def declares_known_def)
  ultimately have "level_opt (Some u) = foldl max (level_opt (gv_risk_tier ?spec)) (map (level_opt \<circ> member_tier) members)"
    unfolding m(4) by (rule highest_declared(2))
  then have "level_of u = foldl max (declared_level ?spec) (map (level_opt \<circ> member_tier) members)"
    by (simp add: level_opt_def declared_level_def)
  from binding_satisfied [OF m(2,3) known(2) own_known base sat cascade u this ev] show ?thesis .
qed

text \<open>C11: A declared elevated risk tier is enforced, not only named: with a guard built, the policy imposes at the
  highest tier declared by the workflow or its closure at least one requirement, does not prohibit that
  tier, and the workflow satisfies every requirement of it.\<close>

theorem elevated_tier_enforced:
  assumes "buildProjectPolicyRuntimeGuard sha su project sources ctx = Some (Inr (Some g))"
    and "tiers_known (ec_spec ctx) (ec_resolver ctx)" and "known_tier (policy_floor (JObj (cp_payload (gu_policy g))))"
    and "declared_by (ec_spec ctx) (ec_resolver ctx) (ec_workflow ctx) t" and "t \<in> set ELEVATED_RISK_TIERS"
  shows "\<exists>b ev. maxDeclaredClosureRiskTier (ec_spec ctx) (ec_resolver ctx) (ec_workflow ctx) = Some (Inr (Some b))
    \<and> tierRank t \<le> tierRank b
    \<and> evaluateRiskTier (ec_spec ctx) (JObj (cp_payload (gu_policy g))) (Some b) = Some ev
    \<and> re_requirements ev \<noteq> [] \<and> controls_satisfied ev"
  using assms(1)
proof (rule guard_built)
  let ?spec = "ec_spec ctx" and ?payload = "JObj (cp_payload (gu_policy g))"
  fix bound
  assume b: "riskTierBindingCheck ?spec (selected_for project ctx) ?payload (ec_resolver ctx) (ec_workflow ctx) = Some (Inr bound)"
    "bound = None" and sel: "selected_for project ctx \<noteq> []"
  then obtain best where max: "maxDeclaredClosureRiskTier ?spec (ec_resolver ctx) (ec_workflow ctx) = Some (Inr best)"
    and v: "binding_verdict ?spec (selected_for project ctx) ?payload (ec_resolver ctx) best = None"
    by (auto simp: riskTierBindingCheck_def result_simps)
  note hi = max_declared [OF max assms(2)]
  have tk: "level_of t \<noteq> Safe" "known_tier t" using assms(5)
    by (auto simp: ELEVATED_RISK_TIERS_def level_of_def known_tier_def RISK_TIER_ORDER_def)
  obtain u where u: "best = Some u" "known_tier u" "level_of t \<le> level_of u"
    using hi(1) hi(2) [OF assms(4)] tk(1) by (cases best) (auto simp: level_opt_def known_opt_def)
  then have "level_of u \<noteq> Safe" using tk(1) by auto
  with elevated_level [OF u(2)] have "u \<in> set ELEVATED_RISK_TIERS" by simp
  then obtain ev where ev: "evaluateRiskTier ?spec ?payload (Some u) = Some ev" "re_denied ev \<or> re_requirements ev \<noteq> []"
    using v sel u(1) by (auto simp: binding_verdict_def split: option.splits if_splits)
  have "controls_satisfied ev" using guard_controls [OF assms(1-3) _ u(2) ev(1)] max u(1) by simp
  moreover from this ev(2) have "re_requirements ev \<noteq> []" by (simp add: controls_satisfied_def)
  ultimately show ?thesis
    using max u(1,3) ev(1) tierRank_le [OF tk(2) u(2)] by blast
qed

theorem elevated_tier_enforced_witness:
  "\<exists>g. buildProjectPolicyRuntimeGuard demo_hash demo_surroundings demo_project demo_sources demo_context = Some (Inr (Some g))
     \<and> (\<exists>b ev. evaluateRiskTier main_spec (JObj (cp_payload (gu_policy g))) (Some b) = Some ev
          \<and> tierRank ''policy_gated'' \<le> tierRank b \<and> controls_satisfied ev)"
proof -
  obtain g where g: "buildProjectPolicyRuntimeGuard demo_hash demo_surroundings demo_project demo_sources demo_context
      = Some (Inr (Some g))" "cp_payload (gu_policy g) = demo_payload" by (rule demo_guard)
  have "tiers_known (ec_spec demo_context) (ec_resolver demo_context)"
    by (simp add: tiers_known_def declares_known_def demo_resolver_def demo_tier_of known_tier_def RISK_TIER_ORDER_def)
  moreover have "known_tier (policy_floor (JObj (cp_payload (gu_policy g))))"
    by (simp add: g(2) policy_floor_def demo_payload_def)
  moreover have "declared_by (ec_spec demo_context) (ec_resolver demo_context) (ec_workflow demo_context) ''policy_gated''"
    by (simp add: declared_by_def demo_closure_of demo_resolver_def demo_tier_of)
  moreover have "''policy_gated'' \<in> set ELEVATED_RISK_TIERS" by (simp add: ELEVATED_RISK_TIERS_def)
  ultimately show ?thesis using elevated_tier_enforced [OF g(1)] g(1) by fastforce
qed

end
