(* ===== verification/Project_Agreement.thy ===== *)
theory Project_Agreement
  imports Project_Claims
begin

text \<open>
  The walk over the closure ends for every resolver that knows finitely many workflows, and with it every
  computation built on it; validation predicts the guard, and the posture that is shown is the one admission
  decides by.
\<close>

section \<open>Termination\<close>

text \<open>A resolver over the files of a project knows finitely many workflows.\<close>

definition knows_finitely :: "closure_resolver \<Rightarrow> bool" where
  "knows_finitely resolver \<longleftrightarrow> finite {w. \<exists>child. resolver w = Resolved child}"

lemma closure_finite:
  assumes "knows_finitely resolver"
  shows "finite (closure_of spec resolver parent)"
proof (rule finite_subset)
  let ?known = "{w. \<exists>child. resolver w = Resolved child}"
  let ?refs = "\<lambda>w. case resolver w of Resolved child \<Rightarrow> set (references_of child) | _ \<Rightarrow> {}"
  have "in_closure resolver parent (references_of spec) m \<Longrightarrow> m \<in> set (references_of spec) \<union> (\<Union>w\<in>?known. ?refs w)" for m
    by (induction rule: in_closure.induct) auto
  then show "closure_of spec resolver parent \<subseteq> set (references_of spec) \<union> (\<Union>w\<in>?known. ?refs w)"
    unfolding closure_of_def by blast
  show "finite (set (references_of spec) \<union> (\<Union>w\<in>?known. ?refs w))"
    using assms by (auto simp: knows_finitely_def split: resolution.splits)
qed

lemma tolerant_finitely: "knows_finitely resolver \<Longrightarrow> knows_finitely (tolerant resolver)"
  by (simp add: knows_finitely_def)

lemma walk_returns:
  assumes "knows_finitely resolver"
  shows "\<exists>r. walkSubworkflowClosure spec resolver parent = Some r"
  using closure_walked [OF closure_finite [OF assms, of spec parent]] by blast

text \<open>C35: The walk over the closure of a workflow ends whenever the resolver knows finitely many workflows, and
  then it has visited every member of the closure exactly once, with what the resolver answers for it; it
  throws only what the resolver throws for a member.\<close>

theorem closure_walk_total:
  assumes "knows_finitely resolver"
  shows "\<exists>r. walkSubworkflowClosure spec resolver parent = Some r
    \<and> (case r of
         Inl e \<Rightarrow> \<exists>m\<in>closure_of spec resolver parent. throws resolver m e
       | Inr members \<Rightarrow> distinct (map fst members)
           \<and> set members = (\<lambda>m. (m, answer_of resolver m)) ` closure_of spec resolver parent)"
proof -
  from closure_walked [OF closure_finite [OF assms, of spec parent]]
  obtain r where r: "walkSubworkflowClosure spec resolver parent = Some r"
    "walk_outcome resolver parent (references_of spec) r" by blast
  then show ?thesis
    by (cases r) (auto simp: walk_outcome_def closure_of_def image_def)
qed

theorem closure_walk_total_witness:
  "\<exists>members. walkSubworkflowClosure main_spec demo_resolver ''main'' = Some (Inr members)
     \<and> set members = {(''leaf'', answer_of demo_resolver ''leaf'')}"
proof -
  have "{w. \<exists>child. demo_resolver w = Resolved child} = {''leaf''}" by (auto simp: demo_resolver_def)
  then have "knows_finitely demo_resolver" by (simp add: knows_finitely_def)
  from closure_walk_total [OF this, of main_spec "''main''"] show ?thesis
    by (simp add: demo_walk demo_closure_of)
qed

lemma wbind_ends: "m = Some r \<Longrightarrow> (\<And>x. r = Inr x \<Longrightarrow> \<exists>y. f x = Some y) \<Longrightarrow> \<exists>y. wbind m f = Some y"
  by (cases r) (simp_all add: wbind_def)

lemma wreturn_ends: "\<exists>y. wreturn x = Some y"
  by (simp add: wreturn_def)

lemma rethrow_ends: "\<exists>y. m = Some y \<Longrightarrow> \<exists>y. rethrow f m = Some y"
  by (auto simp: rethrow_def split: sum.splits)

lemma binding_ends:
  assumes "\<And>resolve. resolver = Some resolve \<Longrightarrow> knows_finitely resolve"
  shows "\<exists>r. riskTierBindingCheck spec selected payload resolver parent = Some r"
proof -
  have "\<exists>r. maxDeclaredClosureRiskTier spec resolver parent = Some r"
  proof (cases resolver)
    case (Some resolve)
    from walk_returns [OF tolerant_finitely [OF assms [OF Some]], of spec parent] show ?thesis
      by (auto simp: maxDeclaredClosureRiskTier_def Some intro: wbind_ends wreturn_ends)
  qed (simp add: maxDeclaredClosureRiskTier_def wreturn_def)
  then show ?thesis
    unfolding riskTierBindingCheck_def by (auto intro: wbind_ends wreturn_ends)
qed

lemma closure_check_ends:
  assumes "\<And>resolve. resolver = Some resolve \<Longrightarrow> knows_finitely resolve"
  shows "\<exists>r. validateSubworkflowClosurePolicy su spec policy resolver parent = Some r"
proof (cases resolver)
  case (Some resolve)
  from walk_returns [OF assms [OF Some], of spec parent] show ?thesis
    by (auto simp: validateSubworkflowClosurePolicy_def Some intro: wbind_ends wreturn_ends)
qed (simp add: validateSubworkflowClosurePolicy_def wreturn_def)

lemma bound_checks_end:
  assumes "\<And>resolve. ec_resolver ctx = Some resolve \<Longrightarrow> knows_finitely resolve"
  shows "\<exists>r. bound_checks su ctx selected policy = Some r"
proof -
  obtain b where b: "riskTierBindingCheck (ec_spec ctx) selected (JObj (cp_payload policy)) (ec_resolver ctx)
      (ec_workflow ctx) = Some b" using binding_ends [OF assms] by blast
  obtain c where c: "validateSubworkflowClosurePolicy su (ec_spec ctx) policy (ec_resolver ctx) (ec_workflow ctx) = Some c"
    using closure_check_ends [OF assms] by blast
  show ?thesis
    unfolding bound_checks_def by (intro wbind_ends [OF b] wbind_ends [OF c] wreturn_ends)
qed

lemma guard_ends:
  assumes "\<And>resolve. ec_resolver ctx = Some resolve \<Longrightarrow> knows_finitely resolve"
  shows "\<exists>r. buildProjectPolicyRuntimeGuard sha su project sources ctx = Some r"
proof (cases "selected_for project ctx = []")
  case True
  obtain b where b: "rethrow Guard_resolver (riskTierBindingCheck (ec_spec ctx) [] JNull (ec_resolver ctx) (ec_workflow ctx)) = Some b"
    using rethrow_ends [OF binding_ends [OF assms]] by blast
  from True show ?thesis
    by (simp add: buildProjectPolicyRuntimeGuard_def) (intro wbind_ends [OF b], simp add: wreturn_def)
next
  case False
  show ?thesis
  proof (cases "composeProjectPolicyIds sha project sources (selected_for project ctx)")
    case (Inr policy)
    obtain c where c: "rethrow Guard_resolver (bound_checks su ctx (selected_for project ctx) policy) = Some c"
      using rethrow_ends [OF bound_checks_end [OF assms]] by blast
    from False Inr show ?thesis
      by (simp add: buildProjectPolicyRuntimeGuard_def Let_def) (intro wbind_ends [OF c], simp add: wreturn_def)
  qed (use False in \<open>simp add: buildProjectPolicyRuntimeGuard_def Let_def\<close>)
qed

lemma validation_ends:
  assumes "\<And>resolve. ec_resolver ctx = Some resolve \<Longrightarrow> knows_finitely resolve"
  shows "\<exists>r. validateWorkflowPolicyCompliance sha su project sources ctx = Some r"
proof (cases "selected_for project ctx = []")
  case True
  obtain b where b: "riskTierBindingCheck (ec_spec ctx) [] JNull (ec_resolver ctx) (ec_workflow ctx) = Some b"
    using binding_ends [OF assms] by blast
  have "\<exists>s. softenedUnboundBindingCheck project ctx = Some s"
    unfolding softenedUnboundBindingCheck_def Let_def by (intro wbind_ends [OF b] wreturn_ends)
  then obtain s where s: "softenedUnboundBindingCheck project ctx = Some s" by blast
  from True show ?thesis
    by (simp add: validateWorkflowPolicyCompliance_def) (intro wbind_ends [OF s] wreturn_ends)
next
  case False
  then show ?thesis
    using bound_checks_end [OF assms]
    by (simp add: validateWorkflowPolicyCompliance_def Let_def wreturn_def split: sum.split)
qed

text \<open>Building the guard of a workflow and validating it always come to an answer when the resolver knows
  finitely many workflows, whatever the references between them, cycles included.\<close>

theorem enforcement_ends:
  assumes "\<And>resolve. ec_resolver ctx = Some resolve \<Longrightarrow> knows_finitely resolve"
  shows "buildProjectPolicyRuntimeGuard sha su project sources ctx \<noteq> None
    \<and> validateWorkflowPolicyCompliance sha su project sources ctx \<noteq> None"
  unfolding not_None_eq by (intro conjI guard_ends validation_ends assms)

text \<open>A workflow that refers to itself through a second one.\<close>

definition looping_resolver :: closure_resolver where
  "looping_resolver w = (if w \<in> {''main'', ''leaf''} then Resolved main_spec else Unresolved)"

theorem enforcement_ends_witness:
  "buildProjectPolicyRuntimeGuard demo_hash demo_surroundings demo_project demo_sources
     (demo_context\<lparr>ec_resolver := Some looping_resolver\<rparr>) \<noteq> None"
proof -
  have "{w. \<exists>child. looping_resolver w = Resolved child} = {''main'', ''leaf''}" by (auto simp: looping_resolver_def)
  then have "knows_finitely looping_resolver" by (simp add: knows_finitely_def)
  then show ?thesis by (intro enforcement_ends [THEN conjunct1]) simp
qed

section \<open>Validation and guard\<close>

text \<open>C34: Validation predicts the guard: a run can start, with a guard or without one, exactly if the report of the
  validation has no failed check and no tier that is bound in other environments only.\<close>

theorem validation_predicts_guard:
  "(\<exists>g. buildProjectPolicyRuntimeGuard sha su project sources ctx = Some (Inr g)) \<longleftrightarrow>
   (\<exists>checks. validateWorkflowPolicyCompliance sha su project sources ctx = Some (Inr checks)
      \<and> \<not> list_ex check_failed checks \<and> \<not> list_ex (\<lambda>c. \<exists>es. c = Binding_elsewhere es) checks)"
proof (cases "selected_for project ctx = []")
  case True
  let ?check = "riskTierBindingCheck (ec_spec ctx) [] JNull (ec_resolver ctx) (ec_workflow ctx)"
  note unfold = buildProjectPolicyRuntimeGuard_def validateWorkflowPolicyCompliance_def Let_def
    softenedUnboundBindingCheck_def wbind_def rethrow_def wreturn_def
  consider "?check = None" | e where "?check = Some (Inl e)" | failure where "?check = Some (Inr failure)"
    by (metis not_None_eq sum.exhaust)
  then show ?thesis
    by cases (auto simp: unfold True)
next
  case False
  have "\<not> list_ex (\<lambda>c. \<exists>es. c = Binding_elsewhere es) checks"
    if "bound_checks su ctx (selected_for project ctx) policy = Some (Inr checks)" for policy checks
    using that by (auto simp: bound_checks_def result_simps list_ex_iff split: option.splits)
  then show ?thesis
    using False
    by (cases "composeProjectPolicyIds sha project sources (selected_for project ctx)")
      (auto simp: buildProjectPolicyRuntimeGuard_def validateWorkflowPolicyCompliance_def Let_def result_simps
        list_ex_iff filter_empty_conv)
qed

section \<open>Posture and admission\<close>

lemma tally_tiers:
  assumes "distinct (map fst members)" and "parent \<notin> fst ` set members"
  shows "foldl (\<lambda>tiers (ref, child). case child of None \<Rightarrow> tiers | Some c \<Rightarrow> set_tier ref (evaluateRiskTier c payload None) tiers)
      (set_tier parent own []) members = set_tier parent own [] @ concat (map (member_tiers payload) members)"
  using assms
proof (induction members rule: rev_induct)
  case (snoc m members)
  obtain ref child where m: "m = (ref, child)" by (cases m)
  from snoc.prems m have "ref \<noteq> parent" "ref \<notin> fst ` set members" by auto
  from set_tier_fresh [OF tiers_fresh [OF this]] snoc show ?case by (cases child) (simp_all add: m member_simps)
qed simp

text \<open>The posture that is shown is the one admission decides by: when the closure check has run, the cascade
  of the posture is the cascade in the details of the check.\<close>

theorem posture_is_admitted:
  assumes "validateSubworkflowClosurePolicy su spec policy (Some resolve) parent = Some (Inr (Some (failures, details)))"
    and "evaluateRiskTier spec (JObj (cp_payload policy)) None = Some base"
  shows "evaluateWorkflowRiskTier spec policy (Some resolve) parent =
    Some (Inr (Some \<lparr>rp_base = base, rp_cascade = cd_cascade details\<rparr>))"
proof -
  let ?payload = "JObj (cp_payload policy)"
  from assms(1) obtain members where w: "walkSubworkflowClosure spec resolve parent = Some (Inr members)"
    and v: "closure_verdict spec policy parent (tally_of su spec policy parent members) = (failures, details)"
    by (auto simp: validateSubworkflowClosurePolicy_def result_simps tally_of_def split: if_splits)
  note fresh = walked_fresh [OF w]
  have "cd_cascade details = riskTierCascade parent base
      (set_tier parent (evaluateRiskTier spec ?payload None) [] @ concat (map (member_tiers ?payload) members)) spec ?payload"
    using v assms(2) by (auto simp: closure_verdict_def Let_def tally_contents [OF fresh])
  then show ?thesis
    using assms(2) tally_tiers [OF fresh]
    by (simp add: evaluateWorkflowRiskTier_def closureMemberEffectiveTiers_def walkSubworkflowClosure_tolerant [OF w]
        wbind_def wreturn_def Let_def)
qed

theorem posture_is_admitted_witness:
  "\<exists>c (details :: closure_details). cp_payload c = demo_payload
     \<and> evaluateWorkflowRiskTier main_spec c (Some demo_resolver) ''main'' =
         Some (Inr (Some \<lparr>rp_base = the (evaluateRiskTier main_spec (JObj demo_payload) None), rp_cascade = cd_cascade details\<rparr>))"
proof -
  obtain c where "composeProjectPolicyIds demo_hash demo_project demo_sources [''team''] = Inr c"
    and c: "cp_payload c = demo_payload" by (rule demo_policy)
  obtain d where d: "validateSubworkflowClosurePolicy demo_surroundings main_spec c (Some demo_resolver) ''main'' = Some (Inr (Some ([], d)))"
    using demo_closure_check [OF c] by blast
  have "evaluateWorkflowRiskTier main_spec c (Some demo_resolver) ''main'' =
      Some (Inr (Some \<lparr>rp_base = the (evaluateRiskTier main_spec (JObj demo_payload) None), rp_cascade = cd_cascade d\<rparr>))"
    by (rule posture_is_admitted [OF d]) (simp add: c main_risk)
  with c show ?thesis by blast
qed

end
