(* ===== verification/Subjects.thy ===== *)
theory Subjects
  imports Artifacts
begin

text \<open>
  Subject identities (\<open>packages/typescript/yaml/src/subjects.ts\<close>): extraction of subject ids from a
  workflow input by selectors, the explicit override, trace tags and the visibility query, with what
  a start may rely on.
\<close>

text \<open>\<open>s.startsWith(p)\<close>\<close>

definition starts_with :: "'a list \<Rightarrow> 'a list \<Rightarrow> bool" where
  "starts_with p s \<longleftrightarrow> take (length p) s = p"

section \<open>Extraction\<close>

definition SUBJECT_IDS_SEARCH_ATTRIBUTE :: string where
  "SUBJECT_IDS_SEARCH_ATTRIBUTE = ''TypefluxSubjectIds''"

record subject_input =
  si_fromPath :: string
  si_required :: bool

datatype subject_error =
    Not_text_or_list string
  | Blank_selected string jv
  | Subject_missing string
  | Blank_subject string

text \<open>\<open>None\<close> is \<open>undefined\<close>; a null on the way, or at its end, is read as undefined.\<close>

fun value_along :: "string list \<Rightarrow> jv \<Rightarrow> jv option" where
  "value_along [] current = Some current"
| "value_along (part # parts) current =
     (if current = JNull \<or> js_typeof current \<noteq> T_object then None
      else case own_prop current part of
             None \<Rightarrow> None
           | Some v \<Rightarrow> if v = JNull then None else value_along parts v)"

definition valueAtPath :: "jv \<Rightarrow> string \<Rightarrow> jv option" where
  "valueAtPath inp path = value_along (tl (split_dots path)) inp"

definition blank :: "string \<Rightarrow> bool" where
  "blank s \<longleftrightarrow> trim s = []"

definition coerce_one :: "string \<Rightarrow> jv \<Rightarrow> (subject_error, string) result" where
  "coerce_one fromPath v =
     (case v of JStr s \<Rightarrow> if blank s then Inl (Blank_selected fromPath v) else Inr s
              | _ \<Rightarrow> Inl (Blank_selected fromPath v))"

definition coerceSubjectValues :: "jv \<Rightarrow> string \<Rightarrow> (subject_error, string list) result" where
  "coerceSubjectValues raw fromPath =
     (case raw of
        JStr s \<Rightarrow> traverse (coerce_one fromPath) [raw]
      | JArr vs \<Rightarrow> traverse (coerce_one fromPath) vs
      | _ \<Rightarrow> Inl (Not_text_or_list fromPath))"

text \<open>The values not seen before, appended in order.\<close>

definition add_unseen :: "string list \<Rightarrow> string list \<Rightarrow> string list" where
  "add_unseen vals resolved = fold (\<lambda>v acc. if v \<in> set acc then acc else acc @ [v]) vals resolved"

definition selected_values :: "jv \<Rightarrow> subject_input \<Rightarrow> (subject_error, string list) result" where
  "selected_values inp s =
     (case valueAtPath inp (si_fromPath s) of
        None \<Rightarrow> Inr []
      | Some raw \<Rightarrow> if raw = JNull then Inr [] else coerceSubjectValues raw (si_fromPath s))"

fun resolve_from :: "jv \<Rightarrow> subject_input list \<Rightarrow> string list \<Rightarrow> (subject_error, string list) result" where
  "resolve_from inp [] resolved = Inr resolved"
| "resolve_from inp (s # ss) resolved =
     rbind (selected_values inp s) (\<lambda>vals.
       if vals = [] then
         (if si_required s then Inl (Subject_missing (si_fromPath s)) else resolve_from inp ss resolved)
       else resolve_from inp ss (add_unseen vals resolved))"

definition resolveSubjectIds :: "jv \<Rightarrow> subject_input list \<Rightarrow> (subject_error, string list) result" where
  "resolveSubjectIds inp subjectInputs = resolve_from inp subjectInputs []"

definition normalizeSubjectIds :: "string list \<Rightarrow> (subject_error, string list) result" where
  "normalizeSubjectIds subjectIds =
     rbind (each (\<lambda>v. require (\<not> blank v) (Blank_subject v)) subjectIds) (\<lambda>_.
     Inr (add_unseen subjectIds []))"

definition effectiveSubjectIds ::
    "string list option \<Rightarrow> jv \<Rightarrow> subject_input list \<Rightarrow> (subject_error, string list) result" where
  "effectiveSubjectIds explicit inp selectors =
     (case explicit of
        Some ids \<Rightarrow> if ids \<noteq> [] then normalizeSubjectIds ids else resolveSubjectIds inp selectors
      | None \<Rightarrow> resolveSubjectIds inp selectors)"

definition subjectUserId :: "string list \<Rightarrow> string option" where
  "subjectUserId subjectIds = (case subjectIds of [] \<Rightarrow> None | i # _ \<Rightarrow> Some i)"

definition SUBJECT_TAG_PREFIX :: string where
  "SUBJECT_TAG_PREFIX = ''typeflux.subject:''"

definition subjectTraceTags :: "string list \<Rightarrow> string list" where
  "subjectTraceTags subjectIds = map (\<lambda>i. SUBJECT_TAG_PREFIX @ i) subjectIds"

definition double_quotes :: "string \<Rightarrow> string" where
  "double_quotes s = concat (map (\<lambda>c. if c = CHR 39 then [CHR 39, CHR 39] else [c]) s)"

definition subjectIndexQuery :: "string \<Rightarrow> string" where
  "subjectIndexQuery subjectId =
     SUBJECT_IDS_SEARCH_ATTRIBUTE @ '' = '' @ [CHR 39] @ double_quotes subjectId @ [CHR 39]"

section \<open>What extraction returns\<close>

lemma add_unseen_spec:
  "distinct resolved \<Longrightarrow> distinct (add_unseen vals resolved) \<and>
     set (add_unseen vals resolved) = set resolved \<union> set vals"
  unfolding add_unseen_def by (induction vals arbitrary: resolved) auto

lemma add_unseen_prefix: "\<exists>more. add_unseen vals resolved = resolved @ more"
  unfolding add_unseen_def by (induction vals arbitrary: resolved) (auto, metis append_assoc)

lemma coerced_not_blank: "coerceSubjectValues raw p = Inr vs \<Longrightarrow> v \<in> set vs \<Longrightarrow> \<not> blank v"
proof -
  have "list_all2 (\<lambda>x y. coerce_one p x = Inr y) xs ys \<Longrightarrow> y \<in> set ys \<Longrightarrow> \<not> blank y" for xs ys y
    by (induction rule: list_all2_induct) (auto simp: coerce_one_def split: jv.splits if_splits)
  then show "coerceSubjectValues raw p = Inr vs \<Longrightarrow> v \<in> set vs \<Longrightarrow> \<not> blank v"
    by (auto simp: coerceSubjectValues_def result_simps coerce_one_def split: jv.splits if_splits)
qed

lemma selected_not_blank: "selected_values inp s = Inr vs \<Longrightarrow> v \<in> set vs \<Longrightarrow> \<not> blank v"
  by (auto simp: selected_values_def coerced_not_blank split: option.splits if_splits)

definition proper_ids :: "string list \<Rightarrow> bool" where
  "proper_ids ids \<longleftrightarrow> distinct ids \<and> (\<forall>i\<in>set ids. \<not> blank i)"

lemma resolve_from_spec:
  "resolve_from inp ss resolved = Inr ids \<Longrightarrow> proper_ids resolved \<Longrightarrow>
     proper_ids ids \<and> set resolved \<subseteq> set ids
     \<and> (\<forall>s\<in>set ss. \<exists>vs. selected_values inp s = Inr vs \<and> set vs \<subseteq> set ids \<and> (si_required s \<longrightarrow> vs \<noteq> []))"
proof (induction ss arbitrary: resolved)
  case (Cons s ss)
  from Cons.prems(1) obtain vs where vs: "selected_values inp s = Inr vs"
    and req: "si_required s \<longrightarrow> vs \<noteq> []"
    and rest: "resolve_from inp ss (add_unseen vs resolved) = Inr ids"
    by (auto simp: result_simps add_unseen_def split: if_splits)
  have "proper_ids (add_unseen vs resolved) \<and> set vs \<union> set resolved \<subseteq> set (add_unseen vs resolved)"
    using add_unseen_spec [of resolved vs] Cons.prems(2) selected_not_blank [OF vs]
    by (auto simp: proper_ids_def)
  with Cons.IH [OF rest] vs req show ?case by auto
qed simp

lemma normalize_spec:
  "normalizeSubjectIds xs = Inr ids \<Longrightarrow> proper_ids ids \<and> set ids = set xs"
  using add_unseen_spec [of "[]" xs]
  by (auto simp: normalizeSubjectIds_def result_simps proper_ids_def)

lemma normalize_proper: "proper_ids ids \<Longrightarrow> normalizeSubjectIds ids = Inr ids"
proof -
  have "distinct (acc @ ids) \<Longrightarrow> add_unseen ids acc = acc @ ids" for acc
    unfolding add_unseen_def by (induction ids arbitrary: acc) auto
  from this [of "[]"] show "proper_ids ids \<Longrightarrow> normalizeSubjectIds ids = Inr ids"
    by (auto simp: normalizeSubjectIds_def result_simps proper_ids_def rbind_eq_Inr)
qed


definition demo_selectors :: "subject_input list" where
  "demo_selectors = [\<lparr>si_fromPath = ''input.user'', si_required = True\<rparr>,
     \<lparr>si_fromPath = ''input.kin'', si_required = False\<rparr>]"

definition demo_subject_input :: jv where
  "demo_subject_input = JObj [(''user'', JStr ''ann''), (''kin'', JArr [JStr ''bob'', JStr ''ann''])]"


section \<open>The query names one subject\<close>

text \<open>Reading a quoted literal: a doubled quote is a quote, a single one ends the literal.\<close>

fun read_literal :: "string \<Rightarrow> string \<times> string" where
  "read_literal [] = ([], [])"
| "read_literal [c] = (if c = CHR 39 then ([], []) else ([c], []))"
| "read_literal (c # d # s) =
     (if c = CHR 39 then
        (if d = CHR 39 then (let (t, rest) = read_literal s in (CHR 39 # t, rest)) else ([], d # s))
      else (let (t, rest) = read_literal (d # s) in (c # t, rest)))"

lemma read_literal_double: "read_literal (double_quotes s @ [CHR 39]) = (s, [])"
proof (induction s)
  case (Cons c s)
  show ?case
  proof (cases "c = CHR 39")
    case False
    obtain d t where "double_quotes s @ [CHR 39] = d # t" by (cases "double_quotes s @ [CHR 39]") auto
    with False Cons show ?thesis by (simp add: double_quotes_def)
  qed (use Cons in \<open>simp add: double_quotes_def\<close>)
qed (simp add: double_quotes_def)

text \<open>Whatever the id contains, the query is one comparison with exactly that id.\<close>

theorem query_names_subject:
  "\<exists>literal. subjectIndexQuery i = ''TypefluxSubjectIds = '' @ [CHR 39] @ literal \<and> read_literal literal = (i, [])"
  by (auto simp: subjectIndexQuery_def SUBJECT_IDS_SEARCH_ATTRIBUTE_def read_literal_double)

end
