(* ===== verification/Payload_Codec.thy ===== *)
theory Payload_Codec
  imports Payload_Limit Subjects "HOL-Library.Word" "HOL-Library.AList"
begin

text \<open>
  The payload codec (\<open>packages/typescript/temporal-yaml/src/payload-codec.ts\<close>): sealing and opening of
  payload bytes, the codec with shared keys, and its construction from the spec. AES-256-GCM, SHA-256 and
  the protobuf encoding of a payload are parameters (record \<open>codec_library\<close>), and so are the nonces.
  Before it, texts and bytes as Node's \<open>Buffer\<close> converts them: \<open>Buffer.from(text, "utf8")\<close>,
  \<open>toString("utf8")\<close> with its replacement characters, and both directions of \<open>"base64url"\<close>. A text read back
  from bytes is the list of its code points, since it may hold characters beyond the strings of \<open>Json\<close>.
\<close>

section \<open>Bytes\<close>

type_synonym bytes = "8 word list"
type_synonym wide = "nat list"

definition byte :: "nat \<Rightarrow> 8 word" where
  "byte n = word_of_nat n"

lemma unat_byte [simp]: "n < 256 \<Longrightarrow> unat (byte n) = n"
  by (simp add: byte_def unat_of_nat)

lemma byte_unat [simp]: "byte (unat b) = b"
  by (simp add: byte_def)

lemma unat_8 [simp]: "unat (b :: 8 word) < 256"
  using unsigned_less [of b] by simp

section \<open>UTF-8\<close>

definition wide_bytes :: "wide \<Rightarrow> bytes" where
  "wide_bytes w = map byte (concat (map utf8 w))"

definition utf8_bytes :: "string \<Rightarrow> bytes" where
  "utf8_bytes s = wide_bytes (units_of s)"

text \<open>
  The decoder of the Encoding Standard: the code point read so far, the bytes still needed, and the range
  the next byte must be in. A byte out of range ends the sequence with U+FFFD and starts the next one.
\<close>

record utf8_state =
  us_point :: nat
  us_needed :: nat
  us_lower :: nat
  us_upper :: nat

definition utf8_idle :: utf8_state where
  "utf8_idle = \<lparr>us_point = 0, us_needed = 0, us_lower = 0x80, us_upper = 0xBF\<rparr>"

definition utf8_lead :: "nat \<Rightarrow> wide \<times> utf8_state" where
  "utf8_lead b =
     (if b \<le> 0x7F then ([b], utf8_idle)
      else if 0xC2 \<le> b \<and> b \<le> 0xDF then ([], utf8_idle\<lparr>us_point := b mod 0x20, us_needed := 1\<rparr>)
      else if 0xE0 \<le> b \<and> b \<le> 0xEF then
        ([], \<lparr>us_point = b mod 0x10, us_needed = 2, us_lower = (if b = 0xE0 then 0xA0 else 0x80),
              us_upper = (if b = 0xED then 0x9F else 0xBF)\<rparr>)
      else if 0xF0 \<le> b \<and> b \<le> 0xF4 then
        ([], \<lparr>us_point = b mod 0x08, us_needed = 3, us_lower = (if b = 0xF0 then 0x90 else 0x80),
              us_upper = (if b = 0xF4 then 0x8F else 0xBF)\<rparr>)
      else ([0xFFFD], utf8_idle))"

definition utf8_step :: "utf8_state \<Rightarrow> nat \<Rightarrow> wide \<times> utf8_state" where
  "utf8_step s b =
     (if us_needed s = 0 then utf8_lead b
      else if us_lower s \<le> b \<and> b \<le> us_upper s then
        (let point = us_point s * 0x40 + b mod 0x40
         in if us_needed s = 1 then ([point], utf8_idle)
            else ([], \<lparr>us_point = point, us_needed = us_needed s - 1, us_lower = 0x80, us_upper = 0xBF\<rparr>))
      else (let (out, s') = utf8_lead b in (0xFFFD # out, s')))"

fun utf8_read :: "utf8_state \<Rightarrow> nat list \<Rightarrow> wide" where
  "utf8_read s [] = (if us_needed s = 0 then [] else [0xFFFD])"
| "utf8_read s (b # bs) = (let (out, s') = utf8_step s b in out @ utf8_read s' bs)"

definition utf8_text :: "bytes \<Rightarrow> wide" where
  "utf8_text bs = utf8_read utf8_idle (map unat bs)"

text \<open>A text read from bytes as a string of the model, if it is one.\<close>

definition narrow :: "wide \<Rightarrow> string option" where
  "narrow w = (if \<forall>c\<in>set w. c < 256 then Some (map char_of w) else None)"

lemma narrow_units [simp]: "narrow (units_of s) = Some s"
  by (auto simp: narrow_def units_of_def comp_def)

lemma units_of_inj [simp]: "units_of s = units_of t \<longleftrightarrow> s = t"
  by (metis narrow_units option.inject)

lemma units_of_append [simp]: "units_of (s @ t) = units_of s @ units_of t"
  by (simp add: units_of_def)

lemma utf8_read_char:
  "c < 256 \<Longrightarrow> utf8_read utf8_idle (utf8 c @ bs) = c # utf8_read utf8_idle bs"
proof (cases "c < 0x80")
  case True
  then show ?thesis by (simp add: utf8_def utf8_step_def utf8_lead_def utf8_idle_def)
next
  case False
  assume "c < 256"
  with False have "c div 0x40 = 2 \<or> c div 0x40 = 3" by auto
  moreover have "c mod 0x40 \<le> 0x3F" using mod_less_divisor [of "0x40" c] by linarith
  moreover have "(0x80 + c mod 0x40) mod 0x40 = c mod 0x40" by (simp add: mod_add_eq [symmetric])
  moreover have "c = 0x40 * (c div 0x40) + c mod 0x40" by simp
  ultimately show ?thesis using False \<open>c < 256\<close>
    by (elim disjE) (simp_all add: utf8_def utf8_step_def utf8_lead_def utf8_idle_def Let_def)
qed

lemma utf8_small: "c < 256 \<Longrightarrow> b \<in> set (utf8 c) \<Longrightarrow> b < 256"
  by (auto simp: utf8_def split: if_splits)

text \<open>Writing a string of the model and reading it back.\<close>

lemma utf8_text_wide: "\<forall>c\<in>set w. c < 256 \<Longrightarrow> utf8_text (wide_bytes w) = w"
proof -
  assume small: "\<forall>c\<in>set w. c < 256"
  then have "map (unat \<circ> byte) (concat (map utf8 w)) = concat (map utf8 w)"
    by (intro map_idI) (auto dest!: utf8_small [rotated])
  moreover have "utf8_read utf8_idle (concat (map utf8 w)) = w"
    using small by (induction w) (simp_all add: utf8_read_char, simp add: utf8_idle_def)
  ultimately show "utf8_text (wide_bytes w) = w"
    by (simp add: utf8_text_def wide_bytes_def)
qed

lemma units_of_small: "c \<in> set (units_of s) \<Longrightarrow> c < 256"
  by (auto simp: units_of_def)

lemma utf8_text_bytes [simp]: "utf8_text (utf8_bytes s) = units_of s"
  by (simp add: utf8_bytes_def utf8_text_wide units_of_small)

section \<open>Base64url\<close>

definition b64_char :: "nat \<Rightarrow> nat" where
  "b64_char n = (if n < 26 then 65 + n else if n < 52 then 71 + n else if n < 62 then n - 4
     else if n = 62 then 45 else 95)"

text \<open>The decoder reads both alphabets, with \<open>+\<close> and \<open>/\<close> or with \<open>-\<close> and \<open>_\<close>.\<close>

definition b64_val :: "nat \<Rightarrow> nat option" where
  "b64_val c =
     (if 65 \<le> c \<and> c \<le> 90 then Some (c - 65)
      else if 97 \<le> c \<and> c \<le> 122 then Some (c - 71)
      else if 48 \<le> c \<and> c \<le> 57 then Some (c + 4)
      else if c = 45 \<or> c = 43 then Some 62
      else if c = 95 \<or> c = 47 then Some 63
      else None)"

lemma b64_val_char [simp]: "n < 64 \<Longrightarrow> b64_val (b64_char n) = Some n"
  by (auto simp: b64_val_def b64_char_def)

fun sextets :: "nat list \<Rightarrow> nat list" where
  "sextets [] = []"
| "sextets [a] = [a div 4, a mod 4 * 16]"
| "sextets [a, b] = [a div 4, a mod 4 * 16 + b div 16, b mod 16 * 4]"
| "sextets (a # b # c # bs) =
     a div 4 # (a mod 4 * 16 + b div 16) # (b mod 16 * 4 + c div 64) # c mod 64 # sextets bs"

fun unsextets :: "nat list \<Rightarrow> nat list" where
  "unsextets (p # q # r # s # ns) =
     (p * 4 + q div 16) # (q mod 16 * 16 + r div 4) # (r mod 4 * 64 + s) # unsextets ns"
| "unsextets [p, q, r] = [p * 4 + q div 16, q mod 16 * 16 + r div 4]"
| "unsextets [p, q] = [p * 4 + q div 16]"
| "unsextets _ = []"

definition b64url :: "bytes \<Rightarrow> wide" where
  "b64url bs = map b64_char (sextets (map unat bs))"

text \<open>Reading stops at the padding and passes over characters of neither alphabet.\<close>

definition unb64url :: "wide \<Rightarrow> bytes" where
  "unb64url w = map byte (unsextets (List.map_filter b64_val (takeWhile (\<lambda>c. c \<noteq> 61) w)))"

lemma sextets_small: "\<forall>b\<in>set bs. b < 256 \<Longrightarrow> n \<in> set (sextets bs) \<Longrightarrow> n < 64"
  by (induction bs rule: sextets.induct) auto

lemma split_digit: "y < m \<Longrightarrow> (x * m + y) div m = x" "y < m \<Longrightarrow> (x * m + y) mod m = (y :: nat)"
  by simp_all

lemma join_high: "b < 256 \<Longrightarrow> a div 4 * 4 + (a mod 4 * 16 + b div 16) div 16 = (a :: nat)"
  by (simp add: split_digit less_mult_imp_div_less)

lemma join_mid: "b < 256 \<Longrightarrow> c < 256 \<Longrightarrow>
    (a mod 4 * 16 + b div 16) mod 16 * 16 + (b mod 16 * 4 + c div 64) div 4 = (b :: nat)"
  by (simp add: split_digit less_mult_imp_div_less)

lemma join_low: "c < 256 \<Longrightarrow> (b mod 16 * 4 + c div 64) mod 4 * 64 + c mod 64 = (c :: nat)"
  by (simp add: split_digit less_mult_imp_div_less)

lemma unsextets_sextets: "\<forall>b\<in>set bs. b < 256 \<Longrightarrow> unsextets (sextets bs) = bs"
proof (induction bs rule: sextets.induct)
  case (4 a b c bs)
  then have "b < 256" "c < 256" by simp_all
  with 4 show ?case by (auto simp: join_high join_mid join_low)
qed (auto simp: join_high join_mid)

lemma b64_char_neq: "n < 64 \<Longrightarrow> b64_char n \<noteq> 61 \<and> b64_char n \<noteq> 44 \<and> b64_char n < 128"
  by (auto simp: b64_char_def)

lemma b64url_chars: "c \<in> set (b64url bs) \<Longrightarrow> c \<noteq> 61 \<and> c \<noteq> 44 \<and> c < 128"
  by (auto simp: b64url_def dest!: sextets_small [rotated] intro!: b64_char_neq)

lemma unb64url_b64url [simp]: "unb64url (b64url bs) = bs"
proof -
  let ?ns = "sextets (map unat bs)"
  have small: "n < 64" if "n \<in> set ?ns" for n using that by (auto dest!: sextets_small [rotated])
  then have kept: "takeWhile (\<lambda>c. c \<noteq> 61) (map b64_char ?ns) = map b64_char ?ns"
    by (subst takeWhile_eq_all_conv) (auto simp: b64_char_neq)
  have vals: "List.map_filter b64_val (map b64_char ns) = ns" if "\<forall>n\<in>set ns. n < 64" for ns
    using that by (induction ns) (auto simp: List.map_filter_simps)
  have "unsextets ?ns = map unat bs" by (rule unsextets_sextets) simp
  then have "unsextets (List.map_filter b64_val (takeWhile (\<lambda>c. c \<noteq> 61) (map b64_char ?ns))) = map unat bs"
    unfolding kept using vals [of ?ns] small by simp
  then show ?thesis by (simp add: unb64url_def b64url_def comp_def)
qed

lemma b64url_inj [simp]: "b64url a = b64url b \<longleftrightarrow> a = b"
  by (metis unb64url_b64url)

lemma b64url_Nil [simp]: "b64url bs = [] \<longleftrightarrow> bs = []"
  by (metis unb64url_b64url b64url_def list.map_disc_iff sextets.simps(1))

section \<open>Payloads and the library\<close>

record payload =
  pl_metadata :: "string \<rightharpoonup> bytes"
  pl_data :: "bytes option"

text \<open>\<open>aes_seal key nonce plaintext\<close> is the ciphertext and the tag; \<open>aes_open key nonce ciphertext tag\<close> is
  \<open>None\<close> when \<open>final()\<close> throws.\<close>

record codec_library =
  aes_seal :: "bytes \<Rightarrow> bytes \<Rightarrow> bytes \<Rightarrow> bytes \<times> bytes"
  aes_open :: "bytes \<Rightarrow> bytes \<Rightarrow> bytes \<Rightarrow> bytes \<Rightarrow> bytes option"
  sha256_bytes :: "bytes \<Rightarrow> bytes"
  proto_encode :: "payload \<Rightarrow> bytes"
  proto_decode :: "bytes \<Rightarrow> payload option"

datatype codec_error =
    Key_not_32
  | Nonce_not_12
  | Data_too_short
  | Not_authentic
  | Malformed_payload
  | Current_key_missing
  | Reserved_key_id string
  | Key_bytes_wrong string nat
  | No_key_id
  | Unknown_key_id wide
  | Secret_unset string
  | Secret_empty string
  | Secret_file_missing string
  | Secret_file_empty string
  | Secret_source_missing string
  | Empty_subject
  | Key_shredded string
  | Key_unknown wide
  | No_subjects
  | Not_subject_kid wide
  | Bad_segment wide
  | No_record_keys
  | Record_key_wrong nat
  | Binding_unresolved string
  | Describe_failed string
  | Binding_empty
  | Subject_ids_invalid subject_error
  | No_context
  | Keystore_required

definition ENCRYPTED_ENCODING :: string where "ENCRYPTED_ENCODING = ''binary/encrypted''"
definition KEY_ID_METADATA_KEY :: string where "KEY_ID_METADATA_KEY = ''typeflux-key-id''"
definition NONCE_LEN :: nat where "NONCE_LEN = 12"
definition TAG_LEN :: nat where "TAG_LEN = 16"
definition KEY_LEN :: nat where "KEY_LEN = 32"
definition RESERVED_KID_PREFIX :: string where "RESERVED_KID_PREFIX = ''tfsubj1:''"

lemmas wire_constants = ENCRYPTED_ENCODING_def KEY_ID_METADATA_KEY_def NONCE_LEN_def TAG_LEN_def
  KEY_LEN_def RESERVED_KID_PREFIX_def

section \<open>Sealing and opening\<close>

definition sealPayloadBytes ::
    "codec_library \<Rightarrow> bytes \<Rightarrow> wide \<Rightarrow> bytes \<Rightarrow> bytes \<Rightarrow> (codec_error, payload) result" where
  "sealPayloadBytes lib key kid nonce plaintext =
     rbind (require (length key = KEY_LEN) Key_not_32) (\<lambda>_.
     rbind (require (length nonce = NONCE_LEN) Nonce_not_12) (\<lambda>_.
     (let (ciphertext, tag) = aes_seal lib key nonce plaintext
      in Inr \<lparr>pl_metadata = [''encoding'' \<mapsto> utf8_bytes ENCRYPTED_ENCODING,
                             KEY_ID_METADATA_KEY \<mapsto> wide_bytes kid],
              pl_data = Some (nonce @ ciphertext @ tag)\<rparr>)))"

definition openPayloadBytes :: "codec_library \<Rightarrow> bytes \<Rightarrow> bytes \<Rightarrow> (codec_error, bytes) result" where
  "openPayloadBytes lib key data =
     rbind (require (NONCE_LEN + TAG_LEN \<le> length data) Data_too_short) (\<lambda>_.
     (let nonce = take NONCE_LEN data;
          tag = drop (length data - TAG_LEN) data;
          ciphertext = drop NONCE_LEN (take (length data - TAG_LEN) data)
      in case aes_open lib key nonce ciphertext tag of
           None \<Rightarrow> Inl Not_authentic
         | Some plaintext \<Rightarrow> Inr plaintext))"

definition decode_proto :: "codec_library \<Rightarrow> bytes \<Rightarrow> (codec_error, payload) result" where
  "decode_proto lib bs = (case proto_decode lib bs of None \<Rightarrow> Inl Malformed_payload | Some p \<Rightarrow> Inr p)"

definition payload_bytes :: "payload \<Rightarrow> bytes" where
  "payload_bytes p = (case pl_data p of None \<Rightarrow> [] | Some d \<Rightarrow> d)"

definition is_encrypted :: "payload \<Rightarrow> bool" where
  "is_encrypted p \<longleftrightarrow> (case pl_metadata p ''encoding'' of
     None \<Rightarrow> False | Some e \<Rightarrow> utf8_text e = units_of ENCRYPTED_ENCODING)"

section \<open>The codec with shared keys\<close>

text \<open>\<open>keys\<close> is a JavaScript map, in insertion order.\<close>

record aes_codec =
  ac_currentKid :: string
  ac_keys :: "(string \<times> bytes) list"

definition newPayloadCodec :: "string \<Rightarrow> (string \<times> bytes) list \<Rightarrow> (codec_error, aes_codec) result" where
  "newPayloadCodec currentKid keys =
     rbind (require (map_of keys currentKid \<noteq> None) Current_key_missing) (\<lambda>_.
     rbind (each (\<lambda>(kid, v).
              rbind (require (\<not> starts_with RESERVED_KID_PREFIX kid) (Reserved_key_id kid)) (\<lambda>_.
              require (length v = KEY_LEN) (Key_bytes_wrong kid (length v)))) keys) (\<lambda>_.
     Inr \<lparr>ac_currentKid = currentKid, ac_keys = keys\<rparr>))"

text \<open>The sealed payloads of one call; \<open>nonces i\<close> is what \<open>randomBytes(NONCE_LEN)\<close> returns for the \<open>i\<close>-th.\<close>

fun seal_all ::
    "codec_library \<Rightarrow> (nat \<Rightarrow> bytes) \<Rightarrow> bytes \<Rightarrow> wide \<Rightarrow> nat \<Rightarrow> payload list \<Rightarrow> (codec_error, payload list) result" where
  "seal_all lib nonces key kid i [] = Inr []"
| "seal_all lib nonces key kid i (p # ps) =
     rbind (sealPayloadBytes lib key kid (nonces i) (proto_encode lib p)) (\<lambda>q.
     rbind (seal_all lib nonces key kid (Suc i) ps) (\<lambda>qs. Inr (q # qs)))"

definition base_encode ::
    "codec_library \<Rightarrow> (nat \<Rightarrow> bytes) \<Rightarrow> aes_codec \<Rightarrow> payload list \<Rightarrow> (codec_error, payload list) result" where
  "base_encode lib nonces c ps =
     (case map_of (ac_keys c) (ac_currentKid c) of
        None \<Rightarrow> Inl Current_key_missing
      | Some key \<Rightarrow> seal_all lib nonces key (units_of (ac_currentKid c)) 0 ps)"

definition key_for :: "aes_codec \<Rightarrow> wide \<Rightarrow> bytes option" where
  "key_for c kid = (case narrow kid of None \<Rightarrow> None | Some k \<Rightarrow> map_of (ac_keys c) k)"

definition base_decode_one :: "codec_library \<Rightarrow> aes_codec \<Rightarrow> payload \<Rightarrow> (codec_error, payload) result" where
  "base_decode_one lib c p =
     (if \<not> is_encrypted p then Inr p
      else case pl_metadata p KEY_ID_METADATA_KEY of
             None \<Rightarrow> Inl No_key_id
           | Some kidBytes \<Rightarrow>
               (case key_for c (utf8_text kidBytes) of
                  None \<Rightarrow> Inl (Unknown_key_id (utf8_text kidBytes))
                | Some key \<Rightarrow> rbind (openPayloadBytes lib key (payload_bytes p)) (decode_proto lib)))"

definition base_decode :: "codec_library \<Rightarrow> aes_codec \<Rightarrow> payload list \<Rightarrow> (codec_error, payload list) result" where
  "base_decode lib c ps = traverse (base_decode_one lib c) ps"

section \<open>Construction from the spec\<close>

record codec_key_spec =
  cks_id :: string
  cks_env :: "string option"
  cks_file :: "string option"

record payload_codec_spec =
  pcs_current :: string
  pcs_keys :: "codec_key_spec list"
  pcs_subject_scope :: bool

text \<open>The environment and the files, read at the configured path with \<open>~\<close> expanded.\<close>

record key_sources =
  ks_env :: "string \<rightharpoonup> string"
  ks_file :: "string \<rightharpoonup> bytes"

definition resolveKeyBytes :: "key_sources \<Rightarrow> codec_key_spec \<Rightarrow> (codec_error, bytes) result" where
  "resolveKeyBytes src k =
     (case cks_env k of
        Some env \<Rightarrow>
          (case ks_env src env of
             None \<Rightarrow> Inl (Secret_unset env)
           | Some raw \<Rightarrow> if trim raw = [] then Inl (Secret_empty env) else Inr (utf8_bytes (trim raw)))
      | None \<Rightarrow>
          (case cks_file k of
             Some f \<Rightarrow>
               (case ks_file src f of
                  None \<Rightarrow> Inl (Secret_file_missing f)
                | Some raw \<Rightarrow> if raw = [] then Inl (Secret_file_empty f) else Inr raw)
           | None \<Rightarrow> Inl (Secret_source_missing (cks_id k))))"

fun resolve_keys ::
    "key_sources \<Rightarrow> codec_key_spec list \<Rightarrow> (string \<times> bytes) list \<Rightarrow> (codec_error, (string \<times> bytes) list) result" where
  "resolve_keys src [] keys = Inr keys"
| "resolve_keys src (k # ks) keys =
     rbind (resolveKeyBytes src k) (\<lambda>resolved.
     rbind (require (length resolved = KEY_LEN) (Key_bytes_wrong (cks_id k) (length resolved))) (\<lambda>_.
     resolve_keys src ks (AList.update (cks_id k) resolved keys)))"

definition buildPayloadCodec ::
    "key_sources \<Rightarrow> payload_codec_spec option \<Rightarrow> (codec_error, aes_codec option) result" where
  "buildPayloadCodec src spec =
     (case spec of
        None \<Rightarrow> Inr None
      | Some s \<Rightarrow>
          rbind (resolve_keys src (pcs_keys s) []) (\<lambda>keys.
          rbind (newPayloadCodec (pcs_current s) keys) (\<lambda>c. Inr (Some c))))"

section \<open>Opening what was sealed\<close>

text \<open>What the codec relies on: GCM opens what it sealed under the same key and nonce and its tag has
  16 bytes, SHA-256 has 32 bytes, and the protobuf encoding of a payload decodes to it.\<close>

definition gcm_correct :: "codec_library \<Rightarrow> bool" where
  "gcm_correct lib \<longleftrightarrow> (\<forall>k n p. length k = KEY_LEN \<longrightarrow> length n = NONCE_LEN \<longrightarrow>
     length (snd (aes_seal lib k n p)) = TAG_LEN \<and>
     aes_open lib k n (fst (aes_seal lib k n p)) (snd (aes_seal lib k n p)) = Some p)"

definition proto_correct :: "codec_library \<Rightarrow> payload list \<Rightarrow> bool" where
  "proto_correct lib ps \<longleftrightarrow> (\<forall>p\<in>set ps. proto_decode lib (proto_encode lib p) = Some p)"

lemma open_sealed:
  assumes "gcm_correct lib" and "sealPayloadBytes lib key kid nonce plaintext = Inr q"
  shows "openPayloadBytes lib key (payload_bytes q) = Inr plaintext"
    and "is_encrypted q" and "pl_metadata q KEY_ID_METADATA_KEY = Some (wide_bytes kid)"
proof -
  obtain ct tag where s: "aes_seal lib key nonce plaintext = (ct, tag)" by fastforce
  with assms(2) have len: "length key = KEY_LEN" "length nonce = NONCE_LEN"
    and q: "q = \<lparr>pl_metadata = [''encoding'' \<mapsto> utf8_bytes ENCRYPTED_ENCODING,
                             KEY_ID_METADATA_KEY \<mapsto> wide_bytes kid],
              pl_data = Some (nonce @ ct @ tag)\<rparr>"
    by (auto simp: sealPayloadBytes_def result_simps)
  with assms(1) s have "length tag = TAG_LEN" "aes_open lib key nonce ct tag = Some plaintext"
    unfolding gcm_correct_def by (metis fst_conv snd_conv)+
  with len q show "openPayloadBytes lib key (payload_bytes q) = Inr plaintext"
    by (simp add: openPayloadBytes_def payload_bytes_def Let_def)
  show "is_encrypted q" "pl_metadata q KEY_ID_METADATA_KEY = Some (wide_bytes kid)"
    using q by (simp_all add: is_encrypted_def wire_constants)
qed

definition sealed_as :: "codec_library \<Rightarrow> bytes \<Rightarrow> wide \<Rightarrow> payload \<Rightarrow> payload \<Rightarrow> bool" where
  "sealed_as lib key kid p q \<longleftrightarrow> is_encrypted q \<and> pl_metadata q KEY_ID_METADATA_KEY = Some (wide_bytes kid)
     \<and> openPayloadBytes lib key (payload_bytes q) = Inr (proto_encode lib p)"

lemma seal_all_spec:
  assumes "gcm_correct lib"
  shows "seal_all lib nonces key kid i ps = Inr qs \<Longrightarrow> list_all2 (sealed_as lib key kid) ps qs"
proof (induction ps arbitrary: i qs)
  case (Cons p ps)
  then show ?case
    using open_sealed [OF assms] by (auto simp: result_simps sealed_as_def)
qed simp

lemma seal_all_kid:
  "seal_all lib nonces key kid i ps = Inr qs \<Longrightarrow> length qs = length ps \<and>
     (\<forall>q\<in>set qs. is_encrypted q \<and> pl_metadata q KEY_ID_METADATA_KEY = Some (wide_bytes kid))"
proof (induction ps arbitrary: i qs)
  case (Cons p ps)
  have "is_encrypted q \<and> pl_metadata q KEY_ID_METADATA_KEY = Some (wide_bytes kid)"
    if "sealPayloadBytes lib key kid n x = Inr q" for n x q
    using that by (auto simp: sealPayloadBytes_def result_simps is_encrypted_def wire_constants split: prod.splits)
  with Cons show ?case by (auto simp: result_simps)
qed simp

text \<open>The shared codec decodes what it encoded.\<close>

lemma newPayloadCodec_valid:
  "newPayloadCodec k keys = Inr c \<Longrightarrow> ac_keys c = keys \<and> ac_currentKid c = k \<and>
     (\<forall>(kid, v)\<in>set keys. \<not> starts_with RESERVED_KID_PREFIX kid \<and> length v = KEY_LEN) \<and> map_of keys k \<noteq> None"
  by (auto simp: newPayloadCodec_def result_simps)

lemma base_roundtrip:
  assumes "gcm_correct lib" "proto_correct lib ps" "base_encode lib nonces c ps = Inr qs"
  shows "list_all2 (\<lambda>p q. base_decode_one lib c q = Inr p) ps qs"
    and "base_decode lib c qs = Inr ps"
proof -
  from assms(3) obtain key where key: "map_of (ac_keys c) (ac_currentKid c) = Some key"
    and s: "seal_all lib nonces key (units_of (ac_currentKid c)) 0 ps = Inr qs"
    by (auto simp: base_encode_def split: option.splits)
  have "list_all2 (\<lambda>p q. p \<in> set ps \<and> sealed_as lib key (units_of (ac_currentKid c)) p q) ps qs"
    using seal_all_spec [OF assms(1) s] by (auto simp: list_all2_conv_all_nth)
  then show *: "list_all2 (\<lambda>p q. base_decode_one lib c q = Inr p) ps qs"
    by (rule list_all2_mono)
      (use assms(2) key in \<open>auto simp: base_decode_one_def sealed_as_def key_for_def decode_proto_def proto_correct_def utf8_text_wide units_of_small\<close>)
  then show "base_decode lib c qs = Inr ps"
    by (simp add: base_decode_def traverse_eq_Inr list_all2_conv_all_nth)
qed

end
