(* ===== verification/Subject_Keystore.thy ===== *)
theory Subject_Keystore
  imports Payload_Codec Subjects
begin

text \<open>
  The keystore of per-subject data keys (\<open>packages/typescript/temporal-yaml/src/subject-keystore.ts\<close>): the
  in-memory keystore with its permanent tombstones, the probe, key ids, combined keys and the bindings
  from workflows to subjects. \<open>randomBytes\<close> is a parameter: the bytes of the \<open>n\<close>-th draw.
\<close>

section \<open>The keystore interface\<close>

record destruction =
  dt_subjectId :: string
  dt_keyExisted :: bool
  dt_alreadyDestroyed :: bool

datatype key_state = K_live | K_destroyed | K_absent

text \<open>A backend as its operations on a state; \<open>subjectKeyState\<close> is optional.\<close>

record 's keystore =
  dataKey :: "string \<Rightarrow> bool \<Rightarrow> 's \<Rightarrow> 's \<times> (codec_error, bytes) result"
  destroySubjectKey :: "string \<Rightarrow> 's \<Rightarrow> 's \<times> (codec_error, destruction) result"
  keyStateProbe :: "(string \<Rightarrow> 's \<Rightarrow> 's \<times> (codec_error, key_state) result) option"

definition subjectKeyState :: "'s keystore \<Rightarrow> string \<Rightarrow> 's \<Rightarrow> 's \<times> (codec_error, key_state) result" where
  "subjectKeyState ks subjectId st =
     (case keyStateProbe ks of
        Some probe \<Rightarrow> probe subjectId st
      | None \<Rightarrow>
          (let (st', r) = dataKey ks subjectId False st
           in (st', case r of
                      Inr _ \<Rightarrow> Inr K_live
                    | Inl (Key_shredded _) \<Rightarrow> Inr K_destroyed
                    | Inl (Key_unknown _) \<Rightarrow> Inr K_absent
                    | Inl e \<Rightarrow> Inl e)))"

section \<open>The in-memory keystore\<close>

text \<open>A record that is \<open>Some None\<close> is a tombstone.\<close>

record memory_keys =
  mk_records :: "string \<rightharpoonup> bytes option"
  mk_draws :: nat

definition no_keys :: memory_keys where
  "no_keys = \<lparr>mk_records = Map.empty, mk_draws = 0\<rparr>"

definition memory_dataKey ::
    "(nat \<Rightarrow> bytes) \<Rightarrow> string \<Rightarrow> bool \<Rightarrow> memory_keys \<Rightarrow> memory_keys \<times> (codec_error, bytes) result" where
  "memory_dataKey random subjectId create st =
     (if subjectId = [] then (st, Inl Empty_subject)
      else case mk_records st subjectId of
             Some None \<Rightarrow> (st, Inl (Key_shredded subjectId))
           | Some (Some existing) \<Rightarrow> (st, Inr existing)
           | None \<Rightarrow>
               if \<not> create then (st, Inl (Key_unknown (units_of subjectId)))
               else (let key = random (mk_draws st)
                     in (\<lparr>mk_records = (mk_records st)(subjectId \<mapsto> Some key), mk_draws = Suc (mk_draws st)\<rparr>, Inr key)))"

definition memory_destroy :: "string \<Rightarrow> memory_keys \<Rightarrow> memory_keys \<times> (codec_error, destruction) result" where
  "memory_destroy subjectId st =
     (if subjectId = [] then (st, Inl Empty_subject)
      else (let existing = mk_records st subjectId
            in (st\<lparr>mk_records := (mk_records st)(subjectId \<mapsto> None)\<rparr>,
                Inr \<lparr>dt_subjectId = subjectId, dt_keyExisted = (\<exists>key. existing = Some (Some key)),
                     dt_alreadyDestroyed = (existing = Some None)\<rparr>)))"

definition memory_keyState :: "string \<Rightarrow> memory_keys \<Rightarrow> memory_keys \<times> (codec_error, key_state) result" where
  "memory_keyState subjectId st =
     (st, if subjectId = [] then Inl Empty_subject
          else Inr (case mk_records st subjectId of None \<Rightarrow> K_absent | Some None \<Rightarrow> K_destroyed | Some (Some _) \<Rightarrow> K_live))"

definition memory_keystore :: "(nat \<Rightarrow> bytes) \<Rightarrow> memory_keys keystore" where
  "memory_keystore random = \<lparr>dataKey = memory_dataKey random, destroySubjectKey = memory_destroy,
     keyStateProbe = Some memory_keyState\<rparr>"

section \<open>Key ids\<close>

fun join_with :: "'a \<Rightarrow> 'a list list \<Rightarrow> 'a list" where
  "join_with sep [] = []"
| "join_with sep [x] = x"
| "join_with sep (x # y # xs) = x @ sep # join_with sep (y # xs)"

fun split_at :: "'a \<Rightarrow> 'a list \<Rightarrow> 'a list list" where
  "split_at sep [] = [[]]"
| "split_at sep (c # cs) =
     (if c = sep then [] # split_at sep cs
      else (case split_at sep cs of [] \<Rightarrow> [[c]] | p # ps \<Rightarrow> (c # p) # ps))"

definition comma :: nat where "comma = 44"

definition subjectKid :: "string list \<Rightarrow> (codec_error, wide) result" where
  "subjectKid subjectIds =
     (if subjectIds = [] then Inl No_subjects
      else Inr (units_of RESERVED_KID_PREFIX @ join_with comma (map (\<lambda>i. b64url (utf8_bytes i)) subjectIds)))"

definition parse_segment :: "wide \<Rightarrow> (codec_error, wide) result" where
  "parse_segment part =
     (if part = [] then Inl (Bad_segment part)
      else (let decoded = unb64url part
            in if b64url decoded \<noteq> part then Inl (Bad_segment part) else Inr (utf8_text decoded)))"

definition parseSubjectKid :: "wide \<Rightarrow> (codec_error, wide list) result" where
  "parseSubjectKid kid =
     (if \<not> starts_with (units_of RESERVED_KID_PREFIX) kid then Inl (Not_subject_kid kid)
      else (let body = drop (length RESERVED_KID_PREFIX) kid
            in if body = [] then Inl No_subjects
               else traverse parse_segment (split_at comma body)))"

definition combineSubjectKey :: "codec_library \<Rightarrow> bytes list \<Rightarrow> (codec_error, bytes) result" where
  "combineSubjectKey lib recordKeys =
     (if recordKeys = [] then Inl No_record_keys
      else rbind (each (\<lambda>k. require (length k = KEY_LEN) (Record_key_wrong (length k))) recordKeys) (\<lambda>_.
           Inr (sha256_bytes lib (concat recordKeys))))"

section \<open>Bindings of workflows to subjects\<close>

text \<open>What \<open>describe()\<close> gives: it throws, or the description has no typed attributes, or reading the
  attribute throws, or gives a value (\<open>None\<close> is \<open>undefined\<close>).\<close>

datatype described = Describe_throws | No_attributes | Attribute_throws | Attribute "jv option"

record bindings =
  sb_known :: "string \<rightharpoonup> string list"
  sb_client :: "(string \<Rightarrow> described) option"

definition no_bindings :: bindings where
  "no_bindings = \<lparr>sb_known = Map.empty, sb_client = None\<rparr>"

definition register_binding :: "string \<Rightarrow> string list \<Rightarrow> bindings \<Rightarrow> (codec_error, bindings) result" where
  "register_binding workflowId subjectIds b =
     (if workflowId = [] then Inl Binding_empty
      else case normalizeSubjectIds subjectIds of
             Inl e \<Rightarrow> Inl (Subject_ids_invalid e)
           | Inr ids \<Rightarrow> Inr (b\<lparr>sb_known := (sb_known b)(workflowId \<mapsto> ids)\<rparr>))"

definition bindClient :: "(string \<Rightarrow> described) \<Rightarrow> bindings \<Rightarrow> bindings" where
  "bindClient client b = b\<lparr>sb_client := Some client\<rparr>"

text \<open>\<open>String(item)\<close> of the items of a keyword list; \<open>text_of\<close> renders the other values.\<close>

definition describedSubjectIds :: "(jv \<Rightarrow> string) \<Rightarrow> described \<Rightarrow> string list" where
  "describedSubjectIds text_of d =
     (case d of
        Attribute (Some (JArr items)) \<Rightarrow> map (\<lambda>v. case v of JStr s \<Rightarrow> s | _ \<Rightarrow> text_of v) items
      | _ \<Rightarrow> [])"

definition resolve_binding ::
    "(jv \<Rightarrow> string) \<Rightarrow> string \<Rightarrow> bindings \<Rightarrow> bindings \<times> (codec_error, string list) result" where
  "resolve_binding text_of workflowId b =
     (case sb_known b workflowId of
        Some ids \<Rightarrow> (b, Inr ids)
      | None \<Rightarrow>
          (case sb_client b of
             None \<Rightarrow> (b, Inl (Binding_unresolved workflowId))
           | Some client \<Rightarrow>
               (case client workflowId of
                  Describe_throws \<Rightarrow> (b, Inl (Describe_failed workflowId))
                | d \<Rightarrow> (let ids = describedSubjectIds text_of d
                        in (b\<lparr>sb_known := (sb_known b)(workflowId \<mapsto> ids)\<rparr>, Inr ids)))))"

section \<open>Key ids are read back\<close>

lemma join_with_Nil [simp]: "join_with sep xs = [] \<longleftrightarrow> xs = [] \<or> xs = [[]]"
  by (cases "(sep, xs)" rule: join_with.cases) auto

lemma split_at_plain: "sep \<notin> set x \<Longrightarrow> split_at sep x = [x]"
  by (induction x) auto

lemma split_at_append: "sep \<notin> set x \<Longrightarrow> split_at sep (x @ sep # r) = x # split_at sep r"
  by (induction x) auto

lemma split_join: "xs \<noteq> [] \<Longrightarrow> \<forall>x\<in>set xs. sep \<notin> set x \<Longrightarrow> split_at sep (join_with sep xs) = xs"
  by (induction sep xs rule: join_with.induct) (auto simp: split_at_plain split_at_append)

lemma join_split: "join_with sep (split_at sep x) = x"
proof (induction x)
  case (Cons c x)
  then show ?case
    by (cases "split_at sep x" rule: list.exhaust; cases "tl (split_at sep x)") auto
qed simp

lemma starts_with_append [simp]: "starts_with p (p @ s)"
  by (simp add: starts_with_def)

lemma length_units [simp]: "length (units_of s) = length s"
  by (simp add: units_of_def)

lemma utf8_bytes_Nil [simp]: "utf8_bytes s = [] \<longleftrightarrow> s = []"
  by (cases s) (auto simp: utf8_bytes_def wide_bytes_def units_of_def utf8_def)

lemma parse_segment_id [simp]: "i \<noteq> [] \<Longrightarrow> parse_segment (b64url (utf8_bytes i)) = Inr (units_of i)"
  by (simp add: parse_segment_def Let_def)

lemma traverse_map: "(\<And>x. x \<in> set xs \<Longrightarrow> f (g x) = Inr (h x)) \<Longrightarrow> traverse f (map g xs) = Inr (map h xs)"
  by (induction xs) auto

lemma parse_subjectKid:
  assumes "subjectKid ids = Inr kid" and "\<forall>i\<in>set ids. i \<noteq> []"
  shows "parseSubjectKid kid = Inr (map units_of ids)"
proof -
  let ?parts = "map (\<lambda>i. b64url (utf8_bytes i)) ids"
  from assms(1) have ids: "ids \<noteq> []" and kid: "kid = units_of RESERVED_KID_PREFIX @ join_with comma ?parts"
    by (auto simp: subjectKid_def split: if_splits)
  have "split_at comma (join_with comma ?parts) = ?parts"
    using ids b64url_chars by (intro split_join) (auto simp: comma_def)
  moreover have "join_with comma ?parts \<noteq> []"
    using ids assms(2) by (cases ids) auto
  ultimately show ?thesis
    using assms(2) by (simp add: kid parseSubjectKid_def Let_def traverse_map)
qed

lemma join_with_set: "c \<in> set (join_with sep xs) \<Longrightarrow> c = sep \<or> (\<exists>x\<in>set xs. c \<in> set x)"
  by (induction sep xs rule: join_with.induct) auto

lemma subjectKid_small: "subjectKid ids = Inr kid \<Longrightarrow> c \<in> set kid \<Longrightarrow> c < 256"
  using b64url_chars
  by (fastforce simp: subjectKid_def comma_def split: if_splits dest: units_of_small join_with_set)

lemma subjectKid_reserved: "subjectKid ids = Inr kid \<Longrightarrow> starts_with (units_of RESERVED_KID_PREFIX) kid"
  by (auto simp: subjectKid_def split: if_splits)

end
