(* ===== verification/Subject_Codec.thy ===== *)
theory Subject_Codec
  imports Subject_Keystore
begin

text \<open>
  The subject-scoped payload codec (\<open>packages/typescript/temporal-yaml/src/subject-keystore.ts\<close>), over any
  keystore backend; its contract with the backend as the locale \<open>shredding_keystore\<close>, what follows for
  every such backend, and the interpretation on the in-memory keystore.
\<close>

section \<open>The codec\<close>

record 's subject_codec =
  sc_base :: aes_codec
  sc_keystore :: "'s keystore"

datatype serialization_context =
    Workflow_context string
  | Activity_context "string option"
  | Other_context

definition contextWorkflowId :: "serialization_context option \<Rightarrow> string option" where
  "contextWorkflowId context =
     (case context of
        Some (Workflow_context w) \<Rightarrow> Some w
      | Some (Activity_context w) \<Rightarrow> w
      | _ \<Rightarrow> None)"

text \<open>\<open>ids.map((id) => ...)\<close> with a call that may throw and may change the keystore.\<close>

fun collect_keys ::
    "('i \<Rightarrow> 's \<Rightarrow> 's \<times> (codec_error, bytes) result) \<Rightarrow> 'i list \<Rightarrow> 's \<Rightarrow> 's \<times> (codec_error, bytes list) result" where
  "collect_keys f [] st = (st, Inr [])"
| "collect_keys f (i # is) st =
     (case f i st of
        (st1, Inl e) \<Rightarrow> (st1, Inl e)
      | (st1, Inr k) \<Rightarrow> (let (st2, r) = collect_keys f is st1 in (st2, rbind r (\<lambda>ks. Inr (k # ks)))))"

definition sealing_key ::
    "codec_library \<Rightarrow> 's keystore \<Rightarrow> string list \<Rightarrow> 's \<Rightarrow> 's \<times> (codec_error, bytes) result" where
  "sealing_key lib ks ids st =
     (let (st1, r) = collect_keys (\<lambda>i. dataKey ks i True) ids st in (st1, rbind r (combineSubjectKey lib)))"

definition scoped_encode ::
    "codec_library \<Rightarrow> (nat \<Rightarrow> bytes) \<Rightarrow> (jv \<Rightarrow> string) \<Rightarrow> 's subject_codec \<Rightarrow> serialization_context option \<Rightarrow> payload list
     \<Rightarrow> bindings \<times> 's \<Rightarrow> (bindings \<times> 's) \<times> (codec_error, payload list) result" where
  "scoped_encode lib nonces text_of c context ps bs =
     (case bs of (b, st) \<Rightarrow>
      (case contextWorkflowId context of
         None \<Rightarrow> ((b, st), Inl No_context)
       | Some w \<Rightarrow>
           (case resolve_binding text_of w b of
              (b1, Inl e) \<Rightarrow> ((b1, st), Inl e)
            | (b1, Inr ids) \<Rightarrow>
                if ids = [] then ((b1, st), base_encode lib nonces (sc_base c) ps)
                else (case subjectKid ids of
                        Inl e \<Rightarrow> ((b1, st), Inl e)
                      | Inr kid \<Rightarrow>
                          (let (st1, key) = sealing_key lib (sc_keystore c) ids st
                           in ((b1, st1), rbind key (\<lambda>k. seal_all lib nonces k kid 0 ps)))))))"

text \<open>An id read from a key id; one that is no string of the model has no record.\<close>

definition stored_key :: "'s keystore \<Rightarrow> wide \<Rightarrow> 's \<Rightarrow> 's \<times> (codec_error, bytes) result" where
  "stored_key ks i st = (case narrow i of None \<Rightarrow> (st, Inl (Key_unknown i)) | Some s \<Rightarrow> dataKey ks s False st)"

definition opening_key ::
    "codec_library \<Rightarrow> 's keystore \<Rightarrow> wide \<Rightarrow> 's \<Rightarrow> 's \<times> (codec_error, bytes) result" where
  "opening_key lib ks kid st =
     (case parseSubjectKid kid of
        Inl e \<Rightarrow> (st, Inl e)
      | Inr ids \<Rightarrow> (let (st1, r) = collect_keys (stored_key ks) ids st in (st1, rbind r (combineSubjectKey lib))))"

definition payload_kid :: "payload \<Rightarrow> wide option" where
  "payload_kid p = map_option utf8_text (pl_metadata p KEY_ID_METADATA_KEY)"

definition isSubjectScoped :: "payload \<Rightarrow> bool" where
  "isSubjectScoped p \<longleftrightarrow> is_encrypted p \<and>
     (case payload_kid p of None \<Rightarrow> False | Some kid \<Rightarrow> starts_with (units_of RESERVED_KID_PREFIX) kid)"

definition open_with :: "codec_library \<Rightarrow> bytes \<Rightarrow> payload \<Rightarrow> (codec_error, payload) result" where
  "open_with lib key p = rbind (openPayloadBytes lib key (payload_bytes p)) (decode_proto lib)"

definition then_rest :: "'a \<Rightarrow> 's \<times> ('e, 'a list) result \<Rightarrow> 's \<times> ('e, 'a list) result" where
  "then_rest q rest = (case rest of (st, r) \<Rightarrow> (st, rbind r (\<lambda>qs. Inr (q # qs))))"

fun decode_loop ::
    "codec_library \<Rightarrow> 's subject_codec \<Rightarrow> (wide \<rightharpoonup> bytes) \<Rightarrow> payload list \<Rightarrow> 's \<Rightarrow> 's \<times> (codec_error, payload list) result" where
  "decode_loop lib c combinedByKid [] st = (st, Inr [])"
| "decode_loop lib c combinedByKid (p # ps) st =
     (if \<not> isSubjectScoped p then
        (case base_decode_one lib (sc_base c) p of
           Inl e \<Rightarrow> (st, Inl e)
         | Inr q \<Rightarrow> then_rest q (decode_loop lib c combinedByKid ps st))
      else
        (let kid = the (payload_kid p)
         in case (case combinedByKid kid of
                    Some key \<Rightarrow> (st, Inr key)
                  | None \<Rightarrow> opening_key lib (sc_keystore c) kid st) of
              (st1, Inl e) \<Rightarrow> (st1, Inl e)
            | (st1, Inr key) \<Rightarrow>
                (case open_with lib key p of
                   Inl e \<Rightarrow> (st1, Inl e)
                 | Inr q \<Rightarrow> then_rest q (decode_loop lib c (combinedByKid(kid \<mapsto> key)) ps st1))))"

definition scoped_decode ::
    "codec_library \<Rightarrow> 's subject_codec \<Rightarrow> payload list \<Rightarrow> 's \<Rightarrow> 's \<times> (codec_error, payload list) result" where
  "scoped_decode lib c ps st = decode_loop lib c Map.empty ps st"

datatype 's built_codec = No_codec | Shared_codec aes_codec | Scoped_codec "'s subject_codec"

definition buildSubjectAwarePayloadCodec ::
    "key_sources \<Rightarrow> payload_codec_spec option \<Rightarrow> 's keystore option \<Rightarrow> (codec_error, 's built_codec) result" where
  "buildSubjectAwarePayloadCodec src spec keystore =
     rbind (buildPayloadCodec src spec) (\<lambda>base.
       case (base, spec) of
         (Some c, Some s) \<Rightarrow>
           if \<not> pcs_subject_scope s then Inr (Shared_codec c)
           else (case keystore of
                   None \<Rightarrow> Inl Keystore_required
                 | Some ks \<Rightarrow> Inr (Scoped_codec \<lparr>sc_base = c, sc_keystore = ks\<rparr>))
       | _ \<Rightarrow> Inr No_codec)"

section \<open>Reference: decoding one payload at a time\<close>

definition decode_one :: "codec_library \<Rightarrow> 's subject_codec \<Rightarrow> 's \<Rightarrow> payload \<Rightarrow> (codec_error, payload) result" where
  "decode_one lib c st p =
     (if isSubjectScoped p
      then rbind (snd (opening_key lib (sc_keystore c) (the (payload_kid p)) st)) (\<lambda>key. open_with lib key p)
      else base_decode_one lib (sc_base c) p)"

lemma decode_one_cases:
  "isSubjectScoped p \<Longrightarrow> decode_one lib c st p =
     rbind (snd (opening_key lib (sc_keystore c) (the (payload_kid p)) st)) (\<lambda>key. open_with lib key p)"
  "\<not> isSubjectScoped p \<Longrightarrow> decode_one lib c st p = base_decode_one lib (sc_base c) p"
  by (simp_all add: decode_one_def)

section \<open>Sequences of keystore operations\<close>

datatype keystore_op = Op_key string bool | Op_destroy string | Op_state string

fun keystore_step :: "'s keystore \<Rightarrow> keystore_op \<Rightarrow> 's \<Rightarrow> 's" where
  "keystore_step ks (Op_key i create) st = fst (dataKey ks i create st)"
| "keystore_step ks (Op_destroy i) st = fst (destroySubjectKey ks i st)"
| "keystore_step ks (Op_state i) st = fst (subjectKeyState ks i st)"

section \<open>The contract of a backend\<close>

datatype key_view = Absent | Live bytes | Destroyed

text \<open>The life of one record: minted once, destroyed for good.\<close>

inductive key_moves :: "key_view \<Rightarrow> key_view \<Rightarrow> bool" where
  stay: "key_moves v v"
| mint: "key_moves Absent (Live k)"
| shred: "key_moves v Destroyed"

inductive_simps key_moves_Destroyed [simp]: "key_moves Destroyed v"
inductive_simps key_moves_Live: "key_moves (Live k) v"

lemma key_moves_trans: "key_moves u v \<Longrightarrow> key_moves v w \<Longrightarrow> key_moves u w"
  by (auto elim!: key_moves.cases intro: key_moves.intros)

definition evolves :: "(string \<Rightarrow> key_view) \<Rightarrow> (string \<Rightarrow> key_view) \<Rightarrow> bool" where
  "evolves v v' \<longleftrightarrow> (\<forall>i. key_moves (v i) (v' i))"

lemma evolves_refl [simp]: "evolves v v"
  by (simp add: evolves_def key_moves.stay)

lemma evolves_trans: "evolves u v \<Longrightarrow> evolves v w \<Longrightarrow> evolves u w"
  by (auto simp: evolves_def intro: key_moves_trans)

lemma evolves_upd: "key_moves (v i) x \<Longrightarrow> evolves v (v(i := x))"
  by (simp add: evolves_def key_moves.stay)

lemma evolves_Destroyed: "evolves v v' \<Longrightarrow> v i = Destroyed \<Longrightarrow> v' i = Destroyed"
  by (metis evolves_def key_moves_Destroyed)

lemma evolves_Live: "evolves v v' \<Longrightarrow> v i = Live k \<Longrightarrow> v' i = Live k \<or> v' i = Destroyed"
  by (metis evolves_def key_moves_Live)

locale shredding_keystore =
  fixes ks :: "'s keystore" and view :: "'s \<Rightarrow> string \<Rightarrow> key_view"
  assumes read: "i \<noteq> [] \<Longrightarrow> dataKey ks i False st =
      (st, case view st i of Absent \<Rightarrow> Inl (Key_unknown (units_of i)) | Live k \<Rightarrow> Inr k | Destroyed \<Rightarrow> Inl (Key_shredded i))"
    and mint_absent: "i \<noteq> [] \<Longrightarrow> view st i = Absent \<Longrightarrow>
      (\<exists>st' k. dataKey ks i True st = (st', Inr k) \<and> view st' = (view st)(i := Live k))
      \<or> (\<exists>st' e. dataKey ks i True st = (st', Inl e) \<and> view st' = view st)"
    and mint_known: "i \<noteq> [] \<Longrightarrow> view st i \<noteq> Absent \<Longrightarrow> dataKey ks i True st = dataKey ks i False st"
    and no_subject: "dataKey ks [] create st = (st, Inl Empty_subject)"
    and destroy: "view (fst (destroySubjectKey ks i st)) = (if i = [] then view st else (view st)(i := Destroyed))"
    and probe: "view (fst (subjectKeyState ks i st)) = view st"
begin

lemma dataKey_read: "fst (dataKey ks i False st) = st"
  by (cases "i = []") (simp_all add: read no_subject)

lemma dataKey_cases:
  obtains (key) st' k where "i \<noteq> []" "dataKey ks i True st = (st', Inr k)" "view st' = (view st)(i := Live k)"
      "key_moves (view st i) (Live k)"
  | (fails) st' e where "dataKey ks i True st = (st', Inl e)" "view st' = view st"
proof (cases "i = []")
  case False
  show thesis
  proof (cases "view st i")
    case Absent
    from mint_absent [OF False this] show thesis
    proof (elim disjE exE conjE)
      fix st' k assume "dataKey ks i True st = (st', Inr k)" "view st' = (view st)(i := Live k)"
      with False Absent show thesis by (intro key) (auto intro: key_moves.intros)
    qed (rule fails)
  next
    case (Live k)
    with mint_known [OF False] read [OF False] have "dataKey ks i True st = (st, Inr k)" by simp
    with False Live show thesis by (intro key [of st k]) (auto intro: key_moves.intros)
  next
    case Destroyed
    with mint_known [OF False] read [OF False] have "dataKey ks i True st = (st, Inl (Key_shredded i))" by simp
    then show thesis by (rule fails) simp
  qed
qed (use fails no_subject in blast)

lemma dataKey_evolves: "evolves (view st) (view (fst (dataKey ks i create st)))"
proof (cases create)
  case True
  show ?thesis by (cases rule: dataKey_cases [of i st]) (simp_all add: True evolves_upd)
qed (simp add: dataKey_read)

lemma step_evolves: "evolves (view st) (view (keystore_step ks op st))"
  by (cases op) (auto simp: dataKey_evolves destroy probe intro: evolves_upd key_moves.intros)

lemma run_evolves: "evolves (view st) (view (fold (keystore_step ks) ops st))"
  by (induction ops arbitrary: st) (auto intro: evolves_trans step_evolves)

text \<open>Collecting the keys to seal with.\<close>

lemma collect_mint:
  "collect_keys (\<lambda>i. dataKey ks i True) is st = (st', r) \<Longrightarrow>
     evolves (view st) (view st') \<and> (\<forall>i. view st i \<noteq> Destroyed \<longrightarrow> view st' i \<noteq> Destroyed) \<and>
     (\<forall>keys. r = Inr keys \<longrightarrow> list_all2 (\<lambda>i k. i \<noteq> [] \<and> view st' i = Live k) is keys)"
proof (induction "is" arbitrary: st r)
  case (Cons i "is")
  show ?case
  proof (cases rule: dataKey_cases [of i st])
    case (key st1 k)
    obtain r2 where rest: "collect_keys (\<lambda>i. dataKey ks i True) is st1 = (st', r2)"
      and r: "r = rbind r2 (\<lambda>ks. Inr (k # ks))"
      using Cons.prems key(2) by (auto split: prod.splits)
    note IH = Cons.IH [OF rest]
    have "evolves (view st) (view st1)" using key(3,4) by (simp add: evolves_upd)
    moreover have "view st' i = Live k"
    proof -
      have i: "view st1 i = Live k" using key(3) by simp
      with IH have "view st' i \<noteq> Destroyed" by (metis key_view.distinct(5))
      then show ?thesis using IH evolves_Live [where v = "view st1" and v' = "view st'", OF _ i] by blast
    qed
    moreover have "view st j \<noteq> Destroyed \<Longrightarrow> view st1 j \<noteq> Destroyed" for j using key(3) by auto
    ultimately show ?thesis using IH r key(1) by (auto simp: result_simps intro: evolves_trans)
  next
    case (fails st1 e)
    with Cons.prems show ?thesis by auto
  qed
qed simp

text \<open>Reading never changes the keystore.\<close>

lemma stored_read: "fst (stored_key ks w st) = st"
  by (auto simp: stored_key_def dataKey_read split: option.splits)

lemma collect_read: "collect_keys (stored_key ks) ws st = (st, traverse (\<lambda>w. snd (stored_key ks w st)) ws)"
proof (induction ws)
  case (Cons w ws)
  obtain r where "stored_key ks w st = (st, r)" using stored_read [of w st] by (metis prod.collapse)
  with Cons show ?case by (cases r) simp_all
qed simp

lemma opening_read: "fst (opening_key lib ks kid st) = st"
  by (auto simp: opening_key_def collect_read split: sum.splits)

lemma opening_key_eq:
  "snd (opening_key lib ks kid st) = rbind (parseSubjectKid kid) (\<lambda>ws.
     rbind (traverse (\<lambda>w. snd (stored_key ks w st)) ws) (combineSubjectKey lib))"
  by (auto simp: opening_key_def collect_read split: sum.splits)

text \<open>The cache of a batch is invisible.\<close>

lemma decode_loop_eq:
  assumes "sc_keystore c = ks"
  shows "\<forall>kid key. cache kid = Some key \<longrightarrow> snd (opening_key lib ks kid st) = Inr key
    \<Longrightarrow> decode_loop lib c cache ps st = (st, traverse (decode_one lib c st) ps)"
proof (induction ps arbitrary: cache)
  case (Cons p ps)
  show ?case
  proof (cases "isSubjectScoped p")
    case False
    with Cons show ?thesis
      by (cases "base_decode_one lib (sc_base c) p") (auto simp: decode_one_cases then_rest_def)
  next
    case True
    let ?kid = "the (payload_kid p)"
    let ?r = "snd (opening_key lib ks ?kid st)"
    have k: "(case cache ?kid of Some key \<Rightarrow> (st, Inr key) | None \<Rightarrow> opening_key lib ks ?kid st) = (st, ?r)"
      using Cons.prems opening_read [of lib ?kid st] by (auto split: option.splits simp: prod_eq_iff)
    show ?thesis
    proof (cases ?r)
      case (Inl e)
      with True k show ?thesis unfolding decode_loop.simps Let_def assms by (simp add: decode_one_cases assms)
    next
      case (Inr key)
      have "decode_loop lib c (cache(?kid \<mapsto> key)) ps st = (st, traverse (decode_one lib c st) ps)"
        by (rule Cons.IH) (use Cons.prems Inr in auto)
      with True k Inr show ?thesis unfolding decode_loop.simps Let_def assms
        by (cases "open_with lib key p") (simp_all add: decode_one_cases assms then_rest_def)
    qed
  qed
qed simp

lemma decode_eq: "sc_keystore c = ks \<Longrightarrow> scoped_decode lib c ps st = (st, traverse (decode_one lib c st) ps)"
  by (simp add: scoped_decode_def decode_loop_eq)

text \<open>A destroyed record opens and seals nothing.\<close>

lemma stored_destroyed: "view st i = Destroyed \<Longrightarrow> i \<noteq> [] \<Longrightarrow> snd (stored_key ks (units_of i) st) = Inl (Key_shredded i)"
  by (simp add: stored_key_def read)

lemma traverse_fails: "x \<in> set xs \<Longrightarrow> f x = Inl e \<Longrightarrow> \<exists>e'. traverse f xs = Inl e'"
proof (induction xs)
  case (Cons y ys)
  then show ?case by (cases "f y") auto
qed simp

lemma opening_destroyed:
  assumes "view st i = Destroyed" "i \<noteq> []" "parseSubjectKid kid = Inr ws" "units_of i \<in> set ws"
  shows "\<exists>e. snd (opening_key lib ks kid st) = Inl e"
proof -
  from traverse_fails [OF assms(4), of "\<lambda>w. snd (stored_key ks w st)"] stored_destroyed [OF assms(1,2)]
  obtain e where "traverse (\<lambda>w. snd (stored_key ks w st)) ws = Inl e" by blast
  with assms(3) show ?thesis by (simp add: opening_key_eq)
qed

lemma decode_destroyed:
  assumes "sc_keystore c = ks" "view st i = Destroyed" "i \<noteq> []"
    and "q \<in> set qs" "isSubjectScoped q" "parseSubjectKid (the (payload_kid q)) = Inr ws" "units_of i \<in> set ws"
  shows "\<exists>e. snd (scoped_decode lib c qs st) = Inl e"
proof -
  from opening_destroyed [OF assms(2,3,6,7), of lib] obtain e where
    "snd (opening_key lib ks (the (payload_kid q)) st) = Inl e" by blast
  then have "decode_one lib c st q = Inl e"
    using assms(1,5) by (simp add: decode_one_def)
  from traverse_fails [where f = "decode_one lib c st", OF assms(4) this] show ?thesis by (simp add: decode_eq [OF assms(1)])
qed

lemma seal_destroyed:
  assumes "view st i = Destroyed" "i \<in> set ids"
  shows "\<exists>e. snd (sealing_key lib ks ids st) = Inl e"
proof -
  obtain st' r where c: "collect_keys (\<lambda>i. dataKey ks i True) ids st = (st', r)" by fastforce
  have "view st' i = Destroyed" using collect_mint [OF c] assms(1) evolves_Destroyed by blast
  moreover have "\<exists>k. view st' i = Live k" if "r = Inr keys" for keys
    using collect_mint [OF c] that assms(2) by (auto simp: list_all2_conv_all_nth in_set_conv_nth)
  ultimately obtain e where "r = Inl e" by (cases r) auto
  with c show ?thesis by (simp add: sealing_key_def)
qed

text \<open>Live records open what they sealed.\<close>

lemma opening_live:
  assumes "subjectKid ids = Inr kid" "list_all2 (\<lambda>i k. i \<noteq> [] \<and> view st i = Live k) ids keys"
    and "combineSubjectKey lib keys = Inr key"
  shows "snd (opening_key lib ks kid st) = Inr key"
proof -
  have "\<forall>i\<in>set ids. i \<noteq> []" using assms(2) by (auto simp: list_all2_conv_all_nth in_set_conv_nth)
  from parse_subjectKid [OF assms(1) this] have "parseSubjectKid kid = Inr (map units_of ids)" .
  moreover have "traverse (\<lambda>w. snd (stored_key ks w st)) (map units_of ids) = Inr keys"
    using assms(2) by (auto simp: traverse_eq_Inr list_all2_conv_all_nth stored_key_def read)
  ultimately show ?thesis using assms(3) by (simp add: opening_key_eq)
qed

lemma scoped_roundtrip:
  assumes ids: "ids \<noteq> []" and kid: "subjectKid ids = Inr kid"
    and sealing: "sealing_key lib ks ids st = (st1, Inr key)" and qs: "seal_all lib nonces key kid 0 ps = Inr qs"
    and laws: "gcm_correct lib" "proto_correct lib ps"
    and later: "evolves (view st1) (view st2)" "\<forall>i\<in>set ids. view st2 i \<noteq> Destroyed"
    and c: "sc_keystore c = ks"
  shows "scoped_decode lib c qs st2 = (st2, Inr ps)"
proof -
  from sealing obtain keys where m: "collect_keys (\<lambda>i. dataKey ks i True) ids st = (st1, Inr keys)"
    and key: "combineSubjectKey lib keys = Inr key"
    by (auto simp: sealing_key_def result_simps split: prod.splits)
  have "list_all2 (\<lambda>i k. i \<in> set ids \<and> i \<noteq> [] \<and> view st1 i = Live k) ids keys"
    using collect_mint [OF m] by (auto simp: list_all2_conv_all_nth)
  then have "list_all2 (\<lambda>i k. i \<noteq> [] \<and> view st2 i = Live k) ids keys"
    by (rule list_all2_mono) (use later in \<open>blast dest: evolves_Live\<close>)
  from opening_live [OF kid this key] have opens: "snd (opening_key lib ks kid st2) = Inr key" .
  have reads: "utf8_text (wide_bytes kid) = kid"
    using subjectKid_small [OF kid] by (intro utf8_text_wide) blast
  have one: "decode_one lib c st2 q = Inr p" if "p \<in> set ps" "sealed_as lib key kid p q" for p q
    using that laws(2) opens reads subjectKid_reserved [OF kid] c
    by (simp add: decode_one_def isSubjectScoped_def payload_kid_def sealed_as_def open_with_def decode_proto_def
        proto_correct_def)
  have "list_all2 (\<lambda>p q. p \<in> set ps \<and> sealed_as lib key kid p q) ps qs"
    using seal_all_spec [OF laws(1) qs] by (auto simp: list_all2_conv_all_nth)
  then have "list_all2 (\<lambda>p q. decode_one lib c st2 q = Inr p) ps qs"
    by (rule list_all2_mono) (blast intro: one)
  then have "traverse (decode_one lib c st2) qs = Inr ps"
    by (simp add: traverse_eq_Inr list_all2_conv_all_nth)
  then show ?thesis by (simp add: decode_eq [OF c])
qed

end

section \<open>The in-memory keystore keeps the contract\<close>

definition memory_view :: "memory_keys \<Rightarrow> string \<Rightarrow> key_view" where
  "memory_view st i = (case mk_records st i of None \<Rightarrow> Absent | Some None \<Rightarrow> Destroyed | Some (Some k) \<Rightarrow> Live k)"

lemma memory_keystore_ops [simp]:
  "dataKey (memory_keystore random) = memory_dataKey random"
  "destroySubjectKey (memory_keystore random) = memory_destroy"
  "subjectKeyState (memory_keystore random) i st = memory_keyState i st"
  by (simp_all add: memory_keystore_def subjectKeyState_def)

interpretation mem: shredding_keystore "memory_keystore random" memory_view for random
proof
  fix i :: string and st create
  show "i \<noteq> [] \<Longrightarrow> dataKey (memory_keystore random) i False st = (st, case memory_view st i of
      Absent \<Rightarrow> Inl (Key_unknown (units_of i)) | Live k \<Rightarrow> Inr k | Destroyed \<Rightarrow> Inl (Key_shredded i))"
    by (auto simp: memory_dataKey_def memory_view_def split: option.splits)
  show "i \<noteq> [] \<Longrightarrow> memory_view st i = Absent \<Longrightarrow>
      (\<exists>st' k. dataKey (memory_keystore random) i True st = (st', Inr k) \<and> memory_view st' = (memory_view st)(i := Live k))
      \<or> (\<exists>st' e. dataKey (memory_keystore random) i True st = (st', Inl e) \<and> memory_view st' = memory_view st)"
    by (auto simp: memory_dataKey_def memory_view_def Let_def fun_eq_iff split: option.splits)
  show "i \<noteq> [] \<Longrightarrow> memory_view st i \<noteq> Absent \<Longrightarrow>
      dataKey (memory_keystore random) i True st = dataKey (memory_keystore random) i False st"
    by (auto simp: memory_dataKey_def memory_view_def split: option.splits)
  show "dataKey (memory_keystore random) [] create st = (st, Inl Empty_subject)"
    by (simp add: memory_dataKey_def)
  show "memory_view (fst (destroySubjectKey (memory_keystore random) i st)) =
      (if i = [] then memory_view st else (memory_view st)(i := Destroyed))"
    by (auto simp: memory_destroy_def memory_view_def Let_def fun_eq_iff)
  show "memory_view (fst (subjectKeyState (memory_keystore random) i st)) = memory_view st"
    by (simp add: memory_keyState_def)
qed

end
