(* ===== verification/Subject_Executions.thy ===== *)
theory Subject_Executions
  imports Subjects
begin

text \<open>
  Finding and deleting the executions of a subject
  (\<open>packages/typescript/temporal-yaml/src/subject-enumeration.ts\<close>, \<open>subject-execution-deletion.ts\<close>). Every call to an
  outside service is an entry of a log; what the service answers may depend on the log so far.
\<close>

section \<open>Outside calls\<close>

record observation_query =
  oq_traceId :: "string option"
  oq_filter :: "string option"
  oq_limit :: nat
  oq_fields :: string
  oq_cursor :: "string option"

datatype outside_call =
    List_executions string
  | Delete_execution string string "string option"
  | Get_observations observation_query
  | Delete_traces "string list"

type_synonym call_log = "outside_call list"

section \<open>Enumeration\<close>

datatype name_field = Plain_name string | Named "string option"
datatype time_field = Text_time string | Date_time string

text \<open>Reading the typed attribute throws or gives a value; \<open>None\<close> is undefined.\<close>

datatype typed_attributes = Typed_throws | Typed "jv option"

record list_item =
  li_workflowId :: "string option"
  li_runId :: "string option"
  li_type :: "name_field option"
  li_status :: "name_field option"
  li_startTime :: "time_field option"
  li_closeTime :: "time_field option"
  li_typed :: "typed_attributes option"
  li_attributes :: "(string \<times> jv) list option"

record execution_ref =
  xr_executionId :: string
  xr_runId :: "string option"
  xr_workflowType :: "string option"
  xr_status :: "string option"
  xr_isRunning :: bool
  xr_isClosed :: bool
  xr_subjectIds :: "string list option"
  xr_startTime :: "string option"
  xr_closeTime :: "string option"

record enumeration =
  en_executions :: "execution_ref list"
  en_truncated :: bool

text \<open>The client: the rows of a listing with the error that ends it, if one does; the error of a deletion.\<close>

record temporal_client =
  tc_list :: "call_log \<Rightarrow> string \<Rightarrow> list_item list \<times> string option"
  tc_delete :: "call_log \<Rightarrow> string \<Rightarrow> string \<Rightarrow> string option \<Rightarrow> string option"
  tc_namespace :: "string option"

definition CLOSED_STATUS_NAMES :: "string list" where
  "CLOSED_STATUS_NAMES = [''COMPLETED'', ''FAILED'', ''CANCELLED'', ''TERMINATED'', ''CONTINUED_AS_NEW'', ''TIMED_OUT'']"

definition typeName :: "name_field option \<Rightarrow> string option" where
  "typeName t = (case t of None \<Rightarrow> None | Some (Plain_name s) \<Rightarrow> Some s | Some (Named n) \<Rightarrow> n)"

definition statusName :: "name_field option \<Rightarrow> string option" where
  "statusName t = (case t of None \<Rightarrow> None | Some (Plain_name s) \<Rightarrow> Some s | Some (Named n) \<Rightarrow> n)"

definition isoOrUndefined :: "time_field option \<Rightarrow> string option" where
  "isoOrUndefined t = (case t of None \<Rightarrow> None | Some (Text_time s) \<Rightarrow> Some s | Some (Date_time i) \<Rightarrow> Some i)"

definition entry_string :: "(jv \<Rightarrow> string) \<Rightarrow> jv \<Rightarrow> string" where
  "entry_string text_of v = (case v of JStr s \<Rightarrow> s | _ \<Rightarrow> text_of v)"

definition legacy_subjects :: "(jv \<Rightarrow> string) \<Rightarrow> list_item \<Rightarrow> string list option" where
  "legacy_subjects text_of item =
     (case li_attributes item of
        None \<Rightarrow> None
      | Some fs \<Rightarrow>
          (case map_of fs SUBJECT_IDS_SEARCH_ATTRIBUTE of
             Some (JArr es) \<Rightarrow> Some (map (entry_string text_of) es)
           | _ \<Rightarrow> None))"

definition readSubjectIds :: "(jv \<Rightarrow> string) \<Rightarrow> list_item \<Rightarrow> string list option" where
  "readSubjectIds text_of item =
     (case li_typed item of
        Some Typed_throws \<Rightarrow> None
      | Some (Typed (Some (JArr es))) \<Rightarrow> Some (map (entry_string text_of) es)
      | _ \<Rightarrow> legacy_subjects text_of item)"

definition execution_ref_of :: "(jv \<Rightarrow> string) \<Rightarrow> list_item \<Rightarrow> execution_ref" where
  "execution_ref_of text_of item =
     (let status = statusName (li_status item)
      in \<lparr>xr_executionId = (case li_workflowId item of None \<Rightarrow> [] | Some i \<Rightarrow> i), xr_runId = li_runId item,
          xr_workflowType = typeName (li_type item), xr_status = status,
          xr_isRunning = (status = Some ''RUNNING''),
          xr_isClosed = (case status of None \<Rightarrow> False | Some s \<Rightarrow> s \<in> set CLOSED_STATUS_NAMES),
          xr_subjectIds = readSubjectIds text_of item,
          xr_startTime = isoOrUndefined (li_startTime item), xr_closeTime = isoOrUndefined (li_closeTime item)\<rparr>)"

fun enumerate_rows ::
    "(jv \<Rightarrow> string) \<Rightarrow> nat \<Rightarrow> list_item list \<Rightarrow> string option \<Rightarrow> execution_ref list \<Rightarrow> (string, enumeration) result" where
  "enumerate_rows text_of limit [] failed refs =
     (case failed of None \<Rightarrow> Inr \<lparr>en_executions = refs, en_truncated = False\<rparr> | Some e \<Rightarrow> Inl e)"
| "enumerate_rows text_of limit (item # items) failed refs =
     (if limit \<le> length refs then Inr \<lparr>en_executions = refs, en_truncated = True\<rparr>
      else enumerate_rows text_of limit items failed (refs @ [execution_ref_of text_of item]))"

definition listExecutionsForSubject ::
    "(jv \<Rightarrow> string) \<Rightarrow> temporal_client \<Rightarrow> string \<Rightarrow> nat option \<Rightarrow> call_log \<Rightarrow> call_log \<times> (string, enumeration) result" where
  "listExecutionsForSubject text_of client subjectId limit calls =
     (let query = subjectIndexQuery subjectId;
          (items, failed) = tc_list client calls query
      in (calls @ [List_executions query],
          enumerate_rows text_of (case limit of None \<Rightarrow> 1000 | Some l \<Rightarrow> l) items failed []))"

section \<open>Deletion\<close>

record deleted_ref =
  dr_executionId :: string
  dr_runId :: "string option"
  dr_status :: "string option"

datatype conflict_reason = Multi_subject nat | Unreadable_subjects | Stale_index | Unknown_status

record execution_conflict =
  xc_executionId :: string
  xc_runId :: "string option"
  xc_reason :: conflict_reason

record execution_failure =
  xf_executionId :: string
  xf_runId :: "string option"
  xf_reason :: string

datatype erase_warning =
    Enumeration_limit string nat
  | Channel_incomplete string string nat nat
  | Ownership_unreadable string
  | Still_running nat string
  | Executions_conflicted nat string
  | Traces_conflicted nat string
  | Cache_fallback string
  | Cache_failure string string
  | Window_ignored string
  | From_temporal erase_warning
  | From_langfuse erase_warning

record execution_report =
  xd_subject :: string
  xd_dry :: bool
  xd_namespace :: string
  xd_matched :: nat
  xd_deletable :: "deleted_ref list"
  xd_deleted :: "deleted_ref list"
  xd_deletedCount :: nat
  xd_conflicted :: "execution_conflict list"
  xd_stillRunning :: "deleted_ref list"
  xd_failed :: "execution_failure list"
  xd_notes :: "erase_warning list"

datatype classification = Running | Deletable | Conflicted execution_conflict

definition classify :: "execution_ref \<Rightarrow> string \<Rightarrow> classification" where
  "classify ref subjectId =
     (let conflict = (\<lambda>reason. Conflicted \<lparr>xc_executionId = xr_executionId ref, xc_runId = xr_runId ref, xc_reason = reason\<rparr>)
      in if xr_isRunning ref then Running
         else if \<not> xr_isClosed ref then conflict Unknown_status
         else case xr_subjectIds ref of
                None \<Rightarrow> conflict Unreadable_subjects
              | Some ids \<Rightarrow>
                  if subjectId \<notin> set ids then conflict Stale_index
                  else if length ids \<noteq> 1 then conflict (Multi_subject (length ids - 1))
                  else Deletable)"

definition asDeletedRef :: "execution_ref \<Rightarrow> deleted_ref" where
  "asDeletedRef ref = \<lparr>dr_executionId = xr_executionId ref, dr_runId = xr_runId ref, dr_status = xr_status ref\<rparr>"

definition conflicts_of :: "string \<Rightarrow> execution_ref list \<Rightarrow> execution_conflict list" where
  "conflicts_of subjectId refs =
     List.map_filter (\<lambda>ref. case classify ref subjectId of Conflicted c \<Rightarrow> Some c | _ \<Rightarrow> None) refs"

fun delete_executions ::
    "temporal_client \<Rightarrow> string \<Rightarrow> deleted_ref list \<Rightarrow> call_log \<Rightarrow> call_log \<times> deleted_ref list \<times> execution_failure list" where
  "delete_executions client namespace [] calls = (calls, [], [])"
| "delete_executions client namespace (ref # refs) calls =
     (let failed = tc_delete client calls namespace (dr_executionId ref) (dr_runId ref);
          (calls', deleted, failures) = delete_executions client namespace refs
             (calls @ [Delete_execution namespace (dr_executionId ref) (dr_runId ref)])
      in case failed of
           None \<Rightarrow> (calls', ref # deleted, failures)
         | Some reason \<Rightarrow> (calls', deleted,
             \<lparr>xf_executionId = dr_executionId ref, xf_runId = dr_runId ref, xf_reason = reason\<rparr> # failures))"

record delete_options =
  do_namespace :: "string option"
  do_dryRun :: "bool option"
  do_limit :: "nat option"

definition deleteExecutionsForSubject ::
    "(jv \<Rightarrow> string) \<Rightarrow> temporal_client \<Rightarrow> string \<Rightarrow> delete_options \<Rightarrow> call_log
     \<Rightarrow> call_log \<times> (string, execution_report) result" where
  "deleteExecutionsForSubject text_of client subjectId opts calls =
     (if subjectId = [] \<or> trim subjectId \<noteq> subjectId then (calls, Inl ''untrimmed_subject'')
      else case (case do_namespace opts of Some n \<Rightarrow> Some n | None \<Rightarrow> tc_namespace client) of
        None \<Rightarrow> (calls, Inl ''no_namespace'')
      | Some namespace \<Rightarrow>
          if namespace = [] then (calls, Inl ''no_namespace'')
          else
            (let dryRun = (case do_dryRun opts of None \<Rightarrow> True | Some d \<Rightarrow> d);
                 limit = (case do_limit opts of None \<Rightarrow> 1000 | Some l \<Rightarrow> l)
             in case listExecutionsForSubject text_of client subjectId (Some limit) calls of
                  (calls1, Inl e) \<Rightarrow> (calls1, Inl e)
                | (calls1, Inr enumeration) \<Rightarrow>
                    (let refs = en_executions enumeration;
                         deletable = map asDeletedRef (filter (\<lambda>r. classify r subjectId = Deletable) refs);
                         (calls2, deleted, failures) =
                           (if dryRun then (calls1, [], []) else delete_executions client namespace deletable calls1)
                     in (calls2, Inr
                       \<lparr>xd_subject = subjectId, xd_dry = dryRun, xd_namespace = namespace, xd_matched = length refs,
                        xd_deletable = deletable, xd_deleted = deleted, xd_deletedCount = length deleted,
                        xd_conflicted = conflicts_of subjectId refs,
                        xd_stillRunning = map asDeletedRef (filter (\<lambda>r. classify r subjectId = Running) refs),
                        xd_failed = failures,
                        xd_notes = (if en_truncated enumeration then [Enumeration_limit subjectId limit] else [])\<rparr>))))"

section \<open>What is enumerated and deleted\<close>

lemma enumerate_rows_spec:
  "enumerate_rows text_of limit items failed refs = Inr en \<Longrightarrow> length refs \<le> limit \<Longrightarrow>
     en_executions en = refs @ map (execution_ref_of text_of) (take (limit - length refs) items)
     \<and> (en_truncated en \<longleftrightarrow> limit - length refs < length items)
     \<and> (\<not> en_truncated en \<longrightarrow> failed = None)"
proof (induction items arbitrary: refs)
  case (Cons item items)
  show ?case
  proof (cases "limit \<le> length refs")
    case False
    then have "limit - length refs = Suc (limit - Suc (length refs))" by simp
    with Cons.IH [of "refs @ [execution_ref_of text_of item]"] Cons.prems False
    show ?thesis by simp
  qed (use Cons.prems in auto)
qed (auto split: option.splits)

lemma classify_deletable:
  "classify ref subjectId = Deletable \<longleftrightarrow> xr_isClosed ref \<and> \<not> xr_isRunning ref \<and> xr_subjectIds ref = Some [subjectId]"
  by (auto simp: classify_def Let_def length_Suc_conv split: option.splits)

text \<open>An execution the subject has to itself and that is over.\<close>

definition dedicated :: "(jv \<Rightarrow> string) \<Rightarrow> string \<Rightarrow> list_item \<Rightarrow> bool" where
  "dedicated text_of subjectId item \<longleftrightarrow>
     (\<exists>s\<in>set CLOSED_STATUS_NAMES. statusName (li_status item) = Some s)
     \<and> readSubjectIds text_of item = Some [subjectId]"

lemma deletable_dedicated:
  "classify (execution_ref_of text_of item) subjectId = Deletable \<longleftrightarrow> dedicated text_of subjectId item"
  by (auto simp: classify_deletable execution_ref_of_def dedicated_def Let_def CLOSED_STATUS_NAMES_def split: option.splits)

definition delete_call :: "string \<Rightarrow> deleted_ref \<Rightarrow> outside_call" where
  "delete_call namespace ref = Delete_execution namespace (dr_executionId ref) (dr_runId ref)"

lemma delete_executions_spec:
  "delete_executions client namespace refs calls = (calls', deleted, failures) \<Longrightarrow>
     calls' = calls @ map (delete_call namespace) refs
     \<and> length deleted + length failures = length refs \<and> set deleted \<subseteq> set refs
     \<and> (\<forall>ref\<in>set refs. ref \<in> set deleted \<or> (\<exists>f\<in>set failures. xf_executionId f = dr_executionId ref \<and> xf_runId f = dr_runId ref))"
proof (induction refs arbitrary: calls calls' deleted failures)
  case (Cons ref refs)
  obtain calls1 d f where r: "delete_executions client namespace refs (calls @ [delete_call namespace ref]) = (calls1, d, f)"
    by (metis prod_cases3)
  from Cons.IH [OF r] Cons.prems r show ?case
    by (auto simp: delete_call_def Let_def split: option.splits)
qed simp

definition item_call :: "string \<Rightarrow> list_item \<Rightarrow> outside_call" where
  "item_call namespace item =
     Delete_execution namespace (case li_workflowId item of None \<Rightarrow> [] | Some i \<Rightarrow> i) (li_runId item)"

lemma delete_call_item: "delete_call namespace (asDeletedRef (execution_ref_of text_of item)) = item_call namespace item"
  by (simp add: delete_call_def asDeletedRef_def execution_ref_of_def item_call_def Let_def)

text \<open>The rows an executed run deletes: within the limit, over, and of this subject alone.\<close>

definition dedicated_rows :: "(jv \<Rightarrow> string) \<Rightarrow> string \<Rightarrow> nat option \<Rightarrow> list_item list \<Rightarrow> list_item list" where
  "dedicated_rows text_of subjectId limit items =
     filter (dedicated text_of subjectId) (take (case limit of None \<Rightarrow> 1000 | Some l \<Rightarrow> l) items)"

lemma driver_cases:
  assumes "deleteExecutionsForSubject text_of client subjectId opts calls = (calls', Inr report)"
  obtains items failed en where "tc_list client calls (subjectIndexQuery subjectId) = (items, failed)"
    and "xd_deletable report = map (asDeletedRef \<circ> execution_ref_of text_of)
           (dedicated_rows text_of subjectId (do_limit opts) items)"
    and "xd_namespace report \<noteq> []" and "xd_dry report = (do_dryRun opts \<noteq> Some False)"
    and "xd_deletedCount report = length (xd_deleted report)"
    and "(calls', xd_deleted report, xd_failed report) =
       (if xd_dry report then (calls @ [List_executions (subjectIndexQuery subjectId)], [], [])
        else delete_executions client (xd_namespace report) (xd_deletable report)
               (calls @ [List_executions (subjectIndexQuery subjectId)]))"
proof -
  let ?limit = "case do_limit opts of None \<Rightarrow> 1000 | Some l \<Rightarrow> l"
  obtain items failed where l: "tc_list client calls (subjectIndexQuery subjectId) = (items, failed)" by fastforce
  let ?asked = "calls @ [List_executions (subjectIndexQuery subjectId)]"
  have trimmed: "\<not> (subjectId = [] \<or> trim subjectId \<noteq> subjectId)"
    using assms by (intro notI) (simp add: deleteExecutionsForSubject_def)
  have "(case do_namespace opts of Some n \<Rightarrow> Some n | None \<Rightarrow> tc_namespace client) \<noteq> None"
    using assms trimmed by (intro notI) (simp add: deleteExecutionsForSubject_def)
  then obtain namespace where
    which: "(case do_namespace opts of Some n \<Rightarrow> Some n | None \<Rightarrow> tc_namespace client) = Some namespace" by blast
  have ns: "namespace \<noteq> []"
    using assms trimmed by (intro notI) (simp add: deleteExecutionsForSubject_def which)
  have listed: "listExecutionsForSubject text_of client subjectId (Some ?limit) calls =
      (?asked, enumerate_rows text_of ?limit items failed [])"
    using l by (simp add: listExecutionsForSubject_def)
  let ?deletable = "\<lambda>en. map asDeletedRef (filter (\<lambda>r. classify r subjectId = Deletable) (en_executions en))"
  have dry: "(case do_dryRun opts of None \<Rightarrow> True | Some d \<Rightarrow> d) = (do_dryRun opts \<noteq> Some False)"
    by (cases "do_dryRun opts") auto
  from assms obtain en where en: "enumerate_rows text_of ?limit items failed [] = Inr en"
    using ns trimmed by (simp add: deleteExecutionsForSubject_def which listed Let_def) (auto split: sum.splits)
  obtain calls2 deleted failures where del:
    "(if do_dryRun opts \<noteq> Some False then (?asked, [], []) else delete_executions client namespace (?deletable en) ?asked)
       = (calls2, deleted, failures)" by (metis prod_cases3)
  have report: "calls' = calls2" "xd_namespace report = namespace" "xd_dry report = (do_dryRun opts \<noteq> Some False)"
      "xd_deletable report = ?deletable en" "xd_deleted report = deleted" "xd_failed report = failures"
      "xd_deletedCount report = length deleted"
    using assms ns trimmed del
    by (auto simp: deleteExecutionsForSubject_def which listed en dry Let_def split: if_splits)
  have "en_executions en = map (execution_ref_of text_of) (take ?limit items)"
    using enumerate_rows_spec [OF en] by simp
  then have "xd_deletable report = map (asDeletedRef \<circ> execution_ref_of text_of)
      (dedicated_rows text_of subjectId (do_limit opts) items)"
    by (simp add: report(4) dedicated_rows_def filter_map comp_def deletable_dedicated)
  with l ns del [symmetric] report show thesis by (intro that [of items failed]) (simp_all split: if_splits)
qed

text \<open>C16: The driver deletes exactly the executions that belong to the subject alone and are over. For every client:
  the calls it makes are the listing of the subject's query and, in an executed run, one deletion for each listed
  row within the limit whose status is a closed one and whose own subject list is exactly this subject, in order;
  in a dry run there is none. Each deletion is reported, as done or as failed.\<close>

theorem deletes_exactly_dedicated:
  assumes "deleteExecutionsForSubject text_of client subjectId opts calls = (calls', Inr report)"
    and "rows = dedicated_rows text_of subjectId (do_limit opts) (fst (tc_list client calls (subjectIndexQuery subjectId)))"
  shows "calls' = calls @ List_executions (subjectIndexQuery subjectId) #
        (if do_dryRun opts = Some False then map (item_call (xd_namespace report)) rows else [])
    \<and> xd_namespace report \<noteq> [] \<and> length (xd_deletable report) = length rows
    \<and> (do_dryRun opts = Some False \<longrightarrow> xd_deletedCount report + length (xd_failed report) = length rows)"
proof (rule driver_cases [OF assms(1)])
  fix items failed
  assume l: "tc_list client calls (subjectIndexQuery subjectId) = (items, failed)"
    and d: "xd_deletable report = map (asDeletedRef \<circ> execution_ref_of text_of)
           (dedicated_rows text_of subjectId (do_limit opts) items)"
    and ns: "xd_namespace report \<noteq> []" and dry: "xd_dry report = (do_dryRun opts \<noteq> Some False)"
    and n: "xd_deletedCount report = length (xd_deleted report)"
    and run: "(calls', xd_deleted report, xd_failed report) =
       (if xd_dry report then (calls @ [List_executions (subjectIndexQuery subjectId)], [], [])
        else delete_executions client (xd_namespace report) (xd_deletable report)
               (calls @ [List_executions (subjectIndexQuery subjectId)]))"
  have rows: "rows = dedicated_rows text_of subjectId (do_limit opts) items" using assms(2) l by simp
  have calls: "map (delete_call (xd_namespace report)) (xd_deletable report) = map (item_call (xd_namespace report)) rows"
    by (simp add: d rows delete_call_item)
  show ?thesis
  proof (cases "xd_dry report")
    case True
    with run dry d rows ns show ?thesis by simp
  next
    case False
    then have "delete_executions client (xd_namespace report) (xd_deletable report)
        (calls @ [List_executions (subjectIndexQuery subjectId)]) = (calls', xd_deleted report, xd_failed report)"
      using run by simp
    from delete_executions_spec [OF this] False dry d rows ns n calls show ?thesis by simp
  qed
qed

section \<open>An example\<close>

definition demo_row :: "string \<Rightarrow> string \<Rightarrow> string list \<Rightarrow> list_item" where
  "demo_row i status subjects = \<lparr>li_workflowId = Some i, li_runId = None, li_type = None,
     li_status = Some (Named (Some status)), li_startTime = None, li_closeTime = None,
     li_typed = Some (Typed (Some (JArr (map JStr subjects)))), li_attributes = None\<rparr>"

definition demo_client :: temporal_client where
  "demo_client = \<lparr>tc_list = (\<lambda>calls q. ([demo_row ''w1'' ''COMPLETED'' [''ann''], demo_row ''w2'' ''COMPLETED'' [''ann'', ''bob''],
       demo_row ''w3'' ''RUNNING'' [''ann''], demo_row ''w4'' ''PAUSED'' [''ann'']], None)),
     tc_delete = (\<lambda>calls n i r. None), tc_namespace = Some ''ns''\<rparr>"

theorem deletes_exactly_dedicated_witness:
  "\<exists>calls report. deleteExecutionsForSubject (\<lambda>_. []) demo_client ''ann''
       \<lparr>do_namespace = None, do_dryRun = Some False, do_limit = None\<rparr> [] = (calls, Inr report)
     \<and> calls = [List_executions (subjectIndexQuery ''ann''), Delete_execution ''ns'' ''w1'' None]"
proof -
  let ?o = "\<lparr>do_namespace = None, do_dryRun = Some False, do_limit = None\<rparr>"
  have "isl (snd (deleteExecutionsForSubject (\<lambda>_. []) demo_client ''ann'' ?o [])) = False" by code_simp
  then obtain calls report where d: "deleteExecutionsForSubject (\<lambda>_. []) demo_client ''ann'' ?o [] = (calls, Inr report)"
    by (metis isl_def prod.collapse sum.exhaust)
  have rows: "dedicated_rows (\<lambda>_. []) ''ann'' None (fst (tc_list demo_client [] (subjectIndexQuery ''ann'')))
      = [demo_row ''w1'' ''COMPLETED'' [''ann'']]"
    by (simp add: dedicated_rows_def demo_client_def dedicated_def demo_row_def statusName_def readSubjectIds_def
        entry_string_def CLOSED_STATUS_NAMES_def)
  have "xd_namespace report = ''ns''" using d by (auto simp: deleteExecutionsForSubject_def demo_client_def Let_def
      split: if_splits sum.splits prod.splits)
  with deletes_exactly_dedicated [OF d refl] rows d show ?thesis
    by (simp add: item_call_def demo_row_def)
qed

end
