(* ===== verification/Subject_Traces.thy ===== *)
theory Subject_Traces
  imports Subject_Executions
begin

text \<open>
  Finding and deleting the traces of a subject
  (\<open>packages/typescript/temporal-yaml/src/langfuse-observations.ts\<close>, \<open>subject-trace-deletion.ts\<close>): the pagination with
  its cursor check, the two channels, the ownership scan of every matched trace, and the batched deletion.
\<close>

section \<open>Pages of observations\<close>

text \<open>\<open>lc_usable\<close>: the client has both endpoints. A page is answered or the call throws.\<close>

record trace_client =
  lc_usable :: bool
  lc_getMany :: "call_log \<Rightarrow> observation_query \<Rightarrow> (string, jv) result"
  lc_deleteMultiple :: "call_log \<Rightarrow> string list \<Rightarrow> string option"

record observation_scan =
  os_rows :: "jv list"
  os_complete :: bool
  os_pages :: nat

definition is_object :: "jv \<Rightarrow> bool" where
  "is_object v \<longleftrightarrow> v \<noteq> JNull \<and> js_typeof v = T_object"

definition page_parts :: "jv \<Rightarrow> (jv list \<times> jv) option" where
  "page_parts response =
     (if \<not> is_object response then None
      else case (own_prop response ''data'', own_prop response ''meta'') of
             (Some (JArr rows), Some meta) \<Rightarrow>
               if is_object meta \<and> list_all is_object rows then Some (rows, meta) else None
           | _ \<Rightarrow> None)"

fun read_pages ::
    "trace_client \<Rightarrow> observation_query \<Rightarrow> nat \<Rightarrow> nat \<Rightarrow> string option \<Rightarrow> string list \<Rightarrow> jv list \<Rightarrow> call_log
     \<Rightarrow> call_log \<times> (string, observation_scan) result" where
  "read_pages client query 0 page cursor cursors rows calls =
     (calls, Inr \<lparr>os_rows = rows, os_complete = False, os_pages = page - 1\<rparr>)"
| "read_pages client query (Suc n) page cursor cursors rows calls =
     (let q = (case cursor of None \<Rightarrow> query | Some c \<Rightarrow> query\<lparr>oq_cursor := Some c\<rparr>);
          calls1 = calls @ [Get_observations q]
      in case lc_getMany client calls q of
           Inl e \<Rightarrow> (calls1, Inl e)
         | Inr response \<Rightarrow>
             (case page_parts response of
                None \<Rightarrow> (calls1, Inl ''invalid_page'')
              | Some (found, meta) \<Rightarrow>
                  (let finished = (calls1, Inr \<lparr>os_rows = rows @ found, os_complete = True, os_pages = page\<rparr>)
                   in case own_prop meta ''cursor'' of
                        None \<Rightarrow> finished
                      | Some JNull \<Rightarrow> finished
                      | Some (JStr c) \<Rightarrow>
                          if c = [] then finished
                          else if c \<in> set cursors then (calls1, Inl ''invalid_cursor'')
                          else read_pages client query n (Suc page) (Some c) (cursors @ [c]) (rows @ found) calls1
                      | Some _ \<Rightarrow> (calls1, Inl ''invalid_cursor''))))"

definition readLangfuseObservations ::
    "trace_client \<Rightarrow> observation_query \<Rightarrow> nat \<Rightarrow> call_log \<Rightarrow> call_log \<times> (string, observation_scan) result" where
  "readLangfuseObservations client query maxPages calls =
     (if maxPages < 1 then (calls, Inl ''invalid_max_pages'')
      else read_pages client query maxPages 1 (oq_cursor query)
             (case oq_cursor query of None \<Rightarrow> [] | Some c \<Rightarrow> [c]) [] calls)"

section \<open>Rows\<close>

fun is_text :: "jv \<Rightarrow> bool" where
  "is_text (JStr _) = True"
| "is_text _ = False"

fun text_value :: "jv \<Rightarrow> string" where
  "text_value (JStr s) = s"
| "text_value _ = []"

text \<open>\<open>[...new Set(xs)]\<close>\<close>

definition unique :: "string list \<Rightarrow> string list" where
  "unique xs = add_unseen xs []"

definition user_tag :: "jv \<Rightarrow> string list" where
  "user_tag row = (case own_prop row ''userId'' of
     Some (JStr u) \<Rightarrow> if u = [] then [] else [SUBJECT_TAG_PREFIX @ u] | _ \<Rightarrow> [])"

definition rowTags :: "jv \<Rightarrow> string list option" where
  "rowTags row =
     (case own_prop row ''tags'' of
        Some (JArr ts) \<Rightarrow> if list_all is_text ts then Some (unique (map text_value ts @ user_tag row)) else None
      | _ \<Rightarrow> None)"

definition row_trace :: "jv \<Rightarrow> string option" where
  "row_trace row = (case own_prop row ''traceId'' of Some (JStr t) \<Rightarrow> Some t | _ \<Rightarrow> None)"

section \<open>The two channels\<close>

datatype channel = By_tags "string list" | By_user string

definition channel_filter :: "channel \<Rightarrow> jv" where
  "channel_filter ch =
     (case ch of
        By_tags tags \<Rightarrow> JObj [(''type'', JStr ''arrayOptions''), (''column'', JStr ''traceTags''),
          (''operator'', JStr ''all of''), (''value'', JArr (map JStr tags))]
      | By_user u \<Rightarrow> JObj [(''type'', JStr ''string''), (''column'', JStr ''userId''),
          (''operator'', JStr ''=''), (''value'', JStr u)])"

definition time_filter :: "string \<Rightarrow> string option \<Rightarrow> jv list" where
  "time_filter operator bound =
     (case bound of None \<Rightarrow> []
      | Some t \<Rightarrow> [JObj [(''type'', JStr ''datetime''), (''column'', JStr ''startTime''),
          (''operator'', JStr operator), (''value'', JStr t)]])"

record channel_listing =
  ch_rows :: "(string \<times> string list option) list"
  ch_complete :: bool
  ch_pages :: nat

record scan_window =
  sw_since :: "string option"
  sw_until :: "string option"

definition trace_row :: "jv \<Rightarrow> (string \<times> string list option) option" where
  "trace_row row = (case row_trace row of None \<Rightarrow> None
     | Some t \<Rightarrow> if t = [] then None else Some (t, rowTags row))"

definition listing_query :: "channel \<Rightarrow> scan_window \<Rightarrow> observation_query" where
  "listing_query ch w =
     \<lparr>oq_traceId = None,
      oq_filter = Some (stringify (JArr (channel_filter ch # time_filter ''>='' (sw_since w) @ time_filter ''<'' (sw_until w)))),
      oq_limit = 100, oq_fields = ''core,basic,trace_context'', oq_cursor = None\<rparr>"

definition listSubjectTraceRows ::
    "trace_client \<Rightarrow> channel \<Rightarrow> scan_window \<Rightarrow> nat \<Rightarrow> call_log \<Rightarrow> call_log \<times> (string, channel_listing) result" where
  "listSubjectTraceRows client ch w maxPages calls =
     (let (calls1, r) = readLangfuseObservations client (listing_query ch w) maxPages calls
      in (calls1, rbind r (\<lambda>scan. Inr \<lparr>ch_rows = List.map_filter trace_row (os_rows scan),
            ch_complete = os_complete scan, ch_pages = os_pages scan\<rparr>)))"

definition channelTruncationWarnings :: "string \<Rightarrow> string \<Rightarrow> channel_listing \<Rightarrow> nat \<Rightarrow> erase_warning list" where
  "channelTruncationWarnings subjectId name listing maxPages =
     (if ch_complete listing then [] else [Channel_incomplete subjectId name (ch_pages listing) maxPages])"

text \<open>What is known of the tags of each trace: \<open>Some None\<close> when no row so far was readable.\<close>

fun merge_tags ::
    "(string \<times> string list option) list \<Rightarrow> (string \<rightharpoonup> string list option) \<Rightarrow> (string \<rightharpoonup> string list option)" where
  "merge_tags [] tagsById = tagsById"
| "merge_tags ((t, None) # rows) tagsById =
     merge_tags rows (if tagsById t = None then tagsById(t \<mapsto> None) else tagsById)"
| "merge_tags ((t, Some tags) # rows) tagsById =
     merge_tags rows (tagsById(t \<mapsto> Some (case tagsById t of Some (Some known) \<Rightarrow> add_unseen tags known | _ \<Rightarrow> tags)))"

section \<open>Ownership\<close>

record trace_conflict =
  tx_traceId :: string
  tx_otherSubjectCount :: "nat option"

datatype ownership = Own | Others nat | Unreadable

definition detail_query :: "string \<Rightarrow> observation_query" where
  "detail_query traceId = \<lparr>oq_traceId = Some traceId, oq_filter = None, oq_limit = 1000,
     oq_fields = ''core,basic,trace_context'', oq_cursor = None\<rparr>"

definition other_markers :: "string \<Rightarrow> string list \<Rightarrow> string list" where
  "other_markers subjectId tags =
     filter (\<lambda>tag. starts_with SUBJECT_TAG_PREFIX tag \<and> tag \<noteq> SUBJECT_TAG_PREFIX @ subjectId) tags"

definition known_tags :: "(string \<rightharpoonup> string list option) \<Rightarrow> string \<Rightarrow> string list" where
  "known_tags tagsById t = (case tagsById t of Some (Some tags) \<Rightarrow> tags | _ \<Rightarrow> [])"

definition detail_tags :: "observation_scan \<Rightarrow> string list" where
  "detail_tags scan = concat (map (\<lambda>row. case rowTags row of None \<Rightarrow> [] | Some tags \<Rightarrow> tags) (os_rows scan))"

definition ownership_of ::
    "string \<Rightarrow> (string \<rightharpoonup> string list option) \<Rightarrow> string \<Rightarrow> observation_scan \<Rightarrow> ownership" where
  "ownership_of subjectId tagsById traceId scan =
     (if \<not> os_complete scan \<or> os_rows scan = [] \<or>
         (\<exists>row\<in>set (os_rows scan). row_trace row \<noteq> Some traceId \<or> rowTags row = None) then Unreadable
      else (let others = length (other_markers subjectId (unique (known_tags tagsById traceId @ detail_tags scan)))
            in if 0 < others then Others others else Own))"

fun sort_traces ::
    "trace_client \<Rightarrow> string \<Rightarrow> nat \<Rightarrow> (string \<rightharpoonup> string list option) \<Rightarrow> string list \<Rightarrow> call_log
     \<Rightarrow> call_log \<times> (string, string list \<times> trace_conflict list \<times> erase_warning list) result" where
  "sort_traces client subjectId maxPages tagsById [] calls = (calls, Inr ([], [], []))"
| "sort_traces client subjectId maxPages tagsById (t # ts) calls =
     (case readLangfuseObservations client (detail_query t) (min maxPages 100) calls of
        (calls1, Inl e) \<Rightarrow> (calls1, Inl e)
      | (calls1, Inr scan) \<Rightarrow>
          (let (calls2, r) = sort_traces client subjectId maxPages tagsById ts calls1
           in (calls2, rbind r (\<lambda>(ids, conflicts, warnings). Inr
                (case ownership_of subjectId tagsById t scan of
                   Own \<Rightarrow> (t # ids, conflicts, warnings)
                 | Others n \<Rightarrow> (ids, \<lparr>tx_traceId = t, tx_otherSubjectCount = Some n\<rparr> # conflicts, warnings)
                 | Unreadable \<Rightarrow> (ids, \<lparr>tx_traceId = t, tx_otherSubjectCount = None\<rparr> # conflicts,
                                  Ownership_unreadable t # warnings))))))"

section \<open>Deletion\<close>

record trace_failure =
  tf_traceId :: string
  tf_reason :: string

record trace_report =
  td_subject :: string
  td_dry :: bool
  td_matchedByTag :: "string list"
  td_matchedByUserId :: "string list"
  td_traceIds :: "string list"
  td_deletedCount :: nat
  td_failed :: "trace_failure list"
  td_conflicted :: "trace_conflict list"
  td_notes :: "erase_warning list"

function chunked :: "nat \<Rightarrow> 'a list \<Rightarrow> 'a list list" where
  "chunked n xs = (if xs = [] \<or> n = 0 then [] else take n xs # chunked n (drop n xs))"
  by pat_completeness auto
termination by (relation "measure (length \<circ> snd)") auto

declare chunked.simps [simp del]

fun delete_batches ::
    "trace_client \<Rightarrow> string list list \<Rightarrow> call_log \<Rightarrow> call_log \<times> nat \<times> trace_failure list" where
  "delete_batches client [] calls = (calls, 0, [])"
| "delete_batches client (batch # batches) calls =
     (let (calls', n, failures) = delete_batches client batches (calls @ [Delete_traces batch])
      in case lc_deleteMultiple client calls batch of
           None \<Rightarrow> (calls', length batch + n, failures)
         | Some reason \<Rightarrow> (calls', n, map (\<lambda>t. \<lparr>tf_traceId = t, tf_reason = reason\<rparr>) batch @ failures))"

record trace_options =
  to_dryRun :: "bool option"
  to_window :: scan_window
  to_maxListPages :: "nat option"

definition deleteTracesForSubject ::
    "trace_client \<Rightarrow> string \<Rightarrow> trace_options \<Rightarrow> call_log \<Rightarrow> call_log \<times> (string, trace_report) result" where
  "deleteTracesForSubject client subjectId opts calls =
     (if \<not> lc_usable client then (calls, Inl ''unsupported'')
      else
        (let dryRun = (case to_dryRun opts of None \<Rightarrow> True | Some d \<Rightarrow> d);
             maxPages = (case to_maxListPages opts of None \<Rightarrow> 10000 | Some n \<Rightarrow> n);
             ownTag = SUBJECT_TAG_PREFIX @ subjectId
         in case listSubjectTraceRows client (By_tags [ownTag]) (to_window opts) maxPages calls of
              (calls1, Inl e) \<Rightarrow> (calls1, Inl e)
            | (calls1, Inr tagListing) \<Rightarrow>
          (case listSubjectTraceRows client (By_user subjectId) (to_window opts) maxPages calls1 of
              (calls2, Inl e) \<Rightarrow> (calls2, Inl e)
            | (calls2, Inr userListing) \<Rightarrow>
          (let tagsById = merge_tags (ch_rows tagListing @ ch_rows userListing) Map.empty;
               matchedByTag = unique (map fst (ch_rows tagListing));
               matchedByUserId = unique (map fst (ch_rows userListing))
           in case sort_traces client subjectId maxPages tagsById (unique (matchedByTag @ matchedByUserId)) calls2 of
                (calls3, Inl e) \<Rightarrow> (calls3, Inl e)
              | (calls3, Inr (traceIds, conflicted, unread)) \<Rightarrow>
                  (let (calls4, deletedCount, failures) =
                         (if dryRun then (calls3, 0, []) else delete_batches client (chunked 100 traceIds) calls3)
                   in (calls4, Inr
                     \<lparr>td_subject = subjectId, td_dry = dryRun, td_matchedByTag = matchedByTag,
                      td_matchedByUserId = matchedByUserId, td_traceIds = traceIds, td_deletedCount = deletedCount,
                      td_failed = failures, td_conflicted = conflicted,
                      td_notes = channelTruncationWarnings subjectId ''tag'' tagListing maxPages
                        @ channelTruncationWarnings subjectId ''user_id'' userListing maxPages @ unread\<rparr>))))))"

section \<open>Reading is reading\<close>

definition reads :: "outside_call \<Rightarrow> bool" where
  "reads c \<longleftrightarrow> (case c of Get_observations _ \<Rightarrow> True | List_executions _ \<Rightarrow> True | _ \<Rightarrow> False)"

definition only_reads :: "call_log \<Rightarrow> call_log \<Rightarrow> bool" where
  "only_reads calls calls' \<longleftrightarrow> (\<exists>new. calls' = calls @ new \<and> list_all reads new)"

lemma only_reads_refl [simp]: "only_reads calls calls"
  by (simp add: only_reads_def)

lemma only_reads_trans [trans]: "only_reads a b \<Longrightarrow> only_reads b c \<Longrightarrow> only_reads a c"
  by (auto simp: only_reads_def)

lemma only_reads_snoc [simp]: "reads c \<Longrightarrow> only_reads calls (calls @ [c])"
  by (simp add: only_reads_def)

lemma reads_simps [simp]: "reads (Get_observations q)" "reads (List_executions s)"
  "\<not> reads (Delete_execution n i r)" "\<not> reads (Delete_traces ids)"
  by (simp_all add: reads_def)

text \<open>The pages the service answered in a stretch of the log, with the query of each.\<close>

fun replies :: "trace_client \<Rightarrow> call_log \<Rightarrow> call_log \<Rightarrow> (observation_query \<times> jv) list" where
  "replies client calls [] = []"
| "replies client calls (c # cs) =
     (case c of Get_observations q \<Rightarrow> (case lc_getMany client calls q of Inl e \<Rightarrow> [] | Inr r \<Rightarrow> [(q, r)]) | _ \<Rightarrow> [])
     @ replies client (calls @ [c]) cs"

lemma replies_append: "replies client calls (xs @ ys) = replies client calls xs @ replies client (calls @ xs) ys"
  by (induction xs arbitrary: calls) simp_all

lemma replies_length: "length (replies client calls cs) \<le> length cs"
  by (induction cs arbitrary: calls) (auto simp: le_SucI split: outside_call.split sum.split)

definition reply_rows :: "jv \<Rightarrow> jv list" where
  "reply_rows r = (case own_prop r ''data'' of Some (JArr rows) \<Rightarrow> rows | _ \<Rightarrow> [])"

definition all_rows :: "jv list \<Rightarrow> jv list" where
  "all_rows rs = concat (map reply_rows rs)"

lemma all_rows_simps [simp]: "all_rows [] = []" "all_rows (r # rs) = reply_rows r @ all_rows rs"
  "all_rows (rs @ rs') = all_rows rs @ all_rows rs'"
  by (simp_all add: all_rows_def)

text \<open>The page that ends a pagination carries no cursor.\<close>

definition last_reply :: "jv \<Rightarrow> bool" where
  "last_reply r \<longleftrightarrow> (\<exists>meta. own_prop r ''meta'' = Some meta
     \<and> own_prop meta ''cursor'' \<in> {None, Some JNull, Some (JStr [])})"

lemma page_parts_rows: "page_parts r = Some (rows, meta) \<Longrightarrow> reply_rows r = rows \<and> own_prop r ''meta'' = Some meta"
  by (auto simp: page_parts_def reply_rows_def split: if_splits option.splits jv.splits)

lemma read_pages_replies:
  "read_pages client query n page cursor cursors rows calls = (calls', Inr scan) \<Longrightarrow>
   \<exists>new. calls' = calls @ new \<and> list_all reads new \<and> length new \<le> n
     \<and> os_rows scan = rows @ all_rows (map snd (replies client calls new))
     \<and> (\<forall>x\<in>set (replies client calls new). oq_traceId (fst x) = oq_traceId query)
     \<and> (os_complete scan \<longrightarrow> (\<exists>r\<in>set (map snd (replies client calls new)). last_reply r))"
proof (induction n arbitrary: page cursor cursors rows calls)
  case 0
  then show ?case by (intro exI [of _ "[]"]) auto
next
  case (Suc n)
  define q where "q = (case cursor of None \<Rightarrow> query | Some c \<Rightarrow> query\<lparr>oq_cursor := Some c\<rparr>)"
  have tid: "oq_traceId q = oq_traceId query" by (simp add: q_def split: option.split)
  from Suc.prems obtain r where r: "lc_getMany client calls q = Inr r"
    by (auto simp: q_def [symmetric] Let_def split: sum.splits)
  from Suc.prems r obtain found meta where pp: "page_parts r = Some (found, meta)"
    by (auto simp: q_def [symmetric] Let_def split: option.splits)
  note pr = page_parts_rows [OF pp]
  show ?case
  proof (cases "own_prop meta ''cursor'' \<in> {None, Some JNull, Some (JStr [])}")
    case True
    with Suc.prems r pp have "calls' = calls @ [Get_observations q]" "os_rows scan = rows @ found"
      by (auto simp: q_def [symmetric] Let_def)
    moreover from True pr have "last_reply r" by (auto simp: last_reply_def)
    ultimately show ?thesis using r pr tid by (intro exI [of _ "[Get_observations q]"]) simp
  next
    case False
    with Suc.prems r pp obtain c where
      "read_pages client query n (Suc page) (Some c) (cursors @ [c]) (rows @ found) (calls @ [Get_observations q])
         = (calls', Inr scan)"
      by (auto simp: q_def [symmetric] Let_def split: option.splits jv.splits if_splits)
    from Suc.IH [OF this] obtain new where new: "calls' = (calls @ [Get_observations q]) @ new" "list_all reads new"
      "length new \<le> n" "os_rows scan = (rows @ found) @ all_rows (map snd (replies client (calls @ [Get_observations q]) new))"
      "\<forall>x\<in>set (replies client (calls @ [Get_observations q]) new). oq_traceId (fst x) = oq_traceId query"
      "os_complete scan \<longrightarrow> (\<exists>r\<in>set (map snd (replies client (calls @ [Get_observations q]) new)). last_reply r)"
      by blast
    then show ?thesis using r pr tid by (intro exI [of _ "Get_observations q # new"]) auto
  qed
qed

lemma readLangfuse_spec:
  assumes "readLangfuseObservations client query n calls = (calls', Inr scan)"
  shows "\<exists>new. calls' = calls @ new \<and> list_all reads new \<and> length new \<le> n
     \<and> os_rows scan = all_rows (map snd (replies client calls new))
     \<and> (\<forall>x\<in>set (replies client calls new). oq_traceId (fst x) = oq_traceId query)
     \<and> (os_complete scan \<longrightarrow> (\<exists>r\<in>set (map snd (replies client calls new)). last_reply r))"
proof -
  from assms have "read_pages client query n 1 (oq_cursor query)
      (case oq_cursor query of None \<Rightarrow> [] | Some c \<Rightarrow> [c]) [] calls = (calls', Inr scan)"
    by (auto simp: readLangfuseObservations_def split: if_splits)
  from read_pages_replies [OF this] show ?thesis by simp
qed

lemma read_pages_reads: "only_reads calls (fst (read_pages client query n page cursor cursors rows calls))"
proof (induction n arbitrary: page cursor cursors rows calls)
  case (Suc n)
  have "only_reads calls (calls @ [Get_observations q])" for q by simp
  then show ?case using only_reads_trans [OF _ Suc.IH]
    by (auto simp: Let_def split: sum.splits option.splits jv.splits)
qed simp

lemma readLangfuse_reads: "only_reads calls (fst (readLangfuseObservations client query maxPages calls))"
  by (simp add: readLangfuseObservations_def read_pages_reads)

lemma listing_reads: "only_reads calls (fst (listSubjectTraceRows client ch w maxPages calls))"
  using readLangfuse_reads [of calls client "listing_query ch w" maxPages]
  by (auto simp: listSubjectTraceRows_def split: prod.splits)

section \<open>What is known of a trace\<close>

lemma set_unique [simp]: "set (unique xs) = set xs"
  using add_unseen_spec [of "[]" xs] by (simp add: unique_def)

lemma add_unseen_unique: "add_unseen (unique xs) acc = add_unseen xs acc"
proof -
  let ?f = "\<lambda>v acc. if v \<in> set acc then acc else acc @ [v]"
  have "fold ?f (fold ?f xs ys) acc = fold ?f xs (fold ?f ys acc)" for ys :: "string list"
  proof (induction xs arbitrary: ys)
    case (Cons x xs)
    have "set (fold ?f ys acc) = set acc \<union> set ys" for ys
      by (induction ys arbitrary: acc) auto
    with Cons show ?case by simp
  qed simp
  from this [of "[]"] show ?thesis by (simp add: unique_def add_unseen_def)
qed

lemma unique_append_unique: "unique (unique xs @ unique ys) = unique (xs @ ys)"
proof -
  have "add_unseen (unique xs @ unique ys) [] = add_unseen (unique ys) (add_unseen (unique xs) [])"
    by (simp add: add_unseen_def)
  also have "\<dots> = add_unseen (xs @ ys) []" by (simp add: add_unseen_unique) (simp add: add_unseen_def)
  finally show ?thesis by (simp add: unique_def)
qed

lemma set_add_unseen: "set (add_unseen vs acc) = set acc \<union> set vs"
  unfolding add_unseen_def by (induction vs arbitrary: acc) auto

lemma known_tags_grow: "set (known_tags m t) \<subseteq> set (known_tags (merge_tags rows m) t)"
proof (induction rows m rule: merge_tags.induct)
  case (2 t' rows m)
  then show ?case by (auto simp: known_tags_def split: option.splits if_splits)
next
  case (3 t' tags rows m)
  have "set (known_tags m t) \<subseteq> set (known_tags (m(t' \<mapsto> Some (case m t' of Some (Some known) \<Rightarrow> add_unseen tags known | _ \<Rightarrow> tags))) t)"
    by (auto simp: known_tags_def set_add_unseen split: option.splits)
  from subset_trans [OF this 3] show ?case by (simp only: merge_tags.simps)
qed simp

lemma known_tags_rows: "(t, Some tags) \<in> set rows \<Longrightarrow> set tags \<subseteq> set (known_tags (merge_tags rows m) t)"
proof (induction rows m rule: merge_tags.induct)
  case (3 t' tags' rows m)
  let ?m = "m(t' \<mapsto> Some (case m t' of Some (Some known) \<Rightarrow> add_unseen tags' known | _ \<Rightarrow> tags'))"
  show ?case
  proof (cases "(t, Some tags) \<in> set rows")
    case True
    from 3(1) [OF this] show ?thesis by (simp only: merge_tags.simps)
  next
    case False
    with 3 have "t' = t" "tags' = tags" by auto
    then have "set tags \<subseteq> set (known_tags ?m t)" by (auto simp: known_tags_def set_add_unseen split: option.splits)
    also have "\<dots> \<subseteq> set (known_tags (merge_tags rows ?m) t)" by (rule known_tags_grow)
    finally show ?thesis by (simp only: merge_tags.simps)
  qed
qed simp_all

lemma other_markers_subset: "other_markers s tags = [] \<Longrightarrow> set tags' \<subseteq> set tags \<Longrightarrow> other_markers s tags' = []"
  by (auto simp: other_markers_def filter_empty_conv)

text \<open>What a row says, read off its fields: the trace it is of, whether its tags are a list of texts, and the subjects
  it names, by a tag or as its user.\<close>

definition about :: "string \<Rightarrow> jv \<Rightarrow> bool" where
  "about t row \<longleftrightarrow> own_prop row ''traceId'' = Some (JStr t)"

definition readable :: "jv \<Rightarrow> bool" where
  "readable row \<longleftrightarrow> (\<exists>ts. own_prop row ''tags'' = Some (JArr (map JStr ts)))"

definition names_subject :: "jv \<Rightarrow> string \<Rightarrow> bool" where
  "names_subject row s \<longleftrightarrow>
     (\<exists>ts. own_prop row ''tags'' = Some (JArr (map JStr ts)) \<and> ''typeflux.subject:'' @ s \<in> set ts)
     \<or> own_prop row ''userId'' = Some (JStr s) \<and> s \<noteq> []"

lemma row_trace_about: "row_trace row = Some t \<longleftrightarrow> about t row"
  by (auto simp: row_trace_def about_def split: option.splits jv.splits)

lemma all_text: "list_all is_text xs \<Longrightarrow> map JStr (map text_value xs) = xs"
  by (induction xs) (auto elim: is_text.elims)

lemma readable_rowTags: "readable row \<longleftrightarrow> rowTags row \<noteq> None"
proof
  assume "rowTags row \<noteq> None"
  then obtain xs where "own_prop row ''tags'' = Some (JArr xs)" "list_all is_text xs"
    by (auto simp: rowTags_def split: option.splits jv.splits if_splits)
  then show "readable row" unfolding readable_def by (metis all_text)
qed (auto simp: readable_def rowTags_def list_all_iff)

lemma names_tagged:
  assumes "rowTags row = Some tags" "names_subject row s"
  shows "SUBJECT_TAG_PREFIX @ s \<in> set tags"
proof -
  from assms(1) obtain xs where xs: "own_prop row ''tags'' = Some (JArr xs)" "list_all is_text xs"
      "tags = unique (map text_value xs @ user_tag row)"
    by (auto simp: rowTags_def split: option.splits jv.splits if_splits)
  then have tags: "set tags = text_value ` set xs \<union> set (user_tag row)" by simp
  from assms(2) show ?thesis unfolding names_subject_def
  proof
    assume "\<exists>ts. own_prop row ''tags'' = Some (JArr (map JStr ts)) \<and> ''typeflux.subject:'' @ s \<in> set ts"
    then show ?thesis using xs(1) unfolding tags by (force simp: SUBJECT_TAG_PREFIX_def image_image)
  next
    assume "own_prop row ''userId'' = Some (JStr s) \<and> s \<noteq> []"
    then show ?thesis unfolding tags by (simp add: user_tag_def)
  qed
qed

lemma names_own:
  assumes "rowTags row = Some tags" "other_markers s tags = []" "names_subject row u"
  shows "u = s"
  using names_tagged [OF assms(1,3)] assms(2) by (auto simp: other_markers_def filter_empty_conv starts_with_def)

text \<open>The pages of the listings, and the pages of the scan of a trace.\<close>

definition listing_pages :: "(observation_query \<times> jv) list \<Rightarrow> jv list" where
  "listing_pages rs = map snd (filter (\<lambda>x. oq_traceId (fst x) = None) rs)"

definition scan_pages :: "string \<Rightarrow> (observation_query \<times> jv) list \<Rightarrow> jv list" where
  "scan_pages t rs = map snd (filter (\<lambda>x. oq_traceId (fst x) = Some t) rs)"

lemma pages_append [simp]:
  "listing_pages (rs @ rs') = listing_pages rs @ listing_pages rs'" "scan_pages t (rs @ rs') = scan_pages t rs @ scan_pages t rs'"
  by (simp_all add: listing_pages_def scan_pages_def)

lemma pages_all:
  "\<forall>x\<in>set rs. oq_traceId (fst x) = None \<Longrightarrow> listing_pages rs = map snd rs"
  "\<forall>x\<in>set rs. oq_traceId (fst x) = Some t \<Longrightarrow> scan_pages t rs = map snd rs"
  by (simp_all add: listing_pages_def scan_pages_def)

lemma pages_none:
  "\<forall>x\<in>set rs. \<exists>u\<in>us. oq_traceId (fst x) = Some u \<Longrightarrow> listing_pages rs = []"
  "\<forall>x\<in>set rs. oq_traceId (fst x) = None \<Longrightarrow> scan_pages t rs = []"
  by (auto simp: listing_pages_def scan_pages_def filter_empty_conv)

lemma scan_pages_others:
  "\<forall>x\<in>set rs. \<exists>u\<in>us. oq_traceId (fst x) = Some u \<Longrightarrow> t \<notin> us \<Longrightarrow> scan_pages t rs = []"
  by (fastforce simp: scan_pages_def filter_empty_conv)

text \<open>A trace is provably the subject's by the pages of its scan and of the listings: the scan came to its end, it
  returned rows, all of them of this trace, readable and naming no one else; and no readable row of the listings
  that is of this trace names anyone else.\<close>

definition clean_scan :: "string \<Rightarrow> string \<Rightarrow> jv list \<Rightarrow> bool" where
  "clean_scan subjectId t pages \<longleftrightarrow> length pages \<le> 100 \<and> (\<exists>r\<in>set pages. last_reply r) \<and> all_rows pages \<noteq> []
     \<and> (\<forall>row\<in>set (all_rows pages). about t row \<and> readable row \<and> (\<forall>s. names_subject row s \<longrightarrow> s = subjectId))"

definition clean_listing :: "string \<Rightarrow> string \<Rightarrow> jv list \<Rightarrow> bool" where
  "clean_listing subjectId t pages \<longleftrightarrow> (\<exists>row\<in>set (all_rows pages). about t row)
     \<and> (\<forall>row\<in>set (all_rows pages). about t row \<and> readable row \<longrightarrow> (\<forall>s. names_subject row s \<longrightarrow> s = subjectId))"

lemma own_clean:
  assumes own: "ownership_of s (merge_tags listed Map.empty) t scan = Own" and rows: "os_rows scan = all_rows pages"
    and len: "length pages \<le> 100" and last: "os_complete scan \<longrightarrow> (\<exists>r\<in>set pages. last_reply r)"
  shows "clean_scan s t pages \<and> (\<forall>tags. (t, Some tags) \<in> set listed \<longrightarrow> other_markers s tags = [])"
proof -
  let ?known = "known_tags (merge_tags listed Map.empty) t"
  from own have ok: "os_complete scan" "os_rows scan \<noteq> []"
      "\<forall>row\<in>set (os_rows scan). row_trace row = Some t \<and> rowTags row \<noteq> None"
    and none: "other_markers s (unique (?known @ detail_tags scan)) = []"
    by (auto simp: ownership_of_def Let_def split: if_splits)
  have clean: "other_markers s tags = []" if "set tags \<subseteq> set ?known \<union> set (detail_tags scan)" for tags
    by (rule other_markers_subset [OF none]) (use that in simp)
  have row: "other_markers s tags = []" if "row \<in> set (os_rows scan)" "rowTags row = Some tags" for row tags
    by (rule clean) (use that in \<open>force simp: detail_tags_def\<close>)
  have "about t row \<and> readable row \<and> (\<forall>u. names_subject row u \<longrightarrow> u = s)" if "row \<in> set (os_rows scan)" for row
  proof -
    have "rowTags row \<noteq> None" using ok(3) that by blast
    then obtain tags where tags: "rowTags row = Some tags" by blast
    have "about t row" using ok(3) that by (simp add: row_trace_about)
    with tags row [OF that tags] names_own [OF tags] show ?thesis by (auto simp: readable_rowTags)
  qed
  moreover have "\<forall>tags. (t, Some tags) \<in> set listed \<longrightarrow> other_markers s tags = []"
    using known_tags_rows [of t _ listed Map.empty] by (intro allI impI clean) blast
  ultimately show ?thesis using ok(1,2) rows len last by (simp add: clean_scan_def)
qed

lemma sort_traces_spec:
  "sort_traces client s n (merge_tags listed Map.empty) ts calls = (calls', Inr (ids, conflicts, unread)) \<Longrightarrow> distinct ts \<Longrightarrow>
   \<exists>new. calls' = calls @ new \<and> list_all reads new
     \<and> (\<forall>x\<in>set (replies client calls new). \<exists>u\<in>set ts. oq_traceId (fst x) = Some u)
     \<and> (\<forall>t\<in>set ids. t \<in> set ts \<and> clean_scan s t (scan_pages t (replies client calls new))
          \<and> (\<forall>tags. (t, Some tags) \<in> set listed \<longrightarrow> other_markers s tags = []))"
proof (induction ts arbitrary: calls ids conflicts unread)
  case (Cons t ts)
  let ?scan = "readLangfuseObservations client (detail_query t) (min n 100) calls"
  from Cons.prems obtain calls1 scan where scan: "?scan = (calls1, Inr scan)"
    by (auto split: prod.splits sum.splits)
  let ?own = "ownership_of s (merge_tags listed Map.empty) t scan"
  obtain calls2 r where r: "sort_traces client s n (merge_tags listed Map.empty) ts calls1 = (calls2, r)" by fastforce
  with Cons.prems scan obtain found where found: "r = Inr found" and [simp]: "calls2 = calls'"
    by (auto simp: result_simps)
  obtain ids0 conflicts0 unread0 where [simp]: "found = (ids0, conflicts0, unread0)" by (metis prod_cases3)
  have rest: "sort_traces client s n (merge_tags listed Map.empty) ts calls1 = (calls', Inr (ids0, conflicts0, unread0))"
    using r found by simp
  have ids: "ids = (if ?own = Own then t # ids0 else ids0)"
    using Cons.prems scan rest by (cases ?own) auto
  from readLangfuse_spec [OF scan] obtain new1 where n1: "calls1 = calls @ new1" "list_all reads new1" "length new1 \<le> 100"
    "os_rows scan = all_rows (map snd (replies client calls new1))"
    "\<forall>x\<in>set (replies client calls new1). oq_traceId (fst x) = Some t"
    "os_complete scan \<longrightarrow> (\<exists>r\<in>set (map snd (replies client calls new1)). last_reply r)"
    by (auto simp: detail_query_def)
  from Cons.IH [OF rest] Cons.prems(2) obtain new2 where n2: "calls' = calls1 @ new2" "list_all reads new2"
    "\<forall>x\<in>set (replies client calls1 new2). \<exists>u\<in>set ts. oq_traceId (fst x) = Some u"
    "\<forall>u\<in>set ids0. u \<in> set ts \<and> clean_scan s u (scan_pages u (replies client calls1 new2))
       \<and> (\<forall>tags. (u, Some tags) \<in> set listed \<longrightarrow> other_markers s tags = [])" by auto
  have all: "replies client calls (new1 @ new2) = replies client calls new1 @ replies client calls1 new2"
    by (simp add: replies_append n1(1))
  have mine: "scan_pages t (replies client calls (new1 @ new2)) = map snd (replies client calls new1)"
    unfolding all using pages_all(2) [OF n1(5)] scan_pages_others [OF n2(3), of t] Cons.prems(2) by simp
  have other: "scan_pages u (replies client calls (new1 @ new2)) = scan_pages u (replies client calls1 new2)" if "u \<in> set ts" for u
    unfolding all using scan_pages_others [of "replies client calls new1" "{t}" u] n1(5) that Cons.prems(2) by auto
  have "length (map snd (replies client calls new1)) \<le> 100"
    using replies_length [of client calls new1] n1(3) by simp
  note own = own_clean [OF _ n1(4) this n1(6), of s listed t]
  show ?case
  proof (intro exI [of _ "new1 @ new2"] conjI ballI)
    fix u assume "u \<in> set ids"
    then consider "u = t" "?own = Own" | "u \<in> set ids0" using ids by (auto split: if_splits)
    then show "u \<in> set (t # ts)" "clean_scan s u (scan_pages u (replies client calls (new1 @ new2)))"
      "\<forall>tags. (u, Some tags) \<in> set listed \<longrightarrow> other_markers s tags = []"
      using own mine other n2(4) by (cases; auto)+
  qed (use n1 n2 in \<open>auto simp: all\<close>)
qed simp

lemma sort_traces_reads: "only_reads calls (fst (sort_traces client s n known ts calls))"
proof (induction ts arbitrary: calls)
  case (Cons t ts)
  obtain calls1 r where scan: "readLangfuseObservations client (detail_query t) (min n 100) calls = (calls1, r)" by fastforce
  with readLangfuse_reads [of calls client "detail_query t" "min n 100"] have "only_reads calls calls1" by simp
  with scan only_reads_trans [OF this Cons.IH] show ?case by (auto split: sum.splits prod.splits)
qed simp

section \<open>Batches\<close>

lemma chunked_spec: "0 < n \<Longrightarrow> concat (chunked n xs) = xs \<and> (\<forall>b\<in>set (chunked n xs). length b \<le> n \<and> b \<noteq> [])"
proof (induction n xs rule: chunked.induct)
  case (1 n xs)
  then show ?case by (subst (1 2) chunked.simps) auto
qed

lemma delete_batches_spec:
  "delete_batches client batches calls = (calls', n, failures) \<Longrightarrow>
     calls' = calls @ map Delete_traces batches \<and> n + length failures = length (concat batches)"
proof (induction batches arbitrary: calls calls' n failures)
  case (Cons b bs)
  obtain calls1 n1 f1 where r: "delete_batches client bs (calls @ [Delete_traces b]) = (calls1, n1, f1)" by (metis prod_cases3)
  from Cons.IH [OF r] Cons.prems r show ?case by (auto split: option.splits)
qed simp

text \<open>What a listing returned, against the pages the service answered.\<close>

lemma listing_spec:
  assumes "listSubjectTraceRows client ch w n calls = (calls', Inr l)"
  shows "\<exists>new. calls' = calls @ new \<and> list_all reads new
    \<and> (\<forall>x\<in>set (replies client calls new). oq_traceId (fst x) = None)
    \<and> ch_rows l = List.map_filter trace_row (all_rows (map snd (replies client calls new)))"
proof -
  from assms obtain scan where scan: "readLangfuseObservations client (listing_query ch w) n calls = (calls', Inr scan)"
    and l: "ch_rows l = List.map_filter trace_row (os_rows scan)"
    by (auto simp: listSubjectTraceRows_def result_simps split: prod.splits)
  from readLangfuse_spec [OF scan] l show ?thesis by (auto simp: listing_query_def)
qed

lemma trace_row_Some: "trace_row row = Some (t, tags) \<longleftrightarrow> about t row \<and> t \<noteq> [] \<and> tags = rowTags row"
  by (auto simp: trace_row_def row_trace_about [symmetric] split: option.splits)

lemma clean_listingI:
  assumes listed: "listed = List.map_filter trace_row (all_rows pages)" and t: "t \<in> fst ` set listed"
    and own: "\<forall>tags. (t, Some tags) \<in> set listed \<longrightarrow> other_markers s tags = []"
  shows "clean_listing s t pages"
proof -
  have mem: "(t, tags) \<in> set listed \<longleftrightarrow> (\<exists>row\<in>set (all_rows pages). trace_row row = Some (t, tags))" for tags
    unfolding listed by (force simp: List.map_filter_def)
  from t mem have "\<exists>row\<in>set (all_rows pages). about t row" "t \<noteq> []" by (force simp: trace_row_Some)+
  moreover have "u = s" if row: "row \<in> set (all_rows pages)" "about t row" "readable row" "names_subject row u" for row u
  proof -
    obtain tags where tags: "rowTags row = Some tags" using row(3) by (auto simp: readable_rowTags)
    then have "(t, Some tags) \<in> set listed" using mem row(1,2) \<open>t \<noteq> []\<close> by (force simp: trace_row_Some)
    with own names_own [OF tags _ row(4)] show ?thesis by blast
  qed
  ultimately show ?thesis by (auto simp: clean_listing_def)
qed

text \<open>The stages of a run that returns a report: the listings and scans, and the deletion.\<close>

lemma distinct_unique: "distinct (unique xs)"
  using add_unseen_spec [of "[]" xs] by (simp add: unique_def)

lemma trace_driver_cases:
  assumes "deleteTracesForSubject client subjectId opts calls = (calls', Inr report)"
  obtains reading count failures where
    "list_all reads reading"
    "\<forall>t\<in>set (td_traceIds report). clean_listing subjectId t (listing_pages (replies client calls reading))
        \<and> clean_scan subjectId t (scan_pages t (replies client calls reading))"
    "(if to_dryRun opts \<noteq> Some False then (calls @ reading, 0, [])
      else delete_batches client (chunked 100 (td_traceIds report)) (calls @ reading)) = (calls', count, failures)"
    "td_deletedCount report = count" "td_failed report = failures"
proof -
  define n where "n = (case to_maxListPages opts of None \<Rightarrow> 10000 | Some n \<Rightarrow> n)"
  have dry: "(case to_dryRun opts of None \<Rightarrow> True | Some d \<Rightarrow> d) = (to_dryRun opts \<noteq> Some False)"
    by (cases "to_dryRun opts") auto
  from assms obtain calls1 tl calls2 ul where
    l1: "listSubjectTraceRows client (By_tags [SUBJECT_TAG_PREFIX @ subjectId]) (to_window opts) n calls = (calls1, Inr tl)"
    and l2: "listSubjectTraceRows client (By_user subjectId) (to_window opts) n calls1 = (calls2, Inr ul)"
    by (auto simp: deleteTracesForSubject_def Let_def n_def split: if_splits prod.splits sum.splits)
  let ?listed = "ch_rows tl @ ch_rows ul"
  have ts: "unique (unique (map fst (ch_rows tl)) @ unique (map fst (ch_rows ul))) = unique (map fst ?listed)"
    by (simp add: unique_append_unique)
  from assms obtain calls3 ids conflicts unread where
    l3: "sort_traces client subjectId n (merge_tags ?listed Map.empty) (unique (map fst ?listed)) calls2
       = (calls3, Inr (ids, conflicts, unread))"
    unfolding deleteTracesForSubject_def Let_def n_def [symmetric] l1 l2
    by (auto simp: l1 l2 ts split: if_splits prod.splits sum.splits)
  obtain count failures where
    l4: "(if to_dryRun opts \<noteq> Some False then (calls3, 0, []) else delete_batches client (chunked 100 ids) calls3) = (calls', count, failures)"
    and report: "td_traceIds report = ids" "td_deletedCount report = count" "td_failed report = failures"
    using assms unfolding deleteTracesForSubject_def Let_def n_def [symmetric] dry
    by (auto simp: l1 l2 ts l3 [simplified] split: if_splits prod.splits)
  from listing_spec [OF l1] obtain r1 where r1: "calls1 = calls @ r1" "list_all reads r1"
    "\<forall>x\<in>set (replies client calls r1). oq_traceId (fst x) = None"
    "ch_rows tl = List.map_filter trace_row (all_rows (map snd (replies client calls r1)))" by blast
  from listing_spec [OF l2] obtain r2 where r2: "calls2 = calls1 @ r2" "list_all reads r2"
    "\<forall>x\<in>set (replies client calls1 r2). oq_traceId (fst x) = None"
    "ch_rows ul = List.map_filter trace_row (all_rows (map snd (replies client calls1 r2)))" by blast
  from sort_traces_spec [OF l3 distinct_unique] obtain r3 where r3: "calls3 = calls2 @ r3" "list_all reads r3"
    "\<forall>x\<in>set (replies client calls2 r3). \<exists>u\<in>set (unique (map fst ?listed)). oq_traceId (fst x) = Some u"
    "\<forall>t\<in>set ids. t \<in> set (unique (map fst ?listed)) \<and> clean_scan subjectId t (scan_pages t (replies client calls2 r3))
        \<and> (\<forall>tags. (t, Some tags) \<in> set ?listed \<longrightarrow> other_markers subjectId tags = [])" by blast
  let ?rs = "replies client calls (r1 @ r2 @ r3)"
  have rs: "?rs = replies client calls r1 @ replies client calls1 r2 @ replies client calls2 r3"
    by (simp add: replies_append r1(1) r2(1))
  have listing: "listing_pages ?rs = map snd (replies client calls r1) @ map snd (replies client calls1 r2)"
    unfolding rs using pages_all(1) [OF r1(3)] pages_all(1) [OF r2(3)] pages_none(1) [OF r3(3)] by simp
  have scans: "scan_pages t ?rs = scan_pages t (replies client calls2 r3)" for t
    unfolding rs using pages_none(2) [OF r1(3)] pages_none(2) [OF r2(3)] by simp
  have "?listed = List.map_filter trace_row (all_rows (listing_pages ?rs))"
    unfolding listing r1(4) r2(4) by (simp add: List.map_filter_def)
  note clean = clean_listingI [OF this]
  have "\<forall>t\<in>set ids. clean_listing subjectId t (listing_pages ?rs) \<and> clean_scan subjectId t (scan_pages t ?rs)"
  proof (intro ballI conjI)
    fix t assume t: "t \<in> set ids"
    have "t \<in> fst ` set ?listed" "\<forall>tags. (t, Some tags) \<in> set ?listed \<longrightarrow> other_markers subjectId tags = []"
      using bspec [OF r3(4) t] by (auto simp del: Un_iff)
    then show "clean_listing subjectId t (listing_pages ?rs)" by (rule clean)
    show "clean_scan subjectId t (scan_pages t ?rs)" using bspec [OF r3(4) t] scans by simp
  qed
  then have own: "\<forall>t\<in>set (td_traceIds report). clean_listing subjectId t (listing_pages ?rs) \<and> clean_scan subjectId t (scan_pages t ?rs)"
    unfolding report(1) .
  have reading: "list_all reads (r1 @ r2 @ r3)" using r1 r2 r3 by simp
  have "calls3 = calls @ r1 @ r2 @ r3" using r1 r2 r3 by simp
  from that [OF reading own l4 [unfolded this, folded report(1)] report(2,3)] show thesis .
qed

lemma trace_report_counts:
  assumes "deleteTracesForSubject client subjectId opts calls = (calls', Inr report)" "to_dryRun opts = Some False"
  shows "td_deletedCount report + length (td_failed report) = length (td_traceIds report)"
proof (rule trace_driver_cases [OF assms(1)])
  fix reading count failures
  assume "(if to_dryRun opts \<noteq> Some False then (calls @ reading, 0, [])
      else delete_batches client (chunked 100 (td_traceIds report)) (calls @ reading)) = (calls', count, failures)"
    and report: "td_deletedCount report = count" "td_failed report = failures"
  then have "delete_batches client (chunked 100 (td_traceIds report)) (calls @ reading) = (calls', count, failures)"
    using assms(2) by simp
  from delete_batches_spec [OF this] chunked_spec [of 100 "td_traceIds report"] report show ?thesis by simp
qed


lemma trace_dry_run_reads:
  assumes "to_dryRun opts \<noteq> Some False"
  shows "only_reads calls (fst (deleteTracesForSubject client subjectId opts calls))"
proof -
  have dry: "(case to_dryRun opts of None \<Rightarrow> True | Some d \<Rightarrow> d)" using assms by (cases "to_dryRun opts") auto
  let ?n = "case to_maxListPages opts of None \<Rightarrow> 10000 | Some n \<Rightarrow> n"
  obtain calls1 r1 where l1: "listSubjectTraceRows client (By_tags [SUBJECT_TAG_PREFIX @ subjectId]) (to_window opts) ?n calls = (calls1, r1)" by fastforce
  obtain calls2 r2 where l2: "listSubjectTraceRows client (By_user subjectId) (to_window opts) ?n calls1 = (calls2, r2)" by fastforce
  have a: "only_reads calls calls1" "only_reads calls1 calls2"
    using listing_reads [of calls client] l1 listing_reads [of calls1 client] l2 by (metis fst_conv)+
  then have b: "only_reads calls (fst (sort_traces client s m known ts calls2))" for s m known ts
    using only_reads_trans sort_traces_reads by blast
  show ?thesis
    using a b l1 l2 dry
    by (auto simp: deleteTracesForSubject_def Let_def split: sum.splits prod.splits intro: only_reads_trans) (metis fst_conv)+
qed

section \<open>An example\<close>

text \<open>One trace of the subject alone, one shared with another subject.\<close>

definition demo_trace_row :: "string \<Rightarrow> string list \<Rightarrow> jv" where
  "demo_trace_row t subjects = JObj [(''traceId'', JStr t), (''tags'', JArr (map (\<lambda>s. JStr (SUBJECT_TAG_PREFIX @ s)) subjects))]"

definition demo_page :: "jv list \<Rightarrow> jv" where
  "demo_page rows = JObj [(''data'', JArr rows), (''meta'', JObj [])]"

definition demo_traces :: trace_client where
  "demo_traces = \<lparr>lc_usable = True,
     lc_getMany = (\<lambda>calls q. Inr (demo_page (case oq_traceId q of
        None \<Rightarrow> [demo_trace_row ''t1'' [''ann''], demo_trace_row ''t2'' [''ann'']]
      | Some t \<Rightarrow> [demo_trace_row t (if t = ''t2'' then [''ann'', ''bob''] else [''ann''])]))),
     lc_deleteMultiple = (\<lambda>calls ids. None)\<rparr>"


end
