(* ===== verification/Erase_Subject.thy ===== *)
theory Erase_Subject
  imports Subject_Codec Subject_Traces Cache_Claims
begin

text \<open>
  Erasure of a subject across all surfaces (\<open>packages/typescript/temporal-yaml/src/erase.ts\<close>): the keystore,
  the executions, the traces and the cache, with the receipt. The surfaces are isolated from each other's
  failures; the texts of reasons are replaced by their kinds.
\<close>

section \<open>The receipt\<close>

definition ERASURE_SURFACES :: "string list" where
  "ERASURE_SURFACES = [''temporal'', ''langfuse'', ''cache'']"

datatype surface_status = Surface_ok | Surface_skipped | Surface_failed

datatype skip_reason = Deselected | No_keystore | No_temporal_client | No_trace_client | No_store

definition UNREACHABLE_SURFACES :: "string list" where
  "UNREACHABLE_SURFACES = [''provider_logs'', ''exported_artifacts'', ''mixed_workflow_payloads'']"

datatype erase_failure = Keystore_failure codec_error | Driver_failure string | Store_not_erasable string | Store_missing

record subject_failure =
  sf_subjectId :: string
  sf_error :: erase_failure

record key_entry =
  ke_subjectId :: string
  ke_stateBefore :: key_state
  ke_wouldShred :: bool
  ke_shredded :: bool

text \<open>The absent fields of a skipped section are empty.\<close>

record keystore_part =
  kp_status :: surface_status
  kp_skipReason :: "skip_reason option"
  kp_entries :: "key_entry list"
  kp_shreddable :: nat
  kp_shredded :: nat
  kp_failures :: "subject_failure list"

record 'r driver_part =
  dp_status :: surface_status
  dp_skipReason :: "skip_reason option"
  dp_reports :: "'r list"
  dp_failures :: "subject_failure list"

record temporal_part =
  tp_status :: surface_status
  tp_skipReason :: "skip_reason option"
  tp_keystore :: "keystore_part option"
  tp_executions :: "execution_report driver_part option"

record erasure_receipt =
  rc_subjectIds :: "string list"
  rc_executedAt :: string
  rc_actor :: string
  rc_dryRun :: bool
  rc_temporal :: temporal_part
  rc_langfuse :: "trace_report driver_part"
  rc_cache :: "erasure_report driver_part"
  rc_unreachable :: "string list"
  rc_warnings :: "erase_warning list"

definition erasureFailed :: "erasure_receipt \<Rightarrow> bool" where
  "erasureFailed r \<longleftrightarrow> tp_status (rc_temporal r) = Surface_failed \<or> dp_status (rc_langfuse r) = Surface_failed
     \<or> dp_status (rc_cache r) = Surface_failed"

record 's erase_deps =
  ed_temporalClient :: "temporal_client option"
  ed_temporalNamespace :: "string option"
  ed_subjectKeystore :: "'s keystore option"
  ed_langfuseClient :: "trace_client option"
  ed_cacheStore :: "store_probe option"

record erase_options =
  eo_actor :: string
  eo_dryRun :: "bool option"
  eo_surfaces :: "string list option"
  eo_since :: "string option"
  eo_until :: "string option"
  eo_executionLimit :: "jsnum option"
  eo_requireTargetedCache :: bool

datatype erase_error =
    Subject_ids_wrong subject_error
  | No_subject_ids
  | Actor_wrong
  | Limit_wrong jsnum
  | Surfaces_unknown "string list"
  | Surfaces_empty
  | Window_inert

datatype subject_argument = One_subject string | Many_subjects "string list"

section \<open>Drivers per subject\<close>

text \<open>Each subject's call may throw; the loop goes on.\<close>

fun run_subjects ::
    "(string \<Rightarrow> 'w \<Rightarrow> 'w \<times> (erase_failure, 'r) result) \<Rightarrow> string list \<Rightarrow> 'w \<Rightarrow> 'w \<times> 'r list \<times> subject_failure list" where
  "run_subjects call [] w = (w, [], [])"
| "run_subjects call (i # is) w =
     (let (w1, r) = call i w; (w2, reports, failures) = run_subjects call is w1
      in case r of
           Inl e \<Rightarrow> (w2, reports, \<lparr>sf_subjectId = i, sf_error = e\<rparr> # failures)
         | Inr report \<Rightarrow> (w2, report # reports, failures))"

definition forEachSubject ::
    "(string \<Rightarrow> 'w \<Rightarrow> 'w \<times> (erase_failure, 'r) result) \<Rightarrow> ('r \<Rightarrow> bool) \<Rightarrow> string list \<Rightarrow> 'w \<Rightarrow> 'w \<times> 'r driver_part" where
  "forEachSubject call report_failed ids w =
     (let (w', reports, failures) = run_subjects call ids w
      in (w', \<lparr>dp_status = (if failures \<noteq> [] \<or> (\<exists>r\<in>set reports. report_failed r) then Surface_failed else Surface_ok),
               dp_skipReason = None, dp_reports = reports, dp_failures = failures\<rparr>))"

definition skipped_part :: "skip_reason \<Rightarrow> 'r driver_part" where
  "skipped_part reason = \<lparr>dp_status = Surface_skipped, dp_skipReason = Some reason, dp_reports = [], dp_failures = []\<rparr>"

definition normalizeSurfaces :: "string list \<Rightarrow> (erase_error, string list) result" where
  "normalizeSurfaces surfaces =
     (let unknown = sort_strings (unique (filter (\<lambda>s. s \<notin> set ERASURE_SURFACES) surfaces))
      in if unknown \<noteq> [] then Inl (Surfaces_unknown unknown)
         else if surfaces = [] then Inl Surfaces_empty
         else Inr (filter (\<lambda>s. s \<in> set surfaces) ERASURE_SURFACES))"

text \<open>The error of a driver call as a failure of the subject.\<close>

definition as_failure :: "('e \<Rightarrow> erase_failure) \<Rightarrow> 'w \<times> ('e, 'r) result \<Rightarrow> 'w \<times> (erase_failure, 'r) result" where
  "as_failure f wr = (case wr of (w, Inl e) \<Rightarrow> (w, Inl (f e)) | (w, Inr r) \<Rightarrow> (w, Inr r))"

section \<open>The surfaces\<close>

definition shred_one :: "'s keystore \<Rightarrow> bool \<Rightarrow> string \<Rightarrow> 's \<Rightarrow> 's \<times> (codec_error, key_entry) result" where
  "shred_one ks dryRun i st =
     (if dryRun then
        (let (st', r) = subjectKeyState ks i st
         in (st', rbind r (\<lambda>state. Inr \<lparr>ke_subjectId = i, ke_stateBefore = state,
                  ke_wouldShred = (state = K_live), ke_shredded = False\<rparr>)))
      else
        (let (st', r) = destroySubjectKey ks i st
         in (st', rbind r (\<lambda>d. Inr \<lparr>ke_subjectId = i,
                  ke_stateBefore = (if dt_keyExisted d then K_live else if dt_alreadyDestroyed d then K_destroyed else K_absent),
                  ke_wouldShred = dt_keyExisted d, ke_shredded = dt_keyExisted d\<rparr>))))"

definition shredSubjects :: "'s keystore \<Rightarrow> string list \<Rightarrow> bool \<Rightarrow> 's \<Rightarrow> 's \<times> keystore_part" where
  "shredSubjects ks ids dryRun st =
     (let (st', entries, failures) = run_subjects (\<lambda>i w. as_failure Keystore_failure (shred_one ks dryRun i w)) ids st
      in (st', \<lparr>kp_status = (if failures \<noteq> [] then Surface_failed else Surface_ok), kp_skipReason = None,
                kp_entries = entries, kp_shreddable = length (filter ke_wouldShred entries),
                kp_shredded = length (filter ke_shredded entries), kp_failures = failures\<rparr>))"

definition deleteSubjectExecutions ::
    "(jv \<Rightarrow> string) \<Rightarrow> temporal_client \<Rightarrow> string list \<Rightarrow> string option \<Rightarrow> bool \<Rightarrow> nat \<Rightarrow> call_log
     \<Rightarrow> call_log \<times> execution_report driver_part" where
  "deleteSubjectExecutions text_of client ids namespace dryRun limit =
     forEachSubject (\<lambda>i w. as_failure Driver_failure (deleteExecutionsForSubject text_of client i
         \<lparr>do_namespace = namespace, do_dryRun = Some dryRun, do_limit = Some limit\<rparr> w))
       (\<lambda>r. xd_failed r \<noteq> []) ids"

definition deleteSubjectTraces ::
    "trace_client \<Rightarrow> string list \<Rightarrow> bool \<Rightarrow> scan_window \<Rightarrow> call_log \<Rightarrow> call_log \<times> trace_report driver_part" where
  "deleteSubjectTraces client ids dryRun window =
     forEachSubject (\<lambda>i w. as_failure Driver_failure (deleteTracesForSubject client i
         \<lparr>to_dryRun = Some dryRun, to_window = window, to_maxListPages = None\<rparr> w))
       (\<lambda>r. td_failed r \<noteq> []) ids"

definition erase_cache_one ::
    "store_probe \<Rightarrow> bool \<Rightarrow> bool \<Rightarrow> string \<Rightarrow> memory_store \<Rightarrow> memory_store \<times> (erase_failure, erasure_report) result" where
  "erase_cache_one p dryRun requireTargeted i st =
     (let (st', report) = eraseSubjectFromCache p i dryRun st
      in (st', if requireTargeted \<and> \<not> er_supported report then Inl (Store_not_erasable (sp_class p)) else Inr report))"

definition eraseSubjectCache ::
    "store_probe \<Rightarrow> string list \<Rightarrow> bool \<Rightarrow> bool \<Rightarrow> memory_store \<Rightarrow> memory_store \<times> erasure_report driver_part" where
  "eraseSubjectCache p ids dryRun requireTargeted =
     forEachSubject (erase_cache_one p dryRun requireTargeted) (\<lambda>r. er_failures r \<noteq> []) ids"

definition aggregateWarnings ::
    "temporal_part \<Rightarrow> trace_report driver_part \<Rightarrow> erasure_report driver_part \<Rightarrow> erase_warning list" where
  "aggregateWarnings temporal langfuse cache =
     (let executions = (case tp_executions temporal of None \<Rightarrow> [] | Some p \<Rightarrow> dp_reports p);
          ws = concat (map (\<lambda>r. map From_temporal (xd_notes r)
                 @ (if xd_stillRunning r \<noteq> [] then [Still_running (length (xd_stillRunning r)) (xd_subject r)] else [])
                 @ (if xd_conflicted r \<noteq> [] then [Executions_conflicted (length (xd_conflicted r)) (xd_subject r)] else []))
                 executions)
               @ concat (map (\<lambda>r. map From_langfuse (td_notes r)
                 @ (if td_conflicted r \<noteq> [] then [Traces_conflicted (length (td_conflicted r)) (td_subject r)] else []))
                 (dp_reports langfuse))
               @ concat (map (\<lambda>r. (if \<not> er_supported r then (case er_fullFlushFallback r of None \<Rightarrow> [] | Some f \<Rightarrow> [Cache_fallback f]) else [])
                 @ map (Cache_failure (er_subjectId r)) (er_failures r))
                 (dp_reports cache))
      in fold (\<lambda>w acc. if w \<in> set acc then acc else acc @ [w]) ws [])"

definition temporal_status :: "surface_status \<Rightarrow> surface_status \<Rightarrow> surface_status" where
  "temporal_status a b =
     (if a = Surface_failed \<or> b = Surface_failed then Surface_failed
      else if a = Surface_skipped \<and> b = Surface_skipped then Surface_skipped else Surface_ok)"

definition erase_temporal ::
    "(jv \<Rightarrow> string) \<Rightarrow> 's erase_deps \<Rightarrow> bool \<Rightarrow> string list \<Rightarrow> bool \<Rightarrow> nat \<Rightarrow> 's \<times> call_log \<Rightarrow> ('s \<times> call_log) \<times> temporal_part" where
  "erase_temporal text_of deps selected ids dryRun limit w =
     (case w of (st, calls) \<Rightarrow>
       if \<not> selected then
         (w, \<lparr>tp_status = Surface_skipped, tp_skipReason = Some Deselected, tp_keystore = None, tp_executions = None\<rparr>)
       else
         (let (st', keystore) =
                (case ed_subjectKeystore deps of
                   None \<Rightarrow> (st, \<lparr>kp_status = Surface_skipped, kp_skipReason = Some No_keystore, kp_entries = [],
                               kp_shreddable = 0, kp_shredded = 0, kp_failures = []\<rparr>)
                 | Some ks \<Rightarrow> shredSubjects ks ids dryRun st);
              (calls', executions) =
                (case ed_temporalClient deps of
                   None \<Rightarrow> (calls, skipped_part No_temporal_client)
                 | Some client \<Rightarrow> deleteSubjectExecutions text_of client ids (ed_temporalNamespace deps) dryRun limit calls)
          in ((st', calls'), \<lparr>tp_status = temporal_status (kp_status keystore) (dp_status executions), tp_skipReason = None,
                tp_keystore = Some keystore, tp_executions = Some executions\<rparr>)))"

definition erase_langfuse ::
    "'s erase_deps \<Rightarrow> bool \<Rightarrow> string list \<Rightarrow> bool \<Rightarrow> scan_window \<Rightarrow> call_log \<Rightarrow> call_log \<times> trace_report driver_part" where
  "erase_langfuse deps selected ids dryRun window calls =
     (if \<not> selected then (calls, skipped_part Deselected)
      else case ed_langfuseClient deps of
             None \<Rightarrow> (calls, skipped_part No_trace_client)
           | Some client \<Rightarrow> deleteSubjectTraces client ids dryRun window calls)"

definition erase_cache ::
    "'s erase_deps \<Rightarrow> bool \<Rightarrow> string list \<Rightarrow> bool \<Rightarrow> bool \<Rightarrow> memory_store \<Rightarrow> memory_store \<times> erasure_report driver_part" where
  "erase_cache deps selected ids dryRun requireTargeted store =
     (if \<not> selected then (store, skipped_part Deselected)
      else case ed_cacheStore deps of
             None \<Rightarrow>
               (store, if requireTargeted
                       then \<lparr>dp_status = Surface_failed, dp_skipReason = None, dp_reports = [],
                             dp_failures = map (\<lambda>i. \<lparr>sf_subjectId = i, sf_error = Store_missing\<rparr>) ids\<rparr>
                       else skipped_part No_store)
           | Some p \<Rightarrow> eraseSubjectCache p ids dryRun requireTargeted store)"

section \<open>The operation\<close>

record 's erase_world =
  ew_keys :: 's
  ew_calls :: call_log
  ew_store :: memory_store

definition limit_ok :: "jsnum option \<Rightarrow> bool" where
  "limit_ok l = (case l of None \<Rightarrow> True | Some (IntN n) \<Rightarrow> 1 \<le> n | Some _ \<Rightarrow> False)"

definition limit_of :: "jsnum option \<Rightarrow> nat" where
  "limit_of l = (case l of Some (IntN n) \<Rightarrow> nat n | _ \<Rightarrow> 1000)"

definition has_window :: "erase_options \<Rightarrow> bool" where
  "has_window opts \<longleftrightarrow> eo_since opts \<noteq> None \<or> eo_until opts \<noteq> None"

text \<open>The checks before anything is touched: the subject ids and the selected surfaces.\<close>

definition erase_plan ::
    "subject_argument \<Rightarrow> erase_options \<Rightarrow> (erase_error, string list \<times> string list) result" where
  "erase_plan subjects opts =
     (case normalizeSubjectIds (case subjects of One_subject i \<Rightarrow> [i] | Many_subjects is \<Rightarrow> is) of
        Inl e \<Rightarrow> Inl (Subject_ids_wrong e)
      | Inr ids \<Rightarrow>
          rbind (require (ids \<noteq> []) No_subject_ids) (\<lambda>_.
          rbind (require (eo_actor opts \<noteq> [] \<and> trim (eo_actor opts) = eo_actor opts) Actor_wrong) (\<lambda>_.
          rbind (require (limit_ok (eo_executionLimit opts)) (Limit_wrong (the (eo_executionLimit opts)))) (\<lambda>_.
          rbind (normalizeSurfaces (case eo_surfaces opts of None \<Rightarrow> ERASURE_SURFACES | Some s \<Rightarrow> s)) (\<lambda>selected.
          rbind (require (\<not> has_window opts \<or> ''langfuse'' \<in> set selected) Window_inert) (\<lambda>_.
          Inr (ids, selected)))))))"

definition eraseSubject_across ::
    "(jv \<Rightarrow> string) \<Rightarrow> string \<Rightarrow> 's erase_deps \<Rightarrow> subject_argument \<Rightarrow> erase_options \<Rightarrow> 's erase_world
     \<Rightarrow> 's erase_world \<times> (erase_error, erasure_receipt) result" where
  "eraseSubject_across text_of now deps subjects opts w =
     (case erase_plan subjects opts of
        Inl e \<Rightarrow> (w, Inl e)
      | Inr (ids, selected) \<Rightarrow>
          (let dryRun = (case eo_dryRun opts of None \<Rightarrow> True | Some d \<Rightarrow> d);
               seamWarnings = (if has_window opts
                 then map Window_ignored (filter (\<lambda>s. s \<in> set selected) [''temporal'', ''cache'']) else []);
               ((st', calls1), temporal) = erase_temporal text_of deps (''temporal'' \<in> set selected) ids dryRun
                 (limit_of (eo_executionLimit opts)) (ew_keys w, ew_calls w);
               (calls2, langfuse) = erase_langfuse deps (''langfuse'' \<in> set selected) ids dryRun
                 \<lparr>sw_since = eo_since opts, sw_until = eo_until opts\<rparr> calls1;
               (store', cache) = erase_cache deps (''cache'' \<in> set selected) ids dryRun
                 (eo_requireTargetedCache opts) (ew_store w)
           in (\<lparr>ew_keys = st', ew_calls = calls2, ew_store = store'\<rparr>,
               Inr \<lparr>rc_subjectIds = ids, rc_executedAt = now, rc_actor = eo_actor opts, rc_dryRun = dryRun,
                    rc_temporal = temporal, rc_langfuse = langfuse, rc_cache = cache,
                    rc_unreachable = UNREACHABLE_SURFACES,
                    rc_warnings = seamWarnings @ aggregateWarnings temporal langfuse cache\<rparr>)))"

end
