(* ===== verification/Subject_Codec_Claims.thy ===== *)
theory Subject_Codec_Claims
  imports Subject_Codec
begin

text \<open>
  Properties of crypto-shredding: payloads come back while every record of their subjects lives, and never
  again once one of them is destroyed; the batch cache of a decode is invisible; key ids are read back.
\<close>

section \<open>The demonstration library\<close>

text \<open>A library that keeps the laws, for the witnesses: the ciphertext is the plaintext, the encoding of
  a payload is its data.\<close>

definition demo_library :: codec_library where
  "demo_library = \<lparr>aes_seal = (\<lambda>k n p. (p, replicate TAG_LEN 0)), aes_open = (\<lambda>k n c t. Some c),
     sha256_bytes = (\<lambda>bs. take KEY_LEN (bs @ replicate KEY_LEN 0)), proto_encode = payload_bytes,
     proto_decode = (\<lambda>bs. Some \<lparr>pl_metadata = Map.empty, pl_data = Some bs\<rparr>)\<rparr>"

definition demo_payload_of :: "bytes \<Rightarrow> payload" where
  "demo_payload_of bs = \<lparr>pl_metadata = Map.empty, pl_data = Some bs\<rparr>"

definition demo_random :: "nat \<Rightarrow> bytes" where "demo_random n = replicate KEY_LEN (word_of_nat n)"

definition demo_codec :: "memory_keys subject_codec" where
  "demo_codec = \<lparr>sc_base = \<lparr>ac_currentKid = ''k1'', ac_keys = [(''k1'', replicate KEY_LEN 7)]\<rparr>,
     sc_keystore = memory_keystore demo_random\<rparr>"

definition demo_bindings :: bindings where
  "demo_bindings = \<lparr>sb_known = [''wf'' \<mapsto> [''ann'', ''bob'']], sb_client = None\<rparr>"

lemma demo_laws: "gcm_correct demo_library" "proto_correct demo_library [demo_payload_of bs]"
  by (simp_all add: gcm_correct_def proto_correct_def demo_library_def demo_payload_of_def payload_bytes_def)

section \<open>Round trip\<close>

lemma starts_with_units [simp]: "starts_with (units_of p) (units_of s) \<longleftrightarrow> starts_with p s"
proof -
  have "take (length p) (units_of s) = units_of (take (length p) s)" by (simp add: units_of_def take_map)
  then show ?thesis by (simp add: starts_with_def)
qed

lemma shared_not_scoped:
  assumes "newPayloadCodec k keys = Inr base" "base_encode lib nonces base ps = Inr qs" "q \<in> set qs"
  shows "\<not> isSubjectScoped q"
proof -
  note v = newPayloadCodec_valid [OF assms(1)]
  from assms(2,3) have "pl_metadata q KEY_ID_METADATA_KEY = Some (utf8_bytes (ac_currentKid base))"
    by (auto simp: base_encode_def utf8_bytes_def split: option.splits dest!: seal_all_kid)
  moreover have "\<not> starts_with RESERVED_KID_PREFIX (ac_currentKid base)"
    using v by (auto dest: map_of_SomeD)
  ultimately show ?thesis by (simp add: isSubjectScoped_def payload_kid_def)
qed

lemma scoped_encode_cases:
  assumes "contextWorkflowId context = Some w" "resolve_binding text_of w b = (b1, Inr ids)"
    and "scoped_encode lib nonces text_of c context ps (b, st) = ((b2, st1), Inr qs)"
  shows "b2 = b1 \<and> (if ids = [] then st1 = st \<and> base_encode lib nonces (sc_base c) ps = Inr qs
    else \<exists>kid key. subjectKid ids = Inr kid \<and> sealing_key lib (sc_keystore c) ids st = (st1, Inr key)
      \<and> seal_all lib nonces key kid 0 ps = Inr qs)"
  using assms by (auto simp: scoped_encode_def result_simps split: sum.splits prod.splits if_splits)

text \<open>C15: Payloads encoded for a workflow decode to themselves, at once or after any sequence of keystore
  operations in between, as long as no record of one of the workflow's subjects has been destroyed. AES-GCM must
  open what it sealed and the protobuf encoding must be read back.\<close>

theorem codec_roundtrip:
  assumes "gcm_correct lib" and "proto_correct lib ps"
    and base: "newPayloadCodec k keys = Inr (sc_base c)" and ks: "sc_keystore c = memory_keystore random"
    and "contextWorkflowId context = Some w" and "resolve_binding text_of w b = (b1, Inr ids)"
    and "scoped_encode lib nonces text_of c context ps (b, st) = ((b1, st1), Inr qs)"
    and alive: "\<forall>i\<in>set ids. memory_view (fold (keystore_step (memory_keystore random)) ops st1) i \<noteq> Destroyed"
  shows "snd (scoped_decode lib c qs (fold (keystore_step (memory_keystore random)) ops st1)) = Inr ps"
proof (cases "ids = []")
  case True
  with scoped_encode_cases [OF assms(5-7)] have e: "base_encode lib nonces (sc_base c) ps = Inr qs" by simp
  have "list_all2 (\<lambda>p q. q \<in> set qs \<and> base_decode_one lib (sc_base c) q = Inr p) ps qs"
    using base_roundtrip(1) [OF assms(1,2) e] by (auto simp: list_all2_conv_all_nth)
  then have "list_all2 (\<lambda>p q. decode_one lib c st' q = Inr p) ps qs" for st'
    by (rule list_all2_mono) (use shared_not_scoped [OF base e] in \<open>simp add: decode_one_cases\<close>)
  then show ?thesis by (simp add: mem.decode_eq [OF ks] traverse_eq_Inr list_all2_conv_all_nth)
next
  case False
  with scoped_encode_cases [OF assms(5-7)] ks obtain kid key where
    *: "subjectKid ids = Inr kid" "sealing_key lib (memory_keystore random) ids st = (st1, Inr key)"
      "seal_all lib nonces key kid 0 ps = Inr qs" by auto
  from mem.scoped_roundtrip [OF False * assms(1,2) mem.run_evolves alive ks] show ?thesis by simp
qed

section \<open>Shredding\<close>

lemma sealed_scoped:
  assumes "subjectKid ids = Inr kid" "seal_all lib nonces key kid n ps = Inr qs" "q \<in> set qs"
  shows "isSubjectScoped q" "payload_kid q = Some kid"
proof -
  have "pl_metadata q KEY_ID_METADATA_KEY = Some (wide_bytes kid)" "is_encrypted q"
    using seal_all_kid [OF assms(2)] assms(3) by auto
  moreover have "utf8_text (wide_bytes kid) = kid"
    using subjectKid_small [OF assms(1)] by (intro utf8_text_wide) blast
  ultimately show "isSubjectScoped q" "payload_kid q = Some kid"
    using subjectKid_reserved [OF assms(1)] by (simp_all add: isSubjectScoped_def payload_kid_def)
qed

lemma sealing_nonempty:
  assumes "sealing_key lib (memory_keystore random) ids st = (st1, Inr key)"
  shows "\<forall>i\<in>set ids. i \<noteq> []"
proof -
  from assms obtain keys where "collect_keys (\<lambda>i. dataKey (memory_keystore random) i True) ids st = (st1, Inr keys)"
    by (auto simp: sealing_key_def result_simps split: prod.splits)
  from mem.collect_mint [OF this] show ?thesis by (auto simp: list_all2_conv_all_nth in_set_conv_nth)
qed

text \<open>C9: Once the record of a subject has been destroyed, nothing brings its payloads back: after any sequence of
  keystore operations before and after the destruction, mints of the same subject included, every batch that
  contains a payload encoded for a workflow with that subject fails to decode, and encoding for a
  workflow with that subject fails as well.\<close>

theorem shredded_unreadable:
  assumes ks: "sc_keystore c = memory_keystore random"
    and "contextWorkflowId context = Some w" and "resolve_binding text_of w b = (b1, Inr ids)"
    and "scoped_encode lib nonces text_of c context ps (b, st) = ((b1, st1), Inr qs)"
    and i: "i \<in> set ids" and q: "q \<in> set qs" "q \<in> set batch"
    and st2: "st2 = fold (keystore_step (memory_keystore random)) (before @ Op_destroy i # after) st1"
  shows "(\<exists>e. snd (scoped_decode lib' c batch st2) = Inl e)
    \<and> (\<exists>e. snd (scoped_encode lib' nonces' text_of c context ps' (b1, st2)) = Inl e)"
proof -
  from scoped_encode_cases [OF assms(2-4)] i ks obtain kid key where
    *: "subjectKid ids = Inr kid" "sealing_key lib (memory_keystore random) ids st = (st1, Inr key)"
      "seal_all lib nonces key kid 0 ps = Inr qs" by (auto split: if_splits)
  have ids: "\<forall>i\<in>set ids. i \<noteq> []" using sealing_nonempty [OF *(2)] .
  with i have "i \<noteq> []" by blast
  let ?st = "fold (keystore_step (memory_keystore random)) before st1"
  have "memory_view (fst (destroySubjectKey (memory_keystore random) i ?st)) i = Destroyed"
    using mem.destroy [of random i ?st] \<open>i \<noteq> []\<close> by simp
  then have gone: "memory_view st2 i = Destroyed"
    unfolding st2 using evolves_Destroyed [OF mem.run_evolves] by simp
  have "\<exists>e. snd (scoped_decode lib' c batch st2) = Inl e"
    using mem.decode_destroyed [OF ks gone \<open>i \<noteq> []\<close> q(2) sealed_scoped(1) [OF *(1,3) q(1)], of "map units_of ids"]
      sealed_scoped(2) [OF *(1,3) q(1)] parse_subjectKid [OF *(1) ids] i by simp
  moreover have "resolve_binding text_of w b1 = (b1, Inr ids)"
    using assms(3) by (auto simp: resolve_binding_def Let_def split: option.splits described.splits)
  moreover obtain e where "snd (sealing_key lib' (memory_keystore random) ids st2) = Inl e"
    using mem.seal_destroyed [OF gone i] by blast
  ultimately show ?thesis
    using assms(2) ks *(1) i by (auto simp: scoped_encode_def split: prod.splits)
qed

text \<open>Each operation of the in-memory keystore moves the record of at most its own subject, along the life of a
  record: minted once, then destroyed for good.\<close>

fun op_subject :: "keystore_op \<Rightarrow> string" where
  "op_subject (Op_key i _) = i"
| "op_subject (Op_destroy i) = i"
| "op_subject (Op_state i) = i"

text \<open>The in-memory keystore refines one three-state machine per subject: an operation leaves the records of
  other subjects alone and moves the record of its own subject by at most one transition, from absent to live or
  from any state to destroyed; a destroyed record never changes and a live one keeps its bytes.\<close>

theorem keystore_refines_lifecycle:
  "(\<forall>i. i \<noteq> op_subject op \<longrightarrow> memory_view (keystore_step (memory_keystore random) op st) i = memory_view st i)
   \<and> key_moves (memory_view st i) (memory_view (keystore_step (memory_keystore random) op st) i)"
proof
  show "key_moves (memory_view st i) (memory_view (keystore_step (memory_keystore random) op st) i)"
    using mem.step_evolves by (simp add: evolves_def)
  show "\<forall>i. i \<noteq> op_subject op \<longrightarrow> memory_view (keystore_step (memory_keystore random) op st) i = memory_view st i"
    by (cases op) (auto simp: memory_dataKey_def memory_destroy_def memory_keyState_def memory_view_def Let_def
        split: option.splits)
qed

text \<open>The cache of combined keys inside one call changes nothing: a batch decodes like its payloads one by one,
  and the keystore stays as it was.\<close>

theorem batch_cache_invisible:
  "scoped_decode lib \<lparr>sc_base = base, sc_keystore = memory_keystore random\<rparr> ps st =
   (st, traverse (decode_one lib \<lparr>sc_base = base, sc_keystore = memory_keystore random\<rparr> st) ps)"
  by (rule mem.decode_eq) simp

section \<open>Key ids\<close>

text \<open>A key id built for a list of non-empty subject ids is read back to exactly that list, and no other list
  has the same key id.\<close>

theorem kid_roundtrip:
  assumes "subjectKid ids = Inr kid" and "\<forall>i\<in>set ids. i \<noteq> []"
  shows "parseSubjectKid kid = Inr (map units_of ids)
    \<and> (subjectKid ids' = Inr kid \<and> (\<forall>i\<in>set ids'. i \<noteq> []) \<longrightarrow> ids' = ids)"
proof -
  have r: "parseSubjectKid kid = Inr (map units_of ids)" by (rule parse_subjectKid [OF assms])
  moreover have "ids' = ids" if "subjectKid ids' = Inr kid" "\<forall>i\<in>set ids'. i \<noteq> []"
    using parse_subjectKid [OF that] r by (auto intro: map_injective simp: inj_def)
  ultimately show ?thesis by blast
qed

text \<open>The other direction fails: segments that are not UTF-8 are accepted and read as the replacement character,
  so one subject set has several accepted key ids.\<close>

lemmas parse_eval = parseSubjectKid_def parse_segment_def starts_with_def RESERVED_KID_PREFIX_def units_of_def
  comma_def unb64url_def b64url_def b64_val_def b64_char_def List.map_filter_simps utf8_text_def utf8_idle_def
  utf8_step_def utf8_lead_def Let_def

lemma kid_not_unique:
  "parseSubjectKid (units_of ''tfsubj1:_w'') = Inr [[0xFFFD]]"
  "parseSubjectKid (units_of ''tfsubj1:_g'') = Inr [[0xFFFD]]"
  "parseSubjectKid (units_of ''tfsubj1:77-9'') = Inr [[0xFFFD]]"
  by (simp_all add: parse_eval)

text \<open>A describe result whose attribute cannot be read binds the workflow to no subjects, and its payloads are
  sealed under the shared key.\<close>

lemma unreadable_attribute_shares_key:
  assumes "sb_known b w = None" "sb_client b = Some client" "client w = Attribute_throws"
  shows "snd (scoped_encode lib nonces text_of c (Some (Workflow_context w)) ps (b, st))
      = base_encode lib nonces (sc_base c) ps"
  using assms by (simp add: scoped_encode_def contextWorkflowId_def resolve_binding_def describedSubjectIds_def)

section \<open>The properties at work\<close>

definition demo_nonces :: "nat \<Rightarrow> bytes" where "demo_nonces n = replicate NONCE_LEN (word_of_nat n)"

text \<open>A workflow with two subjects is encoded: two records are minted, one payload is sealed.\<close>

definition demo_keys :: memory_keys where
  "demo_keys = \<lparr>mk_records = [''ann'' \<mapsto> Some (demo_random 0), ''bob'' \<mapsto> Some (demo_random 1)], mk_draws = 2\<rparr>"

definition demo_kid :: wide where
  "demo_kid = units_of RESERVED_KID_PREFIX @ join_with comma [b64url (utf8_bytes ''ann''), b64url (utf8_bytes ''bob'')]"

definition demo_sealed :: payload where
  "demo_sealed = \<lparr>pl_metadata = [''encoding'' \<mapsto> utf8_bytes ENCRYPTED_ENCODING, KEY_ID_METADATA_KEY \<mapsto> wide_bytes demo_kid],
     pl_data = Some (demo_nonces 0 @ [1, 2] @ replicate TAG_LEN 0)\<rparr>"

lemma demo_encode:
  "scoped_encode demo_library demo_nonces (\<lambda>_. []) demo_codec (Some (Workflow_context ''wf''))
     [demo_payload_of [1, 2]] (demo_bindings, no_keys) = ((demo_bindings, demo_keys), Inr [demo_sealed])"
proof -
  have kid: "subjectKid [''ann'', ''bob''] = Inr demo_kid" by (simp add: subjectKid_def demo_kid_def)
  have "collect_keys (\<lambda>i. dataKey (memory_keystore demo_random) i True) [''ann'', ''bob''] no_keys =
      (demo_keys, Inr [demo_random 0, demo_random 1])"
    by (simp add: memory_dataKey_def no_keys_def demo_keys_def Let_def)
  then have "sealing_key demo_library (memory_keystore demo_random) [''ann'', ''bob''] no_keys = (demo_keys, Inr (demo_random 0))"
    by (simp add: sealing_key_def combineSubjectKey_def demo_random_def demo_library_def require_def)
  moreover have "seal_all demo_library demo_nonces (demo_random 0) demo_kid 0 [demo_payload_of [1, 2]] = Inr [demo_sealed]"
    by (simp add: sealPayloadBytes_def demo_random_def demo_nonces_def demo_library_def demo_sealed_def
        demo_payload_of_def payload_bytes_def)
  ultimately show ?thesis
    using kid by (simp add: scoped_encode_def contextWorkflowId_def resolve_binding_def demo_bindings_def demo_codec_def)
qed

lemma demo_binding: "resolve_binding (\<lambda>_. []) ''wf'' demo_bindings = (demo_bindings, Inr [''ann'', ''bob''])"
  "contextWorkflowId (Some (Workflow_context ''wf'')) = Some ''wf''"
  "sc_keystore demo_codec = memory_keystore demo_random"
  by (simp_all add: resolve_binding_def demo_bindings_def contextWorkflowId_def demo_codec_def)

lemma demo_base: "newPayloadCodec ''k1'' [(''k1'', replicate KEY_LEN 7)] = Inr (sc_base demo_codec)"
  by (simp add: newPayloadCodec_def demo_codec_def starts_with_def RESERVED_KID_PREFIX_def)

text \<open>Between encoding and decoding another subject is minted and destroyed.\<close>

theorem codec_roundtrip_witness:
  "snd (scoped_decode demo_library demo_codec [demo_sealed]
      (fold (keystore_step (memory_keystore demo_random)) [Op_key ''eve'' True, Op_destroy ''eve''] demo_keys))
    = Inr [demo_payload_of [1, 2]]"
  by (rule codec_roundtrip [OF demo_laws demo_base demo_binding(3,2,1) demo_encode])
    (simp add: memory_dataKey_def memory_destroy_def memory_view_def demo_keys_def Let_def)

theorem shredded_unreadable_witness:
  "\<exists>e. snd (scoped_decode demo_library demo_codec [demo_payload_of [3], demo_sealed]
      (fold (keystore_step (memory_keystore demo_random)) [Op_destroy ''bob'', Op_key ''bob'' True] demo_keys)) = Inl e"
  by (rule shredded_unreadable [where i = "''bob''" and q = demo_sealed and before = "[]" and after = "[Op_key ''bob'' True]",
        OF demo_binding(3,2,1) demo_encode, THEN conjunct1]) simp_all

theorem kid_roundtrip_witness:
  "parseSubjectKid demo_kid = Inr [units_of ''ann'', units_of ''bob'']"
proof -
  have "subjectKid [''ann'', ''bob''] = Inr demo_kid" by (simp add: subjectKid_def demo_kid_def)
  from kid_roundtrip [OF this] show ?thesis by simp
qed

end
