(* ===== verification/Erase_Claims.thy ===== *)
theory Erase_Claims
  imports Erase_Subject Subject_Codec_Claims
begin

text \<open>
  Properties of the erasure across surfaces: a dry run only reads, an executed run destroys exactly the records
  of its subjects and clears the cache of them whatever the other surfaces do, and the receipt tells which
  deletions the services were asked for and which of them they refused.
\<close>

section \<open>The loop over subjects\<close>

lemma run_subjects_relation:
  assumes "\<And>w. R w w" and "\<And>u v w. R u v \<Longrightarrow> R v w \<Longrightarrow> R u w" and "\<And>i w. i \<in> set ids \<Longrightarrow> R w (fst (call i w))"
  shows "R w (fst (run_subjects call ids w))"
  using assms(3)
proof (induction ids arbitrary: w)
  case (Cons i ids)
  obtain w1 r where c: "call i w = (w1, r)" by fastforce
  have "R w w1" using Cons.prems [of i w] c by simp
  moreover have "R w1 (fst (run_subjects call ids w1))" using Cons by simp
  ultimately show ?case using assms(2) c by (auto split: prod.splits sum.splits)
qed (simp add: assms(1))

lemma run_subjects_accounts:
  assumes "\<And>i w r. snd (call i w) = Inr r \<Longrightarrow> subject_of r = i"
  shows "run_subjects call ids w = (w', reports, []) \<Longrightarrow> map subject_of reports = ids"
proof (induction ids arbitrary: w w' reports)
  case (Cons i ids)
  obtain w1 r where c: "call i w = (w1, r)" by fastforce
  obtain w2 rs fs where rest: "run_subjects call ids w1 = (w2, rs, fs)" by (metis prod_cases3)
  from Cons.prems c rest obtain report where "r = Inr report" "reports = report # rs" "fs = []" by (cases r) auto
  with Cons.IH rest assms [of i w report] c show ?case by auto
qed simp

lemma run_subjects_fst:
  "fst (run_subjects call (i # ids) w) = fst (run_subjects call ids (fst (call i w)))"
  by (simp add: case_prod_beta Let_def split: sum.splits)

declare run_subjects.simps(2) [simp del]

lemma forEachSubject_fst: "fst (forEachSubject call bad ids w) = fst (run_subjects call ids w)"
  by (simp add: forEachSubject_def split: prod.splits)

lemma as_failure_fst [simp]: "fst (as_failure f wr) = fst wr"
  by (auto simp: as_failure_def split: prod.splits sum.splits)

section \<open>Dry runs\<close>

lemma execution_dry_run_reads:
  assumes "do_dryRun opts \<noteq> Some False"
  shows "only_reads calls (fst (deleteExecutionsForSubject text_of client i opts calls))"
proof -
  have dry: "(case do_dryRun opts of None \<Rightarrow> True | Some d \<Rightarrow> d)" using assms by (cases "do_dryRun opts") auto
  have "only_reads calls (fst (listExecutionsForSubject text_of client i l calls))" for l
    by (simp add: listExecutionsForSubject_def Let_def split: prod.splits)
  from this [of "Some (case do_limit opts of None \<Rightarrow> 1000 | Some l \<Rightarrow> l)"] dry show ?thesis
    by (auto simp: deleteExecutionsForSubject_def Let_def split: option.splits prod.splits sum.splits)
qed

lemma temporal_dry_run:
  assumes "ed_subjectKeystore deps \<in> {None, Some (memory_keystore random)}"
    and "erase_temporal text_of deps selected ids True limit (st, calls) = ((st', calls'), part)"
  shows "st' = st \<and> only_reads calls calls'"
proof -
  have keys: "fst (shredSubjects (memory_keystore random) ids True st) = st"
  proof -
    have "st = fst (run_subjects (\<lambda>i w. as_failure Keystore_failure (shred_one (memory_keystore random) True i w)) ids st)"
      by (rule run_subjects_relation) (auto simp: shred_one_def memory_keyState_def split: prod.splits)
    then show ?thesis by (simp add: shredSubjects_def case_prod_beta Let_def)
  qed
  have "only_reads calls (fst (deleteSubjectExecutions text_of client ids ns True limit calls))" for client ns
    unfolding deleteSubjectExecutions_def forEachSubject_fst
    by (rule run_subjects_relation) (auto intro: only_reads_trans execution_dry_run_reads)
  with keys assms show ?thesis
    by (auto simp: erase_temporal_def Let_def split: if_splits prod.splits option.splits) (metis fst_conv)+
qed

lemma langfuse_dry_run: "only_reads calls (fst (erase_langfuse deps selected ids True window calls))"
proof -
  have "only_reads calls (fst (deleteSubjectTraces client ids True window calls))" for client
    unfolding deleteSubjectTraces_def forEachSubject_fst
    by (rule run_subjects_relation) (auto intro: only_reads_trans trace_dry_run_reads)
  then show ?thesis by (simp add: erase_langfuse_def split: option.splits)
qed

lemma cache_dry_run: "fst (erase_cache deps selected ids True targeted store) = store"
proof -
  have "store = fst (eraseSubjectCache p ids True targeted store)" for p
    unfolding eraseSubjectCache_def forEachSubject_fst
    by (rule run_subjects_relation) (auto simp: erase_cache_one_def eraseSubjectFromCache_def case_prod_beta)
  then show ?thesis by (auto simp: erase_cache_def split: option.splits)
qed

lemma across_cases:
  assumes "eraseSubject_across text_of now deps subjects opts w = (w', Inr receipt)"
  obtains ids selected st' calls1 temporal calls2 langfuse store' cache where
    "erase_plan subjects opts = Inr (ids, selected)"
    "erase_temporal text_of deps (''temporal'' \<in> set selected) ids (eo_dryRun opts \<noteq> Some False)
       (limit_of (eo_executionLimit opts)) (ew_keys w, ew_calls w) = ((st', calls1), temporal)"
    "erase_langfuse deps (''langfuse'' \<in> set selected) ids (eo_dryRun opts \<noteq> Some False)
       \<lparr>sw_since = eo_since opts, sw_until = eo_until opts\<rparr> calls1 = (calls2, langfuse)"
    "erase_cache deps (''cache'' \<in> set selected) ids (eo_dryRun opts \<noteq> Some False)
       (eo_requireTargetedCache opts) (ew_store w) = (store', cache)"
    "w' = \<lparr>ew_keys = st', ew_calls = calls2, ew_store = store'\<rparr>" "rc_subjectIds receipt = ids"
    "rc_temporal receipt = temporal" "rc_langfuse receipt = langfuse" "rc_cache receipt = cache"
    "rc_dryRun receipt = (eo_dryRun opts \<noteq> Some False)"
proof -
  have dry: "(case eo_dryRun opts of None \<Rightarrow> True | Some d \<Rightarrow> d) = (eo_dryRun opts \<noteq> Some False)"
    by (cases "eo_dryRun opts") auto
  show thesis
    using assms that unfolding eraseSubject_across_def dry
    by (auto simp: Let_def split: sum.splits prod.splits)
qed

text \<open>C24: A dry run, the default, changes nothing: the keystore and the cache are as before, and the only calls made to
  the outside are listings and reads of observations, whatever the services answer.\<close>

theorem dry_run_mutates_nothing:
  assumes "ed_subjectKeystore deps \<in> {None, Some (memory_keystore random)}" and "eo_dryRun opts \<noteq> Some False"
    and "eraseSubject_across text_of now deps subjects opts w = (w', r)"
  shows "ew_keys w' = ew_keys w \<and> ew_store w' = ew_store w
    \<and> (\<exists>new. ew_calls w' = ew_calls w @ new \<and> list_all reads new)"
proof (cases r)
  case (Inl e)
  then have "w' = w" using assms(3) by (auto simp: eraseSubject_across_def Let_def split: sum.splits prod.splits)
  then show ?thesis by simp
next
  case (Inr receipt)
  with assms(3) have run: "eraseSubject_across text_of now deps subjects opts w = (w', Inr receipt)" by simp
  obtain ids selected st' calls1 temporal calls2 langfuse store' cache where *:
    "erase_temporal text_of deps (''temporal'' \<in> set selected) ids True
       (limit_of (eo_executionLimit opts)) (ew_keys w, ew_calls w) = ((st', calls1), temporal)"
    "erase_langfuse deps (''langfuse'' \<in> set selected) ids True
       \<lparr>sw_since = eo_since opts, sw_until = eo_until opts\<rparr> calls1 = (calls2, langfuse)"
    "erase_cache deps (''cache'' \<in> set selected) ids True (eo_requireTargetedCache opts) (ew_store w) = (store', cache)"
    "w' = \<lparr>ew_keys = st', ew_calls = calls2, ew_store = store'\<rparr>"
    using run assms(2) by (auto elim: across_cases)
  note t = temporal_dry_run [OF assms(1) *(1)]
  have "only_reads calls1 calls2" using langfuse_dry_run *(2) by (metis fst_conv)
  with t have "only_reads (ew_calls w) calls2" by (blast intro: only_reads_trans)
  moreover have "store' = ew_store w" using cache_dry_run *(3) by (metis fst_conv)
  ultimately show ?thesis using t *(4) by (simp add: only_reads_def)
qed

section \<open>Executed runs\<close>

lemma shred_view:
  assumes "\<forall>i\<in>set ids. i \<noteq> []"
  shows "memory_view (fst (run_subjects (\<lambda>i w. as_failure Keystore_failure (shred_one (memory_keystore random) False i w)) ids st)) j
      = (if j \<in> set ids then Destroyed else memory_view st j)"
  using assms
proof (induction ids arbitrary: st)
  case (Cons i ids)
  have "memory_view (fst (shred_one (memory_keystore random) False i st)) = (memory_view st)(i := Destroyed)"
    using mem.destroy [of random i st] Cons.prems by (simp add: shred_one_def case_prod_beta)
  with Cons show ?case by (simp add: run_subjects_fst)
qed simp

lemma shred_failures:
  assumes "\<forall>i\<in>set ids. i \<noteq> []"
  shows "snd (snd (run_subjects (\<lambda>i w. as_failure Keystore_failure (shred_one (memory_keystore random) False i w)) ids st)) = []"
  using assms
proof (induction ids arbitrary: st)
  case (Cons i ids)
  obtain st' e where "as_failure Keystore_failure (shred_one (memory_keystore random) False i st) = (st', Inr e)"
    using Cons.prems by (simp add: shred_one_def memory_destroy_def as_failure_def Let_def)
  with Cons.IH [of st'] Cons.prems show ?case by (simp add: run_subjects.simps(2) case_prod_beta)
qed simp

lemma cache_erased:
  assumes "store_inv store" "isSubjectErasableCacheStore p"
  shows "store_inv (fst (run_subjects (erase_cache_one p False targeted) ids store))
    \<and> records (fst (run_subjects (erase_cache_one p False targeted) ids store)) d
      = (case records store d of None \<Rightarrow> None
         | Some r \<Rightarrow> if set ids \<inter> set (subjects_of r) \<noteq> {} then None else Some r)"
  using assms(1)
proof (induction ids arbitrary: store)
  case (Cons i ids)
  obtain store1 report where e: "eraseSubject (sp_class p) i False store = (store1, report)" by fastforce
  note spec = eraseSubject_spec [OF Cons.prems e]
  have one: "fst (erase_cache_one p False targeted i store) = store1"
    using e assms(2) by (simp add: erase_cache_one_def eraseSubjectFromCache_def)
  have "fst (run_subjects (erase_cache_one p False targeted) (i # ids) store)
      = fst (run_subjects (erase_cache_one p False targeted) ids store1)"
    using one by (simp add: run_subjects_fst)
  with Cons.IH [OF spec(1)] spec(2) [of d] show ?case by (auto split: option.splits)
qed (auto split: option.splits)

lemma plan_ids:
  assumes "erase_plan subjects opts = Inr (ids, selected)"
  shows "ids \<noteq> [] \<and> distinct ids \<and> (\<forall>i\<in>set ids. i \<noteq> [])"
proof -
  from assms obtain xs where "normalizeSubjectIds xs = Inr ids" "ids \<noteq> []"
    by (auto simp: erase_plan_def result_simps split: sum.splits)
  moreover have "blank []" by (simp add: blank_def trim_def)
  ultimately show ?thesis using normalize_spec [of xs ids] by (auto simp: proper_ids_def)
qed

text \<open>C10: An executed erasure does what its receipt is for, whatever the Temporal and Langfuse services answer: with the
  temporal surface selected and a keystore given, the record of every subject of the receipt is destroyed, no
  record of another subject changes and the keystore part succeeds; with the cache surface selected and an erasable
  store given, exactly the cached records that name one of the subjects are gone.\<close>

theorem executed_erasure_is_complete:
  assumes "eraseSubject_across text_of now deps subjects opts w = (w', Inr receipt)" and "eo_dryRun opts = Some False"
    and "ed_subjectKeystore deps = Some (memory_keystore random)"
    and "ed_cacheStore deps = Some p" and "isSubjectErasableCacheStore p"
    and "ew_store w = store_run sha cls ops"
    and "eo_surfaces opts = None \<or> eo_surfaces opts = Some s \<and> {''temporal'', ''cache''} \<subseteq> set s"
  shows "rc_subjectIds receipt \<noteq> []
    \<and> (\<forall>i. memory_view (ew_keys w') i = (if i \<in> set (rc_subjectIds receipt) then Destroyed else memory_view (ew_keys w) i))
    \<and> map_option kp_status (tp_keystore (rc_temporal receipt)) = Some Surface_ok
    \<and> (\<forall>d. records (ew_store w') d = (case records (ew_store w) d of None \<Rightarrow> None
         | Some r \<Rightarrow> if set (rc_subjectIds receipt) \<inter> set (subjects_of r) \<noteq> {} then None else Some r))"
proof (rule across_cases [OF assms(1)])
  fix ids selected st' calls1 temporal calls2 langfuse store' cache
  assume plan: "erase_plan subjects opts = Inr (ids, selected)"
    and t: "erase_temporal text_of deps (''temporal'' \<in> set selected) ids (eo_dryRun opts \<noteq> Some False)
       (limit_of (eo_executionLimit opts)) (ew_keys w, ew_calls w) = ((st', calls1), temporal)"
    and c: "erase_cache deps (''cache'' \<in> set selected) ids (eo_dryRun opts \<noteq> Some False)
       (eo_requireTargetedCache opts) (ew_store w) = (store', cache)"
    and w': "w' = \<lparr>ew_keys = st', ew_calls = calls2, ew_store = store'\<rparr>"
    and receipt: "rc_subjectIds receipt = ids" "rc_temporal receipt = temporal"
  have sel: "''temporal'' \<in> set selected" "''cache'' \<in> set selected"
    using plan assms(7) by (auto simp: erase_plan_def result_simps normalizeSurfaces_def Let_def ERASURE_SURFACES_def
        split: sum.splits if_splits)
  note ids = plan_ids [OF plan]
  let ?run = "run_subjects (\<lambda>i w. as_failure Keystore_failure (shred_one (memory_keystore random) False i w)) ids (ew_keys w)"
  obtain st1 entries failures where run: "?run = (st1, entries, failures)" by (metis prod_cases3)
  have "failures = []" using shred_failures [of ids random "ew_keys w"] ids run by simp
  with t sel run have keys: "st' = fst ?run" "map_option kp_status (tp_keystore temporal) = Some Surface_ok"
    using assms(2,3) by (auto simp: erase_temporal_def shredSubjects_def Let_def split: prod.splits)
  have view: "\<forall>i. memory_view st' i = (if i \<in> set ids then Destroyed else memory_view (ew_keys w) i)"
    using shred_view [of ids random "ew_keys w"] ids keys(1) by simp
  have "store' = fst (run_subjects (erase_cache_one p False (eo_requireTargetedCache opts)) ids (ew_store w))"
    using c sel assms(2,4) by (simp add: erase_cache_def eraseSubjectCache_def forEachSubject_def split: prod.splits)
  with cache_erased [OF store_inv_run [of sha cls ops] assms(5)] assms(6) view keys(2) ids
  show ?thesis unfolding receipt w' by simp
qed

section \<open>The receipt\<close>

lemma part_not_failed:
  assumes "forEachSubject call bad ids w = (w', part)" "dp_status part \<noteq> Surface_failed"
    and "\<And>i w r. snd (call i w) = Inr r \<Longrightarrow> subject_of r = i"
  shows "map subject_of (dp_reports part) = ids \<and> (\<forall>r\<in>set (dp_reports part). \<not> bad r) \<and> dp_failures part = []"
proof -
  obtain w1 reports failures where r: "run_subjects call ids w = (w1, reports, failures)" by (metis prod_cases3)
  with assms(1,2) have "failures = []" "\<forall>r\<in>set reports. \<not> bad r" "dp_reports part = reports" "dp_failures part = failures"
    by (auto simp: forEachSubject_def split: if_splits)
  with run_subjects_accounts [of call subject_of, OF assms(3)] r show ?thesis by auto
qed

lemma as_failure_Inr: "snd (as_failure f wr) = Inr r \<longleftrightarrow> snd wr = Inr r"
  by (auto simp: as_failure_def split: prod.splits sum.splits)

lemma execution_report_subject:
  "snd (deleteExecutionsForSubject text_of client i opts calls) = Inr r \<Longrightarrow> xd_subject r = i"
  by (auto simp: deleteExecutionsForSubject_def Let_def split: if_splits option.splits sum.splits prod.splits)

lemma trace_report_subject: "snd (deleteTracesForSubject client i opts calls) = Inr r \<Longrightarrow> td_subject r = i"
  by (auto simp: deleteTracesForSubject_def Let_def split: if_splits option.splits sum.splits prod.splits)

lemma run_subjects_reports:
  "run_subjects call ids w = (w', reports, failures) \<Longrightarrow> r \<in> set reports \<Longrightarrow> \<exists>i\<in>set ids. \<exists>v. snd (call i v) = Inr r"
proof (induction ids arbitrary: w w' reports failures)
  case (Cons i ids)
  obtain w1 r1 where c: "call i w = (w1, r1)" by fastforce
  obtain w2 rs fs where rest: "run_subjects call ids w1 = (w2, rs, fs)" by (metis prod_cases3)
  from Cons.prems c rest have "snd (call i w) = Inr r \<or> r \<in> set rs"
    by (cases r1) (auto simp: run_subjects.simps(2))
  with Cons.IH [OF rest] show ?case by auto
qed simp

lemma part_reports:
  assumes "forEachSubject call bad ids w = (w', part)" "r \<in> set (dp_reports part)"
  obtains i v where "snd (call i v) = Inr r"
  using assms run_subjects_reports [of call ids w] by (fastforce simp: forEachSubject_def split: prod.splits)

lemma execution_report_counts:
  assumes "deleteExecutionsForSubject text_of client i opts calls = (calls', Inr r)" "do_dryRun opts = Some False"
  shows "xd_deletedCount r + length (xd_failed r) = length (xd_deletable r)"
proof (rule driver_cases [OF assms(1)])
  assume "xd_dry r = (do_dryRun opts \<noteq> Some False)" and n: "xd_deletedCount r = length (xd_deleted r)"
    and "(calls', xd_deleted r, xd_failed r) =
       (if xd_dry r then (calls @ [List_executions (subjectIndexQuery i)], [], [])
        else delete_executions client (xd_namespace r) (xd_deletable r) (calls @ [List_executions (subjectIndexQuery i)]))"
  then have "delete_executions client (xd_namespace r) (xd_deletable r) (calls @ [List_executions (subjectIndexQuery i)])
      = (calls', xd_deleted r, xd_failed r)" using assms(2) by simp
  from delete_executions_spec [OF this] n show ?thesis by simp
qed

section \<open>What the services answered to the deletions\<close>

text \<open>The deletions in a stretch of the log, each with the error the service answered, if it did.\<close>

fun deletions ::
    "temporal_client option \<Rightarrow> trace_client option \<Rightarrow> call_log \<Rightarrow> call_log \<Rightarrow> (outside_call \<times> string option) list" where
  "deletions tc lc calls [] = []"
| "deletions tc lc calls (c # cs) =
     (case c of
        Delete_execution n i r \<Rightarrow> [(c, Option.bind tc (\<lambda>client. tc_delete client calls n i r))]
      | Delete_traces ids \<Rightarrow> [(c, Option.bind lc (\<lambda>client. lc_deleteMultiple client calls ids))]
      | _ \<Rightarrow> []) @ deletions tc lc (calls @ [c]) cs"

lemma deletions_append: "deletions tc lc calls (xs @ ys) = deletions tc lc calls xs @ deletions tc lc (calls @ xs) ys"
  by (induction xs arbitrary: calls) simp_all

lemma deletions_reads: "list_all reads cs \<Longrightarrow> deletions tc lc calls cs = []"
  by (induction cs arbitrary: calls) (auto simp: reads_def split: outside_call.splits)

text \<open>The executions and the traces whose deletion was refused, with the error.\<close>

definition refused_executions :: "(outside_call \<times> string option) list \<Rightarrow> (string \<times> string option \<times> string) list" where
  "refused_executions ds = concat (map (\<lambda>d. case d of (Delete_execution n i r, Some e) \<Rightarrow> [(i, r, e)] | _ \<Rightarrow> []) ds)"

definition refused_traces :: "(outside_call \<times> string option) list \<Rightarrow> (string \<times> string) list" where
  "refused_traces ds = concat (map (\<lambda>d. case d of (Delete_traces ids, Some e) \<Rightarrow> map (\<lambda>t. (t, e)) ids | _ \<Rightarrow> []) ds)"

lemma refused_simps [simp]:
  "refused_executions [] = []" "refused_traces [] = []"
  "refused_executions (ds @ ds') = refused_executions ds @ refused_executions ds'"
  "refused_traces (ds @ ds') = refused_traces ds @ refused_traces ds'"
  by (simp_all add: refused_executions_def refused_traces_def)

text \<open>A report tells what happened: its planned deletions are the calls that were made, and its failures are what the
  service refused.\<close>

definition execution_calls :: "execution_report \<Rightarrow> outside_call list" where
  "execution_calls r = map (\<lambda>d. Delete_execution (xd_namespace r) (dr_executionId d) (dr_runId d)) (xd_deletable r)"

definition execution_told :: "execution_report \<Rightarrow> (outside_call \<times> string option) list \<Rightarrow> bool" where
  "execution_told r ds \<longleftrightarrow> map fst ds = execution_calls r \<and> refused_traces ds = []
     \<and> refused_executions ds = map (\<lambda>f. (xf_executionId f, xf_runId f, xf_reason f)) (xd_failed r)
     \<and> xd_deletedCount r + length (xd_failed r) = length (xd_deletable r)"

definition trace_calls :: "trace_report \<Rightarrow> outside_call list" where
  "trace_calls r = map Delete_traces (chunked 100 (td_traceIds r))"

definition trace_told :: "trace_report \<Rightarrow> (outside_call \<times> string option) list \<Rightarrow> bool" where
  "trace_told r ds \<longleftrightarrow> map fst ds = trace_calls r \<and> refused_executions ds = []
     \<and> refused_traces ds = map (\<lambda>f. (tf_traceId f, tf_reason f)) (td_failed r)
     \<and> td_deletedCount r + length (td_failed r) = length (td_traceIds r)"

lemma delete_executions_told:
  "delete_executions client ns refs calls = (calls', deleted, failures) \<Longrightarrow>
     ds = deletions (Some client) lc calls (map (delete_call ns) refs) \<Longrightarrow>
     map fst ds = map (delete_call ns) refs \<and> refused_traces ds = []
     \<and> refused_executions ds = map (\<lambda>f. (xf_executionId f, xf_runId f, xf_reason f)) failures"
proof (induction refs arbitrary: calls calls' deleted failures ds)
  case (Cons ref refs)
  obtain calls1 d f where r: "delete_executions client ns refs (calls @ [delete_call ns ref]) = (calls1, d, f)"
    by (metis prod_cases3)
  from Cons.IH [OF r refl] Cons.prems r show ?case
    by (auto simp: delete_call_def refused_executions_def refused_traces_def Let_def split: option.splits)
qed (simp add: refused_executions_def refused_traces_def)

lemma delete_batches_told:
  "delete_batches client batches calls = (calls', n, failures) \<Longrightarrow>
     ds = deletions tc (Some client) calls (map Delete_traces batches) \<Longrightarrow>
     map fst ds = map Delete_traces batches \<and> refused_executions ds = []
     \<and> refused_traces ds = map (\<lambda>f. (tf_traceId f, tf_reason f)) failures"
proof (induction batches arbitrary: calls calls' n failures ds)
  case (Cons b bs)
  obtain calls1 n1 f1 where r: "delete_batches client bs (calls @ [Delete_traces b]) = (calls1, n1, f1)" by (metis prod_cases3)
  from Cons.IH [OF r refl] Cons.prems r show ?case
    by (auto simp: refused_executions_def refused_traces_def comp_def split: option.splits)
qed (simp add: refused_executions_def refused_traces_def)

lemma execution_driver_told:
  assumes "deleteExecutionsForSubject text_of client i opts calls = (calls', Inr r)" "do_dryRun opts = Some False"
  shows "\<exists>new. calls' = calls @ new \<and> execution_told r (deletions (Some client) lc calls new)"
proof (rule driver_cases [OF assms(1)])
  let ?list = "List_executions (subjectIndexQuery i)"
  assume "xd_dry r = (do_dryRun opts \<noteq> Some False)"
    and "(calls', xd_deleted r, xd_failed r) = (if xd_dry r then (calls @ [?list], [], [])
        else delete_executions client (xd_namespace r) (xd_deletable r) (calls @ [?list]))"
  then have run: "delete_executions client (xd_namespace r) (xd_deletable r) (calls @ [?list])
      = (calls', xd_deleted r, xd_failed r)" using assms(2) by simp
  have plan: "map (delete_call (xd_namespace r)) (xd_deletable r) = execution_calls r"
    by (simp add: execution_calls_def delete_call_def)
  have "calls' = calls @ ?list # execution_calls r" using delete_executions_spec [OF run] plan by simp
  moreover have "execution_told r (deletions (Some client) lc calls (?list # execution_calls r))"
    using delete_executions_told [OF run refl, of lc] execution_report_counts [OF assms] plan by (simp add: execution_told_def)
  ultimately show ?thesis by blast
qed

lemma execution_driver_throws:
  assumes "deleteExecutionsForSubject text_of client i opts calls = (calls', Inl e)"
  shows "only_reads calls calls'"
  using assms by (auto simp: deleteExecutionsForSubject_def listExecutionsForSubject_def Let_def
      split: if_splits option.splits sum.splits prod.splits)

lemma trace_driver_told:
  assumes "deleteTracesForSubject client i opts calls = (calls', Inr r)" "to_dryRun opts = Some False"
  shows "\<exists>new. calls' = calls @ new \<and> trace_told r (deletions tc (Some client) calls new)"
proof (rule trace_driver_cases [OF assms(1)])
  fix reading count failures
  assume reading: "list_all reads reading" and failures: "td_failed r = failures"
    and "(if to_dryRun opts \<noteq> Some False then (calls @ reading, 0, [])
      else delete_batches client (chunked 100 (td_traceIds r)) (calls @ reading)) = (calls', count, failures)"
  then have run: "delete_batches client (chunked 100 (td_traceIds r)) (calls @ reading) = (calls', count, failures)"
    using assms(2) by simp
  have "calls' = calls @ reading @ trace_calls r" using delete_batches_spec [OF run] by (simp add: trace_calls_def)
  moreover have "trace_told r (deletions tc (Some client) calls (reading @ trace_calls r))"
    using delete_batches_told [OF run refl, of tc] trace_report_counts [OF assms] deletions_reads [OF reading] failures
    by (simp add: trace_told_def deletions_append trace_calls_def)
  ultimately show ?thesis by blast
qed

lemma trace_driver_throws:
  assumes "deleteTracesForSubject client i opts calls = (calls', Inl e)"
  shows "only_reads calls calls'"
proof -
  let ?n = "case to_maxListPages opts of None \<Rightarrow> 10000 | Some n \<Rightarrow> n"
  obtain calls1 r1 where l1: "listSubjectTraceRows client (By_tags [SUBJECT_TAG_PREFIX @ i]) (to_window opts) ?n calls = (calls1, r1)" by fastforce
  obtain calls2 r2 where l2: "listSubjectTraceRows client (By_user i) (to_window opts) ?n calls1 = (calls2, r2)" by fastforce
  have a: "only_reads calls calls1" "only_reads calls1 calls2"
    using listing_reads [of calls client] l1 listing_reads [of calls1 client] l2 by (metis fst_conv)+
  then have "only_reads calls (fst (sort_traces client s m known ts calls2))" for s m known ts
    using only_reads_trans sort_traces_reads by blast
  then show ?thesis using assms a l1 l2
    by (auto simp: deleteTracesForSubject_def Let_def split: if_splits sum.splits prod.splits intro: only_reads_trans) (metis fst_conv)+
qed

section \<open>The receipt against the answers\<close>

text \<open>The loop over the subjects: the deletions of the whole loop are those of its reports, in order.\<close>

lemma run_subjects_told:
  assumes "\<And>i w w' r. call i w = (w', Inr r) \<Longrightarrow> \<exists>new. w' = w @ new \<and> told r (deletions tc lc w new)"
    and "\<And>i w w' e. call i w = (w', Inl e) \<Longrightarrow> only_reads w w'"
  shows "run_subjects call ids w = (w', reports, failures) \<Longrightarrow>
    \<exists>new dss. w' = w @ new \<and> deletions tc lc w new = concat dss \<and> list_all2 told reports dss"
proof (induction ids arbitrary: w w' reports failures)
  case Nil
  then show ?case by (intro exI [of _ "[]"]) simp
next
  case (Cons i ids)
  obtain w1 r where c: "call i w = (w1, r)" by fastforce
  obtain w2 rs fs where rest: "run_subjects call ids w1 = (w2, rs, fs)" by (metis prod_cases3)
  from Cons.IH [OF rest] obtain new2 dss where n2: "w2 = w1 @ new2" "deletions tc lc w1 new2 = concat dss" "list_all2 told rs dss"
    by blast
  have w': "w' = w2" using Cons.prems c rest by (auto simp: run_subjects.simps(2) split: sum.splits)
  show ?case
  proof (cases r)
    case (Inl e)
    with assms(2) c obtain new1 where "w1 = w @ new1" "list_all reads new1" by (force simp: only_reads_def)
    with Inl n2 w' Cons.prems c rest show ?thesis
      by (intro exI [of _ "new1 @ new2"] exI [of _ dss]) (auto simp: run_subjects.simps(2) deletions_append deletions_reads)
  next
    case (Inr report)
    with assms(1) c obtain new1 where "w1 = w @ new1" "told report (deletions tc lc w new1)" by blast
    with Inr n2 w' Cons.prems c rest show ?thesis
      by (intro exI [of _ "new1 @ new2"] exI [of _ "deletions tc lc w new1 # dss"])
        (auto simp: run_subjects.simps(2) deletions_append)
  qed
qed

definition refusals_reported :: "execution_report list \<Rightarrow> trace_report list \<Rightarrow> (outside_call \<times> string option) list \<Rightarrow> bool" where
  "refusals_reported xs ts ds \<longleftrightarrow>
     refused_executions ds = concat (map (\<lambda>r. map (\<lambda>f. (xf_executionId f, xf_runId f, xf_reason f)) (xd_failed r)) xs)
     \<and> refused_traces ds = concat (map (\<lambda>r. map (\<lambda>f. (tf_traceId f, tf_reason f)) (td_failed r)) ts)
     \<and> (\<forall>r\<in>set xs. xd_deletedCount r + length (xd_failed r) = length (xd_deletable r))
     \<and> (\<forall>r\<in>set ts. td_deletedCount r + length (td_failed r) = length (td_traceIds r))"

lemma executions_together:
  "list_all2 execution_told xs dss \<Longrightarrow>
     map fst (concat dss) = concat (map execution_calls xs) \<and> refusals_reported xs [] (concat dss)"
  by (induction xs dss rule: list_all2_induct) (auto simp: execution_told_def refusals_reported_def)

lemma traces_together:
  "list_all2 trace_told ts dss \<Longrightarrow>
     map fst (concat dss) = concat (map trace_calls ts) \<and> refusals_reported [] ts (concat dss)"
  by (induction ts dss rule: list_all2_induct) (auto simp: trace_told_def refusals_reported_def)

definition execution_reports :: "erasure_receipt \<Rightarrow> execution_report list" where
  "execution_reports receipt = (case tp_executions (rc_temporal receipt) of None \<Rightarrow> [] | Some part \<Rightarrow> dp_reports part)"

lemma executions_part_told:
  assumes "deleteSubjectExecutions text_of client ids ns False limit calls = (calls', part)"
  shows "\<exists>new. calls' = calls @ new
      \<and> map fst (deletions (Some client) lc calls new) = concat (map execution_calls (dp_reports part))
      \<and> refusals_reported (dp_reports part) [] (deletions (Some client) lc calls new)
      \<and> (dp_status part \<noteq> Surface_failed \<longrightarrow> map xd_subject (dp_reports part) = ids \<and> (\<forall>r\<in>set (dp_reports part). xd_failed r = []))"
proof -
  let ?call = "\<lambda>i w. as_failure Driver_failure (deleteExecutionsForSubject text_of client i
         \<lparr>do_namespace = ns, do_dryRun = Some False, do_limit = Some limit\<rparr> w)"
  have each: "forEachSubject ?call (\<lambda>r. xd_failed r \<noteq> []) ids calls = (calls', part)"
    using assms by (simp add: deleteSubjectExecutions_def)
  then obtain failures where run: "run_subjects ?call ids calls = (calls', dp_reports part, failures)"
    by (auto simp: forEachSubject_def split: prod.splits)
  have "\<exists>new dss. calls' = calls @ new \<and> deletions (Some client) lc calls new = concat dss \<and> list_all2 execution_told (dp_reports part) dss"
    by (rule run_subjects_told [OF _ _ run]) (auto simp: as_failure_def split: prod.splits sum.splits
        dest: execution_driver_told execution_driver_throws)
  moreover have "dp_status part \<noteq> Surface_failed \<Longrightarrow> map xd_subject (dp_reports part) = ids \<and> (\<forall>r\<in>set (dp_reports part). xd_failed r = [])"
    using part_not_failed [OF each, of xd_subject] execution_report_subject by (auto simp: as_failure_Inr)
  ultimately show ?thesis using executions_together by metis
qed

lemma traces_part_told:
  assumes "deleteSubjectTraces client ids False window calls = (calls', part)"
  shows "\<exists>new. calls' = calls @ new
      \<and> map fst (deletions tc (Some client) calls new) = concat (map trace_calls (dp_reports part))
      \<and> refusals_reported [] (dp_reports part) (deletions tc (Some client) calls new)
      \<and> (dp_status part \<noteq> Surface_failed \<longrightarrow> map td_subject (dp_reports part) = ids \<and> (\<forall>r\<in>set (dp_reports part). td_failed r = []))"
proof -
  let ?call = "\<lambda>i w. as_failure Driver_failure (deleteTracesForSubject client i
         \<lparr>to_dryRun = Some False, to_window = window, to_maxListPages = None\<rparr> w)"
  have each: "forEachSubject ?call (\<lambda>r. td_failed r \<noteq> []) ids calls = (calls', part)"
    using assms by (simp add: deleteSubjectTraces_def)
  then obtain failures where run: "run_subjects ?call ids calls = (calls', dp_reports part, failures)"
    by (auto simp: forEachSubject_def split: prod.splits)
  have "\<exists>new dss. calls' = calls @ new \<and> deletions tc (Some client) calls new = concat dss \<and> list_all2 trace_told (dp_reports part) dss"
    by (rule run_subjects_told [OF _ _ run]) (auto simp: as_failure_def split: prod.splits sum.splits
        dest: trace_driver_told trace_driver_throws)
  moreover have "dp_status part \<noteq> Surface_failed \<Longrightarrow> map td_subject (dp_reports part) = ids \<and> (\<forall>r\<in>set (dp_reports part). td_failed r = [])"
    using part_not_failed [OF each, of td_subject] trace_report_subject by (auto simp: as_failure_Inr)
  ultimately show ?thesis using traces_together by metis
qed

lemma temporal_told:
  assumes "erase_temporal text_of deps selected ids False limit (st, calls) = ((st', calls'), temporal)"
    and "xs = (case tp_executions temporal of None \<Rightarrow> [] | Some part \<Rightarrow> dp_reports part)"
  shows "\<exists>new. calls' = calls @ new
      \<and> map fst (deletions (ed_temporalClient deps) lc calls new) = concat (map execution_calls xs)
      \<and> refusals_reported xs [] (deletions (ed_temporalClient deps) lc calls new)
      \<and> (tp_status temporal \<noteq> Surface_failed \<and> selected \<and> ed_temporalClient deps \<noteq> None \<longrightarrow>
           map xd_subject xs = ids \<and> (\<forall>r\<in>set xs. xd_failed r = []))"
proof (cases "selected \<and> ed_temporalClient deps \<noteq> None")
  case True
  then obtain client where client: "ed_temporalClient deps = Some client" by blast
  obtain calls1 part where d: "deleteSubjectExecutions text_of client ids (ed_temporalNamespace deps) False limit calls = (calls1, part)"
    by fastforce
  with assms True client have "calls' = calls1" "xs = dp_reports part" "tp_status temporal \<noteq> Surface_failed \<longrightarrow> dp_status part \<noteq> Surface_failed"
    by (auto simp: erase_temporal_def temporal_status_def Let_def split: prod.splits)
  with executions_part_told [OF d, of lc] client show ?thesis by auto
next
  case False
  with assms have "calls' = calls \<and> xs = []"
    by (auto simp: erase_temporal_def skipped_part_def Let_def split: if_splits prod.splits)
  with False show ?thesis by (auto simp: refusals_reported_def intro: exI [of _ "[]"])
qed

lemma langfuse_told:
  assumes "erase_langfuse deps selected ids False window calls = (calls', part)"
  shows "\<exists>new. calls' = calls @ new
      \<and> map fst (deletions tc (ed_langfuseClient deps) calls new) = concat (map trace_calls (dp_reports part))
      \<and> refusals_reported [] (dp_reports part) (deletions tc (ed_langfuseClient deps) calls new)
      \<and> (dp_status part \<noteq> Surface_failed \<and> selected \<and> ed_langfuseClient deps \<noteq> None \<longrightarrow>
           map td_subject (dp_reports part) = ids \<and> (\<forall>r\<in>set (dp_reports part). td_failed r = []))"
proof (cases "selected \<and> ed_langfuseClient deps \<noteq> None")
  case True
  then obtain client where client: "ed_langfuseClient deps = Some client" by blast
  with assms True have "deleteSubjectTraces client ids False window calls = (calls', part)" by (simp add: erase_langfuse_def)
  from traces_part_told [OF this, of tc] client show ?thesis by auto
next
  case False
  with assms have "calls' = calls \<and> dp_reports part = []"
    by (auto simp: erase_langfuse_def skipped_part_def split: if_splits)
  with False show ?thesis by (auto simp: refusals_reported_def intro: exI [of _ "[]"])
qed

lemma refusals_together:
  "refusals_reported xs [] ds \<Longrightarrow> refusals_reported [] ts ds' \<Longrightarrow> refusals_reported xs ts (ds @ ds')"
  by (simp add: refusals_reported_def)

text \<open>With no failure in any report, no deletion was refused.\<close>

lemma nothing_refused:
  assumes "refusals_reported xs ts ds" "\<forall>r\<in>set xs. xd_failed r = []" "\<forall>r\<in>set ts. td_failed r = []"
    and calls: "map fst ds = concat (map execution_calls xs) @ concat (map trace_calls ts)" and d: "(c, answer) \<in> set ds"
  shows "answer = None"
proof (rule ccontr)
  assume "answer \<noteq> None"
  then obtain e where e: "answer = Some e" by blast
  have none: "refused_executions ds = []" "refused_traces ds = []" using assms(1-3) by (auto simp: refusals_reported_def)
  have "c \<in> set (map fst ds)" using d by force
  then consider n i r where "c = Delete_execution n i r" | ids where "c = Delete_traces ids" "ids \<noteq> []"
    unfolding calls using chunked_spec [of 100 "td_traceIds t" for t] by (fastforce simp: execution_calls_def trace_calls_def)
  then show False
    using none d by cases (force simp: refused_executions_def refused_traces_def e)+
qed

text \<open>The surfaces of the options: all of them when none are named.\<close>

definition asked :: "erase_options \<Rightarrow> string \<Rightarrow> bool" where
  "asked opts surface \<longleftrightarrow> (case eo_surfaces opts of None \<Rightarrow> True | Some s \<Rightarrow> surface \<in> set s)"

lemma asked_selected:
  "erase_plan subjects opts = Inr (ids, selected) \<Longrightarrow> surface \<in> set ERASURE_SURFACES \<Longrightarrow> asked opts surface \<longleftrightarrow> surface \<in> set selected"
  by (auto simp: erase_plan_def asked_def result_simps normalizeSurfaces_def Let_def split: sum.splits if_splits option.splits)

lemma cache_told:
  assumes "erase_cache deps selected ids dryRun targeted store = (store', part)" "dp_status part \<noteq> Surface_failed"
    and "selected" "ed_cacheStore deps \<noteq> None"
  shows "map er_subjectId (dp_reports part) = ids
    \<and> (\<forall>r\<in>set (dp_reports part). er_failures r = [] \<and> (targeted \<longrightarrow> er_supported r))"
proof -
  obtain p where "ed_cacheStore deps = Some p" using assms(4) by blast
  with assms have each: "forEachSubject (erase_cache_one p dryRun targeted) (\<lambda>r. er_failures r \<noteq> []) ids store = (store', part)"
    by (simp add: erase_cache_def eraseSubjectCache_def)
  have one: "er_subjectId r = i \<and> (targeted \<longrightarrow> er_supported r)" if "snd (erase_cache_one p dryRun targeted i st) = Inr r" for i st r
    using that by (auto simp: erase_cache_one_def eraseSubjectFromCache_def eraseSubject_def
        notSupportedCacheErasureReport_def Let_def split: if_splits prod.splits)
  have "er_supported r" if "targeted" "r \<in> set (dp_reports part)" for r
    by (rule part_reports [OF each that(2)]) (use one that(1) in blast)
  with part_not_failed [OF each assms(2), of er_subjectId] one show ?thesis by blast
qed

text \<open>C25: The receipt of an executed run tells what the services did. For every client and whatever it answers: the
  deletions the run asked for, in order, are those its reports plan, executions first and traces, in batches of at most
  100, after them; the failures in the reports are exactly the deletions the services refused, with the error they
  answered, and what a report counts as deleted are the others. And a receipt without a failure can be relied on:
  each deletion was answered without an error, and on each surface that is asked for and has a client or store each
  subject of the receipt has its report, in order, for the cache with no failed deletion and, where the options insist
  on it, by a store that can delete by subject.\<close>

theorem receipt_is_honest:
  assumes "eraseSubject_across text_of now deps subjects opts w = (w', Inr receipt)" and "eo_dryRun opts = Some False"
    and "xs = execution_reports receipt" and "ts = dp_reports (rc_langfuse receipt)"
  shows "\<exists>new ds. ew_calls w' = ew_calls w @ new
    \<and> ds = deletions (ed_temporalClient deps) (ed_langfuseClient deps) (ew_calls w) new
    \<and> map fst ds = concat (map execution_calls xs) @ concat (map trace_calls ts)
    \<and> refusals_reported xs ts ds
    \<and> (\<not> erasureFailed receipt \<longrightarrow> (\<forall>d\<in>set ds. snd d = None)
        \<and> (asked opts ''temporal'' \<and> ed_temporalClient deps \<noteq> None \<longrightarrow> map xd_subject xs = rc_subjectIds receipt)
        \<and> (asked opts ''langfuse'' \<and> ed_langfuseClient deps \<noteq> None \<longrightarrow> map td_subject ts = rc_subjectIds receipt)
        \<and> (asked opts ''cache'' \<and> ed_cacheStore deps \<noteq> None \<longrightarrow> map er_subjectId (dp_reports (rc_cache receipt)) = rc_subjectIds receipt
            \<and> (\<forall>r\<in>set (dp_reports (rc_cache receipt)). er_failures r = [] \<and> (eo_requireTargetedCache opts \<longrightarrow> er_supported r))))"
proof (rule across_cases [OF assms(1)])
  fix ids selected st' calls1 temporal calls2 langfuse store' cache
  assume plan: "erase_plan subjects opts = Inr (ids, selected)"
    and "erase_temporal text_of deps (''temporal'' \<in> set selected) ids (eo_dryRun opts \<noteq> Some False)
       (limit_of (eo_executionLimit opts)) (ew_keys w, ew_calls w) = ((st', calls1), temporal)"
    and "erase_langfuse deps (''langfuse'' \<in> set selected) ids (eo_dryRun opts \<noteq> Some False)
       \<lparr>sw_since = eo_since opts, sw_until = eo_until opts\<rparr> calls1 = (calls2, langfuse)"
    and c: "erase_cache deps (''cache'' \<in> set selected) ids (eo_dryRun opts \<noteq> Some False)
       (eo_requireTargetedCache opts) (ew_store w) = (store', cache)"
    and w': "w' = \<lparr>ew_keys = st', ew_calls = calls2, ew_store = store'\<rparr>"
    and receipt: "rc_subjectIds receipt = ids" "rc_temporal receipt = temporal" "rc_langfuse receipt = langfuse"
      "rc_cache receipt = cache"
  then have t: "erase_temporal text_of deps (''temporal'' \<in> set selected) ids False
       (limit_of (eo_executionLimit opts)) (ew_keys w, ew_calls w) = ((st', calls1), temporal)"
    and l: "erase_langfuse deps (''langfuse'' \<in> set selected) ids False
       \<lparr>sw_since = eo_since opts, sw_until = eo_until opts\<rparr> calls1 = (calls2, langfuse)"
    using assms(2) by simp_all
  let ?tc = "ed_temporalClient deps" and ?lc = "ed_langfuseClient deps"
  have xs: "xs = (case tp_executions temporal of None \<Rightarrow> [] | Some part \<Rightarrow> dp_reports part)"
    by (simp add: assms(3) execution_reports_def receipt)
  from temporal_told [OF t xs, of ?lc] obtain n1 where n1: "calls1 = ew_calls w @ n1"
    "map fst (deletions ?tc ?lc (ew_calls w) n1) = concat (map execution_calls xs)"
    "refusals_reported xs [] (deletions ?tc ?lc (ew_calls w) n1)"
    "tp_status temporal \<noteq> Surface_failed \<and> ''temporal'' \<in> set selected \<and> ?tc \<noteq> None \<longrightarrow>
       map xd_subject xs = ids \<and> (\<forall>r\<in>set xs. xd_failed r = [])" by blast
  from langfuse_told [OF l, of ?tc] obtain n2 where n2: "calls2 = calls1 @ n2"
    "map fst (deletions ?tc ?lc calls1 n2) = concat (map trace_calls ts)"
    "refusals_reported [] ts (deletions ?tc ?lc calls1 n2)"
    "dp_status langfuse \<noteq> Surface_failed \<and> ''langfuse'' \<in> set selected \<and> ?lc \<noteq> None \<longrightarrow>
       map td_subject ts = ids \<and> (\<forall>r\<in>set ts. td_failed r = [])" unfolding assms(4) receipt(3) by blast
  let ?ds = "deletions ?tc ?lc (ew_calls w) (n1 @ n2)"
  have ds: "?ds = deletions ?tc ?lc (ew_calls w) n1 @ deletions ?tc ?lc calls1 n2" by (simp add: deletions_append n1(1))
  have calls: "map fst ?ds = concat (map execution_calls xs) @ concat (map trace_calls ts)" by (simp add: ds n1(2) n2(2))
  have told: "refusals_reported xs ts ?ds" unfolding ds by (rule refusals_together [OF n1(3) n2(3)])
  have absent: "xs = []" if "''temporal'' \<notin> set selected \<or> ?tc = None"
    using that t xs by (auto simp: erase_temporal_def skipped_part_def Let_def split: if_splits prod.splits)
  have idle: "ts = []" if "''langfuse'' \<notin> set selected \<or> ?lc = None"
    using that l by (auto simp: erase_langfuse_def skipped_part_def assms(4) receipt split: if_splits)
  have asked: "asked opts surface \<longleftrightarrow> surface \<in> set selected" if "surface \<in> {''temporal'', ''langfuse'', ''cache''}" for surface
    using asked_selected [OF plan] that by (auto simp: ERASURE_SURFACES_def)
  have "(\<forall>d\<in>set ?ds. snd d = None)
        \<and> (asked opts ''temporal'' \<and> ?tc \<noteq> None \<longrightarrow> map xd_subject xs = ids)
        \<and> (asked opts ''langfuse'' \<and> ?lc \<noteq> None \<longrightarrow> map td_subject ts = ids)
        \<and> (asked opts ''cache'' \<and> ed_cacheStore deps \<noteq> None \<longrightarrow> map er_subjectId (dp_reports cache) = ids
            \<and> (\<forall>r\<in>set (dp_reports cache). er_failures r = [] \<and> (eo_requireTargetedCache opts \<longrightarrow> er_supported r)))"
    if ok: "\<not> erasureFailed receipt"
  proof -
    have alive: "tp_status temporal \<noteq> Surface_failed" "dp_status langfuse \<noteq> Surface_failed" "dp_status cache \<noteq> Surface_failed"
      using ok receipt by (auto simp: erasureFailed_def)
    have "\<forall>r\<in>set xs. xd_failed r = []" using n1(4) alive(1) absent by fastforce
    moreover have "\<forall>r\<in>set ts. td_failed r = []" using n2(4) alive(2) idle by fastforce
    ultimately have "\<forall>d\<in>set ?ds. snd d = None" using nothing_refused [OF told _ _ calls] by (metis prod.collapse)
    moreover note n1(4) n2(4) cache_told [OF c alive(3)]
    ultimately show ?thesis using alive asked by simp
  qed
  then show ?thesis using n1(1) n2(1) calls told unfolding receipt w' by (intro exI [of _ "n1 @ n2"] exI [of _ ?ds]) simp
qed

section \<open>An example\<close>

definition demo_erase_options :: "bool option \<Rightarrow> erase_options" where
  "demo_erase_options dryRun = \<lparr>eo_actor = ''ops'', eo_dryRun = dryRun, eo_surfaces = None, eo_since = None, eo_until = None,
     eo_executionLimit = None, eo_requireTargetedCache = True\<rparr>"

definition demo_probe :: store_probe where
  "demo_probe = \<lparr>sp_is_object = True, sp_get = True, sp_set = True, sp_eraseSubject = True, sp_class = ''InMemoryCacheStore''\<rparr>"

definition demo_deps :: "memory_keys erase_deps" where
  "demo_deps = \<lparr>ed_temporalClient = Some demo_client, ed_temporalNamespace = None,
     ed_subjectKeystore = Some (memory_keystore demo_random), ed_langfuseClient = Some demo_traces,
     ed_cacheStore = Some demo_probe\<rparr>"

definition demo_world :: "memory_keys erase_world" where
  "demo_world = \<lparr>ew_keys = demo_keys, ew_calls = [],
     ew_store = store_run id ''InMemoryCacheStore'' [Op_set (cacheKey ''a'' ''h'' []) (demo_record [''ann''])]\<rparr>"

lemma erasure_plan: "erase_plan (One_subject ''ann'') (demo_erase_options d) = Inr ([''ann''], ERASURE_SURFACES)"
  by (simp add: erase_plan_def demo_erase_options_def normalizeSubjectIds_def blank_def trim_def is_space_def code_of_def add_unseen_def
      limit_ok_def normalizeSurfaces_def ERASURE_SURFACES_def has_window_def unique_def sort_strings_def require_def)

lemma across_runs:
  assumes "erase_plan subjects opts = Inr (ids, selected)"
  obtains w' receipt where "eraseSubject_across text_of now deps subjects opts w = (w', Inr receipt)" "rc_subjectIds receipt = ids"
proof -
  have "\<exists>w' receipt. eraseSubject_across text_of now deps subjects opts w = (w', Inr receipt) \<and> rc_subjectIds receipt = ids"
    using assms by (simp add: eraseSubject_across_def Let_def case_prod_beta)
  with that show thesis by blast
qed

theorem dry_run_mutates_nothing_witness:
  "\<exists>w' r. eraseSubject_across (\<lambda>_. []) ''now'' demo_deps (One_subject ''ann'') (demo_erase_options None) demo_world = (w', Inr r)
     \<and> ew_keys w' = demo_keys \<and> list_all reads (ew_calls w')"
proof (rule across_runs [OF erasure_plan])
  fix w' r
  assume run: "eraseSubject_across (\<lambda>_. []) ''now'' demo_deps (One_subject ''ann'') (demo_erase_options None) demo_world = (w', Inr r)"
  have "ed_subjectKeystore demo_deps \<in> {None, Some (memory_keystore demo_random)}" by (simp add: demo_deps_def)
  from dry_run_mutates_nothing [OF this _ run] run show ?thesis
    by (auto simp: demo_erase_options_def demo_world_def)
qed

theorem executed_erasure_is_complete_witness:
  "\<exists>w' r. eraseSubject_across (\<lambda>_. []) ''now'' demo_deps (One_subject ''ann'') (demo_erase_options (Some False)) demo_world = (w', Inr r)
     \<and> memory_view (ew_keys w') ''ann'' = Destroyed \<and> memory_view (ew_keys w') ''bob'' = Live (demo_random 1)"
proof (rule across_runs [OF erasure_plan])
  fix w' r
  assume run: "eraseSubject_across (\<lambda>_. []) ''now'' demo_deps (One_subject ''ann'') (demo_erase_options (Some False)) demo_world = (w', Inr r)"
    and ids: "rc_subjectIds r = [''ann'']"
  have "eo_dryRun (demo_erase_options (Some False)) = Some False" "ed_subjectKeystore demo_deps = Some (memory_keystore demo_random)"
    "ed_cacheStore demo_deps = Some demo_probe" "isSubjectErasableCacheStore demo_probe"
    by (simp_all add: demo_erase_options_def demo_deps_def demo_probe_def isSubjectErasableCacheStore_def)
  from executed_erasure_is_complete [OF run this, of id "''InMemoryCacheStore''" "[Op_set (cacheKey ''a'' ''h'' []) (demo_record [''ann''])]"] run ids
  show ?thesis by (auto simp: demo_world_def demo_erase_options_def demo_keys_def memory_view_def)
qed

definition bare_deps :: "memory_keys erase_deps" where
  "bare_deps = \<lparr>ed_temporalClient = Some demo_client, ed_temporalNamespace = None, ed_subjectKeystore = None,
     ed_langfuseClient = None, ed_cacheStore = Some demo_probe\<rparr>"

lemma bare_not_failed:
  assumes "eraseSubject_across (\<lambda>_. []) ''now'' bare_deps (One_subject ''ann'') (demo_erase_options (Some False)) demo_world
      = (w', Inr r)"
  shows "\<not> erasureFailed r \<and> (\<exists>part. tp_executions (rc_temporal r) = Some part \<and> dp_status part = Surface_ok)"
proof (rule across_cases [OF assms])
  fix ids selected st' calls1 temporal calls2 langfuse store' cache
  assume plan: "erase_plan (One_subject ''ann'') (demo_erase_options (Some False)) = Inr (ids, selected)"
    and t: "erase_temporal (\<lambda>_. []) bare_deps (''temporal'' \<in> set selected) ids (eo_dryRun (demo_erase_options (Some False)) \<noteq> Some False)
       (limit_of (eo_executionLimit (demo_erase_options (Some False)))) (ew_keys demo_world, ew_calls demo_world) = ((st', calls1), temporal)"
    and l: "erase_langfuse bare_deps (''langfuse'' \<in> set selected) ids (eo_dryRun (demo_erase_options (Some False)) \<noteq> Some False)
       \<lparr>sw_since = eo_since (demo_erase_options (Some False)), sw_until = eo_until (demo_erase_options (Some False))\<rparr> calls1 = (calls2, langfuse)"
    and c: "erase_cache bare_deps (''cache'' \<in> set selected) ids (eo_dryRun (demo_erase_options (Some False)) \<noteq> Some False)
       (eo_requireTargetedCache (demo_erase_options (Some False))) (ew_store demo_world) = (store', cache)"
    and receipt: "rc_temporal r = temporal" "rc_langfuse r = langfuse" "rc_cache r = cache"
  have sel: "ids = [''ann'']" "selected = ERASURE_SURFACES" using plan erasure_plan by simp_all
  let ?part = "snd (deleteSubjectExecutions (\<lambda>_. []) demo_client [''ann''] None False 1000 [])"
  have "dp_status ?part = Surface_ok" by code_simp
  moreover have "tp_executions temporal = Some ?part \<and> tp_status temporal = temporal_status Surface_skipped (dp_status ?part)"
    using t by (auto simp: erase_temporal_def bare_deps_def sel ERASURE_SURFACES_def demo_erase_options_def limit_of_def
        demo_world_def Let_def split: prod.splits)
  moreover have "dp_status langfuse = Surface_skipped"
    using l by (auto simp: erase_langfuse_def bare_deps_def skipped_part_def sel ERASURE_SURFACES_def)
  moreover have "dp_status cache = Surface_ok"
  proof -
    have "er_failures (snd (eraseSubjectFromCache demo_probe ''ann'' False st)) = []
        \<and> er_supported (snd (eraseSubjectFromCache demo_probe ''ann'' False st))" for st
      by (simp add: eraseSubjectFromCache_def isSubjectErasableCacheStore_def demo_probe_def eraseSubject_def case_prod_beta Let_def)
    with c show ?thesis
      by (auto simp: erase_cache_def bare_deps_def sel ERASURE_SURFACES_def demo_erase_options_def eraseSubjectCache_def
          forEachSubject_def run_subjects.simps(2) erase_cache_one_def case_prod_beta Let_def)
  qed
  ultimately show ?thesis using receipt by (simp add: erasureFailed_def temporal_status_def)
qed

theorem receipt_is_honest_witness:
  "\<exists>w' r. eraseSubject_across (\<lambda>_. []) ''now'' bare_deps (One_subject ''ann'') (demo_erase_options (Some False)) demo_world
      = (w', Inr r)
     \<and> map xd_subject (execution_reports r) = [''ann'']
     \<and> (\<exists>ds :: (outside_call \<times> string option) list. map fst ds = concat (map execution_calls (execution_reports r)) @ concat (map trace_calls (dp_reports (rc_langfuse r)))
          \<and> (\<forall>d\<in>set ds. snd d = None))"
proof (rule across_runs [OF erasure_plan])
  fix w' r
  assume run: "eraseSubject_across (\<lambda>_. []) ''now'' bare_deps (One_subject ''ann'') (demo_erase_options (Some False)) demo_world = (w', Inr r)"
    and ids: "rc_subjectIds r = [''ann'']"
  have ok: "\<not> erasureFailed r" using bare_not_failed [OF run] by blast
  have o: "eo_dryRun (demo_erase_options (Some False)) = Some False" "asked (demo_erase_options (Some False)) ''temporal''"
    "ed_temporalClient bare_deps \<noteq> None" by (simp_all add: demo_erase_options_def asked_def bare_deps_def)
  from receipt_is_honest [OF run o(1) refl refl] o(2,3) ok obtain ds :: "(outside_call \<times> string option) list" where
    "map fst ds = concat (map execution_calls (execution_reports r)) @ concat (map trace_calls (dp_reports (rc_langfuse r)))"
    "\<forall>d\<in>set ds. snd d = None" "map xd_subject (execution_reports r) = rc_subjectIds r" by blast
  with run ids show ?thesis by metis
qed

end
