(* ===== verification/Spec2Isabelle.thy ===== *)
theory Spec2Isabelle
  imports Lifecycle_Claims Fan_Out_Claims Run_Claims Provider_Limits_Claims Activity_Claims Activity_Served
    Policy_Guard Policy_Loosening
    Project_Limits Project_Agreement
    Erase_Claims
begin

text \<open>
  \<^bold>\<open>What this development is.\<close> Typeflux runs LLM activities as durable
  workflows. A YAML spec is derived into a
  plan, the plan is interpreted inside a Temporal workflow, and every activity of the plan runs through one
  executor; policies decide which specs may run, and a subject's data can be erased from every
  surface. The library models these parts of the TypeScript SDK
  (\<open>packages/typescript\<close>) and proves what they promise each other. Definitions keep the names of the
  functions they translate; all of them compute.

  \<^bold>\<open>Shared.\<close> \<open>Prelude\<close> holds the result and option combinators
  (\<open>rbind\<close>, \<open>traverse\<close>, \<open>each\<close>, \<open>require\<close>),
  dotted paths and the collections of simp rules. \<open>Json\<close> holds JavaScript values
  (\<open>jv\<close>), numbers (\<open>jsnum\<close>),
  objects as association lists in property order, and the order of strings. Strings are lists of code units
  below 256.

  \<^bold>\<open>From spec to plan.\<close> \<open>Plan\<close> and \<open>Plan_Guard\<close> are
  \<open>yaml/src/workflow-plan.ts\<close>: the plan types, evaluation
  and rendering of \<open>when:\<close>, context paths, proxy options, and the plan-shape guard
  \<open>planUnsupportedReason\<close> with
  every reason it can give. \<open>Spec\<close> is the part of \<open>yaml/src/spec.ts\<close> that
  derivation reads, with the schema
  minima as \<open>wf_yaml_spec\<close>. \<open>Spec_Checks\<close>, \<open>Context_Roots\<close>,
  \<open>Review_Routes\<close> and \<open>Plan_Build\<close> are
  \<open>yaml/src/build-workflow.ts\<close>: schema chain, compensation, \<open>when:\<close> roots,
  review routes and the derivation
  \<open>workflowPlanFromSpec\<close> with sub-workflow identities. \<open>Plan_Derivation\<close>
  restates the derivation of the steps
  as an inductive relation; \<open>Plan_Build_Facts\<close>, \<open>Plan_Guarantees\<close> and
  \<open>Plan_Fuel\<close> prove what it returns, for
  every source of child identities (locale \<open>identity_provider\<close>, interpreted on
  \<open>resolveSubworkflowIdentity\<close>). The recursion through project references takes fuel;
  \<open>Plan_Fuel\<close> shows that
  one more than the number of declared workflows is always enough. \<open>Plan_Claims\<close> holds the properties.

  \<^bold>\<open>Running a plan.\<close> \<open>Lifecycle\<close> is
  \<open>temporal-yaml/src/lifecycle.ts\<close>, every method of \<open>LifecycleRuntime\<close>
  over
  an explicit state; \<open>Fan_Out\<close> is the worker pool of
  \<open>temporal/src/composition.ts\<close>; \<open>Payload_Limit\<close> the
  payload byte count; \<open>Interpreter\<close> is \<open>temporal-yaml/src/workflows.ts\<close> as
  a machine that runs from event to
  event (answers of activities and child workflows, timers, signals, cancel requests), with every step kind,
  gates and compensations. \<open>Interpreter_Facts\<close> and \<open>Interpreter_Effects\<close>
  describe one step (locale
  \<open>step_effects\<close>: a relation kept by the primitive effects is kept by a whole step),
  \<open>Run_Facts\<close>,
  \<open>Run_Outcome\<close>, \<open>Run_Lifecycle\<close> and
  \<open>Run_Progress\<close> whole runs. \<open>Review_Gates\<close> states what the review gates are meant to
  do as a machine over the plan and the events of a run (\<open>gates_move\<close>), apart from the runtime's
  methods and flags, and shows that every event of a run is a move of it. \<open>Lifecycle_Claims\<close>,
  \<open>Fan_Out_Claims\<close> and \<open>Run_Claims\<close> hold the properties.

  \<^bold>\<open>Running an activity.\<close> \<open>Canonical_Json\<close> is
  \<open>temporal/src/canonical-json.ts\<close>, with \<open>Canonical_Facts\<close> and
  \<open>Canonical_Unique\<close> showing that the text identifies the value.
  \<open>Cache_Store\<close> is \<open>temporal/src/cache.ts\<close> and
  the in-memory store of \<open>execute.ts\<close>; \<open>Cache_Claims\<close> states the contract
  of a store as the locales
  \<open>cache_store\<close> and \<open>erasable_store\<close> and interprets them on it.
  \<open>Provider_Limits\<close> is
  \<open>temporal/src/provider-limits.ts\<close>: the semaphore, the interval slots and the policy
  selection, as steps
  that interleave; \<open>Provider_Limits_Claims\<close> holds its invariant.
  \<open>Messages\<close> and \<open>Artifacts\<close> are the content
  parts, templates, message hashes and artifact groups; \<open>Activity_Call\<close> the data of a
  call with the pure parts
  of \<open>execute.ts\<close>; \<open>Activity_Run\<close> the executor itself, as functions of a
  log of outside calls and a store that
  return or throw. \<open>Activity_Facts\<close> proves once (locales \<open>act_relation\<close>,
  \<open>read_relation\<close>, \<open>call_relation\<close>)
  that a relation kept by single log entries is kept by the executor, and interprets it for each property;
  \<open>Activity_Cache\<close>, \<open>Activity_Served\<close> and \<open>Activity_Claims\<close>
  hold the properties (a second run is served from the store only where its configured code answers by its
  arguments and the stored output parses to itself), \<open>Activity_Example\<close> the call
  they are instantiated at.

  \<^bold>\<open>Policies.\<close> \<open>Policy_Merge\<close> is
  \<open>yaml/src/policy-composition.ts\<close>: the merge of policy layers with its rules
  by field name. \<open>Policy_Merge_Facts\<close> defines when one policy is at least as strict as
  another, \<open>Policy_Compose\<close>
  shows that every composition is at least as strict as its layers, and \<open>Policy_Layers\<close>
  states what the checks
  rely on as the locale \<open>tightening\<close> and interprets it on \<open>composeProjectPolicies\<close>.
  \<open>Secret_References\<close> is \<open>yaml/src/secret-references.ts\<close>.
  \<open>Policy_Check\<close> and \<open>Policy_Admission\<close> are
  \<open>yaml/src/policy-enforcement.ts\<close>, every check, the fail-closed enforcement and the
  guard inside an activity.
  \<open>Policy_Tightening\<close> proves, check by check in the locale, that a composition rejects
  what a layer rejects;
  \<open>Policy_Loosening\<close> has an example for each check in which it need not.
  \<open>Policy_Guard\<close> puts the guard into the executor,
  \<open>Policy_Claims\<close> holds the properties of composition, among them that the cleaning of the composed payload
  loses no constraint of the merge, \<open>Policy_Example\<close>
  the policies of the witnesses.

  \<^bold>\<open>Project policies.\<close> \<open>Project_Resolve\<close> is
  \<open>yaml/src/project-resolve.ts\<close>: the policies a selection extends to
  and their composition. \<open>Project_Closure\<close> is the walk over sub-workflow references and
  the deepest chain,
  \<open>Project_Enforcement\<close> and \<open>Project_Guard\<close> the rest of
  \<open>yaml/src/project-enforcement.ts\<close>: the checks of a
  closure, the binding of risk tiers, the validation report and the guard before a run.
  \<open>Risk_Tiers\<close> gives the
  tiers their linear order. The walk is a partial function whose value \<open>None\<close> is a walk
  that never ends;
  \<open>Project_Agreement\<close> shows that it ends when the resolver knows finitely many workflows
  (\<open>knows_finitely\<close>). \<open>Project_Resolve_Facts\<close>,
  \<open>Project_Closure_Facts\<close> and \<open>Project_Facts\<close> hold the
  lemmas, \<open>Project_Claims\<close>, \<open>Project_Limits\<close> and
  \<open>Project_Agreement\<close> the properties, \<open>Project_Example\<close> and
  \<open>Project_Demo\<close> the project of the witnesses. Failures carry their reason and not its text.

  \<^bold>\<open>Subjects and erasure.\<close> \<open>Subjects\<close> is
  \<open>yaml/src/subjects.ts\<close>: the subjects a start is stamped with.
  \<open>Payload_Codec\<close> is \<open>temporal-yaml/src/payload-codec.ts\<close>, after UTF-8 and
  base64url as Node converts them.
  \<open>Subject_Keystore\<close> and \<open>Subject_Codec\<close> are
  \<open>subject-keystore.ts\<close>: the keystore with its tombstones, key
  ids, bindings, and the codec that seals under a key combined from the records of all subjects of a workflow.
  \<open>Subject_Codec\<close> states the contract of a keystore backend as the locale
  \<open>shredding_keystore\<close>, proves
  the facts of the codec from it and interprets it on the in-memory keystore. \<open>Subject_Executions\<close> is
  \<open>subject-enumeration.ts\<close> and \<open>subject-execution-deletion.ts\<close>,
  \<open>Subject_Traces\<close> is
  \<open>langfuse-observations.ts\<close> and \<open>subject-trace-deletion.ts\<close>,
  \<open>Erase_Subject\<close> is \<open>erase.ts\<close>: the erasure over
  all surfaces, as functions of a log of outside calls, the keystore and the cache. What the services answered
  is read back from the log by replaying its calls against the clients (\<open>replies\<close>,
  \<open>deletions\<close>), so the properties of the trace driver and of the receipt compare the result with the
  answers themselves. The properties stand in
  \<open>Subject_Codec_Claims\<close>, \<open>Erase_Claims\<close> and at the ends of
  \<open>Subjects\<close>, \<open>Subject_Executions\<close> and
  \<open>Subject_Traces\<close>. The type guard \<open>isSubjectKeystore\<close> is left out, since
  the record has all operations; so
  is the expansion of \<open>~\<close> in the path of a key file.

  \<^bold>\<open>Parameters.\<close> SHA-256, AES-GCM, the protobuf encoding of payloads,
  \<open>randomBytes\<close>, the clock, \<open>Math.random\<close>, the environment, Zod's parsing,
  the provider, hooks, checks,
  moderators, registries, resolvers, the files and loaded specs around a project, the Temporal and
  Langfuse clients and the abort signal are
  arguments of the definitions. Those that may
  answer differently each time take the log so far. Where a property relies on one of them, the reliance is a
  named hypothesis with a witness.

  \<^bold>\<open>Not modelled.\<close> Cancellation of a whole workflow execution by the server;
  error texts beyond their kind;
  strings with code units above 255; properties inherited from prototypes; the execution manifest and the
  trace metadata; concurrency between executions on one cache store; YAML loading and the overlay of
  environments on a spec; deployment and process start; the provider adapters, the registries and observers of
  tracing services, control plane, command line, worker entry points and clients, which are input and output
  around these parts.
\<close>

end
